(* ===== verification/Prelude.thy ===== *)
theory Prelude
  imports Main "HOL-Library.Word" "HOL-Library.Sublist"
begin

section \<open>Prelude: machine types, faults, memory and shared lemmas\<close>

text \<open>
  The vocabulary shared by every component theory of the tun2socks library
  (\<^verbatim>\<open>src/app/src/main/jni/badvpn\<close>):
  \<^item> names for the C integer types: \<open>uint8_t\<close>, \<open>uint16_t\<close>, \<open>uint32_t\<close> and \<open>uint64_t\<close> are
    words, \<open>int\<close> is Isabelle's \<open>int\<close> with its bounds written out where the code
    tests for them;
  \<^item> the \<open>fault\<close> type: a failed \<^verbatim>\<open>ASSERT\<close> or an access outside a buffer ends the
    operation with a value, so that "the code never does this" is a theorem about results;
  \<^item> buffers as byte lists with \<open>mem_read\<close> and \<open>mem_write\<close> (\<^verbatim>\<open>memcpy\<close>);
  \<^item> generic lemmas on lists and words used by several components.
\<close>

subsection \<open>Machine types\<close>

type_synonym u8 = "8 word"
type_synonym u16 = "16 word"
type_synonym u32 = "32 word"
type_synonym u64 = "64 word"
type_synonym bytes = "8 word list"

definition INT_MAX :: int where
  "INT_MAX = 2147483647"

definition UINT16_MAX :: int where
  "UINT16_MAX = 65535"

subsection \<open>Faults\<close>

text \<open>
  What C leaves undefined, or what an \<^verbatim>\<open>ASSERT\<close> of the code rules out. An operation that
  can meet such a situation returns \<open>Inl\<close> of the fault; every operation that runs normally
  returns \<open>Inr\<close>.
\<close>

datatype fault =
    Assertion_failed
  | Out_of_bounds

type_synonym 'a result = "fault + 'a"

definition ASSERT :: "bool \<Rightarrow> 'a result \<Rightarrow> 'a result" where
  "ASSERT P r = (if P then r else Inl Assertion_failed)"

definition andthen :: "'a result \<Rightarrow> ('a \<Rightarrow> 'b result) \<Rightarrow> 'b result" where
  "andthen r f = (case r of Inl e \<Rightarrow> Inl e | Inr x \<Rightarrow> f x)"

definition no_fault :: "'a result \<Rightarrow> bool" where
  "no_fault r = (case r of Inl _ \<Rightarrow> False | Inr _ \<Rightarrow> True)"

named_theorems result_simps \<open>rewriting of faults and results\<close>

lemma ASSERT_True [simp]: "P \<Longrightarrow> ASSERT P r = r"
  by (simp add: ASSERT_def)

lemma ASSERT_False [simp]: "\<not> P \<Longrightarrow> ASSERT P r = Inl Assertion_failed"
  by (simp add: ASSERT_def)

lemma ASSERT_Inr [result_simps]: "ASSERT P r = Inr x \<longleftrightarrow> P \<and> r = Inr x"
  by (simp add: ASSERT_def)

lemma andthen_Inr [simp]: "andthen (Inr x) f = f x"
  by (simp add: andthen_def)

lemma andthen_Inl [simp]: "andthen (Inl e) f = Inl e"
  by (simp add: andthen_def)

lemma andthen_eq_Inr [result_simps]:
  "andthen r f = Inr y \<longleftrightarrow> (\<exists>x. r = Inr x \<and> f x = Inr y)"
  by (cases r) (auto simp: andthen_def)

lemma Inr_eq_andthen [result_simps]:
  "Inr y = andthen r f \<longleftrightarrow> (\<exists>x. r = Inr x \<and> f x = Inr y)"
  by (cases r) (auto simp: andthen_def)

lemma Inr_eq_ASSERT [result_simps]: "Inr x = ASSERT P r \<longleftrightarrow> P \<and> r = Inr x"
  by (auto simp: ASSERT_def)

lemma no_fault_Inr [simp]: "no_fault (Inr x)"
  by (simp add: no_fault_def)

lemma no_fault_Inl [simp]: "\<not> no_fault (Inl e)"
  by (simp add: no_fault_def)

lemma no_fault_andthen:
  "no_fault r \<Longrightarrow> (\<And>x. r = Inr x \<Longrightarrow> no_fault (f x)) \<Longrightarrow> no_fault (andthen r f)"
  by (cases r) auto

lemma no_fault_iff: "no_fault r \<longleftrightarrow> (\<exists>x. r = Inr x)"
  by (cases r) auto

subsection \<open>Buffers\<close>

text \<open>
  A block of memory is the list of its bytes. \<open>mem_read buf off len\<close> is the \<open>len\<close> bytes at
  \<open>off\<close>; \<open>mem_write buf off bs\<close> is \<^verbatim>\<open>memcpy(buf + off, bs, length bs)\<close>. Both fault when they
  leave the block. \<open>mem_byte buf i\<close> is \<^verbatim>\<open>buf[i]\<close>.
\<close>

definition mem_read :: "'a list \<Rightarrow> nat \<Rightarrow> nat \<Rightarrow> 'a list result" where
  "mem_read buf off len =
     (if off + len \<le> length buf then Inr (take len (drop off buf)) else Inl Out_of_bounds)"

definition mem_byte :: "'a list \<Rightarrow> nat \<Rightarrow> 'a result" where
  "mem_byte buf i = (if i < length buf then Inr (buf ! i) else Inl Out_of_bounds)"

definition mem_write :: "'a list \<Rightarrow> nat \<Rightarrow> 'a list \<Rightarrow> 'a list result" where
  "mem_write buf off bs =
     (if off + length bs \<le> length buf
      then Inr (take off buf @ bs @ drop (off + length bs) buf) else Inl Out_of_bounds)"

lemma mem_read_Inr [result_simps]:
  "mem_read buf off len = Inr bs \<longleftrightarrow> off + len \<le> length buf \<and> bs = take len (drop off buf)"
  by (auto simp: mem_read_def)

lemma mem_byte_in [simp]: "i < length buf \<Longrightarrow> mem_byte buf i = Inr (buf ! i)"
  by (simp add: mem_byte_def)

lemma mem_byte_Inr [result_simps]: "mem_byte buf i = Inr x \<longleftrightarrow> i < length buf \<and> x = buf ! i"
  by (auto simp: mem_byte_def)

lemma mem_write_Inr [result_simps]:
  "mem_write buf off bs = Inr buf' \<longleftrightarrow>
     off + length bs \<le> length buf \<and> buf' = take off buf @ bs @ drop (off + length bs) buf"
  by (auto simp: mem_write_def)

lemma mem_write_length: "mem_write buf off bs = Inr buf' \<Longrightarrow> length buf' = length buf"
  by (auto simp: mem_write_Inr)

lemma mem_write_read_same:
  "mem_write buf off bs = Inr buf' \<Longrightarrow> mem_read buf' off (length bs) = Inr bs"
  by (auto simp: mem_write_Inr mem_read_def)

lemma mem_write_read_before:
  "mem_write buf off bs = Inr buf' \<Longrightarrow> o2 + len \<le> off \<Longrightarrow>
     mem_read buf' o2 len = mem_read buf o2 len"
  by (auto simp: mem_write_Inr mem_read_def drop_take)

lemma mem_write_read_after:
  "mem_write buf off bs = Inr buf' \<Longrightarrow> off + length bs \<le> o2 \<Longrightarrow>
     mem_read buf' o2 len = mem_read buf o2 len"
  by (auto simp: mem_write_Inr mem_read_def)

subsection \<open>Words as numbers\<close>

lemma word_of_nat_eq_iff_small:
  "a < 2 ^ LENGTH('w::len) \<Longrightarrow> b < 2 ^ LENGTH('w) \<Longrightarrow>
     (word_of_nat a :: 'w word) = word_of_nat b \<longleftrightarrow> a = b"
proof -
  assume "a < 2 ^ LENGTH('w)" and "b < 2 ^ LENGTH('w)"
  then have "unat (word_of_nat a :: 'w word) = a" and "unat (word_of_nat b :: 'w word) = b"
    by (simp_all add: unsigned_of_nat take_bit_nat_eq_self)
  then show ?thesis by metis
qed

lemma unat_byte_less [simp]: "unat (b :: 8 word) < 256"
  by (rule less_le_trans [OF unsigned_less]) simp

lemma unat_u16_less [simp]: "unat (x :: 16 word) < 65536"
  by (rule less_le_trans [OF unsigned_less]) simp

lemma unat_u32_less [simp]: "unat (x :: 32 word) < 4294967296"
  by (rule less_le_trans [OF unsigned_less]) simp

lemma unat_u64_less [simp]: "unat (x :: 64 word) < 18446744073709551616"
  by (rule less_le_trans [OF unsigned_less]) simp

lemma unat_of_nat_u8: "k < 256 \<Longrightarrow> unat (of_nat k :: u8) = k"
  by (simp add: unsigned_of_nat take_bit_nat_eq_self)

lemma unat_of_nat_u16: "k < 65536 \<Longrightarrow> unat (of_nat k :: u16) = k"
  by (simp add: unsigned_of_nat take_bit_nat_eq_self)

lemma unat_of_nat_u32: "k < 4294967296 \<Longrightarrow> unat (of_nat k :: u32) = k"
  by (simp add: unsigned_of_nat take_bit_nat_eq_self)

lemma length_take_u16 [simp]:
  "length (take (unat (x :: u16) - k) ys) \<le> 65535" "length (take (unat x) ys) \<le> 65535"
  using unat_u16_less [of x] by (auto simp del: unat_u16_less simp: min_le_iff_disj)

lemma sublist_take_drop [simp]: "sublist (take n (drop k xs)) xs"
  using sublist_order.order_trans [OF sublist_take sublist_drop] by blast

end
