(* ===== verification/Byte_Order.thy ===== *)
theory Byte_Order
  imports Prelude
begin

unbundle bit_operations_syntax

section \<open>Byte order: \<^verbatim>\<open>misc/read_write_int.h\<close> and \<^verbatim>\<open>misc/byteorder.h\<close>\<close>

text \<open>
  The reads and writes of integers at a byte pointer, and the conversions between host and
  network order. The Android build defines \<^verbatim>\<open>BADVPN_LITTLE_ENDIAN\<close>, so an integer variable is
  stored with its least significant byte first (\<open>u16_bytes\<close>, \<open>u32_bytes\<close>, \<open>u64_bytes\<close>);
  the conversions to network order exchange the stored bytes.
  Reading or writing past the end of the block is a fault.
\<close>

subsection \<open>Integers read and written through a byte pointer\<close>

definition badvpn_read_le8 :: "bytes \<Rightarrow> u8 result" where
  "badvpn_read_le8 ptr =
     (if 1 \<le> length ptr then Inr
       (push_bit 0 (ucast (ptr ! 0)))
      else Inl Out_of_bounds)"

definition badvpn_read_le16 :: "bytes \<Rightarrow> u16 result" where
  "badvpn_read_le16 ptr =
     (if 2 \<le> length ptr then Inr
       (push_bit 8 (ucast (ptr ! 1)) OR
        push_bit 0 (ucast (ptr ! 0)))
      else Inl Out_of_bounds)"

definition badvpn_read_le32 :: "bytes \<Rightarrow> u32 result" where
  "badvpn_read_le32 ptr =
     (if 4 \<le> length ptr then Inr
       (push_bit 24 (ucast (ptr ! 3)) OR
        push_bit 16 (ucast (ptr ! 2)) OR
        push_bit 8 (ucast (ptr ! 1)) OR
        push_bit 0 (ucast (ptr ! 0)))
      else Inl Out_of_bounds)"

definition badvpn_read_le64 :: "bytes \<Rightarrow> u64 result" where
  "badvpn_read_le64 ptr =
     (if 8 \<le> length ptr then Inr
       (push_bit 56 (ucast (ptr ! 7)) OR
        push_bit 48 (ucast (ptr ! 6)) OR
        push_bit 40 (ucast (ptr ! 5)) OR
        push_bit 32 (ucast (ptr ! 4)) OR
        push_bit 24 (ucast (ptr ! 3)) OR
        push_bit 16 (ucast (ptr ! 2)) OR
        push_bit 8 (ucast (ptr ! 1)) OR
        push_bit 0 (ucast (ptr ! 0)))
      else Inl Out_of_bounds)"

definition badvpn_read_be8 :: "bytes \<Rightarrow> u8 result" where
  "badvpn_read_be8 ptr =
     (if 1 \<le> length ptr then Inr
       (push_bit 0 (ucast (ptr ! 0)))
      else Inl Out_of_bounds)"

definition badvpn_read_be16 :: "bytes \<Rightarrow> u16 result" where
  "badvpn_read_be16 ptr =
     (if 2 \<le> length ptr then Inr
       (push_bit 8 (ucast (ptr ! 0)) OR
        push_bit 0 (ucast (ptr ! 1)))
      else Inl Out_of_bounds)"

definition badvpn_read_be32 :: "bytes \<Rightarrow> u32 result" where
  "badvpn_read_be32 ptr =
     (if 4 \<le> length ptr then Inr
       (push_bit 24 (ucast (ptr ! 0)) OR
        push_bit 16 (ucast (ptr ! 1)) OR
        push_bit 8 (ucast (ptr ! 2)) OR
        push_bit 0 (ucast (ptr ! 3)))
      else Inl Out_of_bounds)"

definition badvpn_read_be64 :: "bytes \<Rightarrow> u64 result" where
  "badvpn_read_be64 ptr =
     (if 8 \<le> length ptr then Inr
       (push_bit 56 (ucast (ptr ! 0)) OR
        push_bit 48 (ucast (ptr ! 1)) OR
        push_bit 40 (ucast (ptr ! 2)) OR
        push_bit 32 (ucast (ptr ! 3)) OR
        push_bit 24 (ucast (ptr ! 4)) OR
        push_bit 16 (ucast (ptr ! 5)) OR
        push_bit 8 (ucast (ptr ! 6)) OR
        push_bit 0 (ucast (ptr ! 7)))
      else Inl Out_of_bounds)"

definition badvpn_write_le8 :: "u8 \<Rightarrow> bytes \<Rightarrow> bytes result" where
  "badvpn_write_le8 x ptr =
     (if 1 \<le> length ptr
      then Inr (ptr[0 := ucast (drop_bit 0 x)])
      else Inl Out_of_bounds)"

definition badvpn_write_le16 :: "u16 \<Rightarrow> bytes \<Rightarrow> bytes result" where
  "badvpn_write_le16 x ptr =
     (if 2 \<le> length ptr
      then Inr (ptr[1 := ucast (drop_bit 8 x), 0 := ucast (drop_bit 0 x)])
      else Inl Out_of_bounds)"

definition badvpn_write_le32 :: "u32 \<Rightarrow> bytes \<Rightarrow> bytes result" where
  "badvpn_write_le32 x ptr =
     (if 4 \<le> length ptr
      then Inr (ptr[3 := ucast (drop_bit 24 x), 2 := ucast (drop_bit 16 x), 1 := ucast (drop_bit 8 x), 0 := ucast (drop_bit 0 x)])
      else Inl Out_of_bounds)"

definition badvpn_write_le64 :: "u64 \<Rightarrow> bytes \<Rightarrow> bytes result" where
  "badvpn_write_le64 x ptr =
     (if 8 \<le> length ptr
      then Inr (ptr[7 := ucast (drop_bit 56 x), 6 := ucast (drop_bit 48 x), 5 := ucast (drop_bit 40 x), 4 := ucast (drop_bit 32 x), 3 := ucast (drop_bit 24 x), 2 := ucast (drop_bit 16 x), 1 := ucast (drop_bit 8 x), 0 := ucast (drop_bit 0 x)])
      else Inl Out_of_bounds)"

definition badvpn_write_be8 :: "u8 \<Rightarrow> bytes \<Rightarrow> bytes result" where
  "badvpn_write_be8 x ptr =
     (if 1 \<le> length ptr
      then Inr (ptr[0 := ucast (drop_bit 0 x)])
      else Inl Out_of_bounds)"

definition badvpn_write_be16 :: "u16 \<Rightarrow> bytes \<Rightarrow> bytes result" where
  "badvpn_write_be16 x ptr =
     (if 2 \<le> length ptr
      then Inr (ptr[0 := ucast (drop_bit 8 x), 1 := ucast (drop_bit 0 x)])
      else Inl Out_of_bounds)"

definition badvpn_write_be32 :: "u32 \<Rightarrow> bytes \<Rightarrow> bytes result" where
  "badvpn_write_be32 x ptr =
     (if 4 \<le> length ptr
      then Inr (ptr[0 := ucast (drop_bit 24 x), 1 := ucast (drop_bit 16 x), 2 := ucast (drop_bit 8 x), 3 := ucast (drop_bit 0 x)])
      else Inl Out_of_bounds)"

definition badvpn_write_be64 :: "u64 \<Rightarrow> bytes \<Rightarrow> bytes result" where
  "badvpn_write_be64 x ptr =
     (if 8 \<le> length ptr
      then Inr (ptr[0 := ucast (drop_bit 56 x), 1 := ucast (drop_bit 48 x), 2 := ucast (drop_bit 40 x), 3 := ucast (drop_bit 32 x), 4 := ucast (drop_bit 24 x), 5 := ucast (drop_bit 16 x), 6 := ucast (drop_bit 8 x), 7 := ucast (drop_bit 0 x)])
      else Inl Out_of_bounds)"

subsection \<open>How the little-endian target stores an integer\<close>

definition u16_bytes :: "u16 \<Rightarrow> bytes" where
  "u16_bytes x = [ucast x, ucast (drop_bit 8 x)]"

definition u32_bytes :: "u32 \<Rightarrow> bytes" where
  "u32_bytes x = [ucast x, ucast (drop_bit 8 x), ucast (drop_bit 16 x), ucast (drop_bit 24 x)]"

definition u64_bytes :: "u64 \<Rightarrow> bytes" where
  "u64_bytes x =
     [ucast x, ucast (drop_bit 8 x), ucast (drop_bit 16 x), ucast (drop_bit 24 x),
      ucast (drop_bit 32 x), ucast (drop_bit 40 x), ucast (drop_bit 48 x), ucast (drop_bit 56 x)]"

definition u16_of_bytes :: "u8 \<Rightarrow> u8 \<Rightarrow> u16" where
  "u16_of_bytes b0 b1 = ucast b0 OR push_bit 8 (ucast b1)"

definition u32_of_bytes :: "u8 \<Rightarrow> u8 \<Rightarrow> u8 \<Rightarrow> u8 \<Rightarrow> u32" where
  "u32_of_bytes b0 b1 b2 b3 =
     ucast b0 OR push_bit 8 (ucast b1) OR push_bit 16 (ucast b2) OR push_bit 24 (ucast b3)"

definition u64_of_bytes :: "u8 \<Rightarrow> u8 \<Rightarrow> u8 \<Rightarrow> u8 \<Rightarrow> u8 \<Rightarrow> u8 \<Rightarrow> u8 \<Rightarrow> u8 \<Rightarrow> u64" where
  "u64_of_bytes b0 b1 b2 b3 b4 b5 b6 b7 =
     ucast b0 OR push_bit 8 (ucast b1) OR push_bit 16 (ucast b2) OR push_bit 24 (ucast b3) OR
     push_bit 32 (ucast b4) OR push_bit 40 (ucast b5) OR push_bit 48 (ucast b6) OR
     push_bit 56 (ucast b7)"

subsection \<open>Byte reversal and host/network conversions\<close>

definition badvpn_reverse16 :: "u16 \<Rightarrow> u16" where
  "badvpn_reverse16 x = (let b = u16_bytes x in u16_of_bytes (b ! 1) (b ! 0))"

definition badvpn_reverse32 :: "u32 \<Rightarrow> u32" where
  "badvpn_reverse32 x = (let b = u32_bytes x in u32_of_bytes (b ! 3) (b ! 2) (b ! 1) (b ! 0))"

definition badvpn_reverse64 :: "u64 \<Rightarrow> u64" where
  "badvpn_reverse64 x =
     (let b = u64_bytes x
      in u64_of_bytes (b ! 7) (b ! 6) (b ! 5) (b ! 4) (b ! 3) (b ! 2) (b ! 1) (b ! 0))"

definition hton8 :: "u8 \<Rightarrow> u8" where
  "hton8 x = x"

definition htol8 :: "u8 \<Rightarrow> u8" where
  "htol8 x = x"

definition hton16 :: "u16 \<Rightarrow> u16" where
  "hton16 x = badvpn_reverse16 x"

definition hton32 :: "u32 \<Rightarrow> u32" where
  "hton32 x = badvpn_reverse32 x"

definition hton64 :: "u64 \<Rightarrow> u64" where
  "hton64 x = badvpn_reverse64 x"

definition htol16 :: "u16 \<Rightarrow> u16" where
  "htol16 x = x"

definition htol32 :: "u32 \<Rightarrow> u32" where
  "htol32 x = x"

definition htol64 :: "u64 \<Rightarrow> u64" where
  "htol64 x = x"

definition ntoh8 :: "u8 \<Rightarrow> u8" where
  "ntoh8 x = hton8 x"

definition ntoh16 :: "u16 \<Rightarrow> u16" where
  "ntoh16 x = hton16 x"

definition ntoh32 :: "u32 \<Rightarrow> u32" where
  "ntoh32 x = hton32 x"

definition ntoh64 :: "u64 \<Rightarrow> u64" where
  "ntoh64 x = hton64 x"

definition ltoh8 :: "u8 \<Rightarrow> u8" where
  "ltoh8 x = htol8 x"

definition ltoh16 :: "u16 \<Rightarrow> u16" where
  "ltoh16 x = htol16 x"

definition ltoh32 :: "u32 \<Rightarrow> u32" where
  "ltoh32 x = htol32 x"

definition ltoh64 :: "u64 \<Rightarrow> u64" where
  "ltoh64 x = htol64 x"

named_theorems byte_order_defs \<open>definitions of the conversions\<close>

lemmas read_write_defs =
  badvpn_read_le8_def badvpn_read_le16_def badvpn_read_le32_def badvpn_read_le64_def
  badvpn_read_be8_def badvpn_read_be16_def badvpn_read_be32_def badvpn_read_be64_def
  badvpn_write_le8_def badvpn_write_le16_def badvpn_write_le32_def badvpn_write_le64_def
  badvpn_write_be8_def badvpn_write_be16_def badvpn_write_be32_def badvpn_write_be64_def

declare hton8_def [byte_order_defs] htol8_def [byte_order_defs]
  hton16_def [byte_order_defs] hton32_def [byte_order_defs] hton64_def [byte_order_defs]
  htol16_def [byte_order_defs] htol32_def [byte_order_defs] htol64_def [byte_order_defs]
  ntoh8_def [byte_order_defs] ntoh16_def [byte_order_defs] ntoh32_def [byte_order_defs]
  ntoh64_def [byte_order_defs] ltoh8_def [byte_order_defs] ltoh16_def [byte_order_defs]
  ltoh32_def [byte_order_defs] ltoh64_def [byte_order_defs]

subsection \<open>Splitting a word into bytes and joining it again\<close>

lemma bit_shifted_byte:
  fixes x :: "'w::len word"
  assumes "k + 8 \<le> LENGTH('w)"
  shows "bit (push_bit k (ucast (ucast (drop_bit k x) :: 8 word)) :: 'w word) n \<longleftrightarrow>
           k \<le> n \<and> n < k + 8 \<and> bit x n"
  using assms by (auto simp: bit_simps)

lemma bit_low_byte:
  fixes x :: "'w::len word"
  assumes "8 \<le> LENGTH('w)"
  shows "bit (ucast (ucast x :: 8 word) :: 'w word) n \<longleftrightarrow> n < 8 \<and> bit x n"
  using assms by (auto simp: bit_simps)

lemma bit_byte_beyond [simp]: "8 \<le> n \<Longrightarrow> \<not> bit (b :: 8 word) n"
  using bit_imp_le_length [of b n] by auto

lemmas byte_bits = bit_shifted_byte bit_low_byte

lemma join_bytes16: "u16_of_bytes (ucast x) (ucast (drop_bit 8 x)) = x"
  unfolding u16_of_bytes_def
  by (rule bit_word_eqI) (simp add: bit_or_iff byte_bits; arith)

lemma join_bytes32:
  "u32_of_bytes (ucast x) (ucast (drop_bit 8 x)) (ucast (drop_bit 16 x)) (ucast (drop_bit 24 x)) = x"
  unfolding u32_of_bytes_def
  by (rule bit_word_eqI) (simp add: bit_or_iff byte_bits; arith)

lemma join_bytes64:
  "u64_of_bytes (ucast x) (ucast (drop_bit 8 x)) (ucast (drop_bit 16 x)) (ucast (drop_bit 24 x))
     (ucast (drop_bit 32 x)) (ucast (drop_bit 40 x)) (ucast (drop_bit 48 x)) (ucast (drop_bit 56 x)) = x"
  unfolding u64_of_bytes_def
  by (rule bit_word_eqI) (simp add: bit_or_iff byte_bits; arith)

lemma split_bytes16 [simp]: "u16_bytes (u16_of_bytes a b) = [a, b]"
  unfolding u16_of_bytes_def u16_bytes_def
  by (auto intro!: bit_word_eqI simp: bit_simps)

lemma split_bytes32 [simp]: "u32_bytes (u32_of_bytes a b c d) = [a, b, c, d]"
  unfolding u32_of_bytes_def u32_bytes_def
  by (auto intro!: bit_word_eqI simp: bit_simps)

lemma split_bytes64 [simp]: "u64_bytes (u64_of_bytes a b c d e f g h) = [a, b, c, d, e, f, g, h]"
  unfolding u64_of_bytes_def u64_bytes_def
  by (auto intro!: bit_word_eqI simp: bit_simps)

lemma u16_bytes_inverse: "u16_bytes x = [a, b] \<Longrightarrow> u16_of_bytes a b = x"
  using join_bytes16 [of x] by (auto simp: u16_bytes_def)

lemma u32_bytes_inverse: "u32_bytes x = [a, b, c, d] \<Longrightarrow> u32_of_bytes a b c d = x"
  using join_bytes32 [of x] by (auto simp: u32_bytes_def)

lemma u64_bytes_inverse:
  "u64_bytes x = [a, b, c, d, e, f, g, h] \<Longrightarrow> u64_of_bytes a b c d e f g h = x"
  using join_bytes64 [of x] by (auto simp: u64_bytes_def)

lemma length_u16_bytes [simp]: "length (u16_bytes x) = 2"
  by (simp add: u16_bytes_def)

lemma length_u32_bytes [simp]: "length (u32_bytes x) = 4"
  by (simp add: u32_bytes_def)

lemma length_u64_bytes [simp]: "length (u64_bytes x) = 8"
  by (simp add: u64_bytes_def)

lemma u16_bytes_inject [simp]: "u16_bytes x = u16_bytes y \<longleftrightarrow> x = y"
proof
  assume "u16_bytes x = u16_bytes y"
  then show "x = y"
    by (rule trans [OF sym [OF u16_bytes_inverse [OF trans [OF _ u16_bytes_def]]] join_bytes16])
qed simp

lemma u32_bytes_inject [simp]: "u32_bytes x = u32_bytes y \<longleftrightarrow> x = y"
proof
  assume "u32_bytes x = u32_bytes y"
  then show "x = y"
    by (rule trans [OF sym [OF u32_bytes_inverse [OF trans [OF _ u32_bytes_def]]] join_bytes32])
qed simp

subsection \<open>Reversal\<close>

lemma u16_bytes_reverse [simp]: "u16_bytes (badvpn_reverse16 x) = rev (u16_bytes x)"
  by (simp add: badvpn_reverse16_def Let_def) (simp add: u16_bytes_def)

lemma u32_bytes_reverse [simp]: "u32_bytes (badvpn_reverse32 x) = rev (u32_bytes x)"
  by (simp add: badvpn_reverse32_def Let_def) (simp add: u32_bytes_def eval_nat_numeral)

lemma u64_bytes_reverse [simp]: "u64_bytes (badvpn_reverse64 x) = rev (u64_bytes x)"
  by (simp add: badvpn_reverse64_def Let_def) (simp add: u64_bytes_def eval_nat_numeral)

lemma reverse16_reverse16 [simp]: "badvpn_reverse16 (badvpn_reverse16 x) = x"
  by (subst u16_bytes_inject [symmetric]) simp

lemma reverse32_reverse32 [simp]: "badvpn_reverse32 (badvpn_reverse32 x) = x"
  by (subst u32_bytes_inject [symmetric]) simp

subsection \<open>Writing then reading\<close>

lemma join_or16:
  "push_bit 8 (ucast (ucast (drop_bit 8 x) :: 8 word)) OR ucast (ucast x :: 8 word) = (x :: u16)"
  by (rule bit_word_eqI) (simp add: bit_or_iff byte_bits; arith)

lemma join_or32:
  "push_bit 24 (ucast (ucast (drop_bit 24 x) :: 8 word)) OR
   push_bit 16 (ucast (ucast (drop_bit 16 x) :: 8 word)) OR
   push_bit 8 (ucast (ucast (drop_bit 8 x) :: 8 word)) OR ucast (ucast x :: 8 word) = (x :: u32)"
  by (rule bit_word_eqI) (simp add: bit_or_iff byte_bits; arith)

lemma join_or64:
  "push_bit 56 (ucast (ucast (drop_bit 56 x) :: 8 word)) OR
   push_bit 48 (ucast (ucast (drop_bit 48 x) :: 8 word)) OR
   push_bit 40 (ucast (ucast (drop_bit 40 x) :: 8 word)) OR
   push_bit 32 (ucast (ucast (drop_bit 32 x) :: 8 word)) OR
   push_bit 24 (ucast (ucast (drop_bit 24 x) :: 8 word)) OR
   push_bit 16 (ucast (ucast (drop_bit 16 x) :: 8 word)) OR
   push_bit 8 (ucast (ucast (drop_bit 8 x) :: 8 word)) OR ucast (ucast x :: 8 word) = (x :: u64)"
  by (rule bit_word_eqI) (simp add: bit_or_iff byte_bits; arith)

lemmas join_or = join_or16 join_or32 join_or64

lemma write_read_le16:
  "2 \<le> length ptr \<Longrightarrow> andthen (badvpn_write_le16 x ptr) badvpn_read_le16 = Inr x"
  by (cases "ptr = []") (simp_all add: badvpn_write_le16_def badvpn_read_le16_def join_or)

lemma write_read_be16:
  "2 \<le> length ptr \<Longrightarrow> andthen (badvpn_write_be16 x ptr) badvpn_read_be16 = Inr x"
  by (cases "ptr = []") (simp_all add: badvpn_write_be16_def badvpn_read_be16_def join_or)

lemma write_read_le32:
  "4 \<le> length ptr \<Longrightarrow> andthen (badvpn_write_le32 x ptr) badvpn_read_le32 = Inr x"
  by (cases "ptr = []") (simp_all add: badvpn_write_le32_def badvpn_read_le32_def join_or)

lemma write_read_be32:
  "4 \<le> length ptr \<Longrightarrow> andthen (badvpn_write_be32 x ptr) badvpn_read_be32 = Inr x"
  by (cases "ptr = []") (simp_all add: badvpn_write_be32_def badvpn_read_be32_def join_or)

lemma write_read_le64:
  "8 \<le> length ptr \<Longrightarrow> andthen (badvpn_write_le64 x ptr) badvpn_read_le64 = Inr x"
  by (cases "ptr = []") (simp_all add: badvpn_write_le64_def badvpn_read_le64_def join_or)

lemma write_read_be64:
  "8 \<le> length ptr \<Longrightarrow> andthen (badvpn_write_be64 x ptr) badvpn_read_be64 = Inr x"
  by (cases "ptr = []") (simp_all add: badvpn_write_be64_def badvpn_read_be64_def join_or)

lemma write_frame_le64:
  "badvpn_write_le64 x ptr = Inr p \<Longrightarrow> length p = length ptr \<and> drop 8 p = drop 8 ptr"
  by (auto simp: badvpn_write_le64_def split: if_splits)

lemma write_frame_be64:
  "badvpn_write_be64 x ptr = Inr p \<Longrightarrow> length p = length ptr \<and> drop 8 p = drop 8 ptr"
  by (auto simp: badvpn_write_be64_def split: if_splits)

subsection \<open>Network order is big-endian order\<close>

lemma read_be16_u16_bytes: "badvpn_read_be16 (u16_bytes x @ rest) = Inr (badvpn_reverse16 x)"
proof -
  have "u16_bytes (badvpn_reverse16 x) = [ucast (drop_bit 8 x), ucast x]"
    by (simp only: u16_bytes_reverse) (simp add: u16_bytes_def)
  then have "u16_of_bytes (ucast (drop_bit 8 x)) (ucast x) = badvpn_reverse16 x"
    by (rule u16_bytes_inverse)
  then show ?thesis
    by (simp add: badvpn_read_be16_def u16_bytes_def u16_of_bytes_def or.commute)
qed

lemma read_be16_hton16: "badvpn_read_be16 (u16_bytes (hton16 x) @ rest) = Inr x"
  by (simp only: read_be16_u16_bytes hton16_def reverse16_reverse16)

lemma ntoh16_hton16 [simp]: "ntoh16 (hton16 x) = x"
  by (simp add: byte_order_defs)

lemma ntoh32_hton32 [simp]: "ntoh32 (hton32 x) = x"
  by (simp add: byte_order_defs)

lemma hton16_inject [simp]: "hton16 x = hton16 y \<longleftrightarrow> x = y"
  using ntoh16_hton16 by metis

end
