(* ===== verification/Socket_Addr.thy ===== *)
theory Socket_Addr
  imports Byte_Order
begin

section \<open>Socket addresses: \<^verbatim>\<open>system/BAddr.h\<close>\<close>

text \<open>
  \<open>BIPAddr\<close> and \<open>BAddr\<close> are tagged unions of the C code; each tag is a constructor. IP
  addresses and ports are kept in network byte order, as the code keeps them. An IPv6 address
  is the list of its sixteen bytes. \<^verbatim>\<open>getaddrinfo\<close> is code of the C library that reads the
  network: it is a parameter of the definitions that call it.

  The order \<open>BAddr_CompareOrder\<close> is what the connection trees of the udpgw client are sorted
  by; the locale \<open>comparator\<close> states what such a tree needs of a comparison function, and the
  interpretation at the end shows that \<open>BAddr_CompareOrder\<close> provides it on IP addresses.
\<close>

subsection \<open>Comparison functions\<close>

definition B_COMPARE :: "'a::linorder \<Rightarrow> 'a \<Rightarrow> int" where
  "B_COMPARE a b = (if a > b then 1 else 0) - (if a < b then 1 else 0)"

text \<open>The sign of the C library's \<^verbatim>\<open>memcmp\<close> on two blocks of the same length.\<close>

fun memcmp :: "bytes \<Rightarrow> bytes \<Rightarrow> int" where
  "memcmp (a # as) (b # bs) = (if a = b then memcmp as bs else B_COMPARE a b)"
| "memcmp _ _ = 0"

text \<open>
  What a search tree needs of its comparator on the keys it holds: the sign is consistent,
  equal keys are the same key, and the order is transitive.
\<close>

locale comparator =
  fixes cmp :: "'k \<Rightarrow> 'k \<Rightarrow> int" and valid :: "'k \<Rightarrow> bool"
  assumes cmp_refl: "valid x \<Longrightarrow> cmp x x = 0"
    and cmp_eq: "valid x \<Longrightarrow> valid y \<Longrightarrow> cmp x y = 0 \<Longrightarrow> x = y"
    and cmp_antisym: "valid x \<Longrightarrow> valid y \<Longrightarrow> cmp x y > 0 \<longleftrightarrow> cmp y x < 0"
    and cmp_trans: "valid x \<Longrightarrow> valid y \<Longrightarrow> valid z \<Longrightarrow> cmp x y < 0 \<Longrightarrow> cmp y z < 0 \<Longrightarrow> cmp x z < 0"
begin

lemma cmp_zero_iff: "valid x \<Longrightarrow> valid y \<Longrightarrow> cmp x y = 0 \<longleftrightarrow> x = y"
  using cmp_refl cmp_eq by blast

lemma cmp_cases: "valid x \<Longrightarrow> valid y \<Longrightarrow> cmp x y < 0 \<or> x = y \<or> cmp y x < 0"
  using cmp_antisym [of x y] cmp_eq [of x y] by linarith

lemma cmp_asym: "valid x \<Longrightarrow> valid y \<Longrightarrow> cmp x y < 0 \<Longrightarrow> \<not> cmp y x < 0"
  using cmp_antisym [of x y] by linarith

end

subsection \<open>Addresses\<close>

datatype BIPAddr =
    BIPAddr_None
  | BIPAddr_IPv4 u32
  | BIPAddr_IPv6 bytes

datatype BAddr =
    BAddr_None
  | BAddr_IPv4 (ipv4_ip: u32) (ipv4_port: u16)
  | BAddr_IPv6 (ipv6_ip: bytes) (ipv6_port: u16)
  | BAddr_Packet u16 int int int bytes

text \<open>The tag values (\<^verbatim>\<open>BADDR_TYPE_...\<close>), by which addresses of different kinds are ordered.\<close>

fun BAddr_type :: "BAddr \<Rightarrow> int" where
  "BAddr_type BAddr_None = 0"
| "BAddr_type (BAddr_IPv4 _ _) = 1"
| "BAddr_type (BAddr_IPv6 _ _) = 2"
| "BAddr_type (BAddr_Packet _ _ _ _ _) = 5"

fun BAddr_wf :: "BAddr \<Rightarrow> bool" where
  "BAddr_wf (BAddr_IPv6 ip _) = (length ip = 16)"
| "BAddr_wf _ = True"

definition is_ip_addr :: "BAddr \<Rightarrow> bool" where
  "is_ip_addr a = ((BAddr_type a = 1 \<or> BAddr_type a = 2) \<and> BAddr_wf a)"

definition BIPAddr_IsInvalid :: "BIPAddr \<Rightarrow> bool" where
  "BIPAddr_IsInvalid addr = (addr = BIPAddr_None)"

fun BIPAddr_Compare :: "BIPAddr \<Rightarrow> BIPAddr \<Rightarrow> bool" where
  "BIPAddr_Compare (BIPAddr_IPv4 a) (BIPAddr_IPv4 b) = (a = b)"
| "BIPAddr_Compare (BIPAddr_IPv6 a) (BIPAddr_IPv6 b) = (memcmp a b = 0)"
| "BIPAddr_Compare _ _ = False"

fun BAddr_GetPort :: "BAddr \<Rightarrow> u16 result" where
  "BAddr_GetPort (BAddr_IPv4 _ port) = Inr port"
| "BAddr_GetPort (BAddr_IPv6 _ port) = Inr port"
| "BAddr_GetPort _ = Inl Assertion_failed"

fun BAddr_GetIPAddr :: "BAddr \<Rightarrow> BIPAddr" where
  "BAddr_GetIPAddr (BAddr_IPv4 ip _) = BIPAddr_IPv4 ip"
| "BAddr_GetIPAddr (BAddr_IPv6 ip _) = BIPAddr_IPv6 ip"
| "BAddr_GetIPAddr _ = BIPAddr_None"

fun BAddr_SetPort :: "BAddr \<Rightarrow> u16 \<Rightarrow> BAddr result" where
  "BAddr_SetPort (BAddr_IPv4 ip _) port = Inr (BAddr_IPv4 ip port)"
| "BAddr_SetPort (BAddr_IPv6 ip _) port = Inr (BAddr_IPv6 ip port)"
| "BAddr_SetPort _ _ = Inl Assertion_failed"

definition BAddr_MakeNone :: BAddr where
  "BAddr_MakeNone = BAddr_None"

definition BAddr_MakeIPv4 :: "u32 \<Rightarrow> u16 \<Rightarrow> BAddr" where
  "BAddr_MakeIPv4 ip port = BAddr_IPv4 ip port"

definition BAddr_MakeIPv6 :: "bytes \<Rightarrow> u16 \<Rightarrow> BAddr" where
  "BAddr_MakeIPv6 ip port = BAddr_IPv6 (take 16 ip) port"

fun BAddr_MakeFromIpaddrAndPort :: "BIPAddr \<Rightarrow> u16 \<Rightarrow> BAddr" where
  "BAddr_MakeFromIpaddrAndPort BIPAddr_None port = BAddr_MakeNone"
| "BAddr_MakeFromIpaddrAndPort (BIPAddr_IPv4 ip) port = BAddr_MakeIPv4 ip port"
| "BAddr_MakeFromIpaddrAndPort (BIPAddr_IPv6 ip) port = BAddr_MakeIPv6 ip port"

definition BAddr_IsInvalid :: "BAddr \<Rightarrow> bool" where
  "BAddr_IsInvalid addr = (BAddr_type addr = 0)"

fun BAddr_Compare :: "BAddr \<Rightarrow> BAddr \<Rightarrow> bool" where
  "BAddr_Compare (BAddr_IPv4 ip1 port1) (BAddr_IPv4 ip2 port2) = (ip1 = ip2 \<and> port1 = port2)"
| "BAddr_Compare (BAddr_IPv6 ip1 port1) (BAddr_IPv6 ip2 port2) =
     (memcmp ip1 ip2 = 0 \<and> port1 = port2)"
| "BAddr_Compare _ _ = False"

definition BAddr_CompareOrder :: "BAddr \<Rightarrow> BAddr \<Rightarrow> int" where
  "BAddr_CompareOrder addr1 addr2 =
     (let cmp = B_COMPARE (BAddr_type addr1) (BAddr_type addr2)
      in if cmp \<noteq> 0 then cmp
         else case (addr1, addr2) of
           (BAddr_IPv4 i1 p1, BAddr_IPv4 i2 p2) \<Rightarrow>
             (let cmp = B_COMPARE (ntoh32 i1) (ntoh32 i2)
              in if cmp \<noteq> 0 then cmp else B_COMPARE (ntoh16 p1) (ntoh16 p2))
         | (BAddr_IPv6 i1 p1, BAddr_IPv6 i2 p2) \<Rightarrow>
             (let cmp = memcmp i1 i2
              in if cmp \<noteq> 0 then B_COMPARE cmp 0 else B_COMPARE (ntoh16 p1) (ntoh16 p2))
         | _ \<Rightarrow> 0)"

subsection \<open>Laws of the comparisons\<close>

lemma B_COMPARE_simps [simp]:
  "B_COMPARE a b = 0 \<longleftrightarrow> a = b"
  "B_COMPARE a b < 0 \<longleftrightarrow> a < b"
  "0 < B_COMPARE a b \<longleftrightarrow> b < a"
  by (auto simp: B_COMPARE_def)

lemma memcmp_zero: "length a = length b \<Longrightarrow> memcmp a b = 0 \<longleftrightarrow> a = b"
  by (induction a b rule: memcmp.induct) auto

lemma memcmp_sign:
  "memcmp a b > 0 \<longleftrightarrow> memcmp b a < 0"
  by (induction a b rule: memcmp.induct) auto

lemma memcmp_asym: "memcmp a b < 0 \<Longrightarrow> \<not> memcmp b a < 0"
  using memcmp_sign [of b a] by linarith

lemma memcmp_trans:
  "length a = length b \<Longrightarrow> length b = length c \<Longrightarrow>
     memcmp a b < 0 \<Longrightarrow> memcmp b c < 0 \<Longrightarrow> memcmp a c < 0"
proof (induction a arbitrary: b c)
  case Nil
  then show ?case by simp
next
  case (Cons x a)
  obtain y b' where b: "b = y # b'" using Cons.prems(1) by (cases b) auto
  obtain z c' where c: "c = z # c'" using Cons.prems(2) b by (cases c) auto
  show ?case
    using Cons.prems Cons.IH [of b' c'] unfolding b c by (auto split: if_splits)
qed

lemma ntoh16_inject [simp]: "ntoh16 x = ntoh16 y \<longleftrightarrow> x = y"
  by (metis ntoh16_def hton16_def reverse16_reverse16)

lemma ntoh32_inject [simp]: "ntoh32 x = ntoh32 y \<longleftrightarrow> x = y"
  by (metis ntoh32_def hton32_def reverse32_reverse32)

lemmas CompareOrder_simps = BAddr_CompareOrder_def Let_def is_ip_addr_def

interpretation baddr: comparator BAddr_CompareOrder is_ip_addr
proof
  fix x y z :: BAddr
  show "is_ip_addr x \<Longrightarrow> BAddr_CompareOrder x x = 0"
    by (cases x) (auto simp: CompareOrder_simps memcmp_zero)
  show "is_ip_addr x \<Longrightarrow> is_ip_addr y \<Longrightarrow> BAddr_CompareOrder x y = 0 \<Longrightarrow> x = y"
    by (cases x; cases y) (auto simp: CompareOrder_simps memcmp_zero split: if_splits)
  show "is_ip_addr x \<Longrightarrow> is_ip_addr y \<Longrightarrow>
      BAddr_CompareOrder x y > 0 \<longleftrightarrow> BAddr_CompareOrder y x < 0"
    by (cases x; cases y) (auto simp: CompareOrder_simps memcmp_zero memcmp_sign)
  show "is_ip_addr x \<Longrightarrow> is_ip_addr y \<Longrightarrow> is_ip_addr z \<Longrightarrow> BAddr_CompareOrder x y < 0 \<Longrightarrow>
      BAddr_CompareOrder y z < 0 \<Longrightarrow> BAddr_CompareOrder x z < 0"
    by (cases x; cases y; cases z)
      (auto simp: CompareOrder_simps memcmp_zero split: if_splits
        dest: memcmp_asym memcmp_trans [rotated 2])
qed

end
