(* ===== verification/Bavl.thy ===== *)
theory Bavl
  imports Socket_Addr "HOL-Library.Tree"
begin

section \<open>Search trees: \<^verbatim>\<open>structure/BAVL.h\<close>\<close>

text \<open>
  An intrusive AVL tree: the nodes are parts of the objects that are stored, each with the addresses of its parent and of its two children
  and a balance factor. The tree and the memory of its nodes are the state; the functions follow the code, write by write, and \<^verbatim>\<open>link[0]\<close> and \<^verbatim>\<open>link[1]\<close>
  are \<open>bn_link\<close> at \<open>False\<close> and \<open>True\<close>. The loops follow pointers, so on memory that is not a tree they need not end: they are partial functions,
  with \<open>None\<close> for a run that does not end. A NULL pointer that is followed is a fault.

  \<open>bavl_rep\<close> ties a state to the functional tree of its nodes. The theorems at the end are the contract of the tree: insertion and
  removal end, keep the tree balanced and its nodes in order, and change the set of nodes as they should; a lookup finds exactly the node with
  the given value.
\<close>

subsection \<open>State\<close>

record BAVLNode =
  bn_parent :: "nat option"
  bn_link :: "bool \<Rightarrow> nat option"
  bn_balance :: int

record BAVL =
  bv_root :: "nat option"
  bv_mem :: "nat \<Rightarrow> BAVLNode"

definition set_parent :: "BAVL \<Rightarrow> nat \<Rightarrow> nat option \<Rightarrow> BAVL" where
  "set_parent t n p = t\<lparr>bv_mem := (bv_mem t)(n := (bv_mem t n)\<lparr>bn_parent := p\<rparr>)\<rparr>"

definition set_link :: "BAVL \<Rightarrow> nat \<Rightarrow> bool \<Rightarrow> nat option \<Rightarrow> BAVL" where
  "set_link t n d q = t\<lparr>bv_mem := (bv_mem t)(n := (bv_mem t n)\<lparr>bn_link := (bn_link (bv_mem t n))(d := q)\<rparr>)\<rparr>"

definition set_balance :: "BAVL \<Rightarrow> nat \<Rightarrow> int \<Rightarrow> BAVL" where
  "set_balance t n b = t\<lparr>bv_mem := (bv_mem t)(n := (bv_mem t n)\<lparr>bn_balance := b\<rparr>)\<rparr>"

text \<open>Setting the parent of a node that may be NULL, and putting a node in the place of another one under its parent.\<close>

definition set_parent_opt :: "BAVL \<Rightarrow> nat option \<Rightarrow> nat option \<Rightarrow> BAVL" where
  "set_parent_opt t q p = (case q of None \<Rightarrow> t | Some n \<Rightarrow> set_parent t n p)"

definition relink :: "BAVL \<Rightarrow> nat option \<Rightarrow> nat \<Rightarrow> nat option \<Rightarrow> BAVL" where
  "relink t p old q = (case p of None \<Rightarrow> t\<lparr>bv_root := q\<rparr> | Some p \<Rightarrow> set_link t p (Some old = bn_link (bv_mem t p) True) q)"

abbreviation par :: "BAVL \<Rightarrow> nat \<Rightarrow> nat option" where "par t n \<equiv> bn_parent (bv_mem t n)"
abbreviation lnk :: "BAVL \<Rightarrow> nat \<Rightarrow> bool \<Rightarrow> nat option" where "lnk t n d \<equiv> bn_link (bv_mem t n) d"
abbreviation blc :: "BAVL \<Rightarrow> nat \<Rightarrow> int" where "blc t n \<equiv> bn_balance (bv_mem t n)"

subsection \<open>Operations\<close>

definition BAVL_Init :: "(nat \<Rightarrow> BAVLNode) \<Rightarrow> BAVL" where
  "BAVL_Init mem = \<lparr> bv_root = None, bv_mem = mem \<rparr>"

definition BAVL_rotate :: "BAVL \<Rightarrow> nat \<Rightarrow> bool \<Rightarrow> BAVL result" where
  "BAVL_rotate t r dir =
     (case lnk t r (\<not> dir) of None \<Rightarrow> Inl Out_of_bounds
      | Some nr \<Rightarrow>
          let t = set_link t r (\<not> dir) (lnk t nr dir);
              t = set_parent_opt t (lnk t r (\<not> dir)) (Some r);
              t = set_link t nr dir (Some r);
              t = set_parent t nr (par t r);
              t = relink t (par t nr) r (Some nr)
          in Inr (set_parent t r (Some nr)))"

partial_function (option) BAVL_subtree_max :: "BAVL \<Rightarrow> nat \<Rightarrow> nat option" where
  "BAVL_subtree_max t n = (case lnk t n True of None \<Rightarrow> Some n | Some n' \<Rightarrow> BAVL_subtree_max t n')"

definition BAVL_replace_subtree :: "BAVL \<Rightarrow> nat \<Rightarrow> nat option \<Rightarrow> BAVL" where
  "BAVL_replace_subtree t dest n =
     (let t = relink t (par t dest) dest n in set_parent_opt t n (par t dest))"

definition BAVL_swap_adjacent :: "BAVL \<Rightarrow> nat \<Rightarrow> nat \<Rightarrow> BAVL" where
  "BAVL_swap_adjacent t n1 n2 =
     (let (n1, n2) = (if par t n1 = Some n2 then (n2, n1) else (n1, n2));
          side = (Some n2 = lnk t n1 True);
          c = lnk t n1 (\<not> side);
          t = set_link t n1 False (lnk t n2 False);
          t = set_parent_opt t (lnk t n1 False) (Some n1);
          t = set_link t n1 True (lnk t n2 True);
          t = set_parent_opt t (lnk t n1 True) (Some n1);
          t = set_parent t n2 (par t n1);
          t = relink t (par t n2) n1 (Some n2);
          t = set_link t n2 side (Some n1);
          t = set_parent t n1 (Some n2);
          t = set_link t n2 (\<not> side) c
      in set_parent_opt t c (Some n2))"

definition BAVL_swap_apart :: "BAVL \<Rightarrow> nat \<Rightarrow> nat \<Rightarrow> BAVL" where
  "BAVL_swap_apart t n1 n2 =
     (let temp = par t n1;
          t = set_parent t n1 (par t n2);
          t = relink t (par t n1) n2 (Some n1);
          t = set_parent t n2 temp;
          t = relink t (par t n2) n1 (Some n2);
          temp = lnk t n1 False;
          t = set_link t n1 False (lnk t n2 False);
          t = set_parent_opt t (lnk t n1 False) (Some n1);
          t = set_link t n2 False temp;
          t = set_parent_opt t (lnk t n2 False) (Some n2);
          temp = lnk t n1 True;
          t = set_link t n1 True (lnk t n2 True);
          t = set_parent_opt t (lnk t n1 True) (Some n1);
          t = set_link t n2 True temp
      in set_parent_opt t (lnk t n2 True) (Some n2))"

definition BAVL_swap_nodes :: "BAVL \<Rightarrow> nat \<Rightarrow> nat \<Rightarrow> BAVL" where
  "BAVL_swap_nodes t n1 n2 =
     (let t = (if par t n2 = Some n1 \<or> par t n1 = Some n2 then BAVL_swap_adjacent t n1 n2 else BAVL_swap_apart t n1 n2);
          b = blc t n1;
          t = set_balance t n1 (blc t n2)
      in set_balance t n2 b)"

definition BAVL_OPTNEG :: "int \<Rightarrow> bool \<Rightarrow> int" where
  "BAVL_OPTNEG a neg = (if neg then - a else a)"

text \<open>
  One call of \<open>_BAVL_rebalance\<close> up to its recursion: the tree, the node that is now the root of the subtree, and how much
  its height changed. The transformations are for a node whose subtree on the side \<open>bside\<close> is too high.
\<close>

definition BAVL_transform :: "BAVL \<Rightarrow> nat \<Rightarrow> bool \<Rightarrow> int \<Rightarrow> (BAVL \<times> nat \<times> int) result" where
  "BAVL_transform t node bside delta =
     (let bsidef = (if bside then 1 else - 1) in
      case lnk t node bside of None \<Rightarrow> Inl Assertion_failed
      | Some child \<Rightarrow>
          if blc t child * bsidef = 1
          then andthen (BAVL_rotate t node (\<not> bside)) (\<lambda>t.
               Inr (set_balance (set_balance t node 0) child 0, child, delta - 1))
          else if blc t child * bsidef = 0
          then andthen (BAVL_rotate t node (\<not> bside)) (\<lambda>t.
               Inr (set_balance (set_balance t node (1 * bsidef)) child (- 1 * bsidef), child, delta))
          else if blc t child * bsidef = - 1
          then (case lnk t child (\<not> bside) of None \<Rightarrow> Inl Assertion_failed
            | Some gchild \<Rightarrow>
                andthen (BAVL_rotate t child bside) (\<lambda>t.
                andthen (BAVL_rotate t node (\<not> bside)) (\<lambda>t.
                let t = set_balance t node (- max 0 (blc t gchild * bsidef) * bsidef);
                    t = set_balance t child (max 0 (- blc t gchild * bsidef) * bsidef);
                    t = set_balance t gchild 0
                in Inr (t, gchild, delta - 1))))
          else Inl Assertion_failed)"

definition BAVL_rebalance_node :: "BAVL \<Rightarrow> nat \<Rightarrow> bool \<Rightarrow> int \<Rightarrow> (BAVL \<times> nat \<times> int) result" where
  "BAVL_rebalance_node t node side deltac =
     (let delta = max deltac (BAVL_OPTNEG (blc t node) side) - max 0 (BAVL_OPTNEG (blc t node) side) in
      ASSERT (delta \<ge> - 1 \<and> delta \<le> 1)
      (let t = set_balance t node (blc t node - BAVL_OPTNEG deltac side) in
       andthen (if blc t node = 2 \<or> blc t node = - 2 then BAVL_transform t node (blc t node = 2) delta else Inr (t, node, delta))
         (\<lambda>(t, node, delta). ASSERT (delta \<ge> - 1 \<and> delta \<le> 1) (Inr (t, node, delta)))))"

partial_function (option) BAVL_rebalance :: "BAVL \<Rightarrow> nat \<Rightarrow> bool \<Rightarrow> int \<Rightarrow> BAVL result option" where
  "BAVL_rebalance t node side deltac =
     (if \<not> (deltac \<ge> - 1 \<and> deltac \<le> 1) \<or> \<not> (blc t node \<ge> - 1 \<and> blc t node \<le> 1) then Some (Inl Assertion_failed)
      else if deltac = 0 then Some (Inr t)
      else case BAVL_rebalance_node t node side deltac of Inl e \<Rightarrow> Some (Inl e)
        | Inr (t, node, delta) \<Rightarrow>
            (case par t node of None \<Rightarrow> Some (Inr t) | Some p \<Rightarrow> BAVL_rebalance t p (Some node = lnk t p True) delta))"

text \<open>
  The loop that \<open>BAVL_Insert\<close>, \<open>BAVL_Lookup\<close> and \<open>BAVL_LookupExact\<close> share: it goes down from a node by the result of the comparison with
  each node, to the node that compares equal or the last one.
\<close>

partial_function (option) BAVL_find :: "(nat \<Rightarrow> int) \<Rightarrow> BAVL \<Rightarrow> nat \<Rightarrow> (nat \<times> int) result option" where
  "BAVL_find cmpf t c =
     (let r = cmpf c in
      if \<not> (r = - 1 \<or> r = 0 \<or> r = 1) then Some (Inl Assertion_failed)
      else if r = 0 then Some (Inr (c, r))
      else case lnk t c (r = 1) of None \<Rightarrow> Some (Inr (c, r)) | Some c' \<Rightarrow> BAVL_find cmpf t c')"

definition new_node :: "BAVL \<Rightarrow> nat \<Rightarrow> nat option \<Rightarrow> BAVL" where
  "new_node t node p = set_balance (set_link (set_link (set_parent t node p) node False None) node True None) node 0"

text \<open>The results are the tree, the return value and what is stored to \<open>ref\<close>.\<close>

definition BAVL_Insert :: "(nat \<Rightarrow> nat \<Rightarrow> int) \<Rightarrow> BAVL \<Rightarrow> nat \<Rightarrow> (BAVL \<times> bool \<times> nat option) result option" where
  "BAVL_Insert cmp t node =
     (case bv_root t of
        None \<Rightarrow> Some (Inr (new_node (t\<lparr>bv_root := Some node\<rparr>) node None, True, None))
      | Some root \<Rightarrow>
          (case BAVL_find (cmp node) t root of None \<Rightarrow> None | Some (Inl e) \<Rightarrow> Some (Inl e)
           | Some (Inr (c, res)) \<Rightarrow>
               if res = 0 then Some (Inr (t, False, Some c))
               else
                 let side = (res = 1);
                     t = set_link t c side (Some node);
                     t = new_node t node (Some c) in
                 (case BAVL_rebalance t c side 1 of None \<Rightarrow> None | Some (Inl e) \<Rightarrow> Some (Inl e)
                  | Some (Inr t) \<Rightarrow> Some (Inr (t, True, Some c)))))"

definition BAVL_Remove :: "BAVL \<Rightarrow> nat \<Rightarrow> BAVL result option" where
  "BAVL_Remove t node =
     (case (case (lnk t node False, lnk t node True) of
              (Some l, Some _) \<Rightarrow> (case BAVL_subtree_max t l of None \<Rightarrow> None | Some m \<Rightarrow> Some (BAVL_swap_nodes t node m))
            | _ \<Rightarrow> Some t)
      of None \<Rightarrow> None
       | Some t \<Rightarrow>
           if lnk t node False \<noteq> None \<and> lnk t node True \<noteq> None then Some (Inl Assertion_failed)
           else
             let child = (case lnk t node False of Some l \<Rightarrow> Some l | None \<Rightarrow> lnk t node True) in
             (case par t node of
                Some parent \<Rightarrow>
                  let side = (Some node = lnk t parent True) in
                  BAVL_rebalance (BAVL_replace_subtree t node child) parent side (- 1)
              | None \<Rightarrow> Some (Inr (BAVL_replace_subtree t node child))))"

definition BAVL_IsEmpty :: "BAVL \<Rightarrow> bool" where
  "BAVL_IsEmpty t = (bv_root t = None)"

definition BAVL_Lookup :: "(nat \<Rightarrow> int) \<Rightarrow> BAVL \<Rightarrow> nat option result option" where
  "BAVL_Lookup cmpf t =
     (case bv_root t of None \<Rightarrow> Some (Inr None)
      | Some root \<Rightarrow> map_option (\<lambda>r. andthen r (\<lambda>(c, _). Inr (Some c))) (BAVL_find cmpf t root))"

definition BAVL_LookupExact :: "(nat \<Rightarrow> int) \<Rightarrow> BAVL \<Rightarrow> nat option result option" where
  "BAVL_LookupExact cmpf t =
     (case bv_root t of None \<Rightarrow> Some (Inr None)
      | Some root \<Rightarrow> map_option (\<lambda>r. andthen r (\<lambda>(c, res). Inr (if res = 0 then Some c else None))) (BAVL_find cmpf t root))"

subsection \<open>The tree in memory\<close>

text \<open>
  \<open>shape t p q T\<close>: the pointer \<open>q\<close>, in a node \<open>p\<close>, is the root of the functional tree \<open>T\<close>. \<open>mk d x n y\<close> is the node \<open>n\<close> with the child \<open>x\<close> on the side \<open>d\<close> and
  \<open>y\<close> on the other one, so that what holds of one side holds of the other.
\<close>

fun shape :: "BAVL \<Rightarrow> nat option \<Rightarrow> nat option \<Rightarrow> nat tree \<Rightarrow> bool" where
  "shape t p q Leaf = (q = None)"
| "shape t p q (Node l n r) = (q = Some n \<and> par t n = p \<and> shape t (Some n) (lnk t n False) l \<and> shape t (Some n) (lnk t n True) r)"

definition mk :: "bool \<Rightarrow> nat tree \<Rightarrow> nat \<Rightarrow> nat tree \<Rightarrow> nat tree" where
  "mk d x n y = (if d then Node y n x else Node x n y)"

text \<open>The way from a subtree up to the root: the side it is on, the node above it and that node's other subtree.\<close>

type_synonym path = "(bool \<times> nat \<times> nat tree) list"

fun above :: "path \<Rightarrow> nat option" where
  "above [] = None"
| "above ((d, n, s) # c) = Some n"

fun path_shape :: "BAVL \<Rightarrow> nat option \<Rightarrow> path \<Rightarrow> bool" where
  "path_shape t q [] = (bv_root t = q)"
| "path_shape t q ((d, n, s) # c) =
     (lnk t n d = q \<and> shape t (Some n) (lnk t n (\<not> d)) s \<and> par t n = above c \<and> path_shape t (Some n) c)"

fun plug :: "nat tree \<Rightarrow> path \<Rightarrow> nat tree" where
  "plug x [] = x"
| "plug x ((d, n, s) # c) = plug (mk d x n s) c"

fun path_nodes :: "path \<Rightarrow> nat list" where
  "path_nodes [] = []"
| "path_nodes ((d, n, s) # c) = n # inorder s @ path_nodes c"

lemma shape_mk: "shape t p q (mk d x n y) \<longleftrightarrow> q = Some n \<and> par t n = p \<and> shape t (Some n) (lnk t n d) x \<and> shape t (Some n) (lnk t n (\<not> d)) y"
  by (auto simp: mk_def)

lemma set_mk [simp]: "set_tree (mk d x n y) = insert n (set_tree x \<union> set_tree y)"
  by (auto simp: mk_def)

lemma height_mk [simp]: "height (mk d x n y) = 1 + max (height x) (height y)"
  by (simp add: mk_def max.commute)

lemma size_mk [simp]: "size (mk d x n y) = size x + size y + 1"
  by (simp add: mk_def)

lemma inorder_mk: "inorder (mk d x n y) = (if d then inorder y @ n # inorder x else inorder x @ n # inorder y)"
  by (simp add: mk_def)

lemma distinct_mk [simp]: "distinct (inorder (mk d x n y)) \<longleftrightarrow> n \<notin> set_tree x \<and> n \<notin> set_tree y \<and> set_tree x \<inter> set_tree y = {} \<and>
    distinct (inorder x) \<and> distinct (inorder y)"
  by (auto simp: mk_def)

lemma shape_plug: "shape t None (bv_root t) (plug x c) \<longleftrightarrow> (\<exists>q. shape t (above c) q x \<and> path_shape t q c)"
proof (induction c arbitrary: x)
  case Nil
  then show ?case by auto
next
  case (Cons f c)
  obtain d n s where f: "f = (d, n, s)" by (cases f)
  show ?case by (auto simp: f Cons shape_mk)
qed

lemma set_plug: "set_tree (plug x c) = set_tree x \<union> set (path_nodes c)"
  by (induction c arbitrary: x) auto

lemma size_plug: "size (plug x c) = size x + length (path_nodes c)"
  by (induction c arbitrary: x) auto

lemma distinct_plug: "distinct (inorder (plug x c)) \<longleftrightarrow> distinct (inorder x) \<and> distinct (path_nodes c) \<and> set_tree x \<inter> set (path_nodes c) = {}"
  by (induction c arbitrary: x) auto

text \<open>The memory outside the nodes does not matter.\<close>

lemma shape_cong: "(\<And>n. n \<in> set_tree x \<Longrightarrow> par t' n = par t n \<and> bn_link (bv_mem t' n) = bn_link (bv_mem t n)) \<Longrightarrow> shape t' p q x = shape t p q x"
  by (induction x arbitrary: p q) auto

lemma path_shape_cong:
  "bv_root t' = bv_root t \<Longrightarrow> (\<And>n. n \<in> set (path_nodes c) \<Longrightarrow> par t' n = par t n \<and> bn_link (bv_mem t' n) = bn_link (bv_mem t n)) \<Longrightarrow>
    path_shape t' q c = path_shape t q c"
proof (induction c arbitrary: q)
  case Nil
  then show ?case by simp
next
  case (Cons f c)
  obtain d n s where f: "f = (d, n, s)" by (cases f)
  have "shape t' (Some n) (lnk t n (\<not> d)) s = shape t (Some n) (lnk t n (\<not> d)) s" using Cons.prems(2) by (intro shape_cong) (auto simp: f)
  then show ?case using Cons.prems Cons.IH by (simp add: f)
qed

lemma node_update_simps [simp]:
  "bv_root (set_parent t n p) = bv_root t" "bv_root (set_link t n d q) = bv_root t" "bv_root (set_balance t n b) = bv_root t"
  "bv_root (set_parent_opt t q p) = bv_root t"
  "par (set_parent t n p) m = (if m = n then p else par t m)" "par (set_link t n d q) m = par t m" "par (set_balance t n b) m = par t m"
  "par (set_parent_opt t q p) m = (if q = Some m then p else par t m)"
  "bn_link (bv_mem (set_parent t n p) m) = bn_link (bv_mem t m)"
  "bn_link (bv_mem (set_link t n d q) m) = (if m = n then (bn_link (bv_mem t n))(d := q) else bn_link (bv_mem t m))"
  "bn_link (bv_mem (set_balance t n b) m) = bn_link (bv_mem t m)"
  "bn_link (bv_mem (set_parent_opt t r p) m) = bn_link (bv_mem t m)"
  "blc (set_parent t n p) m = blc t m" "blc (set_link t n d q) m = blc t m" "blc (set_balance t n b) m = (if m = n then b else blc t m)"
  "blc (set_parent_opt t q p) m = blc t m"
  by (auto simp: set_parent_def set_link_def set_balance_def set_parent_opt_def split: option.splits)

lemma relink_simps [simp]:
  "par (relink t p x q) m = par t m" "blc (relink t p x q) m = blc t m"
  "bv_root (relink t p x q) = (if p = None then q else bv_root t)"
  "bn_link (bv_mem (relink t p x q) m) =
    (if p = Some m then (bn_link (bv_mem t m))(Some x = lnk t m True := q) else bn_link (bv_mem t m))"
  by (auto simp: relink_def split: option.splits)

lemma shape_root: "shape t p q x \<Longrightarrow> q = (case x of Leaf \<Rightarrow> None | Node l n r \<Rightarrow> Some n)"
  by (cases x) auto

lemma shape_in: "shape t p (Some n) x \<Longrightarrow> n \<in> set_tree x"
  by (cases x) auto

text \<open>A node that takes the place of another one under its parent.\<close>

lemma relink_path:
  assumes c: "path_shape t (Some r) c" and r: "r \<notin> set (path_nodes c)" and d: "distinct (path_nodes c)"
  shows "path_shape (relink t (above c) r q) q c"
proof (cases c)
  case Nil
  then show ?thesis by simp
next
  case (Cons f c')
  obtain d n s where f: "f = (d, n, s)" by (cases f)
  note c' = c [unfolded Cons f path_shape.simps]
  have n: "n \<notin> set_tree s" "n \<notin> set (path_nodes c')" "r \<notin> set_tree s" using d r by (auto simp: Cons f)
  then have ns: "lnk t n (\<not> d) \<noteq> Some r" using c' shape_in by metis
  then have side: "(Some r = lnk t n True) = d" using c' by (cases d) auto
  let ?t = "relink t (Some n) r q"
  have "shape ?t (Some n) (lnk t n (\<not> d)) s" using c' n(1) by (subst shape_cong [of s ?t t]) auto
  moreover have "path_shape ?t (Some n) c'" using c' n(2) by (subst path_shape_cong [of ?t t]) auto
  ultimately show ?thesis using c' side by (simp add: Cons f)
qed

text \<open>A subtree that is moved to another parent.\<close>

lemma shape_move:
  assumes "shape t p q x" "distinct (inorder x)"
    "\<And>n. n \<in> set_tree x \<Longrightarrow> bn_link (bv_mem t' n) = bn_link (bv_mem t n) \<and> par t' n = (if q = Some n then p' else par t n)"
  shows "shape t' p' q x"
proof (cases x)
  case Leaf
  then show ?thesis using assms(1) by simp
next
  case (Node l n r)
  have "shape t' (Some n) (lnk t n False) l" "shape t' (Some n) (lnk t n True) r"
    using assms Node by (subst shape_cong [of _ t' t]; auto)+
  then show ?thesis using assms(1,3) Node by simp
qed

lemma rotate_shape:
  assumes x: "shape t (above c) (Some r) (mk d a r (mk d b nr e))" and c: "path_shape t (Some r) c"
    and dist: "distinct (inorder (plug (mk d a r (mk d b nr e)) c))"
  obtains t' where "BAVL_rotate t r d = Inr t'" "shape t' (above c) (Some nr) (mk d (mk d a r b) nr e)" "path_shape t' (Some nr) c"
    "\<And>m. blc t' m = blc t m"
proof -
  note X = x [unfolded shape_mk]
  have link: "lnk t r (\<not> d) = Some nr" using X by simp
  define t1 where "t1 = set_parent_opt (set_link t r (\<not> d) (lnk t nr d)) (lnk t nr d) (Some r)"
  define t2 where "t2 = set_parent (set_link t1 nr d (Some r)) nr (above c)"
  define t3 where "t3 = relink t2 (above c) r (Some nr)"
  define t' where "t' = set_parent t3 r (Some nr)"
  have ne: "r \<noteq> nr" "r \<notin> set_tree a" "r \<notin> set_tree b" "r \<notin> set_tree e" "nr \<notin> set_tree a" "nr \<notin> set_tree b" "nr \<notin> set_tree e"
    "set_tree a \<inter> set_tree b = {}" "set_tree a \<inter> set_tree e = {}" "set_tree b \<inter> set_tree e = {}" "distinct (inorder b)"
    "r \<notin> set (path_nodes c)" "nr \<notin> set (path_nodes c)" "set_tree a \<inter> set (path_nodes c) = {}" "set_tree b \<inter> set (path_nodes c) = {}"
    "set_tree e \<inter> set (path_nodes c) = {}" "distinct (path_nodes c)"
    using dist by (auto simp: distinct_plug)
  have b_root: "lnk t nr d = Some n \<Longrightarrow> n \<in> set_tree b" for n using X shape_in by metis
  have top: "above c = Some n \<Longrightarrow> n \<in> set (path_nodes c)" for n by (cases c rule: above.cases) auto
  have run: "BAVL_rotate t r d = Inr t'"
  proof -
    have "par t1 r = above c" using X ne b_root by (auto simp: t1_def)
    then show ?thesis using ne X by (simp add: BAVL_rotate_def link Let_def t1_def t2_def t3_def t'_def)
  qed
  have bal: "blc t' m = blc t m" for m by (simp add: t'_def t3_def t2_def t1_def)
  have fields: "bn_link (bv_mem t' n) = (if n = r then (bn_link (bv_mem t r))(\<not> d := lnk t nr d) else if n = nr then (bn_link (bv_mem t nr))(d := Some r)
        else if above c = Some n then (bn_link (bv_mem t n))(Some r = lnk t n True := Some nr) else bn_link (bv_mem t n))"
    "par t' n = (if n = r then Some nr else if n = nr then above c else if lnk t nr d = Some n then Some r else par t n)" for n
    using ne top b_root by (auto simp: t'_def t3_def t2_def t1_def)
  have other: "n \<noteq> r \<and> n \<noteq> nr \<and> above c \<noteq> Some n" if "n \<in> set_tree a \<union> set_tree b \<union> set_tree e" for n
    using that ne(2-7,14-16) by (auto dest!: top)
  have outside_b: "lnk t nr d \<noteq> Some n" if "n \<in> set_tree a \<union> set_tree e" for n
    using that ne(8,10) by (auto dest!: b_root)
  have "shape t' (Some r) (lnk t r d) a = shape t (Some r) (lnk t r d) a" by (rule shape_cong) (use other outside_b in \<open>simp add: fields\<close>)
  moreover have "shape t' (Some r) (lnk t nr d) b" by (rule shape_move [of t "Some nr"]) (use X ne(11) other in \<open>simp_all add: fields\<close>)
  moreover have "shape t' (Some nr) (lnk t nr (\<not> d)) e = shape t (Some nr) (lnk t nr (\<not> d)) e" by (rule shape_cong) (use other outside_b in \<open>simp add: fields\<close>)
  ultimately have sh: "shape t' (above c) (Some nr) (mk d (mk d a r b) nr e)" using ne(1) X by (simp add: shape_mk fields)
  have "path_shape t2 (Some r) c" using c ne b_root by (subst path_shape_cong [of t2 t]) (auto simp: t2_def t1_def)
  then have "path_shape t3 (Some nr) c" unfolding t3_def by (rule relink_path) (use ne in auto)
  then have "path_shape t' (Some nr) c" using ne by (subst path_shape_cong [of t' t3]) (auto simp: t'_def)
  then show ?thesis using that run sh bal by blast
qed

subsection \<open>Balance\<close>

fun bal :: "BAVL \<Rightarrow> nat tree \<Rightarrow> bool" where
  "bal t Leaf = True"
| "bal t (Node l n r) = (blc t n = int (height r) - int (height l) \<and> \<bar>int (height r) - int (height l)\<bar> \<le> 1 \<and> bal t l \<and> bal t r)"

definition sg :: "bool \<Rightarrow> int" where
  "sg d = (if d then 1 else - 1)"

lemma sg_simps [simp]: "sg True = 1" "sg False = - 1" "sg d * sg d = 1" "sg (\<not> d) = - sg d"
  by (auto simp: sg_def)

lemma sg_cases: "sg d = 1 \<or> sg d = - 1"
  by (auto simp: sg_def)

lemma bal_mk: "bal t (mk d x n y) \<longleftrightarrow> blc t n = sg d * (int (height x) - int (height y)) \<and> \<bar>int (height x) - int (height y)\<bar> \<le> 1 \<and> bal t x \<and> bal t y"
  by (auto simp: mk_def)

lemma bal_cong: "(\<And>n. n \<in> set_tree x \<Longrightarrow> blc t' n = blc t n) \<Longrightarrow> bal t' x = bal t x"
  by (induction x) auto

text \<open>Balance along a path, for a subtree that had the height \<open>h\<close>.\<close>

fun path_bal :: "BAVL \<Rightarrow> int \<Rightarrow> path \<Rightarrow> bool" where
  "path_bal t h [] = True"
| "path_bal t h ((d, n, s) # c) =
     (blc t n = sg d * (h - int (height s)) \<and> \<bar>h - int (height s)\<bar> \<le> 1 \<and> bal t s \<and> path_bal t (1 + max h (int (height s))) c)"

lemma path_bal_cong: "(\<And>n. n \<in> set (path_nodes c) \<Longrightarrow> blc t' n = blc t n) \<Longrightarrow> path_bal t' h c = path_bal t h c"
proof (induction c arbitrary: h)
  case Nil
  then show ?case by simp
next
  case (Cons f c)
  obtain d n s where f: "f = (d, n, s)" by (cases f)
  have "bal t' s = bal t s" using Cons.prems by (intro bal_cong) (auto simp: f)
  then show ?case using Cons by (simp add: f)
qed

lemma bal_plug: "bal t (plug x c) \<longleftrightarrow> bal t x \<and> path_bal t (int (height x)) c"
proof (induction c arbitrary: x)
  case Nil
  then show ?case by simp
next
  case (Cons f c)
  obtain d n s where f: "f = (d, n, s)" by (cases f)
  have "int (height (mk d x n s)) = 1 + max (int (height x)) (int (height s))" by simp
  then show ?case using Cons.IH [of "mk d x n s"] by (auto simp: f bal_mk simp del: height_mk)
qed

lemma mk_flip: "mk (\<not> d) y n x = mk d x n y"
  by (simp add: mk_def)

lemma mk_exhaust: "x \<noteq> Leaf \<Longrightarrow> \<exists>l n r. x = mk d l n r"
  by (cases x; cases d) (auto simp: mk_def)

text \<open>A state between two calls: the subtree \<open>x\<close> is in its place and balanced, the path still has the balance for the height \<open>h\<close> the subtree had.\<close>

definition mid_tree :: "BAVL \<Rightarrow> nat option \<Rightarrow> nat tree \<Rightarrow> int \<Rightarrow> path \<Rightarrow> bool" where
  "mid_tree t q x h c \<longleftrightarrow> shape t (above c) q x \<and> path_shape t q c \<and> bal t x \<and> path_bal t h c \<and> distinct (inorder (plug x c))"

lemma inorder_rotate: "inorder (mk d a r (mk d b nr e)) = inorder (mk d (mk d a r b) nr e)"
  by (simp add: inorder_mk)

lemma inorder_plug: "inorder x = inorder y \<Longrightarrow> inorder (plug x c) = inorder (plug y c)"
proof (induction c arbitrary: x y)
  case Nil
  then show ?case by simp
next
  case (Cons f c)
  obtain d n s where f: "f = (d, n, s)" by (cases f)
  show ?case using Cons.IH [of "mk d x n s" "mk d y n s"] Cons.prems by (simp add: f inorder_mk)
qed

text \<open>A single rotation, after which the two balance factors are set.\<close>

lemma transform_single:
  assumes x: "shape t (above c) (Some n) (mk bs (mk bs e ch b) n v)" and c: "path_shape t (Some n) c" "path_bal t h c"
    and dist: "distinct (inorder (plug (mk bs (mk bs e ch b) n v) c))"
    and bals: "bal t e" "bal t b" "bal t v"
    and h: "bn = sg bs * (int (height b) - int (height v))" "\<bar>int (height b) - int (height v)\<bar> \<le> 1"
      "bc = sg bs * (int (height e) - (1 + max (int (height b)) (int (height v))))" "\<bar>int (height e) - (1 + max (int (height b)) (int (height v)))\<bar> \<le> 1"
  obtains t' where "BAVL_rotate t n (\<not> bs) = Inr t'"
    "mid_tree (set_balance (set_balance t' n bn) ch bc) (Some ch) (mk bs e ch (mk bs b n v)) h c"
    "inorder (mk bs e ch (mk bs b n v)) = inorder (mk bs (mk bs e ch b) n v)"
proof -
  have eq: "mk bs (mk bs e ch b) n v = mk (\<not> bs) v n (mk (\<not> bs) b ch e)" "mk bs e ch (mk bs b n v) = mk (\<not> bs) (mk (\<not> bs) v n b) ch e"
    by (simp_all add: mk_def)
  obtain t' where t': "BAVL_rotate t n (\<not> bs) = Inr t'" "shape t' (above c) (Some ch) (mk bs e ch (mk bs b n v))" "path_shape t' (Some ch) c"
    "\<And>m. blc t' m = blc t m"
    using rotate_shape [of t c n "\<not> bs" v b ch e] x c dist unfolding eq by metis
  let ?t = "set_balance (set_balance t' n bn) ch bc"
  have io: "inorder (mk bs e ch (mk bs b n v)) = inorder (mk bs (mk bs e ch b) n v)" unfolding eq by (simp add: inorder_rotate)
  have d2: "distinct (inorder (plug (mk bs e ch (mk bs b n v)) c))" using dist inorder_plug [OF io] by simp
  have notin: "n \<notin> set (path_nodes c)" "ch \<notin> set (path_nodes c)" "n \<noteq> ch" "n \<notin> set_tree e" "n \<notin> set_tree b" "n \<notin> set_tree v"
    "ch \<notin> set_tree e" "ch \<notin> set_tree b" "ch \<notin> set_tree v" using dist by (auto simp: distinct_plug)
  have "shape ?t (above c) (Some ch) (mk bs e ch (mk bs b n v))" using t'(2) by (subst shape_cong [of _ ?t t']) auto
  moreover have "path_shape ?t (Some ch) c" using t'(3) by (subst path_shape_cong [of ?t t']) auto
  moreover have "path_bal ?t h c" using c(2) notin by (subst path_bal_cong [of _ ?t t]) (auto simp: t'(4))
  moreover have "bal ?t e" "bal ?t b" "bal ?t v" using bals notin t'(4) by (subst bal_cong [of _ ?t t]; auto)+
  then have "bal ?t (mk bs e ch (mk bs b n v))" using h notin by (simp add: bal_mk of_nat_max)
  ultimately show ?thesis using that t'(1) io d2 by (simp add: mid_tree_def)
qed

text \<open>A double rotation, with the three balance factors that the code computes.\<close>

lemma transform_double:
  assumes x: "shape t (above c) (Some n) (mk bs (mk bs e ch (mk bs f g k)) n v)" and c: "path_shape t (Some n) c" "path_bal t h c"
    and dist: "distinct (inorder (plug (mk bs (mk bs e ch (mk bs f g k)) n v) c))"
    and bals: "bal t e" "bal t (mk bs f g k)" "bal t v"
    and h: "height e = height v" "max (height f) (height k) = height v"
  obtains t1 t2 where "BAVL_rotate t ch bs = Inr t1" "BAVL_rotate t1 n (\<not> bs) = Inr t2" "blc t2 g = blc t g"
    "mid_tree (set_balance (set_balance (set_balance t2 n (- max 0 (blc t g * sg bs) * sg bs)) ch (max 0 (- blc t g * sg bs) * sg bs)) g 0)
       (Some g) (mk bs (mk bs e ch f) g (mk bs k n v)) h c"
    "inorder (mk bs (mk bs e ch f) g (mk bs k n v)) = inorder (mk bs (mk bs e ch (mk bs f g k)) n v)"
proof -
  let ?T = "mk bs (mk bs e ch f) g (mk bs k n v)" and ?X = "mk bs (mk bs (mk bs e ch f) g k) n v"
  have io1: "inorder ?X = inorder (mk bs (mk bs e ch (mk bs f g k)) n v)" by (simp add: inorder_mk)
  have io: "inorder ?T = inorder ?X" by (simp add: inorder_mk)
  have X: "shape t (Some n) (Some ch) (mk bs e ch (mk bs f g k))" "path_shape t (Some ch) ((bs, n, v) # c)"
    using x c(1) by (auto simp: shape_mk)
  obtain t1 where t1: "BAVL_rotate t ch bs = Inr t1" "shape t1 (Some n) (Some g) (mk bs (mk bs e ch f) g k)"
    "path_shape t1 (Some g) ((bs, n, v) # c)" "\<And>m. blc t1 m = blc t m"
    using rotate_shape [of t "(bs, n, v) # c" ch bs e f g k] X dist by auto
  have X1: "shape t1 (above c) (Some n) ?X" "path_shape t1 (Some n) c" using t1(2,3) by (auto simp: shape_mk)
  have d1: "distinct (inorder (plug ?X c))" using dist inorder_plug [OF io1] by simp
  have eq: "?X = mk (\<not> bs) v n (mk (\<not> bs) k g (mk bs e ch f))" "?T = mk (\<not> bs) (mk (\<not> bs) v n k) g (mk bs e ch f)" by (simp_all add: mk_def)
  obtain t2 where t2: "BAVL_rotate t1 n (\<not> bs) = Inr t2" "shape t2 (above c) (Some g) ?T" "path_shape t2 (Some g) c" "\<And>m. blc t2 m = blc t1 m"
    using rotate_shape [of t1 c n "\<not> bs" v k g "mk bs e ch f"] X1 d1 unfolding eq by metis
  let ?t = "set_balance (set_balance (set_balance t2 n (- max 0 (blc t g * sg bs) * sg bs)) ch (max 0 (- blc t g * sg bs) * sg bs)) g 0"
  have notin: "n \<notin> set (path_nodes c)" "ch \<notin> set (path_nodes c)" "g \<notin> set (path_nodes c)" "n \<noteq> ch" "g \<noteq> ch" "g \<noteq> n"
    "{n, ch, g} \<inter> (set_tree e \<union> set_tree f \<union> set_tree k \<union> set_tree v) = {}" using dist by (auto simp: distinct_plug)
  have same: "blc t2 m = blc t m" for m by (simp add: t2(4) t1(4))
  have "shape ?t (above c) (Some g) ?T" using t2(2) by (subst shape_cong [of _ ?t t2]) auto
  moreover have "path_shape ?t (Some g) c" using t2(3) by (subst path_shape_cong [of ?t t2]) auto
  moreover have "path_bal ?t h c" using c(2) notin by (subst path_bal_cong [of _ ?t t]) (auto simp: same)
  moreover have "bal ?t e" "bal ?t f" "bal ?t k" "bal ?t v" using bals notin same by (subst bal_cong [of _ ?t t]; auto simp: bal_mk)+
  moreover have "blc t g = sg bs * (int (height f) - int (height k))" "\<bar>int (height f) - int (height k)\<bar> \<le> 1" using bals(2) by (auto simp: bal_mk)
  then have "- max 0 (blc t g * sg bs) * sg bs = sg bs * (int (height k) - int (height v))"
    "max 0 (- blc t g * sg bs) * sg bs = sg bs * (int (height e) - int (height f))" "\<bar>int (height k) - int (height v)\<bar> \<le> 1" "\<bar>int (height e) - int (height f)\<bar> \<le> 1"
    using h by (cases bs; auto)+
  moreover have "max (height e) (height f) = height v" "max (height k) (height v) = height v" using h by auto
  ultimately have "mid_tree ?t (Some g) ?T h c"
    using notin inorder_plug [OF io] d1 by (simp add: mid_tree_def bal_mk)
  then show ?thesis using that [OF t1(1) t2(1) same] io io1 by simp
qed

lemma transform_ok:
  assumes x: "shape t (above c) (Some n) (mk bs w n v)" and c: "path_shape t (Some n) c" "path_bal t h c"
    and dist: "distinct (inorder (plug (mk bs w n v) c))" and bals: "bal t w" "bal t v" and hw: "height w = height v + 2"
  shows "\<exists>t' n' T k. BAVL_transform t n bs delta = Inr (t', n', delta - k) \<and> mid_tree t' (Some n') T h c \<and> inorder T = inorder (mk bs w n v) \<and>
    int (height T) = int (height v) + 3 - k \<and> (k = 0 \<or> k = 1)"
proof -
  have "w \<noteq> Leaf" using hw by auto
  then obtain e ch b where w: "w = mk bs e ch b" using mk_exhaust by blast
  have B: "blc t ch = sg bs * (int (height e) - int (height b))" "\<bar>int (height e) - int (height b)\<bar> \<le> 1" "bal t e" "bal t b" using bals(1) by (auto simp: w bal_mk)
  have f: "blc t ch * sg bs = int (height e) - int (height b)" unfolding B(1) by (cases bs) auto
  have hh: "max (height e) (height b) = height v + 1" using hw by (simp add: w)
  have link: "lnk t n bs = Some ch" using x by (auto simp: shape_mk w)
  have sgd: "(if bs then 1 else - 1) = sg bs" by (simp add: sg_def)
  note X = x [unfolded w] dist [unfolded w]
  consider "int (height e) - int (height b) = 1" | "int (height e) - int (height b) = 0" | "int (height e) - int (height b) = - 1" using B(2) by linarith
  then show ?thesis
  proof cases
    case 1
    then have hs: "height e = height v + 1" "height b = height v" using hh by auto
    obtain t' where t': "BAVL_rotate t n (\<not> bs) = Inr t'" "mid_tree (set_balance (set_balance t' n 0) ch 0) (Some ch) (mk bs e ch (mk bs b n v)) h c"
      "inorder (mk bs e ch (mk bs b n v)) = inorder (mk bs (mk bs e ch b) n v)"
      using transform_single [OF X(1) c X(2) B(3,4) bals(2), of 0 0] hs by auto
    show ?thesis using t' 1 hs f
      by (intro exI [of _ "set_balance (set_balance t' n 0) ch 0"] exI [of _ ch] exI [of _ "mk bs e ch (mk bs b n v)"] exI [of _ 1])
        (simp add: BAVL_transform_def link sgd w Let_def)
  next
    case 2
    then have hs: "height e = height v + 1" "height b = height v + 1" using hh by auto
    obtain t' where t': "BAVL_rotate t n (\<not> bs) = Inr t'" "mid_tree (set_balance (set_balance t' n (sg bs)) ch (- sg bs)) (Some ch) (mk bs e ch (mk bs b n v)) h c"
      "inorder (mk bs e ch (mk bs b n v)) = inorder (mk bs (mk bs e ch b) n v)"
      using transform_single [OF X(1) c X(2) B(3,4) bals(2), of "sg bs" "- sg bs"] hs by auto
    have "blc t ch = 0" using 2 B(1) by simp
    then show ?thesis using t' hs
      by (intro exI [of _ "set_balance (set_balance t' n (sg bs)) ch (- sg bs)"] exI [of _ ch] exI [of _ "mk bs e ch (mk bs b n v)"] exI [of _ 0])
        (simp add: BAVL_transform_def link sgd w Let_def)
  next
    case 3
    then have hs: "height e = height v" "height b = height v + 1" using hh by auto
    then have "b \<noteq> Leaf" by auto
    then obtain fl g k where b: "b = mk bs fl g k" using mk_exhaust by blast
    have hf: "max (height fl) (height k) = height v" using hs(2) by (simp add: b)
    have glink: "lnk t ch (\<not> bs) = Some g" using X(1) by (auto simp: shape_mk b)
    obtain t1 t2 where t2: "BAVL_rotate t ch bs = Inr t1" "BAVL_rotate t1 n (\<not> bs) = Inr t2" "blc t2 g = blc t g"
      "mid_tree (set_balance (set_balance (set_balance t2 n (- max 0 (blc t g * sg bs) * sg bs)) ch (max 0 (- blc t g * sg bs) * sg bs)) g 0)
         (Some g) (mk bs (mk bs e ch fl) g (mk bs k n v)) h c"
      "inorder (mk bs (mk bs e ch fl) g (mk bs k n v)) = inorder (mk bs (mk bs e ch (mk bs fl g k)) n v)"
      using transform_double [OF X(1) [unfolded b] c X(2) [unfolded b] B(3) B(4) [unfolded b] bals(2) hs(1) hf] by blast
    have ng: "n \<noteq> g" using X(2) by (auto simp: distinct_plug b)
    have run: "BAVL_transform t n bs delta = Inr (set_balance (set_balance (set_balance t2 n (- max 0 (blc t g * sg bs) * sg bs)) ch (max 0 (- blc t g * sg bs) * sg bs)) g 0, g, delta - 1)"
      using 3 f t2(1-3) ng by (simp add: BAVL_transform_def link sgd glink Let_def)
    have "height (mk bs (mk bs e ch fl) g (mk bs k n v)) = height v + 2" using hs hf by auto
    then show ?thesis using run t2(4,5)
      by (intro exI [of _ "set_balance (set_balance (set_balance t2 n (- max 0 (blc t g * sg bs) * sg bs)) ch (max 0 (- blc t g * sg bs) * sg bs)) g 0"]
        exI [of _ g] exI [of _ "mk bs (mk bs e ch fl) g (mk bs k n v)"] exI [of _ 1]) (simp add: w b)
  qed
qed

lemma rebalance_node_ok:
  assumes x: "shape t (above c) (Some n) (mk d x n y)" and c: "path_shape t (Some n) c" "path_bal t (1 + max h (int (height y))) c"
    and dist: "distinct (inorder (plug (mk d x n y) c))" and bals: "bal t x" "bal t y"
    and b: "blc t n = sg d * (h - int (height y))" "\<bar>h - int (height y)\<bar> \<le> 1"
    and dc: "int (height x) = h + dc" "dc = 1 \<or> dc = - 1"
  shows "\<exists>t' n' T delta. BAVL_rebalance_node t n d dc = Inr (t', n', delta) \<and> mid_tree t' (Some n') T (1 + max h (int (height y))) c \<and>
    inorder T = inorder (mk d x n y) \<and> int (height T) = 1 + max h (int (height y)) + delta \<and> - 1 \<le> delta \<and> delta \<le> 1"
proof -
  let ?H = "1 + max h (int (height y))"
  let ?nb = "sg d * (int (height x) - int (height y))"
  let ?t = "set_balance t n ?nb"
  let ?k = "int (height y) - h"
  define delta where "delta = max dc ?k - max 0 ?k"
  have opt: "BAVL_OPTNEG (blc t n) d = ?k" "blc t n - BAVL_OPTNEG dc d = ?nb" using b(1) dc(1) by (cases d; simp add: BAVL_OPTNEG_def)+
  have delta: "- 1 \<le> delta" "delta \<le> 1" using b(2) dc(2) by (auto simp: delta_def)
  have notin: "n \<notin> set (path_nodes c)" "n \<notin> set_tree x" "n \<notin> set_tree y" using dist by (auto simp: distinct_plug)
  have sh: "shape ?t (above c) (Some n) (mk d x n y)" using x by (subst shape_cong [of _ ?t t]) auto
  have psh: "path_shape ?t (Some n) c" using c(1) by (subst path_shape_cong [of ?t t]) auto
  have pb: "path_bal ?t ?H c" using c(2) notin by (subst path_bal_cong [of _ ?t t]) auto
  have bs: "bal ?t x" "bal ?t y" using bals notin by (subst bal_cong [of _ ?t t]; auto)+
  have run: "BAVL_rebalance_node t n d dc =
    andthen (if ?nb = 2 \<or> ?nb = - 2 then BAVL_transform ?t n (?nb = 2) delta else Inr (?t, n, delta))
      (\<lambda>(t, node, delta). ASSERT (delta \<ge> - 1 \<and> delta \<le> 1) (Inr (t, node, delta)))"
    using delta by (simp add: BAVL_rebalance_node_def opt delta_def Let_def)
  have hx: "int (height x) - int (height y) = dc - ?k" using dc(1) by simp
  have heavy: ?thesis if nb: "?nb = 2 \<or> ?nb = - 2" and w: "mk d x n y = mk (?nb = 2) w n v" and hw: "height w = height v + 2" "bal ?t w" "bal ?t v"
    and k: "\<And>k. k = 0 \<or> k = 1 \<Longrightarrow> int (height v) + 3 - k = ?H + (delta - k) \<and> - 1 \<le> delta - k \<and> delta - k \<le> 1" for w v
  proof -
    obtain t' n' T k where T: "BAVL_transform ?t n (?nb = 2) delta = Inr (t', n', delta - k)" "mid_tree t' (Some n') T ?H c" "inorder T = inorder (mk (?nb = 2) w n v)"
      "int (height T) = int (height v) + 3 - k" "k = 0 \<or> k = 1"
      using transform_ok [of ?t c n "?nb = 2" w v ?H delta] sh psh pb dist hw unfolding w by auto
    then have "BAVL_rebalance_node t n d dc = Inr (t', n', delta - k)" unfolding run using nb k [OF T(5)] by auto
    then show ?thesis using T(2-4) k [OF T(5)] w by (intro exI [of _ t'] exI [of _ n'] exI [of _ T] exI [of _ "delta - k"]) simp
  qed
  consider "\<bar>int (height x) - int (height y)\<bar> \<le> 1" | "int (height x) - int (height y) = 2" | "int (height x) - int (height y) = - 2"
    using b(2) dc by linarith
  then show ?thesis
  proof cases
    case 1
    then have "?nb \<noteq> 2 \<and> ?nb \<noteq> - 2" by (cases d) auto
    then have "BAVL_rebalance_node t n d dc = Inr (?t, n, delta)" unfolding run using delta by simp
    moreover have "mid_tree ?t (Some n) (mk d x n y) ?H c" using sh psh pb dist bs 1 by (simp add: mid_tree_def bal_mk)
    moreover have "int (height (mk d x n y)) = ?H + delta" using dc by (auto simp: delta_def of_nat_max)
    ultimately show ?thesis using delta by blast
  next
    case 2
    have hd: "dc = 1" "?k = - 1" using 2 hx b(2) dc(2) by auto
    have nb: "?nb = 2 \<or> ?nb = - 2" "(?nb = 2) = d" unfolding 2 by (cases d; simp)+
    show ?thesis by (rule heavy [OF nb(1), of x y]) (use 2 hd bs nb(2) in \<open>auto simp: delta_def\<close>)
  next
    case 3
    have hd: "dc = - 1" "?k = 1" using 3 hx b(2) dc(2) by auto
    have nb: "?nb = 2 \<or> ?nb = - 2" "(?nb = 2) = (\<not> d)" unfolding 3 by (cases d; simp)+
    show ?thesis by (rule heavy [OF nb(1), of y x]) (use 3 hd bs nb(2) dc in \<open>auto simp: delta_def mk_flip\<close>)
  qed
qed

text \<open>A tree in memory that is balanced.\<close>

definition bavl_rep :: "BAVL \<Rightarrow> nat tree \<Rightarrow> bool" where
  "bavl_rep t T \<longleftrightarrow> shape t None (bv_root t) T \<and> bal t T \<and> distinct (inorder T)"

lemma mid_tree_done: "mid_tree t q x (int (height x)) c \<Longrightarrow> bavl_rep t (plug x c)"
  unfolding bavl_rep_def mid_tree_def shape_plug bal_plug by blast

lemma path_side:
  assumes "path_shape t (Some n) ((d, m, s) # c)" "n \<notin> set_tree s"
  shows "(Some n = lnk t m True) = d"
  using assms shape_in [of t "Some m" n s] by (cases d) auto

lemma rebalance_step:
  assumes m: "mid_tree t q x h ((d, n, y) # c)" and dc: "int (height x) = h + dc" "dc = 1 \<or> dc = - 1"
  obtains t' n' T delta where "BAVL_rebalance t n d dc = (case c of [] \<Rightarrow> Some (Inr t') | (d', m, s) # c' \<Rightarrow> BAVL_rebalance t' m d' delta)"
    "mid_tree t' (Some n') T (1 + max h (int (height y))) c" "inorder T = inorder (mk d x n y)"
    "int (height T) = 1 + max h (int (height y)) + delta" "- 1 \<le> delta" "delta \<le> 1"
proof -
  have M: "shape t (Some n) q x" "lnk t n d = q" "shape t (Some n) (lnk t n (\<not> d)) y" "par t n = above c" "path_shape t (Some n) c" "bal t x"
    "blc t n = sg d * (h - int (height y))" "\<bar>h - int (height y)\<bar> \<le> 1" "bal t y" "path_bal t (1 + max h (int (height y))) c"
    "distinct (inorder (plug (mk d x n y) c))"
    using m by (auto simp: mid_tree_def)
  have sh: "shape t (above c) (Some n) (mk d x n y)" using M by (simp add: shape_mk)
  obtain t' n' T delta where T: "BAVL_rebalance_node t n d dc = Inr (t', n', delta)" "mid_tree t' (Some n') T (1 + max h (int (height y))) c"
    "inorder T = inorder (mk d x n y)" "int (height T) = 1 + max h (int (height y)) + delta" "- 1 \<le> delta" "delta \<le> 1"
    using rebalance_node_ok [OF sh M(5,10,11,6,9,7,8) dc] by blast
  have sT: "shape t' (above c) (Some n') T" "path_shape t' (Some n') c" "distinct (inorder (plug T c))" using T(2) by (auto simp: mid_tree_def)
  have up: "par t' n' = above c" using sT(1) by (cases T) auto
  have asserts: "\<not> (dc < - 1 \<or> dc > 1)" "\<not> (blc t n < - 1 \<or> blc t n > 1)" "dc \<noteq> 0" using dc(2) M(7,8) by (cases d; auto)+
  have "BAVL_rebalance t n d dc = (case par t' n' of None \<Rightarrow> Some (Inr t') | Some p \<Rightarrow> BAVL_rebalance t' p (Some n' = lnk t' p True) delta)"
    using asserts T(1) by (subst BAVL_rebalance.simps) simp
  moreover have "(Some n' = lnk t' m True) = d'" if "c = (d', m, s) # c'" for d' m s c'
    using sT that shape_in [OF sT(1)] by (intro path_side [of t' n' d' m s c']) (auto simp: distinct_plug)
  ultimately have "BAVL_rebalance t n d dc = (case c of [] \<Rightarrow> Some (Inr t') | (d', m, s) # c' \<Rightarrow> BAVL_rebalance t' m d' delta)"
    unfolding up by (cases c rule: above.cases) auto
  then show ?thesis using that T by blast
qed

lemma rebalance_zero:
  assumes "mid_tree t q x h ((d, n, y) # c)"
  shows "BAVL_rebalance t n d 0 = Some (Inr t)"
proof -
  have "blc t n = sg d * (h - int (height y))" "\<bar>h - int (height y)\<bar> \<le> 1" using assms by (simp_all add: mid_tree_def)
  then have "blc t n \<ge> - 1 \<and> blc t n \<le> 1" by (cases d) auto
  then show ?thesis by (subst BAVL_rebalance.simps) simp
qed

lemma rebalance_ok:
  assumes "mid_tree t q x h ((d, n, y) # c)" "int (height x) = h + dc" "- 1 \<le> dc" "dc \<le> 1"
  shows "\<exists>t' T. BAVL_rebalance t n d dc = Some (Inr t') \<and> bavl_rep t' T \<and> inorder T = inorder (plug x ((d, n, y) # c))"
  using assms
proof (induction c arbitrary: t q x h d n y dc)
  case Nil
  show ?case
  proof (cases "dc = 0")
    case True
    have "BAVL_rebalance t n d dc = Some (Inr t)" unfolding True by (rule rebalance_zero [OF Nil.prems(1)])
    moreover have "bavl_rep t (plug x [(d, n, y)])" using mid_tree_done [of t q x "[(d, n, y)]"] Nil.prems(1,2) True by simp
    ultimately show ?thesis by blast
  next
    case False
    then have "dc = 1 \<or> dc = - 1" using Nil.prems(3,4) by linarith
    then obtain t' n' T delta where
      "BAVL_rebalance t n d dc = (case ([] :: path) of [] \<Rightarrow> Some (Inr t') | (d', m, s) # c' \<Rightarrow> BAVL_rebalance t' m d' delta)"
      "mid_tree t' (Some n') T (1 + max h (int (height y))) []" "inorder T = inorder (mk d x n y)"
      "int (height T) = 1 + max h (int (height y)) + delta" "- 1 \<le> delta" "delta \<le> 1"
      by (rule rebalance_step [OF Nil.prems(1,2)])
    then show ?thesis by (intro exI [of _ t'] exI [of _ T]) (simp add: mid_tree_def bavl_rep_def)
  qed
next
  case (Cons f c)
  obtain d' m s where f: "f = (d', m, s)" by (cases f)
  show ?case
  proof (cases "dc = 0")
    case True
    have "BAVL_rebalance t n d dc = Some (Inr t)" unfolding True by (rule rebalance_zero [OF Cons.prems(1)])
    moreover have "bavl_rep t (plug x ((d, n, y) # f # c))" using mid_tree_done [of t q x "(d, n, y) # f # c"] Cons.prems(1,2) True by simp
    ultimately show ?thesis by blast
  next
    case False
    then have "dc = 1 \<or> dc = - 1" using Cons.prems(3,4) by linarith
    then obtain t' n' T delta where
      T: "BAVL_rebalance t n d dc = (case f # c of [] \<Rightarrow> Some (Inr t') | (d', m, s) # c' \<Rightarrow> BAVL_rebalance t' m d' delta)" "mid_tree t' (Some n') T (1 + max h (int (height y))) (f # c)"
      "inorder T = inorder (mk d x n y)" "int (height T) = 1 + max h (int (height y)) + delta" "- 1 \<le> delta" "delta \<le> 1"
      by (rule rebalance_step [OF Cons.prems(1,2)])
    have eq: "inorder (plug T (f # c)) = inorder (plug (mk d x n y) (f # c))" by (rule inorder_plug [OF T(3)])
    obtain t'' T' where "BAVL_rebalance t' m d' delta = Some (Inr t'')" "bavl_rep t'' T'" "inorder T' = inorder (plug T (f # c))"
      using Cons.IH [OF T(2) [unfolded f] T(4-6)] unfolding f by blast
    then show ?thesis using T(1) eq by (intro exI [of _ t''] exI [of _ T']) (simp add: f)
  qed
qed

subsection \<open>Searching\<close>

fun before :: "path \<Rightarrow> nat list" where
  "before [] = []"
| "before ((d, n, s) # c) = before c @ (if d then inorder s @ [n] else [])"

fun after :: "path \<Rightarrow> nat list" where
  "after [] = []"
| "after ((d, n, s) # c) = (if d then [] else n # inorder s) @ after c"

lemma inorder_plug_split: "inorder (plug x c) = before c @ inorder x @ after c"
proof (induction c arbitrary: x)
  case Nil
  then show ?case by simp
next
  case (Cons f c)
  obtain d n s where f: "f = (d, n, s)" by (cases f)
  show ?case by (simp add: f Cons inorder_mk)
qed

text \<open>
  A function that compares a value with the nodes of a tree that is in order: 1 for the nodes before the value, 0 for at most one, and -1
  for the nodes after it.
\<close>

definition compares :: "(nat \<Rightarrow> int) \<Rightarrow> nat list \<Rightarrow> bool" where
  "compares cf ns \<longleftrightarrow> (\<forall>n\<in>set ns. cf n = - 1 \<or> cf n = 0 \<or> cf n = 1) \<and> sorted_wrt (\<lambda>a b. cf a = 1 \<or> cf b = - 1) ns"

lemma compares_Node: "compares cf (inorder (Node l n r)) \<Longrightarrow>
    compares cf (inorder l) \<and> compares cf (inorder r) \<and> (cf n = - 1 \<or> cf n = 0 \<or> cf n = 1) \<and> (\<forall>a\<in>set_tree l. cf a = 1 \<or> cf n = - 1) \<and> (\<forall>b\<in>set_tree r. cf n = 1 \<or> cf b = - 1)"
  by (auto simp: compares_def sorted_wrt_append)

text \<open>The search ended at the node \<open>n\<close> of \<open>T\<close>, next to the place where the value belongs.\<close>

definition lands :: "BAVL \<Rightarrow> (nat \<Rightarrow> int) \<Rightarrow> nat tree \<Rightarrow> nat \<Rightarrow> bool" where
  "lands t cf T n \<longleftrightarrow> (\<exists>y c. plug Leaf ((cf n = 1, n, y) # c) = T \<and> path_shape t None ((cf n = 1, n, y) # c) \<and>
     (\<forall>a\<in>set (before ((cf n = 1, n, y) # c)). cf a = 1) \<and> (\<forall>b\<in>set (after ((cf n = 1, n, y) # c)). cf b = - 1))"

lemma find_ok:
  assumes "shape t (above c) (Some r) T" "path_shape t (Some r) c" "compares cf (inorder T)"
    "\<And>a. a \<in> set (before c) \<Longrightarrow> cf a = 1" "\<And>b. b \<in> set (after c) \<Longrightarrow> cf b = - 1"
  shows "\<exists>n. BAVL_find cf t r = Some (Inr (n, cf n)) \<and> n \<in> set_tree T \<and> (cf n \<noteq> 0 \<longrightarrow> lands t cf (plug T c) n)"
  using assms
proof (induction T arbitrary: r c)
  case Leaf
  then show ?case by simp
next
  case (Node l n rt)
  have r: "r = n" and sh: "par t n = above c" "shape t (Some n) (lnk t n False) l" "shape t (Some n) (lnk t n True) rt" using Node.prems(1) by auto
  note C = compares_Node [OF Node.prems(3)]
  define x where "x = (if cf n = 1 then rt else l)"
  define y where "y = (if cf n = 1 then l else rt)"
  have eq: "mk (cf n = 1) x n y = Node l n rt" by (simp add: mk_def x_def y_def)
  have xs: "shape t (Some n) (lnk t n (cf n = 1)) x" "shape t (Some n) (lnk t n (\<not> cf n = 1)) y" using sh by (auto simp: x_def y_def)
  have unfold: "BAVL_find cf t n = (if cf n = 0 then Some (Inr (n, cf n))
      else case lnk t n (cf n = 1) of None \<Rightarrow> Some (Inr (n, cf n)) | Some c' \<Rightarrow> BAVL_find cf t c')"
    using C by (subst BAVL_find.simps) (auto simp: Let_def)
  have IHx: "\<exists>k. BAVL_find cf t m = Some (Inr (k, cf k)) \<and> k \<in> set_tree x \<and> (cf k \<noteq> 0 \<longrightarrow> lands t cf (plug x c') k)"
    if "shape t (above c') (Some m) x" "path_shape t (Some m) c'" "compares cf (inorder x)"
      "\<And>a. a \<in> set (before c') \<Longrightarrow> cf a = 1" "\<And>b. b \<in> set (after c') \<Longrightarrow> cf b = - 1" for m c'
  proof (cases "cf n = 1")
    case True
    then have x: "x = rt" by (simp add: x_def)
    show ?thesis using that unfolding x by (rule Node.IH(2))
  next
    case False
    then have x: "x = l" by (simp add: x_def)
    show ?thesis using that unfolding x by (rule Node.IH(1))
  qed
  show ?case
  proof (cases "cf n = 0")
    case True
    then show ?thesis using r unfold by auto
  next
    case False
    have ba: "\<forall>a\<in>set (before ((cf n = 1, n, y) # c)). cf a = 1" "\<forall>b\<in>set (after ((cf n = 1, n, y) # c)). cf b = - 1"
      using Node.prems(4,5) C False by (auto simp: y_def)
    show ?thesis
    proof (cases x)
      case Leaf
      have "path_shape t None ((cf n = 1, n, y) # c)" using xs sh Node.prems(2) Leaf r by simp
      moreover have "plug Leaf ((cf n = 1, n, y) # c) = plug (Node l n rt) c" using eq Leaf by simp
      ultimately have "lands t cf (plug (Node l n rt) c) n" unfolding lands_def using ba by blast
      moreover have "BAVL_find cf t n = Some (Inr (n, cf n))" using unfold False xs(1) Leaf by simp
      ultimately show ?thesis unfolding r by (intro exI [of _ n]) simp
    next
      case (Node xl m xr)
      have m: "lnk t n (cf n = 1) = Some m" using xs(1) Node by simp
      have find: "BAVL_find cf t n = BAVL_find cf t m" using unfold False m by simp
      have cx: "compares cf (inorder x)" using C by (auto simp: x_def)
      have px: "path_shape t (Some m) ((cf n = 1, n, y) # c)" using xs sh Node.prems(2) m r by simp
      have plug: "plug x ((cf n = 1, n, y) # c) = plug (Node l n rt) c" using eq by simp
      have sx: "shape t (above ((cf n = 1, n, y) # c)) (Some m) x" using xs(1) m by simp
      have "\<exists>k. BAVL_find cf t m = Some (Inr (k, cf k)) \<and> k \<in> set_tree x \<and> (cf k \<noteq> 0 \<longrightarrow> lands t cf (plug x ((cf n = 1, n, y) # c)) k)"
        by (rule IHx [OF sx px cx bspec [OF ba(1)] bspec [OF ba(2)]])
      then obtain k where k: "BAVL_find cf t m = Some (Inr (k, cf k))" "k \<in> set_tree x" "cf k \<noteq> 0 \<longrightarrow> lands t cf (plug (Node l n rt) c) k"
        unfolding plug by blast
      have "k \<in> set_tree (Node l n rt)" using k(2) by (auto simp: x_def split: if_splits)
      then show ?thesis unfolding r find using k by blast
    qed
  qed
qed

end
