(* ===== verification/Bavl_Index.thy ===== *)
theory Bavl_Index
  imports Bavl
begin

section \<open>The search tree as an index\<close>

text \<open>
  What the operations of \<^verbatim>\<open>structure/BAVL.h\<close> do to a tree that is in order: insertion, removal and the lookups.
\<close>

subsection \<open>Insertion and lookup\<close>

lemma insert_at:
  assumes rep: "bavl_rep t (plug Leaf ((d, n, y) # c))" and path: "path_shape t None ((d, n, y) # c)"
    and new: "node \<notin> set_tree (plug Leaf ((d, n, y) # c))"
  shows "mid_tree (new_node (set_link t n d (Some node)) node (Some n)) (Some node) (Node Leaf node Leaf) 0 ((d, n, y) # c)"
proof -
  let ?t = "new_node (set_link t n d (Some node)) node (Some n)"
  have dist: "distinct (path_nodes ((d, n, y) # c))" using rep unfolding bavl_rep_def distinct_plug by blast
  have out: "node \<noteq> n" "node \<notin> set_tree y" "node \<notin> set (path_nodes c)" using new by (auto simp: set_plug)
  have n: "n \<notin> set_tree y" "n \<notin> set (path_nodes c)" using dist by auto
  have "shape ?t (Some n) (lnk t n (\<not> d)) y = shape t (Some n) (lnk t n (\<not> d)) y"
    by (rule shape_cong) (use out n in \<open>auto simp: new_node_def\<close>)
  moreover have "path_shape ?t (Some n) c = path_shape t (Some n) c"
    by (rule path_shape_cong) (use out n in \<open>auto simp: new_node_def\<close>)
  ultimately have "path_shape ?t (Some node) ((d, n, y) # c)" using path out(1) by (simp add: new_node_def)
  moreover have "path_bal ?t 0 ((d, n, y) # c) = path_bal t 0 ((d, n, y) # c)"
    by (rule path_bal_cong) (use out in \<open>auto simp: new_node_def\<close>)
  then have "path_bal ?t 0 ((d, n, y) # c)" using rep unfolding bavl_rep_def bal_plug by simp
  ultimately show ?thesis using dist out by (simp add: mid_tree_def new_node_def distinct_plug del: path_shape.simps path_bal.simps)
qed

lemma find_root:
  assumes rep: "bavl_rep t T" and root: "bv_root t = Some r" and cf: "compares cf (inorder T)"
  obtains n where "BAVL_find cf t r = Some (Inr (n, cf n))" "n \<in> set_tree T" "cf n \<noteq> 0 \<Longrightarrow> lands t cf T n"
  using find_ok [of t "[]" r T cf] assms by (auto simp: bavl_rep_def)

lemma BAVL_Insert_ok:
  assumes rep: "bavl_rep t T" and new: "node \<notin> set_tree T" and cf: "compares (cmp node) (inorder T)"
  shows "(\<exists>c\<in>set_tree T. cmp node c = 0 \<and> BAVL_Insert cmp t node = Some (Inr (t, False, Some c))) \<or>
    (\<exists>t' ref T' ns ms. BAVL_Insert cmp t node = Some (Inr (t', True, ref)) \<and> bavl_rep t' T' \<and> inorder T = ns @ ms \<and> inorder T' = ns @ node # ms \<and>
      (\<forall>a\<in>set ns. cmp node a = 1) \<and> (\<forall>b\<in>set ms. cmp node b = - 1) \<and>
      (case ref of None \<Rightarrow> ns = [] \<and> ms = [] | Some n \<Rightarrow> ns \<noteq> [] \<and> n = last ns \<or> ms \<noteq> [] \<and> n = hd ms))"
proof (cases "bv_root t")
  case None
  then have T: "T = Leaf" using rep by (cases T) (auto simp: bavl_rep_def)
  have "bavl_rep (new_node (t\<lparr>bv_root := Some node\<rparr>) node None) (Node Leaf node Leaf)" by (simp add: bavl_rep_def new_node_def)
  then show ?thesis using None T
    by (intro disjI2 exI [of _ "new_node (t\<lparr>bv_root := Some node\<rparr>) node None"] exI [of _ None] exI [of _ "Node Leaf node Leaf"] exI [of _ "[]"])
       (simp add: BAVL_Insert_def)
next
  case (Some r)
  obtain n where n: "BAVL_find (cmp node) t r = Some (Inr (n, cmp node n))" "n \<in> set_tree T" "cmp node n \<noteq> 0 \<Longrightarrow> lands t (cmp node) T n"
    using find_root [OF rep Some cf] by blast
  show ?thesis
  proof (cases "cmp node n = 0")
    case True
    then show ?thesis using Some n by (force simp: BAVL_Insert_def)
  next
    case False
    then obtain d y c where d: "d = (cmp node n = 1)" and T: "T = plug Leaf ((d, n, y) # c)" and path: "path_shape t None ((d, n, y) # c)"
      and ba: "\<forall>a\<in>set (before ((d, n, y) # c)). cmp node a = 1" "\<forall>b\<in>set (after ((d, n, y) # c)). cmp node b = - 1"
      using n(3) unfolding lands_def by blast
    have mid: "mid_tree (new_node (set_link t n d (Some node)) node (Some n)) (Some node) (Node Leaf node Leaf) 0 ((d, n, y) # c)"
      by (rule insert_at) (use rep new path in \<open>simp_all only: T not_False_eq_True\<close>)
    obtain t' T' where t': "BAVL_rebalance (new_node (set_link t n d (Some node)) node (Some n)) n d 1 = Some (Inr t')" "bavl_rep t' T'"
      "inorder T' = inorder (plug (Node Leaf node Leaf) ((d, n, y) # c))"
      using rebalance_ok [OF mid, of 1] by auto
    have "BAVL_Insert cmp t node = Some (Inr (t', True, Some n))" using Some n(1) t'(1) False by (simp add: BAVL_Insert_def Let_def d)
    moreover have "inorder T = before ((d, n, y) # c) @ after ((d, n, y) # c)" unfolding T inorder_plug_split by simp
    moreover have "inorder T' = before ((d, n, y) # c) @ node # after ((d, n, y) # c)" unfolding t'(3) inorder_plug_split by simp
    moreover have "(before ((d, n, y) # c) \<noteq> [] \<and> n = last (before ((d, n, y) # c))) \<or> (after ((d, n, y) # c) \<noteq> [] \<and> n = hd (after ((d, n, y) # c)))"
      by (cases d) simp_all
    ultimately show ?thesis using t'(2) ba
      by (intro disjI2 exI [of _ t'] exI [of _ "Some n"] exI [of _ T'] exI [of _ "before ((d, n, y) # c)"] exI [of _ "after ((d, n, y) # c)"])
         (simp only: option.case simp_thms)
  qed
qed

lemma BAVL_LookupExact_ok:
  assumes rep: "bavl_rep t T" and cf: "compares cf (inorder T)"
  shows "\<exists>q. BAVL_LookupExact cf t = Some (Inr q) \<and> (\<forall>n. q = Some n \<longrightarrow> n \<in> set_tree T \<and> cf n = 0) \<and> (q = None \<longrightarrow> (\<forall>n\<in>set_tree T. cf n \<noteq> 0))"
proof (cases "bv_root t")
  case None
  then have "T = Leaf" using rep by (cases T) (auto simp: bavl_rep_def)
  then show ?thesis using None by (simp add: BAVL_LookupExact_def)
next
  case (Some r)
  obtain n where n: "BAVL_find cf t r = Some (Inr (n, cf n))" "n \<in> set_tree T" "cf n \<noteq> 0 \<Longrightarrow> lands t cf T n"
    using find_root [OF rep Some cf] by blast
  have "cf m \<noteq> 0" if ne: "cf n \<noteq> 0" and m: "m \<in> set_tree T" for m
  proof -
    obtain p where p: "T = plug Leaf p" "\<forall>a\<in>set (before p). cf a = 1" "\<forall>b\<in>set (after p). cf b = - 1" using n(3) [OF ne] unfolding lands_def by metis
    have "m \<in> set (inorder T)" using m by simp
    then show ?thesis using p(2,3) unfolding p(1) inorder_plug_split by auto
  qed
  then show ?thesis using Some n(1,2) by (cases "cf n = 0") (auto simp: BAVL_LookupExact_def)
qed

subsection \<open>Removal\<close>

text \<open>Every node of a tree is at the end of a path.\<close>

lemma path_to: "n \<in> set_tree T \<Longrightarrow> \<exists>l r c. T = plug (Node l n r) c"
proof -
  have "\<exists>l r c'. plug T c = plug (Node l n r) c'" if "n \<in> set_tree T" for c
    using that
  proof (induction T arbitrary: c)
    case (Node l m r)
    have eq: "plug (Node l m r) c = plug l ((False, m, r) # c)" "plug (Node l m r) c = plug r ((True, m, l) # c)" by (simp_all add: mk_def)
    consider "n = m" | "n \<in> set_tree l" | "n \<in> set_tree r" using Node.prems by auto
    then show ?case
    proof cases
      case 1
      then show ?thesis by blast
    next
      case 2
      then show ?thesis using Node.IH(1) unfolding eq(1) by blast
    next
      case 3
      then show ?thesis using Node.IH(2) unfolding eq(2) by blast
    qed
  qed simp
  then show "n \<in> set_tree T \<Longrightarrow> \<exists>l r c. T = plug (Node l n r) c" by (metis plug.simps(1))
qed

text \<open>A node with at most one child, on the side \<open>d\<close>, gives its place to the child.\<close>

lemma replace_mid:
  assumes sh: "shape t (above c) (Some n) (mk d x n Leaf)" and path: "path_shape t (Some n) c"
    and dist: "distinct (inorder (plug (mk d x n Leaf) c))" and b: "bal t x" "path_bal t h c"
  shows "mid_tree (BAVL_replace_subtree t n (lnk t n d)) (lnk t n d) x h c"
proof -
  let ?t = "relink t (above c) n (lnk t n d)"
  have X: "par t n = above c" "shape t (Some n) (lnk t n d) x" using sh by (auto simp: shape_mk)
  have D: "n \<notin> set_tree x" "n \<notin> set (path_nodes c)" "set_tree x \<inter> set (path_nodes c) = {}" "distinct (path_nodes c)" "distinct (inorder x)"
    using dist by (auto simp: distinct_plug)
  have top: "above c = Some m \<Longrightarrow> m \<in> set (path_nodes c)" for m by (cases c rule: above.cases) auto
  have run: "BAVL_replace_subtree t n (lnk t n d) = set_parent_opt ?t (lnk t n d) (above c)" by (simp add: BAVL_replace_subtree_def X Let_def)
  have root: "lnk t n d = Some m \<Longrightarrow> m \<in> set_tree x" for m using X(2) shape_in by metis
  have "path_shape ?t (lnk t n d) c" by (rule relink_path) (use path D in auto)
  then have "path_shape (set_parent_opt ?t (lnk t n d) (above c)) (lnk t n d) c"
    using D(3) root by (subst path_shape_cong [of _ ?t]) auto
  moreover have "shape (set_parent_opt ?t (lnk t n d) (above c)) (above c) (lnk t n d) x"
    by (rule shape_move [OF X(2) D(5)]) (use D(3) in \<open>auto dest!: top\<close>)
  moreover have "path_bal (set_parent_opt ?t (lnk t n d) (above c)) h c = path_bal t h c" by (rule path_bal_cong) simp
  moreover have "bal (set_parent_opt ?t (lnk t n d) (above c)) x = bal t x" by (rule bal_cong) simp
  ultimately show ?thesis using b D unfolding run by (simp add: mid_tree_def distinct_plug)
qed

text \<open>The end of \<open>BAVL_Remove\<close>, for a node with at most one child.\<close>

definition remove_low :: "BAVL \<Rightarrow> nat \<Rightarrow> BAVL result option" where
  "remove_low t node =
     (if lnk t node False \<noteq> None \<and> lnk t node True \<noteq> None then Some (Inl Assertion_failed)
      else
        let child = (case lnk t node False of Some l \<Rightarrow> Some l | None \<Rightarrow> lnk t node True) in
        (case par t node of
           Some parent \<Rightarrow>
             let side = (Some node = lnk t parent True) in
             BAVL_rebalance (BAVL_replace_subtree t node child) parent side (- 1)
         | None \<Rightarrow> Some (Inr (BAVL_replace_subtree t node child))))"

lemma remove_low_ok:
  assumes rep: "bavl_rep t (plug (mk d x n Leaf) c)"
  shows "\<exists>t' T'. remove_low t n = Some (Inr t') \<and> bavl_rep t' T' \<and> inorder T' = before c @ inorder x @ after c"
proof -
  obtain q where "shape t (above c) q (mk d x n Leaf)" "path_shape t q c" using rep unfolding bavl_rep_def shape_plug by blast
  then have sh: "shape t (above c) (Some n) (mk d x n Leaf)" "path_shape t (Some n) c" by (auto simp: shape_mk)
  have B: "bal t (mk d x n Leaf)" "path_bal t (int (height x) + 1) c" using rep unfolding bavl_rep_def bal_plug by (auto simp: add.commute)
  have D: "distinct (inorder (plug (mk d x n Leaf) c))" using rep by (simp add: bavl_rep_def)
  have mid: "mid_tree (BAVL_replace_subtree t n (lnk t n d)) (lnk t n d) x (int (height x) + 1) c"
    by (rule replace_mid) (use sh B D in \<open>auto simp: bal_mk\<close>)
  have X: "par t n = above c" "lnk t n (\<not> d) = None" using sh(1) by (auto simp: shape_mk)
  have child: "(case lnk t n False of Some l \<Rightarrow> Some l | None \<Rightarrow> lnk t n True) = lnk t n d" "\<not> (lnk t n False \<noteq> None \<and> lnk t n True \<noteq> None)"
    using X(2) by (cases d; auto split: option.splits)+
  let ?t = "BAVL_replace_subtree t n (lnk t n d)"
  show ?thesis
  proof (cases c)
    case Nil
    have "remove_low t n = Some (Inr ?t)" unfolding remove_low_def if_not_P [OF child(2)] child(1) X(1) Nil by (simp add: Let_def)
    moreover have "bavl_rep ?t x" using mid by (simp add: Nil mid_tree_def bavl_rep_def)
    ultimately show ?thesis unfolding Nil by auto
  next
    case (Cons f c')
    obtain e m s where f: "f = (e, m, s)" by (cases f)
    have "n \<notin> set_tree s" using D by (auto simp: Cons f distinct_plug)
    then have side: "(Some n = lnk t m True) = e" using path_side [of t n e m s c'] sh(2) Cons f by simp
    have "remove_low t n = BAVL_rebalance ?t m e (- 1)"
      unfolding remove_low_def if_not_P [OF child(2)] child(1) X(1) Cons f by (simp add: Let_def side)
    moreover have "\<exists>t' T'. BAVL_rebalance ?t m e (- 1) = Some (Inr t') \<and> bavl_rep t' T' \<and> inorder T' = inorder (plug x c)"
      unfolding Cons f by (rule rebalance_ok [OF mid [unfolded Cons f]]) auto
    ultimately show ?thesis unfolding inorder_plug_split by simp
  qed
qed

definition hung :: "BAVL \<Rightarrow> nat set \<Rightarrow> nat \<Rightarrow> bool" where
  "hung t S n \<longleftrightarrow> (\<exists>m\<in>S. par t n = Some m \<and> (\<exists>d. lnk t m d = Some n \<and> lnk t m (\<not> d) \<noteq> Some n))"

lemma hung_mono: "hung t S n \<Longrightarrow> S \<subseteq> S' \<Longrightarrow> hung t S' n"
  unfolding hung_def by blast

text \<open>The pointers of the nodes of a tree: a child points to its parent, a parent to its child, and only the root has no parent.\<close>

definition linked :: "BAVL \<Rightarrow> nat set \<Rightarrow> bool" where
  "linked t S \<longleftrightarrow> (\<forall>n\<in>S. \<forall>d k. lnk t n d = Some k \<longrightarrow> k \<in> S \<and> par t k = Some n) \<and>
     (\<forall>n\<in>S. \<forall>p. par t n = Some p \<longrightarrow> p \<in> S \<and> (\<exists>d. lnk t p d = Some n \<and> lnk t p (\<not> d) \<noteq> Some n)) \<and>
     (\<forall>n\<in>S. (par t n = None) = (bv_root t = Some n))"

lemma shape_pointers:
  assumes "shape t p q T" "distinct (inorder T)" "\<And>m. p = Some m \<Longrightarrow> m \<notin> set_tree T"
  shows "(\<forall>n\<in>set_tree T. \<forall>d k. lnk t n d = Some k \<longrightarrow> k \<in> set_tree T \<and> par t k = Some n) \<and>
    (\<forall>n\<in>set_tree T. if q = Some n then par t n = p else hung t (set_tree T) n)"
  using assms
proof (induction T arbitrary: p q)
  case Leaf
  then show ?case by simp
next
  case (Node l n r)
  have S: "q = Some n" "par t n = p" "shape t (Some n) (lnk t n False) l" "shape t (Some n) (lnk t n True) r" using Node.prems(1) by auto
  have D: "n \<notin> set_tree l" "n \<notin> set_tree r" "set_tree l \<inter> set_tree r = {}" "distinct (inorder l)" "distinct (inorder r)" using Node.prems(2) by auto
  note L = Node.IH(1) [OF S(3) D(4)] and R = Node.IH(2) [OF S(4) D(5)]
  have kids: "lnk t n d = Some k \<Longrightarrow> k \<in> (if d then set_tree r else set_tree l) \<and> par t k = Some n" for d k
    using S(3,4) shape_in [of t "Some n" k l] shape_in [of t "Some n" k r] by (cases d; cases l; cases r) auto
  have down: "\<forall>m\<in>set_tree (Node l n r). \<forall>d k. lnk t m d = Some k \<longrightarrow> k \<in> set_tree (Node l n r) \<and> par t k = Some m"
  proof (intro ballI allI impI)
    fix m d k assume m: "m \<in> set_tree (Node l n r)" and k: "lnk t m d = Some k"
    consider "m = n" | "m \<in> set_tree l" | "m \<in> set_tree r" using m by auto
    then show "k \<in> set_tree (Node l n r) \<and> par t k = Some m"
    proof cases
      case 1 then show ?thesis using kids [of d k] k by (auto split: if_splits)
    next
      case 2 then show ?thesis using L k D(1) by auto
    next
      case 3 then show ?thesis using R k D(2) by auto
    qed
  qed
  have up: "if q = Some m then par t m = p else hung t (set_tree (Node l n r)) m"
    if m: "m \<in> set_tree (Node l n r)" for m
  proof -
    have here: "hung t (set_tree (Node l n r)) m" if "lnk t n d = Some m" for d
    proof -
      have "par t m = Some n" "lnk t n (\<not> d) \<noteq> Some m" using kids [of d m] kids [of "\<not> d" m] that D(3) by (auto split: if_splits)
      then show ?thesis using that unfolding hung_def by auto
    qed
    have sub: "set_tree l \<subseteq> set_tree (Node l n r)" "set_tree r \<subseteq> set_tree (Node l n r)" by auto
    consider "m = n" | "m \<in> set_tree l" | "m \<in> set_tree r" using m by auto
    then show ?thesis
    proof cases
      case 1 then show ?thesis using S by simp
    next
      case 2 then show ?thesis using conjunct2 [OF L, rule_format, of m] hung_mono [OF _ sub(1)] D(1) S(1) here [of False] by (cases "lnk t n False = Some m") auto
    next
      case 3 then show ?thesis using conjunct2 [OF R, rule_format, of m] hung_mono [OF _ sub(2)] D(2) S(1) here [of True] by (cases "lnk t n True = Some m") auto
    qed
  qed
  show ?case using down up by blast
qed

lemma bavl_linked:
  assumes "bavl_rep t T"
  shows "linked t (set_tree T)"
proof -
  have sh: "shape t None (bv_root t) T" "distinct (inorder T)" using assms by (auto simp: bavl_rep_def)
  have P: "\<forall>n\<in>set_tree T. \<forall>d k. lnk t n d = Some k \<longrightarrow> k \<in> set_tree T \<and> par t k = Some n"
    "\<forall>n\<in>set_tree T. if bv_root t = Some n then par t n = None else hung t (set_tree T) n"
    using shape_pointers [OF sh] by blast+
  have "\<forall>n\<in>set_tree T. (par t n = None) = (bv_root t = Some n)" "\<forall>n\<in>set_tree T. \<forall>p. par t n = Some p \<longrightarrow> p \<in> set_tree T \<and> (\<exists>d. lnk t p d = Some n \<and> lnk t p (\<not> d) \<noteq> Some n)"
  proof (intro ballI)
    fix n assume n: "n \<in> set_tree T"
    show "(par t n = None) = (bv_root t = Some n)" using P(2) [rule_format, OF n] by (auto simp: hung_def split: if_splits)
  next
    show "\<forall>n\<in>set_tree T. \<forall>p. par t n = Some p \<longrightarrow> p \<in> set_tree T \<and> (\<exists>d. lnk t p d = Some n \<and> lnk t p (\<not> d) \<noteq> Some n)"
    proof (intro ballI allI impI)
      fix n p assume n: "n \<in> set_tree T" and p: "par t n = Some p"
      show "p \<in> set_tree T \<and> (\<exists>d. lnk t p d = Some n \<and> lnk t p (\<not> d) \<noteq> Some n)" using P(2) [rule_format, OF n] p by (simp add: hung_def split: if_splits)
    qed
  qed
  then show ?thesis using P(1) unfolding linked_def by blast
qed

text \<open>Two nodes exchange their places.\<close>

definition sw :: "nat \<Rightarrow> nat \<Rightarrow> nat \<Rightarrow> nat" where
  "sw a b n = (if n = a then b else if n = b then a else n)"

definition renamed :: "(nat \<Rightarrow> nat) \<Rightarrow> BAVL \<Rightarrow> BAVL \<Rightarrow> nat set \<Rightarrow> bool" where
  "renamed f t t' S \<longleftrightarrow> bv_root t' = map_option f (bv_root t) \<and>
     (\<forall>n\<in>S. par t' (f n) = map_option f (par t n) \<and> (\<forall>d. lnk t' (f n) d = map_option f (lnk t n d)) \<and> blc t' (f n) = blc t n)"

lemma renamed_shape: "renamed f t t' S \<Longrightarrow> set_tree T \<subseteq> S \<Longrightarrow> shape t p q T \<Longrightarrow> shape t' (map_option f p) (map_option f q) (map_tree f T)"
proof (induction T arbitrary: p q)
  case Leaf
  then show ?case by simp
next
  case (Node l n r)
  have n: "n \<in> S" "set_tree l \<subseteq> S" "set_tree r \<subseteq> S" using Node.prems(2) by auto
  show ?case using Node.IH(1) [OF Node.prems(1) n(2), of "Some n" "lnk t n False"] Node.IH(2) [OF Node.prems(1) n(3), of "Some n" "lnk t n True"] Node.prems(1,3) n(1)
    by (simp add: renamed_def)
qed

lemma renamed_bal: "renamed f t t' S \<Longrightarrow> set_tree T \<subseteq> S \<Longrightarrow> bal t T \<Longrightarrow> bal t' (map_tree f T)"
  by (induction T) (auto simp: renamed_def)

lemma renamed_rep:
  assumes "renamed f t t' (set_tree T)" "inj_on f (set_tree T)" "bavl_rep t T"
  shows "bavl_rep t' (map_tree f T)"
proof -
  have "bv_root t' = map_option f (bv_root t)" using assms(1) by (simp add: renamed_def)
  then show ?thesis using renamed_shape [OF assms(1), of T None "bv_root t"] renamed_bal [OF assms(1), of T] assms(2,3)
    by (simp add: bavl_rep_def inorder_map distinct_map)
qed

lemma linkedD:
  assumes "linked t S" "n \<in> S"
  shows "lnk t n d = Some k \<Longrightarrow> k \<in> S \<and> par t k = Some n"
    "par t n = Some p \<Longrightarrow> p \<in> S \<and> (\<exists>d. lnk t p d = Some n \<and> lnk t p (\<not> d) \<noteq> Some n)"
    "(par t n = None) = (bv_root t = Some n)"
  using assms unfolding linked_def by blast+

lemma linked_side:
  assumes "linked t S" "n \<in> S" "par t n = Some p"
  shows "(lnk t p d = Some n) = (d = (Some n = lnk t p True))"
proof -
  obtain e where "lnk t p e = Some n" "lnk t p (\<not> e) \<noteq> Some n" using linkedD(2) [OF assms] by blast
  then show ?thesis by (cases d; cases e) auto
qed

text \<open>What it takes to show that a state is the renaming of another one: the children and the parents of the two nodes.\<close>

lemma renamedI:
  assumes L: "linked t S" and S: "a \<in> S" "b \<in> S" "a \<noteq> b" "par t a \<noteq> par t b"
    and root: "bv_root t' = (if par t a = None then Some b else if par t b = None then Some a else bv_root t)"
    and bal: "\<And>n. blc t' n = blc t (sw a b n)"
    and ab: "par t' b = map_option (sw a b) (par t a)" "par t' a = map_option (sw a b) (par t b)"
      "\<And>d. lnk t' b d = map_option (sw a b) (lnk t a d)" "\<And>d. lnk t' a d = map_option (sw a b) (lnk t b d)"
    and par: "\<And>n. n \<in> S \<Longrightarrow> n \<noteq> a \<Longrightarrow> n \<noteq> b \<Longrightarrow> par t' n = (if par t n = Some a then Some b else if par t n = Some b then Some a else par t n)"
    and link: "\<And>n d. n \<in> S \<Longrightarrow> n \<noteq> a \<Longrightarrow> n \<noteq> b \<Longrightarrow> lnk t' n d =
      (if par t a = Some n \<and> lnk t n d = Some a then Some b else if par t b = Some n \<and> lnk t n d = Some b then Some a else lnk t n d)"
  shows "renamed (sw a b) t t' S"
proof -
  have swap: "sw a b (sw a b n) = n" for n by (simp add: sw_def)
  have r: "bv_root t = Some n \<Longrightarrow> n \<in> {a, b} \<Longrightarrow> par t n = None" for n using linkedD(3) [OF L] S by auto
  have "bv_root t' = map_option (sw a b) (bv_root t)"
    using root r S linkedD(3) [OF L S(1)] linkedD(3) [OF L S(2)] by (cases "bv_root t") (auto simp: sw_def)
  moreover have "par t' (sw a b n) = map_option (sw a b) (par t n)" if "n \<in> S" for n
    using that ab par [of n] by (cases "n = a"; cases "n = b"; cases "par t n") (auto simp: sw_def)
  moreover have "lnk t' (sw a b n) d = map_option (sw a b) (lnk t n d)" if n: "n \<in> S" for n d
  proof -
    have "lnk t n d = Some a \<Longrightarrow> par t a = Some n" "lnk t n d = Some b \<Longrightarrow> par t b = Some n" using linkedD(1) [OF L n] by auto
    then show ?thesis using n ab link [of n d] by (cases "n = a"; cases "n = b"; cases "lnk t n d") (auto simp: sw_def)
  qed
  ultimately show ?thesis unfolding renamed_def bal swap by blast
qed

lemma swap_adjacent:
  assumes L: "linked t S" and S: "a \<in> S" "b \<in> S" "a \<noteq> b" and p: "par t b = Some a" "par t a \<noteq> Some b" "par t a \<noteq> Some a"
  shows "renamed (sw a b) t (BAVL_swap_nodes t a b) S"
proof -
  define side where "side = (Some b = lnk t a True)"
  obtain d where "lnk t a d = Some b" "lnk t a (\<not> d) \<noteq> Some b" using linkedD(2) [OF L S(2) p(1)] by blast
  then have side: "lnk t a side = Some b" "lnk t a (\<not> side) \<noteq> Some b" by (cases d; auto simp: side_def)+
  have kb: "lnk t b e \<noteq> Some a" "lnk t b e \<noteq> Some b" "lnk t b e = Some k \<Longrightarrow> lnk t a e' \<noteq> Some k" for e e' k
    using linkedD(1) [OF L S(2), of e] linkedD(1) [OF L S(1), of e'] p S(3) by auto
  have ka: "lnk t a e \<noteq> Some a" for e using linkedD(1) [OF L S(1), of e] p by auto
  define t' where "t' = BAVL_swap_nodes t a b"
  have adj: "par t b = Some a \<or> par t a = Some b" using p by simp
  note defs = t'_def BAVL_swap_nodes_def BAVL_swap_adjacent_def if_P [OF adj] if_not_P [OF p(2)] Let_def prod.case side_def [symmetric]
  have root: "bv_root t' = (if par t a = None then Some b else bv_root t)" using p S kb ka side by (auto simp: defs)
  have bal: "blc t' n = blc t (sw a b n)" for n using S by (simp add: defs sw_def)
  have par: "par t' n = (if n = a then Some b else if n = b then par t a else if lnk t a (\<not> side) = Some n then Some b
      else if lnk t b False = Some n \<or> lnk t b True = Some n then Some a else par t n)" for n
    using S kb ka side p by (auto simp: defs)
  have link: "bn_link (bv_mem t' n) = (if n = a then bn_link (bv_mem t b) else if n = b then (bn_link (bv_mem t a))(side := Some a)
      else if par t a = Some n then (bn_link (bv_mem t n))(Some a = lnk t n True := Some b) else bn_link (bv_mem t n))" for n
    using S kb ka side p by (auto simp: defs)
  show ?thesis unfolding t'_def [symmetric]
  proof (rule renamedI [OF L S])
    fix n assume n: "n \<in> S" "n \<noteq> a" "n \<noteq> b"
    have "lnk t a side \<noteq> Some n" using side(1) n(3) by simp
    then have "par t n = Some a \<longleftrightarrow> lnk t a (\<not> side) = Some n"
      using linked_side [OF L n(1), of a "\<not> side"] linked_side [OF L n(1), of a side] linkedD(1) [OF L S(1), of "\<not> side" n] by blast
    moreover have "par t n = Some b \<longleftrightarrow> lnk t b False = Some n \<or> lnk t b True = Some n"
      using linkedD(2) [OF L n(1), of b] linkedD(1) [OF L S(2), of _ n] by metis
    ultimately show "par t' n = (if par t n = Some a then Some b else if par t n = Some b then Some a else par t n)" using n S by (simp add: par)
  next
    fix n d assume n: "n \<in> S" "n \<noteq> a" "n \<noteq> b"
    show "lnk t' n d = (if par t a = Some n \<and> lnk t n d = Some a then Some b else if par t b = Some n \<and> lnk t n d = Some b then Some a else lnk t n d)"
      using linked_side [OF L S(1), of n d] n p by (auto simp: link)
  next
    show "lnk t' b d = map_option (sw a b) (lnk t a d)" for d
      using side ka S by (cases "lnk t a d"; cases "d = side") (auto simp: link sw_def)
    show "lnk t' a d = map_option (sw a b) (lnk t b d)" for d using kb S by (cases "lnk t b d") (auto simp: link sw_def)
    show "par t' b = map_option (sw a b) (par t a)" using p S by (cases "par t a") (auto simp: par sw_def)
  qed (use p S in \<open>auto simp: par sw_def root bal\<close>)
qed

lemma swap_apart:
  assumes L: "linked t S" and S: "a \<in> S" "b \<in> S" "a \<noteq> b" and p: "par t b \<noteq> Some a" "par t a \<noteq> Some b" "par t a \<noteq> Some a" "par t b \<noteq> Some b" "par t a \<noteq> par t b"
  shows "renamed (sw a b) t (BAVL_swap_nodes t a b) S"
proof -
  have kb: "lnk t b e \<noteq> Some a" "lnk t b e \<noteq> Some b" for e using linkedD(1) [OF L S(2), of e] p S(3) by auto
  have ka: "lnk t a e \<noteq> Some a" "lnk t a e \<noteq> Some b" "lnk t a e = Some k \<Longrightarrow> lnk t b e' \<noteq> Some k" for e e' k
    using linkedD(1) [OF L S(1), of e] linkedD(1) [OF L S(2), of e'] p S(3) by auto
  define t' where "t' = BAVL_swap_nodes t a b"
  have adj: "\<not> (par t b = Some a \<or> par t a = Some b)" using p by simp
  note defs = t'_def BAVL_swap_nodes_def BAVL_swap_apart_def if_not_P [OF adj] Let_def
  have root: "bv_root t' = (if par t a = None then Some b else if par t b = None then Some a else bv_root t)" using p S kb ka by (auto simp: defs)
  have bal: "blc t' n = blc t (sw a b n)" for n using S by (simp add: defs sw_def)
  have par: "par t' n = (if n = a then par t b else if n = b then par t a else if lnk t a False = Some n \<or> lnk t a True = Some n then Some b
      else if lnk t b False = Some n \<or> lnk t b True = Some n then Some a else par t n)" for n
    using S kb ka p by (auto simp: defs)
  have link: "bn_link (bv_mem t' n) = (if n = a then bn_link (bv_mem t b) else if n = b then bn_link (bv_mem t a)
      else if par t a = Some n then (bn_link (bv_mem t n))(Some a = lnk t n True := Some b)
      else if par t b = Some n then (bn_link (bv_mem t n))(Some b = lnk t n True := Some a) else bn_link (bv_mem t n))" for n
    using S kb ka p by (auto simp: defs)
  show ?thesis unfolding t'_def [symmetric]
  proof (rule renamedI [OF L S p(5)])
    fix n assume n: "n \<in> S" "n \<noteq> a" "n \<noteq> b"
    have "par t n = Some m \<longleftrightarrow> lnk t m False = Some n \<or> lnk t m True = Some n" if "m \<in> S" for m
      using linkedD(2) [OF L n(1), of m] linkedD(1) [OF L that, of _ n] by metis
    then show "par t' n = (if par t n = Some a then Some b else if par t n = Some b then Some a else par t n)" using n S by (simp add: par)
  next
    fix n d assume n: "n \<in> S" "n \<noteq> a" "n \<noteq> b"
    show "lnk t' n d = (if par t a = Some n \<and> lnk t n d = Some a then Some b else if par t b = Some n \<and> lnk t n d = Some b then Some a else lnk t n d)"
      using linked_side [OF L S(1), of n d] linked_side [OF L S(2), of n d] n p by (auto simp: link)
  next
    show "lnk t' b d = map_option (sw a b) (lnk t a d)" for d using ka S by (cases "lnk t a d") (auto simp: link sw_def)
    show "lnk t' a d = map_option (sw a b) (lnk t b d)" for d using kb S by (cases "lnk t b d") (auto simp: link sw_def)
    show "par t' b = map_option (sw a b) (par t a)" using p S by (cases "par t a") (auto simp: par sw_def)
    show "par t' a = map_option (sw a b) (par t b)" using p S by (cases "par t b") (auto simp: par sw_def)
  qed (use root bal in auto)
qed

lemma plug_append: "plug x (c @ c') = plug (plug x c) c'"
  by (induction c arbitrary: x) auto

lemma before_append: "before (c @ c') = before c' @ before c"
  by (induction c) auto

lemma after_append: "after (c @ c') = after c @ after c'"
  by (induction c) auto

lemma path_nodes_append: "path_nodes (c @ c') = path_nodes c @ path_nodes c'"
  by (induction c) auto

lemma above_in: "above c = Some n \<Longrightarrow> n \<in> set (path_nodes c)"
  by (cases c rule: above.cases) auto

definition map_path :: "(nat \<Rightarrow> nat) \<Rightarrow> path \<Rightarrow> path" where
  "map_path f c = map (\<lambda>(d, n, s). (d, f n, map_tree f s)) c"

lemma map_plug: "map_tree f (plug x c) = plug (map_tree f x) (map_path f c)"
proof (induction c arbitrary: x)
  case Nil
  then show ?case by (simp add: map_path_def)
next
  case (Cons g c)
  obtain d n s where g: "g = (d, n, s)" by (cases g)
  have "map_tree f (mk d x n s) = mk d (map_tree f x) (f n) (map_tree f s)" by (simp add: mk_def)
  then show ?case using Cons [of "mk d x n s"] by (simp add: g map_path_def)
qed

lemma before_map: "before (map_path f c) = map f (before c)"
  by (induction c) (auto simp: map_path_def inorder_map)

lemma after_map: "after (map_path f c) = map f (after c)"
  by (induction c) (auto simp: map_path_def inorder_map)

text \<open>The greatest node of a subtree has no right child.\<close>

lemma subtree_max_ok:
  "shape t p (Some n) T \<Longrightarrow> \<exists>m x c. BAVL_subtree_max t n = Some m \<and> T = plug (Node x m Leaf) c \<and> after c = []"
proof (induction T arbitrary: p n)
  case Leaf
  then show ?case by simp
next
  case (Node l k r)
  have S: "n = k" "shape t (Some k) (lnk t k True) r" using Node.prems by auto
  show ?case
  proof (cases "lnk t k True")
    case None
    then have "r = Leaf" using S by (cases r) auto
    moreover have "BAVL_subtree_max t n = Some k" using None S by (subst BAVL_subtree_max.simps) simp
    ultimately show ?thesis by (intro exI [of _ k] exI [of _ l] exI [of _ "[]"]) simp
  next
    case (Some n')
    then obtain m x c where m: "BAVL_subtree_max t n' = Some m" "r = plug (Node x m Leaf) c" "after c = []" using Node.IH(2) S by metis
    have "BAVL_subtree_max t n = Some m" using Some S m(1) by (subst BAVL_subtree_max.simps) simp
    then show ?thesis using m(2,3)
      by (intro exI [of _ m] exI [of _ x] exI [of _ "c @ [(True, k, l)]"]) (simp add: plug_append after_append mk_def)
  qed
qed

lemma swap_with_max:
  assumes rep: "bavl_rep t (plug (Node x m Leaf) (c2 @ (False, n, r) # c))"
  shows "bavl_rep (BAVL_swap_nodes t n m) (map_tree (sw n m) (plug (Node x m Leaf) (c2 @ (False, n, r) # c)))"
proof -
  let ?T = "plug (Node x m Leaf) (c2 @ (False, n, r) # c)"
  have L: "linked t (set_tree ?T)" by (rule bavl_linked [OF rep])
  have D: "n \<noteq> m" "m \<notin> set (path_nodes c)" "n \<notin> set (path_nodes c)" "n \<notin> set (path_nodes c2)" "m \<notin> set (path_nodes c2)"
    "set (path_nodes c2) \<inter> set (path_nodes c) = {}"
    using rep by (auto simp: bavl_rep_def distinct_plug path_nodes_append)
  obtain q q' where "shape t (above c) q (mk False (plug (Node x m Leaf) c2) n r)" "shape t (above (c2 @ (False, n, r) # c)) q' (Node x m Leaf)"
    using rep shape_plug [of t "plug (Node x m Leaf) (c2 @ [(False, n, r)])" c] shape_plug [of t "Node x m Leaf" "c2 @ (False, n, r) # c"]
    by (auto simp: bavl_rep_def plug_append)
  then have pn: "par t n = above c" and pm: "par t m = above (c2 @ (False, n, r) # c)" by (auto simp: shape_mk)
  have S: "n \<in> set_tree ?T" "m \<in> set_tree ?T" by (auto simp: set_plug path_nodes_append)
  have n: "par t n \<noteq> Some m" "par t n \<noteq> Some n" using D by (auto simp: pn dest!: above_in)
  have "renamed (sw n m) t (BAVL_swap_nodes t n m) (set_tree ?T)"
  proof (cases c2)
    case Nil
    show ?thesis by (rule swap_adjacent [OF L S D(1)]) (use n pm Nil in auto)
  next
    case (Cons f c2')
    then have pm': "par t m = above c2" "par t m \<noteq> None" by (cases f; auto simp: pm)+
    obtain k where k: "par t m = Some k" using pm'(2) by blast
    then have "k \<in> set (path_nodes c2)" using pm'(1) above_in by simp
    then have "k \<noteq> n" "k \<noteq> m" "above c \<noteq> Some k" using D above_in [of c k] by auto
    then show ?thesis by (intro swap_apart [OF L S D(1)]) (use n in \<open>simp_all add: pn k\<close>)
  qed
  moreover have "inj_on (sw n m) (set_tree ?T)" by (auto simp: inj_on_def sw_def split: if_splits)
  ultimately show ?thesis using rep by (rule renamed_rep)
qed

lemma BAVL_Remove_ok:
  assumes rep: "bavl_rep t T" and n: "n \<in> set_tree T"
  shows "\<exists>t' T'. BAVL_Remove t n = Some (Inr t') \<and> bavl_rep t' T' \<and> inorder T' = remove1 n (inorder T)"
proof -
  obtain l r c where T: "T = plug (Node l n r) c" using path_to [OF n] by blast
  have io: "inorder T = before c @ inorder l @ n # inorder r @ after c" unfolding T inorder_plug_split by simp
  have "distinct (inorder T)" using rep by (simp add: bavl_rep_def)
  then have D: "n \<notin> set (before c)" "n \<notin> set_tree l" and rem: "remove1 n (inorder T) = before c @ inorder l @ inorder r @ after c"
    unfolding io by (auto simp: remove1_append)
  obtain q where sh: "shape t (above c) q (Node l n r)" using rep unfolding bavl_rep_def T shape_plug by blast
  have S: "shape t (Some n) (lnk t n False) l" "shape t (Some n) (lnk t n True) r" using sh by auto
  have low: "BAVL_Remove t n = remove_low t n" if "l = Leaf \<or> r = Leaf"
  proof -
    have "lnk t n False = None \<or> lnk t n True = None" using S that by auto
    then show ?thesis unfolding BAVL_Remove_def remove_low_def by (auto split: option.splits)
  qed
  consider "r = Leaf" | "l = Leaf" | "l \<noteq> Leaf" "r \<noteq> Leaf" by blast
  then show ?thesis
  proof cases
    case 1
    then show ?thesis using remove_low_ok [of t False l n c] low rep rem by (simp add: T mk_def)
  next
    case 2
    then show ?thesis using remove_low_ok [of t True r n c] low rep rem by (simp add: T mk_def)
  next
    case 3
    obtain k k' where k: "lnk t n False = Some k" "lnk t n True = Some k'" using 3 S by (cases l; cases r) auto
    obtain m x c2 where m: "BAVL_subtree_max t k = Some m" "l = plug (Node x m Leaf) c2" "after c2 = []"
      using subtree_max_ok S(1) unfolding k by blast
    let ?C = "c2 @ (False, n, r) # c" and ?f = "sw n m"
    have TC: "T = plug (Node x m Leaf) ?C" by (simp add: T m(2) plug_append mk_def)
    have nm: "n \<noteq> m" using D(2) by (auto simp: m(2) set_plug)
    have "bavl_rep (BAVL_swap_nodes t n m) (map_tree ?f T)" unfolding TC by (rule swap_with_max) (use rep TC in simp)
    then have rep': "bavl_rep (BAVL_swap_nodes t n m) (plug (mk False (map_tree ?f x) n Leaf) (map_path ?f ?C))"
      unfolding TC map_plug using nm by (simp add: mk_def sw_def)
    obtain t' T' where t': "remove_low (BAVL_swap_nodes t n m) n = Some (Inr t')" "bavl_rep t' T'"
      "inorder T' = map ?f (before ?C @ inorder x @ after ?C)"
      using remove_low_ok [OF rep'] by (auto simp: before_map after_map inorder_map)
    have il: "inorder l = before c2 @ inorder x @ [m]" unfolding m(2) inorder_plug_split by (simp add: m(3))
    have fix_all: "?f i = i" if "i \<in> set (before c) \<union> set (before c2) \<union> set_tree x \<union> set_tree r \<union> set (after c)" for i
      using \<open>distinct (inorder T)\<close> that unfolding io il by (auto simp: sw_def)
    then have same: "map ?f (before c) = before c" "map ?f (before c2) = before c2" "map ?f (inorder x) = inorder x" "map ?f (inorder r) = inorder r"
      "map ?f (after c) = after c" by (intro map_idI; simp)+
    have "inorder T' = before c @ before c2 @ inorder x @ m # inorder r @ after c"
      unfolding t'(3) using same by (simp add: before_append after_append m(3)) (simp add: sw_def)
    then have "inorder T' = remove1 n (inorder T)" unfolding rem il by simp
    moreover have "BAVL_Remove t n = Some (Inr t')" using t'(1) unfolding BAVL_Remove_def remove_low_def k by (simp add: m(1) Let_def)
    ultimately show ?thesis using t'(2) by blast
  qed
qed

subsection \<open>The contract of the tree\<close>

text \<open>
  \<open>indexed cmp valid key t S\<close>: the nodes of the tree \<open>t\<close> are \<open>S\<close>, balanced and in the order of their keys. The contract holds for every
  comparison function that is an order on the keys and returns only -1, 0 and 1, which the code asserts.
\<close>

definition indexed :: "('k \<Rightarrow> 'k \<Rightarrow> int) \<Rightarrow> ('k \<Rightarrow> bool) \<Rightarrow> (nat \<Rightarrow> 'k) \<Rightarrow> BAVL \<Rightarrow> nat set \<Rightarrow> bool" where
  "indexed cmp valid key t S \<longleftrightarrow> (\<exists>T. bavl_rep t T \<and> set_tree T = S \<and> (\<forall>n\<in>S. valid (key n)) \<and> sorted_wrt (\<lambda>a b. cmp (key a) (key b) < 0) (inorder T))"

lemma indexed_cong: "(\<And>n. n \<in> S \<Longrightarrow> key' n = key n) \<Longrightarrow> indexed cmp valid key' t S = indexed cmp valid key t S"
proof -
  assume eq: "\<And>n. n \<in> S \<Longrightarrow> key' n = key n"
  have "sorted_wrt (\<lambda>a b. cmp (key' a) (key' b) < 0) (inorder T) = sorted_wrt (\<lambda>a b. cmp (key a) (key b) < 0) (inorder T)" if "set_tree T = S" for T
    using eq that by (intro iffI; elim sorted_wrt_mono_rel [rotated]) auto
  then show ?thesis unfolding indexed_def using eq by auto
qed

lemma indexed_Init: "indexed cmp valid key (BAVL_Init mem) {}"
  unfolding indexed_def by (intro exI [of _ Leaf]) (simp add: bavl_rep_def BAVL_Init_def)

text \<open>
  What \<open>BAVL_Insert\<close> returns besides its result when it inserts: the greatest node less than the new one or the smallest one greater than it, or
  \<open>None\<close> when there was no other node.
\<close>

definition neighbour :: "('k \<Rightarrow> 'k \<Rightarrow> int) \<Rightarrow> (nat \<Rightarrow> 'k) \<Rightarrow> nat set \<Rightarrow> nat \<Rightarrow> nat option \<Rightarrow> bool" where
  "neighbour cmp key S n ref \<longleftrightarrow>
     (case ref of None \<Rightarrow> S = {}
      | Some m \<Rightarrow> m \<in> S \<and>
          (cmp (key m) (key n) < 0 \<and> (\<forall>x\<in>S. cmp (key x) (key n) < 0 \<longrightarrow> cmp (key x) (key m) \<le> 0) \<or>
           cmp (key n) (key m) < 0 \<and> (\<forall>x\<in>S. cmp (key n) (key x) < 0 \<longrightarrow> cmp (key m) (key x) \<le> 0)))"


locale tree_comparator = comparator +
  assumes cmp_range: "valid x \<Longrightarrow> valid y \<Longrightarrow> cmp x y = - 1 \<or> cmp x y = 0 \<or> cmp x y = 1"
begin

lemma compares_key:
  assumes k: "valid k" and S: "\<And>n. n \<in> set ns \<Longrightarrow> valid (key n)" and ord: "sorted_wrt (\<lambda>a b. cmp (key a) (key b) < 0) ns"
  shows "compares (\<lambda>n. cmp k (key n)) ns"
proof -
  have "cmp k (key a) = 1 \<or> cmp k (key b) = - 1" if ab: "a \<in> set ns" "b \<in> set ns" "cmp (key a) (key b) < 0" for a b
  proof (rule ccontr)
    assume "\<not> ?thesis"
    then have "cmp k (key a) \<le> 0" "cmp k (key b) \<ge> 0" using cmp_range [OF k S] ab by force+
    then show False using cmp_trans [of k "key a" "key b"] cmp_antisym [of k "key b"] cmp_eq [of k] cmp_trans [of "key a" "key b" k] cmp_antisym [of "key a" "key b"] k S ab
      cmp_refl cmp_antisym [of k "key a"]
      by (metis linorder_not_less order.strict_iff_order)
  qed
  then have "sorted_wrt (\<lambda>a b. cmp k (key a) = 1 \<or> cmp k (key b) = - 1) ns" by (intro sorted_wrt_mono_rel [OF _ ord]) blast
  then show ?thesis unfolding compares_def using cmp_range [OF k S] by blast
qed

lemma indexed_inj: "indexed cmp valid key t S \<Longrightarrow> inj_on key S"
proof -
  assume "indexed cmp valid key t S"
  then obtain T where T: "set (inorder T) = S" "\<forall>n\<in>S. valid (key n)" "sorted_wrt (\<lambda>a b. cmp (key a) (key b) < 0) (inorder T)" unfolding indexed_def by auto
  show ?thesis
  proof (rule inj_onI)
    fix a b assume ab: "a \<in> S" "b \<in> S" "key a = key b"
    obtain i j where i: "i < length (inorder T)" "inorder T ! i = a" and j: "j < length (inorder T)" "inorder T ! j = b"
      using ab(1,2) unfolding T(1) [symmetric] in_set_conv_nth by blast
    have z: "cmp (key b) (key b) = 0" using cmp_refl T(2) ab(2) by blast
    have "\<not> i < j" using sorted_wrt_nth_less [OF T(3) _ j(1), of i] z unfolding i(2) j(2) ab(3) by auto
    moreover have "\<not> j < i" using sorted_wrt_nth_less [OF T(3) _ i(1), of j] z unfolding i(2) j(2) ab(3) by auto
    ultimately show "a = b" using i(2) j(2) by (metis linorder_neqE_nat)
  qed
qed

lemma indexed_lookup:
  assumes I: "indexed cmp valid key t S" and k: "valid k"
  shows "\<exists>q. BAVL_LookupExact (\<lambda>n. cmp k (key n)) t = Some (Inr q) \<and> (\<forall>n. q = Some n \<longleftrightarrow> n \<in> S \<and> key n = k)"
proof -
  obtain T where T: "bavl_rep t T" "set_tree T = S" "\<forall>n\<in>S. valid (key n)" "sorted_wrt (\<lambda>a b. cmp (key a) (key b) < 0) (inorder T)" using I unfolding indexed_def by blast
  have "compares (\<lambda>n. cmp k (key n)) (inorder T)" by (rule compares_key [OF k _ T(4)]) (use T(2,3) in auto)
  from BAVL_LookupExact_ok [OF T(1) this] obtain q where q: "BAVL_LookupExact (\<lambda>n. cmp k (key n)) t = Some (Inr q)"
    "\<forall>n. q = Some n \<longrightarrow> n \<in> S \<and> cmp k (key n) = 0" "q = None \<longrightarrow> (\<forall>n\<in>S. cmp k (key n) \<noteq> 0)" unfolding T(2) by blast
  have zero: "cmp k (key n) = 0 \<longleftrightarrow> key n = k" if "n \<in> S" for n using cmp_eq [OF k, of "key n"] cmp_refl k T(3) that by auto
  have "q = Some n \<longleftrightarrow> n \<in> S \<and> key n = k" for n
    using q(2,3) zero inj_onD [OF indexed_inj [OF I]] by (cases q) auto
  then show ?thesis using q(1) by blast
qed

lemma indexed_insert_ref:
  assumes I: "indexed cmp valid key t S" and n: "n \<notin> S" "valid (key n)"
  shows "if key n \<in> key ` S then \<exists>m\<in>S. key m = key n \<and> BAVL_Insert (\<lambda>a b. cmp (key a) (key b)) t n = Some (Inr (t, False, Some m))
    else \<exists>t' ref. BAVL_Insert (\<lambda>a b. cmp (key a) (key b)) t n = Some (Inr (t', True, ref)) \<and> indexed cmp valid key t' (insert n S) \<and>
      neighbour cmp key S n ref"
proof -
  obtain T where T: "bavl_rep t T" "set_tree T = S" "\<forall>n\<in>S. valid (key n)" "sorted_wrt (\<lambda>a b. cmp (key a) (key b) < 0) (inorder T)" using I unfolding indexed_def by blast
  have "compares (\<lambda>m. cmp (key n) (key m)) (inorder T)" by (rule compares_key [OF n(2) _ T(4)]) (use T(2,3) in auto)
  from BAVL_Insert_ok [where cmp = "\<lambda>a b. cmp (key a) (key b)", OF T(1) n(1) [folded T(2)] this]
  consider m where "m \<in> S" "cmp (key n) (key m) = 0" "BAVL_Insert (\<lambda>a b. cmp (key a) (key b)) t n = Some (Inr (t, False, Some m))"
    | t' ref T' ns ms where "BAVL_Insert (\<lambda>a b. cmp (key a) (key b)) t n = Some (Inr (t', True, ref))" "bavl_rep t' T'" "inorder T = ns @ ms" "inorder T' = ns @ n # ms"
      "\<forall>a\<in>set ns. cmp (key n) (key a) = 1" "\<forall>b\<in>set ms. cmp (key n) (key b) = - 1"
      "case ref of None \<Rightarrow> ns = [] \<and> ms = [] | Some n \<Rightarrow> ns \<noteq> [] \<and> n = last ns \<or> ms \<noteq> [] \<and> n = hd ms" unfolding T(2) by blast
  then show ?thesis
  proof cases
    case 1
    then have "key m = key n" using cmp_eq [of "key n" "key m"] n(2) T(3) by auto
    moreover then have "key n \<in> key ` S" using 1(1) by (metis imageI)
    ultimately show ?thesis using 1 by auto
  next
    case 2
    have S: "S = set ns \<union> set ms" using T(2) 2(3) by (metis set_append set_inorder)
    have fresh: "key n \<notin> key ` S" using 2(5,6) cmp_refl [OF n(2)] unfolding S by force
    have lt: "cmp (key x) (key n) < 0" if "x \<in> set ns" for x using cmp_antisym [of "key n" "key x"] 2(5) n(2) T(3) that unfolding S by simp
    have gt: "\<not> cmp (key x) (key n) < 0" if "x \<in> set ms" for x using cmp_antisym [of "key n" "key x"] 2(6) n(2) T(3) that unfolding S by simp
    have "set_tree T' = insert n S" unfolding S set_inorder [symmetric] 2(4) by auto
    moreover have "sorted_wrt (\<lambda>a b. cmp (key a) (key b) < 0) (inorder T')"
      using T(4) 2(6) lt unfolding 2(3,4) by (auto simp: sorted_wrt_append)
    ultimately have ix: "indexed cmp valid key t' (insert n S)" using 2(2) T(3) n(2) unfolding indexed_def by (intro exI [of _ T']) auto
    have ord: "sorted_wrt (\<lambda>a b. cmp (key a) (key b) < 0) ns" "sorted_wrt (\<lambda>a b. cmp (key a) (key b) < 0) ms"
      using T(4) unfolding 2(3) by (simp_all add: sorted_wrt_append)
    have "neighbour cmp key S n ref"
    proof (cases ref)
      case None
      then show ?thesis using 2(7) S by (simp add: neighbour_def)
    next
      case (Some m)
      then consider "ns \<noteq> []" "m = last ns" | "ms \<noteq> []" "m = hd ms" using 2(7) by auto
      then show ?thesis
      proof cases
        case 1
        have m: "ns = butlast ns @ [m]" using 1 by simp
        have "cmp (key x) (key m) \<le> 0" if "x \<in> set ns" for x
        proof (cases "x = m")
          case True
          then show ?thesis using cmp_refl [of "key m"] T(3) that unfolding S by simp
        next
          case False
          then have "x \<in> set (butlast ns)" using that m by (metis UnE set_append set_ConsD list.set(1) empty_iff)
          moreover have "sorted_wrt (\<lambda>a b. cmp (key a) (key b) < 0) (butlast ns @ [m])" using ord(1) m by metis
          ultimately show ?thesis by (fastforce simp: sorted_wrt_append)
        qed
        moreover have "m \<in> set ns" using 1 by simp
        ultimately show ?thesis using Some lt gt unfolding neighbour_def S by auto
      next
        case 2
        have "cmp (key m) (key x) \<le> 0" if "x \<in> set ms" for x
          using ord(2) that 2 cmp_refl [of "key m"] T(3) S by (cases ms) fastforce+
        moreover have "m \<in> set ms" using 2 by simp
        ultimately show ?thesis using Some \<open>\<forall>a\<in>set ns. cmp (key n) (key a) = 1\<close> \<open>\<forall>b\<in>set ms. cmp (key n) (key b) = - 1\<close>
          unfolding neighbour_def S by auto
      qed
    qed
    then show ?thesis using fresh 2(1) ix by auto
  qed
qed

lemma indexed_insert:
  assumes I: "indexed cmp valid key t S" and n: "n \<notin> S" "valid (key n)"
  shows "if key n \<in> key ` S then \<exists>m\<in>S. key m = key n \<and> BAVL_Insert (\<lambda>a b. cmp (key a) (key b)) t n = Some (Inr (t, False, Some m))
    else \<exists>t' ref. BAVL_Insert (\<lambda>a b. cmp (key a) (key b)) t n = Some (Inr (t', True, ref)) \<and> indexed cmp valid key t' (insert n S)"
  using indexed_insert_ref [OF assms] by (cases "key n \<in> key ` S") auto

lemma indexed_remove:
  assumes I: "indexed cmp valid key t S" and n: "n \<in> S"
  shows "\<exists>t'. BAVL_Remove t n = Some (Inr t') \<and> indexed cmp valid key t' (S - {n})"
proof -
  obtain T where T: "bavl_rep t T" "set_tree T = S" "\<forall>n\<in>S. valid (key n)" "sorted_wrt (\<lambda>a b. cmp (key a) (key b) < 0) (inorder T)" using I unfolding indexed_def by blast
  obtain t' T' where t': "BAVL_Remove t n = Some (Inr t')" "bavl_rep t' T'" "inorder T' = remove1 n (inorder T)" using BAVL_Remove_ok [OF T(1)] n T(2) by blast
  have "distinct (inorder T)" using T(1) by (simp add: bavl_rep_def)
  then have "set_tree T' = S - {n}" unfolding set_inorder [symmetric] t'(3) T(2) [symmetric] by simp
  moreover have "sorted_wrt (\<lambda>a b. cmp (key a) (key b) < 0) (inorder T')" unfolding t'(3) distinct_remove1_removeAll [OF \<open>distinct (inorder T)\<close>] removeAll_filter_not_eq by (rule sorted_wrt_filter [OF T(4)])
  ultimately show ?thesis using t'(1,2) T(3) unfolding indexed_def by blast
qed

end

text \<open>A balanced tree is not much higher than the logarithm of its size.\<close>

lemma bal_height: "bal t T \<Longrightarrow> 2 ^ (height T div 2) \<le> size1 T"
proof (induction T)
  case Leaf
  then show ?case by simp
next
  case (Node l n r)
  have IH: "2 ^ (height l div 2) \<le> size1 l" "2 ^ (height r div 2) \<le> size1 r" and b: "\<bar>int (height r) - int (height l)\<bar> \<le> 1" using Node by auto
  define h where "h = height (Node l n r)"
  have two: "(2::nat) ^ (a div 2) \<le> 2 ^ (b div 2)" if "a \<le> b" for a b :: nat using that by (intro power_increasing div_le_mono) auto
  show ?case
  proof (cases "h \<ge> 2")
    case True
    have low: "h - 2 \<le> height l" "h - 2 \<le> height r" using b by (auto simp: h_def)
    have "h div 2 = Suc ((h - 2) div 2)" using True by (simp add: le_div_geq)
    then have "(2::nat) ^ (h div 2) = 2 ^ ((h - 2) div 2) + 2 ^ ((h - 2) div 2)" by simp
    also have "\<dots> \<le> size1 l + size1 r" using order_trans [OF two [OF low(1)] IH(1)] order_trans [OF two [OF low(2)] IH(2)] by (rule add_mono)
    finally show ?thesis by (simp add: h_def)
  next
    case False
    then have "h div 2 = 0" by simp
    then have "height (Node l n r) div 2 = 0" by (simp add: h_def)
    then show ?thesis by (simp only: power_0) (simp add: size1_size)
  qed
qed

lemma bavl_height: "bavl_rep t T \<Longrightarrow> 2 ^ (height T div 2) \<le> card (set_tree T) + 1"
proof -
  assume rep: "bavl_rep t T"
  then have "card (set_tree T) = size T" by (metis bavl_rep_def distinct_card length_inorder set_inorder)
  then show ?thesis using bal_height [of t T] rep by (simp add: bavl_rep_def size1_size)
qed

subsection \<open>The tree keeps its contract\<close>

text \<open>The order of \<open>B_COMPARE\<close> is one that the tree can use.\<close>

interpretation bcmp: tree_comparator B_COMPARE "\<lambda>_. True"
  by unfold_locales (auto simp: B_COMPARE_def split: if_splits)

text \<open>
  C38: \<open>BAVL_Insert\<close> ends and no assertion fails. When a node of the tree has the key of the new node, the tree is left as it was and the result is
  0 with that node; otherwise the result is 1, the tree has one node more and is balanced and in order again, and the node returned is a
  neighbour of the new one, or none when the tree was empty. (The comment at \<^verbatim>\<open>BAVL.h\<close>, line 101, promises the neighbour also when the
  insertion is refused; the code then returns the node with the equal key.)
\<close>

theorem BAVL_Insert_index:
  assumes "tree_comparator cmp valid" "indexed cmp valid key t S" "n \<notin> S" "valid (key n)"
  shows "if key n \<in> key ` S then \<exists>m\<in>S. key m = key n \<and> BAVL_Insert (\<lambda>a b. cmp (key a) (key b)) t n = Some (Inr (t, False, Some m))
    else \<exists>t' ref. BAVL_Insert (\<lambda>a b. cmp (key a) (key b)) t n = Some (Inr (t', True, ref)) \<and> indexed cmp valid key t' (insert n S) \<and>
      neighbour cmp key S n ref"
  by (rule tree_comparator.indexed_insert_ref [OF assms])

text \<open>Three nodes in a row, of which the third makes the tree turn; and a fourth with a key that is in the tree.\<close>

definition ex_key :: "nat \<Rightarrow> u16" where
  "ex_key n = (if n = 9 then 2 else of_nat n)"

definition ex_mem :: "nat \<Rightarrow> BAVLNode" where
  "ex_mem n = \<lparr> bn_parent = None, bn_link = (\<lambda>_. None), bn_balance = 0 \<rparr>"

abbreviation ex_insert :: "BAVL \<Rightarrow> nat \<Rightarrow> (BAVL \<times> bool \<times> nat option) result option" where
  "ex_insert \<equiv> BAVL_Insert (\<lambda>a b. B_COMPARE (ex_key a) (ex_key b))"

abbreviation ex_indexed :: "BAVL \<Rightarrow> nat set \<Rightarrow> bool" where
  "ex_indexed \<equiv> indexed B_COMPARE (\<lambda>_. True) ex_key"

lemma ex_three:
  obtains t1 r1 t2 r2 t3 r3 where "ex_insert (BAVL_Init ex_mem) 1 = Some (Inr (t1, True, r1))" "ex_insert t1 2 = Some (Inr (t2, True, r2))"
    "ex_insert t2 3 = Some (Inr (t3, True, r3))" "ex_indexed t3 {1, 2, 3}"
proof -
  have "ex_indexed (BAVL_Init ex_mem) {}" by (rule indexed_Init)
  from bcmp.indexed_insert [OF this, of 1] obtain t1 r1 where t1: "ex_insert (BAVL_Init ex_mem) 1 = Some (Inr (t1, True, r1))" "ex_indexed t1 {1}" by auto
  from bcmp.indexed_insert [OF t1(2), of 2] obtain t2 r2 where t2: "ex_insert t1 2 = Some (Inr (t2, True, r2))" "ex_indexed t2 {2, 1}" by (auto simp: ex_key_def)
  from bcmp.indexed_insert [OF t2(2), of 3] obtain t3 r3 where "ex_insert t2 3 = Some (Inr (t3, True, r3))" "ex_indexed t3 {3, 2, 1}" by (auto simp: ex_key_def)
  then show ?thesis using that t1(1) t2(1) by (metis insert_commute)
qed

theorem BAVL_Insert_index_witness:
  "\<exists>t. ex_indexed t {1, 2, 3} \<and> ex_insert t 9 = Some (Inr (t, False, Some 2)) \<and> (\<exists>t' ref. ex_insert t 0 = Some (Inr (t', True, ref)) \<and> ex_indexed t' {0, 1, 2, 3})"
proof -
  obtain t where t: "ex_indexed t {1, 2, 3}" using ex_three by blast
  have "ex_insert t 9 = Some (Inr (t, False, Some 2))"
    using BAVL_Insert_index [OF bcmp.tree_comparator_axioms t, of 9] by (auto simp: ex_key_def)
  moreover have "\<exists>t' ref. ex_insert t 0 = Some (Inr (t', True, ref)) \<and> ex_indexed t' {0, 1, 2, 3}"
    using BAVL_Insert_index [OF bcmp.tree_comparator_axioms t, of 0] by (auto simp: ex_key_def)
  ultimately show ?thesis using t by blast
qed

text \<open>
  C39: \<open>BAVL_Remove\<close> of a node of the tree ends and no assertion fails, and the tree has all its other nodes, balanced and in order.
\<close>

theorem BAVL_Remove_index:
  assumes "tree_comparator cmp valid" "indexed cmp valid key t S" "n \<in> S"
  shows "\<exists>t'. BAVL_Remove t n = Some (Inr t') \<and> indexed cmp valid key t' (S - {n})"
  by (rule tree_comparator.indexed_remove [OF assms])

text \<open>The node in the middle of three, which has two children, is removed.\<close>

theorem BAVL_Remove_index_witness:
  "\<exists>t t'. ex_indexed t {1, 2, 3} \<and> BAVL_Remove t 2 = Some (Inr t') \<and> ex_indexed t' {1, 3}"
proof -
  obtain t where t: "ex_indexed t {1, 2, 3}" using ex_three by blast
  have "{1, 2, 3} - {2::nat} = {1, 3}" by auto
  then have "\<exists>t'. BAVL_Remove t 2 = Some (Inr t') \<and> ex_indexed t' {1, 3}" using BAVL_Remove_index [OF bcmp.tree_comparator_axioms t, of 2] by auto
  then show ?thesis using t by blast
qed

text \<open>
  C40: \<open>BAVL_LookupExact\<close> ends with the node that has the given key, or with NULL when no node has it; the height of the tree, which bounds the
  steps of every loop and the depth of the recursion, is at most about twice the logarithm of the number of its nodes.
\<close>

theorem BAVL_LookupExact_index:
  assumes "tree_comparator cmp valid" "indexed cmp valid key t S" "valid k"
  shows "(\<exists>q. BAVL_LookupExact (\<lambda>n. cmp k (key n)) t = Some (Inr q) \<and> (\<forall>n. q = Some n \<longleftrightarrow> n \<in> S \<and> key n = k)) \<and>
    (\<exists>T. bavl_rep t T \<and> set_tree T = S \<and> 2 ^ (height T div 2) \<le> card S + 1)"
proof
  show "\<exists>q. BAVL_LookupExact (\<lambda>n. cmp k (key n)) t = Some (Inr q) \<and> (\<forall>n. q = Some n \<longleftrightarrow> n \<in> S \<and> key n = k)"
    by (rule tree_comparator.indexed_lookup [OF assms])
  obtain T where T: "bavl_rep t T" "set_tree T = S" using assms(2) unfolding indexed_def by blast
  then show "\<exists>T. bavl_rep t T \<and> set_tree T = S \<and> 2 ^ (height T div 2) \<le> card S + 1" using bavl_height by blast
qed

theorem BAVL_LookupExact_index_witness:
  "\<exists>t. ex_indexed t {1, 2, 3} \<and> BAVL_LookupExact (\<lambda>n. B_COMPARE 2 (ex_key n)) t = Some (Inr (Some 2)) \<and> BAVL_LookupExact (\<lambda>n. B_COMPARE 7 (ex_key n)) t = Some (Inr None)"
proof -
  obtain t where t: "ex_indexed t {1, 2, 3}" using ex_three by blast
  note look = BAVL_LookupExact_index [OF bcmp.tree_comparator_axioms t TrueI, THEN conjunct1]
  obtain q where q: "BAVL_LookupExact (\<lambda>n. B_COMPARE 2 (ex_key n)) t = Some (Inr q)" "\<forall>n. q = Some n \<longleftrightarrow> n \<in> {1, 2, 3} \<and> ex_key n = 2" using look [of 2] by blast
  obtain q' where q': "BAVL_LookupExact (\<lambda>n. B_COMPARE 7 (ex_key n)) t = Some (Inr q')" "\<forall>n. q' = Some n \<longleftrightarrow> n \<in> {1, 2, 3} \<and> ex_key n = 7" using look [of 7] by blast
  have "q = Some 2" using q(2) by (simp add: ex_key_def)
  moreover have "q' \<noteq> Some n" for n using q'(2) [rule_format, of n] by (auto simp: ex_key_def)
  then have "q' = None" by (cases q') auto
  ultimately show ?thesis using t q(1) q'(1) by blast
qed

end
