(* ===== verification/Chunk_Buffer.thy ===== *)
theory Chunk_Buffer
  imports Byte_Order
begin

section \<open>The circular packet buffer: \<^verbatim>\<open>structure/ChunkBuffer2.h\<close>\<close>

text \<open>
  A ring of 4-byte blocks that holds packets of different lengths: a packet is a header block
  with its length, followed by the blocks of its data. A packet is never split by the end of the
  buffer: when the space after the last packet is too small for a packet of \<open>mtu\<close> blocks, the
  buffer wraps there (field \<open>wrap\<close>) and the next packet starts at block 0.

  The memory is the list of the buffer's bytes; block \<open>i\<close> is the bytes \<open>4 * i .. 4 * i + 3\<close> and the
  pointers \<open>input_dest\<close>, \<open>output_dest\<close> are byte offsets. The assertions of the code
  (\<open>assert_buffer\<close>, \<open>assert_io\<close>) are part of the operations, as in a build with assertions on.

  The invariant \<open>cb_rel\<close> ties a buffer to the list of packets it holds; the interpretation of
  the locale \<open>packet_queue\<close> at the end shows that the buffer is a bounded FIFO queue of packets.
\<close>

subsection \<open>Definitions\<close>

definition bdivide_up :: "int \<Rightarrow> int \<Rightarrow> int" where
  "bdivide_up a b = (let r = a mod b in if r > 0 then a div b + 1 else a div b)"

record ChunkBuffer2 =
  cb_buffer :: bytes
  cb_size :: int
  cb_wrap :: int
  cb_start :: int
  cb_used :: int
  cb_mtu :: int
  input_dest :: "int option"
  input_avail :: int
  output_dest :: "int option"
  output_avail :: int

text \<open>Assignment of a \<^verbatim>\<open>size_t\<close> value to an \<open>int\<close>: the low 32 bits, signed.\<close>

definition to_int :: "int \<Rightarrow> int" where
  "to_int x = signed_take_bit 31 x"

text \<open>\<^verbatim>\<open>buffer[i].len\<close>, read and written.\<close>

definition block_len :: "ChunkBuffer2 \<Rightarrow> int \<Rightarrow> int result" where
  "block_len b i =
     (if i < 0 then Inl Out_of_bounds
      else andthen (mem_read (cb_buffer b) (4 * nat i) 4)
             (\<lambda>bs. Inr (sint (u32_of_bytes (bs ! 0) (bs ! 1) (bs ! 2) (bs ! 3)))))"

definition set_block_len :: "ChunkBuffer2 \<Rightarrow> int \<Rightarrow> int \<Rightarrow> ChunkBuffer2 result" where
  "set_block_len b i len =
     (if i < 0 then Inl Out_of_bounds
      else andthen (mem_write (cb_buffer b) (4 * nat i) (u32_bytes (of_int len)))
             (\<lambda>m. Inr (b\<lparr>cb_buffer := m\<rparr>)))"

definition ChunkBuffer2_end :: "ChunkBuffer2 \<Rightarrow> int" where
  "ChunkBuffer2_end b =
     (if cb_used b \<ge> cb_wrap b - cb_start b then cb_used b - (cb_wrap b - cb_start b)
      else cb_start b + cb_used b)"

definition ChunkBuffer2_assert_buffer :: "ChunkBuffer2 \<Rightarrow> bool" where
  "ChunkBuffer2_assert_buffer b \<longleftrightarrow>
     cb_size b > 0 \<and> cb_wrap b > 0 \<and> cb_wrap b \<le> cb_size b \<and> cb_start b \<ge> 0 \<and>
     cb_start b < cb_wrap b \<and> cb_used b \<ge> 0 \<and> cb_used b \<le> cb_wrap b \<and>
     (cb_wrap b = cb_size b \<or> cb_used b \<ge> cb_wrap b - cb_start b) \<and> cb_mtu b \<ge> 0"

definition ChunkBuffer2_assert_io :: "ChunkBuffer2 \<Rightarrow> bool" where
  "ChunkBuffer2_assert_io b \<longleftrightarrow>
     (let e = ChunkBuffer2_end b in
      (if cb_size b - e - 1 < cb_mtu b then input_dest b = None \<and> input_avail b = -1
       else let free = (if cb_used b \<ge> cb_wrap b - cb_start b then cb_start b - e else cb_size b - e) in
            if free > 0 then input_dest b = Some (4 * (e + 1)) \<and> input_avail b = (free - 1) * 4
            else input_dest b = None \<and> input_avail b = -1) \<and>
      (if cb_used b > 0
       then (case block_len b (cb_start b) of Inl _ \<Rightarrow> False | Inr datalen \<Rightarrow>
              datalen \<ge> 0 \<and> bdivide_up datalen 4 \<le> cb_used b - 1 \<and>
              bdivide_up datalen 4 \<le> cb_wrap b - cb_start b - 1 \<and>
              output_dest b = Some (4 * (cb_start b + 1)) \<and> output_avail b = datalen)
       else output_dest b = None \<and> output_avail b = -1))"

definition ChunkBuffer2_update_input :: "ChunkBuffer2 \<Rightarrow> ChunkBuffer2" where
  "ChunkBuffer2_update_input b =
     (let e = ChunkBuffer2_end b in
      if cb_size b - e - 1 < cb_mtu b then b\<lparr>input_dest := None, input_avail := -1\<rparr>
      else let free = (if cb_used b \<ge> cb_wrap b - cb_start b then cb_start b - e else cb_size b - e) in
           if free > 0
           then b\<lparr>input_dest := Some (4 * (e + 1)), input_avail := to_int ((free - 1) * 4)\<rparr>
           else b\<lparr>input_dest := None, input_avail := -1\<rparr>)"

definition ChunkBuffer2_update_output :: "ChunkBuffer2 \<Rightarrow> ChunkBuffer2 result" where
  "ChunkBuffer2_update_output b =
     (if cb_used b > 0
      then andthen (block_len b (cb_start b)) (\<lambda>datalen.
             ASSERT (datalen \<ge> 0)
             (let blocklen = bdivide_up datalen 4 in
              ASSERT (blocklen \<le> cb_used b - 1)
              (ASSERT (blocklen \<le> cb_wrap b - cb_start b - 1)
                (Inr (b\<lparr>output_dest := Some (4 * (cb_start b + 1)), output_avail := datalen\<rparr>)))))
      else Inr (b\<lparr>output_dest := None, output_avail := -1\<rparr>))"

definition ChunkBuffer2_calc_blocks :: "int \<Rightarrow> int \<Rightarrow> int" where
  "ChunkBuffer2_calc_blocks chunk_len num =
     (let chunk_data_blocks = bdivide_up chunk_len 4 in
      if chunk_data_blocks > INT_MAX - 1 then -1 else
      let chunk_blocks = 1 + chunk_data_blocks in
      if num > INT_MAX - 1 then -1 else
      let num_chunks = num + 1 in
      if chunk_blocks > INT_MAX div num_chunks then -1
      else chunk_blocks * num_chunks)"

definition ChunkBuffer2_Init :: "bytes \<Rightarrow> int \<Rightarrow> int \<Rightarrow> ChunkBuffer2 result" where
  "ChunkBuffer2_Init buffer blocks mtu =
     ASSERT (blocks > 0) (ASSERT (mtu \<ge> 0)
      (let b = \<lparr> cb_buffer = buffer, cb_size = blocks, cb_wrap = blocks, cb_start = 0, cb_used = 0,
                 cb_mtu = bdivide_up mtu 4, input_dest = None, input_avail = 0,
                 output_dest = None, output_avail = 0 \<rparr> in
       ASSERT (ChunkBuffer2_assert_buffer b)
       (andthen (ChunkBuffer2_update_output (ChunkBuffer2_update_input b)) (\<lambda>b.
        ASSERT (ChunkBuffer2_assert_io b) (Inr b)))))"

definition ChunkBuffer2_SubmitPacket :: "ChunkBuffer2 \<Rightarrow> int \<Rightarrow> ChunkBuffer2 result" where
  "ChunkBuffer2_SubmitPacket b len =
     ASSERT (input_dest b \<noteq> None) (ASSERT (len \<ge> 0) (ASSERT (len \<le> input_avail b)
     (ASSERT (ChunkBuffer2_assert_buffer b) (ASSERT (ChunkBuffer2_assert_io b)
     (let e = ChunkBuffer2_end b; blocklen = bdivide_up len 4 in
      ASSERT (blocklen \<le> cb_size b - e - 1)
      (ASSERT (cb_used b < cb_wrap b - cb_start b \<or> blocklen \<le> cb_start b - e - 1)
      (andthen (set_block_len b e len) (\<lambda>b.
       let b = b\<lparr>cb_used := cb_used b + (1 + blocklen)\<rparr>;
           b = (if cb_used b \<le> cb_wrap b - cb_start b \<and> cb_mtu b > cb_size b - (e + 1 + blocklen) - 1
                then b\<lparr>cb_wrap := e + 1 + blocklen\<rparr> else b) in
       ASSERT (ChunkBuffer2_assert_buffer b)
       (let b = ChunkBuffer2_update_input b in
        andthen (if cb_used b = 1 + blocklen then ChunkBuffer2_update_output b else Inr b) (\<lambda>b.
        ASSERT (ChunkBuffer2_assert_io b) (Inr b)))))))))))"

definition ChunkBuffer2_ConsumePacket :: "ChunkBuffer2 \<Rightarrow> ChunkBuffer2 result" where
  "ChunkBuffer2_ConsumePacket b =
     ASSERT (output_dest b \<noteq> None)
     (ASSERT (ChunkBuffer2_assert_buffer b) (ASSERT (ChunkBuffer2_assert_io b)
     (ASSERT (1 \<le> cb_wrap b - cb_start b) (ASSERT (1 \<le> cb_used b)
     (andthen (block_len b (cb_start b)) (\<lambda>len.
      let blocklen = bdivide_up len 4 in
      ASSERT (blocklen \<le> cb_wrap b - cb_start b - 1)
      (ASSERT (blocklen \<le> cb_used b - 1)
      (let data_wrapped = (cb_used b \<ge> cb_wrap b - cb_start b);
           b = b\<lparr>cb_start := cb_start b + (1 + blocklen), cb_used := cb_used b - (1 + blocklen)\<rparr>;
           b = (if cb_start b = cb_wrap b then b\<lparr>cb_start := 0, cb_wrap := cb_size b\<rparr> else b) in
       ASSERT (ChunkBuffer2_assert_buffer b)
       (andthen (ChunkBuffer2_update_output (if data_wrapped then ChunkBuffer2_update_input b else b)) (\<lambda>b.
        ASSERT (ChunkBuffer2_assert_io b) (Inr b)))))))))))"

subsection \<open>Packets in memory\<close>

text \<open>The number of data blocks of a packet.\<close>

definition blk :: "bytes \<Rightarrow> int" where
  "blk d = bdivide_up (int (length d)) 4"

lemma bdivide_up_4: "0 \<le> a \<Longrightarrow> bdivide_up a 4 = (a + 3) div 4"
  unfolding bdivide_up_def Let_def by auto presburger+

lemma blk_bounds: "int (length d) \<le> 4 * blk d" "4 * blk d \<le> int (length d) + 3" "0 \<le> blk d"
  unfolding blk_def by (simp_all add: bdivide_up_4)

lemma blk_le_iff: "blk d \<le> k \<longleftrightarrow> int (length d) \<le> 4 * k"
  using blk_bounds [of d] by linarith

text \<open>
  \<open>laid mem lim p ds q\<close>: the packets \<open>ds\<close> lie one after the other from block \<open>p\<close> up to block
  \<open>q\<close>, each starting at or before block \<open>lim\<close> (the last place from which a packet of the MTU fits).
\<close>

fun laid :: "bytes \<Rightarrow> int \<Rightarrow> int \<Rightarrow> bytes list \<Rightarrow> int \<Rightarrow> bool" where
  "laid mem lim p [] q \<longleftrightarrow> p = q"
| "laid mem lim p (d # ds) q \<longleftrightarrow>
     0 \<le> p \<and> p \<le> lim \<and> int (length d) \<le> INT_MAX \<and>
     mem_read mem (4 * nat p) 4 = Inr (u32_bytes (of_nat (length d))) \<and>
     mem_read mem (4 * nat p + 4) (length d) = Inr d \<and>
     laid mem lim (p + 1 + blk d) ds q"

lemma laid_le: "laid mem lim p ds q \<Longrightarrow> p + int (length ds) \<le> q"
proof (induction ds arbitrary: p)
  case (Cons d ds)
  then show ?case using blk_bounds(3) [of d] by fastforce
qed simp

lemma laid_append: "laid mem lim p (ds @ es) q \<longleftrightarrow> (\<exists>r. laid mem lim p ds r \<and> laid mem lim r es q)"
  by (induction ds arbitrary: p) auto

lemma laid_snoc:
  "laid mem lim p ds r \<Longrightarrow> laid mem lim r [d] q \<Longrightarrow> laid mem lim p (ds @ [d]) q"
  by (auto simp: laid_append)

lemma laid_frame:
  assumes "laid mem lim p ds q" "0 \<le> p"
    and "\<And>off len. 4 * nat p \<le> off \<Longrightarrow> off + len \<le> 4 * nat q \<Longrightarrow>
           mem_read mem' off len = mem_read mem off len"
  shows "laid mem' lim p ds q"
  using assms
proof (induction ds arbitrary: p)
  case (Cons d ds)
  have l: "laid mem lim (p + 1 + blk d) ds q" using Cons.prems(1) by simp
  have q: "p + 1 + blk d \<le> q" using laid_le [OF l] by linarith
  have b: "length d \<le> 4 * nat (blk d)" using blk_bounds(1,3) [of d] by linarith
  have n: "nat (p + 1 + blk d) = nat p + 1 + nat (blk d)" "nat p + 1 + nat (blk d) \<le> nat q"
    using q Cons.prems(2) blk_bounds(3) [of d] by linarith+
  have "mem_read mem' (4 * nat p) 4 = mem_read mem (4 * nat p) 4"
    "mem_read mem' (4 * nat p + 4) (length d) = mem_read mem (4 * nat p + 4) (length d)"
    using n b by (intro Cons.prems(3); linarith)+
  moreover have "laid mem' lim (p + 1 + blk d) ds q"
    using n Cons.prems(2) blk_bounds(3) [of d]
    by (intro Cons.IH [OF l]) (linarith, intro Cons.prems(3), linarith+)
  ultimately show ?case using Cons.prems(1) by simp
qed simp

subsection \<open>The invariant\<close>

definition cb_wrapped :: "ChunkBuffer2 \<Rightarrow> bool" where
  "cb_wrapped b \<longleftrightarrow> cb_used b \<ge> cb_wrap b - cb_start b"

definition cb_lim :: "ChunkBuffer2 \<Rightarrow> int" where
  "cb_lim b = cb_size b - cb_mtu b - 1"

text \<open>Where the packets lie: \<open>front\<close> from \<open>start\<close>, \<open>rear\<close> from block 0 once the data is wrapped.\<close>

definition cb_shape :: "ChunkBuffer2 \<Rightarrow> bytes list \<Rightarrow> bytes list \<Rightarrow> bool" where
  "cb_shape b front rear \<longleftrightarrow>
     0 \<le> cb_mtu b \<and> cb_mtu b < cb_size b \<and> int (length (cb_buffer b)) = 4 * cb_size b \<and>
     4 * cb_size b \<le> INT_MAX \<and> 0 \<le> cb_start b \<and> cb_start b < cb_wrap b \<and> cb_wrap b \<le> cb_size b \<and>
     (if cb_wrapped b
      then ChunkBuffer2_end b \<le> cb_start b \<and> cb_size b - cb_wrap b \<le> cb_mtu b \<and>
           laid (cb_buffer b) (cb_lim b) (cb_start b) front (cb_wrap b) \<and>
           laid (cb_buffer b) (cb_lim b) 0 rear (ChunkBuffer2_end b)
      else 0 \<le> cb_used b \<and> rear = [] \<and> cb_wrap b = cb_size b \<and> ChunkBuffer2_end b \<le> cb_lim b \<and>
           laid (cb_buffer b) (cb_lim b) (cb_start b) front (ChunkBuffer2_end b))"

definition cb_free :: "ChunkBuffer2 \<Rightarrow> int" where
  "cb_free b = (if cb_wrapped b then cb_start b - ChunkBuffer2_end b else cb_size b - ChunkBuffer2_end b)"

definition cb_in_ok :: "ChunkBuffer2 \<Rightarrow> bool" where
  "cb_in_ok b \<longleftrightarrow>
     (if cb_free b > 0
      then input_dest b = Some (4 * (ChunkBuffer2_end b + 1)) \<and> input_avail b = (cb_free b - 1) * 4
      else input_dest b = None \<and> input_avail b = -1)"

definition cb_out_ok :: "ChunkBuffer2 \<Rightarrow> bytes list \<Rightarrow> bool" where
  "cb_out_ok b pkts \<longleftrightarrow>
     (case pkts of [] \<Rightarrow> output_dest b = None \<and> output_avail b = -1
      | d # _ \<Rightarrow> output_dest b = Some (4 * (cb_start b + 1)) \<and> output_avail b = int (length d))"

definition cb_rel :: "ChunkBuffer2 \<Rightarrow> bytes list \<Rightarrow> bool" where
  "cb_rel b pkts \<longleftrightarrow>
     (\<exists>front rear. pkts = front @ rear \<and> cb_shape b front rear) \<and> cb_in_ok b \<and> cb_out_ok b pkts"

lemmas cb_end_simps = ChunkBuffer2_end_def cb_wrapped_def cb_lim_def

lemma to_int_small: "0 \<le> x \<Longrightarrow> x \<le> INT_MAX \<Longrightarrow> to_int x = x"
  unfolding to_int_def INT_MAX_def by (rule signed_take_bit_int_eq_self) simp_all

lemma sint_of_nat_u32: "int n \<le> INT_MAX \<Longrightarrow> sint (of_nat n :: u32) = int n"
  by (simp add: INT_MAX_def signed_of_nat signed_take_bit_int_eq_self)

lemma block_len_laid:
  assumes "laid (cb_buffer b) lim p (d # ds) q"
  shows "block_len b p = Inr (int (length d))"
proof -
  let ?x = "of_nat (length d) :: u32"
  have j: "u32_of_bytes (u32_bytes ?x ! 0) (u32_bytes ?x ! 1) (u32_bytes ?x ! 2) (u32_bytes ?x ! 3) = ?x"
    by (simp add: u32_bytes_def join_bytes32)
  have "\<not> p < 0" "int (length d) \<le> INT_MAX"
    "mem_read (cb_buffer b) (4 * nat p) 4 = Inr (u32_bytes ?x)" using assms by auto
  then show ?thesis
    using j by (simp add: block_len_def sint_of_nat_u32)
qed

text \<open>The facts about the positions that the proofs below share.\<close>

lemma shapeD:
  assumes "cb_shape b front rear"
  shows "0 \<le> ChunkBuffer2_end b" "ChunkBuffer2_end b \<le> cb_lim b" "cb_used b \<le> cb_wrap b" "0 \<le> cb_used b"
    "cb_used b > 0 \<longleftrightarrow> front \<noteq> []" "cb_wrapped b \<Longrightarrow> front \<noteq> []"
    "\<not> cb_wrapped b \<Longrightarrow> cb_start b \<le> ChunkBuffer2_end b"
proof -
  have w: "cb_wrapped b \<Longrightarrow> front \<noteq> []" using assms by (auto simp: cb_shape_def)
  then show "cb_wrapped b \<Longrightarrow> front \<noteq> []" .
  have "cb_wrapped b \<Longrightarrow> cb_start b \<le> cb_lim b"
    using w assms by (cases front) (auto simp: cb_shape_def)
  then show "ChunkBuffer2_end b \<le> cb_lim b" using assms by (cases "cb_wrapped b") (auto simp: cb_shape_def)
  show "0 \<le> ChunkBuffer2_end b" "0 \<le> cb_used b" "cb_used b \<le> cb_wrap b"
    using assms by (auto simp: cb_shape_def cb_end_simps split: if_splits)
  show "cb_used b > 0 \<longleftrightarrow> front \<noteq> []"
  proof (cases "cb_wrapped b")
    case True
    then have "cb_used b > 0" using assms by (auto simp: cb_shape_def cb_wrapped_def)
    then show ?thesis using w [OF True] by simp
  next
    case False
    then have l: "laid (cb_buffer b) (cb_lim b) (cb_start b) front (cb_start b + cb_used b)"
      using assms by (auto simp: cb_shape_def cb_end_simps split: if_splits)
    show ?thesis using l laid_le [OF l] by (cases front) auto
  qed
  show "\<not> cb_wrapped b \<Longrightarrow> cb_start b \<le> ChunkBuffer2_end b"
    using assms by (auto simp: cb_shape_def cb_end_simps split: if_splits)
qed

lemma shape_front_laid:
  assumes "cb_shape b front rear"
  shows "laid (cb_buffer b) (cb_lim b) (cb_start b) front
           (if cb_wrapped b then cb_wrap b else ChunkBuffer2_end b)"
  using assms by (auto simp: cb_shape_def)

lemma shape_assert_buffer: "cb_shape b front rear \<Longrightarrow> ChunkBuffer2_assert_buffer b"
  using shapeD(3,4) [of b front rear]
  by (auto simp: ChunkBuffer2_assert_buffer_def cb_shape_def cb_wrapped_def split: if_splits)

lemma shape_first_fits:
  assumes "cb_shape b (d # front) rear"
  shows "block_len b (cb_start b) = Inr (int (length d))"
    "blk d \<le> cb_used b - 1" "blk d \<le> cb_wrap b - cb_start b - 1" "0 \<le> cb_start b + 1 + blk d"
proof -
  let ?q = "if cb_wrapped b then cb_wrap b else ChunkBuffer2_end b"
  have l: "laid (cb_buffer b) (cb_lim b) (cb_start b) (d # front) ?q"
    by (rule shape_front_laid [OF assms])
  show "block_len b (cb_start b) = Inr (int (length d))" by (rule block_len_laid [OF l])
  have "cb_start b + 1 + blk d \<le> ?q" using l laid_le [of _ _ "cb_start b + 1 + blk d" front ?q] by force
  then show "blk d \<le> cb_used b - 1" "blk d \<le> cb_wrap b - cb_start b - 1" "0 \<le> cb_start b + 1 + blk d"
    using assms blk_bounds(3) [of d] by (auto simp: cb_shape_def cb_end_simps split: if_splits)
qed

lemma shape_assert_io:
  assumes "cb_shape b front rear" and "cb_in_ok b" and "cb_out_ok b (front @ rear)"
  shows "ChunkBuffer2_assert_io b"
proof -
  have "\<not> cb_size b - ChunkBuffer2_end b - 1 < cb_mtu b"
    using shapeD(2) [OF assms(1)] by (simp add: cb_lim_def)
  moreover have "rear = []" if "front = []" using that assms(1) shapeD(6) [OF assms(1)]
    by (auto simp: cb_shape_def split: if_splits)
  ultimately show ?thesis
    using assms(2,3) shapeD(5) [OF assms(1)] shape_first_fits [of b _ _ rear] assms(1)
    by (cases front)
       (auto simp: ChunkBuffer2_assert_io_def Let_def cb_in_ok_def cb_out_ok_def cb_free_def
          cb_wrapped_def blk_def [symmetric])
qed

lemma update_input_ok:
  assumes "cb_shape b front rear"
  shows "cb_in_ok (ChunkBuffer2_update_input b)"
    and "cb_shape (ChunkBuffer2_update_input b) front rear"
    and "ChunkBuffer2_update_input b = b\<lparr>input_dest := input_dest (ChunkBuffer2_update_input b),
           input_avail := input_avail (ChunkBuffer2_update_input b)\<rparr>"
proof -
  let ?b = "ChunkBuffer2_update_input b"
  have n: "\<not> cb_size b - ChunkBuffer2_end b - 1 < cb_mtu b"
    using shapeD(2) [OF assms] by (simp add: cb_lim_def)
  have f: "cb_free b \<le> cb_size b" "4 * cb_size b \<le> INT_MAX"
    using assms shapeD(1) [OF assms] by (auto simp: cb_free_def cb_shape_def)
  have t: "cb_free b > 0 \<Longrightarrow> to_int ((cb_free b - 1) * 4) = (cb_free b - 1) * 4"
    using f by (intro to_int_small) auto
  have u: "?b = (if cb_free b > 0 then b\<lparr>input_dest := Some (4 * (ChunkBuffer2_end b + 1)),
                     input_avail := (cb_free b - 1) * 4\<rparr>
                 else b\<lparr>input_dest := None, input_avail := -1\<rparr>)"
    using n t by (simp add: ChunkBuffer2_update_input_def Let_def cb_free_def cb_wrapped_def)
  show "cb_in_ok ?b" unfolding u by (auto simp: cb_in_ok_def cb_free_def cb_end_simps)
  show "cb_shape ?b front rear" using assms unfolding u by (auto simp: cb_shape_def cb_end_simps)
  show "?b = b\<lparr>input_dest := input_dest ?b, input_avail := input_avail ?b\<rparr>" unfolding u by simp
qed

lemma update_output_ok:
  assumes "cb_shape b front rear"
  obtains b' where "ChunkBuffer2_update_output b = Inr b'" and "cb_out_ok b' (front @ rear)"
    and "b' = b\<lparr>output_dest := output_dest b', output_avail := output_avail b'\<rparr>"
proof (cases front)
  case Nil
  then have "rear = []" using assms shapeD(6) [OF assms] by (auto simp: cb_shape_def split: if_splits)
  then show ?thesis
    using Nil that [of "b\<lparr>output_dest := None, output_avail := -1\<rparr>"] shapeD(5) [OF assms]
    by (simp add: ChunkBuffer2_update_output_def cb_out_ok_def)
next
  case (Cons d hds')
  note f = shape_first_fits [OF assms [unfolded Cons]]
  show ?thesis
    using Cons that [of "b\<lparr>output_dest := Some (4 * (cb_start b + 1)), output_avail := int (length d)\<rparr>"]
      shapeD(5) [OF assms] f
    by (simp add: ChunkBuffer2_update_output_def cb_out_ok_def Let_def blk_def [symmetric])
qed

lemma cb_shape_cong:
  assumes "cb_shape b front rear" and "b' = b\<lparr>output_dest := o1, output_avail := o2\<rparr>"
  shows "cb_shape b' front rear" "cb_in_ok b' \<longleftrightarrow> cb_in_ok b"
  using assms by (auto simp: cb_shape_def cb_in_ok_def cb_free_def cb_end_simps)

subsection \<open>The operations keep the invariant\<close>

lemma cb_relI:
  assumes "cb_shape b front rear" and "cb_in_ok b" and "ChunkBuffer2_update_output b = Inr b'"
  shows "cb_rel b' (front @ rear)" and "ChunkBuffer2_assert_io b'"
    and "b' = b\<lparr>output_dest := output_dest b', output_avail := output_avail b'\<rparr>"
proof -
  obtain b'' where b: "ChunkBuffer2_update_output b = Inr b''" "cb_out_ok b'' (front @ rear)"
    "b'' = b\<lparr>output_dest := output_dest b'', output_avail := output_avail b''\<rparr>"
    using update_output_ok [OF assms(1)] .
  then have e: "b'' = b'" using assms(3) by simp
  show u: "b' = b\<lparr>output_dest := output_dest b', output_avail := output_avail b'\<rparr>" using b(3) e by simp
  have s: "cb_shape b' front rear" "cb_in_ok b'"
    using cb_shape_cong [OF assms(1) u] assms(2) by simp_all
  show "cb_rel b' (front @ rear)" using s b(2) e by (auto simp: cb_rel_def)
  show "ChunkBuffer2_assert_io b'" by (rule shape_assert_io [OF s]) (use b(2) e in simp)
qed

lemma Init_rel:
  assumes "0 \<le> mtu" and "bdivide_up mtu 4 < blocks" and "int (length buffer) = 4 * blocks"
    and "4 * blocks \<le> INT_MAX"
  obtains b where "ChunkBuffer2_Init buffer blocks mtu = Inr b" and "cb_rel b []"
    and "cb_size b = blocks" and "cb_mtu b = bdivide_up mtu 4"
proof -
  let ?b = "\<lparr> cb_buffer = buffer, cb_size = blocks, cb_wrap = blocks, cb_start = 0, cb_used = 0,
                 cb_mtu = bdivide_up mtu 4, input_dest = None, input_avail = 0,
                 output_dest = None, output_avail = 0 \<rparr>"
  have m: "0 \<le> bdivide_up mtu 4" using assms(1) by (simp add: bdivide_up_4)
  have s: "cb_shape ?b [] []" using assms m by (simp add: cb_shape_def cb_end_simps)
  let ?i = "ChunkBuffer2_update_input ?b"
  note i = update_input_ok [OF s]
  obtain b' where b': "ChunkBuffer2_update_output ?i = Inr b'" using update_output_ok [OF i(2)] by blast
  note r = cb_relI [OF i(2,1) b']
  have f: "cb_size b' = blocks" "cb_mtu b' = bdivide_up mtu 4"
    using r(3) i(3) by (metis ChunkBuffer2.select_convs ChunkBuffer2.update_convs(7-10))+
  show thesis
    using that [of b'] r f b' shape_assert_buffer [OF s] assms m
    by (simp add: ChunkBuffer2_Init_def Let_def)
qed

text \<open>Moving \<open>start\<close> past the first packet.\<close>

definition cb_advance :: "ChunkBuffer2 \<Rightarrow> int \<Rightarrow> ChunkBuffer2" where
  "cb_advance b n =
     (let b = b\<lparr>cb_start := cb_start b + n, cb_used := cb_used b - n\<rparr> in
      if cb_start b = cb_wrap b then b\<lparr>cb_start := 0, cb_wrap := cb_size b\<rparr> else b)"

lemma advance_fields [simp]:
  "cb_buffer (cb_advance b n) = cb_buffer b" "cb_size (cb_advance b n) = cb_size b"
  "cb_mtu (cb_advance b n) = cb_mtu b" "input_dest (cb_advance b n) = input_dest b"
  "input_avail (cb_advance b n) = input_avail b"
  by (simp_all add: cb_advance_def Let_def)

lemma advance_shape:
  assumes "cb_shape b (d # front) rear"
  obtains front' rear' where "front @ rear = front' @ rear'"
    and "cb_shape (cb_advance b (1 + blk d)) front' rear'"
    and "ChunkBuffer2_end (cb_advance b (1 + blk d)) = ChunkBuffer2_end b"
    and "cb_free b \<le> cb_free (cb_advance b (1 + blk d))"
    and "\<not> cb_wrapped b \<Longrightarrow> cb_free (cb_advance b (1 + blk d)) = cb_free b"
proof -
  let ?s = "cb_start b + 1 + blk d" and ?a = "cb_advance b (1 + blk d)"
  note fits = shape_first_fits [OF assms] and D = shapeD [OF assms]
  have k: "0 \<le> blk d" by (rule blk_bounds)
  note sh = assms [unfolded cb_shape_def]
  show thesis
  proof (cases "cb_wrapped b")
    case True
    then have l: "laid (cb_buffer b) (cb_lim b) ?s front (cb_wrap b)"
      "laid (cb_buffer b) (cb_lim b) 0 rear (ChunkBuffer2_end b)" using sh by auto
    show ?thesis
    proof (cases front)
      case Nil
      then have "?s = cb_wrap b" using l by simp
      then have a: "?a = b\<lparr>cb_start := 0, cb_used := cb_used b - (1 + blk d), cb_wrap := cb_size b\<rparr>"
        "cb_used b - (1 + blk d) = ChunkBuffer2_end b"
        using True by (simp_all add: cb_advance_def cb_end_simps Let_def add_ac)
      have lt: "ChunkBuffer2_end b < cb_size b" using D(2) sh by (simp add: cb_lim_def)
      have e: "ChunkBuffer2_end ?a = ChunkBuffer2_end b" "\<not> cb_wrapped ?a"
        unfolding a using lt a(2) by (simp_all add: ChunkBuffer2_end_def cb_wrapped_def)
      show ?thesis
        using Nil a sh e l(2) D(1,2) lt True
        by (intro that [of rear "[]"]) (auto simp: cb_shape_def cb_free_def cb_lim_def)
    next
      case (Cons d' front')
      then have lt: "?s < cb_wrap b" using laid_le [OF l(1)] by simp
      then have a: "?a = b\<lparr>cb_start := cb_start b + (1 + blk d), cb_used := cb_used b - (1 + blk d)\<rparr>"
        by (simp add: cb_advance_def Let_def)
      have e: "ChunkBuffer2_end ?a = ChunkBuffer2_end b" "cb_wrapped ?a"
        unfolding a using True by (simp_all add: ChunkBuffer2_end_def cb_wrapped_def)
      show ?thesis
        using a sh e l D(1,2) lt True k
        by (intro that [of front rear]) (auto simp: cb_shape_def cb_free_def cb_lim_def add_ac)
    qed
  next
    case False
    then have l: "laid (cb_buffer b) (cb_lim b) ?s front (ChunkBuffer2_end b)" and w: "cb_wrap b = cb_size b"
      using sh by auto
    have le: "?s \<le> ChunkBuffer2_end b" using laid_le [OF l] by linarith
    have lt: "?s < cb_wrap b" using le D(2) sh w by (simp add: cb_lim_def)
    then have a: "?a = b\<lparr>cb_start := cb_start b + (1 + blk d), cb_used := cb_used b - (1 + blk d)\<rparr>"
      by (simp add: cb_advance_def Let_def)
    have e: "ChunkBuffer2_end ?a = ChunkBuffer2_end b" "\<not> cb_wrapped ?a"
      unfolding a using False by (simp_all add: ChunkBuffer2_end_def cb_wrapped_def)
    show ?thesis
      using a sh e l D(1,2) lt False k le fits(2)
      by (intro that [of front "[]"]) (auto simp: cb_shape_def cb_free_def cb_lim_def add_ac)
  qed
qed

lemma cb_relD:
  assumes "cb_rel b pkts"
  obtains front rear where "pkts = front @ rear" and "cb_shape b front rear"
    and "cb_in_ok b" and "cb_out_ok b pkts" and "ChunkBuffer2_assert_buffer b" and "ChunkBuffer2_assert_io b"
  using assms shape_assert_io shape_assert_buffer unfolding cb_rel_def by metis

lemma rel_front_Cons:
  assumes "d # ds = front @ rear" and "cb_shape b front rear"
  obtains front' where "front = d # front'" and "ds = front' @ rear"
proof (cases front)
  case Nil
  then have "\<not> cb_wrapped b" using shapeD(6) [OF assms(2)] by blast
  then have "rear = []" using assms(2) by (simp add: cb_shape_def)
  then show ?thesis using Nil assms(1) by simp
next
  case (Cons x xs)
  then show ?thesis using assms(1) that by simp
qed

lemma in_ok_stable:
  assumes "cb_in_ok b" and "cb_in_ok b'" and "ChunkBuffer2_end b' = ChunkBuffer2_end b"
    and "cb_free b \<le> cb_free b'"
  shows "input_dest b \<noteq> None \<Longrightarrow> input_dest b' = input_dest b" and "input_avail b \<le> input_avail b'"
  using assms by (auto simp: cb_in_ok_def split: if_splits)

lemma ConsumePacket_advance:
  "ChunkBuffer2_ConsumePacket b =
     ASSERT (output_dest b \<noteq> None)
     (ASSERT (ChunkBuffer2_assert_buffer b) (ASSERT (ChunkBuffer2_assert_io b)
     (ASSERT (1 \<le> cb_wrap b - cb_start b) (ASSERT (1 \<le> cb_used b)
     (andthen (block_len b (cb_start b)) (\<lambda>len.
      ASSERT (bdivide_up len 4 \<le> cb_wrap b - cb_start b - 1)
      (ASSERT (bdivide_up len 4 \<le> cb_used b - 1)
      (let a = cb_advance b (1 + bdivide_up len 4) in
       ASSERT (ChunkBuffer2_assert_buffer a)
       (andthen (ChunkBuffer2_update_output (if cb_wrapped b then ChunkBuffer2_update_input a else a)) (\<lambda>b.
        ASSERT (ChunkBuffer2_assert_io b) (Inr b)))))))))))"
  by (simp only: ChunkBuffer2_ConsumePacket_def cb_advance_def cb_wrapped_def Let_def)

lemma ConsumePacket_rel:
  assumes "cb_rel b (d # ds)"
  obtains b' where "ChunkBuffer2_ConsumePacket b = Inr b'" and "cb_rel b' ds"
    and "cb_buffer b' = cb_buffer b" and "cb_size b' = cb_size b" and "cb_mtu b' = cb_mtu b"
    and "input_dest b \<noteq> None \<Longrightarrow> input_dest b' = input_dest b" and "input_avail b \<le> input_avail b'"
proof -
  obtain front rear where p: "d # ds = front @ rear" and s: "cb_shape b front rear"
    and ok: "cb_in_ok b" "cb_out_ok b (d # ds)" "ChunkBuffer2_assert_buffer b" "ChunkBuffer2_assert_io b"
    using cb_relD [OF assms] .
  obtain fr where f: "front = d # fr" "ds = fr @ rear" using rel_front_Cons [OF p s] .
  note fits = shape_first_fits [OF s [unfolded f]]
  let ?a = "cb_advance b (1 + blk d)"
  obtain front' rear' where a: "fr @ rear = front' @ rear'" "cb_shape ?a front' rear'"
    "ChunkBuffer2_end ?a = ChunkBuffer2_end b" "cb_free b \<le> cb_free ?a"
    "\<not> cb_wrapped b \<Longrightarrow> cb_free ?a = cb_free b"
    using advance_shape [OF s [unfolded f]] by metis
  have na: "\<not> cb_wrapped b \<Longrightarrow> cb_in_ok ?a" using a(3,5) ok(1) by (simp add: cb_in_ok_def)
  define i where "i = (if cb_wrapped b then ChunkBuffer2_update_input ?a else ?a)"
  have i: "cb_in_ok i" "cb_shape i front' rear'"
    "i = ?a\<lparr>input_dest := input_dest i, input_avail := input_avail i\<rparr>"
    using update_input_ok [OF a(2)] a(2) na unfolding i_def by auto
  obtain b' where b': "ChunkBuffer2_update_output i = Inr b'" using update_output_ok [OF i(2)] by blast
  note r = cb_relI [OF i(2,1) b']
  have u: "b' = ?a\<lparr>input_dest := input_dest b', input_avail := input_avail b',
                   output_dest := output_dest b', output_avail := output_avail b'\<rparr>"
    using r(3) i(3) by (metis ChunkBuffer2.select_convs(7,8) ChunkBuffer2.surjective
        ChunkBuffer2.update_convs(7-10))
  have c: "ChunkBuffer2_ConsumePacket b = Inr b'"
    using ok fits b' r(2) shape_assert_buffer [OF a(2)] blk_bounds(3) [of d]
    unfolding ConsumePacket_advance i_def
    by (simp add: cb_out_ok_def Let_def blk_def [symmetric] cong: if_cong split del: if_split)
  have e: "ChunkBuffer2_end b' = ChunkBuffer2_end ?a" "cb_free b' = cb_free ?a"
    by (subst u, simp add: cb_end_simps cb_free_def)+
  have io: "cb_in_ok b'" using cb_relD [OF r(1)] by blast
  show thesis
  proof (rule that [OF c])
    show "cb_rel b' ds" using r(1) a(1) f(2) by simp
    show "cb_buffer b' = cb_buffer b" "cb_size b' = cb_size b" "cb_mtu b' = cb_mtu b"
      by (subst u, simp)+
    show "input_dest b \<noteq> None \<Longrightarrow> input_dest b' = input_dest b" "input_avail b \<le> input_avail b'"
      using in_ok_stable [OF ok(1) io] e a(3,4) by simp_all
  qed
qed


text \<open>The provider of the input writes a packet at \<open>input_dest\<close> before it is submitted.\<close>

definition cb_fill :: "ChunkBuffer2 \<Rightarrow> bytes \<Rightarrow> ChunkBuffer2 result" where
  "cb_fill b data =
     (case input_dest b of None \<Rightarrow> Inl Out_of_bounds
      | Some off \<Rightarrow> andthen (mem_write (cb_buffer b) (nat off) data) (\<lambda>m. Inr (b\<lparr>cb_buffer := m\<rparr>)))"

text \<open>The free region: between the end of the data and \<open>start\<close> or the end of the buffer.\<close>

lemma shape_frame:
  assumes s: "cb_shape b front rear" and w: "mem_write (cb_buffer b) off bs = Inr m"
    and lo: "4 * nat (ChunkBuffer2_end b) \<le> off"
    and hi: "int (off + length bs) \<le> 4 * (ChunkBuffer2_end b + cb_free b)"
  shows "cb_shape (b\<lparr>cb_buffer := m\<rparr>) front rear"
proof -
  let ?e = "ChunkBuffer2_end b"
  have len: "length m = length (cb_buffer b)" by (rule mem_write_length [OF w])
  have below: "laid m (cb_lim b) p ds ?e" if "laid (cb_buffer b) (cb_lim b) p ds ?e" "0 \<le> p" for p ds
    using that lo by (intro laid_frame [OF that]) (auto intro!: mem_write_read_before [OF w])
  have above: "laid m (cb_lim b) (cb_start b) front q"
    if "laid (cb_buffer b) (cb_lim b) (cb_start b) front q" "cb_wrapped b" for q
    using that hi s
    by (intro laid_frame [OF that(1)])
       (auto intro!: mem_write_read_after [OF w] simp: cb_free_def cb_shape_def)
  show ?thesis
    using s len below above by (auto simp: cb_shape_def cb_end_simps)
qed

lemma in_ok_dest:
  assumes "cb_shape b front rear" and "cb_in_ok b" and "input_dest b = Some off"
  shows "off = 4 * (ChunkBuffer2_end b + 1)" "input_avail b = (cb_free b - 1) * 4" "0 < cb_free b"
    "ChunkBuffer2_end b + cb_free b \<le> cb_size b"
  using assms by (auto simp: cb_in_ok_def cb_free_def cb_shape_def split: if_splits)

lemma ok_buffer [simp]:
  "cb_in_ok (b\<lparr>cb_buffer := m\<rparr>) = cb_in_ok b" "cb_out_ok (b\<lparr>cb_buffer := m\<rparr>) pkts = cb_out_ok b pkts"
  by (simp_all add: cb_in_ok_def cb_out_ok_def cb_free_def cb_end_simps split: list.split)

lemma fill_rel:
  assumes "cb_rel b pkts" and "input_dest b = Some off" and "int (length data) \<le> input_avail b"
  obtains m where "cb_fill b data = Inr (b\<lparr>cb_buffer := m\<rparr>)" and "cb_rel (b\<lparr>cb_buffer := m\<rparr>) pkts"
    and "mem_read m (nat off) (length data) = Inr data" and "length m = length (cb_buffer b)"
proof -
  obtain front rear where p: "pkts = front @ rear" and s: "cb_shape b front rear"
    and ok: "cb_in_ok b" "cb_out_ok b pkts" using cb_relD [OF assms(1)] .
  note d = in_ok_dest [OF s ok(1) assms(2)]
  have e: "0 \<le> ChunkBuffer2_end b" using shapeD(1) [OF s] .
  have "nat off + length data \<le> length (cb_buffer b)"
    using d e assms(3) s by (simp add: cb_shape_def nat_le_iff) linarith
  then obtain m where w: "mem_write (cb_buffer b) (nat off) data = Inr m" by (simp add: mem_write_def)
  have s': "cb_shape (b\<lparr>cb_buffer := m\<rparr>) front rear"
    by (rule shape_frame [OF s w]) (use d e assms(3) in simp_all)
  have r: "cb_rel (b\<lparr>cb_buffer := m\<rparr>) pkts"
    using s' ok p by (auto simp: cb_rel_def)
  show thesis
    by (rule that [of m]) (use w assms(2) r mem_write_read_same [OF w] mem_write_length [OF w] in \<open>simp_all add: cb_fill_def\<close>)
qed


text \<open>Extending the data by a packet of \<open>1 + n\<close> blocks.\<close>

definition cb_extend :: "ChunkBuffer2 \<Rightarrow> int \<Rightarrow> int \<Rightarrow> ChunkBuffer2" where
  "cb_extend b e n =
     (let b = b\<lparr>cb_used := cb_used b + (1 + n)\<rparr> in
      if cb_used b \<le> cb_wrap b - cb_start b \<and> cb_mtu b > cb_size b - (e + 1 + n) - 1
      then b\<lparr>cb_wrap := e + 1 + n\<rparr> else b)"

lemma extend_fields [simp]:
  "cb_buffer (cb_extend b e n) = cb_buffer b" "cb_size (cb_extend b e n) = cb_size b"
  "cb_mtu (cb_extend b e n) = cb_mtu b" "cb_start (cb_extend b e n) = cb_start b"
  "output_dest (cb_extend b e n) = output_dest b" "output_avail (cb_extend b e n) = output_avail b"
  "cb_used (cb_extend b e n) = cb_used b + (1 + n)"
  by (simp_all add: cb_extend_def Let_def)

lemma extend_shape:
  assumes s: "cb_shape b front rear" and f: "blk d \<le> cb_free b - 1"
    and l: "\<And>q. q = ChunkBuffer2_end b + 1 + blk d \<Longrightarrow>
              laid (cb_buffer b) (cb_lim b) (ChunkBuffer2_end b) [d] q"
  obtains front' rear' where "front @ rear @ [d] = front' @ rear'" and "cb_shape (cb_extend b (ChunkBuffer2_end b) (blk d)) front' rear'"
proof -
  let ?e = "ChunkBuffer2_end b" and ?x = "cb_extend b (ChunkBuffer2_end b) (blk d)"
  let ?e' = "?e + 1 + blk d"
  have k: "0 \<le> blk d" by (rule blk_bounds)
  note D = shapeD [OF s] and sh = s [unfolded cb_shape_def]
  note l' = l [OF refl]
  show thesis
  proof (cases "cb_wrapped b")
    case True
    then have x: "?x = b\<lparr>cb_used := cb_used b + (1 + blk d)\<rparr>"
      using k by (simp add: cb_extend_def Let_def cb_wrapped_def)
    have e: "ChunkBuffer2_end ?x = ?e'" "cb_wrapped ?x"
      unfolding x using True k by (simp_all add: cb_end_simps)
    have "laid (cb_buffer b) (cb_lim b) 0 (rear @ [d]) ?e'"
      using True sh l' by (intro laid_snoc [of _ _ _ _ ?e]) auto
    then show ?thesis
      using True sh e f by (intro that [of front "rear @ [d]"])
        (auto simp: cb_shape_def x cb_free_def cb_lim_def)
  next
    case False
    then have w: "cb_wrap b = cb_size b" "rear = []" using sh by simp_all
    have u: "?e = cb_start b + cb_used b" using False by (simp add: cb_end_simps)
    have le: "?e' \<le> cb_size b" using f False by (simp add: cb_free_def)
    have fr: "laid (cb_buffer b) (cb_lim b) (cb_start b) (front @ [d]) ?e'"
      using False sh l' by (intro laid_snoc [of _ _ _ _ ?e]) auto
    show ?thesis
    proof (cases "cb_mtu b > cb_size b - ?e' - 1")
      case True
      then have x: "?x = b\<lparr>cb_used := cb_used b + (1 + blk d), cb_wrap := ?e'\<rparr>"
        using le w u by (simp add: cb_extend_def Let_def)
      have e: "ChunkBuffer2_end ?x = 0" "cb_wrapped ?x"
        unfolding x using u by (simp_all add: cb_end_simps)
      have wx: "cb_wrap ?x = ?e'" "cb_start b < ?e'" unfolding x using D(7) [OF False] k by simp_all
      show ?thesis
        using e sh le fr True w D(4) k wx
        by (intro that [of "front @ [d]" "[]"]) (auto simp: cb_shape_def cb_lim_def)
    next
      case n: False
      then have x: "?x = b\<lparr>cb_used := cb_used b + (1 + blk d)\<rparr>"
        by (auto simp: cb_extend_def Let_def)
      have e: "ChunkBuffer2_end ?x = ?e'" "\<not> cb_wrapped ?x"
        unfolding x using u w n sh by (simp_all add: cb_end_simps)
      show ?thesis
        using e sh le fr n w D(4) k arg_cong [OF x, of cb_wrap]
        by (intro that [of "front @ [d]" "[]"]) (auto simp: cb_shape_def cb_lim_def)
    qed
  qed
qed

lemma SubmitPacket_extend:
  "ChunkBuffer2_SubmitPacket b len =
     ASSERT (input_dest b \<noteq> None) (ASSERT (len \<ge> 0) (ASSERT (len \<le> input_avail b)
     (ASSERT (ChunkBuffer2_assert_buffer b) (ASSERT (ChunkBuffer2_assert_io b)
     (ASSERT (bdivide_up len 4 \<le> cb_size b - ChunkBuffer2_end b - 1)
      (ASSERT (cb_used b < cb_wrap b - cb_start b \<or> bdivide_up len 4 \<le> cb_start b - ChunkBuffer2_end b - 1)
      (andthen (set_block_len b (ChunkBuffer2_end b) len) (\<lambda>b'.
       let x = cb_extend b' (ChunkBuffer2_end b) (bdivide_up len 4) in
       ASSERT (ChunkBuffer2_assert_buffer x)
        (andthen (if cb_used (ChunkBuffer2_update_input x) = 1 + bdivide_up len 4
                  then ChunkBuffer2_update_output (ChunkBuffer2_update_input x)
                  else Inr (ChunkBuffer2_update_input x)) (\<lambda>b.
        ASSERT (ChunkBuffer2_assert_io b) (Inr b)))))))))))"
  by (simp only: ChunkBuffer2_SubmitPacket_def cb_extend_def Let_def)


lemma set_block_len_laid:
  assumes s: "cb_shape b front rear" and ok: "cb_in_ok b" and dest: "input_dest b = Some off"
    and len: "int (length d) \<le> input_avail b"
    and mem: "mem_read (cb_buffer b) (nat off) (length d) = Inr d"
  obtains m where "set_block_len b (ChunkBuffer2_end b) (int (length d)) = Inr (b\<lparr>cb_buffer := m\<rparr>)"
    and "cb_shape (b\<lparr>cb_buffer := m\<rparr>) front rear"
    and "laid m (cb_lim b) (ChunkBuffer2_end b) [d] (ChunkBuffer2_end b + 1 + blk d)"
    and "blk d \<le> cb_free b - 1"
proof -
  let ?e = "ChunkBuffer2_end b"
  note d = in_ok_dest [OF s ok dest] and D = shapeD [OF s]
  have e: "0 \<le> ?e" using D(1) .
  have "4 * nat ?e + 4 \<le> length (cb_buffer b)"
    using d e s by (simp add: cb_shape_def nat_le_iff) linarith
  then obtain m where w: "mem_write (cb_buffer b) (4 * nat ?e) (u32_bytes (of_nat (length d))) = Inr m"
    by (simp add: mem_write_def)
  have off: "nat off = 4 * nat ?e + 4" unfolding d(1) using e by (simp add: nat_eq_iff)
  have r1: "mem_read m (4 * nat ?e) 4 = Inr (u32_bytes (of_nat (length d)))"
    using mem_write_read_same [OF w] by simp
  have r2: "mem_read m (4 * nat ?e + 4) (length d) = Inr d"
    using mem_write_read_after [OF w, of "nat off" "length d"] mem off by simp
  have s': "cb_shape (b\<lparr>cb_buffer := m\<rparr>) front rear"
    by (rule shape_frame [OF s w]) (use d e in simp_all)
  have le: "int (length d) \<le> INT_MAX" using len d s e by (simp add: cb_shape_def)
  have f: "blk d \<le> cb_free b - 1" unfolding blk_le_iff using len d by simp
  show thesis
    by (rule that [of m]) (use w e r1 r2 s' le f D(2) in \<open>simp_all add: set_block_len_def\<close>)
qed

lemma rel_empty_iff:
  assumes "cb_shape b front rear"
  shows "front @ rear = [] \<longleftrightarrow> cb_used b = 0"
proof -
  have "rear = []" if "front = []"
    using that shapeD(6) [OF assms] assms by (auto simp: cb_shape_def split: if_splits)
  then show ?thesis using shapeD(4,5) [OF assms] by auto
qed

lemma update_input_same [simp]:
  "cb_used (ChunkBuffer2_update_input b) = cb_used b" "cb_start (ChunkBuffer2_update_input b) = cb_start b"
  "cb_size (ChunkBuffer2_update_input b) = cb_size b" "cb_mtu (ChunkBuffer2_update_input b) = cb_mtu b"
  "output_dest (ChunkBuffer2_update_input b) = output_dest b"
  "output_avail (ChunkBuffer2_update_input b) = output_avail b"
  by (simp_all add: ChunkBuffer2_update_input_def Let_def)

text \<open>The last step of a submission: the output side changes only if the buffer was empty.\<close>

lemma submit_finish:
  assumes s: "cb_shape i front rear" and ok: "cb_in_ok i" and p: "front @ rear = pkts @ [d]"
    and e: "pkts = [] \<longleftrightarrow> c" and out: "pkts \<noteq> [] \<Longrightarrow> cb_out_ok i pkts"
  obtains b' where "(if c then ChunkBuffer2_update_output i else Inr i) = Inr b'"
    and "cb_rel b' (pkts @ [d])" and "ChunkBuffer2_assert_io b'"
    and "cb_size b' = cb_size i" and "cb_mtu b' = cb_mtu i" and "cb_start b' = cb_start i"
proof (cases c)
  case True
  obtain b' where b': "ChunkBuffer2_update_output i = Inr b'" using update_output_ok [OF s] by blast
  note r = cb_relI [OF s ok b']
  have "cb_size b' = cb_size i" "cb_mtu b' = cb_mtu i" "cb_start b' = cb_start i"
    by (subst r(3), simp)+
  then show ?thesis using that [of b'] True b' r p by simp
next
  case False
  then have o: "cb_out_ok i (front @ rear)" using out e p by (cases pkts) (auto simp: cb_out_ok_def)
  have "cb_rel i (pkts @ [d])" using s ok o p unfolding cb_rel_def by metis
  then show ?thesis using that [of i] False shape_assert_io [OF s ok o] by simp
qed

lemma SubmitPacket_rel:
  assumes rel: "cb_rel b pkts" and dest: "input_dest b = Some off"
    and len: "int (length d) \<le> input_avail b"
    and mem: "mem_read (cb_buffer b) (nat off) (length d) = Inr d"
  obtains b' where "ChunkBuffer2_SubmitPacket b (int (length d)) = Inr b'" and "cb_rel b' (pkts @ [d])"
    and "cb_size b' = cb_size b" and "cb_mtu b' = cb_mtu b" and "cb_start b' = cb_start b"
proof -
  obtain front rear where p: "pkts = front @ rear" and s: "cb_shape b front rear"
    and ok: "cb_in_ok b" "cb_out_ok b pkts" "ChunkBuffer2_assert_buffer b" "ChunkBuffer2_assert_io b"
    using cb_relD [OF rel] .
  let ?e = "ChunkBuffer2_end b"
  note d = in_ok_dest [OF s ok(1) dest] and D = shapeD [OF s]
  obtain m where m: "set_block_len b ?e (int (length d)) = Inr (b\<lparr>cb_buffer := m\<rparr>)"
    "cb_shape (b\<lparr>cb_buffer := m\<rparr>) front rear" "laid m (cb_lim b) ?e [d] (?e + 1 + blk d)"
    "blk d \<le> cb_free b - 1"
    using set_block_len_laid [OF s ok(1) dest len mem] .
  let ?m = "b\<lparr>cb_buffer := m\<rparr>"
  have em: "ChunkBuffer2_end ?m = ?e" "cb_lim ?m = cb_lim b" "cb_free ?m = cb_free b"
    by (simp_all add: cb_end_simps cb_free_def)
  let ?x = "cb_extend ?m ?e (blk d)" and ?i = "ChunkBuffer2_update_input (cb_extend ?m ?e (blk d))"
  obtain front' rear' where x: "front @ rear @ [d] = front' @ rear'" "cb_shape ?x front' rear'"
    using extend_shape [OF m(2), of d] m(3,4) em by auto
  note i = update_input_ok [OF x(2)]
  have used: "cb_used ?i = 1 + blk d \<longleftrightarrow> cb_used b = 0" by simp
  obtain b' where b': "(if cb_used ?i = 1 + blk d then ChunkBuffer2_update_output ?i else Inr ?i) = Inr b'"
    "cb_rel b' (pkts @ [d])" "ChunkBuffer2_assert_io b'" "cb_size b' = cb_size ?i" "cb_mtu b' = cb_mtu ?i"
    "cb_start b' = cb_start ?i"
  proof (rule submit_finish [OF i(2,1), of pkts d "cb_used ?i = 1 + blk d"])
    show "front' @ rear' = pkts @ [d]" using x(1) p by simp
    show "pkts = [] \<longleftrightarrow> cb_used ?i = 1 + blk d" using rel_empty_iff [OF s] p used by simp
    show "pkts \<noteq> [] \<Longrightarrow> cb_out_ok ?i pkts" using ok(2) by (cases pkts) (simp_all add: cb_out_ok_def)
  qed (use that in auto)
  have g: "blk d \<le> cb_size b - ?e - 1" "cb_used b < cb_wrap b - cb_start b \<or> blk d \<le> cb_start b - ?e - 1"
    using m(4) d(4) by (auto simp: cb_free_def cb_wrapped_def split: if_splits)
  have "ChunkBuffer2_SubmitPacket b (int (length d)) = Inr b'"
    unfolding SubmitPacket_extend blk_def [symmetric]
    using dest len ok(3,4) m(1) g b'(1,3) shape_assert_buffer [OF x(2)]
    by (simp add: Let_def split del: if_split)
  then show thesis using that b' by simp
qed

subsection \<open>What the buffer offers its client\<close>

lemma rel_output:
  assumes "cb_rel b (d # ds)"
  shows "output_dest b = Some (4 * (cb_start b + 1))" "output_avail b = int (length d)"
    "mem_read (cb_buffer b) (nat (4 * (cb_start b + 1))) (length d) = Inr d"
proof -
  obtain front rear where p: "d # ds = front @ rear" and s: "cb_shape b front rear"
    and o: "cb_out_ok b (d # ds)" using cb_relD [OF assms] .
  show "output_dest b = Some (4 * (cb_start b + 1))" "output_avail b = int (length d)"
    using o by (simp_all add: cb_out_ok_def)
  obtain front' where "front = d # front'" using rel_front_Cons [OF p s] .
  with shape_front_laid [OF s] have "mem_read (cb_buffer b) (4 * nat (cb_start b) + 4) (length d) = Inr d"
    by simp
  moreover have "nat (4 * (cb_start b + 1)) = 4 * nat (cb_start b) + 4"
    using s by (simp add: cb_shape_def nat_eq_iff)
  ultimately show "mem_read (cb_buffer b) (nat (4 * (cb_start b + 1))) (length d) = Inr d" by simp
qed

lemma rel_output_empty: "cb_rel b [] \<Longrightarrow> output_dest b = None \<and> output_avail b = -1"
  by (simp add: cb_rel_def cb_out_ok_def)

lemma rel_avail_dest: "cb_rel b pkts \<Longrightarrow> 0 \<le> input_avail b \<longleftrightarrow> input_dest b \<noteq> None"
  by (auto simp: cb_rel_def cb_in_ok_def split: if_splits)

lemma laid_size:
  "laid mem lim p ds q \<Longrightarrow> \<forall>d\<in>set ds. blk d \<le> m \<Longrightarrow> q - p \<le> int (length ds) * (1 + m)"
proof (induction ds arbitrary: p)
  case (Cons d ds)
  have "q - (p + 1 + blk d) \<le> int (length ds) * (1 + m)" using Cons by simp
  moreover have "blk d \<le> m" using Cons.prems(2) by simp
  ultimately show ?case by (simp add: algebra_simps)
qed simp

lemma rel_avail_eq:
  assumes "cb_rel b pkts" and "0 < cb_free b"
  shows "input_avail b = (cb_free b - 1) * 4"
  using assms by (simp add: cb_rel_def cb_in_ok_def)

lemma shape_capacity:
  assumes s: "cb_shape b front rear" and k: "\<forall>d\<in>set (front @ rear). blk d \<le> cb_mtu b"
    and n: "int (length (front @ rear)) < num"
    and sz: "(num + 1) * (1 + cb_mtu b) \<le> cb_size b \<or> front @ rear = []"
  shows "cb_mtu b + 1 \<le> cb_free b"
proof (cases "cb_wrapped b")
  case True
  note sh = s [unfolded cb_shape_def]
  have ne: "front \<noteq> []" using shapeD(6) [OF s True] .
  have "cb_wrap b - cb_start b \<le> int (length front) * (1 + cb_mtu b)"
    using True sh k by (intro laid_size) auto
  moreover have "ChunkBuffer2_end b - 0 \<le> int (length rear) * (1 + cb_mtu b)"
    using True sh k by (intro laid_size) auto
  moreover have "int (length (front @ rear)) * (1 + cb_mtu b) \<le> (num - 1) * (1 + cb_mtu b)"
    using n sh by (intro mult_right_mono) auto
  moreover have "(num + 1) * (1 + cb_mtu b) \<le> cb_size b" using sz ne by simp
  moreover have "cb_size b - cb_wrap b \<le> cb_mtu b" using True sh by simp
  ultimately show ?thesis using True sh by (simp add: cb_free_def algebra_simps)
next
  case False
  then show ?thesis using shapeD(2) [OF s] by (simp add: cb_free_def cb_lim_def)
qed

lemma rel_capacity:
  assumes "cb_rel b pkts" and "\<forall>d\<in>set pkts. int (length d) \<le> mtu" and "0 \<le> mtu"
    and "cb_mtu b = bdivide_up mtu 4" and "int (length pkts) < num"
    and "(num + 1) * (1 + cb_mtu b) \<le> cb_size b \<or> pkts = []"
  shows "mtu \<le> input_avail b"
proof -
  obtain front rear where p: "pkts = front @ rear" and s: "cb_shape b front rear" using cb_relD [OF assms(1)] .
  have m: "mtu \<le> 4 * cb_mtu b" using assms(3,4) by (simp add: bdivide_up_4)
  have "\<forall>d\<in>set (front @ rear). blk d \<le> cb_mtu b" unfolding blk_le_iff using assms(2) m p by fastforce
  then have f: "cb_mtu b + 1 \<le> cb_free b" by (rule shape_capacity [OF s]) (use p assms in auto)
  moreover have "0 \<le> cb_mtu b" using s by (simp add: cb_shape_def)
  ultimately have "input_avail b = (cb_free b - 1) * 4" by (intro rel_avail_eq [OF assms(1)]) linarith
  then show ?thesis using f m by simp
qed

lemma calc_blocks_eq:
  assumes "0 \<le> chunk_len" and "0 < num" and "0 \<le> ChunkBuffer2_calc_blocks chunk_len num"
  shows "ChunkBuffer2_calc_blocks chunk_len num = (1 + bdivide_up chunk_len 4) * (num + 1)"
    and "(1 + bdivide_up chunk_len 4) * (num + 1) \<le> INT_MAX" and "0 \<le> bdivide_up chunk_len 4"
proof -
  show "ChunkBuffer2_calc_blocks chunk_len num = (1 + bdivide_up chunk_len 4) * (num + 1)"
    using assms(3) by (simp add: ChunkBuffer2_calc_blocks_def Let_def split: if_splits)
  have le: "1 + bdivide_up chunk_len 4 \<le> INT_MAX div (num + 1)"
    using assms(3) by (auto simp: ChunkBuffer2_calc_blocks_def Let_def split: if_splits)
  have "(1 + bdivide_up chunk_len 4) * (num + 1) \<le> (INT_MAX div (num + 1)) * (num + 1)"
    using le assms(2) by (intro mult_right_mono) simp_all
  also have "\<dots> \<le> INT_MAX" 
    using div_mult_mod_eq [of INT_MAX "num + 1"] pos_mod_sign [of "num + 1" INT_MAX] assms(2) by linarith
  finally show "(1 + bdivide_up chunk_len 4) * (num + 1) \<le> INT_MAX" .
  show "0 \<le> bdivide_up chunk_len 4" using assms(1) by (simp add: bdivide_up_4)
qed

subsection \<open>The interface: a bounded FIFO queue of packets\<close>

datatype queue_op = Push bytes | Pop

text \<open>
  Running a sequence of operations as a client does: a packet is written only into the space that
  the queue offers, and taken only when there is one. The result lists the packets that went in and
  the packets that came out.
\<close>

fun queue_run :: "('b \<Rightarrow> bytes \<Rightarrow> 'b result) \<Rightarrow> ('b \<Rightarrow> 'b result) \<Rightarrow> ('b \<Rightarrow> int) \<Rightarrow> ('b \<Rightarrow> bytes option result) \<Rightarrow>
    queue_op list \<Rightarrow> 'b \<Rightarrow> (bytes list \<times> bytes list \<times> 'b) result" where
  "queue_run push pop space head [] b = Inr ([], [], b)"
| "queue_run push pop space head (Push d # ops) b =
     (if int (length d) \<le> space b
      then andthen (push b d) (\<lambda>b. andthen (queue_run push pop space head ops b)
             (\<lambda>(ins, outs, b'). Inr (d # ins, outs, b')))
      else queue_run push pop space head ops b)"
| "queue_run push pop space head (Pop # ops) b =
     andthen (head b) (\<lambda>h. case h of
       None \<Rightarrow> queue_run push pop space head ops b
     | Some d \<Rightarrow> andthen (pop b) (\<lambda>b. andthen (queue_run push pop space head ops b)
             (\<lambda>(ins, outs, b'). Inr (ins, d # outs, b'))))"

locale packet_queue =
  fixes rel :: "'b \<Rightarrow> bytes list \<Rightarrow> bool"
    and push :: "'b \<Rightarrow> bytes \<Rightarrow> 'b result" and pop :: "'b \<Rightarrow> 'b result"
    and space :: "'b \<Rightarrow> int" and head :: "'b \<Rightarrow> bytes option result"
  assumes push_rel: "rel b ps \<Longrightarrow> int (length d) \<le> space b \<Longrightarrow> \<exists>b'. push b d = Inr b' \<and> rel b' (ps @ [d])"
    and pop_rel: "rel b (p # ps) \<Longrightarrow> \<exists>b'. pop b = Inr b' \<and> rel b' ps"
    and head_rel: "rel b ps \<Longrightarrow> head b = Inr (case ps of [] \<Rightarrow> None | p # _ \<Rightarrow> Some p)"
begin

lemma fifo_run:
  "rel b ps \<Longrightarrow> \<exists>ins outs b' ps'. queue_run push pop space head ops b = Inr (ins, outs, b') \<and>
     rel b' ps' \<and> ps @ ins = outs @ ps'"
proof (induction ops arbitrary: b ps)
  case (Cons o1 ops)
  show ?case
  proof (cases o1)
    case (Push d)
    show ?thesis
    proof (cases "int (length d) \<le> space b")
      case True
      then obtain b1 where b1: "push b d = Inr b1" "rel b1 (ps @ [d])" using push_rel Cons.prems by blast
      obtain ins outs b' ps' where "queue_run push pop space head ops b1 = Inr (ins, outs, b')"
        "rel b' ps'" "(ps @ [d]) @ ins = outs @ ps'" using Cons.IH [OF b1(2)] by blast
      then show ?thesis using b1 True Push by simp
    qed (use Push Cons in simp)
  next
    case Pop
    show ?thesis
    proof (cases ps)
      case Nil
      then show ?thesis using Pop Cons.IH [OF Cons.prems] head_rel [OF Cons.prems] by simp
    next
      case (Cons p qs)
      then obtain b1 where b1: "pop b = Inr b1" "rel b1 qs" using pop_rel Cons.prems by blast
      obtain ins outs b' ps' where "queue_run push pop space head ops b1 = Inr (ins, outs, b')"
        "rel b' ps'" "qs @ ins = outs @ ps'" using Cons.IH [OF b1(2)] by blast
      then show ?thesis using b1 Cons Pop head_rel [OF Cons.prems] by simp
    qed
  qed
qed simp

end

definition cb_push :: "ChunkBuffer2 \<Rightarrow> bytes \<Rightarrow> ChunkBuffer2 result" where
  "cb_push b d = andthen (cb_fill b d) (\<lambda>b. ChunkBuffer2_SubmitPacket b (int (length d)))"

definition cb_head :: "ChunkBuffer2 \<Rightarrow> bytes option result" where
  "cb_head b = (case output_dest b of None \<Rightarrow> Inr None
                | Some off \<Rightarrow> andthen (mem_read (cb_buffer b) (nat off) (nat (output_avail b))) (\<lambda>d. Inr (Some d)))"

definition cb_rel_sized :: "int \<Rightarrow> int \<Rightarrow> ChunkBuffer2 \<Rightarrow> bytes list \<Rightarrow> bool" where
  "cb_rel_sized sz mtu b pkts \<longleftrightarrow> cb_rel b pkts \<and> cb_size b = sz \<and> cb_mtu b = mtu"

lemma cb_push_rel:
  assumes "cb_rel b pkts" and "int (length d) \<le> input_avail b"
  obtains b' where "cb_push b d = Inr b'" and "cb_rel b' (pkts @ [d])"
    and "cb_size b' = cb_size b" and "cb_mtu b' = cb_mtu b"
proof -
  obtain off where off: "input_dest b = Some off" using rel_avail_dest [OF assms(1)] assms(2) by fastforce
  obtain m where m: "cb_fill b d = Inr (b\<lparr>cb_buffer := m\<rparr>)" "cb_rel (b\<lparr>cb_buffer := m\<rparr>) pkts"
    "mem_read m (nat off) (length d) = Inr d" using fill_rel [OF assms(1) off assms(2)] .
  obtain b' where "ChunkBuffer2_SubmitPacket (b\<lparr>cb_buffer := m\<rparr>) (int (length d)) = Inr b'"
    "cb_rel b' (pkts @ [d])" "cb_size b' = cb_size b" "cb_mtu b' = cb_mtu b"
    using SubmitPacket_rel [OF m(2), of off d] off assms(2) m(3) by auto
  then show thesis using that m(1) by (simp add: cb_push_def)
qed

interpretation cbq: packet_queue "cb_rel_sized sz mtu" cb_push ChunkBuffer2_ConsumePacket input_avail cb_head
  for sz mtu
proof
  fix b ps and d :: bytes
  assume r: "cb_rel_sized sz mtu b ps" and "int (length d) \<le> input_avail b"
  then obtain b' where "cb_push b d = Inr b'" "cb_rel b' (ps @ [d])" "cb_size b' = cb_size b"
    "cb_mtu b' = cb_mtu b" using cb_push_rel unfolding cb_rel_sized_def by blast
  then show "\<exists>b'. cb_push b d = Inr b' \<and> cb_rel_sized sz mtu b' (ps @ [d])"
    using r by (simp add: cb_rel_sized_def)
next
  fix b p ps
  assume r: "cb_rel_sized sz mtu b (p # ps)"
  then obtain b' where "ChunkBuffer2_ConsumePacket b = Inr b'" "cb_rel b' ps" "cb_size b' = cb_size b"
    "cb_mtu b' = cb_mtu b" using ConsumePacket_rel [of b p ps] unfolding cb_rel_sized_def by blast
  then show "\<exists>b'. ChunkBuffer2_ConsumePacket b = Inr b' \<and> cb_rel_sized sz mtu b' ps"
    using r by (simp add: cb_rel_sized_def)
next
  fix b ps
  assume r: "cb_rel_sized sz mtu b ps"
  show "cb_head b = Inr (case ps of [] \<Rightarrow> None | p # _ \<Rightarrow> Some p)"
  proof (cases ps)
    case Nil
    then show ?thesis using r rel_output_empty by (simp add: cb_rel_sized_def cb_head_def)
  next
    case (Cons p qs)
    then have "cb_rel b (p # qs)" using r by (simp add: cb_rel_sized_def)
    from rel_output [OF this] Cons show ?thesis by (simp add: cb_head_def)
  qed
qed

text \<open>
  C1: The circular buffer, allocated as its client allocates it, is a FIFO queue: for every
  sequence of writes into the space it offers and reads of its first packet, no assertion of the
  code fails, no byte outside the buffer is touched, and the packets that come out are the
  packets that went in, unchanged and in order. While it holds fewer than the \<open>num\<close> packets it
  was dimensioned for, it offers room for a packet of the MTU, wherever the data lies in the ring.
\<close>

theorem ChunkBuffer2_fifo:
  assumes "0 \<le> mtu" and "0 < num" and blocks: "blocks = ChunkBuffer2_calc_blocks mtu num" "0 \<le> blocks"
    and "4 * blocks \<le> INT_MAX" and "int (length buffer) = 4 * blocks"
  shows "\<exists>b0 ins outs rest b'. ChunkBuffer2_Init buffer blocks mtu = Inr b0 \<and>
           queue_run cb_push ChunkBuffer2_ConsumePacket input_avail cb_head ops b0 = Inr (ins, outs, b') \<and>
           ins = outs @ rest \<and> cb_rel b' rest \<and>
           (int (length rest) < num \<and> (\<forall>d\<in>set ins. int (length d) \<le> mtu) \<longrightarrow> mtu \<le> input_avail b')"
proof -
  note cb = calc_blocks_eq [OF assms(1,2), unfolded blocks(1) [symmetric], OF blocks(2)]
  let ?m = "bdivide_up mtu 4"
  have "(1 + ?m) * 2 \<le> blocks" unfolding cb(1) using cb(3) assms(2) by (intro mult_left_mono) auto
  then have "?m < blocks" using cb(3) by simp
  then obtain b0 where b0: "ChunkBuffer2_Init buffer blocks mtu = Inr b0" "cb_rel b0 []"
    "cb_size b0 = blocks" "cb_mtu b0 = ?m" using Init_rel [OF assms(1) _ assms(6,5)] by blast
  then have "cb_rel_sized blocks ?m b0 []" by (simp add: cb_rel_sized_def)
  from cbq.fifo_run [OF this] obtain ins outs b' rest where
    run: "queue_run cb_push ChunkBuffer2_ConsumePacket input_avail cb_head ops b0 = Inr (ins, outs, b')"
    and r: "cb_rel_sized blocks ?m b' rest" and io: "ins = outs @ rest" by fastforce
  have "mtu \<le> input_avail b'" if "int (length rest) < num" "\<forall>d\<in>set ins. int (length d) \<le> mtu"
    using that r io assms(1) cb
    by (intro rel_capacity [where pkts = rest and num = num]) (auto simp: cb_rel_sized_def mult.commute)
  then show ?thesis using b0(1) run io r by (auto simp: cb_rel_sized_def)
qed

theorem ChunkBuffer2_fifo_witness:
  "\<exists>b0 b'. ChunkBuffer2_Init (replicate 36 0) 9 5 = Inr b0 \<and>
     queue_run cb_push ChunkBuffer2_ConsumePacket input_avail cb_head
       [Push [1, 2, 3, 4, 5], Push [6], Pop, Push [7, 8], Pop, Push []] b0 =
       Inr ([[1, 2, 3, 4, 5], [6], [7, 8], []], [[1, 2, 3, 4, 5], [6]], b') \<and>
     cb_rel b' [[7, 8], []]"
proof -
  let ?ops = "[Push [1, 2, 3, 4, 5], Push [6], Pop, Push [7, 8], Pop, Push []]"
  have h: "(0 :: int) \<le> 5" "(0 :: int) < 2" "(9 :: int) = ChunkBuffer2_calc_blocks 5 2" "(0 :: int) \<le> 9"
    "4 * 9 \<le> INT_MAX"
    "int (length (replicate 36 (0 :: u8))) = 4 * 9"
    by (simp_all add: ChunkBuffer2_calc_blocks_def bdivide_up_def INT_MAX_def)
  obtain b0 ins outs rest b' where r: "ChunkBuffer2_Init (replicate 36 0) 9 5 = Inr b0"
    "queue_run cb_push ChunkBuffer2_ConsumePacket input_avail cb_head ?ops b0 = Inr (ins, outs, b')"
    "ins = outs @ rest" "cb_rel b' rest"
    using ChunkBuffer2_fifo [OF h, of ?ops] by blast
  have "(case andthen (ChunkBuffer2_Init (replicate 36 0) 9 5)
        (queue_run cb_push ChunkBuffer2_ConsumePacket input_avail cb_head ?ops) of
        Inr (i, out, _) \<Rightarrow> (i, out) | _ \<Rightarrow> ([], [])) =
      ([[1, 2, 3, 4, 5], [6], [7, 8], []], [[1, 2, 3, 4, 5], [6]])"
    by code_simp
  then have "ins = [[1, 2, 3, 4, 5], [6], [7, 8], []]" "outs = [[1, 2, 3, 4, 5], [6]]"
    unfolding r(1) andthen_Inr r(2) by simp_all
  with r show ?thesis by auto
qed

end
