(* ===== verification/Flow_Interfaces.thy ===== *)
theory Flow_Interfaces
  imports Prelude
begin

section \<open>Flow interfaces: \<^verbatim>\<open>flow/PacketPassInterface\<close>, \<open>PacketRecvInterface\<close>, \<open>StreamPassInterface\<close>, \<open>StreamRecvInterface\<close>\<close>

text \<open>
  Data moves between the flow components through four small objects that sit between a user
  (who sends or asks to receive) and a provider (who carries the operation out). Each object
  is a record of the C struct: its state, the arguments of the operation and, for each of its
  jobs (\<^verbatim>\<open>BPending\<close>), whether the job is set. A data pointer is \<open>None\<close> (NULL) or a position of the type \<open>'p\<close>. The jobs
  are executed by the reactor; running one first unsets it (\<^verbatim>\<open>BPendingGroup_ExecuteJob\<close>), and a
  job's handler returns here the arguments of the handler it calls.

  The lemmas at the end are the contract: the job flags follow the state, so that no job ever
  finds its assertion violated, and the user is told \<open>done\<close> exactly once for each operation.
\<close>

datatype interface_state = STATE_NONE | STATE_OPERATION_PENDING | STATE_BUSY | STATE_DONE_PENDING

subsection \<open>Passing packets\<close>

record 'p PacketPassInterface =
  ppi_mtu :: int
  ppi_handler_requestcancel :: bool   \<comment> \<open>not NULL\<close>
  ppi_handler_done :: bool            \<comment> \<open>not NULL\<close>
  ppi_job_operation :: bool
  ppi_job_operation_data :: "'p option"
  ppi_job_operation_len :: int
  ppi_job_requestcancel :: bool
  ppi_job_done :: bool
  ppi_state :: interface_state
  ppi_cancel_requested :: bool

definition PacketPassInterface_Init :: "int \<Rightarrow> 'p PacketPassInterface result" where
  "PacketPassInterface_Init mtu =
     ASSERT (mtu \<ge> 0) (Inr
       \<lparr> ppi_mtu = mtu, ppi_handler_requestcancel = False, ppi_handler_done = False,
         ppi_job_operation = False, ppi_job_operation_data = None, ppi_job_operation_len = 0,
         ppi_job_requestcancel = False, ppi_job_done = False, ppi_state = STATE_NONE,
         ppi_cancel_requested = False \<rparr>)"

definition PacketPassInterface_EnableCancel :: "'p PacketPassInterface \<Rightarrow> 'p PacketPassInterface result" where
  "PacketPassInterface_EnableCancel i =
     ASSERT (\<not> ppi_handler_requestcancel i) (ASSERT (\<not> ppi_handler_done i)
       (Inr (i\<lparr>ppi_handler_requestcancel := True\<rparr>)))"

definition PacketPassInterface_Done :: "'p PacketPassInterface \<Rightarrow> 'p PacketPassInterface result" where
  "PacketPassInterface_Done i =
     ASSERT (ppi_state i = STATE_BUSY)
       (Inr (i\<lparr>ppi_job_requestcancel := False, ppi_job_done := True, ppi_state := STATE_DONE_PENDING\<rparr>))"

definition PacketPassInterface_GetMTU :: "'p PacketPassInterface \<Rightarrow> int" where
  "PacketPassInterface_GetMTU i = ppi_mtu i"

definition PacketPassInterface_Sender_Init :: "'p PacketPassInterface \<Rightarrow> 'p PacketPassInterface result" where
  "PacketPassInterface_Sender_Init i =
     ASSERT (\<not> ppi_handler_done i) (Inr (i\<lparr>ppi_handler_done := True\<rparr>))"

definition PacketPassInterface_Sender_Send ::
    "'p PacketPassInterface \<Rightarrow> 'p option \<Rightarrow> int \<Rightarrow> 'p PacketPassInterface result" where
  "PacketPassInterface_Sender_Send i data data_len =
     ASSERT (data_len \<ge> 0)
     (ASSERT (data_len \<le> ppi_mtu i)
     (ASSERT (data_len > 0 \<longrightarrow> data \<noteq> None)
     (ASSERT (ppi_state i = STATE_NONE)
     (ASSERT (ppi_handler_done i)
       (Inr (i\<lparr>ppi_job_operation_data := data, ppi_job_operation_len := data_len,
              ppi_job_operation := True, ppi_state := STATE_OPERATION_PENDING,
              ppi_cancel_requested := False\<rparr>))))))"

definition PacketPassInterface_Sender_RequestCancel ::
    "'p PacketPassInterface \<Rightarrow> 'p PacketPassInterface result" where
  "PacketPassInterface_Sender_RequestCancel i =
     ASSERT (ppi_state i = STATE_OPERATION_PENDING \<or> ppi_state i = STATE_BUSY \<or>
             ppi_state i = STATE_DONE_PENDING)
     (ASSERT (ppi_handler_requestcancel i)
     (if ppi_cancel_requested i then Inr i else
      let i = i\<lparr>ppi_cancel_requested := True\<rparr> in
      if ppi_state i = STATE_OPERATION_PENDING
      then Inr (i\<lparr>ppi_job_operation := False, ppi_job_done := True, ppi_state := STATE_DONE_PENDING\<rparr>)
      else if ppi_state i = STATE_BUSY then Inr (i\<lparr>ppi_job_requestcancel := True\<rparr>)
      else Inr i))"

definition PacketPassInterface_HasCancel :: "'p PacketPassInterface \<Rightarrow> bool" where
  "PacketPassInterface_HasCancel i = ppi_handler_requestcancel i"

text \<open>The jobs. Each is run by the reactor only while it is set, and is unset before it runs.\<close>

definition PacketPassInterface_job_operation ::
    "'p PacketPassInterface \<Rightarrow> ('p PacketPassInterface \<times> 'p option \<times> int) result" where
  "PacketPassInterface_job_operation i =
     (let i = i\<lparr>ppi_job_operation := False\<rparr> in
      ASSERT (ppi_state i = STATE_OPERATION_PENDING)
        (Inr (i\<lparr>ppi_state := STATE_BUSY\<rparr>, ppi_job_operation_data i, ppi_job_operation_len i)))"

definition PacketPassInterface_job_requestcancel :: "'p PacketPassInterface \<Rightarrow> 'p PacketPassInterface result" where
  "PacketPassInterface_job_requestcancel i =
     (let i = i\<lparr>ppi_job_requestcancel := False\<rparr> in
      ASSERT (ppi_state i = STATE_BUSY)
      (ASSERT (ppi_cancel_requested i)
      (ASSERT (ppi_handler_requestcancel i) (Inr i))))"

definition PacketPassInterface_job_done :: "'p PacketPassInterface \<Rightarrow> 'p PacketPassInterface result" where
  "PacketPassInterface_job_done i =
     (let i = i\<lparr>ppi_job_done := False\<rparr> in
      ASSERT (ppi_state i = STATE_DONE_PENDING) (Inr (i\<lparr>ppi_state := STATE_NONE\<rparr>)))"

subsection \<open>Receiving packets\<close>

record 'p PacketRecvInterface =
  pri_mtu :: int
  pri_handler_done :: bool
  pri_job_operation :: bool
  pri_job_operation_data :: "'p option"
  pri_job_done :: bool
  pri_job_done_len :: int
  pri_state :: interface_state

definition PacketRecvInterface_Init :: "int \<Rightarrow> 'p PacketRecvInterface result" where
  "PacketRecvInterface_Init mtu =
     ASSERT (mtu \<ge> 0) (Inr
       \<lparr> pri_mtu = mtu, pri_handler_done = False, pri_job_operation = False,
         pri_job_operation_data = None, pri_job_done = False, pri_job_done_len = 0,
         pri_state = STATE_NONE \<rparr>)"

definition PacketRecvInterface_Done :: "'p PacketRecvInterface \<Rightarrow> int \<Rightarrow> 'p PacketRecvInterface result" where
  "PacketRecvInterface_Done i data_len =
     ASSERT (data_len \<ge> 0)
     (ASSERT (data_len \<le> pri_mtu i)
     (ASSERT (pri_state i = STATE_BUSY)
       (Inr (i\<lparr>pri_job_done_len := data_len, pri_job_done := True, pri_state := STATE_DONE_PENDING\<rparr>))))"

definition PacketRecvInterface_GetMTU :: "'p PacketRecvInterface \<Rightarrow> int" where
  "PacketRecvInterface_GetMTU i = pri_mtu i"

definition PacketRecvInterface_Receiver_Init :: "'p PacketRecvInterface \<Rightarrow> 'p PacketRecvInterface result" where
  "PacketRecvInterface_Receiver_Init i =
     ASSERT (\<not> pri_handler_done i) (Inr (i\<lparr>pri_handler_done := True\<rparr>))"

definition PacketRecvInterface_Receiver_Recv ::
    "'p PacketRecvInterface \<Rightarrow> 'p option \<Rightarrow> 'p PacketRecvInterface result" where
  "PacketRecvInterface_Receiver_Recv i data =
     ASSERT (pri_mtu i > 0 \<longrightarrow> data \<noteq> None)
     (ASSERT (pri_state i = STATE_NONE)
     (ASSERT (pri_handler_done i)
       (Inr (i\<lparr>pri_job_operation_data := data, pri_job_operation := True,
              pri_state := STATE_OPERATION_PENDING\<rparr>))))"

definition PacketRecvInterface_job_operation ::
    "'p PacketRecvInterface \<Rightarrow> ('p PacketRecvInterface \<times> 'p option) result" where
  "PacketRecvInterface_job_operation i =
     (let i = i\<lparr>pri_job_operation := False\<rparr> in
      ASSERT (pri_state i = STATE_OPERATION_PENDING)
        (Inr (i\<lparr>pri_state := STATE_BUSY\<rparr>, pri_job_operation_data i)))"

definition PacketRecvInterface_job_done ::
    "'p PacketRecvInterface \<Rightarrow> ('p PacketRecvInterface \<times> int) result" where
  "PacketRecvInterface_job_done i =
     (let i = i\<lparr>pri_job_done := False\<rparr> in
      ASSERT (pri_state i = STATE_DONE_PENDING)
        (Inr (i\<lparr>pri_state := STATE_NONE\<rparr>, pri_job_done_len i)))"

subsection \<open>Passing and receiving streams\<close>

record 'p StreamPassInterface =
  spi_handler_done :: bool
  spi_job_operation :: bool
  spi_job_operation_data :: "'p option"
  spi_job_operation_len :: int
  spi_job_done :: bool
  spi_job_done_len :: int
  spi_state :: interface_state

definition StreamPassInterface_Init :: "'p StreamPassInterface" where
  "StreamPassInterface_Init =
     \<lparr> spi_handler_done = False, spi_job_operation = False, spi_job_operation_data = None,
       spi_job_operation_len = 0, spi_job_done = False, spi_job_done_len = 0,
       spi_state = STATE_NONE \<rparr>"

definition StreamPassInterface_Done :: "'p StreamPassInterface \<Rightarrow> int \<Rightarrow> 'p StreamPassInterface result" where
  "StreamPassInterface_Done i data_len =
     ASSERT (spi_state i = STATE_BUSY)
     (ASSERT (data_len > 0)
     (ASSERT (data_len \<le> spi_job_operation_len i)
       (Inr (i\<lparr>spi_job_done_len := data_len, spi_job_done := True, spi_state := STATE_DONE_PENDING\<rparr>))))"

definition StreamPassInterface_Sender_Init :: "'p StreamPassInterface \<Rightarrow> 'p StreamPassInterface result" where
  "StreamPassInterface_Sender_Init i =
     ASSERT (\<not> spi_handler_done i) (Inr (i\<lparr>spi_handler_done := True\<rparr>))"

definition StreamPassInterface_Sender_Send ::
    "'p StreamPassInterface \<Rightarrow> 'p option \<Rightarrow> int \<Rightarrow> 'p StreamPassInterface result" where
  "StreamPassInterface_Sender_Send i data data_len =
     ASSERT (data_len > 0)
     (ASSERT (data \<noteq> None)
     (ASSERT (spi_state i = STATE_NONE)
     (ASSERT (spi_handler_done i)
       (Inr (i\<lparr>spi_job_operation_data := data, spi_job_operation_len := data_len,
              spi_job_operation := True, spi_state := STATE_OPERATION_PENDING\<rparr>)))))"

definition StreamPassInterface_job_operation ::
    "'p StreamPassInterface \<Rightarrow> ('p StreamPassInterface \<times> 'p option \<times> int) result" where
  "StreamPassInterface_job_operation i =
     (let i = i\<lparr>spi_job_operation := False\<rparr> in
      ASSERT (spi_state i = STATE_OPERATION_PENDING)
        (Inr (i\<lparr>spi_state := STATE_BUSY\<rparr>, spi_job_operation_data i, spi_job_operation_len i)))"

definition StreamPassInterface_job_done ::
    "'p StreamPassInterface \<Rightarrow> ('p StreamPassInterface \<times> int) result" where
  "StreamPassInterface_job_done i =
     (let i = i\<lparr>spi_job_done := False\<rparr> in
      ASSERT (spi_state i = STATE_DONE_PENDING)
        (Inr (i\<lparr>spi_state := STATE_NONE\<rparr>, spi_job_done_len i)))"

record 'p StreamRecvInterface =
  sri_handler_done :: bool
  sri_job_operation :: bool
  sri_job_operation_data :: "'p option"
  sri_job_operation_len :: int
  sri_job_done :: bool
  sri_job_done_len :: int
  sri_state :: interface_state

definition StreamRecvInterface_Init :: "'p StreamRecvInterface" where
  "StreamRecvInterface_Init =
     \<lparr> sri_handler_done = False, sri_job_operation = False, sri_job_operation_data = None,
       sri_job_operation_len = 0, sri_job_done = False, sri_job_done_len = 0,
       sri_state = STATE_NONE \<rparr>"

definition StreamRecvInterface_Done :: "'p StreamRecvInterface \<Rightarrow> int \<Rightarrow> 'p StreamRecvInterface result" where
  "StreamRecvInterface_Done i data_len =
     ASSERT (sri_state i = STATE_BUSY)
     (ASSERT (data_len > 0)
     (ASSERT (data_len \<le> sri_job_operation_len i)
       (Inr (i\<lparr>sri_job_done_len := data_len, sri_job_done := True, sri_state := STATE_DONE_PENDING\<rparr>))))"

definition StreamRecvInterface_Receiver_Init :: "'p StreamRecvInterface \<Rightarrow> 'p StreamRecvInterface result" where
  "StreamRecvInterface_Receiver_Init i =
     ASSERT (\<not> sri_handler_done i) (Inr (i\<lparr>sri_handler_done := True\<rparr>))"

definition StreamRecvInterface_Receiver_Recv ::
    "'p StreamRecvInterface \<Rightarrow> 'p option \<Rightarrow> int \<Rightarrow> 'p StreamRecvInterface result" where
  "StreamRecvInterface_Receiver_Recv i data data_len =
     ASSERT (data_len > 0)
     (ASSERT (data \<noteq> None)
     (ASSERT (sri_state i = STATE_NONE)
     (ASSERT (sri_handler_done i)
       (Inr (i\<lparr>sri_job_operation_data := data, sri_job_operation_len := data_len,
              sri_job_operation := True, sri_state := STATE_OPERATION_PENDING\<rparr>)))))"

definition StreamRecvInterface_job_operation ::
    "'p StreamRecvInterface \<Rightarrow> ('p StreamRecvInterface \<times> 'p option \<times> int) result" where
  "StreamRecvInterface_job_operation i =
     (let i = i\<lparr>sri_job_operation := False\<rparr> in
      ASSERT (sri_state i = STATE_OPERATION_PENDING)
        (Inr (i\<lparr>sri_state := STATE_BUSY\<rparr>, sri_job_operation_data i, sri_job_operation_len i)))"

definition StreamRecvInterface_job_done ::
    "'p StreamRecvInterface \<Rightarrow> ('p StreamRecvInterface \<times> int) result" where
  "StreamRecvInterface_job_done i =
     (let i = i\<lparr>sri_job_done := False\<rparr> in
      ASSERT (sri_state i = STATE_DONE_PENDING)
        (Inr (i\<lparr>sri_state := STATE_NONE\<rparr>, sri_job_done_len i)))"

subsection \<open>The contract of a packet-passing interface\<close>

text \<open>
  Everything that can happen to an interface after \<open>Init\<close>: a call by its user or provider that
  does not fail an assertion of its own, or a job that is set being run. The two counters record
  how often the user started an operation and how often it was told \<open>done\<close>.
\<close>

inductive ppi_reach :: "'p PacketPassInterface \<Rightarrow> nat \<Rightarrow> nat \<Rightarrow> bool" where
  ppi_init: "PacketPassInterface_Init mtu = Inr i \<Longrightarrow> ppi_reach i 0 0"
| ppi_enable_cancel: "ppi_reach i s d \<Longrightarrow> PacketPassInterface_EnableCancel i = Inr i' \<Longrightarrow> ppi_reach i' s d"
| ppi_sender_init: "ppi_reach i s d \<Longrightarrow> PacketPassInterface_Sender_Init i = Inr i' \<Longrightarrow> ppi_reach i' s d"
| ppi_send: "ppi_reach i s d \<Longrightarrow> PacketPassInterface_Sender_Send i dat n = Inr i' \<Longrightarrow> ppi_reach i' (Suc s) d"
| ppi_cancel: "ppi_reach i s d \<Longrightarrow> PacketPassInterface_Sender_RequestCancel i = Inr i' \<Longrightarrow> ppi_reach i' s d"
| ppi_done: "ppi_reach i s d \<Longrightarrow> PacketPassInterface_Done i = Inr i' \<Longrightarrow> ppi_reach i' s d"
| ppi_run_operation: "ppi_reach i s d \<Longrightarrow> ppi_job_operation i \<Longrightarrow>
    PacketPassInterface_job_operation i = Inr (i', dat, n) \<Longrightarrow> ppi_reach i' s d"
| ppi_run_requestcancel: "ppi_reach i s d \<Longrightarrow> ppi_job_requestcancel i \<Longrightarrow>
    PacketPassInterface_job_requestcancel i = Inr i' \<Longrightarrow> ppi_reach i' s d"
| ppi_run_done: "ppi_reach i s d \<Longrightarrow> ppi_job_done i \<Longrightarrow>
    PacketPassInterface_job_done i = Inr i' \<Longrightarrow> ppi_reach i' s (Suc d)"

definition ppi_inv :: "'p PacketPassInterface \<Rightarrow> bool" where
  "ppi_inv i \<longleftrightarrow>
     (ppi_job_operation i \<longleftrightarrow> ppi_state i = STATE_OPERATION_PENDING) \<and>
     (ppi_job_done i \<longleftrightarrow> ppi_state i = STATE_DONE_PENDING) \<and>
     (ppi_job_requestcancel i \<longrightarrow>
        ppi_state i = STATE_BUSY \<and> ppi_cancel_requested i \<and> ppi_handler_requestcancel i) \<and>
     (ppi_state i \<noteq> STATE_NONE \<longrightarrow> 0 \<le> ppi_job_operation_len i \<and> ppi_job_operation_len i \<le> ppi_mtu i \<and>
        (ppi_job_operation_len i > 0 \<longrightarrow> ppi_job_operation_data i \<noteq> None))"

lemmas ppi_defs =
  PacketPassInterface_Init_def PacketPassInterface_EnableCancel_def PacketPassInterface_Done_def
  PacketPassInterface_Sender_Init_def PacketPassInterface_Sender_Send_def
  PacketPassInterface_Sender_RequestCancel_def PacketPassInterface_job_operation_def
  PacketPassInterface_job_requestcancel_def PacketPassInterface_job_done_def

lemma ppi_reach_inv:
  "ppi_reach i s d \<Longrightarrow> ppi_inv i \<and> s = d + (if ppi_state i = STATE_NONE then 0 else 1)"
  by (induction rule: ppi_reach.induct)
     (auto simp: ppi_defs ppi_inv_def result_simps Let_def split: if_splits)

text \<open>
  The operations as the components use them: each succeeds in the state it asks for, keeps the
  invariant and leaves the rest of the object as it was.
\<close>

definition ppi_keeps :: "'p PacketPassInterface \<Rightarrow> 'p PacketPassInterface \<Rightarrow> bool" where
  "ppi_keeps i j \<longleftrightarrow> ppi_mtu j = ppi_mtu i \<and> ppi_handler_done j = ppi_handler_done i \<and>
     ppi_handler_requestcancel j = ppi_handler_requestcancel i"

definition ppi_keeps_op :: "'p PacketPassInterface \<Rightarrow> 'p PacketPassInterface \<Rightarrow> bool" where
  "ppi_keeps_op i j \<longleftrightarrow> ppi_keeps i j \<and> ppi_job_operation_data j = ppi_job_operation_data i \<and>
     ppi_job_operation_len j = ppi_job_operation_len i"

lemma ppi_inv_jobs:
  assumes "ppi_inv i"
  shows "ppi_job_operation i \<longleftrightarrow> ppi_state i = STATE_OPERATION_PENDING" "ppi_job_done i \<longleftrightarrow> ppi_state i = STATE_DONE_PENDING"
  using assms by (simp_all add: ppi_inv_def)

lemma ppi_inv_op:
  assumes "ppi_inv i" "ppi_state i \<noteq> STATE_NONE"
  shows "0 \<le> ppi_job_operation_len i" "ppi_job_operation_len i \<le> ppi_mtu i"
    "0 < ppi_job_operation_len i \<Longrightarrow> ppi_job_operation_data i \<noteq> None"
  using assms by (simp_all add: ppi_inv_def)

lemma ppi_Init_ok:
  assumes "0 \<le> mtu"
  obtains i where "PacketPassInterface_Init mtu = Inr i" "ppi_inv i" "ppi_state i = STATE_NONE" "ppi_mtu i = mtu"
    "\<not> ppi_handler_done i" "\<not> ppi_handler_requestcancel i"
  using assms by (simp add: PacketPassInterface_Init_def ppi_inv_def)

lemma ppi_Sender_Init_ok:
  assumes "ppi_inv i" "\<not> ppi_handler_done i"
  obtains j where "PacketPassInterface_Sender_Init i = Inr j" "ppi_inv j" "ppi_handler_done j" "ppi_state j = ppi_state i"
    "ppi_mtu j = ppi_mtu i" "ppi_handler_requestcancel j = ppi_handler_requestcancel i"
  using assms by (simp add: PacketPassInterface_Sender_Init_def ppi_inv_def)

lemma ppi_Send_ok:
  assumes "ppi_inv i" "ppi_state i = STATE_NONE" "ppi_handler_done i" "0 \<le> len" "len \<le> ppi_mtu i" "0 < len \<Longrightarrow> dat \<noteq> None"
  obtains j where "PacketPassInterface_Sender_Send i dat len = Inr j" "ppi_inv j" "ppi_state j = STATE_OPERATION_PENDING"
    "ppi_keeps i j" "ppi_job_operation_data j = dat" "ppi_job_operation_len j = len"
  using assms by (simp add: PacketPassInterface_Sender_Send_def ppi_inv_def ppi_keeps_def)

lemma ppi_job_operation_ok:
  assumes "ppi_inv i" "ppi_job_operation i"
  obtains j where "PacketPassInterface_job_operation i = Inr (j, ppi_job_operation_data i, ppi_job_operation_len i)"
    "ppi_inv j" "ppi_state j = STATE_BUSY" "ppi_keeps_op i j"
  using assms by (simp add: PacketPassInterface_job_operation_def ppi_inv_def ppi_keeps_def ppi_keeps_op_def)

lemma ppi_job_requestcancel_ok:
  assumes "ppi_inv i" "ppi_job_requestcancel i"
  obtains j where "PacketPassInterface_job_requestcancel i = Inr j" "ppi_inv j" "ppi_keeps_op i j" "ppi_state j = STATE_BUSY"
proof
  show "PacketPassInterface_job_requestcancel i = Inr (i\<lparr>ppi_job_requestcancel := False\<rparr>)"
    using assms by (simp add: PacketPassInterface_job_requestcancel_def ppi_inv_def)
  show "ppi_inv (i\<lparr>ppi_job_requestcancel := False\<rparr>)" using assms(1) by (simp add: ppi_inv_def)
qed (use assms in \<open>simp_all add: ppi_keeps_def ppi_keeps_op_def ppi_inv_def\<close>)

lemma ppi_Done_ok:
  assumes "ppi_inv i" "ppi_state i = STATE_BUSY"
  obtains j where "PacketPassInterface_Done i = Inr j" "ppi_inv j" "ppi_state j = STATE_DONE_PENDING" "ppi_keeps_op i j"
  using assms by (simp add: PacketPassInterface_Done_def ppi_inv_def ppi_keeps_def ppi_keeps_op_def)

lemma ppi_job_done_ok:
  assumes "ppi_inv i" "ppi_job_done i"
  obtains j where "PacketPassInterface_job_done i = Inr j" "ppi_inv j" "ppi_state j = STATE_NONE" "ppi_keeps_op i j"
  using assms by (auto simp: PacketPassInterface_job_done_def ppi_inv_def ppi_keeps_def ppi_keeps_op_def)

text \<open>
  C22: In every history of a packet-passing interface, each job that is set finds its assertions
  satisfied when the reactor runs it, whatever the order in which the jobs run and whenever a
  cancellation is requested, and the user is told done exactly once per operation: the
  operations started exceed the completions by one while one is in progress and are equal
  otherwise.
\<close>

theorem PacketPassInterface_contract:
  assumes "ppi_reach i s d"
  shows "(ppi_job_operation i \<longrightarrow> no_fault (PacketPassInterface_job_operation i)) \<and>
         (ppi_job_requestcancel i \<longrightarrow> no_fault (PacketPassInterface_job_requestcancel i)) \<and>
         (ppi_job_done i \<longrightarrow> no_fault (PacketPassInterface_job_done i)) \<and>
         s = d + (if ppi_state i = STATE_NONE then 0 else 1)"
  using ppi_reach_inv [OF assms] by (auto simp: ppi_defs ppi_inv_def Let_def)

text \<open>A history: a send that is cancelled before the provider sees it completes at once.\<close>

theorem PacketPassInterface_contract_witness:
  "\<exists>i :: nat PacketPassInterface. ppi_reach i 1 0 \<and> ppi_job_done i \<and>
     no_fault (PacketPassInterface_job_done i)"
proof -
  define i0 :: "nat PacketPassInterface" where "i0 = projr (PacketPassInterface_Init 10)"
  define i1 where "i1 = projr (PacketPassInterface_EnableCancel i0)"
  define i2 where "i2 = projr (PacketPassInterface_Sender_Init i1)"
  define i3 where "i3 = projr (PacketPassInterface_Sender_Send i2 (Some 4) 6)"
  define i4 where "i4 = projr (PacketPassInterface_Sender_RequestCancel i3)"
  note d = i0_def i1_def i2_def i3_def i4_def ppi_defs
  have "ppi_reach i0 0 0" by (rule ppi_init [of 10]) (simp add: d)
  then have "ppi_reach i1 0 0" by (rule ppi_enable_cancel) (simp add: d)
  then have "ppi_reach i2 0 0" by (rule ppi_sender_init) (simp add: d)
  then have "ppi_reach i3 (Suc 0) 0" by (rule ppi_send [where dat = "Some 4" and n = 6]) (simp add: d)
  then have r: "ppi_reach i4 (Suc 0) 0" by (rule ppi_cancel) (simp add: d Let_def)
  have j: "ppi_job_done i4" by (simp add: d Let_def)
  have "no_fault (PacketPassInterface_job_done i4)"
    using PacketPassInterface_contract [OF r] j by blast
  with r j show ?thesis by auto
qed

end
