(* ===== verification/Packet_Buffer.thy ===== *)
theory Packet_Buffer
  imports Chunk_Buffer Flow_Interfaces
begin

section \<open>Packet buffers: \<^verbatim>\<open>flow/PacketBuffer.c\<close> and \<^verbatim>\<open>flow/SinglePacketBuffer.c\<close>\<close>

text \<open>
  A packet buffer receives packets from its input into a \<open>ChunkBuffer2\<close> and sends the packets
  it holds to its output. The record has the input and output interface objects in it, so the
  assertions of \<open>Receiver_Recv\<close> and \<open>Sender_Send\<close> (no second operation while one is in progress,
  lengths within the MTU) are checked by the handlers' results. Pointers are offsets into the
  buffer.

  The step relation \<open>pb_step\<close> is the buffer among its providers and the reactor: the jobs run in
  any order, the input's provider writes a packet where it was told to and completes, the output's
  provider reads the packet it was given and completes. The lemmas show the invariant of all
  reachable states.
\<close>

subsection \<open>The handlers\<close>

record PacketBuffer =
  pb_input :: "int PacketRecvInterface"
  pb_input_mtu :: int
  pb_output :: "int PacketPassInterface"
  pb_buf :: ChunkBuffer2

definition PacketBuffer_recv :: "PacketBuffer \<Rightarrow> PacketBuffer result" where
  "PacketBuffer_recv p =
     andthen (PacketRecvInterface_Receiver_Recv (pb_input p) (input_dest (pb_buf p)))
       (\<lambda>i. Inr (p\<lparr>pb_input := i\<rparr>))"

definition PacketBuffer_send :: "PacketBuffer \<Rightarrow> PacketBuffer result" where
  "PacketBuffer_send p =
     andthen (PacketPassInterface_Sender_Send (pb_output p) (output_dest (pb_buf p)) (output_avail (pb_buf p)))
       (\<lambda>i. Inr (p\<lparr>pb_output := i\<rparr>))"

definition PacketBuffer_input_handler_done :: "PacketBuffer \<Rightarrow> int \<Rightarrow> PacketBuffer result" where
  "PacketBuffer_input_handler_done p in_len =
     ASSERT (in_len \<ge> 0) (ASSERT (in_len \<le> pb_input_mtu p)
     (let was_empty = (output_avail (pb_buf p) < 0) in
      andthen (ChunkBuffer2_SubmitPacket (pb_buf p) in_len) (\<lambda>b.
      let p = p\<lparr>pb_buf := b\<rparr> in
      andthen (if input_avail (pb_buf p) \<ge> pb_input_mtu p then PacketBuffer_recv p else Inr p) (\<lambda>p.
      if was_empty then PacketBuffer_send p else Inr p))))"

definition PacketBuffer_output_handler_done :: "PacketBuffer \<Rightarrow> PacketBuffer result" where
  "PacketBuffer_output_handler_done p =
     (let was_full = (input_avail (pb_buf p) < pb_input_mtu p) in
      andthen (ChunkBuffer2_ConsumePacket (pb_buf p)) (\<lambda>b.
      let p = p\<lparr>pb_buf := b\<rparr> in
      andthen (if was_full \<and> input_avail (pb_buf p) \<ge> pb_input_mtu p then PacketBuffer_recv p else Inr p) (\<lambda>p.
      if output_avail (pb_buf p) \<ge> 0 then PacketBuffer_send p else Inr p)))"

text \<open>
  \<open>PacketBuffer_Init\<close>. The result of \<^verbatim>\<open>BAllocArray\<close> is a parameter: no memory, or a block of the
  requested number of bytes with any contents. \<open>None\<close> is the return value 0.
\<close>

definition PacketBuffer_Init ::
    "(nat \<Rightarrow> bytes option) \<Rightarrow> int PacketRecvInterface \<Rightarrow> int PacketPassInterface \<Rightarrow> int \<Rightarrow> PacketBuffer option result" where
  "PacketBuffer_Init alloc inp outp num_packets =
     ASSERT (PacketPassInterface_GetMTU outp \<ge> PacketRecvInterface_GetMTU inp)
     (ASSERT (num_packets > 0)
     (andthen (PacketRecvInterface_Receiver_Init inp) (\<lambda>inp.
      let input_mtu = PacketRecvInterface_GetMTU inp in
      andthen (PacketPassInterface_Sender_Init outp) (\<lambda>outp.
      let num_blocks = ChunkBuffer2_calc_blocks input_mtu num_packets in
      if num_blocks < 0 then Inr None else
      case alloc (4 * nat num_blocks) of None \<Rightarrow> Inr None
      | Some buf_data \<Rightarrow>
          andthen (ChunkBuffer2_Init buf_data num_blocks input_mtu) (\<lambda>b.
          andthen (PacketBuffer_recv \<lparr> pb_input = inp, pb_input_mtu = input_mtu, pb_output = outp, pb_buf = b \<rparr>)
            (\<lambda>p. Inr (Some p)))))))"

subsection \<open>The buffer among its neighbours\<close>

text \<open>
  The system state adds the history: the packets the input's provider has delivered and the
  packets the output's provider has read.
\<close>

record pb_sys =
  sys_pb :: PacketBuffer
  sys_received :: "bytes list"
  sys_sent :: "bytes list"

definition run_recv_operation :: "pb_sys \<Rightarrow> pb_sys result" where
  "run_recv_operation s =
     andthen (PacketRecvInterface_job_operation (pb_input (sys_pb s))) (\<lambda>(i, _).
     Inr (s\<lparr>sys_pb := (sys_pb s)\<lparr>pb_input := i\<rparr>\<rparr>))"

definition provider_received :: "pb_sys \<Rightarrow> bytes \<Rightarrow> pb_sys result" where
  "provider_received s d =
     (case pri_job_operation_data (pb_input (sys_pb s)) of None \<Rightarrow> Inl Out_of_bounds
      | Some off \<Rightarrow>
          andthen (mem_write (cb_buffer (pb_buf (sys_pb s))) (nat off) d) (\<lambda>m.
          andthen (PacketRecvInterface_Done (pb_input (sys_pb s)) (int (length d))) (\<lambda>i.
          Inr (s\<lparr>sys_pb := (sys_pb s)\<lparr>pb_input := i, pb_buf := (pb_buf (sys_pb s))\<lparr>cb_buffer := m\<rparr>\<rparr>,
                 sys_received := sys_received s @ [d]\<rparr>))))"

definition run_recv_done :: "pb_sys \<Rightarrow> pb_sys result" where
  "run_recv_done s =
     andthen (PacketRecvInterface_job_done (pb_input (sys_pb s))) (\<lambda>(i, len).
     andthen (PacketBuffer_input_handler_done ((sys_pb s)\<lparr>pb_input := i\<rparr>) len) (\<lambda>p.
     Inr (s\<lparr>sys_pb := p\<rparr>)))"

definition run_send_operation :: "pb_sys \<Rightarrow> pb_sys result" where
  "run_send_operation s =
     andthen (PacketPassInterface_job_operation (pb_output (sys_pb s))) (\<lambda>(i, _, _).
     Inr (s\<lparr>sys_pb := (sys_pb s)\<lparr>pb_output := i\<rparr>\<rparr>))"

definition provider_sent :: "pb_sys \<Rightarrow> pb_sys result" where
  "provider_sent s =
     (case ppi_job_operation_data (pb_output (sys_pb s)) of None \<Rightarrow> Inl Out_of_bounds
      | Some off \<Rightarrow>
          andthen (mem_read (cb_buffer (pb_buf (sys_pb s))) (nat off)
                     (nat (ppi_job_operation_len (pb_output (sys_pb s))))) (\<lambda>d.
          andthen (PacketPassInterface_Done (pb_output (sys_pb s))) (\<lambda>i.
          Inr (s\<lparr>sys_pb := (sys_pb s)\<lparr>pb_output := i\<rparr>, sys_sent := sys_sent s @ [d]\<rparr>))))"

definition run_send_done :: "pb_sys \<Rightarrow> pb_sys result" where
  "run_send_done s =
     andthen (PacketPassInterface_job_done (pb_output (sys_pb s))) (\<lambda>i.
     andthen (PacketBuffer_output_handler_done ((sys_pb s)\<lparr>pb_output := i\<rparr>)) (\<lambda>p.
     Inr (s\<lparr>sys_pb := p\<rparr>)))"

text \<open>What can happen next, with its result.\<close>

inductive pb_step :: "pb_sys \<Rightarrow> pb_sys result \<Rightarrow> bool" where
  "pri_job_operation (pb_input (sys_pb s)) \<Longrightarrow> pb_step s (run_recv_operation s)"
| "pri_state (pb_input (sys_pb s)) = STATE_BUSY \<Longrightarrow> int (length d) \<le> pri_mtu (pb_input (sys_pb s)) \<Longrightarrow>
     pb_step s (provider_received s d)"
| "pri_job_done (pb_input (sys_pb s)) \<Longrightarrow> pb_step s (run_recv_done s)"
| "ppi_job_operation (pb_output (sys_pb s)) \<Longrightarrow> pb_step s (run_send_operation s)"
| "ppi_state (pb_output (sys_pb s)) = STATE_BUSY \<Longrightarrow> pb_step s (provider_sent s)"
| "ppi_job_done (pb_output (sys_pb s)) \<Longrightarrow> pb_step s (run_send_done s)"

inductive pb_reach :: "pb_sys \<Rightarrow> pb_sys \<Rightarrow> bool" where
  pb_refl: "pb_reach s s"
| pb_trans: "pb_reach s t \<Longrightarrow> pb_step t (Inr u) \<Longrightarrow> pb_reach s u"

subsection \<open>The invariant\<close>

text \<open>The input side: a receive is outstanding exactly while a packet of the MTU has room.\<close>

definition pb_in_inv :: "int PacketRecvInterface \<Rightarrow> ChunkBuffer2 \<Rightarrow> int \<Rightarrow> bytes list \<Rightarrow> bool" where
  "pb_in_inv i b mtu pend \<longleftrightarrow>
     pri_mtu i = mtu \<and> pri_handler_done i \<and>
     (pri_job_operation i \<longleftrightarrow> pri_state i = STATE_OPERATION_PENDING) \<and>
     (pri_job_done i \<longleftrightarrow> pri_state i = STATE_DONE_PENDING) \<and>
     (pri_state i = STATE_NONE \<longleftrightarrow> input_avail b < mtu) \<and>
     (pri_state i \<noteq> STATE_NONE \<longrightarrow> pri_job_operation_data i = input_dest b) \<and>
     (if pri_state i = STATE_DONE_PENDING
      then \<exists>d off. pend = [d] \<and> pri_job_done_len i = int (length d) \<and> int (length d) \<le> mtu \<and>
             input_dest b = Some off \<and> mem_read (cb_buffer b) (nat off) (length d) = Inr d
      else pend = [])"

text \<open>The output side: a send is outstanding exactly while the buffer holds a packet.\<close>

definition pb_out_inv :: "int PacketPassInterface \<Rightarrow> ChunkBuffer2 \<Rightarrow> int \<Rightarrow> bytes list \<Rightarrow> bytes list \<Rightarrow> bool" where
  "pb_out_inv i b mtu pkts pend \<longleftrightarrow>
     mtu \<le> ppi_mtu i \<and> ppi_handler_done i \<and>
     (ppi_job_operation i \<longleftrightarrow> ppi_state i = STATE_OPERATION_PENDING) \<and>
     (ppi_job_done i \<longleftrightarrow> ppi_state i = STATE_DONE_PENDING) \<and>
     (ppi_state i = STATE_NONE \<longleftrightarrow> pkts = []) \<and>
     (ppi_state i \<noteq> STATE_NONE \<longrightarrow>
        ppi_job_operation_data i = output_dest b \<and> ppi_job_operation_len i = output_avail b) \<and>
     pend = (if ppi_state i = STATE_DONE_PENDING then [hd pkts] else [])"

definition pb_inv :: "int \<Rightarrow> int \<Rightarrow> pb_sys \<Rightarrow> bytes list \<Rightarrow> bool" where
  "pb_inv mtu num s pkts \<longleftrightarrow>
     (let p = sys_pb s; b = pb_buf p in
      0 \<le> mtu \<and> 0 < num \<and> pb_input_mtu p = mtu \<and> cb_rel b pkts \<and> cb_mtu b = bdivide_up mtu 4 \<and>
      (num + 1) * (1 + cb_mtu b) \<le> cb_size b \<and>
      (\<forall>d\<in>set pkts. int (length d) \<le> mtu) \<and>
      (\<exists>done_pkts in_pend out_pend. pb_in_inv (pb_input p) b mtu in_pend \<and>
         pb_out_inv (pb_output p) b mtu pkts out_pend \<and>
         sys_received s = done_pkts @ pkts @ in_pend \<and> sys_sent s = done_pkts @ out_pend))"

lemma recv_ok:
  assumes "cb_rel (pb_buf p) pkts" and "0 \<le> pb_input_mtu p" and "pb_input_mtu p \<le> input_avail (pb_buf p)"
    and "pri_state (pb_input p) = STATE_NONE" and "pri_mtu (pb_input p) = pb_input_mtu p"
    and "pri_handler_done (pb_input p)" and "\<not> pri_job_done (pb_input p)"
  obtains i where "PacketBuffer_recv p = Inr (p\<lparr>pb_input := i\<rparr>)"
    and "pb_in_inv i (pb_buf p) (pb_input_mtu p) []"
  using assms rel_avail_dest [OF assms(1)] that
  by (auto simp: PacketBuffer_recv_def PacketRecvInterface_Receiver_Recv_def pb_in_inv_def)

lemma send_ok:
  assumes "cb_rel (pb_buf p) (d # ds)" and "int (length d) \<le> mtu" and "mtu \<le> ppi_mtu (pb_output p)"
    and "ppi_state (pb_output p) = STATE_NONE" and "ppi_handler_done (pb_output p)"
    and "\<not> ppi_job_done (pb_output p)"
  obtains i where "PacketBuffer_send p = Inr (p\<lparr>pb_output := i\<rparr>)"
    and "pb_out_inv i (pb_buf p) mtu (d # ds) []"
  using assms rel_output [OF assms(1)] that
  by (auto simp: PacketBuffer_send_def PacketPassInterface_Sender_Send_def pb_out_inv_def)

text \<open>A received packet is taken over: it joins the queue, and the two sides are started again.\<close>

lemma input_handler_done_ok:
  assumes rel: "cb_rel (pb_buf p) pkts" and mtu: "0 \<le> pb_input_mtu p" "int (length d) \<le> pb_input_mtu p"
    and avail: "pb_input_mtu p \<le> input_avail (pb_buf p)"
    and dest: "input_dest (pb_buf p) = Some off"
    and mem: "mem_read (cb_buffer (pb_buf p)) (nat off) (length d) = Inr d"
    and i: "pri_state (pb_input p) = STATE_NONE" "pri_mtu (pb_input p) = pb_input_mtu p"
      "pri_handler_done (pb_input p)" "\<not> pri_job_done (pb_input p)" "\<not> pri_job_operation (pb_input p)"
    and o: "pb_out_inv (pb_output p) (pb_buf p) (pb_input_mtu p) pkts pend"
  obtains p' where "PacketBuffer_input_handler_done p (int (length d)) = Inr p'"
    and "cb_rel (pb_buf p') (pkts @ [d])" and "pb_input_mtu p' = pb_input_mtu p"
    and "cb_size (pb_buf p') = cb_size (pb_buf p)" and "cb_mtu (pb_buf p') = cb_mtu (pb_buf p)"
    and "pb_in_inv (pb_input p') (pb_buf p') (pb_input_mtu p) []"
    and "pb_out_inv (pb_output p') (pb_buf p') (pb_input_mtu p) (pkts @ [d]) pend"
proof -
  obtain b' where b': "ChunkBuffer2_SubmitPacket (pb_buf p) (int (length d)) = Inr b'"
    "cb_rel b' (pkts @ [d])" "cb_size b' = cb_size (pb_buf p)" "cb_mtu b' = cb_mtu (pb_buf p)"
    "cb_start b' = cb_start (pb_buf p)"
    using SubmitPacket_rel [OF rel dest _ mem] mtu avail by (metis order.trans)
  let ?q = "p\<lparr>pb_buf := b'\<rparr>"
  obtain i' where q: "(if input_avail b' \<ge> pb_input_mtu p then PacketBuffer_recv ?q else Inr ?q) =
      Inr (?q\<lparr>pb_input := i'\<rparr>)" "pb_in_inv i' b' (pb_input_mtu p) []"
  proof (cases "input_avail b' \<ge> pb_input_mtu p")
    case True
    then show ?thesis using recv_ok [of ?q "pkts @ [d]"] b'(2) mtu i that by auto
  next
    case False
    then show ?thesis using that [of "pb_input p"] i by (auto simp: pb_in_inv_def)
  qed
  let ?q = "p\<lparr>pb_buf := b', pb_input := i'\<rparr>"
  have e: "output_avail (pb_buf p) < 0 \<longleftrightarrow> pkts = []"
    using rel_output_empty [of "pb_buf p"] rel_output(2) [of "pb_buf p"] rel by (cases pkts) auto
  obtain oi where r: "(if output_avail (pb_buf p) < 0 then PacketBuffer_send ?q else Inr ?q) =
      Inr (?q\<lparr>pb_output := oi\<rparr>)" "pb_out_inv oi b' (pb_input_mtu p) (pkts @ [d]) pend"
  proof (cases pkts)
    case Nil
    then have "pend = []" using o by (auto simp: pb_out_inv_def)
    then show ?thesis using Nil send_ok [of ?q d "[]" "pb_input_mtu p"] b'(2) mtu e o that
      by (auto simp: pb_out_inv_def)
  next
    case (Cons x xs)
    have "output_dest b' = output_dest (pb_buf p)" "output_avail b' = output_avail (pb_buf p)"
      using rel_output(1,2) [of b' x "xs @ [d]"] rel_output(1,2) [of "pb_buf p" x xs] b'(2,5) rel Cons by simp_all
    then show ?thesis using Cons e o that [of "pb_output p"] by (auto simp: pb_out_inv_def)
  qed
  have "PacketBuffer_input_handler_done p (int (length d)) = Inr (?q\<lparr>pb_output := oi\<rparr>)"
    using mtu b'(1) q(1) r(1)
    by (simp add: PacketBuffer_input_handler_done_def Let_def split del: if_split)
  then show thesis using that b' q(2) r(2) by simp
qed

text \<open>A packet whose sending is complete leaves the queue.\<close>

lemma output_handler_done_ok:
  assumes rel: "cb_rel (pb_buf p) (d # pkts)" and mtu: "0 \<le> pb_input_mtu p"
      "\<forall>x\<in>set pkts. int (length x) \<le> pb_input_mtu p" "pb_input_mtu p \<le> ppi_mtu (pb_output p)"
    and i: "pb_in_inv (pb_input p) (pb_buf p) (pb_input_mtu p) pend"
    and o: "ppi_state (pb_output p) = STATE_NONE" "ppi_handler_done (pb_output p)"
      "\<not> ppi_job_done (pb_output p)" "\<not> ppi_job_operation (pb_output p)"
  obtains p' where "PacketBuffer_output_handler_done p = Inr p'"
    and "cb_rel (pb_buf p') pkts" and "pb_input_mtu p' = pb_input_mtu p"
    and "cb_size (pb_buf p') = cb_size (pb_buf p)" and "cb_mtu (pb_buf p') = cb_mtu (pb_buf p)"
    and "pb_in_inv (pb_input p') (pb_buf p') (pb_input_mtu p) pend"
    and "pb_out_inv (pb_output p') (pb_buf p') (pb_input_mtu p) pkts []"
proof -
  obtain b' where b': "ChunkBuffer2_ConsumePacket (pb_buf p) = Inr b'"
    "cb_rel b' pkts" "cb_buffer b' = cb_buffer (pb_buf p)" "cb_size b' = cb_size (pb_buf p)"
    "cb_mtu b' = cb_mtu (pb_buf p)" "input_dest (pb_buf p) \<noteq> None \<Longrightarrow> input_dest b' = input_dest (pb_buf p)"
    "input_avail (pb_buf p) \<le> input_avail b'"
    using ConsumePacket_rel [OF rel] by blast
  let ?q = "p\<lparr>pb_buf := b'\<rparr>" and ?full = "input_avail (pb_buf p) < pb_input_mtu p"
  obtain i' where q: "(if ?full \<and> input_avail b' \<ge> pb_input_mtu p then PacketBuffer_recv ?q else Inr ?q) =
      Inr (?q\<lparr>pb_input := i'\<rparr>)" "pb_in_inv i' b' (pb_input_mtu p) pend"
  proof (cases "?full \<and> input_avail b' \<ge> pb_input_mtu p")
    case True
    then have "pri_state (pb_input p) = STATE_NONE" "pend = []" using i by (auto simp: pb_in_inv_def)
    then show ?thesis using recv_ok [of ?q pkts] b'(2) mtu i that True by (auto simp: pb_in_inv_def)
  next
    case False
    have "input_dest (pb_buf p) \<noteq> None" if "\<not> ?full" using that mtu rel_avail_dest [OF rel] by simp
    then show ?thesis using that [of "pb_input p"] i False b' by (auto simp: pb_in_inv_def)
  qed
  let ?q = "p\<lparr>pb_buf := b', pb_input := i'\<rparr>"
  have e: "0 \<le> output_avail b' \<longleftrightarrow> pkts \<noteq> []"
    using rel_output_empty [of b'] rel_output(2) [of b'] b'(2) by (cases pkts) auto
  obtain oi where r: "(if output_avail b' \<ge> 0 then PacketBuffer_send ?q else Inr ?q) =
      Inr (?q\<lparr>pb_output := oi\<rparr>)" "pb_out_inv oi b' (pb_input_mtu p) pkts []"
  proof (cases pkts)
    case Nil
    then show ?thesis using e that [of "pb_output p"] o mtu by (auto simp: pb_out_inv_def)
  next
    case (Cons x xs)
    then show ?thesis using e send_ok [of ?q x xs "pb_input_mtu p"] b'(2) mtu o that by auto
  qed
  have "PacketBuffer_output_handler_done p = Inr (?q\<lparr>pb_output := oi\<rparr>)"
    using b'(1) q(1) r(1)
    by (simp add: PacketBuffer_output_handler_done_def Let_def split del: if_split)
  then show thesis using that b' q(2) r(2) by simp
qed

subsection \<open>Every step keeps the invariant\<close>

lemmas pri_defs = PacketRecvInterface_Init_def PacketRecvInterface_Done_def
  PacketRecvInterface_Receiver_Init_def PacketRecvInterface_Receiver_Recv_def
  PacketRecvInterface_job_operation_def PacketRecvInterface_job_done_def

lemma pb_invE:
  assumes "pb_inv mtu num s pkts"
  obtains hist ip op where "0 \<le> mtu" "0 < num" "pb_input_mtu (sys_pb s) = mtu" "cb_rel (pb_buf (sys_pb s)) pkts"
    "cb_mtu (pb_buf (sys_pb s)) = bdivide_up mtu 4"
    "(num + 1) * (1 + cb_mtu (pb_buf (sys_pb s))) \<le> cb_size (pb_buf (sys_pb s))"
    "\<forall>d\<in>set pkts. int (length d) \<le> mtu"
    "pb_in_inv (pb_input (sys_pb s)) (pb_buf (sys_pb s)) mtu ip"
    "pb_out_inv (pb_output (sys_pb s)) (pb_buf (sys_pb s)) mtu pkts op"
    "sys_received s = hist @ pkts @ ip" "sys_sent s = hist @ op"
  using assms unfolding pb_inv_def Let_def by blast

lemma pb_invI:
  assumes "0 \<le> mtu" "0 < num" "pb_input_mtu (sys_pb s) = mtu" "cb_rel (pb_buf (sys_pb s)) pkts"
    "cb_mtu (pb_buf (sys_pb s)) = bdivide_up mtu 4"
    "(num + 1) * (1 + cb_mtu (pb_buf (sys_pb s))) \<le> cb_size (pb_buf (sys_pb s))"
    "\<forall>d\<in>set pkts. int (length d) \<le> mtu"
    "pb_in_inv (pb_input (sys_pb s)) (pb_buf (sys_pb s)) mtu ip"
    "pb_out_inv (pb_output (sys_pb s)) (pb_buf (sys_pb s)) mtu pkts op"
    "sys_received s = hist @ pkts @ ip" "sys_sent s = hist @ op"
  shows "pb_inv mtu num s pkts"
  using assms unfolding pb_inv_def Let_def by blast

lemma run_recv_operation_inv:
  assumes "pb_inv mtu num s pkts" and "pri_job_operation (pb_input (sys_pb s))"
  shows "\<exists>s'. run_recv_operation s = Inr s' \<and> pb_inv mtu num s' pkts"
  using assms(1)
proof (cases rule: pb_invE)
  case (1 hist ip op)
  let ?i = "(pb_input (sys_pb s))\<lparr>pri_job_operation := False, pri_state := STATE_BUSY\<rparr>"
  let ?s = "s\<lparr>sys_pb := (sys_pb s)\<lparr>pb_input := ?i\<rparr>\<rparr>"
  have st: "pri_state (pb_input (sys_pb s)) = STATE_OPERATION_PENDING" using 1(8) assms(2) by (simp add: pb_in_inv_def)
  have "run_recv_operation s = Inr ?s"
    using st by (simp add: run_recv_operation_def PacketRecvInterface_job_operation_def)
  moreover have "pb_inv mtu num ?s pkts"
    by (rule pb_invI [where hist = hist and ip = ip and op = op])
       (use 1 st in \<open>simp_all add: pb_in_inv_def\<close>)
  ultimately show ?thesis by blast
qed

lemma run_send_operation_inv:
  assumes "pb_inv mtu num s pkts" and "ppi_job_operation (pb_output (sys_pb s))"
  shows "\<exists>s'. run_send_operation s = Inr s' \<and> pb_inv mtu num s' pkts"
  using assms(1)
proof (cases rule: pb_invE)
  case (1 hist ip op)
  let ?o = "(pb_output (sys_pb s))\<lparr>ppi_job_operation := False, ppi_state := STATE_BUSY\<rparr>"
  let ?s = "s\<lparr>sys_pb := (sys_pb s)\<lparr>pb_output := ?o\<rparr>\<rparr>"
  have st: "ppi_state (pb_output (sys_pb s)) = STATE_OPERATION_PENDING" using 1(9) assms(2) by (simp add: pb_out_inv_def)
  have "run_send_operation s = Inr ?s"
    using st by (simp add: run_send_operation_def PacketPassInterface_job_operation_def)
  moreover have "pb_inv mtu num ?s pkts"
    by (rule pb_invI [where hist = hist and ip = ip and op = op])
       (use 1 st in \<open>simp_all add: pb_out_inv_def\<close>)
  ultimately show ?thesis by blast
qed

lemma provider_received_inv:
  assumes "pb_inv mtu num s pkts" and st: "pri_state (pb_input (sys_pb s)) = STATE_BUSY"
    and len: "int (length d) \<le> pri_mtu (pb_input (sys_pb s))"
  shows "\<exists>s'. provider_received s d = Inr s' \<and> pb_inv mtu num s' pkts"
  using assms(1)
proof (cases rule: pb_invE)
  case (1 hist ip op)
  let ?p = "sys_pb s"
  have m: "mtu \<le> input_avail (pb_buf ?p)" "int (length d) \<le> mtu" "ip = []"
    using 1(8) st len by (auto simp: pb_in_inv_def split: if_splits)
  then obtain off where off: "input_dest (pb_buf ?p) = Some off"
    using rel_avail_dest [OF 1(4)] 1(1) by fastforce
  obtain m' where f: "cb_fill (pb_buf ?p) d = Inr ((pb_buf ?p)\<lparr>cb_buffer := m'\<rparr>)"
    "cb_rel ((pb_buf ?p)\<lparr>cb_buffer := m'\<rparr>) pkts" "mem_read m' (nat off) (length d) = Inr d"
    using fill_rel [OF 1(4) off, of d] m by (metis order.trans)
  have w: "mem_write (cb_buffer (pb_buf ?p)) (nat off) d = Inr m'"
    using f(1) off by (auto simp: cb_fill_def result_simps) (metis ChunkBuffer2.select_convs(1) ChunkBuffer2.surjective ChunkBuffer2.update_convs(1))
  let ?i = "(pb_input ?p)\<lparr>pri_job_done_len := int (length d), pri_job_done := True, pri_state := STATE_DONE_PENDING\<rparr>"
  let ?s = "s\<lparr>sys_pb := ?p\<lparr>pb_input := ?i, pb_buf := (pb_buf ?p)\<lparr>cb_buffer := m'\<rparr>\<rparr>,
              sys_received := sys_received s @ [d]\<rparr>"
  have "provider_received s d = Inr ?s"
    using 1(8) st off w len by (simp add: provider_received_def PacketRecvInterface_Done_def pb_in_inv_def)
  moreover have "pb_inv mtu num ?s pkts"
    by (rule pb_invI [where hist = hist and ip = "[d]" and op = op])
       (use 1 st m off f in \<open>simp_all add: pb_in_inv_def pb_out_inv_def\<close>)
  ultimately show ?thesis by blast
qed

lemma provider_sent_inv:
  assumes "pb_inv mtu num s pkts" and st: "ppi_state (pb_output (sys_pb s)) = STATE_BUSY"
  shows "\<exists>s'. provider_sent s = Inr s' \<and> pb_inv mtu num s' pkts"
  using assms(1)
proof (cases rule: pb_invE)
  case (1 hist ip op)
  let ?p = "sys_pb s"
  obtain d ds where p: "pkts = d # ds" and op: "op = []" "ppi_job_operation_data (pb_output ?p) = output_dest (pb_buf ?p)"
    "ppi_job_operation_len (pb_output ?p) = output_avail (pb_buf ?p)"
    using 1(9) st by (cases pkts) (auto simp: pb_out_inv_def)
  note out = rel_output [OF 1(4) [unfolded p]]
  let ?o = "(pb_output ?p)\<lparr>ppi_job_requestcancel := False, ppi_job_done := True, ppi_state := STATE_DONE_PENDING\<rparr>"
  let ?s = "s\<lparr>sys_pb := ?p\<lparr>pb_output := ?o\<rparr>, sys_sent := sys_sent s @ [d]\<rparr>"
  have "provider_sent s = Inr ?s"
    using st op out by (simp add: provider_sent_def PacketPassInterface_Done_def)
  moreover have "pb_inv mtu num ?s pkts"
    by (rule pb_invI [where hist = hist and ip = ip and op = "[d]"])
       (use 1 st p op in \<open>simp_all add: pb_out_inv_def\<close>)
  ultimately show ?thesis by blast
qed

lemma run_recv_done_inv:
  assumes "pb_inv mtu num s pkts" and "pri_job_done (pb_input (sys_pb s))"
  shows "\<exists>s' d. run_recv_done s = Inr s' \<and> pb_inv mtu num s' (pkts @ [d])"
  using assms(1)
proof (cases rule: pb_invE)
  case (1 hist ip op)
  let ?i = "(pb_input (sys_pb s))\<lparr>pri_job_done := False, pri_state := STATE_NONE\<rparr>"
  let ?p = "(sys_pb s)\<lparr>pb_input := ?i\<rparr>"
  have st: "pri_state (pb_input (sys_pb s)) = STATE_DONE_PENDING" using 1(8) assms(2) by (simp add: pb_in_inv_def)
  then obtain d off where d: "ip = [d]" "pri_job_done_len (pb_input (sys_pb s)) = int (length d)"
    "int (length d) \<le> mtu" "input_dest (pb_buf (sys_pb s)) = Some off"
    "mem_read (cb_buffer (pb_buf (sys_pb s))) (nat off) (length d) = Inr d"
    using 1(8) by (auto simp: pb_in_inv_def)
  have av: "mtu \<le> input_avail (pb_buf (sys_pb s))" using 1(8) st by (simp add: pb_in_inv_def)
  obtain p' where p': "PacketBuffer_input_handler_done ?p (int (length d)) = Inr p'"
    "cb_rel (pb_buf p') (pkts @ [d])" "pb_input_mtu p' = mtu"
    "cb_size (pb_buf p') = cb_size (pb_buf (sys_pb s))" "cb_mtu (pb_buf p') = cb_mtu (pb_buf (sys_pb s))"
    "pb_in_inv (pb_input p') (pb_buf p') mtu []" "pb_out_inv (pb_output p') (pb_buf p') mtu (pkts @ [d]) op"
    using input_handler_done_ok [of ?p pkts d off op] 1 d st av by (auto simp: pb_in_inv_def)
  have "run_recv_done s = Inr (s\<lparr>sys_pb := p'\<rparr>)"
    using st d(2) p'(1) by (simp add: run_recv_done_def PacketRecvInterface_job_done_def)
  moreover have "pb_inv mtu num (s\<lparr>sys_pb := p'\<rparr>) (pkts @ [d])"
    by (rule pb_invI [where hist = hist and ip = "[]" and op = op]) (use 1 d p' in simp_all)
  ultimately show ?thesis by blast
qed

lemma run_send_done_inv:
  assumes "pb_inv mtu num s pkts" and "ppi_job_done (pb_output (sys_pb s))"
  shows "\<exists>s' d ds. pkts = d # ds \<and> run_send_done s = Inr s' \<and> pb_inv mtu num s' ds"
  using assms(1)
proof (cases rule: pb_invE)
  case (1 hist ip op)
  let ?o = "(pb_output (sys_pb s))\<lparr>ppi_job_done := False, ppi_state := STATE_NONE\<rparr>"
  let ?p = "(sys_pb s)\<lparr>pb_output := ?o\<rparr>"
  have st: "ppi_state (pb_output (sys_pb s)) = STATE_DONE_PENDING" using 1(9) assms(2) by (simp add: pb_out_inv_def)
  then obtain d ds where p: "pkts = d # ds" and op: "op = [d]" using 1(9) by (cases pkts) (auto simp: pb_out_inv_def)
  obtain p' where p': "PacketBuffer_output_handler_done ?p = Inr p'"
    "cb_rel (pb_buf p') ds" "pb_input_mtu p' = mtu"
    "cb_size (pb_buf p') = cb_size (pb_buf (sys_pb s))" "cb_mtu (pb_buf p') = cb_mtu (pb_buf (sys_pb s))"
    "pb_in_inv (pb_input p') (pb_buf p') mtu ip" "pb_out_inv (pb_output p') (pb_buf p') mtu ds []"
    using output_handler_done_ok [of ?p d ds ip] 1 p st by (auto simp: pb_out_inv_def)
  have "run_send_done s = Inr (s\<lparr>sys_pb := p'\<rparr>)"
    using st p'(1) by (simp add: run_send_done_def PacketPassInterface_job_done_def)
  moreover have "pb_inv mtu num (s\<lparr>sys_pb := p'\<rparr>) ds"
    by (rule pb_invI [where hist = "hist @ [d]" and ip = ip and op = "[]"]) (use 1 p op p' in simp_all)
  ultimately show ?thesis using p by blast
qed

lemma pb_step_inv:
  assumes "pb_inv mtu num s pkts" and "pb_step s r"
  shows "\<exists>s' pkts'. r = Inr s' \<and> pb_inv mtu num s' pkts'"
  using assms(2)
proof cases
  case 1 then show ?thesis using run_recv_operation_inv [OF assms(1)] by blast
next
  case 2 then show ?thesis using provider_received_inv [OF assms(1)] by blast
next
  case 3 then show ?thesis using run_recv_done_inv [OF assms(1)] by blast
next
  case 4 then show ?thesis using run_send_operation_inv [OF assms(1)] by blast
next
  case 5 then show ?thesis using provider_sent_inv [OF assms(1)] by blast
next
  case 6 then show ?thesis using run_send_done_inv [OF assms(1)] by blast
qed

lemma pb_reach_inv: "pb_reach s t \<Longrightarrow> pb_inv mtu num s pkts \<Longrightarrow> \<exists>pkts'. pb_inv mtu num t pkts'"
  by (induction rule: pb_reach.induct) (use pb_step_inv in blast)+

subsection \<open>Initialisation and the properties of all runs\<close>

definition pb_initial :: "PacketBuffer \<Rightarrow> pb_sys" where
  "pb_initial p = \<lparr> sys_pb = p, sys_received = [], sys_sent = [] \<rparr>"

lemma PacketBuffer_Init_cases:
  assumes i: "PacketRecvInterface_Init mtu = Inr inp" and o: "PacketPassInterface_Init omtu = Inr outp"
    and le: "mtu \<le> omtu" and num: "0 < num"
    and alloc: "\<And>n m. alloc n = Some m \<Longrightarrow> length m = n"
    and small: "4 * ChunkBuffer2_calc_blocks mtu num \<le> INT_MAX"
  shows "PacketBuffer_Init alloc inp outp num = Inr None \<or>
         (\<exists>p. PacketBuffer_Init alloc inp outp num = Inr (Some p) \<and> pb_inv mtu num (pb_initial p) [])"
proof -
  let ?k = "ChunkBuffer2_calc_blocks mtu num"
  have m: "0 \<le> mtu" using i by (simp add: PacketRecvInterface_Init_def result_simps)
  have inp: "inp = \<lparr> pri_mtu = mtu, pri_handler_done = False, pri_job_operation = False,
         pri_job_operation_data = None, pri_job_done = False, pri_job_done_len = 0, pri_state = STATE_NONE \<rparr>"
    using i by (simp add: PacketRecvInterface_Init_def result_simps)
  have outp: "outp = \<lparr> ppi_mtu = omtu, ppi_handler_requestcancel = False, ppi_handler_done = False,
         ppi_job_operation = False, ppi_job_operation_data = None, ppi_job_operation_len = 0,
         ppi_job_requestcancel = False, ppi_job_done = False, ppi_state = STATE_NONE,
         ppi_cancel_requested = False \<rparr>"
    using o by (simp add: PacketPassInterface_Init_def result_simps)
  note simps = PacketBuffer_Init_def PacketRecvInterface_Receiver_Init_def PacketPassInterface_Sender_Init_def
    PacketRecvInterface_GetMTU_def PacketPassInterface_GetMTU_def inp outp Let_def
  show ?thesis
  proof (cases "?k < 0 \<or> alloc (4 * nat ?k) = None")
    case True
    then show ?thesis using le num by (auto simp: simps)
  next
    case False
    then obtain mem where mem: "alloc (4 * nat ?k) = Some mem" "0 \<le> ?k" by auto
    note cb = calc_blocks_eq [OF m num mem(2)]
    have "(1 + bdivide_up mtu 4) * 2 \<le> ?k" unfolding cb(1) using cb(3) num by (intro mult_left_mono) auto
    then have lt: "bdivide_up mtu 4 < ?k" using cb(3) by simp
    obtain b where b: "ChunkBuffer2_Init mem ?k mtu = Inr b" "cb_rel b []" "cb_size b = ?k"
      "cb_mtu b = bdivide_up mtu 4"
      using Init_rel [OF m lt _ small, of mem] alloc [OF mem(1)] mem(2) by auto
    have av: "mtu \<le> input_avail b" using rel_capacity [OF b(2) _ m b(4)] num by simp
    let ?p = "\<lparr> pb_input = inp\<lparr>pri_handler_done := True\<rparr>, pb_input_mtu = mtu,
               pb_output = outp\<lparr>ppi_handler_done := True\<rparr>, pb_buf = b \<rparr>"
    obtain i' where r: "PacketBuffer_recv ?p = Inr (?p\<lparr>pb_input := i'\<rparr>)" "pb_in_inv i' b mtu []"
      using recv_ok [of ?p "[]"] b(2) m av by (auto simp: inp)
    have "PacketBuffer_Init alloc inp outp num = Inr (Some (?p\<lparr>pb_input := i'\<rparr>))"
      using le num mem b(1) r(1) by (simp add: simps)
    moreover have "pb_inv mtu num (pb_initial (?p\<lparr>pb_input := i'\<rparr>)) []"
      by (rule pb_invI [where hist = "[]" and ip = "[]" and op = "[]"])
         (use m num b r(2) le cb(1) in \<open>simp_all add: pb_initial_def pb_out_inv_def outp mult.commute\<close>)
    ultimately show ?thesis by blast
  qed
qed

lemma pb_inv_progress:
  assumes "pb_inv mtu num s pkts"
  shows "\<exists>r. pb_step s r" and "pri_state (pb_input (sys_pb s)) = STATE_NONE \<Longrightarrow> num \<le> int (length pkts)"
proof -
  obtain hist ip op where I: "0 \<le> mtu" "0 < num" "pb_input_mtu (sys_pb s) = mtu" "cb_rel (pb_buf (sys_pb s)) pkts"
    "cb_mtu (pb_buf (sys_pb s)) = bdivide_up mtu 4"
    "(num + 1) * (1 + cb_mtu (pb_buf (sys_pb s))) \<le> cb_size (pb_buf (sys_pb s))"
    "\<forall>d\<in>set pkts. int (length d) \<le> mtu"
    "pb_in_inv (pb_input (sys_pb s)) (pb_buf (sys_pb s)) mtu ip"
    "pb_out_inv (pb_output (sys_pb s)) (pb_buf (sys_pb s)) mtu pkts op"
    using pb_invE [OF assms] by metis
  show full: "pri_state (pb_input (sys_pb s)) = STATE_NONE \<Longrightarrow> num \<le> int (length pkts)"
    using rel_capacity [OF I(4,7,1,5), of num] I(6,8) by (force simp: pb_in_inv_def)
  show "\<exists>r. pb_step s r"
  proof (cases "pri_state (pb_input (sys_pb s))")
    case STATE_NONE
    then have "pkts \<noteq> []" using full I(2) by auto
    then have "ppi_state (pb_output (sys_pb s)) \<noteq> STATE_NONE" using I(9) by (simp add: pb_out_inv_def)
    then show ?thesis
      using I(9) pb_step.intros(4-6) [of s]
      by (cases "ppi_state (pb_output (sys_pb s))") (auto simp: pb_out_inv_def)
  next
    case STATE_OPERATION_PENDING
    then show ?thesis using I(8) pb_step.intros(1) [of s] by (auto simp: pb_in_inv_def)
  next
    case STATE_BUSY
    then show ?thesis using I(1,8) pb_step.intros(2) [of s "[]"] by (auto simp: pb_in_inv_def)
  next
    case STATE_DONE_PENDING
    then show ?thesis using I(8) pb_step.intros(3) [of s] by (auto simp: pb_in_inv_def)
  qed
qed

text \<open>
  C2: A packet buffer in use. In every state reachable from a successful initialisation, under any
  order of the reactor's jobs and any timing of the providers: whatever happens next meets no failed
  assertion and no access outside the buffer; the packets read by the output's provider are, in
  order and byte for byte, the packets delivered by the input's provider; the buffer is never
  stuck; and it stops receiving only when it holds at least the \<open>num\<close> packets it was made for.
\<close>

theorem PacketBuffer_correct:
  assumes "PacketRecvInterface_Init mtu = Inr inp" and "PacketPassInterface_Init omtu = Inr outp"
    and "mtu \<le> omtu" and "0 < num"
    and "\<And>n m. alloc n = Some m \<Longrightarrow> length m = n"
    and "4 * ChunkBuffer2_calc_blocks mtu num \<le> INT_MAX"
    and init: "PacketBuffer_Init alloc inp outp num = Inr (Some p)"
    and reach: "pb_reach (pb_initial p) s"
  shows "(\<forall>r. pb_step s r \<longrightarrow> no_fault r) \<and> prefix (sys_sent s) (sys_received s) \<and> (\<exists>r. pb_step s r) \<and>
         (pri_state (pb_input (sys_pb s)) = STATE_NONE \<longrightarrow>
            int (length (sys_sent s)) + num \<le> int (length (sys_received s)) + 1)"
proof -
  have "pb_inv mtu num (pb_initial p) []"
    using PacketBuffer_Init_cases [OF assms(1-4) _ assms(6), of alloc] assms(5) init by auto
  then obtain pkts where inv: "pb_inv mtu num s pkts" using pb_reach_inv [OF reach] by blast
  obtain hist ip op where h: "pb_out_inv (pb_output (sys_pb s)) (pb_buf (sys_pb s)) mtu pkts op"
    "sys_received s = hist @ pkts @ ip" "sys_sent s = hist @ op"
    using pb_invE [OF inv] by metis
  have "prefix op pkts" using h(1) by (cases pkts) (auto simp: pb_out_inv_def)
  then have "prefix (sys_sent s) (sys_received s)" using h(2,3) by (auto simp: prefix_def)
  moreover have "length op \<le> 1" using h(1) by (auto simp: pb_out_inv_def)
  ultimately show ?thesis
    using pb_step_inv [OF inv] pb_inv_progress [OF inv] h(2,3) by (fastforce simp: no_fault_iff)
qed

theorem PacketBuffer_correct_witness:
  "\<exists>inp outp p. PacketRecvInterface_Init 5 = Inr inp \<and> PacketPassInterface_Init 8 = Inr outp \<and>
     PacketBuffer_Init (\<lambda>n. Some (replicate n 0)) inp outp 2 = Inr (Some p) \<and>
     (\<exists>r. pb_step (pb_initial p) r \<and> no_fault r)"
proof -
  have k: "ChunkBuffer2_calc_blocks 5 2 = 9"
    by (simp add: ChunkBuffer2_calc_blocks_def bdivide_up_def INT_MAX_def)
  obtain inp :: "int PacketRecvInterface" and outp :: "int PacketPassInterface"
    where i: "PacketRecvInterface_Init 5 = Inr inp" and o: "PacketPassInterface_Init 8 = Inr outp"
    by (simp add: PacketRecvInterface_Init_def PacketPassInterface_Init_def)
  obtain p where p: "PacketBuffer_Init (\<lambda>n. Some (replicate n 0)) inp outp 2 = Inr (Some p)"
    using PacketBuffer_Init_cases [OF i o, of 2 "\<lambda>n. Some (replicate n 0)"] i o
    by (auto simp: k INT_MAX_def PacketBuffer_Init_def PacketRecvInterface_Receiver_Init_def
        PacketPassInterface_Sender_Init_def PacketRecvInterface_GetMTU_def PacketPassInterface_GetMTU_def
        PacketRecvInterface_Init_def PacketPassInterface_Init_def result_simps)
  have "\<exists>r. pb_step (pb_initial p) r \<and> no_fault r"
    using PacketBuffer_correct [OF i o _ _ _ _ p pb_refl] by (auto simp: k INT_MAX_def)
  with i o p show ?thesis by blast
qed

end
