(* ===== verification/Packet_Proto.thy ===== *)
theory Packet_Proto
  imports Byte_Order Flow_Interfaces
begin

section \<open>Packets over a stream: \<^verbatim>\<open>protocol/packetproto.h\<close>, \<^verbatim>\<open>flow/PacketProtoEncoder.c\<close>, \<^verbatim>\<open>flow/PacketProtoDecoder.c\<close>\<close>

text \<open>
  PacketProto puts packets on a byte stream: each packet is preceded by its length as a
  little-endian 16-bit number. The encoder writes the header in front of a packet in place, in the
  buffer its output was asked to fill. The decoder collects the bytes of the stream in its own
  buffer, as they happen to arrive, and passes complete packets on from there.

  The specification is \<open>next_frame\<close>, which splits the first frame off a byte list. The step
  relation \<open>dec_step\<close> is the decoder among its stream source, its packet sink and the reactor.
\<close>

subsection \<open>The wire format\<close>

definition PACKETPROTO_ENCLEN :: "int \<Rightarrow> int" where
  "PACKETPROTO_ENCLEN len = 2 + len"

definition PACKETPROTO_MAXPAYLOAD :: int where
  "PACKETPROTO_MAXPAYLOAD = UINT16_MAX"

definition packetproto_header_bytes :: "u16 \<Rightarrow> bytes" where
  "packetproto_header_bytes len = u16_bytes len"

definition enc_frame :: "bytes \<Rightarrow> bytes" where
  "enc_frame d = packetproto_header_bytes (htol16 (of_nat (length d))) @ d"

datatype frame_result = Need_more | Too_large | Frame bytes bytes

definition next_frame :: "int \<Rightarrow> bytes \<Rightarrow> frame_result" where
  "next_frame mtu bs =
     (case bs of a # b # rest \<Rightarrow>
        (let n = unat (u16_of_bytes a b) in
         if int n > mtu then Too_large
         else if length rest < n then Need_more
         else Frame (take n rest) (drop n rest))
      | _ \<Rightarrow> Need_more)"

lemma next_frame_enc:
  assumes "length d \<le> 65535" and "int (length d) \<le> mtu"
  shows "next_frame mtu (enc_frame d @ rest) = Frame d rest"
proof -
  have "unat (u16_of_bytes (ucast (of_nat (length d) :: u16)) (ucast (drop_bit 8 (of_nat (length d) :: u16)))) =
      length d"
    using assms(1) by (simp add: join_bytes16 unat_of_nat_u16)
  then show ?thesis
    using assms(2) by (simp add: next_frame_def enc_frame_def packetproto_header_bytes_def htol16_def
        u16_bytes_def Let_def del: of_nat_unat)
qed

lemma enc_frame_next:
  assumes "next_frame mtu bs = Frame d rest"
  shows "bs = enc_frame d @ rest" and "length d \<le> 65535" and "int (length d) \<le> mtu"
proof -
  obtain a b bs' where bs: "bs = a # b # bs'" and d: "d = take (unat (u16_of_bytes a b)) bs'"
    and r: "rest = drop (unat (u16_of_bytes a b)) bs'" and le: "unat (u16_of_bytes a b) \<le> length bs'"
    and m: "int (unat (u16_of_bytes a b)) \<le> mtu"
    using assms unfolding next_frame_def Let_def by (auto split: list.splits if_splits)
  have l: "length d = unat (u16_of_bytes a b)" using d le by simp
  then show "length d \<le> 65535" using unat_u16_less [of "u16_of_bytes a b"] by linarith
  show "int (length d) \<le> mtu" using l m by simp
  have "u16_bytes (of_nat (length d)) = [a, b]"
    unfolding l by simp
  then show "bs = enc_frame d @ rest"
    using bs d r by (simp add: enc_frame_def packetproto_header_bytes_def htol16_def)
qed

subsection \<open>The encoder\<close>

text \<open>
  The memory the encoder writes to is the buffer of whoever asked its output for a packet;
  \<open>output_packet\<close> is the position the packet is to be written to, \<open>None\<close> for NULL.
\<close>

record PacketProtoEncoder =
  enc_input :: "int PacketRecvInterface"
  enc_output :: "int PacketRecvInterface"
  enc_output_packet :: "int option"

definition PacketProtoEncoder_output_handler_recv ::
    "PacketProtoEncoder \<Rightarrow> int option \<Rightarrow> PacketProtoEncoder result" where
  "PacketProtoEncoder_output_handler_recv enc data =
     ASSERT (enc_output_packet enc = None)
     (case data of None \<Rightarrow> Inl Assertion_failed
      | Some p \<Rightarrow> andthen (PacketRecvInterface_Receiver_Recv (enc_input enc) (Some (p + 2)))
          (\<lambda>i. Inr (enc\<lparr>enc_output_packet := data, enc_input := i\<rparr>)))"

definition PacketProtoEncoder_input_handler_done ::
    "PacketProtoEncoder \<Rightarrow> bytes \<Rightarrow> int \<Rightarrow> (PacketProtoEncoder \<times> bytes) result" where
  "PacketProtoEncoder_input_handler_done enc mem in_len =
     (case enc_output_packet enc of None \<Rightarrow> Inl Assertion_failed
      | Some p \<Rightarrow> andthen (mem_write mem (nat p) (packetproto_header_bytes (htol16 (of_int in_len)))) (\<lambda>mem.
          andthen (PacketRecvInterface_Done (enc_output enc) (PACKETPROTO_ENCLEN in_len)) (\<lambda>outp.
          Inr (enc\<lparr>enc_output_packet := None, enc_output := outp\<rparr>, mem))))"

definition PacketProtoEncoder_Init :: "int PacketRecvInterface \<Rightarrow> PacketProtoEncoder result" where
  "PacketProtoEncoder_Init inp =
     ASSERT (PacketRecvInterface_GetMTU inp \<le> PACKETPROTO_MAXPAYLOAD)
     (andthen (PacketRecvInterface_Receiver_Init inp) (\<lambda>inp.
      andthen (PacketRecvInterface_Init (PACKETPROTO_ENCLEN (PacketRecvInterface_GetMTU inp))) (\<lambda>outp.
      Inr \<lparr> enc_input = inp, enc_output = outp, enc_output_packet = None \<rparr>)))"

subsection \<open>The decoder\<close>

record PacketProtoDecoder =
  dec_input :: "int StreamRecvInterface"
  dec_output :: "int PacketPassInterface"
  dec_output_mtu :: int
  dec_buf :: bytes
  dec_buf_size :: int
  dec_buf_start :: int
  dec_buf_used :: int

text \<open>
  \<open>process_data\<close>, and the part of it behind the loop. The boolean tells whether \<open>handler_error\<close> is
  called, which is the last thing the function does.
\<close>

definition process_data_receive :: "PacketProtoDecoder \<Rightarrow> bool \<Rightarrow> (PacketProtoDecoder \<times> bool) result" where
  "process_data_receive enc was_error =
     andthen (if was_error then Inr (enc\<lparr>dec_buf_start := 0, dec_buf_used := 0\<rparr>)
              else if dec_buf_start enc + dec_buf_used enc = dec_buf_size enc
              then andthen (mem_read (dec_buf enc) (nat (dec_buf_start enc)) (nat (dec_buf_used enc))) (\<lambda>bs.
                   andthen (mem_write (dec_buf enc) 0 bs) (\<lambda>m.
                   Inr (enc\<lparr>dec_buf := m, dec_buf_start := 0\<rparr>)))
              else Inr enc) (\<lambda>enc.
     andthen (StreamRecvInterface_Receiver_Recv (dec_input enc) (Some (dec_buf_start enc + dec_buf_used enc))
                (dec_buf_size enc - (dec_buf_start enc + dec_buf_used enc))) (\<lambda>i.
     Inr (enc\<lparr>dec_input := i\<rparr>, was_error)))"

definition process_data :: "PacketProtoDecoder \<Rightarrow> (PacketProtoDecoder \<times> bool) result" where
  "process_data enc =
     (if dec_buf_used enc < 2 then process_data_receive enc False else
      andthen (mem_read (dec_buf enc) (nat (dec_buf_start enc)) 2) (\<lambda>header.
      let left = dec_buf_used enc - 2;
          data_len = int (unat (ltoh16 (u16_of_bytes (header ! 0) (header ! 1)))) in
      if data_len > dec_output_mtu enc then process_data_receive enc True
      else if left < data_len then process_data_receive enc False
      else andthen (PacketPassInterface_Sender_Send (dec_output enc) (Some (dec_buf_start enc + 2)) data_len) (\<lambda>outp.
           Inr (enc\<lparr>dec_buf_start := dec_buf_start enc + (2 + data_len),
                    dec_buf_used := dec_buf_used enc - (2 + data_len), dec_output := outp\<rparr>, False))))"

definition PacketProtoDecoder_input_handler_done ::
    "PacketProtoDecoder \<Rightarrow> int \<Rightarrow> (PacketProtoDecoder \<times> bool) result" where
  "PacketProtoDecoder_input_handler_done enc data_len =
     ASSERT (data_len > 0)
     (ASSERT (data_len \<le> dec_buf_size enc - (dec_buf_start enc + dec_buf_used enc))
     (process_data (enc\<lparr>dec_buf_used := dec_buf_used enc + data_len\<rparr>)))"

definition PacketProtoDecoder_output_handler_done ::
    "PacketProtoDecoder \<Rightarrow> (PacketProtoDecoder \<times> bool) result" where
  "PacketProtoDecoder_output_handler_done enc = process_data enc"

text \<open>\<open>Init\<close>: \<open>alloc\<close> stands for \<^verbatim>\<open>malloc\<close>; \<open>None\<close> is the return value 0.\<close>

definition PacketProtoDecoder_Init :: "(nat \<Rightarrow> bytes option) \<Rightarrow> int StreamRecvInterface \<Rightarrow>
    int PacketPassInterface \<Rightarrow> PacketProtoDecoder option result" where
  "PacketProtoDecoder_Init alloc inp outp =
     andthen (StreamRecvInterface_Receiver_Init inp) (\<lambda>inp.
     andthen (PacketPassInterface_Sender_Init outp) (\<lambda>outp.
     let output_mtu = min (PacketPassInterface_GetMTU outp) PACKETPROTO_MAXPAYLOAD;
         buf_size = PACKETPROTO_ENCLEN output_mtu in
     case alloc (nat buf_size) of None \<Rightarrow> Inr None
     | Some buf \<Rightarrow>
         andthen (StreamRecvInterface_Receiver_Recv inp (Some 0) buf_size) (\<lambda>inp.
         Inr (Some \<lparr> dec_input = inp, dec_output = outp, dec_output_mtu = output_mtu, dec_buf = buf,
                     dec_buf_size = buf_size, dec_buf_start = 0, dec_buf_used = 0 \<rparr>))))"

definition PacketProtoDecoder_Reset :: "PacketProtoDecoder \<Rightarrow> PacketProtoDecoder" where
  "PacketProtoDecoder_Reset enc =
     enc\<lparr>dec_buf_start := dec_buf_start enc + dec_buf_used enc, dec_buf_used := 0\<rparr>"

subsection \<open>What the encoder writes\<close>

text \<open>
  C23: The encoder frames a packet in place: when its input has written a packet \<open>d\<close> behind the
  room for the header, completing it leaves exactly the frame of \<open>d\<close> at the place its output was
  asked to fill, reports the frame's length, and touches no byte but the two of the header.
\<close>

theorem PacketProtoEncoder_frames:
  assumes "enc_output_packet enc = Some p" and "0 \<le> p"
    and "mem_read mem (nat p + 2) (length d) = Inr d"
    and "int (length d) \<le> mtu" and "mtu \<le> PACKETPROTO_MAXPAYLOAD"
    and "pri_state (enc_output enc) = STATE_BUSY" and "pri_mtu (enc_output enc) = PACKETPROTO_ENCLEN mtu"
  shows "\<exists>enc' mem'. PacketProtoEncoder_input_handler_done enc mem (int (length d)) = Inr (enc', mem') \<and>
           mem_read mem' (nat p) (length (enc_frame d)) = Inr (enc_frame d) \<and>
           take (nat p) mem' = take (nat p) mem \<and> drop (nat p + 2) mem' = drop (nat p + 2) mem \<and>
           pri_job_done_len (enc_output enc') = int (length (enc_frame d)) \<and>
           pri_state (enc_output enc') = STATE_DONE_PENDING \<and> enc_output_packet enc' = None"
proof -
  have l: "nat p + 2 + length d \<le> length mem" and d: "d = take (length d) (drop (nat p + 2) mem)"
    using assms(3) by (simp_all add: result_simps)
  let ?m = "take (nat p) mem @ u16_bytes (of_nat (length d)) @ drop (nat p + 2) mem"
  have w: "mem_write mem (nat p) (u16_bytes (of_nat (length d))) = Inr ?m"
    using l by (simp add: mem_write_def)
  have "mem_read ?m (nat p) (length (enc_frame d)) = Inr (enc_frame d)"
    using l d by (simp add: mem_read_def enc_frame_def packetproto_header_bytes_def htol16_def min_def)
  moreover have "take (nat p) ?m = take (nat p) mem" "drop (nat p + 2) ?m = drop (nat p + 2) mem"
    using l by (simp_all add: min_def)
  moreover have "length (enc_frame d) = 2 + length d"
    by (simp add: enc_frame_def packetproto_header_bytes_def)
  ultimately show ?thesis
    using assms w
    by (simp add: PacketProtoEncoder_input_handler_done_def packetproto_header_bytes_def htol16_def
        PacketRecvInterface_Done_def PACKETPROTO_ENCLEN_def)
qed

subsection \<open>The decoder among its neighbours\<close>

text \<open>
  The history: the bytes delivered by the stream source and the packets read by the packet sink,
  since the start or the last error (an error restarts the decoder), and the number of errors.
\<close>

record dec_sys =
  ds_dec :: PacketProtoDecoder
  ds_in :: bytes
  ds_out :: "bytes list"
  ds_errors :: nat

definition dec_after :: "dec_sys \<Rightarrow> PacketProtoDecoder \<times> bool \<Rightarrow> dec_sys" where
  "dec_after s r =
     (if snd r then s\<lparr>ds_dec := fst r, ds_in := [], ds_out := [], ds_errors := Suc (ds_errors s)\<rparr>
      else s\<lparr>ds_dec := fst r\<rparr>)"

definition dec_run_recv_operation :: "dec_sys \<Rightarrow> dec_sys result" where
  "dec_run_recv_operation s =
     andthen (StreamRecvInterface_job_operation (dec_input (ds_dec s))) (\<lambda>(i, _, _).
     Inr (s\<lparr>ds_dec := (ds_dec s)\<lparr>dec_input := i\<rparr>\<rparr>))"

definition source_delivers :: "dec_sys \<Rightarrow> bytes \<Rightarrow> dec_sys result" where
  "source_delivers s bs =
     (case sri_job_operation_data (dec_input (ds_dec s)) of None \<Rightarrow> Inl Out_of_bounds
      | Some off \<Rightarrow>
          andthen (mem_write (dec_buf (ds_dec s)) (nat off) bs) (\<lambda>m.
          andthen (StreamRecvInterface_Done (dec_input (ds_dec s)) (int (length bs))) (\<lambda>i.
          Inr (s\<lparr>ds_dec := (ds_dec s)\<lparr>dec_input := i, dec_buf := m\<rparr>, ds_in := ds_in s @ bs\<rparr>))))"

definition dec_run_recv_done :: "dec_sys \<Rightarrow> dec_sys result" where
  "dec_run_recv_done s =
     andthen (StreamRecvInterface_job_done (dec_input (ds_dec s))) (\<lambda>(i, len).
     andthen (PacketProtoDecoder_input_handler_done ((ds_dec s)\<lparr>dec_input := i\<rparr>) len) (\<lambda>r.
     Inr (dec_after s r)))"

definition dec_run_send_operation :: "dec_sys \<Rightarrow> dec_sys result" where
  "dec_run_send_operation s =
     andthen (PacketPassInterface_job_operation (dec_output (ds_dec s))) (\<lambda>(i, _, _).
     Inr (s\<lparr>ds_dec := (ds_dec s)\<lparr>dec_output := i\<rparr>\<rparr>))"

definition sink_takes :: "dec_sys \<Rightarrow> dec_sys result" where
  "sink_takes s =
     (case ppi_job_operation_data (dec_output (ds_dec s)) of None \<Rightarrow> Inl Out_of_bounds
      | Some off \<Rightarrow>
          andthen (mem_read (dec_buf (ds_dec s)) (nat off) (nat (ppi_job_operation_len (dec_output (ds_dec s))))) (\<lambda>d.
          andthen (PacketPassInterface_Done (dec_output (ds_dec s))) (\<lambda>i.
          Inr (s\<lparr>ds_dec := (ds_dec s)\<lparr>dec_output := i\<rparr>, ds_out := ds_out s @ [d]\<rparr>))))"

definition dec_run_send_done :: "dec_sys \<Rightarrow> dec_sys result" where
  "dec_run_send_done s =
     andthen (PacketPassInterface_job_done (dec_output (ds_dec s))) (\<lambda>i.
     andthen (PacketProtoDecoder_output_handler_done ((ds_dec s)\<lparr>dec_output := i\<rparr>)) (\<lambda>r.
     Inr (dec_after s r)))"

inductive dec_step :: "dec_sys \<Rightarrow> dec_sys result \<Rightarrow> bool" where
  "sri_job_operation (dec_input (ds_dec s)) \<Longrightarrow> dec_step s (dec_run_recv_operation s)"
| "sri_state (dec_input (ds_dec s)) = STATE_BUSY \<Longrightarrow> bs \<noteq> [] \<Longrightarrow>
     int (length bs) \<le> sri_job_operation_len (dec_input (ds_dec s)) \<Longrightarrow> dec_step s (source_delivers s bs)"
| "sri_job_done (dec_input (ds_dec s)) \<Longrightarrow> dec_step s (dec_run_recv_done s)"
| "ppi_job_operation (dec_output (ds_dec s)) \<Longrightarrow> dec_step s (dec_run_send_operation s)"
| "ppi_state (dec_output (ds_dec s)) = STATE_BUSY \<Longrightarrow> dec_step s (sink_takes s)"
| "ppi_job_done (dec_output (ds_dec s)) \<Longrightarrow> dec_step s (dec_run_send_done s)"

inductive dec_reach :: "dec_sys \<Rightarrow> dec_sys \<Rightarrow> bool" where
  dec_refl: "dec_reach s s"
| dec_trans: "dec_reach s t \<Longrightarrow> dec_step t (Inr u) \<Longrightarrow> dec_reach s u"

subsection \<open>The decoder's invariant\<close>

definition buffered :: "PacketProtoDecoder \<Rightarrow> bytes" where
  "buffered e = take (nat (dec_buf_used e)) (drop (nat (dec_buf_start e)) (dec_buf e))"

definition dec_base :: "PacketProtoDecoder \<Rightarrow> bool" where
  "dec_base e \<longleftrightarrow>
     0 \<le> dec_output_mtu e \<and> dec_output_mtu e \<le> 65535 \<and> dec_buf_size e = 2 + dec_output_mtu e \<and>
     int (length (dec_buf e)) = dec_buf_size e \<and> 0 \<le> dec_buf_start e \<and> 0 \<le> dec_buf_used e \<and>
     dec_buf_start e + dec_buf_used e \<le> dec_buf_size e \<and>
     dec_output_mtu e \<le> ppi_mtu (dec_output e) \<and> ppi_handler_done (dec_output e) \<and>
     sri_handler_done (dec_input e) \<and>
     (sri_job_operation (dec_input e) \<longleftrightarrow> sri_state (dec_input e) = STATE_OPERATION_PENDING) \<and>
     (sri_job_done (dec_input e) \<longleftrightarrow> sri_state (dec_input e) = STATE_DONE_PENDING) \<and>
     (ppi_job_operation (dec_output e) \<longleftrightarrow> ppi_state (dec_output e) = STATE_OPERATION_PENDING) \<and>
     (ppi_job_done (dec_output e) \<longleftrightarrow> ppi_state (dec_output e) = STATE_DONE_PENDING)"

text \<open>Receiving: no complete packet is buffered; \<open>new\<close> is what the source has just written.\<close>

definition dec_receiving :: "PacketProtoDecoder \<Rightarrow> bytes \<Rightarrow> bool" where
  "dec_receiving e new \<longleftrightarrow>
     ppi_state (dec_output e) = STATE_NONE \<and> sri_state (dec_input e) \<noteq> STATE_NONE \<and>
     next_frame (dec_output_mtu e) (buffered e) = Need_more \<and>
     sri_job_operation_data (dec_input e) = Some (dec_buf_start e + dec_buf_used e) \<and>
     sri_job_operation_len (dec_input e) = dec_buf_size e - (dec_buf_start e + dec_buf_used e) \<and>
     0 < sri_job_operation_len (dec_input e) \<and>
     (if sri_state (dec_input e) = STATE_DONE_PENDING
      then new \<noteq> [] \<and> sri_job_done_len (dec_input e) = int (length new) \<and>
           int (length new) \<le> sri_job_operation_len (dec_input e) \<and>
           mem_read (dec_buf e) (nat (dec_buf_start e + dec_buf_used e)) (length new) = Inr new
      else new = [])"

text \<open>Sending the packet \<open>d\<close>, which lies in the buffer just before the buffered bytes.\<close>

definition dec_sending :: "PacketProtoDecoder \<Rightarrow> bytes \<Rightarrow> bool" where
  "dec_sending e d \<longleftrightarrow>
     sri_state (dec_input e) = STATE_NONE \<and> ppi_state (dec_output e) \<noteq> STATE_NONE \<and>
     length d \<le> 65535 \<and> int (length d) \<le> dec_buf_start e \<and>
     ppi_job_operation_data (dec_output e) = Some (dec_buf_start e - int (length d)) \<and>
     ppi_job_operation_len (dec_output e) = int (length d) \<and>
     mem_read (dec_buf e) (nat (dec_buf_start e - int (length d))) (length d) = Inr d"

definition dec_inv :: "dec_sys \<Rightarrow> bool" where
  "dec_inv s \<longleftrightarrow>
     dec_base (ds_dec s) \<and> (\<forall>d\<in>set (ds_out s). length d \<le> 65535) \<and>
     ((\<exists>new. dec_receiving (ds_dec s) new \<and>
         ds_in s = concat (map enc_frame (ds_out s)) @ buffered (ds_dec s) @ new) \<or>
      (\<exists>d. dec_sending (ds_dec s) d \<and>
         ds_in s = concat (map enc_frame (ds_out s)) @
           (if ppi_state (dec_output (ds_dec s)) = STATE_DONE_PENDING then [] else enc_frame d) @
           buffered (ds_dec s)))"

lemma base_nat:
  assumes "dec_base e"
  shows "nat (dec_buf_start e) + nat (dec_buf_used e) \<le> length (dec_buf e)"
    "0 \<le> dec_buf_start e" "0 \<le> dec_buf_used e"
proof -
  have "0 \<le> dec_buf_start e" "0 \<le> dec_buf_used e" "int (length (dec_buf e)) = dec_buf_size e"
    "dec_buf_start e + dec_buf_used e \<le> dec_buf_size e" using assms by (simp_all add: dec_base_def)
  then show "nat (dec_buf_start e) + nat (dec_buf_used e) \<le> length (dec_buf e)"
    "0 \<le> dec_buf_start e" "0 \<le> dec_buf_used e" by linarith+
qed

lemma length_buffered:
  assumes "dec_base e"
  shows "int (length (buffered e)) = dec_buf_used e"
proof -
  have "nat (dec_buf_used e) \<le> length (dec_buf e) - nat (dec_buf_start e)" using base_nat(1) [OF assms] by linarith
  then show ?thesis using base_nat(3) [OF assms] by (simp add: buffered_def min_absorb2)
qed

text \<open>Both sides idle, as when one of the two handlers is called.\<close>

definition dec_idle :: "PacketProtoDecoder \<Rightarrow> bool" where
  "dec_idle e \<longleftrightarrow> ppi_state (dec_output e) = STATE_NONE \<and> sri_state (dec_input e) = STATE_NONE"

lemma receive_ok:
  assumes "dec_base e" and "dec_idle e" and "dec_buf_start e + dec_buf_used e < dec_buf_size e"
    and "next_frame (dec_output_mtu e) (buffered e) = Need_more"
  obtains i where "StreamRecvInterface_Receiver_Recv (dec_input e) (Some (dec_buf_start e + dec_buf_used e))
      (dec_buf_size e - (dec_buf_start e + dec_buf_used e)) = Inr i"
    and "dec_base (e\<lparr>dec_input := i\<rparr>)" and "dec_receiving (e\<lparr>dec_input := i\<rparr>) []"
  using assms that
  by (auto simp: StreamRecvInterface_Receiver_Recv_def dec_base_def dec_idle_def dec_receiving_def buffered_def)

lemma process_data_receive_ok:
  assumes b: "dec_base e" and idle: "dec_idle e"
    and more: "\<not> err \<Longrightarrow> next_frame (dec_output_mtu e) (buffered e) = Need_more"
    and used: "\<not> err \<Longrightarrow> dec_buf_used e < dec_buf_size e"
  obtains e' where "process_data_receive e err = Inr (e', err)" and "dec_base e'" and "dec_receiving e' []"
    and "buffered e' = (if err then [] else buffered e)" and "dec_output_mtu e' = dec_output_mtu e"
proof -
  obtain f where f: "(if err then Inr (e\<lparr>dec_buf_start := 0, dec_buf_used := 0\<rparr>)
              else if dec_buf_start e + dec_buf_used e = dec_buf_size e
              then andthen (mem_read (dec_buf e) (nat (dec_buf_start e)) (nat (dec_buf_used e))) (\<lambda>bs.
                   andthen (mem_write (dec_buf e) 0 bs) (\<lambda>m.
                   Inr (e\<lparr>dec_buf := m, dec_buf_start := 0\<rparr>)))
              else Inr e) = Inr f" and fb: "dec_base f" "dec_idle f" "dec_buf_start f + dec_buf_used f < dec_buf_size f"
      "buffered f = (if err then [] else buffered e)" "dec_output_mtu f = dec_output_mtu e"
  proof (cases "\<not> err \<and> dec_buf_start e + dec_buf_used e = dec_buf_size e")
    case True
    let ?m = "buffered e @ drop (nat (dec_buf_used e)) (dec_buf e)"
    have l: "length (buffered e) = nat (dec_buf_used e)" using length_buffered [OF b] by linarith
    have r: "mem_read (dec_buf e) (nat (dec_buf_start e)) (nat (dec_buf_used e)) = Inr (buffered e)"
      using base_nat(1) [OF b] by (simp add: mem_read_def buffered_def)
    have w: "mem_write (dec_buf e) 0 (buffered e) = Inr ?m"
      using l base_nat(1) [OF b] by (simp add: mem_write_def)
    have lm: "dec_buf_used e + int (length (dec_buf e) - nat (dec_buf_used e)) = int (length (dec_buf e))"
      using base_nat [OF b] by linarith
    show thesis
      by (rule that [of "e\<lparr>dec_buf := ?m, dec_buf_start := 0\<rparr>"])
         (use True b idle r w used l lm in \<open>simp_all add: dec_base_def dec_idle_def buffered_def [of "e\<lparr>dec_buf := x, dec_buf_start := y\<rparr>" for x y]\<close>)
  next
    case False
    show thesis
    proof (cases err)
      case True
      then show ?thesis using b idle that [of "e\<lparr>dec_buf_start := 0, dec_buf_used := 0\<rparr>"]
        by (simp add: dec_base_def dec_idle_def buffered_def)
    next
      case False
      then have "dec_buf_start e + dec_buf_used e < dec_buf_size e"
        using \<open>\<not> (\<not> err \<and> dec_buf_start e + dec_buf_used e = dec_buf_size e)\<close> b by (simp add: dec_base_def)
      then show ?thesis using that [of e] False b idle by simp
    qed
  qed
  have "next_frame (dec_output_mtu f) (buffered f) = Need_more"
    using fb(4,5) more by (simp add: next_frame_def)
  then obtain i where i: "StreamRecvInterface_Receiver_Recv (dec_input f) (Some (dec_buf_start f + dec_buf_used f))
      (dec_buf_size f - (dec_buf_start f + dec_buf_used f)) = Inr i"
    "dec_base (f\<lparr>dec_input := i\<rparr>)" "dec_receiving (f\<lparr>dec_input := i\<rparr>) []"
    using receive_ok [OF fb(1-3)] by blast
  have "buffered (f\<lparr>dec_input := i\<rparr>) = buffered f" by (simp add: buffered_def)
  then show thesis
    using that [of "f\<lparr>dec_input := i\<rparr>"] f i fb
    by (simp add: process_data_receive_def split del: if_split)
qed

lemma header_of_buffered:
  assumes "dec_base e" and "2 \<le> dec_buf_used e"
  obtains a c rest where "buffered e = a # c # rest"
    and "mem_read (dec_buf e) (nat (dec_buf_start e)) 2 = Inr [a, c]"
proof -
  have "2 \<le> length (buffered e)" using length_buffered [OF assms(1)] assms(2) by linarith
  then obtain a c rest where r: "buffered e = a # c # rest" by (metis One_nat_def Suc_1 Suc_le_length_iff)
  have "take 2 (drop (nat (dec_buf_start e)) (dec_buf e)) = take 2 (buffered e)"
    using assms(2) by (simp add: buffered_def min_def)
  then have "mem_read (dec_buf e) (nat (dec_buf_start e)) 2 = Inr [a, c]"
    using base_nat(1) [OF assms(1)] assms(2) r by (simp add: mem_read_def)
  then show thesis using that r by blast
qed

lemma process_data_ok:
  assumes b: "dec_base e" and idle: "dec_idle e"
  obtains (more) e' where "next_frame (dec_output_mtu e) (buffered e) = Need_more"
      "process_data e = Inr (e', False)" "dec_base e'" "dec_receiving e' []" "buffered e' = buffered e"
    | (error) e' where "next_frame (dec_output_mtu e) (buffered e) = Too_large"
      "process_data e = Inr (e', True)" "dec_base e'" "dec_receiving e' []" "buffered e' = []"
    | (frame) e' d where "next_frame (dec_output_mtu e) (buffered e) = Frame d (buffered e')"
      "process_data e = Inr (e', False)" "dec_base e'" "dec_sending e' d"
      "ppi_state (dec_output e') = STATE_OPERATION_PENDING"
proof (cases "dec_buf_used e < 2")
  case True
  then have "length (buffered e) < 2" using length_buffered [OF b] by linarith
  then have n: "next_frame (dec_output_mtu e) (buffered e) = Need_more"
    by (auto simp: next_frame_def split: list.split)
  have "dec_buf_used e < dec_buf_size e" using True b by (simp add: dec_base_def)
  then obtain e' where "process_data_receive e False = Inr (e', False)" "dec_base e'" "dec_receiving e' []"
    "buffered e' = buffered e" using process_data_receive_ok [OF b idle, of False] n by auto
  then show thesis using more n True by (simp add: process_data_def)
next
  case False
  then obtain a c rest where h: "buffered e = a # c # rest"
    "mem_read (dec_buf e) (nat (dec_buf_start e)) 2 = Inr [a, c]"
    using header_of_buffered [OF b] by (metis not_less)
  define n where "n = unat (u16_of_bytes a c)"
  have len: "dec_buf_used e - 2 = int (length rest)" using length_buffered [OF b] h(1) by simp
  have p: "process_data e =
      (if int n > dec_output_mtu e then process_data_receive e True
       else if dec_buf_used e - 2 < int n then process_data_receive e False
       else andthen (PacketPassInterface_Sender_Send (dec_output e) (Some (dec_buf_start e + 2)) (int n)) (\<lambda>outp.
           Inr (e\<lparr>dec_buf_start := dec_buf_start e + (2 + int n),
                    dec_buf_used := dec_buf_used e - (2 + int n), dec_output := outp\<rparr>, False)))"
    using False h(2) by (simp add: process_data_def ltoh16_def htol16_def n_def Let_def cong: if_cong
        split del: if_split del: of_nat_unat)
  have nf: "next_frame (dec_output_mtu e) (buffered e) =
      (if int n > dec_output_mtu e then Too_large else if length rest < n then Need_more
       else Frame (take n rest) (drop n rest))"
    by (simp add: next_frame_def h(1) n_def Let_def del: of_nat_unat)
  show thesis
  proof (cases "int n > dec_output_mtu e")
    case True
    obtain e' where "process_data_receive e True = Inr (e', True)" "dec_base e'" "dec_receiving e' []"
      "buffered e' = []" using process_data_receive_ok [OF b idle, of True] by auto
    then show ?thesis using error p nf True by simp
  next
    case small: False
    show ?thesis
    proof (cases "length rest < n")
      case True
      then have m: "next_frame (dec_output_mtu e) (buffered e) = Need_more" using nf small by simp
      have "dec_buf_used e < dec_buf_size e" using True small len b by (simp add: dec_base_def)
      then obtain e' where "process_data_receive e False = Inr (e', False)" "dec_base e'" "dec_receiving e' []"
        "buffered e' = buffered e" using process_data_receive_ok [OF b idle, of False] m by auto
      then show ?thesis using more p m small True len by simp
    next
      case False
      let ?o = "(dec_output e)\<lparr>ppi_job_operation_data := Some (dec_buf_start e + 2), ppi_job_operation_len := int n,
              ppi_job_operation := True, ppi_state := STATE_OPERATION_PENDING, ppi_cancel_requested := False\<rparr>"
      let ?e = "e\<lparr>dec_buf_start := dec_buf_start e + (2 + int n),
                    dec_buf_used := dec_buf_used e - (2 + int n), dec_output := ?o\<rparr>"
      have s: "process_data e = Inr (?e, False)"
        using p small False len b idle
        by (simp add: PacketPassInterface_Sender_Send_def dec_base_def dec_idle_def)
      have le: "2 + int n \<le> dec_buf_used e" using False len by simp
      have d1: "drop 2 (buffered e) = rest" using h(1) by simp
      let ?T = "drop (nat (dec_buf_start e) + nat (dec_buf_used e)) (dec_buf e)"
      have "drop (nat (dec_buf_start e)) (dec_buf e) = buffered e @ ?T"
        unfolding buffered_def by (metis append_take_drop_id drop_drop add.commute)
      from arg_cong [OF this, of "drop 2"]
      have buf: "drop (nat (dec_buf_start e) + 2) (dec_buf e) = rest @ ?T" using h(1) by (simp add: add.commute)
      have lr: "length rest = nat (dec_buf_used e) - 2" using len by linarith
      have nn: "nat (dec_buf_start e + (2 + int n)) = nat (dec_buf_start e) + 2 + n"
        "nat (dec_buf_used e - (2 + int n)) = nat (dec_buf_used e) - 2 - n" "nat (dec_buf_start e + 2) = nat (dec_buf_start e) + 2"
        using base_nat(2,3) [OF b] le by auto
      have dn: "drop (nat (dec_buf_start e) + 2 + n) (dec_buf e) = drop n rest @ ?T"
        using arg_cong [OF buf, of "drop n"] False by (simp add: add_ac)
      have "buffered ?e = take (nat (dec_buf_used e - (2 + int n))) (drop (nat (dec_buf_start e + (2 + int n))) (dec_buf e))"
        by (simp add: buffered_def)
      then have bf: "buffered ?e = drop n rest" unfolding nn dn using lr by simp
      have rd: "mem_read (dec_buf e) (nat (dec_buf_start e + 2)) n = Inr (take n rest)"
        using buf False base_nat(1) [OF b] le by (auto simp: mem_read_def nn)
      have snd: "dec_sending ?e (take n rest)"
        using idle False rd b small by (simp add: dec_sending_def dec_idle_def dec_base_def)
      have "dec_base ?e" using b idle le by (simp add: dec_base_def dec_idle_def)
      then show ?thesis using frame [of "take n rest" ?e] nf small False s bf snd by simp
    qed
  qed
qed

subsection \<open>Every step keeps the invariant\<close>

lemma dec_invE:
  assumes "dec_inv s"
  obtains (receiving) new where "dec_base (ds_dec s)" "dec_receiving (ds_dec s) new"
      "ds_in s = concat (map enc_frame (ds_out s)) @ buffered (ds_dec s) @ new"
      "\<forall>d\<in>set (ds_out s). length d \<le> 65535"
    | (sending) d where "dec_base (ds_dec s)" "dec_sending (ds_dec s) d"
      "ds_in s = concat (map enc_frame (ds_out s)) @
           (if ppi_state (dec_output (ds_dec s)) = STATE_DONE_PENDING then [] else enc_frame d) @ buffered (ds_dec s)"
      "\<forall>d\<in>set (ds_out s). length d \<le> 65535"
  using assms unfolding dec_inv_def by blast

lemma buffered_ifaces [simp]:
  "buffered (e\<lparr>dec_input := i\<rparr>) = buffered e" "buffered (e\<lparr>dec_output := p\<rparr>) = buffered e"
  by (simp_all add: buffered_def)

lemma dec_after_inv:
  assumes b: "dec_base e" and idle: "dec_idle e"
    and h: "ds_in s = concat (map enc_frame (ds_out s)) @ buffered e" "\<forall>d\<in>set (ds_out s). length d \<le> 65535"
  shows "\<exists>r. process_data e = Inr r \<and> dec_inv (dec_after s r) \<and>
           (snd r \<longrightarrow> next_frame (dec_output_mtu e) (buffered e) = Too_large)"
  using b idle
proof (cases rule: process_data_ok)
  case (more e')
  then show ?thesis using h by (auto simp: dec_inv_def dec_after_def)
next
  case (error e')
  then show ?thesis using h by (auto simp: dec_inv_def dec_after_def)
next
  case (frame e' d)
  have "buffered e = enc_frame d @ buffered e'" by (rule enc_frame_next(1) [OF frame(1)])
  then show ?thesis using h frame by (auto simp: dec_inv_def dec_after_def)
qed

lemma dec_run_recv_operation_inv:
  assumes "dec_inv s" and "sri_job_operation (dec_input (ds_dec s))"
  shows "\<exists>s'. dec_run_recv_operation s = Inr s' \<and> dec_inv s'"
  using assms(1)
proof (cases rule: dec_invE)
  case (receiving new)
  have "sri_state (dec_input (ds_dec s)) = STATE_OPERATION_PENDING"
    using receiving(1) assms(2) by (simp add: dec_base_def)
  then show ?thesis
    using receiving
    by (simp add: dec_run_recv_operation_def StreamRecvInterface_job_operation_def dec_inv_def)
       (simp add: dec_base_def dec_receiving_def)
next
  case (sending d)
  then show ?thesis using assms(2) by (simp add: dec_base_def dec_sending_def)
qed

lemma dec_run_send_operation_inv:
  assumes "dec_inv s" and "ppi_job_operation (dec_output (ds_dec s))"
  shows "\<exists>s'. dec_run_send_operation s = Inr s' \<and> dec_inv s'"
  using assms(1)
proof (cases rule: dec_invE)
  case (receiving new)
  then show ?thesis using assms(2) by (simp add: dec_base_def dec_receiving_def)
next
  case (sending d)
  have st: "ppi_state (dec_output (ds_dec s)) = STATE_OPERATION_PENDING"
    using sending(1) assms(2) by (simp add: dec_base_def)
  let ?o = "(dec_output (ds_dec s))\<lparr>ppi_job_operation := False, ppi_state := STATE_BUSY\<rparr>"
  let ?s = "s\<lparr>ds_dec := (ds_dec s)\<lparr>dec_output := ?o\<rparr>\<rparr>"
  have "dec_base (ds_dec ?s)" "dec_sending (ds_dec ?s) d"
    using sending st by (simp_all add: dec_base_def dec_sending_def)
  then have "dec_inv ?s" using sending(3,4) st by (auto simp: dec_inv_def)
  then show ?thesis
    using st by (simp add: dec_run_send_operation_def PacketPassInterface_job_operation_def)
qed

lemma source_delivers_inv:
  assumes "dec_inv s" and st: "sri_state (dec_input (ds_dec s)) = STATE_BUSY" and bs: "bs \<noteq> []"
    and len: "int (length bs) \<le> sri_job_operation_len (dec_input (ds_dec s))"
  shows "\<exists>s'. source_delivers s bs = Inr s' \<and> dec_inv s'"
  using assms(1)
proof (cases rule: dec_invE)
  case (receiving new)
  let ?e = "ds_dec s"
  let ?off = "nat (dec_buf_start ?e + dec_buf_used ?e)"
  note r = receiving(2) [unfolded dec_receiving_def]
  have off: "?off = nat (dec_buf_start ?e) + nat (dec_buf_used ?e)"
    using base_nat(2,3) [OF receiving(1)] by simp
  have fit: "?off + length bs \<le> length (dec_buf ?e)"
    using receiving(1) r len base_nat [OF receiving(1)] by (simp add: dec_base_def) linarith
  then obtain m where w: "mem_write (dec_buf ?e) ?off bs = Inr m" by (simp add: mem_write_def)
  let ?i = "(dec_input ?e)\<lparr>sri_job_done_len := int (length bs), sri_job_done := True, sri_state := STATE_DONE_PENDING\<rparr>"
  let ?e' = "?e\<lparr>dec_input := ?i, dec_buf := m\<rparr>"
  have "mem_read m (nat (dec_buf_start ?e)) (nat (dec_buf_used ?e)) =
      mem_read (dec_buf ?e) (nat (dec_buf_start ?e)) (nat (dec_buf_used ?e))"
    by (rule mem_write_read_before [OF w]) (simp add: off)
  then have b: "buffered ?e' = buffered ?e"
    using base_nat(1) [OF receiving(1)] mem_write_length [OF w] by (simp add: mem_read_def buffered_def)
  have "dec_base ?e'" using receiving(1) mem_write_length [OF w] st by (simp add: dec_base_def)
  moreover have "dec_receiving ?e' bs"
    using r b bs len mem_write_read_same [OF w] by (simp add: dec_receiving_def)
  ultimately have "dec_inv (s\<lparr>ds_dec := ?e', ds_in := ds_in s @ bs\<rparr>)"
    using receiving(3,4) r st b by (auto simp: dec_inv_def)
  then show ?thesis
    using r st w len bs by (simp add: source_delivers_def StreamRecvInterface_Done_def)
next
  case (sending d)
  then show ?thesis using st by (simp add: dec_sending_def)
qed

lemma sink_takes_inv:
  assumes "dec_inv s" and st: "ppi_state (dec_output (ds_dec s)) = STATE_BUSY"
  shows "\<exists>s'. sink_takes s = Inr s' \<and> dec_inv s'"
  using assms(1)
proof (cases rule: dec_invE)
  case (receiving new)
  then show ?thesis using st by (simp add: dec_receiving_def)
next
  case (sending d)
  let ?o = "(dec_output (ds_dec s))\<lparr>ppi_job_requestcancel := False, ppi_job_done := True, ppi_state := STATE_DONE_PENDING\<rparr>"
  let ?s = "s\<lparr>ds_dec := (ds_dec s)\<lparr>dec_output := ?o\<rparr>, ds_out := ds_out s @ [d]\<rparr>"
  have "dec_base (ds_dec ?s)" "dec_sending (ds_dec ?s) d"
    using sending st by (simp_all add: dec_base_def dec_sending_def)
  then have "dec_inv ?s" using sending(2,3,4) st by (auto simp: dec_inv_def dec_sending_def)
  then show ?thesis
    using sending(2) st by (simp add: sink_takes_def PacketPassInterface_Done_def dec_sending_def)
qed

lemma dec_run_recv_done_inv:
  assumes "dec_inv s" and "sri_job_done (dec_input (ds_dec s))"
  shows "\<exists>s'. dec_run_recv_done s = Inr s' \<and> dec_inv s' \<and>
    (ds_errors s' \<noteq> ds_errors s \<longrightarrow> (\<exists>rest. ds_in s = concat (map enc_frame (ds_out s)) @ rest \<and>
           next_frame (dec_output_mtu (ds_dec s)) rest = Too_large))"
  using assms(1)
proof (cases rule: dec_invE)
  case (receiving new)
  let ?e = "ds_dec s"
  have st: "sri_state (dec_input ?e) = STATE_DONE_PENDING" using receiving(1) assms(2) by (simp add: dec_base_def)
  note r = receiving(2) [unfolded dec_receiving_def]
  let ?i = "(dec_input ?e)\<lparr>sri_job_done := False, sri_state := STATE_NONE\<rparr>"
  let ?e' = "?e\<lparr>dec_input := ?i, dec_buf_used := dec_buf_used ?e + int (length new)\<rparr>"
  have b: "dec_base ?e'" "dec_idle ?e'"
    using receiving(1) r st by (auto simp: dec_base_def dec_idle_def)
  have off: "nat (dec_buf_start ?e + dec_buf_used ?e) = nat (dec_buf_start ?e) + nat (dec_buf_used ?e)"
    "nat (dec_buf_used ?e + int (length new)) = nat (dec_buf_used ?e) + length new"
    using base_nat(2,3) [OF receiving(1)] by (simp_all add: nat_add_distrib)
  have "take (length new) (drop (nat (dec_buf_start ?e) + nat (dec_buf_used ?e)) (dec_buf ?e)) = new"
    using r st by (simp add: result_simps off)
  then have "take (length new) (drop (nat (dec_buf_used ?e)) (drop (nat (dec_buf_start ?e)) (dec_buf ?e))) = new"
    by (simp only: drop_drop add.commute [of "nat (dec_buf_used ?e)"])
  then have "buffered ?e' = buffered ?e @ new"
    by (simp add: buffered_def off(2) take_add del: drop_drop)
  then obtain q where q: "process_data ?e' = Inr q" "dec_inv (dec_after s q)"
    "snd q \<longrightarrow> next_frame (dec_output_mtu ?e) (buffered ?e @ new) = Too_large"
    using dec_after_inv [OF b, of s] receiving(3,4) by auto
  have "PacketProtoDecoder_input_handler_done (?e\<lparr>dec_input := ?i\<rparr>) (int (length new)) = Inr q"
    using q(1) r st by (simp add: PacketProtoDecoder_input_handler_done_def)
  then show ?thesis
    using q(2,3) receiving(3) r st
    by (auto simp: dec_run_recv_done_def StreamRecvInterface_job_done_def dec_after_def)
next
  case (sending d)
  then show ?thesis using assms(2) by (simp add: dec_base_def dec_sending_def)
qed

lemma dec_run_send_done_inv:
  assumes "dec_inv s" and "ppi_job_done (dec_output (ds_dec s))"
  shows "\<exists>s'. dec_run_send_done s = Inr s' \<and> dec_inv s' \<and>
    (ds_errors s' \<noteq> ds_errors s \<longrightarrow> (\<exists>rest. ds_in s = concat (map enc_frame (ds_out s)) @ rest \<and>
           next_frame (dec_output_mtu (ds_dec s)) rest = Too_large))"
  using assms(1)
proof (cases rule: dec_invE)
  case (receiving new)
  then show ?thesis using assms(2) by (simp add: dec_base_def dec_receiving_def)
next
  case (sending d)
  have st: "ppi_state (dec_output (ds_dec s)) = STATE_DONE_PENDING"
    using sending(1) assms(2) by (simp add: dec_base_def)
  let ?e = "(ds_dec s)\<lparr>dec_output := (dec_output (ds_dec s))\<lparr>ppi_job_done := False, ppi_state := STATE_NONE\<rparr>\<rparr>"
  have "dec_base ?e" "dec_idle ?e" using sending(1,2) st by (simp_all add: dec_base_def dec_idle_def dec_sending_def)
  then obtain q where "process_data ?e = Inr q" "dec_inv (dec_after s q)"
    "snd q \<longrightarrow> next_frame (dec_output_mtu (ds_dec s)) (buffered (ds_dec s)) = Too_large"
    using dec_after_inv [of ?e s] sending(3,4) st by auto
  then show ?thesis
    using st sending(3) by (auto simp: dec_after_def dec_run_send_done_def PacketPassInterface_job_done_def PacketProtoDecoder_output_handler_done_def)
qed

lemma dec_step_inv:
  assumes "dec_inv s" and "dec_step s r"
  shows "\<exists>s'. r = Inr s' \<and> dec_inv s'"
  using assms(2)
proof cases
  case 1 then show ?thesis using dec_run_recv_operation_inv [OF assms(1)] by blast
next
  case 2 then show ?thesis using source_delivers_inv [OF assms(1)] by blast
next
  case 3 then show ?thesis using dec_run_recv_done_inv [OF assms(1)] by blast
next
  case 4 then show ?thesis using dec_run_send_operation_inv [OF assms(1)] by blast
next
  case 5 then show ?thesis using sink_takes_inv [OF assms(1)] by blast
next
  case 6 then show ?thesis using dec_run_send_done_inv [OF assms(1)] by blast
qed

lemma dec_reach_inv: "dec_reach s t \<Longrightarrow> dec_inv s \<Longrightarrow> dec_inv t"
  by (induction rule: dec_reach.induct) (use dec_step_inv in blast)+

subsection \<open>The decoder's properties\<close>

definition dec_initial :: "PacketProtoDecoder \<Rightarrow> dec_sys" where
  "dec_initial e = \<lparr> ds_dec = e, ds_in = [], ds_out = [], ds_errors = 0 \<rparr>"

lemma decoder_Init_inv:
  assumes i: "inp = StreamRecvInterface_Init" and o: "PacketPassInterface_Init mtu = Inr outp"
    and alloc: "\<And>n m. alloc n = Some m \<Longrightarrow> length m = n"
  shows "PacketProtoDecoder_Init alloc inp outp = Inr None \<or>
         (\<exists>e. PacketProtoDecoder_Init alloc inp outp = Inr (Some e) \<and> dec_inv (dec_initial e) \<and>
              dec_output_mtu e = min mtu 65535)"
proof -
  have m: "0 \<le> mtu" and outp: "outp = \<lparr> ppi_mtu = mtu, ppi_handler_requestcancel = False, ppi_handler_done = False,
         ppi_job_operation = False, ppi_job_operation_data = None, ppi_job_operation_len = 0,
         ppi_job_requestcancel = False, ppi_job_done = False, ppi_state = STATE_NONE,
         ppi_cancel_requested = False \<rparr>"
    using o by (simp_all add: PacketPassInterface_Init_def result_simps)
  note simps = PacketProtoDecoder_Init_def StreamRecvInterface_Receiver_Init_def PacketPassInterface_Sender_Init_def
    StreamRecvInterface_Receiver_Recv_def PacketPassInterface_GetMTU_def PACKETPROTO_MAXPAYLOAD_def
    PACKETPROTO_ENCLEN_def UINT16_MAX_def StreamRecvInterface_Init_def i outp Let_def
  show ?thesis
  proof (cases "alloc (nat (2 + min mtu 65535))")
    case None
    then show ?thesis by (simp add: simps)
  next
    case (Some buf)
    have l: "int (length buf) = 2 + min mtu 65535" using alloc [OF Some] m by simp
    show ?thesis
      using Some m l min_def [of mtu 65535]
      by (simp add: simps dec_inv_def dec_initial_def dec_base_def dec_receiving_def buffered_def next_frame_def)
  qed
qed

lemma dec_inv_progress:
  assumes "dec_inv s"
  shows "\<exists>r. dec_step s r"
  using assms
proof (cases rule: dec_invE)
  case (receiving new)
  show ?thesis
    using receiving(1,2) dec_step.intros(1,3) [of s] dec_step.intros(2) [of s "[0]"]
    by (cases "sri_state (dec_input (ds_dec s))") (auto simp: dec_base_def dec_receiving_def)
next
  case (sending d)
  show ?thesis
    using sending(1,2) dec_step.intros(4-6) [of s]
    by (cases "ppi_state (dec_output (ds_dec s))") (auto simp: dec_base_def dec_sending_def)
qed

lemma frames_unique:
  assumes "concat (map enc_frame outs) @ rest = concat (map enc_frame pkts)"
    and "\<forall>d\<in>set outs. length d \<le> 65535" and "\<forall>d\<in>set pkts. length d \<le> 65535"
  shows "\<exists>ps. pkts = outs @ ps \<and> rest = concat (map enc_frame ps)"
  using assms
proof (induction outs arbitrary: pkts)
  case (Cons d outs)
  have nf: "next_frame 65535 (concat (map enc_frame pkts)) = Frame d (concat (map enc_frame outs) @ rest)"
    using Cons.prems(1) [symmetric] Cons.prems(2) next_frame_enc [of d 65535] by simp
  then obtain p ps where p: "pkts = p # ps" by (cases pkts) (auto simp: next_frame_def)
  then have "d = p" "concat (map enc_frame outs) @ rest = concat (map enc_frame ps)"
    using nf Cons.prems(3) next_frame_enc [of p 65535] by simp_all
  with Cons p show ?case by simp
qed simp

lemma process_data_receive_mtu:
  "process_data_receive e err = Inr (e', x) \<Longrightarrow> dec_output_mtu e' = dec_output_mtu e"
  by (auto simp: process_data_receive_def result_simps split: if_splits)

lemma process_data_mtu: "process_data e = Inr (e', x) \<Longrightarrow> dec_output_mtu e' = dec_output_mtu e"
  by (auto simp: process_data_def Let_def result_simps dest: process_data_receive_mtu split: if_splits)

lemma dec_step_mtu: "dec_step s (Inr t) \<Longrightarrow> dec_output_mtu (ds_dec t) = dec_output_mtu (ds_dec s)"
proof (induction s "Inr t :: dec_sys result" rule: dec_step.induct)
  case (3 s)
  then show ?case
    by (auto simp: dec_run_recv_done_def PacketProtoDecoder_input_handler_done_def dec_after_def
        result_simps dest!: process_data_mtu)
next
  case (6 s)
  then show ?case
    by (auto simp: dec_run_send_done_def PacketProtoDecoder_output_handler_done_def dec_after_def
        result_simps dest!: process_data_mtu)
qed (auto simp: dec_run_recv_operation_def source_delivers_def dec_run_send_operation_def sink_takes_def
       result_simps split: option.splits)

lemma dec_reach_mtu: "dec_reach s t \<Longrightarrow> dec_output_mtu (ds_dec t) = dec_output_mtu (ds_dec s)"
  by (induction rule: dec_reach.induct) (auto dest: dec_step_mtu)

lemma dec_inv_waiting:
  assumes "dec_inv s"
  shows "\<exists>rest. ds_in s = concat (map enc_frame (ds_out s)) @ rest \<and>
           (sri_state (dec_input (ds_dec s)) \<in> {STATE_OPERATION_PENDING, STATE_BUSY} \<longrightarrow>
              next_frame (dec_output_mtu (ds_dec s)) rest = Need_more)"
  using assms
proof (cases rule: dec_invE)
  case (receiving new)
  then show ?thesis by (auto simp: dec_receiving_def)
next
  case (sending d)
  then show ?thesis by (auto simp: dec_sending_def)
qed

text \<open>
  C18: The decoder, for any way in which the stream is cut into pieces and any order of the
  reactor's jobs: nothing that can happen next fails an assertion or leaves the buffer; something
  can always happen (it never asks its source for zero bytes); what it has received since the last
  error is the frames of the packets it has passed on followed by what is still to be decoded; and
  while it waits for data there is no complete packet among what is left.
\<close>

theorem PacketProtoDecoder_correct:
  assumes "PacketPassInterface_Init mtu = Inr outp"
    and alloc: "\<And>n m. alloc n = Some m \<Longrightarrow> length m = n"
    and init: "PacketProtoDecoder_Init alloc StreamRecvInterface_Init outp = Inr (Some e)"
    and reach: "dec_reach (dec_initial e) s"
  shows "(\<forall>r. dec_step s r \<longrightarrow> no_fault r) \<and> (\<exists>r. dec_step s r) \<and>
         (\<exists>rest. ds_in s = concat (map enc_frame (ds_out s)) @ rest \<and>
           (sri_state (dec_input (ds_dec s)) \<in> {STATE_OPERATION_PENDING, STATE_BUSY} \<longrightarrow>
              next_frame (min mtu 65535) rest = Need_more))"
proof -
  have i: "dec_inv (dec_initial e)" "dec_output_mtu e = min mtu 65535"
    using decoder_Init_inv [OF refl assms(1), of alloc] alloc init by auto
  then have inv: "dec_inv s" using dec_reach_inv [OF reach] by blast
  have mtu: "dec_output_mtu (ds_dec s) = min mtu 65535"
    using dec_reach_mtu [OF reach] i(2) by (simp add: dec_initial_def)
  show ?thesis
    using dec_step_inv [OF inv] dec_inv_progress [OF inv] dec_inv_waiting [OF inv] mtu
    by (auto simp: no_fault_iff)
qed

lemma Too_large_append: "next_frame mtu rest = Too_large \<Longrightarrow> next_frame mtu (rest @ future) = Too_large"
  by (auto simp: next_frame_def Let_def split: list.splits if_splits)

lemma frames_not_too_large:
  assumes "concat (map enc_frame outs) @ rest @ future = concat (map enc_frame pkts)"
    and "\<forall>d\<in>set outs. length d \<le> 65535" and "\<forall>d\<in>set pkts. int (length d) \<le> min mtu 65535"
  shows "next_frame (min mtu 65535) rest \<noteq> Too_large"
proof
  assume "next_frame (min mtu 65535) rest = Too_large"
  then have l: "next_frame (min mtu 65535) (rest @ future) = Too_large" by (rule Too_large_append)
  have "\<forall>d\<in>set pkts. length d \<le> 65535" using assms(3) by force
  then obtain ps where ps: "pkts = outs @ ps" "rest @ future = concat (map enc_frame ps)"
    using frames_unique [OF assms(1,2)] by blast
  show False
  proof (cases ps)
    case Nil
    then show ?thesis using l ps by (simp add: next_frame_def)
  next
    case (Cons p qs)
    then have "int (length p) \<le> min mtu 65535" using assms(3) ps(1) by simp
    then have "next_frame (min mtu 65535) (rest @ future) = Frame p (concat (map enc_frame qs))"
      using next_frame_enc [of p "min mtu 65535"] ps(2) Cons by simp
    with l show ?thesis by simp
  qed
qed

lemma dec_step_error:
  assumes inv: "dec_inv s" and step: "dec_step s (Inr t)" and err: "ds_errors t \<noteq> ds_errors s"
  shows "\<exists>rest. ds_in s = concat (map enc_frame (ds_out s)) @ rest \<and>
           next_frame (dec_output_mtu (ds_dec s)) rest = Too_large"
  using step
proof cases
  case 3
  then obtain t' e where "dec_run_recv_done s = Inr t'" "ds_errors t' \<noteq> ds_errors s \<longrightarrow>
      (\<exists>rest. ds_in s = concat (map enc_frame (ds_out s)) @ rest \<and> next_frame (dec_output_mtu (ds_dec s)) rest = Too_large)"
    using dec_run_recv_done_inv [OF inv] by blast
  with 3 err show ?thesis by auto
next
  case 6
  then obtain t' e where "dec_run_send_done s = Inr t'" "ds_errors t' \<noteq> ds_errors s \<longrightarrow>
      (\<exists>rest. ds_in s = concat (map enc_frame (ds_out s)) @ rest \<and> next_frame (dec_output_mtu (ds_dec s)) rest = Too_large)"
    using dec_run_send_done_inv [OF inv] by blast
  with 6 err show ?thesis by auto
qed (use err in \<open>auto simp: dec_run_recv_operation_def source_delivers_def dec_run_send_operation_def sink_takes_def
       result_simps split: option.splits\<close>)

text \<open>
  C17: Round trip over the stream. When the bytes that reach the decoder are the frames of a list
  of packets that fit its MTU, cut anywhere, the decoder never reports an error, passes on the
  packets of the list in order and unchanged, and has passed on all of them once all bytes have
  arrived and it waits for more.
\<close>

theorem PacketProto_stream_roundtrip:
  assumes "PacketPassInterface_Init mtu = Inr outp"
    and alloc: "\<And>n m. alloc n = Some m \<Longrightarrow> length m = n"
    and init: "PacketProtoDecoder_Init alloc StreamRecvInterface_Init outp = Inr (Some e)"
    and reach: "dec_reach (dec_initial e) s" and ok: "ds_errors s = 0"
    and pkts: "\<forall>d\<in>set pkts. int (length d) \<le> min mtu 65535"
    and stream: "ds_in s @ future = concat (map enc_frame pkts)"
  shows "prefix (ds_out s) pkts \<and> (\<forall>t. dec_step s (Inr t) \<longrightarrow> ds_errors t = 0) \<and>
         (future = [] \<and> sri_state (dec_input (ds_dec s)) \<in> {STATE_OPERATION_PENDING, STATE_BUSY} \<longrightarrow>
            ds_out s = pkts)"
proof -
  have i: "dec_inv (dec_initial e)" "dec_output_mtu e = min mtu 65535"
    using decoder_Init_inv [OF refl assms(1), of alloc] alloc init by auto
  then have inv: "dec_inv s" using dec_reach_inv [OF reach] by blast
  have mtu: "dec_output_mtu (ds_dec s) = min mtu 65535"
    using dec_reach_mtu [OF reach] i(2) by (simp add: dec_initial_def)
  have outs: "\<forall>d\<in>set (ds_out s). length d \<le> 65535" using inv by (simp add: dec_inv_def)
  have p16: "\<forall>d\<in>set pkts. length d \<le> 65535" using pkts by force
  obtain rest where rest: "ds_in s = concat (map enc_frame (ds_out s)) @ rest"
    "sri_state (dec_input (ds_dec s)) \<in> {STATE_OPERATION_PENDING, STATE_BUSY} \<Longrightarrow>
       next_frame (min mtu 65535) rest = Need_more"
    using dec_inv_waiting [OF inv] mtu by metis
  obtain ps where ps: "pkts = ds_out s @ ps" "rest @ future = concat (map enc_frame ps)"
    using frames_unique [of "ds_out s" "rest @ future" pkts] stream rest(1) outs p16 by auto
  have noerr: "ds_errors t = 0" if step: "dec_step s (Inr t)" for t
  proof (rule ccontr)
    assume "ds_errors t \<noteq> 0"
    then obtain r where "ds_in s = concat (map enc_frame (ds_out s)) @ r" "next_frame (min mtu 65535) r = Too_large"
      using dec_step_error [OF inv step] ok mtu by auto
    then show False using frames_not_too_large [of "ds_out s" r future pkts mtu] stream outs pkts by auto
  qed
  have "ds_out s = pkts" if f: "future = []" and w: "sri_state (dec_input (ds_dec s)) \<in> {STATE_OPERATION_PENDING, STATE_BUSY}"
  proof (cases ps)
    case (Cons p qs)
    then have "next_frame (min mtu 65535) rest = Frame p (concat (map enc_frame qs))"
      using next_frame_enc [of p "min mtu 65535"] ps f pkts by simp
    with rest(2) [OF w] show ?thesis by simp
  qed (use ps in simp)
  then show ?thesis using ps(1) noerr by (auto simp: prefix_def)
qed


subsection \<open>Concrete instances\<close>

definition ex_enc :: PacketProtoEncoder where
  "ex_enc = \<lparr> enc_input = projr (PacketRecvInterface_Init 10),
     enc_output = (projr (PacketRecvInterface_Init 12))\<lparr>pri_state := STATE_BUSY\<rparr>, enc_output_packet = Some 4 \<rparr>"

theorem PacketProtoEncoder_frames_witness:
  "\<exists>enc' mem'. PacketProtoEncoder_input_handler_done ex_enc [0, 0, 0, 0, 0, 0, 7, 8, 9, 1] 3 = Inr (enc', mem') \<and>
     mem_read mem' 4 5 = Inr [3, 0, 7, 8, 9]"
proof -
  let ?mem = "[0, 0, 0, 0, 0, 0, 7, 8, 9, 1] :: bytes" and ?d = "[7, 8, 9] :: bytes"
  have h: "enc_output_packet ex_enc = Some 4" "(0 :: int) \<le> 4" "mem_read ?mem (nat 4 + 2) (length ?d) = Inr ?d"
    "int (length ?d) \<le> 10" "10 \<le> PACKETPROTO_MAXPAYLOAD" "pri_state (enc_output ex_enc) = STATE_BUSY"
    "pri_mtu (enc_output ex_enc) = PACKETPROTO_ENCLEN 10"
    by (simp_all add: ex_enc_def mem_read_def PACKETPROTO_MAXPAYLOAD_def UINT16_MAX_def PACKETPROTO_ENCLEN_def
        PacketRecvInterface_Init_def)
  have "\<exists>enc' mem'. PacketProtoEncoder_input_handler_done ex_enc ?mem (int (length ?d)) = Inr (enc', mem') \<and>
      mem_read mem' (nat 4) (length (enc_frame ?d)) = Inr (enc_frame ?d)"
    using PacketProtoEncoder_frames [OF h] by blast
  moreover have "length (enc_frame ?d) = 5" "enc_frame ?d = [3, 0, 7, 8, 9]" by code_simp+
  ultimately show ?thesis by (simp only: list.size) simp
qed

definition ex_sink :: "int PacketPassInterface" where
  "ex_sink = projr (PacketPassInterface_Init 10)"

definition ex_decoder :: PacketProtoDecoder where
  "ex_decoder = the (projr (PacketProtoDecoder_Init (\<lambda>n. Some (replicate n 0)) StreamRecvInterface_Init ex_sink))"

lemma ex_decoder_init:
  "PacketPassInterface_Init 10 = Inr ex_sink"
  "PacketProtoDecoder_Init (\<lambda>n. Some (replicate n 0)) StreamRecvInterface_Init ex_sink = Inr (Some ex_decoder)"
  by (simp_all add: ex_sink_def ex_decoder_def PacketPassInterface_Init_def PacketProtoDecoder_Init_def
      StreamRecvInterface_Receiver_Init_def PacketPassInterface_Sender_Init_def StreamRecvInterface_Receiver_Recv_def
      PACKETPROTO_ENCLEN_def PACKETPROTO_MAXPAYLOAD_def UINT16_MAX_def PacketPassInterface_GetMTU_def
      StreamRecvInterface_Init_def Let_def)

text \<open>The decoder after its source has been asked for data and has delivered the first byte of a header.\<close>

definition ex_dec_sys :: dec_sys where
  "ex_dec_sys = projr (andthen (andthen (dec_run_recv_operation (dec_initial ex_decoder))
      (\<lambda>s. source_delivers s [3])) dec_run_recv_done)"

lemma ex_dec_sys_reach: "dec_reach (dec_initial ex_decoder) ex_dec_sys" "ds_errors ex_dec_sys = 0" "ds_in ex_dec_sys = [3]"
proof -
  define s1 where "s1 = projr (dec_run_recv_operation (dec_initial ex_decoder))"
  define s2 where "s2 = projr (source_delivers s1 [3])"
  have j0: "sri_job_operation (dec_input (ds_dec (dec_initial ex_decoder)))"
    and e1: "dec_run_recv_operation (dec_initial ex_decoder) = Inr s1" unfolding s1_def by code_simp+
  have j1: "sri_state (dec_input (ds_dec s1)) = STATE_BUSY" "1 \<le> sri_job_operation_len (dec_input (ds_dec s1))"
    and e2: "source_delivers s1 [3] = Inr s2" unfolding s2_def s1_def by code_simp+
  have j2: "sri_job_done (dec_input (ds_dec s2))" and e3: "dec_run_recv_done s2 = Inr ex_dec_sys"
    unfolding ex_dec_sys_def e1 andthen_Inr e2 unfolding s2_def s1_def by code_simp+
  have r1: "dec_reach (dec_initial ex_decoder) s1"
    using dec_step.intros(1) [OF j0] by (intro dec_trans [OF dec_refl]) (simp add: e1)
  have r2: "dec_reach (dec_initial ex_decoder) s2"
    using dec_step.intros(2) [OF j1(1), of "[3]"] j1(2) by (intro dec_trans [OF r1]) (simp add: e2)
  show "dec_reach (dec_initial ex_decoder) ex_dec_sys"
    using dec_step.intros(3) [OF j2] by (intro dec_trans [OF r2]) (simp add: e3)
  show "ds_errors ex_dec_sys = 0" "ds_in ex_dec_sys = [3]" by code_simp+
qed

theorem PacketProtoDecoder_correct_witness:
  "\<exists>r. dec_step ex_dec_sys r \<and> no_fault r"
  using PacketProtoDecoder_correct [OF ex_decoder_init(1) _ ex_decoder_init(2) ex_dec_sys_reach(1)] by auto

theorem PacketProto_stream_roundtrip_witness:
  "prefix (ds_out ex_dec_sys) [[7, 8, 9], []]"
  using PacketProto_stream_roundtrip [OF ex_decoder_init(1) _ ex_decoder_init(2) ex_dec_sys_reach(1,2),
      of "[[7, 8, 9], []]" "[0, 7, 8, 9, 0, 0]"] ex_dec_sys_reach(3)
  by (simp add: enc_frame_def packetproto_header_bytes_def htol16_def u16_bytes_def)

end
