(* ===== verification/Flow_Parts.thy ===== *)
theory Flow_Parts
  imports Packet_Buffer Packet_Proto
begin

section \<open>The small flow components\<close>

text \<open>
  \<^item> \<^verbatim>\<open>flow/PacketStreamSender.c\<close> turns packets into a stream: it passes each packet to a stream
    interface that may take any number of its bytes at a time.
  \<^item> \<^verbatim>\<open>flow/BufferWriter.c\<close> lets a component write a packet when the consumer has asked for one.
  \<^item> \<^verbatim>\<open>flow/SinglePacketBuffer.c\<close> is a buffer of one packet.
  \<^item> \<^verbatim>\<open>flow/PacketPassConnector.c\<close> is a packet interface whose output comes and goes.
  \<^item> \<^verbatim>\<open>flowextra/PacketPassInactivityMonitor.c\<close> passes packets through and reports when none passed for
    some time.
  \<^item> \<^verbatim>\<open>flow/PacketProtoFlow.c\<close> is a buffer writer, an encoder and a packet buffer in a row.

  Pointers are offsets into the memory of the component that owns the data.
\<close>

subsection \<open>PacketStreamSender\<close>

record PacketStreamSender =
  pss_input :: "int PacketPassInterface"
  pss_output :: "int StreamPassInterface"
  pss_in_len :: int
  pss_in :: "int option"
  pss_in_used :: int

definition pss_send_data :: "PacketStreamSender \<Rightarrow> PacketStreamSender result" where
  "pss_send_data s =
     ASSERT (pss_in_len s \<ge> 0)
     (if pss_in_used s < pss_in_len s
      then andthen (StreamPassInterface_Sender_Send (pss_output s) (map_option (\<lambda>p. p + pss_in_used s) (pss_in s))
                      (pss_in_len s - pss_in_used s)) (\<lambda>outp. Inr (s\<lparr>pss_output := outp\<rparr>))
      else andthen (PacketPassInterface_Done (pss_input s)) (\<lambda>i. Inr (s\<lparr>pss_in_len := - 1, pss_input := i\<rparr>)))"

definition pss_input_handler_send :: "PacketStreamSender \<Rightarrow> int option \<Rightarrow> int \<Rightarrow> PacketStreamSender result" where
  "pss_input_handler_send s data data_len =
     ASSERT (pss_in_len s = - 1) (ASSERT (data_len \<ge> 0)
     (pss_send_data (s\<lparr>pss_in_len := data_len, pss_in := data, pss_in_used := 0\<rparr>)))"

definition pss_output_handler_done :: "PacketStreamSender \<Rightarrow> int \<Rightarrow> PacketStreamSender result" where
  "pss_output_handler_done s data_len =
     ASSERT (pss_in_len s \<ge> 0) (ASSERT (data_len > 0) (ASSERT (data_len \<le> pss_in_len s - pss_in_used s)
     (pss_send_data (s\<lparr>pss_in_used := pss_in_used s + data_len\<rparr>))))"

definition PacketStreamSender_Init :: "int StreamPassInterface \<Rightarrow> int \<Rightarrow> PacketStreamSender result" where
  "PacketStreamSender_Init outp mtu =
     ASSERT (mtu \<ge> 0)
     (andthen (PacketPassInterface_Init mtu) (\<lambda>i.
      andthen (StreamPassInterface_Sender_Init outp) (\<lambda>outp.
      Inr \<lparr> pss_input = i, pss_output = outp, pss_in_len = - 1, pss_in = None, pss_in_used = 0 \<rparr>)))"

definition PacketStreamSender_GetInput :: "PacketStreamSender \<Rightarrow> int PacketPassInterface" where
  "PacketStreamSender_GetInput s = pss_input s"

subsection \<open>BufferWriter\<close>

record BufferWriter =
  bw_recv_interface :: "int PacketRecvInterface"
  bw_out_have :: bool
  bw_out :: "int option"
  bw_d_mtu :: int
  bw_d_writing :: bool

definition bw_output_handler_recv :: "BufferWriter \<Rightarrow> int option \<Rightarrow> BufferWriter result" where
  "bw_output_handler_recv b data = ASSERT (\<not> bw_out_have b) (Inr (b\<lparr>bw_out_have := True, bw_out := data\<rparr>))"

definition BufferWriter_Init :: "int \<Rightarrow> BufferWriter result" where
  "BufferWriter_Init mtu =
     ASSERT (mtu \<ge> 0)
     (andthen (PacketRecvInterface_Init mtu) (\<lambda>i.
      Inr \<lparr> bw_recv_interface = i, bw_out_have = False, bw_out = None, bw_d_mtu = mtu, bw_d_writing = False \<rparr>))"

definition BufferWriter_GetOutput :: "BufferWriter \<Rightarrow> int PacketRecvInterface" where
  "BufferWriter_GetOutput b = bw_recv_interface b"

text \<open>\<open>None\<close> is the return value 0; otherwise the position to write to.\<close>

definition BufferWriter_StartPacket :: "BufferWriter \<Rightarrow> (BufferWriter \<times> int option option) result" where
  "BufferWriter_StartPacket b =
     ASSERT (\<not> bw_d_writing b)
     (if \<not> bw_out_have b then Inr (b, None)
      else Inr (b\<lparr>bw_d_writing := True\<rparr>, Some (bw_out b)))"

definition BufferWriter_EndPacket :: "BufferWriter \<Rightarrow> int \<Rightarrow> BufferWriter result" where
  "BufferWriter_EndPacket b len =
     ASSERT (len \<ge> 0) (ASSERT (len \<le> bw_d_mtu b) (ASSERT (bw_out_have b) (ASSERT (bw_d_writing b)
     (andthen (PacketRecvInterface_Done (bw_recv_interface b) len) (\<lambda>i.
      Inr (b\<lparr>bw_out_have := False, bw_recv_interface := i, bw_d_writing := False\<rparr>))))))"

subsection \<open>SinglePacketBuffer\<close>

text \<open>The buffer is the memory block \<open>spb_buf\<close>; the pointer to it is position 0.\<close>

record SinglePacketBuffer =
  spb_input :: "int PacketRecvInterface"
  spb_output :: "int PacketPassInterface"
  spb_buf :: bytes

definition spb_input_handler_done :: "SinglePacketBuffer \<Rightarrow> int \<Rightarrow> SinglePacketBuffer result" where
  "spb_input_handler_done b in_len =
     andthen (PacketPassInterface_Sender_Send (spb_output b) (Some 0) in_len) (\<lambda>i. Inr (b\<lparr>spb_output := i\<rparr>))"

definition spb_output_handler_done :: "SinglePacketBuffer \<Rightarrow> SinglePacketBuffer result" where
  "spb_output_handler_done b =
     andthen (PacketRecvInterface_Receiver_Recv (spb_input b) (Some 0)) (\<lambda>i. Inr (b\<lparr>spb_input := i\<rparr>))"

definition SinglePacketBuffer_Init :: "(nat \<Rightarrow> bytes option) \<Rightarrow> int PacketRecvInterface \<Rightarrow> int PacketPassInterface \<Rightarrow>
    SinglePacketBuffer option result" where
  "SinglePacketBuffer_Init alloc inp outp =
     ASSERT (PacketPassInterface_GetMTU outp \<ge> PacketRecvInterface_GetMTU inp)
     (andthen (PacketRecvInterface_Receiver_Init inp) (\<lambda>inp.
      andthen (PacketPassInterface_Sender_Init outp) (\<lambda>outp.
      case alloc (nat (PacketRecvInterface_GetMTU inp)) of None \<Rightarrow> Inr None
      | Some buf \<Rightarrow>
          andthen (PacketRecvInterface_Receiver_Recv inp (Some 0)) (\<lambda>inp.
          Inr (Some \<lparr> spb_input = inp, spb_output = outp, spb_buf = buf \<rparr>)))))"

subsection \<open>PacketPassConnector\<close>

record PacketPassConnector =
  ppc_input :: "int PacketPassInterface"
  ppc_input_mtu :: int
  ppc_in_len :: int
  ppc_in :: "int option"
  ppc_output :: "int PacketPassInterface option"

definition ppc_input_handler_send :: "PacketPassConnector \<Rightarrow> int option \<Rightarrow> int \<Rightarrow> PacketPassConnector result" where
  "ppc_input_handler_send c data data_len =
     ASSERT (data_len \<ge> 0) (ASSERT (data_len \<le> ppc_input_mtu c) (ASSERT (ppc_in_len c = - 1)
     (let c = c\<lparr>ppc_in_len := data_len, ppc_in := data\<rparr> in
      case ppc_output c of None \<Rightarrow> Inr c
      | Some outp \<Rightarrow> andthen (PacketPassInterface_Sender_Send outp (ppc_in c) (ppc_in_len c))
          (\<lambda>outp. Inr (c\<lparr>ppc_output := Some outp\<rparr>)))))"

definition ppc_output_handler_done :: "PacketPassConnector \<Rightarrow> PacketPassConnector result" where
  "ppc_output_handler_done c =
     ASSERT (ppc_in_len c \<ge> 0) (ASSERT (ppc_output c \<noteq> None)
     (andthen (PacketPassInterface_Done (ppc_input c)) (\<lambda>i.
      Inr (c\<lparr>ppc_in_len := - 1, ppc_input := i\<rparr>))))"

definition PacketPassConnector_Init :: "int \<Rightarrow> PacketPassConnector result" where
  "PacketPassConnector_Init mtu =
     ASSERT (mtu \<ge> 0)
     (andthen (PacketPassInterface_Init mtu) (\<lambda>i.
      Inr \<lparr> ppc_input = i, ppc_input_mtu = mtu, ppc_in_len = - 1, ppc_in = None, ppc_output = None \<rparr>))"

definition PacketPassConnector_GetInput :: "PacketPassConnector \<Rightarrow> int PacketPassInterface" where
  "PacketPassConnector_GetInput c = ppc_input c"

definition PacketPassConnector_ConnectOutput :: "PacketPassConnector \<Rightarrow> int PacketPassInterface \<Rightarrow> PacketPassConnector result" where
  "PacketPassConnector_ConnectOutput c outp =
     ASSERT (ppc_output c = None) (ASSERT (PacketPassInterface_GetMTU outp \<ge> ppc_input_mtu c)
     (andthen (PacketPassInterface_Sender_Init outp) (\<lambda>outp.
      andthen (if ppc_in_len c \<ge> 0 then PacketPassInterface_Sender_Send outp (ppc_in c) (ppc_in_len c) else Inr outp)
        (\<lambda>outp. Inr (c\<lparr>ppc_output := Some outp\<rparr>)))))"

definition PacketPassConnector_DisconnectOutput :: "PacketPassConnector \<Rightarrow> PacketPassConnector result" where
  "PacketPassConnector_DisconnectOutput c = ASSERT (ppc_output c \<noteq> None) (Inr (c\<lparr>ppc_output := None\<rparr>))"

subsection \<open>PacketPassInactivityMonitor\<close>

text \<open>
  \<open>pim_timer\<close> tells whether the timer is running. The boolean result of the timer's handler tells
  whether the user's handler is called.
\<close>

record PacketPassInactivityMonitor =
  pim_output :: "int PacketPassInterface"
  pim_handler :: bool
  pim_input :: "int PacketPassInterface"
  pim_timer :: bool

definition pim_input_handler_send :: "PacketPassInactivityMonitor \<Rightarrow> int option \<Rightarrow> int \<Rightarrow> PacketPassInactivityMonitor result" where
  "pim_input_handler_send p data data_len =
     andthen (PacketPassInterface_Sender_Send (pim_output p) data data_len) (\<lambda>outp.
     Inr (p\<lparr>pim_output := outp, pim_timer := False\<rparr>))"

definition pim_input_handler_requestcancel :: "PacketPassInactivityMonitor \<Rightarrow> PacketPassInactivityMonitor result" where
  "pim_input_handler_requestcancel p =
     andthen (PacketPassInterface_Sender_RequestCancel (pim_output p)) (\<lambda>outp. Inr (p\<lparr>pim_output := outp\<rparr>))"

definition pim_output_handler_done :: "PacketPassInactivityMonitor \<Rightarrow> PacketPassInactivityMonitor result" where
  "pim_output_handler_done p =
     (let p = p\<lparr>pim_timer := True\<rparr> in
      andthen (PacketPassInterface_Done (pim_input p)) (\<lambda>i. Inr (p\<lparr>pim_input := i\<rparr>)))"

definition pim_timer_handler :: "PacketPassInactivityMonitor \<Rightarrow> PacketPassInactivityMonitor \<times> bool" where
  "pim_timer_handler p = (p\<lparr>pim_timer := True\<rparr>, pim_handler p)"

definition PacketPassInactivityMonitor_Init :: "int PacketPassInterface \<Rightarrow> bool \<Rightarrow> PacketPassInactivityMonitor result" where
  "PacketPassInactivityMonitor_Init outp handler =
     andthen (PacketPassInterface_Init (PacketPassInterface_GetMTU outp)) (\<lambda>i.
     andthen (if PacketPassInterface_HasCancel outp then PacketPassInterface_EnableCancel i else Inr i) (\<lambda>i.
     andthen (PacketPassInterface_Sender_Init outp) (\<lambda>outp.
     Inr \<lparr> pim_output = outp, pim_handler = handler, pim_input = i, pim_timer = True \<rparr>)))"

definition PacketPassInactivityMonitor_SetHandler :: "PacketPassInactivityMonitor \<Rightarrow> bool \<Rightarrow> PacketPassInactivityMonitor" where
  "PacketPassInactivityMonitor_SetHandler p handler = p\<lparr>pim_handler := handler\<rparr>"

definition PacketPassInactivityMonitor_Force :: "PacketPassInactivityMonitor \<Rightarrow> PacketPassInactivityMonitor" where
  "PacketPassInactivityMonitor_Force p = p\<lparr>pim_timer := True\<rparr>"

subsection \<open>PacketProtoFlow\<close>

text \<open>
  The interface between two parts is one object of the C program; here each part has the copy that
  its \<open>Init\<close> leaves, and the buffer's input is the encoder's output.
\<close>

record PacketProtoFlow =
  ppf_ainput :: BufferWriter
  ppf_encoder :: PacketProtoEncoder
  ppf_buffer :: PacketBuffer

definition PacketProtoFlow_Init :: "(nat \<Rightarrow> bytes option) \<Rightarrow> int \<Rightarrow> int \<Rightarrow> int PacketPassInterface \<Rightarrow> PacketProtoFlow option result" where
  "PacketProtoFlow_Init alloc input_mtu num_packets outp =
     ASSERT (input_mtu \<ge> 0) (ASSERT (input_mtu \<le> PACKETPROTO_MAXPAYLOAD) (ASSERT (num_packets > 0)
     (ASSERT (PacketPassInterface_GetMTU outp \<ge> PACKETPROTO_ENCLEN input_mtu)
     (andthen (BufferWriter_Init input_mtu) (\<lambda>ainput.
      andthen (PacketProtoEncoder_Init (BufferWriter_GetOutput ainput)) (\<lambda>encoder.
      andthen (PacketBuffer_Init alloc (enc_output encoder) outp num_packets) (\<lambda>r.
      case r of None \<Rightarrow> Inr None
      | Some buffer \<Rightarrow> Inr (Some \<lparr> ppf_ainput = ainput\<lparr>bw_recv_interface := enc_input encoder\<rparr>,
           ppf_encoder = encoder\<lparr>enc_output := pb_input buffer\<rparr>, ppf_buffer = buffer \<rparr>)))))))) "

definition PacketProtoFlow_GetInput :: "PacketProtoFlow \<Rightarrow> BufferWriter" where
  "PacketProtoFlow_GetInput p = ppf_ainput p"

subsection \<open>Packets become a stream\<close>

definition spi_inv :: "'p StreamPassInterface \<Rightarrow> bool" where
  "spi_inv i \<longleftrightarrow> spi_handler_done i \<and>
     (spi_job_operation i \<longleftrightarrow> spi_state i = STATE_OPERATION_PENDING) \<and>
     (spi_job_done i \<longleftrightarrow> spi_state i = STATE_DONE_PENDING)"

text \<open>
  \<open>pss_inv s mem rest\<close>: \<open>rest\<close> are the bytes of the packet in progress, which is in the memory \<open>mem\<close>,
  that the stream has not taken yet.
\<close>

definition pss_busy :: "PacketStreamSender \<Rightarrow> bytes \<Rightarrow> bytes \<Rightarrow> int \<Rightarrow> bool" where
  "pss_busy s mem rest off \<longleftrightarrow> pss_in s = Some off \<and> 0 \<le> off \<and> nat off + nat (pss_in_len s) \<le> length mem \<and>
     0 \<le> pss_in_used s \<and> pss_in_used s < pss_in_len s \<and>
     spi_state (pss_output s) \<noteq> STATE_NONE \<and>
     spi_job_operation_data (pss_output s) = Some (off + pss_in_used s) \<and>
     spi_job_operation_len (pss_output s) = pss_in_len s - pss_in_used s \<and>
     (if spi_state (pss_output s) = STATE_DONE_PENDING
      then 0 < spi_job_done_len (pss_output s) \<and> spi_job_done_len (pss_output s) \<le> pss_in_len s - pss_in_used s \<and>
           rest = take (nat (pss_in_len s - (pss_in_used s + spi_job_done_len (pss_output s))))
                    (drop (nat (off + pss_in_used s + spi_job_done_len (pss_output s))) mem)
      else rest = take (nat (pss_in_len s - pss_in_used s)) (drop (nat (off + pss_in_used s)) mem))"

definition pss_inv :: "PacketStreamSender \<Rightarrow> bytes \<Rightarrow> bytes \<Rightarrow> bool" where
  "pss_inv s mem rest \<longleftrightarrow> ppi_inv (pss_input s) \<and> ppi_handler_done (pss_input s) \<and> spi_inv (pss_output s) \<and>
     (case ppi_state (pss_input s) of
        STATE_BUSY \<Rightarrow> \<exists>off. pss_busy s mem rest off
      | STATE_OPERATION_PENDING \<Rightarrow> pss_in_len s = - 1 \<and> spi_state (pss_output s) = STATE_NONE \<and>
          (\<exists>off. ppi_job_operation_data (pss_input s) = Some off \<and> 0 \<le> off \<and>
             nat off + nat (ppi_job_operation_len (pss_input s)) \<le> length mem \<and>
             rest = take (nat (ppi_job_operation_len (pss_input s))) (drop (nat off) mem))
      | _ \<Rightarrow> pss_in_len s = - 1 \<and> spi_state (pss_output s) = STATE_NONE \<and> rest = [])"

text \<open>The steps of a sender among its user, the stream's provider and the reactor.\<close>

definition pss_user_send :: "PacketStreamSender \<Rightarrow> int \<Rightarrow> int \<Rightarrow> PacketStreamSender result" where
  "pss_user_send s off len =
     andthen (PacketPassInterface_Sender_Send (pss_input s) (Some off) len) (\<lambda>i. Inr (s\<lparr>pss_input := i\<rparr>))"

definition pss_run_operation :: "PacketStreamSender \<Rightarrow> PacketStreamSender result" where
  "pss_run_operation s =
     andthen (PacketPassInterface_job_operation (pss_input s)) (\<lambda>(i, data, data_len).
     pss_input_handler_send (s\<lparr>pss_input := i\<rparr>) data data_len)"

definition pss_run_done :: "PacketStreamSender \<Rightarrow> PacketStreamSender result" where
  "pss_run_done s = andthen (PacketPassInterface_job_done (pss_input s)) (\<lambda>i. Inr (s\<lparr>pss_input := i\<rparr>))"

definition pss_stream_take :: "PacketStreamSender \<Rightarrow> PacketStreamSender result" where
  "pss_stream_take s = andthen (StreamPassInterface_job_operation (pss_output s)) (\<lambda>(i, _, _). Inr (s\<lparr>pss_output := i\<rparr>))"

definition pss_stream_sent :: "PacketStreamSender \<Rightarrow> bytes \<Rightarrow> nat \<Rightarrow> (PacketStreamSender \<times> bytes) result" where
  "pss_stream_sent s mem k =
     (case spi_job_operation_data (pss_output s) of None \<Rightarrow> Inl Out_of_bounds
      | Some off \<Rightarrow> andthen (mem_read mem (nat off) k) (\<lambda>bs.
          andthen (StreamPassInterface_Done (pss_output s) (int k)) (\<lambda>i. Inr (s\<lparr>pss_output := i\<rparr>, bs))))"

definition pss_stream_done :: "PacketStreamSender \<Rightarrow> PacketStreamSender result" where
  "pss_stream_done s =
     andthen (StreamPassInterface_job_done (pss_output s)) (\<lambda>(i, data_len).
     pss_output_handler_done (s\<lparr>pss_output := i\<rparr>) data_len)"

lemma PacketStreamSender_Init_inv:
  assumes "PacketStreamSender_Init outp mtu = Inr s" "spi_state outp = STATE_NONE" "\<not> spi_job_operation outp" "\<not> spi_job_done outp"
    "PacketPassInterface_Sender_Init (pss_input s) = Inr i"
  shows "pss_inv (s\<lparr>pss_input := i\<rparr>) mem [] \<and> ppi_state i = STATE_NONE \<and> ppi_mtu i = mtu"
  using assms
  by (auto simp: PacketStreamSender_Init_def PacketPassInterface_Init_def StreamPassInterface_Sender_Init_def
      PacketPassInterface_Sender_Init_def result_simps pss_inv_def ppi_inv_def spi_inv_def)

lemma pss_user_send_inv:
  assumes "pss_inv s mem0 rest" "ppi_state (pss_input s) = STATE_NONE"
    "0 \<le> off" "0 \<le> len" "len \<le> ppi_mtu (pss_input s)" "nat off + nat len \<le> length mem"
  shows "\<exists>s'. pss_user_send s off len = Inr s' \<and> pss_inv s' mem (take (nat len) (drop (nat off) mem)) \<and>
    ppi_state (pss_input s') = STATE_OPERATION_PENDING \<and> ppi_mtu (pss_input s') = ppi_mtu (pss_input s)"
  using assms
  by (auto simp: pss_user_send_def PacketPassInterface_Sender_Send_def pss_inv_def ppi_inv_def)

lemma pss_run_operation_inv:
  assumes inv: "pss_inv s mem rest" and job: "ppi_job_operation (pss_input s)"
  shows "\<exists>s'. pss_run_operation s = Inr s' \<and> pss_inv s' mem rest \<and> ppi_mtu (pss_input s') = ppi_mtu (pss_input s) \<and>
    ppi_state (pss_input s') \<noteq> STATE_NONE"
proof -
  let ?i = "pss_input s" and ?len = "ppi_job_operation_len (pss_input s)"
  have st: "ppi_state ?i = STATE_OPERATION_PENDING" using inv job by (simp add: pss_inv_def ppi_inv_def)
  obtain off where off: "ppi_job_operation_data ?i = Some off" "0 \<le> off" "nat off + nat ?len \<le> length mem"
    "rest = take (nat ?len) (drop (nat off) mem)" "pss_in_len s = - 1" "spi_state (pss_output s) = STATE_NONE"
    using inv st by (auto simp: pss_inv_def)
  have len: "0 \<le> ?len" using inv st by (simp add: pss_inv_def ppi_inv_def)
  have p: "spi_inv (pss_output s)" "ppi_inv ?i" "ppi_handler_done ?i" using inv by (simp_all add: pss_inv_def)
  show ?thesis
  proof (cases "?len = 0")
    case True
    then show ?thesis using st off p
      by (simp add: pss_run_operation_def PacketPassInterface_job_operation_def pss_input_handler_send_def pss_send_data_def
          PacketPassInterface_Done_def pss_inv_def ppi_inv_def)
  next
    case False
    then show ?thesis using st off p len
      by (simp add: pss_run_operation_def PacketPassInterface_job_operation_def pss_input_handler_send_def pss_send_data_def
          StreamPassInterface_Sender_Send_def pss_inv_def ppi_inv_def spi_inv_def)
         (intro exI [of _ off], simp add: pss_busy_def)
  qed
qed

lemma pss_run_done_inv:
  assumes "pss_inv s mem rest" "ppi_job_done (pss_input s)"
  shows "\<exists>s'. pss_run_done s = Inr s' \<and> pss_inv s' mem rest \<and> rest = [] \<and> ppi_state (pss_input s') = STATE_NONE \<and>
    ppi_mtu (pss_input s') = ppi_mtu (pss_input s)"
  using assms
  by (auto simp: pss_run_done_def PacketPassInterface_job_done_def pss_inv_def ppi_inv_def)

text \<open>While the stream has an operation, the input is busy.\<close>

lemma pss_busyE:
  assumes "pss_inv s mem rest" "spi_state (pss_output s) \<noteq> STATE_NONE"
  obtains off where "pss_busy s mem rest off" "ppi_state (pss_input s) = STATE_BUSY"
  using assms by (auto simp: pss_inv_def split: interface_state.splits)

lemma pss_stream_take_inv:
  assumes inv: "pss_inv s mem rest" and job: "spi_job_operation (pss_output s)"
  shows "\<exists>s'. pss_stream_take s = Inr s' \<and> pss_inv s' mem rest \<and> pss_input s' = pss_input s \<and> rest \<noteq> []"
proof -
  have st: "spi_state (pss_output s) = STATE_OPERATION_PENDING" using inv job by (simp add: pss_inv_def spi_inv_def)
  then obtain off where b: "pss_busy s mem rest off" "ppi_state (pss_input s) = STATE_BUSY"
    using pss_busyE [OF inv] by auto
  have "pss_busy (s\<lparr>pss_output := (pss_output s)\<lparr>spi_job_operation := False, spi_state := STATE_BUSY\<rparr>\<rparr>) mem rest off"
    using b st by (simp add: pss_busy_def)
  moreover have "rest \<noteq> []" using b(1) st by (auto simp: pss_busy_def)
  ultimately show ?thesis using inv st b(2)
    by (auto simp: pss_stream_take_def StreamPassInterface_job_operation_def pss_inv_def spi_inv_def)
qed

lemma pss_stream_sent_inv:
  assumes inv: "pss_inv s mem rest" and st: "spi_state (pss_output s) = STATE_BUSY"
    and k: "0 < k" "int k \<le> spi_job_operation_len (pss_output s)"
  shows "\<exists>s'. pss_stream_sent s mem k = Inr (s', take k rest) \<and> pss_inv s' mem (drop k rest) \<and> pss_input s' = pss_input s"
proof -
  obtain off where b: "pss_busy s mem rest off" "ppi_state (pss_input s) = STATE_BUSY"
    using pss_busyE [OF inv] st by auto
  define i where "i = (pss_output s)\<lparr>spi_job_done_len := int k, spi_job_done := True, spi_state := STATE_DONE_PENDING\<rparr>"
  have le: "k \<le> nat (pss_in_len s - pss_in_used s)" and r: "rest = take (nat (pss_in_len s - pss_in_used s)) (drop (nat (off + pss_in_used s)) mem)"
    and len: "nat (off + pss_in_used s) + nat (pss_in_len s - pss_in_used s) \<le> length mem"
    and dat: "spi_job_operation_data (pss_output s) = Some (off + pss_in_used s)"
    using b(1) st k by (auto simp: pss_busy_def)
  have rd: "mem_read mem (nat (off + pss_in_used s)) k = Inr (take k rest)"
    using le len by (simp add: mem_read_def r min_absorb1)
  have "drop k rest = take (nat (pss_in_len s - (pss_in_used s + int k))) (drop (nat (off + pss_in_used s + int k)) mem)"
  proof -
    have "nat (off + pss_in_used s + int k) = k + nat (off + pss_in_used s)"
      "nat (pss_in_len s - (pss_in_used s + int k)) = nat (pss_in_len s - pss_in_used s) - k"
      using b(1) k by (auto simp: pss_busy_def)
    then show ?thesis by (simp add: r drop_take)
  qed
  then have "pss_busy (s\<lparr>pss_output := i\<rparr>) mem (drop k rest) off"
    using b(1) k by (simp add: pss_busy_def i_def)
  then have "pss_inv (s\<lparr>pss_output := i\<rparr>) mem (drop k rest)"
    using inv b(2) st by (auto simp: pss_inv_def spi_inv_def i_def)
  moreover have "pss_stream_sent s mem k = Inr (s\<lparr>pss_output := i\<rparr>, take k rest)"
    using rd k st dat by (simp add: pss_stream_sent_def StreamPassInterface_Done_def i_def)
  ultimately show ?thesis by simp
qed

lemma pss_stream_done_inv:
  assumes inv: "pss_inv s mem rest" and job: "spi_job_done (pss_output s)"
  shows "\<exists>s'. pss_stream_done s = Inr s' \<and> pss_inv s' mem rest \<and> ppi_mtu (pss_input s') = ppi_mtu (pss_input s) \<and>
    ppi_state (pss_input s') \<noteq> STATE_NONE"
proof -
  have st: "spi_state (pss_output s) = STATE_DONE_PENDING" using inv job by (simp add: pss_inv_def spi_inv_def)
  then obtain off where b: "pss_busy s mem rest off" "ppi_state (pss_input s) = STATE_BUSY"
    using pss_busyE [OF inv] by auto
  define k where "k = spi_job_done_len (pss_output s)"
  define outp where "outp = (pss_output s)\<lparr>spi_job_done := False, spi_state := STATE_NONE\<rparr>"
  have k: "0 < k" "k \<le> pss_in_len s - pss_in_used s" "0 \<le> pss_in_len s" "0 \<le> pss_in_used s"
    and r: "rest = take (nat (pss_in_len s - (pss_in_used s + k))) (drop (nat (off + pss_in_used s + k)) mem)"
    using b(1) st by (auto simp: pss_busy_def k_def)
  have p: "spi_inv (pss_output s)" "ppi_inv (pss_input s)" "ppi_handler_done (pss_input s)" using inv by (simp_all add: pss_inv_def)
  have run: "pss_stream_done s = pss_send_data (s\<lparr>pss_output := outp, pss_in_used := pss_in_used s + k\<rparr>)"
    using st k by (simp add: pss_stream_done_def StreamPassInterface_job_done_def pss_output_handler_done_def outp_def k_def)
  show ?thesis
  proof (cases "pss_in_used s + k = pss_in_len s")
    case True
    then show ?thesis using run b(2) r p k st
      by (auto simp: pss_send_data_def PacketPassInterface_Done_def pss_inv_def ppi_inv_def spi_inv_def outp_def)
  next
    case False
    define outp2 where "outp2 = outp\<lparr>spi_job_operation_data := Some (off + (pss_in_used s + k)),
        spi_job_operation_len := pss_in_len s - (pss_in_used s + k), spi_job_operation := True, spi_state := STATE_OPERATION_PENDING\<rparr>"
    define s2 where "s2 = s\<lparr>pss_output := outp2, pss_in_used := pss_in_used s + k\<rparr>"
    have "pss_stream_done s = Inr s2"
      using run False k b(1) p by (simp add: pss_send_data_def StreamPassInterface_Sender_Send_def pss_busy_def outp_def outp2_def s2_def spi_inv_def)
    moreover have "pss_busy s2 mem rest off"
      using b(1) k r False by (simp add: pss_busy_def s2_def outp2_def add.assoc)
    ultimately show ?thesis using p b(2) st by (auto simp: pss_inv_def spi_inv_def s2_def outp2_def outp_def)
  qed
qed

text \<open>
  Histories of a sender: \<open>packets\<close> are the packets its user has handed over so far and \<open>out\<close> is what
  the stream has taken. The memory \<open>mem\<close> of a packet stays as it is until the user is told done.
\<close>

inductive pss_reach :: "PacketStreamSender \<Rightarrow> bytes \<Rightarrow> bytes list \<Rightarrow> bytes \<Rightarrow> bool" where
  pss_init: "PacketStreamSender_Init outp mtu = Inr s \<Longrightarrow> spi_state outp = STATE_NONE \<Longrightarrow> \<not> spi_job_operation outp \<Longrightarrow>
    \<not> spi_job_done outp \<Longrightarrow> PacketPassInterface_Sender_Init (pss_input s) = Inr i \<Longrightarrow> pss_reach (s\<lparr>pss_input := i\<rparr>) [] [] []"
| pss_send: "pss_reach s mem0 packets out \<Longrightarrow> pss_user_send s 0 (int (length d)) = Inr s' \<Longrightarrow>
    pss_reach s' d (packets @ [d]) out"
| pss_operation: "pss_reach s mem packets out \<Longrightarrow> ppi_job_operation (pss_input s) \<Longrightarrow> pss_run_operation s = Inr s' \<Longrightarrow>
    pss_reach s' mem packets out"
| pss_done: "pss_reach s mem packets out \<Longrightarrow> ppi_job_done (pss_input s) \<Longrightarrow> pss_run_done s = Inr s' \<Longrightarrow>
    pss_reach s' mem packets out"
| pss_take: "pss_reach s mem packets out \<Longrightarrow> spi_job_operation (pss_output s) \<Longrightarrow> pss_stream_take s = Inr s' \<Longrightarrow>
    pss_reach s' mem packets out"
| pss_sent: "pss_reach s mem packets out \<Longrightarrow> pss_stream_sent s mem k = Inr (s', bs) \<Longrightarrow> pss_reach s' mem packets (out @ bs)"
| pss_stream: "pss_reach s mem packets out \<Longrightarrow> spi_job_done (pss_output s) \<Longrightarrow> pss_stream_done s = Inr s' \<Longrightarrow>
    pss_reach s' mem packets out"

lemma pss_reach_inv: "pss_reach s mem packets out \<Longrightarrow> \<exists>rest. pss_inv s mem rest \<and> out @ rest = concat packets"
proof (induction rule: pss_reach.induct)
  case (pss_init outp mtu s i)
  then show ?case using PacketStreamSender_Init_inv by auto
next
  case (pss_send s mem0 packets out d s')
  then obtain rest where r: "pss_inv s mem0 rest" "out @ rest = concat packets" by blast
  have st: "ppi_state (pss_input s) = STATE_NONE" "int (length d) \<le> ppi_mtu (pss_input s)"
    using pss_send.hyps by (auto simp: pss_user_send_def PacketPassInterface_Sender_Send_def result_simps)
  then have "rest = []" using r by (simp add: pss_inv_def)
  then show ?case using pss_user_send_inv [OF r(1) st(1), of 0 "int (length d)" d] pss_send.hyps st r by auto
next
  case (pss_operation s mem packets out s')
  then show ?case using pss_run_operation_inv by fastforce
next
  case (pss_done s mem packets out s')
  then show ?case using pss_run_done_inv by fastforce
next
  case (pss_take s mem packets out s')
  then show ?case using pss_stream_take_inv by fastforce
next
  case (pss_sent s mem packets out k s' bs)
  then obtain rest where r: "pss_inv s mem rest" "out @ rest = concat packets" by blast
  have "spi_state (pss_output s) = STATE_BUSY" "0 < k" "int k \<le> spi_job_operation_len (pss_output s)"
    using pss_sent.hyps by (auto simp: pss_stream_sent_def StreamPassInterface_Done_def result_simps split: option.splits)
  from pss_stream_sent_inv [OF r(1) this] pss_sent.hyps have "bs = take k rest" "pss_inv s' mem (drop k rest)" by auto
  then show ?case using r(2) by (intro exI [of _ "drop k rest"]) simp
next
  case (pss_stream s mem packets out s')
  then show ?case using pss_stream_done_inv by fastforce
qed

text \<open>The user is told done when, and only when, nothing of the packet is left to the stream.\<close>

lemma pss_done_iff:
  assumes "pss_inv s mem rest" "out @ rest = concat packets"
  shows "ppi_job_done (pss_input s) \<or> ppi_state (pss_input s) = STATE_NONE \<longleftrightarrow>
    out = concat packets \<and> spi_state (pss_output s) = STATE_NONE \<and> \<not> ppi_job_operation (pss_input s)"
  using assms by (cases "ppi_state (pss_input s)") (auto simp: pss_inv_def ppi_inv_def pss_busy_def)

lemma pss_not_stuck:
  assumes "pss_inv s mem rest" "ppi_state (pss_input s) \<noteq> STATE_NONE"
  shows "ppi_job_operation (pss_input s) \<or> ppi_job_done (pss_input s) \<or> spi_job_operation (pss_output s) \<or>
    spi_state (pss_output s) = STATE_BUSY \<or> spi_job_done (pss_output s)"
  using assms by (cases "ppi_state (pss_input s)"; cases "spi_state (pss_output s)")
    (auto simp: pss_inv_def ppi_inv_def spi_inv_def pss_busy_def)

text \<open>
  C27: A packet stream sender concatenates its packets. In every history, however many bytes the
  stream takes at a time, no job fails an assertion, the stream's provider reads no byte outside the
  packet it was given, and what the stream has taken is a prefix of the concatenated packets. The
  done of a packet is signalled, or the next packet may be sent, exactly when the stream has taken
  all the packets handed over, has finished its last operation, and no packet is still to be taken
  over; and as long as the next packet may not be sent, the sender is not stuck: a job is set, or the
  stream has an operation of the sender.
\<close>

theorem PacketStreamSender_stream:
  assumes "pss_reach s mem packets out"
  shows "prefix out (concat packets) \<and> (ppi_state (pss_input s) = STATE_NONE \<longrightarrow> out = concat packets) \<and>
    (ppi_job_done (pss_input s) \<or> ppi_state (pss_input s) = STATE_NONE \<longleftrightarrow>
       out = concat packets \<and> spi_state (pss_output s) = STATE_NONE \<and> \<not> ppi_job_operation (pss_input s)) \<and>
    (ppi_state (pss_input s) \<noteq> STATE_NONE \<longrightarrow>
       ppi_job_operation (pss_input s) \<or> ppi_job_done (pss_input s) \<or> spi_job_operation (pss_output s) \<or>
       spi_state (pss_output s) = STATE_BUSY \<or> spi_job_done (pss_output s)) \<and>
    (ppi_job_operation (pss_input s) \<longrightarrow> no_fault (pss_run_operation s)) \<and>
    (ppi_job_done (pss_input s) \<longrightarrow> no_fault (pss_run_done s)) \<and>
    (spi_job_operation (pss_output s) \<longrightarrow> no_fault (pss_stream_take s)) \<and>
    (spi_job_done (pss_output s) \<longrightarrow> no_fault (pss_stream_done s)) \<and>
    (\<forall>k. spi_state (pss_output s) = STATE_BUSY \<and> 0 < k \<and> int k \<le> spi_job_operation_len (pss_output s) \<longrightarrow>
       no_fault (pss_stream_sent s mem k))"
proof -
  obtain rest where r: "pss_inv s mem rest" "out @ rest = concat packets" using pss_reach_inv [OF assms] by blast
  have "prefix out (concat packets)" using r(2) by (metis prefixI)
  moreover have "out = concat packets" if "ppi_state (pss_input s) = STATE_NONE" using r that by (simp add: pss_inv_def)
  moreover note pss_done_iff [OF r] pss_not_stuck [OF r(1)]
  moreover have "no_fault (pss_run_operation s)" if "ppi_job_operation (pss_input s)"
    using pss_run_operation_inv [OF r(1) that] by (auto simp: no_fault_iff)
  moreover have "no_fault (pss_run_done s)" if "ppi_job_done (pss_input s)"
    using pss_run_done_inv [OF r(1) that] by (auto simp: no_fault_iff)
  moreover have "no_fault (pss_stream_take s)" if "spi_job_operation (pss_output s)"
    using pss_stream_take_inv [OF r(1) that] by (auto simp: no_fault_iff)
  moreover have "no_fault (pss_stream_done s)" if "spi_job_done (pss_output s)"
    using pss_stream_done_inv [OF r(1) that] by (auto simp: no_fault_iff)
  moreover have "no_fault (pss_stream_sent s mem k)"
    if "spi_state (pss_output s) = STATE_BUSY \<and> 0 < k \<and> int k \<le> spi_job_operation_len (pss_output s)" for k
    using pss_stream_sent_inv [OF r(1), of k] that by (auto simp: no_fault_iff)
  ultimately show ?thesis by blast
qed

lemmas pss_step_defs = pss_user_send_def pss_run_operation_def pss_run_done_def pss_stream_take_def pss_stream_sent_def
  pss_stream_done_def pss_input_handler_send_def pss_output_handler_done_def pss_send_data_def
  PacketStreamSender_Init_def StreamPassInterface_Init_def StreamPassInterface_Sender_Init_def
  StreamPassInterface_Sender_Send_def StreamPassInterface_job_operation_def StreamPassInterface_job_done_def
  StreamPassInterface_Done_def ppi_defs

text \<open>A packet of three bytes of which the stream has taken two, and then the third.\<close>

theorem PacketStreamSender_stream_witness:
  "\<exists>s. pss_reach s [1, 2, 3] [[1, 2, 3]] [1, 2, 3] \<and> ppi_job_done (pss_input s) \<and> no_fault (pss_run_done s)"
proof -
  define s0 where "s0 = projr (PacketStreamSender_Init StreamPassInterface_Init 100)"
  define s1 where "s1 = s0\<lparr>pss_input := projr (PacketPassInterface_Sender_Init (pss_input s0))\<rparr>"
  define s2 where "s2 = projr (pss_user_send s1 0 (int (length [1, 2, 3 :: u8])))"
  define s3 where "s3 = projr (pss_run_operation s2)"
  define s4 where "s4 = projr (pss_stream_take s3)"
  define s5 where "s5 = fst (projr (pss_stream_sent s4 [1, 2, 3] 2))"
  define s6 where "s6 = projr (pss_stream_done s5)"
  define s7 where "s7 = projr (pss_stream_take s6)"
  define s8 where "s8 = fst (projr (pss_stream_sent s7 [1, 2, 3] 1))"
  define s9 where "s9 = projr (pss_stream_done s8)"
  note d = s0_def s1_def s2_def s3_def s4_def s5_def s6_def s7_def s8_def s9_def pss_step_defs mem_read_def Let_def
  have "pss_reach s1 [] [] []" unfolding s1_def
    by (rule pss_init [of StreamPassInterface_Init 100]) (simp_all add: d)
  then have "pss_reach s2 [1, 2, 3] [[1, 2, 3]] []"
    by (rule pss_send [where packets = "[]", simplified]) (simp add: d)
  then have "pss_reach s3 [1, 2, 3] [[1, 2, 3]] []" by (rule pss_operation) (simp_all add: d)
  then have "pss_reach s4 [1, 2, 3] [[1, 2, 3]] []" by (rule pss_take) (simp_all add: d)
  then have "pss_reach s5 [1, 2, 3] [[1, 2, 3]] [1, 2]"
    by (rule pss_sent [where k = 2 and bs = "[1, 2]" and out = "[]", simplified]) (simp add: d)
  then have "pss_reach s6 [1, 2, 3] [[1, 2, 3]] [1, 2]" by (rule pss_stream) (simp_all add: d)
  then have "pss_reach s7 [1, 2, 3] [[1, 2, 3]] [1, 2]" by (rule pss_take) (simp_all add: d)
  then have "pss_reach s8 [1, 2, 3] [[1, 2, 3]] [1, 2, 3]"
    by (rule pss_sent [where k = 1 and bs = "[3]" and out = "[1, 2]", simplified]) (simp add: d)
  then have r: "pss_reach s9 [1, 2, 3] [[1, 2, 3]] [1, 2, 3]" by (rule pss_stream) (simp_all add: d)
  have j: "ppi_job_done (pss_input s9)" by (simp add: d)
  have "no_fault (pss_run_done s9)" using PacketStreamSender_stream [OF r] j by blast
  with r j show ?thesis by blast
qed

subsection \<open>Connecting and disconnecting\<close>

definition ppc_run_operation :: "PacketPassConnector \<Rightarrow> PacketPassConnector result" where
  "ppc_run_operation c =
     andthen (PacketPassInterface_job_operation (ppc_input c)) (\<lambda>(i, data, data_len).
     ppc_input_handler_send (c\<lparr>ppc_input := i\<rparr>) data data_len)"

definition ppc_run_output_done :: "PacketPassConnector \<Rightarrow> int PacketPassInterface \<Rightarrow> PacketPassConnector result" where
  "ppc_run_output_done c outp =
     andthen (PacketPassInterface_job_done outp) (\<lambda>outp. ppc_output_handler_done (c\<lparr>ppc_output := Some outp\<rparr>))"

text \<open>
  Histories of a connector: its user sends packets, outputs that nobody has used yet are connected
  and disconnected at any time, and the jobs of both interfaces run in any order.
\<close>

inductive ppc_reach :: "PacketPassConnector \<Rightarrow> bool" where
  ppc_init: "PacketPassConnector_Init mtu = Inr c \<Longrightarrow> ppc_reach c"
| ppc_sender_init: "ppc_reach c \<Longrightarrow> PacketPassInterface_Sender_Init (ppc_input c) = Inr i \<Longrightarrow> ppc_reach (c\<lparr>ppc_input := i\<rparr>)"
| ppc_send: "ppc_reach c \<Longrightarrow> PacketPassInterface_Sender_Send (ppc_input c) dat len = Inr i \<Longrightarrow> ppc_reach (c\<lparr>ppc_input := i\<rparr>)"
| ppc_operation: "ppc_reach c \<Longrightarrow> ppi_job_operation (ppc_input c) \<Longrightarrow> ppc_run_operation c = Inr c' \<Longrightarrow> ppc_reach c'"
| ppc_done: "ppc_reach c \<Longrightarrow> ppi_job_done (ppc_input c) \<Longrightarrow>
    PacketPassInterface_job_done (ppc_input c) = Inr i \<Longrightarrow> ppc_reach (c\<lparr>ppc_input := i\<rparr>)"
| ppc_connect: "ppc_reach c \<Longrightarrow> ppi_inv outp \<Longrightarrow> ppi_state outp = STATE_NONE \<Longrightarrow>
    PacketPassConnector_ConnectOutput c outp = Inr c' \<Longrightarrow> ppc_reach c'"
| ppc_disconnect: "ppc_reach c \<Longrightarrow> PacketPassConnector_DisconnectOutput c = Inr c' \<Longrightarrow> ppc_reach c'"
| ppc_out_operation: "ppc_reach c \<Longrightarrow> ppc_output c = Some outp \<Longrightarrow> ppi_job_operation outp \<Longrightarrow>
    PacketPassInterface_job_operation outp = Inr (i, dat, len) \<Longrightarrow> ppc_reach (c\<lparr>ppc_output := Some i\<rparr>)"
| ppc_out_finish: "ppc_reach c \<Longrightarrow> ppc_output c = Some outp \<Longrightarrow> PacketPassInterface_Done outp = Inr i \<Longrightarrow>
    ppc_reach (c\<lparr>ppc_output := Some i\<rparr>)"
| ppc_out_done: "ppc_reach c \<Longrightarrow> ppc_output c = Some outp \<Longrightarrow> ppi_job_done outp \<Longrightarrow>
    ppc_run_output_done c outp = Inr c' \<Longrightarrow> ppc_reach c'"

definition ppc_input_ok :: "PacketPassConnector \<Rightarrow> bool" where
  "ppc_input_ok c \<longleftrightarrow> ppi_inv (ppc_input c) \<and> ppi_mtu (ppc_input c) = ppc_input_mtu c \<and> 0 \<le> ppc_input_mtu c \<and> - 1 \<le> ppc_in_len c \<and>
     (ppi_state (ppc_input c) = STATE_BUSY \<longleftrightarrow> 0 \<le> ppc_in_len c) \<and> ppc_in_len c \<le> ppc_input_mtu c \<and>
     (0 < ppc_in_len c \<longrightarrow> ppc_in c \<noteq> None)"

definition ppc_output_ok :: "PacketPassConnector \<Rightarrow> int PacketPassInterface \<Rightarrow> bool" where
  "ppc_output_ok c outp \<longleftrightarrow> ppi_inv outp \<and> ppi_handler_done outp \<and> ppc_input_mtu c \<le> ppi_mtu outp \<and>
     (ppi_state outp \<noteq> STATE_NONE \<longleftrightarrow> 0 \<le> ppc_in_len c) \<and>
     (ppi_state outp \<noteq> STATE_NONE \<longrightarrow> ppi_job_operation_data outp = ppc_in c \<and> ppi_job_operation_len outp = ppc_in_len c)"

definition ppc_inv :: "PacketPassConnector \<Rightarrow> bool" where
  "ppc_inv c \<longleftrightarrow> ppc_input_ok c \<and> pred_option (ppc_output_ok c) (ppc_output c)"

lemmas ppc_inv_defs = ppc_inv_def ppc_input_ok_def ppc_output_ok_def ppi_inv_def

lemma ppc_run_operation_inv:
  assumes inv: "ppc_inv c" and job: "ppi_job_operation (ppc_input c)"
  shows "\<exists>c'. ppc_run_operation c = Inr c' \<and> ppc_inv c'"
proof -
  let ?i = "ppc_input c"
  have ok: "ppi_inv ?i" "ppi_state ?i = STATE_OPERATION_PENDING" "ppi_mtu ?i = ppc_input_mtu c" "ppc_in_len c = - 1"
    using inv job by (auto simp: ppc_inv_def ppc_input_ok_def ppi_inv_jobs)
  obtain j where j: "PacketPassInterface_job_operation ?i = Inr (j, ppi_job_operation_data ?i, ppi_job_operation_len ?i)"
    "ppi_inv j" "ppi_state j = STATE_BUSY" "ppi_keeps_op ?i j"
    using ppi_job_operation_ok [OF ok(1) job] .
  note len = ppi_inv_op [OF ok(1), unfolded ok(2,3), simplified]
  define c1 where "c1 = c\<lparr>ppc_input := j, ppc_in_len := ppi_job_operation_len ?i, ppc_in := ppi_job_operation_data ?i\<rparr>"
  have in_ok: "ppc_input_ok c1"
    using inv j(2-4) ok len by (auto simp: ppc_inv_def ppc_input_ok_def c1_def ppi_keeps_op_def ppi_keeps_def)
  show ?thesis
  proof (cases "ppc_output c")
    case None
    then show ?thesis using in_ok j(1) ok(4) len
      by (simp add: ppc_run_operation_def ppc_input_handler_send_def ppc_inv_def c1_def)
  next
    case (Some outp)
    then have outp: "ppi_inv outp" "ppi_state outp = STATE_NONE" "ppi_handler_done outp" "ppc_input_mtu c \<le> ppi_mtu outp"
      using inv ok(4) by (auto simp: ppc_inv_def ppc_output_ok_def)
    obtain q where q: "PacketPassInterface_Sender_Send outp (ppi_job_operation_data ?i) (ppi_job_operation_len ?i) = Inr q"
      "ppi_inv q" "ppi_state q = STATE_OPERATION_PENDING" "ppi_keeps outp q"
      "ppi_job_operation_data q = ppi_job_operation_data ?i" "ppi_job_operation_len q = ppi_job_operation_len ?i"
      using ppi_Send_ok [OF outp(1-3) len(1), of "ppi_job_operation_data ?i"] outp(4) len by auto
    have "ppc_run_operation c = Inr (c1\<lparr>ppc_output := Some q\<rparr>)"
      using j(1) ok(4) len Some q(1) by (simp add: ppc_run_operation_def ppc_input_handler_send_def c1_def)
    moreover have "ppc_output_ok (c1\<lparr>ppc_output := Some q\<rparr>) q"
      using q outp len by (simp add: ppc_output_ok_def c1_def ppi_keeps_def)
    moreover have "ppc_input_ok (c1\<lparr>ppc_output := Some q\<rparr>)" using in_ok by (simp add: ppc_input_ok_def)
    ultimately show ?thesis by (auto simp: ppc_inv_def)
  qed
qed

lemma ppc_run_output_done_inv:
  assumes inv: "ppc_inv c" and outp: "ppc_output c = Some outp" and job: "ppi_job_done outp"
  shows "\<exists>c'. ppc_run_output_done c outp = Inr c' \<and> ppc_inv c'"
proof -
  have o_ok: "ppi_inv outp" "ppi_handler_done outp" "ppc_input_mtu c \<le> ppi_mtu outp" "ppi_state outp = STATE_DONE_PENDING" "0 \<le> ppc_in_len c"
    using inv outp job by (auto simp: ppc_inv_def ppc_output_ok_def ppi_inv_jobs)
  have i_ok: "ppi_inv (ppc_input c)" "ppi_state (ppc_input c) = STATE_BUSY"
    using inv o_ok by (auto simp: ppc_inv_def ppc_input_ok_def)
  obtain q where q: "PacketPassInterface_job_done outp = Inr q" "ppi_inv q" "ppi_state q = STATE_NONE" "ppi_keeps_op outp q"
    using ppi_job_done_ok [OF o_ok(1) job] .
  obtain j where j: "PacketPassInterface_Done (ppc_input c) = Inr j" "ppi_inv j" "ppi_state j = STATE_DONE_PENDING" "ppi_keeps_op (ppc_input c) j"
    using ppi_Done_ok [OF i_ok] .
  define c1 where "c1 = c\<lparr>ppc_output := Some q, ppc_in_len := - 1, ppc_input := j\<rparr>"
  have "ppc_run_output_done c outp = Inr c1"
    using q(1) j(1) o_ok by (simp add: ppc_run_output_done_def ppc_output_handler_done_def c1_def)
  moreover have "ppc_input_ok c1"
    using inv j by (simp add: ppc_inv_def ppc_input_ok_def c1_def ppi_keeps_op_def ppi_keeps_def)
  moreover have "ppc_output_ok c1 q"
    using q o_ok by (simp add: ppc_output_ok_def c1_def ppi_keeps_op_def ppi_keeps_def)
  ultimately show ?thesis by (auto simp: ppc_inv_def c1_def)
qed

lemma ppc_connect_inv:
  assumes inv: "ppc_inv c" and outp: "ppi_inv outp" "ppi_state outp = STATE_NONE" "ppc_output c = None" "\<not> ppi_handler_done outp"
    "ppc_input_mtu c \<le> ppi_mtu outp"
  shows "\<exists>c'. PacketPassConnector_ConnectOutput c outp = Inr c' \<and> ppc_inv c'"
proof -
  obtain q where q: "PacketPassInterface_Sender_Init outp = Inr q" "ppi_inv q" "ppi_handler_done q" "ppi_state q = ppi_state outp"
    "ppi_mtu q = ppi_mtu outp"
    using ppi_Sender_Init_ok [OF outp(1,4)] by metis
  have len: "ppc_in_len c \<le> ppi_mtu q" "0 < ppc_in_len c \<Longrightarrow> ppc_in c \<noteq> None"
    using inv outp(5) q(5) by (auto simp: ppc_inv_def ppc_input_ok_def)
  have fin: "ppc_inv (c\<lparr>ppc_output := Some r\<rparr>)" if "ppc_output_ok c r" for r
    using inv that by (simp add: ppc_inv_def ppc_input_ok_def ppc_output_ok_def)
  show ?thesis
  proof (cases "0 \<le> ppc_in_len c")
    case True
    obtain r where r: "PacketPassInterface_Sender_Send q (ppc_in c) (ppc_in_len c) = Inr r" "ppi_inv r"
      "ppi_state r = STATE_OPERATION_PENDING" "ppi_keeps q r" "ppi_job_operation_data r = ppc_in c" "ppi_job_operation_len r = ppc_in_len c"
      using ppi_Send_ok [OF q(2) _ q(3) True len(1), of "ppc_in c"] q(4) outp(2) len(2) by auto
    then have "ppc_output_ok c r" using q outp True by (simp add: ppc_output_ok_def ppi_keeps_def)
    then show ?thesis using fin q(1) r(1) True outp
      by (simp add: PacketPassConnector_ConnectOutput_def PacketPassInterface_GetMTU_def)
  next
    case False
    then have "ppc_output_ok c q" using q outp by (simp add: ppc_output_ok_def)
    then show ?thesis using fin q(1) False outp
      by (simp add: PacketPassConnector_ConnectOutput_def PacketPassInterface_GetMTU_def)
  qed
qed

text \<open>Steps that only touch the input or only the output.\<close>

lemma ppc_input_change:
  assumes "ppc_inv c" "ppi_inv j" "ppi_mtu j = ppi_mtu (ppc_input c)"
    "ppi_state j = STATE_BUSY \<longleftrightarrow> ppi_state (ppc_input c) = STATE_BUSY"
  shows "ppc_inv (c\<lparr>ppc_input := j\<rparr>)"
  using assms by (cases "ppc_output c") (simp_all add: ppc_inv_def ppc_input_ok_def ppc_output_ok_def)

lemma ppc_output_change:
  assumes "ppc_inv c" "ppc_output c = Some outp" "ppi_inv q" "ppi_keeps_op outp q"
    "ppi_state q = STATE_NONE \<longleftrightarrow> ppi_state outp = STATE_NONE"
  shows "ppc_inv (c\<lparr>ppc_output := Some q\<rparr>)"
  using assms by (simp add: ppc_inv_def ppc_input_ok_def ppc_output_ok_def ppi_keeps_op_def ppi_keeps_def)

lemma ppc_reach_inv: "ppc_reach c \<Longrightarrow> ppc_inv c"
proof (induction rule: ppc_reach.induct)
  case (ppc_init mtu c)
  then show ?case by (auto simp: PacketPassConnector_Init_def PacketPassInterface_Init_def ppc_inv_defs result_simps)
next
  case (ppc_sender_init c i)
  have "ppi_inv (ppc_input c)" using ppc_sender_init.IH by (simp add: ppc_inv_def ppc_input_ok_def)
  then have "ppi_inv i" "ppi_mtu i = ppi_mtu (ppc_input c)" "ppi_state i = ppi_state (ppc_input c)"
    using ppc_sender_init.hyps by (auto simp: PacketPassInterface_Sender_Init_def ppi_inv_def result_simps)
  then show ?case by (intro ppc_input_change [OF ppc_sender_init.IH]) simp_all
next
  case (ppc_send c dat len i)
  have "ppi_inv (ppc_input c)" using ppc_send.IH by (simp add: ppc_inv_def ppc_input_ok_def)
  then have "ppi_inv i" "ppi_mtu i = ppi_mtu (ppc_input c)" "ppi_state i \<noteq> STATE_BUSY" "ppi_state (ppc_input c) \<noteq> STATE_BUSY"
    using ppc_send.hyps by (auto simp: PacketPassInterface_Sender_Send_def ppi_inv_def result_simps)
  then show ?case by (intro ppc_input_change [OF ppc_send.IH]) simp_all
next
  case (ppc_operation c c')
  then show ?case using ppc_run_operation_inv [of c] by auto
next
  case (ppc_done c i)
  have "ppi_inv (ppc_input c)" using ppc_done.IH by (simp add: ppc_inv_def ppc_input_ok_def)
  then have "ppi_inv i" "ppi_mtu i = ppi_mtu (ppc_input c)" "ppi_state i \<noteq> STATE_BUSY" "ppi_state (ppc_input c) \<noteq> STATE_BUSY"
    using ppc_done.hyps by (auto simp: PacketPassInterface_job_done_def ppi_inv_def result_simps)
  then show ?case by (intro ppc_input_change [OF ppc_done.IH]) simp_all
next
  case (ppc_connect c outp c')
  then have "ppc_output c = None" "\<not> ppi_handler_done outp" "ppc_input_mtu c \<le> ppi_mtu outp"
    by (auto simp: PacketPassConnector_ConnectOutput_def PacketPassInterface_GetMTU_def PacketPassInterface_Sender_Init_def result_simps)
  then show ?case using ppc_connect_inv [of c outp] ppc_connect by auto
next
  case (ppc_disconnect c c')
  then show ?case by (auto simp: PacketPassConnector_DisconnectOutput_def ppc_inv_def ppc_input_ok_def result_simps)
next
  case (ppc_out_operation c outp i dat len)
  then have inv: "ppi_inv outp" by (simp add: ppc_inv_def ppc_output_ok_def)
  then obtain j where "PacketPassInterface_job_operation outp = Inr (j, ppi_job_operation_data outp, ppi_job_operation_len outp)"
    "ppi_inv j" "ppi_state j = STATE_BUSY" "ppi_keeps_op outp j" using ppi_job_operation_ok ppc_out_operation.hyps(3) by metis
  moreover have "ppi_state outp \<noteq> STATE_NONE" using inv ppc_out_operation.hyps(3) by (simp add: ppi_inv_jobs)
  ultimately show ?case using ppc_output_change [OF ppc_out_operation.IH ppc_out_operation.hyps(2)] ppc_out_operation.hyps(4) by simp
next
  case (ppc_out_finish c outp i)
  then have inv: "ppi_inv outp" "ppi_state outp = STATE_BUSY"
    by (auto simp: ppc_inv_def ppc_output_ok_def PacketPassInterface_Done_def result_simps)
  then obtain j where "PacketPassInterface_Done outp = Inr j" "ppi_inv j" "ppi_state j = STATE_DONE_PENDING" "ppi_keeps_op outp j"
    using ppi_Done_ok by metis
  then show ?case using ppc_output_change [OF ppc_out_finish.IH ppc_out_finish.hyps(2)] ppc_out_finish.hyps(3) inv by simp
next
  case (ppc_out_done c outp c')
  then show ?case using ppc_run_output_done_inv [of c outp] by auto
qed

text \<open>
  C30: In every history of a packet connector, with outputs connected and disconnected at any time,
  no assertion fails: neither when a job that is set is run nor when an unused output of sufficient
  MTU is connected. No packet is lost: while the user waits for its packet to be done and an output
  is connected, exactly that packet is in progress at the output.
\<close>

theorem PacketPassConnector_correct:
  assumes "ppc_reach c"
  shows "(ppi_job_operation (ppc_input c) \<longrightarrow> no_fault (ppc_run_operation c)) \<and>
    (\<forall>outp. ppc_output c = Some outp \<and> ppi_job_done outp \<longrightarrow> no_fault (ppc_run_output_done c outp)) \<and>
    (\<forall>outp. ppc_output c = None \<and> ppi_inv outp \<and> ppi_state outp = STATE_NONE \<and> \<not> ppi_handler_done outp \<and>
       ppc_input_mtu c \<le> ppi_mtu outp \<longrightarrow> no_fault (PacketPassConnector_ConnectOutput c outp)) \<and>
    (\<forall>outp. ppc_output c = Some outp \<longrightarrow>
       (if ppi_state (ppc_input c) = STATE_BUSY
        then ppi_state outp \<noteq> STATE_NONE \<and> ppi_job_operation_data outp = ppc_in c \<and> ppi_job_operation_len outp = ppc_in_len c
        else ppi_state outp = STATE_NONE))"
proof -
  note inv = ppc_reach_inv [OF assms]
  have "no_fault (ppc_run_operation c)" if "ppi_job_operation (ppc_input c)"
    using ppc_run_operation_inv [OF inv that] by (auto simp: no_fault_iff)
  moreover have "no_fault (ppc_run_output_done c outp)" if "ppc_output c = Some outp \<and> ppi_job_done outp" for outp
    using ppc_run_output_done_inv [OF inv, of outp] that by (auto simp: no_fault_iff)
  moreover have "no_fault (PacketPassConnector_ConnectOutput c outp)"
    if "ppc_output c = None \<and> ppi_inv outp \<and> ppi_state outp = STATE_NONE \<and> \<not> ppi_handler_done outp \<and>
       ppc_input_mtu c \<le> ppi_mtu outp" for outp
    using ppc_connect_inv [OF inv, of outp] that by (auto simp: no_fault_iff)
  moreover have "if ppi_state (ppc_input c) = STATE_BUSY
        then ppi_state outp \<noteq> STATE_NONE \<and> ppi_job_operation_data outp = ppc_in c \<and> ppi_job_operation_len outp = ppc_in_len c
        else ppi_state outp = STATE_NONE" if "ppc_output c = Some outp" for outp
    using inv that by (auto simp: ppc_inv_def ppc_input_ok_def ppc_output_ok_def)
  ultimately show ?thesis by blast
qed

text \<open>A packet is sent before any output is connected; then one is.\<close>

theorem PacketPassConnector_correct_witness:
  "\<exists>c outp. ppc_reach c \<and> ppi_state (ppc_input c) = STATE_BUSY \<and> ppc_output c = Some outp \<and>
     ppi_job_operation_data outp = Some 5 \<and> ppi_job_operation_len outp = 20"
proof -
  define c0 where "c0 = projr (PacketPassConnector_Init 100)"
  define c1 where "c1 = c0\<lparr>ppc_input := projr (PacketPassInterface_Sender_Init (ppc_input c0))\<rparr>"
  define c2 where "c2 = c1\<lparr>ppc_input := projr (PacketPassInterface_Sender_Send (ppc_input c1) (Some 5) 20)\<rparr>"
  define c3 where "c3 = projr (ppc_run_operation c2)"
  define p :: "int PacketPassInterface" where "p = projr (PacketPassInterface_Init 200)"
  define c4 where "c4 = projr (PacketPassConnector_ConnectOutput c3 p)"
  note d = c0_def c1_def c2_def c3_def c4_def p_def PacketPassConnector_Init_def ppc_run_operation_def
    ppc_input_handler_send_def PacketPassConnector_ConnectOutput_def PacketPassInterface_GetMTU_def ppi_defs ppi_inv_def Let_def
  have "ppc_reach c0" by (rule ppc_init [of 100]) (simp add: d)
  then have "ppc_reach c1" unfolding c1_def by (rule ppc_sender_init) (simp add: d)
  then have "ppc_reach c2" unfolding c2_def by (rule ppc_send [where dat = "Some 5" and len = 20]) (simp add: d)
  then have "ppc_reach c3" by (rule ppc_operation) (simp_all add: d)
  then have r: "ppc_reach c4" by (rule ppc_connect [of _ p]) (simp_all add: d)
  have f: "ppi_state (ppc_input c4) = STATE_BUSY" "ppc_in c4 = Some 5" "ppc_in_len c4 = 20" "ppc_output c4 \<noteq> None"
    by (simp_all add: d)
  then obtain outp where "ppc_output c4 = Some outp" by blast
  with PacketPassConnector_correct [OF r] f r show ?thesis by auto
qed

subsection \<open>Detecting inactivity\<close>

definition pim_run_operation :: "PacketPassInactivityMonitor \<Rightarrow> PacketPassInactivityMonitor result" where
  "pim_run_operation p =
     andthen (PacketPassInterface_job_operation (pim_input p)) (\<lambda>(i, data, data_len).
     pim_input_handler_send (p\<lparr>pim_input := i\<rparr>) data data_len)"

definition pim_run_requestcancel :: "PacketPassInactivityMonitor \<Rightarrow> PacketPassInactivityMonitor result" where
  "pim_run_requestcancel p =
     andthen (PacketPassInterface_job_requestcancel (pim_input p)) (\<lambda>i.
     pim_input_handler_requestcancel (p\<lparr>pim_input := i\<rparr>))"

definition pim_run_output_done :: "PacketPassInactivityMonitor \<Rightarrow> PacketPassInactivityMonitor result" where
  "pim_run_output_done p =
     andthen (PacketPassInterface_job_done (pim_output p)) (\<lambda>outp. pim_output_handler_done (p\<lparr>pim_output := outp\<rparr>))"

text \<open>Histories of a monitor; \<open>Force\<close> is used only when the first argument is true.\<close>

inductive pim_reach :: "bool \<Rightarrow> PacketPassInactivityMonitor \<Rightarrow> bool" for force where
  pim_init: "ppi_inv outp \<Longrightarrow> ppi_state outp = STATE_NONE \<Longrightarrow> PacketPassInactivityMonitor_Init outp h = Inr p \<Longrightarrow> pim_reach force p"
| pim_sender_init: "pim_reach force p \<Longrightarrow> PacketPassInterface_Sender_Init (pim_input p) = Inr i \<Longrightarrow> pim_reach force (p\<lparr>pim_input := i\<rparr>)"
| pim_send: "pim_reach force p \<Longrightarrow> PacketPassInterface_Sender_Send (pim_input p) dat len = Inr i \<Longrightarrow> pim_reach force (p\<lparr>pim_input := i\<rparr>)"
| pim_cancel: "pim_reach force p \<Longrightarrow> PacketPassInterface_Sender_RequestCancel (pim_input p) = Inr i \<Longrightarrow> pim_reach force (p\<lparr>pim_input := i\<rparr>)"
| pim_operation: "pim_reach force p \<Longrightarrow> ppi_job_operation (pim_input p) \<Longrightarrow> pim_run_operation p = Inr p' \<Longrightarrow> pim_reach force p'"
| pim_requestcancel: "pim_reach force p \<Longrightarrow> ppi_job_requestcancel (pim_input p) \<Longrightarrow> pim_run_requestcancel p = Inr p' \<Longrightarrow> pim_reach force p'"
| pim_done: "pim_reach force p \<Longrightarrow> ppi_job_done (pim_input p) \<Longrightarrow> PacketPassInterface_job_done (pim_input p) = Inr i \<Longrightarrow>
    pim_reach force (p\<lparr>pim_input := i\<rparr>)"
| pim_out_operation: "pim_reach force p \<Longrightarrow> ppi_job_operation (pim_output p) \<Longrightarrow>
    PacketPassInterface_job_operation (pim_output p) = Inr (i, dat, len) \<Longrightarrow> pim_reach force (p\<lparr>pim_output := i\<rparr>)"
| pim_out_requestcancel: "pim_reach force p \<Longrightarrow> ppi_job_requestcancel (pim_output p) \<Longrightarrow>
    PacketPassInterface_job_requestcancel (pim_output p) = Inr i \<Longrightarrow> pim_reach force (p\<lparr>pim_output := i\<rparr>)"
| pim_out_finish: "pim_reach force p \<Longrightarrow> PacketPassInterface_Done (pim_output p) = Inr i \<Longrightarrow> pim_reach force (p\<lparr>pim_output := i\<rparr>)"
| pim_out_done: "pim_reach force p \<Longrightarrow> ppi_job_done (pim_output p) \<Longrightarrow> pim_run_output_done p = Inr p' \<Longrightarrow> pim_reach force p'"
| pim_timer: "pim_reach force p \<Longrightarrow> pim_timer p \<Longrightarrow> pim_timer_handler p = (p', h) \<Longrightarrow> pim_reach force p'"
| pim_set_handler: "pim_reach force p \<Longrightarrow> pim_reach force (PacketPassInactivityMonitor_SetHandler p h)"
| pim_force: "pim_reach force p \<Longrightarrow> force \<Longrightarrow> pim_reach force (PacketPassInactivityMonitor_Force p)"

definition pim_inv :: "bool \<Rightarrow> PacketPassInactivityMonitor \<Rightarrow> bool" where
  "pim_inv force p \<longleftrightarrow> ppi_inv (pim_input p) \<and> ppi_inv (pim_output p) \<and> ppi_handler_done (pim_output p) \<and>
     ppi_mtu (pim_input p) = ppi_mtu (pim_output p) \<and>
     ppi_handler_requestcancel (pim_input p) = ppi_handler_requestcancel (pim_output p) \<and>
     (ppi_state (pim_output p) = STATE_NONE \<longleftrightarrow> ppi_state (pim_input p) \<noteq> STATE_BUSY) \<and>
     (ppi_state (pim_output p) = STATE_NONE \<longrightarrow> pim_timer p) \<and>
     (\<not> force \<longrightarrow> pim_timer p \<longrightarrow> ppi_state (pim_output p) = STATE_NONE)"

lemma pim_input_change:
  assumes "pim_inv force p" "ppi_inv j" "ppi_keeps (pim_input p) (j\<lparr>ppi_handler_done := ppi_handler_done (pim_input p)\<rparr>)"
    "ppi_state j = STATE_BUSY \<longleftrightarrow> ppi_state (pim_input p) = STATE_BUSY"
  shows "pim_inv force (p\<lparr>pim_input := j\<rparr>)"
  using assms by (simp add: pim_inv_def ppi_keeps_def)

lemma pim_output_change:
  assumes "pim_inv force p" "ppi_inv j" "ppi_keeps (pim_output p) j"
    "ppi_state j = STATE_NONE \<longleftrightarrow> ppi_state (pim_output p) = STATE_NONE"
  shows "pim_inv force (p\<lparr>pim_output := j\<rparr>)"
  using assms by (auto simp: pim_inv_def ppi_keeps_def)

lemma pim_run_operation_inv:
  assumes inv: "pim_inv force p" and job: "ppi_job_operation (pim_input p)"
  shows "\<exists>p'. pim_run_operation p = Inr p' \<and> pim_inv force p'"
proof -
  let ?i = "pim_input p"
  have ok: "ppi_inv ?i" "ppi_state ?i = STATE_OPERATION_PENDING" "ppi_inv (pim_output p)" "ppi_state (pim_output p) = STATE_NONE"
    "ppi_handler_done (pim_output p)" "ppi_mtu ?i = ppi_mtu (pim_output p)"
    using inv job by (auto simp: pim_inv_def ppi_inv_jobs)
  obtain j where j: "PacketPassInterface_job_operation ?i = Inr (j, ppi_job_operation_data ?i, ppi_job_operation_len ?i)"
    "ppi_inv j" "ppi_state j = STATE_BUSY" "ppi_keeps_op ?i j" using ppi_job_operation_ok [OF ok(1) job] .
  note len = ppi_inv_op [OF ok(1), unfolded ok(2,6), simplified]
  obtain q where q: "PacketPassInterface_Sender_Send (pim_output p) (ppi_job_operation_data ?i) (ppi_job_operation_len ?i) = Inr q"
    "ppi_inv q" "ppi_state q = STATE_OPERATION_PENDING" "ppi_keeps (pim_output p) q"
    using ppi_Send_ok [OF ok(3,4,5) len(1,2), of "ppi_job_operation_data ?i"] len(3) by auto
  show ?thesis using inv j q ok
    by (simp add: pim_run_operation_def pim_input_handler_send_def pim_inv_def ppi_keeps_op_def ppi_keeps_def)
qed

lemma pim_run_output_done_inv:
  assumes inv: "pim_inv force p" and job: "ppi_job_done (pim_output p)"
  shows "\<exists>p'. pim_run_output_done p = Inr p' \<and> pim_inv force p'"
proof -
  have ok: "ppi_inv (pim_input p)" "ppi_inv (pim_output p)" "ppi_state (pim_input p) = STATE_BUSY"
    using inv job by (auto simp: pim_inv_def ppi_inv_jobs)
  obtain q where q: "PacketPassInterface_job_done (pim_output p) = Inr q" "ppi_inv q" "ppi_state q = STATE_NONE" "ppi_keeps_op (pim_output p) q"
    using ppi_job_done_ok [OF ok(2) job] .
  obtain j where j: "PacketPassInterface_Done (pim_input p) = Inr j" "ppi_inv j" "ppi_state j = STATE_DONE_PENDING" "ppi_keeps_op (pim_input p) j"
    using ppi_Done_ok [OF ok(1,3)] .
  show ?thesis using inv j q
    by (simp add: pim_run_output_done_def pim_output_handler_done_def pim_inv_def ppi_keeps_op_def ppi_keeps_def)
qed

lemma ppi_RequestCancel_ok:
  assumes "ppi_inv i" "ppi_state i \<noteq> STATE_NONE" "ppi_handler_requestcancel i"
  shows "\<exists>j. PacketPassInterface_Sender_RequestCancel i = Inr j \<and> ppi_inv j \<and> ppi_keeps i j \<and> ppi_state j \<noteq> STATE_NONE"
proof (cases "ppi_cancel_requested i")
  case True
  then show ?thesis using assms
    by (cases "ppi_state i") (simp_all add: PacketPassInterface_Sender_RequestCancel_def ppi_keeps_def)
next
  case False
  show ?thesis using assms False
    by (cases "ppi_state i") (simp_all add: PacketPassInterface_Sender_RequestCancel_def ppi_keeps_def ppi_inv_def Let_def)
qed

lemma pim_run_requestcancel_inv:
  assumes inv: "pim_inv force p" and job: "ppi_job_requestcancel (pim_input p)"
  shows "\<exists>p'. pim_run_requestcancel p = Inr p' \<and> pim_inv force p' \<and> pim_timer p' = pim_timer p"
proof -
  have inv1: "ppi_inv (pim_input p)" using inv by (simp add: pim_inv_def)
  have ok: "ppi_inv (pim_input p)" "ppi_state (pim_input p) = STATE_BUSY" "ppi_handler_requestcancel (pim_input p)"
    using inv1 job by (simp_all add: ppi_inv_def)
  have "ppi_inv (pim_output p)" "ppi_state (pim_output p) \<noteq> STATE_NONE" "ppi_handler_requestcancel (pim_output p)"
    using inv ok by (auto simp: pim_inv_def)
  then obtain q where q: "PacketPassInterface_Sender_RequestCancel (pim_output p) = Inr q" "ppi_inv q" "ppi_keeps (pim_output p) q"
    "ppi_state q \<noteq> STATE_NONE" using ppi_RequestCancel_ok by metis
  obtain j where j: "PacketPassInterface_job_requestcancel (pim_input p) = Inr j" "ppi_inv j" "ppi_keeps_op (pim_input p) j" "ppi_state j = STATE_BUSY"
    using ppi_job_requestcancel_ok [OF ok(1) job] .
  have "pim_run_requestcancel p = Inr (p\<lparr>pim_input := j, pim_output := q\<rparr>)"
    using j(1) q(1) by (simp add: pim_run_requestcancel_def pim_input_handler_requestcancel_def)
  moreover have "pim_inv force (p\<lparr>pim_input := j\<rparr>)"
    by (rule pim_input_change [OF inv j(2)]) (use j(3,4) ok(2) in \<open>simp_all add: ppi_keeps_def ppi_keeps_op_def\<close>)
  then have "pim_inv force (p\<lparr>pim_input := j\<rparr>\<lparr>pim_output := q\<rparr>)"
    by (rule pim_output_change) (use q ok(2) inv in \<open>auto simp: pim_inv_def\<close>)
  ultimately show ?thesis by simp
qed

lemma pim_reach_inv: "pim_reach force p \<Longrightarrow> pim_inv force p"
proof (induction rule: pim_reach.induct)
  case (pim_init outp h p)
  then show ?case
    by (auto simp: PacketPassInactivityMonitor_Init_def PacketPassInterface_Init_def PacketPassInterface_GetMTU_def
        PacketPassInterface_HasCancel_def PacketPassInterface_EnableCancel_def PacketPassInterface_Sender_Init_def
        pim_inv_def ppi_inv_def result_simps split: if_splits)
next
  case (pim_sender_init p i)
  have "ppi_inv (pim_input p)" using pim_sender_init.IH by (simp add: pim_inv_def)
  then show ?case using pim_sender_init.hyps(2)
    by (intro pim_input_change [OF pim_sender_init.IH]) (auto simp: PacketPassInterface_Sender_Init_def ppi_inv_def ppi_keeps_def result_simps)
next
  case (pim_send p dat len i)
  have "ppi_inv (pim_input p)" using pim_send.IH by (simp add: pim_inv_def)
  then show ?case using pim_send.hyps(2)
    by (intro pim_input_change [OF pim_send.IH]) (auto simp: PacketPassInterface_Sender_Send_def ppi_inv_def ppi_keeps_def result_simps)
next
  case (pim_cancel p i)
  have "ppi_inv (pim_input p)" using pim_cancel.IH by (simp add: pim_inv_def)
  then have "ppi_inv i" "ppi_keeps (pim_input p) i" "ppi_state i = STATE_BUSY \<longleftrightarrow> ppi_state (pim_input p) = STATE_BUSY"
    using pim_cancel.hyps(2)
    by (auto simp: PacketPassInterface_Sender_RequestCancel_def ppi_inv_def ppi_keeps_def Let_def result_simps split: if_splits)
  then show ?case by (intro pim_input_change [OF pim_cancel.IH]) (auto simp: ppi_keeps_def)
next
  case (pim_operation p p')
  then show ?case using pim_run_operation_inv [of force p] by auto
next
  case (pim_requestcancel p p')
  then show ?case using pim_run_requestcancel_inv [of force p] by auto
next
  case (pim_done p i)
  have "ppi_inv (pim_input p)" using pim_done.IH by (simp add: pim_inv_def)
  then show ?case using pim_done.hyps(2,3)
    by (intro pim_input_change [OF pim_done.IH]) (auto simp: PacketPassInterface_job_done_def ppi_inv_def ppi_keeps_def result_simps)
next
  case (pim_out_operation p i dat len)
  have "ppi_inv (pim_output p)" using pim_out_operation.IH by (simp add: pim_inv_def)
  then show ?case using pim_out_operation.hyps(2,3)
    by (intro pim_output_change [OF pim_out_operation.IH]) (auto simp: PacketPassInterface_job_operation_def ppi_inv_def ppi_keeps_def result_simps)
next
  case (pim_out_requestcancel p i)
  have "ppi_inv (pim_output p)" using pim_out_requestcancel.IH by (simp add: pim_inv_def)
  then show ?case using pim_out_requestcancel.hyps(2,3)
    by (intro pim_output_change [OF pim_out_requestcancel.IH]) (auto simp: PacketPassInterface_job_requestcancel_def ppi_inv_def ppi_keeps_def result_simps)
next
  case (pim_out_finish p i)
  have "ppi_inv (pim_output p)" using pim_out_finish.IH by (simp add: pim_inv_def)
  then show ?case using pim_out_finish.hyps(2)
    by (intro pim_output_change [OF pim_out_finish.IH]) (auto simp: PacketPassInterface_Done_def ppi_inv_def ppi_keeps_def result_simps)
next
  case (pim_out_done p p')
  then show ?case using pim_run_output_done_inv [of force p] by auto
next
  case (pim_timer p p' h)
  then have "p' = p" by (cases p) (auto simp: pim_timer_handler_def)
  then show ?case using pim_timer.IH by simp
next
  case (pim_set_handler p h)
  then show ?case by (simp add: PacketPassInactivityMonitor_SetHandler_def pim_inv_def)
next
  case (pim_force p)
  then show ?case by (simp add: PacketPassInactivityMonitor_Force_def pim_inv_def)
qed

text \<open>
  C31: In every history of an inactivity monitor no job that is set fails an assertion. The timer
  runs whenever the output is idle, and as long as \<open>Force\<close> is not called it runs only then. So when
  the timer expires after the reactor has run all jobs, no packet is in progress on either
  interface, as the documentation of the inactivity handler promises. A request to cancel is passed
  on and leaves the timer as it is; the comment on the type (\<^verbatim>\<open>PacketPassInactivityMonitor.h\<close>, line
  63) says that it sets the timer, which the code does not do (it would let the timer run during
  sending).
\<close>

theorem PacketPassInactivityMonitor_correct:
  assumes "pim_reach force p"
  shows "(ppi_job_operation (pim_input p) \<longrightarrow> no_fault (pim_run_operation p)) \<and>
    (ppi_job_requestcancel (pim_input p) \<longrightarrow> no_fault (pim_run_requestcancel p)) \<and>
    (ppi_job_requestcancel (pim_input p) \<longrightarrow>
       (\<exists>p'. pim_run_requestcancel p = Inr p' \<and> pim_timer p' = pim_timer p)) \<and>
    (ppi_job_done (pim_output p) \<longrightarrow> no_fault (pim_run_output_done p)) \<and>
    (ppi_state (pim_output p) = STATE_NONE \<longrightarrow> pim_timer p) \<and>
    (\<not> force \<and> pim_timer p \<and> \<not> ppi_job_operation (pim_input p) \<and> \<not> ppi_job_done (pim_input p) \<longrightarrow>
       ppi_state (pim_input p) = STATE_NONE \<and> ppi_state (pim_output p) = STATE_NONE)"
proof -
  note inv = pim_reach_inv [OF assms]
  have "no_fault (pim_run_operation p)" if "ppi_job_operation (pim_input p)"
    using pim_run_operation_inv [OF inv that] by (auto simp: no_fault_iff)
  moreover have "no_fault (pim_run_requestcancel p)" if "ppi_job_requestcancel (pim_input p)"
    using pim_run_requestcancel_inv [OF inv that] by (auto simp: no_fault_iff)
  moreover have "\<exists>p'. pim_run_requestcancel p = Inr p' \<and> pim_timer p' = pim_timer p" if "ppi_job_requestcancel (pim_input p)"
    using pim_run_requestcancel_inv [OF inv that] by blast
  moreover have "no_fault (pim_run_output_done p)" if "ppi_job_done (pim_output p)"
    using pim_run_output_done_inv [OF inv that] by (auto simp: no_fault_iff)
  moreover have "ppi_state (pim_output p) = STATE_NONE \<longrightarrow> pim_timer p" using inv by (simp add: pim_inv_def)
  moreover have "ppi_state (pim_input p) = STATE_NONE \<and> ppi_state (pim_output p) = STATE_NONE"
    if "\<not> force" "pim_timer p" "\<not> ppi_job_operation (pim_input p)" "\<not> ppi_job_done (pim_input p)"
  proof -
    have "ppi_state (pim_output p) = STATE_NONE" "ppi_state (pim_input p) \<noteq> STATE_BUSY" "ppi_inv (pim_input p)"
      using inv that by (auto simp: pim_inv_def)
    then show ?thesis using that(3,4) by (cases "ppi_state (pim_input p)") (simp_all add: ppi_inv_jobs)
  qed
  ultimately show ?thesis by blast
qed

text \<open>A monitor whose output is taking a packet.\<close>

definition pim_example :: PacketPassInactivityMonitor where
  "pim_example =
     (let p = projr (PacketPassInactivityMonitor_Init (projr (PacketPassInterface_Init 100)) True);
          p = p\<lparr>pim_input := projr (PacketPassInterface_Sender_Init (pim_input p))\<rparr>;
          p = p\<lparr>pim_input := projr (PacketPassInterface_Sender_Send (pim_input p) (Some 5) 20)\<rparr>;
          p = projr (pim_run_operation p)
      in p\<lparr>pim_output := fst (projr (PacketPassInterface_job_operation (pim_output p)))\<rparr>)"

lemmas pim_eval = pim_example_def PacketPassInactivityMonitor_Init_def PacketPassInterface_GetMTU_def
  PacketPassInterface_HasCancel_def pim_run_operation_def pim_input_handler_send_def ppi_defs ppi_inv_def Let_def

lemma pim_example_reach: "pim_reach force pim_example"
proof -
  define p0 where "p0 = projr (PacketPassInactivityMonitor_Init (projr (PacketPassInterface_Init 100)) True)"
  define p1 where "p1 = p0\<lparr>pim_input := projr (PacketPassInterface_Sender_Init (pim_input p0))\<rparr>"
  define p2 where "p2 = p1\<lparr>pim_input := projr (PacketPassInterface_Sender_Send (pim_input p1) (Some 5) 20)\<rparr>"
  define p3 where "p3 = projr (pim_run_operation p2)"
  note d = p0_def p1_def p2_def p3_def pim_eval
  have "pim_reach force p0" by (rule pim_init [of "projr (PacketPassInterface_Init 100)" True]) (simp_all add: d)
  then have "pim_reach force p1" unfolding p1_def by (rule pim_sender_init) (simp add: d)
  then have "pim_reach force p2" unfolding p2_def by (rule pim_send [where dat = "Some 5" and len = 20]) (simp add: d)
  then have "pim_reach force p3" by (rule pim_operation) (simp_all add: d)
  then have "pim_reach force (p3\<lparr>pim_output := fst (projr (PacketPassInterface_job_operation (pim_output p3)))\<rparr>)"
    by (rule pim_out_operation [where dat = "Some 5" and len = 20]) (simp_all add: d)
  then show ?thesis by (simp add: pim_example_def p0_def p1_def p2_def p3_def Let_def)
qed

lemma pim_example_state:
  "ppi_state (pim_output pim_example) = STATE_BUSY" "ppi_state (pim_input pim_example) = STATE_BUSY" "\<not> pim_timer pim_example"
  "\<not> ppi_job_operation (pim_input pim_example)" "\<not> ppi_job_done (pim_input pim_example)" "pim_handler pim_example"
  by (simp_all add: pim_eval)

theorem PacketPassInactivityMonitor_correct_witness:
  "pim_reach False pim_example \<and> ppi_state (pim_output pim_example) \<noteq> STATE_NONE \<and> \<not> pim_timer pim_example"
  using PacketPassInactivityMonitor_correct [OF pim_example_reach [of False]] pim_example_reach [of False] pim_example_state by auto

text \<open>
  C32: With \<open>Force\<close> the promise is not kept: \<open>Force\<close> starts the timer without regard to the state of
  the interfaces, so the inactivity handler can be called while the output is busy with a packet and
  no job is pending.
\<close>

theorem PacketPassInactivityMonitor_Force_while_sending:
  "\<exists>p p'. pim_reach True p \<and> pim_timer p \<and> pim_timer_handler p = (p', True) \<and>
     ppi_state (pim_output p) = STATE_BUSY \<and> ppi_state (pim_input p) = STATE_BUSY \<and>
     \<not> ppi_job_operation (pim_output p) \<and> \<not> ppi_job_done (pim_output p) \<and>
     \<not> ppi_job_operation (pim_input p) \<and> \<not> ppi_job_done (pim_input p)"
proof (intro exI conjI)
  let ?p = "PacketPassInactivityMonitor_Force pim_example"
  show "pim_reach True ?p" by (rule pim_force [OF pim_example_reach]) simp
  show "pim_timer ?p" by (simp add: PacketPassInactivityMonitor_Force_def)
  show "pim_timer_handler ?p = (?p, True)"
    using pim_example_state by (simp add: pim_timer_handler_def PacketPassInactivityMonitor_Force_def)
qed (simp_all add: PacketPassInactivityMonitor_Force_def pim_eval)

end
