(* ===== verification/Fair_Queue.thy ===== *)
theory Fair_Queue
  imports Flow_Interfaces Socket_Addr
begin

section \<open>Fair queueing: \<^verbatim>\<open>flow/PacketPassFairQueue.c\<close>\<close>

text \<open>
  The udpgw client gives every UDP connection a flow of one fair queue in front of the single
  connection to the udpgw server. Each flow has a virtual time, the amount it has sent; the flow
  that sends next is the queued flow with the least time. Times are 64-bit numbers, and when one
  would overflow the times of all flows are lowered.

  Flows are identified by their addresses. The tree of queued flows (\<^verbatim>\<open>structure/SAvl\<close>) is the list of
  its elements in the order of \<open>compare_flows\<close>, and the linked list of all flows the list of its
  elements. The flow's own input interface and the shared output interface are in the state, so
  their assertions are part of the handlers.
\<close>

definition FAIRQUEUE_MAX_TIME :: u64 where
  "FAIRQUEUE_MAX_TIME = - 1"

record PacketPassFairQueueFlow =
  fl_handler_busy :: bool
  fl_input :: "int PacketPassInterface"
  fl_time :: u64
  fl_is_queued :: bool
  fl_data :: "int option"
  fl_data_len :: int

record PacketPassFairQueue =
  fq_output :: "int PacketPassInterface"
  fq_use_cancel :: bool
  fq_packet_weight :: int
  fq_sending_flow :: "nat option"
  fq_sending_len :: int
  fq_previous_flow :: "nat option"
  fq_queued_tree :: "nat list"
  fq_flows_list :: "nat list"
  fq_freeing :: bool
  fq_schedule_job :: bool
  fq_flow :: "nat \<Rightarrow> PacketPassFairQueueFlow"

abbreviation upd_flow :: "PacketPassFairQueue \<Rightarrow> nat \<Rightarrow> (PacketPassFairQueueFlow \<Rightarrow> PacketPassFairQueueFlow) \<Rightarrow> PacketPassFairQueue" where
  "upd_flow m f g \<equiv> m\<lparr>fq_flow := (fq_flow m)(f := g (fq_flow m f))\<rparr>"

definition compare_flows :: "PacketPassFairQueue \<Rightarrow> nat \<Rightarrow> nat \<Rightarrow> int" where
  "compare_flows m f1 f2 =
     (let cmp = B_COMPARE (fl_time (fq_flow m f1)) (fl_time (fq_flow m f2)) in
      if cmp \<noteq> 0 then cmp else B_COMPARE f1 f2)"

definition tree_GetFirst :: "PacketPassFairQueue \<Rightarrow> nat option" where
  "tree_GetFirst m = (case fq_queued_tree m of [] \<Rightarrow> None | f # _ \<Rightarrow> Some f)"

fun tree_insert :: "PacketPassFairQueue \<Rightarrow> nat \<Rightarrow> nat list \<Rightarrow> nat list option" where
  "tree_insert m f [] = Some [f]"
| "tree_insert m f (g # gs) =
     (if compare_flows m f g = 0 then None
      else if compare_flows m f g < 0 then Some (f # g # gs)
      else map_option ((#) g) (tree_insert m f gs))"

definition get_current_time :: "PacketPassFairQueue \<Rightarrow> u64 result" where
  "get_current_time m =
     (case fq_sending_flow m of Some f \<Rightarrow> Inr (fl_time (fq_flow m f))
      | None \<Rightarrow>
        andthen (case tree_GetFirst m of None \<Rightarrow> Inr None
                 | Some f \<Rightarrow> ASSERT (fl_is_queued (fq_flow m f)) (Inr (Some (fl_time (fq_flow m f))))) (\<lambda>time.
        let time = (case fq_previous_flow m of None \<Rightarrow> time
                    | Some p \<Rightarrow> (case time of None \<Rightarrow> Some (fl_time (fq_flow m p))
                                 | Some t \<Rightarrow> if fl_time (fq_flow m p) < t then Some (fl_time (fq_flow m p)) else time))
        in Inr (case time of None \<Rightarrow> 0 | Some t \<Rightarrow> t)))"

text \<open>The loop of \<open>increment_sent_flow\<close> over all flows, one iteration and the whole.\<close>

definition subtract_flow :: "nat \<Rightarrow> u64 \<Rightarrow> nat \<Rightarrow> PacketPassFairQueue \<Rightarrow> PacketPassFairQueue result" where
  "subtract_flow flow subtract someflow m =
     (if subtract > fl_time (fq_flow m someflow) \<and> someflow \<noteq> flow
      then ASSERT (\<not> fl_is_queued (fq_flow m someflow)) (Inr (upd_flow m someflow (\<lambda>x. x\<lparr>fl_time := 0\<rparr>)))
      else Inr (upd_flow m someflow (\<lambda>x. x\<lparr>fl_time := fl_time x - subtract\<rparr>)))"

fun subtract_all :: "nat \<Rightarrow> u64 \<Rightarrow> nat list \<Rightarrow> PacketPassFairQueue \<Rightarrow> PacketPassFairQueue result" where
  "subtract_all flow subtract [] m = Inr m"
| "subtract_all flow subtract (f # fs) m = andthen (subtract_flow flow subtract f m) (subtract_all flow subtract fs)"

definition increment_sent_flow :: "PacketPassFairQueue \<Rightarrow> nat \<Rightarrow> u64 \<Rightarrow> PacketPassFairQueue result" where
  "increment_sent_flow m flow amount =
     ASSERT (amount \<le> FAIRQUEUE_MAX_TIME)
     (ASSERT (\<not> fl_is_queued (fq_flow m flow))
     (ASSERT (fq_sending_flow m = None)
     (andthen (if amount > FAIRQUEUE_MAX_TIME - fl_time (fq_flow m flow)
               then andthen (case tree_GetFirst m of None \<Rightarrow> Inr (fl_time (fq_flow m flow))
                             | Some f \<Rightarrow> ASSERT (fl_is_queued (fq_flow m f)) (Inr (fl_time (fq_flow m f))))
                      (\<lambda>subtract. subtract_all flow subtract (fq_flows_list m) m)
               else Inr m) (\<lambda>m.
      Inr (upd_flow m flow (\<lambda>x. x\<lparr>fl_time := fl_time x + amount\<rparr>))))))"

definition schedule :: "PacketPassFairQueue \<Rightarrow> PacketPassFairQueue result" where
  "schedule m =
     ASSERT (fq_sending_flow m = None)
     (ASSERT (fq_previous_flow m = None)
     (ASSERT (\<not> fq_freeing m)
     (ASSERT (fq_queued_tree m \<noteq> [])
     (case tree_GetFirst m of None \<Rightarrow> Inl Out_of_bounds
      | Some q \<Rightarrow>
          ASSERT (fl_is_queued (fq_flow m q))
          (let m = upd_flow (m\<lparr>fq_queued_tree := remove1 q (fq_queued_tree m)\<rparr>) q (\<lambda>x. x\<lparr>fl_is_queued := False\<rparr>) in
           andthen (PacketPassInterface_Sender_Send (fq_output m) (fl_data (fq_flow m q)) (fl_data_len (fq_flow m q))) (\<lambda>outp.
           Inr (m\<lparr>fq_output := outp, fq_sending_flow := Some q, fq_sending_len := fl_data_len (fq_flow m q)\<rparr>)))))))"

text \<open>The job runs after the reactor has unset it.\<close>

definition schedule_job_handler :: "PacketPassFairQueue \<Rightarrow> PacketPassFairQueue result" where
  "schedule_job_handler m =
     (let m = m\<lparr>fq_schedule_job := False\<rparr> in
      ASSERT (fq_sending_flow m = None)
      (ASSERT (\<not> fq_freeing m)
      (let m = m\<lparr>fq_previous_flow := None\<rparr> in
       if fq_queued_tree m \<noteq> [] then schedule m else Inr m)))"

definition fq_input_handler_send :: "PacketPassFairQueue \<Rightarrow> nat \<Rightarrow> int option \<Rightarrow> int \<Rightarrow> PacketPassFairQueue result" where
  "fq_input_handler_send m flow data data_len =
     ASSERT (Some flow \<noteq> fq_sending_flow m)
     (ASSERT (\<not> fl_is_queued (fq_flow m flow))
     (ASSERT (\<not> fq_freeing m)
     (andthen (if Some flow = fq_previous_flow m then Inr (m\<lparr>fq_previous_flow := None\<rparr>)
               else andthen (get_current_time m) (\<lambda>t.
                    Inr (upd_flow m flow (\<lambda>x. x\<lparr>fl_time := max (fl_time x) t\<rparr>)))) (\<lambda>m.
      let m = upd_flow m flow (\<lambda>x. x\<lparr>fl_data := data, fl_data_len := data_len\<rparr>) in
      case tree_insert m flow (fq_queued_tree m) of None \<Rightarrow> Inl Assertion_failed
      | Some tree \<Rightarrow>
          (let m = upd_flow (m\<lparr>fq_queued_tree := tree\<rparr>) flow (\<lambda>x. x\<lparr>fl_is_queued := True\<rparr>) in
           if fq_sending_flow m = None \<and> \<not> fq_schedule_job m then schedule m else Inr m)))))"

text \<open>\<open>output_handler_done\<close>; the boolean tells whether the flow's busy handler is called at the end.\<close>

definition fq_output_handler_done :: "PacketPassFairQueue \<Rightarrow> (PacketPassFairQueue \<times> bool) result" where
  "fq_output_handler_done m =
     (case fq_sending_flow m of None \<Rightarrow> Inl Assertion_failed
      | Some flow \<Rightarrow>
          ASSERT (fq_previous_flow m = None)
          (ASSERT (\<not> fq_schedule_job m)
          (ASSERT (\<not> fq_freeing m)
          (ASSERT (\<not> fl_is_queued (fq_flow m flow))
          (let m = m\<lparr>fq_sending_flow := None, fq_previous_flow := Some flow\<rparr> in
           andthen (increment_sent_flow m flow (of_int (fq_packet_weight m) + of_int (fq_sending_len m))) (\<lambda>m.
           let m = m\<lparr>fq_schedule_job := True\<rparr> in
           andthen (PacketPassInterface_Done (fl_input (fq_flow m flow))) (\<lambda>i.
           let m = upd_flow m flow (\<lambda>x. x\<lparr>fl_input := i\<rparr>) in
           Inr (upd_flow m flow (\<lambda>x. x\<lparr>fl_handler_busy := False\<rparr>), fl_handler_busy (fq_flow m flow)))))))))"

text \<open>\<open>None\<close> is the return value 0.\<close>

definition PacketPassFairQueue_Init :: "int PacketPassInterface \<Rightarrow> bool \<Rightarrow> int \<Rightarrow>
    (nat \<Rightarrow> PacketPassFairQueueFlow) \<Rightarrow> PacketPassFairQueue option result" where
  "PacketPassFairQueue_Init outp use_cancel packet_weight mem =
     ASSERT (packet_weight > 0)
     (ASSERT (\<not> use_cancel \<or> PacketPassInterface_HasCancel outp)
     (if \<not> (PacketPassInterface_GetMTU outp \<le> uint FAIRQUEUE_MAX_TIME \<and>
            packet_weight \<le> uint FAIRQUEUE_MAX_TIME - PacketPassInterface_GetMTU outp) then Inr None
      else andthen (PacketPassInterface_Sender_Init outp) (\<lambda>outp.
        Inr (Some \<lparr> fq_output = outp, fq_use_cancel = use_cancel, fq_packet_weight = packet_weight,
             fq_sending_flow = None, fq_sending_len = 0, fq_previous_flow = None, fq_queued_tree = [],
             fq_flows_list = [], fq_freeing = False, fq_schedule_job = False, fq_flow = mem \<rparr>))))"

definition PacketPassFairQueue_Free :: "PacketPassFairQueue \<Rightarrow> unit result" where
  "PacketPassFairQueue_Free m =
     ASSERT (fq_flows_list m = []) (ASSERT (fq_queued_tree m = []) (ASSERT (fq_previous_flow m = None)
     (ASSERT (fq_sending_flow m = None) (Inr ()))))"

definition PacketPassFairQueue_PrepareFree :: "PacketPassFairQueue \<Rightarrow> PacketPassFairQueue" where
  "PacketPassFairQueue_PrepareFree m = m\<lparr>fq_freeing := True\<rparr>"

definition PacketPassFairQueue_GetMTU :: "PacketPassFairQueue \<Rightarrow> int" where
  "PacketPassFairQueue_GetMTU m = PacketPassInterface_GetMTU (fq_output m)"

definition PacketPassFairQueueFlow_Init :: "PacketPassFairQueue \<Rightarrow> nat \<Rightarrow> PacketPassFairQueue result" where
  "PacketPassFairQueueFlow_Init m flow =
     ASSERT (\<not> fq_freeing m)
     (andthen (PacketPassInterface_Init (PacketPassInterface_GetMTU (fq_output m))) (\<lambda>i.
      Inr ((upd_flow m flow (\<lambda>x. x\<lparr>fl_handler_busy := False, fl_input := i, fl_time := 0, fl_is_queued := False\<rparr>))
             \<lparr>fq_flows_list := fq_flows_list m @ [flow]\<rparr>)))"

definition PacketPassFairQueueFlow_Free :: "PacketPassFairQueue \<Rightarrow> nat \<Rightarrow> PacketPassFairQueue result" where
  "PacketPassFairQueueFlow_Free m flow =
     ASSERT (fq_freeing m \<or> Some flow \<noteq> fq_sending_flow m)
     (let m = (if Some flow = fq_sending_flow m then m\<lparr>fq_sending_flow := None\<rparr> else m);
          m = (if Some flow = fq_previous_flow m then m\<lparr>fq_previous_flow := None\<rparr> else m);
          m = (if fl_is_queued (fq_flow m flow) then m\<lparr>fq_queued_tree := remove1 flow (fq_queued_tree m)\<rparr> else m)
      in Inr (m\<lparr>fq_flows_list := remove1 flow (fq_flows_list m)\<rparr>))"

definition PacketPassFairQueueFlow_AssertFree :: "PacketPassFairQueue \<Rightarrow> nat \<Rightarrow> unit result" where
  "PacketPassFairQueueFlow_AssertFree m flow = ASSERT (fq_freeing m \<or> Some flow \<noteq> fq_sending_flow m) (Inr ())"

definition PacketPassFairQueueFlow_IsBusy :: "PacketPassFairQueue \<Rightarrow> nat \<Rightarrow> bool result" where
  "PacketPassFairQueueFlow_IsBusy m flow = ASSERT (\<not> fq_freeing m) (Inr (Some flow = fq_sending_flow m))"

definition PacketPassFairQueueFlow_RequestCancel :: "PacketPassFairQueue \<Rightarrow> nat \<Rightarrow> PacketPassFairQueue result" where
  "PacketPassFairQueueFlow_RequestCancel m flow =
     ASSERT (Some flow = fq_sending_flow m) (ASSERT (fq_use_cancel m) (ASSERT (\<not> fq_freeing m)
     (ASSERT (\<not> fq_schedule_job m)
     (andthen (PacketPassInterface_Sender_RequestCancel (fq_output m)) (\<lambda>outp. Inr (m\<lparr>fq_output := outp\<rparr>))))))"

definition PacketPassFairQueueFlow_SetBusyHandler :: "PacketPassFairQueue \<Rightarrow> nat \<Rightarrow> bool \<Rightarrow> PacketPassFairQueue result" where
  "PacketPassFairQueueFlow_SetBusyHandler m flow handler =
     ASSERT (Some flow = fq_sending_flow m) (ASSERT (\<not> fq_freeing m)
       (Inr (upd_flow m flow (\<lambda>x. x\<lparr>fl_handler_busy := handler\<rparr>))))"

subsection \<open>The order of the queue\<close>

lemma compare_flows_less:
  "compare_flows m f g < 0 \<longleftrightarrow>
     fl_time (fq_flow m f) < fl_time (fq_flow m g) \<or> fl_time (fq_flow m f) = fl_time (fq_flow m g) \<and> f < g"
  by (auto simp: compare_flows_def Let_def B_COMPARE_def)

lemma compare_flows_zero: "compare_flows m f g = 0 \<longleftrightarrow> f = g"
  by (auto simp: compare_flows_def Let_def B_COMPARE_def split: if_splits)

definition fq_sorted :: "PacketPassFairQueue \<Rightarrow> nat list \<Rightarrow> bool" where
  "fq_sorted m xs \<longleftrightarrow> sorted_wrt (\<lambda>f g. compare_flows m f g < 0) xs"

lemma compare_flows_trans:
  "compare_flows m f g < 0 \<Longrightarrow> compare_flows m g h < 0 \<Longrightarrow> compare_flows m f h < 0"
  unfolding compare_flows_less by auto

lemma compare_flows_total: "f \<noteq> g \<Longrightarrow> \<not> compare_flows m f g < 0 \<Longrightarrow> compare_flows m g f < 0"
  unfolding compare_flows_less by auto

lemma tree_insert_sorted:
  assumes "fq_sorted m xs" and "f \<notin> set xs"
  shows "\<exists>ys. tree_insert m f xs = Some ys \<and> fq_sorted m ys \<and> set ys = insert f (set xs)"
  using assms
proof (induction xs)
  case Nil
  then show ?case by (simp add: fq_sorted_def)
next
  case (Cons g gs)
  then have ne: "f \<noteq> g" "f \<notin> set gs" "fq_sorted m gs" "\<forall>x\<in>set gs. compare_flows m g x < 0"
    by (auto simp: fq_sorted_def)
  show ?case
  proof (cases "compare_flows m f g < 0")
    case True
    then have "\<forall>x\<in>set gs. compare_flows m f x < 0" using ne(4) compare_flows_trans by blast
    then show ?thesis using True Cons.prems ne by (auto simp: fq_sorted_def compare_flows_zero)
  next
    case False
    then have lt: "compare_flows m g f < 0" using compare_flows_total ne(1) by blast
    obtain ys where "tree_insert m f gs = Some ys" "fq_sorted m ys" "set ys = insert f (set gs)"
      using Cons.IH ne by blast
    then show ?thesis using False lt ne by (auto simp: fq_sorted_def compare_flows_zero)
  qed
qed

lemma fq_sorted_Cons:
  "fq_sorted m (x # xs) \<longleftrightarrow> (\<forall>y\<in>set xs. compare_flows m x y < 0) \<and> fq_sorted m xs"
  by (simp add: fq_sorted_def)

lemma fq_sorted_mono:
  assumes "fq_sorted m xs"
    and "\<And>f g. f \<in> set xs \<Longrightarrow> g \<in> set xs \<Longrightarrow> compare_flows m f g < 0 \<Longrightarrow> compare_flows m' f g < 0"
  shows "fq_sorted m' xs"
  using assms
proof (induction xs)
  case (Cons x xs)
  show ?case
    unfolding fq_sorted_Cons
  proof (intro conjI ballI)
    fix y assume "y \<in> set xs"
    moreover from this Cons.prems(1) have "compare_flows m x y < 0" by (simp add: fq_sorted_Cons)
    ultimately show "compare_flows m' x y < 0" by (intro Cons.prems(2)) simp_all
  next
    show "fq_sorted m' xs"
      by (rule Cons.IH) (use Cons.prems in \<open>simp_all add: fq_sorted_Cons\<close>)
  qed
qed (simp add: fq_sorted_def)

lemma fq_sorted_cong:
  assumes "fq_sorted m xs" and "\<And>f. f \<in> set xs \<Longrightarrow> fl_time (fq_flow m' f) = fl_time (fq_flow m f)"
  shows "fq_sorted m' xs"
  by (rule fq_sorted_mono [OF assms(1)]) (simp add: assms(2) compare_flows_less)

text \<open>Lowering all times by the least of them keeps the order.\<close>

lemma word_diff_less: "a < b \<Longrightarrow> s \<le> a \<Longrightarrow> a - s < b - s" for a b s :: u64
  by (simp add: word_less_nat_alt word_le_nat_alt unat_sub order.trans)

lemma fq_sorted_shift:
  assumes "fq_sorted m xs" and "\<And>f. f \<in> set xs \<Longrightarrow> s \<le> fl_time (fq_flow m f)"
    and "\<And>f. f \<in> set xs \<Longrightarrow> fl_time (fq_flow m' f) = fl_time (fq_flow m f) - s"
  shows "fq_sorted m' xs"
proof (rule fq_sorted_mono [OF assms(1)])
  fix f g assume f: "f \<in> set xs" and g: "g \<in> set xs" and lt: "compare_flows m f g < 0"
  show "compare_flows m' f g < 0"
    using lt word_diff_less [OF _ assms(2) [OF f], of "fl_time (fq_flow m g)"]
    unfolding compare_flows_less assms(3) [OF f] assms(3) [OF g] by auto
qed

definition lowered_time :: "nat \<Rightarrow> u64 \<Rightarrow> nat \<Rightarrow> u64 \<Rightarrow> u64" where
  "lowered_time flow s f t = (if s > t \<and> f \<noteq> flow then 0 else t - s)"

definition lower_times :: "nat \<Rightarrow> u64 \<Rightarrow> nat list \<Rightarrow> PacketPassFairQueue \<Rightarrow> PacketPassFairQueue" where
  "lower_times flow s fs m = m\<lparr>fq_flow := \<lambda>f.
     if f \<in> set fs then (fq_flow m f)\<lparr>fl_time := lowered_time flow s f (fl_time (fq_flow m f))\<rparr> else fq_flow m f\<rparr>"

lemma subtract_flow_eq:
  assumes "fl_is_queued (fq_flow m f) \<Longrightarrow> s \<le> fl_time (fq_flow m f)"
  shows "subtract_flow flow s f m =
    Inr (upd_flow m f (\<lambda>x. x\<lparr>fl_time := lowered_time flow s f (fl_time x)\<rparr>))"
  using assms by (cases "s > fl_time (fq_flow m f)") (auto simp: subtract_flow_def lowered_time_def ASSERT_def)

lemma lower_times_Cons:
  assumes "f \<notin> set fs"
  shows "lower_times flow s fs (upd_flow m f (\<lambda>x. x\<lparr>fl_time := lowered_time flow s f (fl_time x)\<rparr>)) =
    lower_times flow s (f # fs) m"
  by (rule PacketPassFairQueue.equality) (use assms in \<open>auto simp: lower_times_def fun_eq_iff\<close>)

lemma subtract_all_eq:
  assumes "distinct fs"
    and "\<And>f. f \<in> set fs \<Longrightarrow> fl_is_queued (fq_flow m f) \<Longrightarrow> s \<le> fl_time (fq_flow m f)"
  shows "subtract_all flow s fs m = Inr (lower_times flow s fs m)"
  using assms
proof (induction fs arbitrary: m)
  case Nil
  then show ?case by (simp add: lower_times_def)
next
  case (Cons f fs)
  let ?m = "upd_flow m f (\<lambda>x. x\<lparr>fl_time := lowered_time flow s f (fl_time x)\<rparr>)"
  have "subtract_all flow s fs ?m = Inr (lower_times flow s fs ?m)"
    by (rule Cons.IH) (use Cons.prems in \<open>auto split: if_splits\<close>)
  then show ?case
    using lower_times_Cons [of f fs flow s m] subtract_flow_eq [of m f s flow] Cons.prems by simp
qed

definition fq_queue_ok :: "PacketPassFairQueue \<Rightarrow> bool" where
  "fq_queue_ok m \<longleftrightarrow> distinct (fq_flows_list m) \<and> set (fq_queued_tree m) \<subseteq> set (fq_flows_list m) \<and>
     (\<forall>f\<in>set (fq_flows_list m). fl_is_queued (fq_flow m f) \<longleftrightarrow> f \<in> set (fq_queued_tree m)) \<and>
     fq_sorted m (fq_queued_tree m)"

lemma fq_first_least:
  assumes "fq_queue_ok m" and "fq_queued_tree m = q # qs" and "f \<in> set (fq_queued_tree m)"
  shows "fl_time (fq_flow m q) \<le> fl_time (fq_flow m f)"
  using assms by (auto simp: fq_queue_ok_def fq_sorted_Cons compare_flows_less)

lemma fq_queued_flag:
  "fq_queue_ok m \<Longrightarrow> f \<in> set (fq_queued_tree m) \<Longrightarrow> fl_is_queued (fq_flow m f) \<and> f \<in> set (fq_flows_list m)"
  by (auto simp: fq_queue_ok_def)

lemma uint_diff_le: "s \<le> t \<Longrightarrow> uint (t - s) = uint t - uint s" for s t :: u64
  by (simp add: uint_minus_simple_alt)

lemma uint_max_diff: "uint (FAIRQUEUE_MAX_TIME - t) = 18446744073709551615 - uint t"
proof -
  have "uint (- 1 :: u64) = 18446744073709551615" by (simp add: unsigned_minus_1_eq_mask mask_eq_exp_minus_1)
  moreover have "t \<le> - 1" by simp
  ultimately show ?thesis using uint_diff_le [of t "- 1"] unfolding FAIRQUEUE_MAX_TIME_def by metis
qed

lemma uint_wrap_diff:
  assumes "t \<le> s" and "amount > FAIRQUEUE_MAX_TIME - t"
  shows "uint (t - s + amount) = uint t + uint amount - uint s"
proof -
  have "uint t \<le> uint s" using assms(1) by (simp add: word_le_def)
  moreover have "uint amount > 18446744073709551615 - uint t"
    using assms(2) by (simp add: word_less_def uint_max_diff)
  moreover have "uint amount < 18446744073709551616" "uint s < 18446744073709551616"
    using uint_lt2p [of amount] uint_lt2p [of s] by simp_all
  ultimately have "0 \<le> uint t + uint amount - uint s" "uint t + uint amount - uint s < 18446744073709551616" by auto
  moreover have "uint (t - s + amount) = (uint t + uint amount - uint s) mod 18446744073709551616"
    by (simp add: uint_word_ariths mod_simps algebra_simps)
  ultimately show ?thesis by simp
qed

lemma uint_nowrap_add:
  assumes "\<not> amount > FAIRQUEUE_MAX_TIME - t"
  shows "uint (t + amount) = uint t + uint amount"
proof -
  have "uint amount \<le> 18446744073709551615 - uint t"
    using assms by (simp add: word_le_def not_less uint_max_diff)
  then show ?thesis by (subst uint_add_lem [THEN iffD1]) simp_all
qed

lemma uint_lowered_time:
  "f \<noteq> flow \<Longrightarrow> uint (lowered_time flow s f t) = max 0 (uint t - uint s)"
  by (auto simp: lowered_time_def uint_diff_le not_less word_less_def word_le_def)

text \<open>
  What \<open>increment_sent_flow\<close> computes: \<open>s\<close> is the time taken off all flows, 0 when there is no overflow.
\<close>

definition overflow_subtract :: "PacketPassFairQueue \<Rightarrow> nat \<Rightarrow> u64 \<Rightarrow> u64" where
  "overflow_subtract m flow amount =
     (if amount > FAIRQUEUE_MAX_TIME - fl_time (fq_flow m flow)
      then (case tree_GetFirst m of None \<Rightarrow> fl_time (fq_flow m flow) | Some f \<Rightarrow> fl_time (fq_flow m f)) else 0)"

lemma uint_overflow_subtract:
  assumes "fq_queue_ok m"
  shows "uint (overflow_subtract m flow amount) =
    (if uint (fl_time (fq_flow m flow)) + uint amount < 2 ^ 64 then 0
     else if fq_queued_tree m = [] then uint (fl_time (fq_flow m flow))
     else Min ((\<lambda>g. uint (fl_time (fq_flow m g))) ` set (fq_queued_tree m)))"
proof -
  have over: "amount > FAIRQUEUE_MAX_TIME - fl_time (fq_flow m flow) \<longleftrightarrow>
      \<not> uint (fl_time (fq_flow m flow)) + uint amount < 2 ^ 64"
    by (simp add: word_less_def uint_max_diff) linarith
  have "uint (fl_time (fq_flow m q)) = Min ((\<lambda>g. uint (fl_time (fq_flow m g))) ` set (fq_queued_tree m))"
    if "fq_queued_tree m = q # qs" for q qs
    by (rule Min_eqI [symmetric]) (use fq_first_least [OF assms that] that in \<open>auto simp: word_le_def\<close>)
  then show ?thesis unfolding overflow_subtract_def over
    by (cases "fq_queued_tree m") (simp_all add: tree_GetFirst_def)
qed

lemma increment_sent_flow_spec:
  assumes ok: "fq_queue_ok m" and flow: "flow \<in> set (fq_flows_list m)" "flow \<notin> set (fq_queued_tree m)"
    and idle: "fq_sending_flow m = None"
    and least: "\<And>f. f \<in> set (fq_queued_tree m) \<Longrightarrow> fl_time (fq_flow m flow) \<le> fl_time (fq_flow m f)"
  obtains m' s where "increment_sent_flow m flow amount = Inr m'" "s = overflow_subtract m flow amount"
    "m' = m\<lparr>fq_flow := fq_flow m'\<rparr>" "\<And>f. fq_flow m' f = (fq_flow m f)\<lparr>fl_time := fl_time (fq_flow m' f)\<rparr>"
    "uint (fl_time (fq_flow m' flow)) = uint (fl_time (fq_flow m flow)) + uint amount - uint s"
    "\<And>f. f \<in> set (fq_flows_list m) \<Longrightarrow> f \<noteq> flow \<Longrightarrow>
       uint (fl_time (fq_flow m' f)) = max 0 (uint (fl_time (fq_flow m f)) - uint s)"
    "\<And>f. f \<in> set (fq_queued_tree m) \<Longrightarrow> s \<le> fl_time (fq_flow m f) \<and> fl_time (fq_flow m' f) = fl_time (fq_flow m f) - s"
proof -
  have nq: "\<not> fl_is_queued (fq_flow m flow)" using ok flow by (auto simp: fq_queue_ok_def)
  let ?add = "\<lambda>m. upd_flow m flow (\<lambda>x. x\<lparr>fl_time := fl_time x + amount\<rparr>)"
  show thesis
  proof (cases "amount > FAIRQUEUE_MAX_TIME - fl_time (fq_flow m flow)")
    case False
    show thesis
    proof (rule that [where ?m' = "?add m" and s = 0])
      show "increment_sent_flow m flow amount = Inr (?add m)"
        using nq idle False by (simp add: increment_sent_flow_def FAIRQUEUE_MAX_TIME_def not_less [symmetric])
      show "0 = overflow_subtract m flow amount" using False by (simp add: overflow_subtract_def)
      show "uint (fl_time (fq_flow (?add m) flow)) = uint (fl_time (fq_flow m flow)) + uint amount - uint (0 :: u64)"
        using uint_nowrap_add [OF False] by simp
    qed (use flow in \<open>auto simp: not_less\<close>)
  next
    case True
    define s where "s = (case tree_GetFirst m of None \<Rightarrow> fl_time (fq_flow m flow) | Some f \<Rightarrow> fl_time (fq_flow m f))"
    have s: "fl_time (fq_flow m flow) \<le> s" "\<And>f. f \<in> set (fq_queued_tree m) \<Longrightarrow> s \<le> fl_time (fq_flow m f)"
      using least fq_first_least [OF ok] unfolding s_def tree_GetFirst_def by (auto split: list.splits)
    have sub: "subtract_all flow s (fq_flows_list m) m = Inr (lower_times flow s (fq_flows_list m) m)"
      using ok s(2) by (intro subtract_all_eq) (auto simp: fq_queue_ok_def)
    have get: "(case tree_GetFirst m of None \<Rightarrow> Inr (fl_time (fq_flow m flow))
        | Some f \<Rightarrow> ASSERT (fl_is_queued (fq_flow m f)) (Inr (fl_time (fq_flow m f)))) = Inr s"
      using fq_queued_flag [OF ok] unfolding s_def tree_GetFirst_def by (auto split: list.splits)
    let ?m' = "?add (lower_times flow s (fq_flows_list m) m)"
    show thesis
    proof (rule that [where ?m' = ?m' and s = s])
      show "increment_sent_flow m flow amount = Inr ?m'"
        using nq idle True get sub by (simp add: increment_sent_flow_def FAIRQUEUE_MAX_TIME_def [symmetric])
           (simp add: FAIRQUEUE_MAX_TIME_def)
      show "s = overflow_subtract m flow amount" using True by (simp add: overflow_subtract_def s_def)
      show "uint (fl_time (fq_flow ?m' flow)) = uint (fl_time (fq_flow m flow)) + uint amount - uint s"
        using uint_wrap_diff [OF s(1) True] flow by (simp add: lower_times_def lowered_time_def)
      show "uint (fl_time (fq_flow ?m' f)) = max 0 (uint (fl_time (fq_flow m f)) - uint s)"
        if "f \<in> set (fq_flows_list m)" "f \<noteq> flow" for f
        using that uint_lowered_time by (simp add: lower_times_def)
      show "s \<le> fl_time (fq_flow m f) \<and> fl_time (fq_flow ?m' f) = fl_time (fq_flow m f) - s"
        if "f \<in> set (fq_queued_tree m)" for f
        using that s(2) flow(2) fq_queued_flag [OF ok that] by (auto simp: lower_times_def lowered_time_def not_less [symmetric])
    qed (auto simp: lower_times_def)
  qed
qed

subsection \<open>The invariant\<close>

text \<open>
  The jobs as the reactor runs them: a flow's user has sent a packet, a flow's user is told that its
  packet is done, the provider of the output takes a packet, and the provider has finished it.
\<close>

definition fq_run_flow_operation :: "PacketPassFairQueue \<Rightarrow> nat \<Rightarrow> PacketPassFairQueue result" where
  "fq_run_flow_operation m f =
     andthen (PacketPassInterface_job_operation (fl_input (fq_flow m f))) (\<lambda>(i, data, data_len).
       fq_input_handler_send (upd_flow m f (\<lambda>x. x\<lparr>fl_input := i\<rparr>)) f data data_len)"

definition fq_run_flow_done :: "PacketPassFairQueue \<Rightarrow> nat \<Rightarrow> PacketPassFairQueue result" where
  "fq_run_flow_done m f =
     andthen (PacketPassInterface_job_done (fl_input (fq_flow m f))) (\<lambda>i. Inr (upd_flow m f (\<lambda>x. x\<lparr>fl_input := i\<rparr>)))"

definition fq_run_output_done :: "PacketPassFairQueue \<Rightarrow> (PacketPassFairQueue \<times> bool) result" where
  "fq_run_output_done m =
     andthen (PacketPassInterface_job_done (fq_output m)) (\<lambda>i. fq_output_handler_done (m\<lparr>fq_output := i\<rparr>))"

definition fq_flow_ok :: "PacketPassFairQueue \<Rightarrow> nat \<Rightarrow> bool" where
  "fq_flow_ok m f \<longleftrightarrow> ppi_inv (fl_input (fq_flow m f)) \<and>
     ppi_mtu (fl_input (fq_flow m f)) = ppi_mtu (fq_output m) \<and>
     (ppi_state (fl_input (fq_flow m f)) = STATE_BUSY \<longleftrightarrow> f \<in> set (fq_queued_tree m) \<or> fq_sending_flow m = Some f) \<and>
     (f \<in> set (fq_queued_tree m) \<longrightarrow>
        0 \<le> fl_data_len (fq_flow m f) \<and> fl_data_len (fq_flow m f) \<le> ppi_mtu (fq_output m) \<and>
        (fl_data_len (fq_flow m f) > 0 \<longrightarrow> fl_data (fq_flow m f) \<noteq> None))"

definition fq_output_ok :: "PacketPassFairQueue \<Rightarrow> bool" where
  "fq_output_ok m \<longleftrightarrow> ppi_inv (fq_output m) \<and> ppi_handler_done (fq_output m) \<and> 0 \<le> ppi_mtu (fq_output m) \<and>
     0 < fq_packet_weight m \<and> fq_packet_weight m + ppi_mtu (fq_output m) \<le> uint FAIRQUEUE_MAX_TIME \<and>
     (ppi_state (fq_output m) = STATE_NONE \<longleftrightarrow> fq_sending_flow m = None) \<and>
     (fq_use_cancel m \<longrightarrow> ppi_handler_requestcancel (fq_output m))"

definition fq_sending_ok :: "PacketPassFairQueue \<Rightarrow> bool" where
  "fq_sending_ok m \<longleftrightarrow> (\<forall>f. fq_sending_flow m = Some f \<longrightarrow>
     f \<in> set (fq_flows_list m) \<and> f \<notin> set (fq_queued_tree m) \<and> fq_previous_flow m = None \<and> \<not> fq_schedule_job m \<and>
     0 \<le> fq_sending_len m \<and> fq_sending_len m \<le> ppi_mtu (fq_output m) \<and>
     (\<forall>g\<in>set (fq_queued_tree m). fl_time (fq_flow m f) \<le> fl_time (fq_flow m g)))"

definition fq_idle_ok :: "PacketPassFairQueue \<Rightarrow> bool" where
  "fq_idle_ok m \<longleftrightarrow>
     (\<forall>p. fq_previous_flow m = Some p \<longrightarrow>
        p \<in> set (fq_flows_list m) \<and> p \<notin> set (fq_queued_tree m) \<and> fq_schedule_job m) \<and>
     (fq_sending_flow m = None \<and> \<not> fq_schedule_job m \<longrightarrow> fq_queued_tree m = [])"

definition fq_inv :: "PacketPassFairQueue \<Rightarrow> bool" where
  "fq_inv m \<longleftrightarrow> \<not> fq_freeing m \<and> fq_queue_ok m \<and> (\<forall>f\<in>set (fq_flows_list m). fq_flow_ok m f) \<and> fq_output_ok m \<and>
     fq_sending_ok m \<and> fq_idle_ok m"

lemmas fq_inv_defs = fq_inv_def fq_queue_ok_def fq_flow_ok_def fq_output_ok_def fq_sending_ok_def fq_idle_ok_def

text \<open>\<open>schedule\<close> starts the queued flow with the least time.\<close>

lemma schedule_inv:
  assumes "\<not> fq_freeing m" "fq_queue_ok m" "\<And>f. f \<in> set (fq_flows_list m) \<Longrightarrow> fq_flow_ok m f" "fq_output_ok m"
    "fq_sending_flow m = None" "fq_previous_flow m = None" "\<not> fq_schedule_job m" "fq_queued_tree m = q # qs"
  shows "\<exists>m'. schedule m = Inr m' \<and> fq_inv m' \<and> fq_sending_flow m' = Some q \<and> fq_flows_list m' = fq_flows_list m"
proof -
  have q: "q \<in> set (fq_flows_list m)" "fl_is_queued (fq_flow m q)" "q \<notin> set qs" "fq_sorted m qs"
    "\<And>g. g \<in> set qs \<Longrightarrow> fl_time (fq_flow m q) \<le> fl_time (fq_flow m g)"
    using assms(2,8) by (auto simp: fq_queue_ok_def fq_sorted_Cons compare_flows_less)
  have d: "0 \<le> fl_data_len (fq_flow m q)" "fl_data_len (fq_flow m q) \<le> ppi_mtu (fq_output m)"
    "fl_data_len (fq_flow m q) > 0 \<Longrightarrow> fl_data (fq_flow m q) \<noteq> None" "ppi_state (fl_input (fq_flow m q)) = STATE_BUSY"
    using assms(3) [OF q(1)] assms(8) by (auto simp: fq_flow_ok_def)
  obtain outp where outp: "PacketPassInterface_Sender_Send (fq_output m) (fl_data (fq_flow m q)) (fl_data_len (fq_flow m q)) = Inr outp"
    "ppi_inv outp" "ppi_handler_done outp" "ppi_mtu outp = ppi_mtu (fq_output m)" "ppi_state outp \<noteq> STATE_NONE"
    "ppi_handler_requestcancel outp = ppi_handler_requestcancel (fq_output m)"
    using assms(4,5) d by (auto simp: PacketPassInterface_Sender_Send_def fq_output_ok_def ppi_inv_def)
  define m1 where "m1 = (upd_flow (m\<lparr>fq_queued_tree := qs\<rparr>) q (\<lambda>x. x\<lparr>fl_is_queued := False\<rparr>))
      \<lparr>fq_output := outp, fq_sending_flow := Some q, fq_sending_len := fl_data_len (fq_flow m q)\<rparr>"
  have "schedule m = Inr m1"
    using assms(1,5-8) q outp(1) by (simp add: schedule_def tree_GetFirst_def m1_def Let_def)
  moreover have "fq_queue_ok m1"
  proof -
    have "fq_sorted m1 qs" by (rule fq_sorted_cong [OF q(4)]) (use q in \<open>auto simp: m1_def\<close>)
    then show ?thesis using assms(2,8) q by (auto simp: fq_queue_ok_def m1_def)
  qed
  moreover have "fq_flow_ok m1 f" if "f \<in> set (fq_flows_list m)" for f
    using assms(3) [OF that] assms(5,8) q d outp by (auto simp: fq_flow_ok_def m1_def)
  moreover have "fq_output_ok m1" using assms(4) outp by (auto simp: fq_output_ok_def m1_def)
  moreover have "fq_sending_ok m1" "fq_idle_ok m1"
    using assms q d outp by (auto simp: fq_sending_ok_def fq_idle_ok_def m1_def)
  ultimately show ?thesis using assms(1) by (intro exI [of _ m1]) (auto simp: fq_inv_def m1_def)
qed

lemma schedule_job_handler_inv:
  assumes inv: "fq_inv m" and "fq_schedule_job m"
  shows "\<exists>m'. schedule_job_handler m = Inr m' \<and> fq_inv m' \<and> fq_sending_flow m' = tree_GetFirst m"
proof -
  have idle: "fq_sending_flow m = None" using assms by (auto simp: fq_inv_def fq_sending_ok_def)
  define m1 where "m1 = m\<lparr>fq_schedule_job := False, fq_previous_flow := None\<rparr>"
  have "fq_sorted m1 (fq_queued_tree m)" if "fq_sorted m (fq_queued_tree m)"
    by (rule fq_sorted_cong [OF that]) (simp add: m1_def)
  then have m1: "\<not> fq_freeing m1" "fq_queue_ok m1" "\<And>f. f \<in> set (fq_flows_list m1) \<Longrightarrow> fq_flow_ok m1 f" "fq_output_ok m1"
    "fq_sending_flow m1 = None" "fq_previous_flow m1 = None" "\<not> fq_schedule_job m1"
    using inv idle by (auto simp: m1_def fq_inv_defs)
  show ?thesis
  proof (cases "fq_queued_tree m")
    case Nil
    then have "fq_inv m1" using inv m1 idle by (auto simp: fq_inv_def fq_sending_ok_def fq_idle_ok_def) (auto simp: m1_def)
    then show ?thesis using inv idle Nil
      by (intro exI [of _ m1]) (auto simp: schedule_job_handler_def m1_def tree_GetFirst_def Let_def fq_inv_def)
  next
    case (Cons q qs)
    then have "fq_queued_tree m1 = q # qs" by (simp add: m1_def)
    from schedule_inv [OF m1 this] obtain m' where "schedule m1 = Inr m'" "fq_inv m'" "fq_sending_flow m' = Some q" by blast
    then show ?thesis using inv idle Cons
      by (intro exI [of _ m']) (auto simp: schedule_job_handler_def m1_def tree_GetFirst_def Let_def fq_inv_def)
  qed
qed

lemma get_current_time_sending: "fq_sending_flow m = Some f \<Longrightarrow> get_current_time m = Inr (fl_time (fq_flow m f))"
  by (simp add: get_current_time_def)

lemma get_current_time_total: "fq_queue_ok m \<Longrightarrow> \<exists>t. get_current_time m = Inr t"
  by (auto simp: get_current_time_def tree_GetFirst_def ASSERT_def fq_queue_ok_def Let_def split: option.splits list.splits)

text \<open>The time a flow joins the queue with, and the previous flow that is left.\<close>

lemma input_handler_send_time:
  assumes "fq_queue_ok m"
  obtains t p where "(if Some flow = fq_previous_flow m then Inr (m\<lparr>fq_previous_flow := None\<rparr>)
               else andthen (get_current_time m) (\<lambda>t.
                    Inr (upd_flow m flow (\<lambda>x. x\<lparr>fl_time := max (fl_time x) t\<rparr>)))) =
      Inr (upd_flow (m\<lparr>fq_previous_flow := p\<rparr>) flow (\<lambda>x. x\<lparr>fl_time := t\<rparr>))"
    "p \<noteq> Some flow" "p = None \<or> p = fq_previous_flow m"
    "\<And>f. fq_sending_flow m = Some f \<Longrightarrow> fq_previous_flow m = None \<Longrightarrow> fl_time (fq_flow m f) \<le> t"
proof (cases "Some flow = fq_previous_flow m")
  case True
  show thesis
    by (rule that [of None "fl_time (fq_flow m flow)"]) (use True in \<open>auto simp: fun_upd_idem_iff\<close>)
next
  case False
  obtain t where "get_current_time m = Inr t" using get_current_time_total [OF assms] by blast
  then show thesis
    by (intro that [of "fq_previous_flow m" "max (fl_time (fq_flow m flow)) t"])
       (use False get_current_time_sending [of m] in \<open>auto simp: le_max_iff_disj\<close>)
qed

text \<open>The flow is put in the queue, and is scheduled at once when nothing is going on.\<close>

definition fq_enqueued :: "PacketPassFairQueue \<Rightarrow> nat \<Rightarrow> nat option \<Rightarrow> nat list \<Rightarrow> u64 \<Rightarrow> int option \<Rightarrow> int \<Rightarrow> PacketPassFairQueue" where
  "fq_enqueued m flow p ys t dat len = m\<lparr>fq_previous_flow := p, fq_queued_tree := ys, fq_flow := (fq_flow m)(flow :=
     (fq_flow m flow)\<lparr>fl_time := t, fl_data := dat, fl_data_len := len, fl_is_queued := True\<rparr>)\<rparr>"

lemma fq_input_handler_send_eq:
  assumes qok: "fq_queue_ok m" and nq: "flow \<notin> set (fq_queued_tree m)" "Some flow \<noteq> fq_sending_flow m"
    "\<not> fl_is_queued (fq_flow m flow)" "\<not> fq_freeing m"
  obtains p ys t m' where "m' = fq_enqueued m flow p ys t dat len"
    "fq_input_handler_send m flow dat len = (if fq_sending_flow m' = None \<and> \<not> fq_schedule_job m' then schedule m' else Inr m')"
    "fq_sorted m' ys" "set ys = insert flow (set (fq_queued_tree m))"
    "p \<noteq> Some flow" "p = None \<or> p = fq_previous_flow m"
    "\<And>f. fq_sending_flow m = Some f \<Longrightarrow> fq_previous_flow m = None \<Longrightarrow> fl_time (fq_flow m f) \<le> t"
proof -
  obtain t p where tp: "(if Some flow = fq_previous_flow m then Inr (m\<lparr>fq_previous_flow := None\<rparr>)
               else andthen (get_current_time m) (\<lambda>t. Inr (upd_flow m flow (\<lambda>x. x\<lparr>fl_time := max (fl_time x) t\<rparr>)))) =
      Inr (upd_flow (m\<lparr>fq_previous_flow := p\<rparr>) flow (\<lambda>x. x\<lparr>fl_time := t\<rparr>))"
    "p \<noteq> Some flow" "p = None \<or> p = fq_previous_flow m"
    "\<And>f. fq_sending_flow m = Some f \<Longrightarrow> fq_previous_flow m = None \<Longrightarrow> fl_time (fq_flow m f) \<le> t"
    by (rule input_handler_send_time [OF qok, where flow = flow]) blast
  define m2 where "m2 = m\<lparr>fq_previous_flow := p, fq_flow := (fq_flow m)(flow :=
      (fq_flow m flow)\<lparr>fl_time := t, fl_data := dat, fl_data_len := len\<rparr>)\<rparr>"
  have "fq_sorted m2 (fq_queued_tree m)"
    by (rule fq_sorted_cong [of m]) (use qok nq in \<open>auto simp: m2_def fq_queue_ok_def\<close>)
  then obtain ys where ys: "tree_insert m2 flow (fq_queued_tree m) = Some ys" "fq_sorted m2 ys"
      "set ys = insert flow (set (fq_queued_tree m))"
    using tree_insert_sorted nq(1) by blast
  let ?m3 = "fq_enqueued m flow p ys t dat len"
  have m2': "upd_flow (upd_flow (m\<lparr>fq_previous_flow := p\<rparr>) flow (\<lambda>x. x\<lparr>fl_time := t\<rparr>)) flow (\<lambda>x. x\<lparr>fl_data := dat, fl_data_len := len\<rparr>) = m2"
    by (simp add: m2_def)
  have m3': "upd_flow (m2\<lparr>fq_queued_tree := ys\<rparr>) flow (\<lambda>x. x\<lparr>fl_is_queued := True\<rparr>) = ?m3"
    by (simp add: m2_def fq_enqueued_def)
  have t2: "fq_queued_tree m2 = fq_queued_tree m" by (simp add: m2_def)
  have "fq_input_handler_send m flow dat len =
      (if fq_sending_flow ?m3 = None \<and> \<not> fq_schedule_job ?m3 then schedule ?m3 else Inr ?m3)"
    unfolding fq_input_handler_send_def ASSERT_def Let_def tp(1) using nq
    by (simp only: if_True if_False not_False_eq_True simp_thms andthen_Inr m2' t2 ys(1) option.case m3')
  moreover have "fq_sorted ?m3 ys" by (rule fq_sorted_cong [OF ys(2)]) (auto simp: fq_enqueued_def m2_def)
  ultimately show thesis using tp(2-4) ys(3) by (intro that [OF refl]) auto
qed

lemma fq_enqueued_inv:
  assumes qok: "fq_queue_ok m" and flow: "flow \<in> set (fq_flows_list m)" "Some flow \<noteq> fq_sending_flow m"
    and i: "ppi_inv (fl_input (fq_flow m flow))" "ppi_mtu (fl_input (fq_flow m flow)) = ppi_mtu (fq_output m)"
      "ppi_state (fl_input (fq_flow m flow)) = STATE_BUSY"
    and len: "0 \<le> len" "len \<le> ppi_mtu (fq_output m)" "len > 0 \<Longrightarrow> dat \<noteq> None"
    and other: "\<And>f. f \<in> set (fq_flows_list m) \<Longrightarrow> f \<noteq> flow \<Longrightarrow> fq_flow_ok m f"
    and ok: "fq_output_ok m" "fq_sending_ok m" "fq_idle_ok m" "\<not> fq_freeing m"
    and e: "m' = fq_enqueued m flow p ys t dat len" "fq_sorted m' ys" "set ys = insert flow (set (fq_queued_tree m))"
      "p \<noteq> Some flow" "p = None \<or> p = fq_previous_flow m"
      "\<And>f. fq_sending_flow m = Some f \<Longrightarrow> fq_previous_flow m = None \<Longrightarrow> fl_time (fq_flow m f) \<le> t"
  shows "\<exists>m''. (if fq_sending_flow m' = None \<and> \<not> fq_schedule_job m' then schedule m' else Inr m') = Inr m'' \<and> fq_inv m''"
proof -
  have m': "fq_queue_ok m'" "\<And>f. f \<in> set (fq_flows_list m') \<Longrightarrow> fq_flow_ok m' f" "fq_output_ok m'" "\<not> fq_freeing m'"
    using qok flow e(2,3) other i len ok
    by (auto simp: fq_queue_ok_def fq_flow_ok_def fq_output_ok_def e(1) fq_enqueued_def)
  show ?thesis
  proof (cases "fq_sending_flow m' = None \<and> \<not> fq_schedule_job m'")
    case True
    then have "fq_previous_flow m' = None" "ys \<noteq> []"
      using ok e(3,5) by (auto simp: fq_idle_ok_def e(1) fq_enqueued_def)
    moreover obtain q qs where "fq_queued_tree m' = q # qs" using \<open>ys \<noteq> []\<close> by (cases ys) (auto simp: e(1) fq_enqueued_def)
    ultimately show ?thesis using schedule_inv [of m' q qs] m' True by auto
  next
    case False
    have "fq_sending_ok m'"
      using ok e(3,5,6) flow by (auto simp: fq_sending_ok_def e(1) fq_enqueued_def)
    moreover have "fq_idle_ok m'" using ok e(3-5) False by (auto simp: fq_idle_ok_def e(1) fq_enqueued_def)
    ultimately have "fq_inv m'" using m' by (simp add: fq_inv_def)
    then show ?thesis by (simp only: False if_False) blast
  qed
qed

lemma fq_run_flow_operation_inv:
  assumes inv: "fq_inv m" and flow: "flow \<in> set (fq_flows_list m)" and job: "ppi_job_operation (fl_input (fq_flow m flow))"
  shows "\<exists>m'. fq_run_flow_operation m flow = Inr m' \<and> fq_inv m'"
proof -
  define i where "i = (fl_input (fq_flow m flow))\<lparr>ppi_job_operation := False, ppi_state := STATE_BUSY\<rparr>"
  define dat where "dat = ppi_job_operation_data (fl_input (fq_flow m flow))"
  define len where "len = ppi_job_operation_len (fl_input (fq_flow m flow))"
  define m0 where "m0 = upd_flow m flow (\<lambda>x. x\<lparr>fl_input := i\<rparr>)"
  have fok: "fq_flow_ok m flow" and qok: "fq_queue_ok m" using inv flow by (auto simp: fq_inv_def)
  then have st: "ppi_state (fl_input (fq_flow m flow)) = STATE_OPERATION_PENDING"
    and nq: "flow \<notin> set (fq_queued_tree m0)" "Some flow \<noteq> fq_sending_flow m0" "\<not> fl_is_queued (fq_flow m0 flow)" "\<not> fq_freeing m0"
    and i: "ppi_inv (fl_input (fq_flow m0 flow))" "ppi_mtu (fl_input (fq_flow m0 flow)) = ppi_mtu (fq_output m0)"
      "ppi_state (fl_input (fq_flow m0 flow)) = STATE_BUSY"
    and len: "0 \<le> len" "len \<le> ppi_mtu (fq_output m0)" "len > 0 \<Longrightarrow> dat \<noteq> None"
    using job flow inv by (auto simp: fq_flow_ok_def ppi_inv_def fq_queue_ok_def i_def dat_def len_def m0_def fq_inv_def)
  have run: "fq_run_flow_operation m flow = fq_input_handler_send m0 flow dat len"
    using st by (simp add: PacketPassInterface_job_operation_def i_def dat_def len_def fq_run_flow_operation_def m0_def)
  have "fq_sorted m0 (fq_queued_tree m)" by (rule fq_sorted_cong [of m]) (use qok in \<open>auto simp: m0_def fq_queue_ok_def\<close>)
  then have q0: "fq_queue_ok m0" using qok by (simp add: fq_queue_ok_def m0_def)
  have ok: "\<And>f. f \<in> set (fq_flows_list m0) \<Longrightarrow> f \<noteq> flow \<Longrightarrow> fq_flow_ok m0 f" "fq_output_ok m0" "fq_sending_ok m0" "fq_idle_ok m0"
    "flow \<in> set (fq_flows_list m0)"
    using inv flow by (auto simp: fq_inv_def fq_flow_ok_def fq_output_ok_def fq_sending_ok_def fq_idle_ok_def m0_def)
  obtain p ys t m' where e: "m' = fq_enqueued m0 flow p ys t dat len"
    "fq_input_handler_send m0 flow dat len = (if fq_sending_flow m' = None \<and> \<not> fq_schedule_job m' then schedule m' else Inr m')"
    "fq_sorted m' ys" "set ys = insert flow (set (fq_queued_tree m0))" "p \<noteq> Some flow" "p = None \<or> p = fq_previous_flow m0"
    "\<And>f. fq_sending_flow m0 = Some f \<Longrightarrow> fq_previous_flow m0 = None \<Longrightarrow> fl_time (fq_flow m0 f) \<le> t"
    by (rule fq_input_handler_send_eq [OF q0 nq, where dat = dat and len = len]) blast
  show ?thesis
    unfolding run e(2) by (rule fq_enqueued_inv [OF q0 ok(5) nq(2) i len ok(1-4) nq(4) e(1) e(3-7)])
qed

lemma uint_weight_len:
  assumes "0 < w" "0 \<le> l" "w + l \<le> uint FAIRQUEUE_MAX_TIME"
  shows "uint (of_int w + of_int l :: u64) = w + l"
proof -
  have "uint FAIRQUEUE_MAX_TIME = 18446744073709551615" using uint_max_diff [of 0] by simp
  then show ?thesis using assms by (simp flip: of_int_add add: unsigned_of_int take_bit_int_eq_self)
qed

text \<open>The state after a packet is finished: only times, the two interfaces and the schedule differ.\<close>

lemma fq_finished_inv:
  assumes inv: "fq_inv m" and flow: "fq_sending_flow m = Some flow"
    and outp: "fq_output m' = (fq_output m)\<lparr>ppi_job_done := False, ppi_state := STATE_NONE\<rparr>"
      "ppi_state (fq_output m) = STATE_DONE_PENDING"
    and same: "fq_flows_list m' = fq_flows_list m" "fq_queued_tree m' = fq_queued_tree m" "fq_freeing m' = fq_freeing m"
      "fq_packet_weight m' = fq_packet_weight m" "fq_use_cancel m' = fq_use_cancel m"
    and sched: "fq_sending_flow m' = None" "fq_previous_flow m' = Some flow" "fq_schedule_job m'"
    and flows: "\<And>g. fl_is_queued (fq_flow m' g) = fl_is_queued (fq_flow m g)" "\<And>g. fl_data (fq_flow m' g) = fl_data (fq_flow m g)"
      "\<And>g. fl_data_len (fq_flow m' g) = fl_data_len (fq_flow m g)"
    and input: "fl_input (fq_flow m' flow) = (fl_input (fq_flow m flow))
        \<lparr>ppi_job_requestcancel := False, ppi_job_done := True, ppi_state := STATE_DONE_PENDING\<rparr>"
      "\<And>g. g \<noteq> flow \<Longrightarrow> fl_input (fq_flow m' g) = fl_input (fq_flow m g)"
    and srt: "fq_sorted m' (fq_queued_tree m)"
  shows "fq_inv m'"
proof -
  have f: "flow \<in> set (fq_flows_list m)" "flow \<notin> set (fq_queued_tree m)"
    using inv flow by (auto simp: fq_inv_def fq_sending_ok_def)
  have "fq_queue_ok m'" using inv srt by (simp add: fq_inv_def fq_queue_ok_def same flows)
  moreover have "fq_flow_ok m' g" if "g \<in> set (fq_flows_list m')" for g
  proof (cases "g = flow")
    case True
    have "fq_flow_ok m flow" using f inv by (simp add: fq_inv_def)
    then show ?thesis using True f flow by (auto simp add: fq_flow_ok_def same sched flows input outp(1) ppi_inv_def)
  next
    case False
    have "fq_flow_ok m g" using that inv by (simp add: fq_inv_def same)
    then show ?thesis using False flow by (simp add: fq_flow_ok_def same sched flows input(2) [OF False] outp(1))
  qed
  moreover have "fq_output_ok m'" using inv outp(2)
    by (simp add: fq_inv_def fq_output_ok_def same sched outp(1) ppi_inv_def)
  moreover have "fq_sending_ok m'" "fq_idle_ok m'" "\<not> fq_freeing m'"
    using inv f by (simp_all add: fq_sending_ok_def fq_idle_ok_def fq_inv_def same sched)
  ultimately show ?thesis by (simp add: fq_inv_def)
qed

lemma fq_run_output_done_inv:
  assumes inv: "fq_inv m" and job: "ppi_job_done (fq_output m)"
  obtains flow m' h s where "fq_sending_flow m = Some flow" "fq_run_output_done m = Inr (m', h)" "fq_inv m'"
    "fq_previous_flow m' = Some flow" "fq_queued_tree m' = fq_queued_tree m" "ppi_job_done (fl_input (fq_flow m' flow))"
    "uint (fl_time (fq_flow m' flow)) = uint (fl_time (fq_flow m flow)) + fq_packet_weight m + fq_sending_len m - s"
    "\<And>g. g \<in> set (fq_queued_tree m) \<Longrightarrow> uint (fl_time (fq_flow m' g)) = uint (fl_time (fq_flow m g)) - s"
    "\<And>g. g \<in> set (fq_flows_list m) \<Longrightarrow> g \<noteq> flow \<Longrightarrow> uint (fl_time (fq_flow m' g)) = max 0 (uint (fl_time (fq_flow m g)) - s)"
    "s = (if uint (fl_time (fq_flow m flow)) + fq_packet_weight m + fq_sending_len m < 2 ^ 64 then 0
       else if fq_queued_tree m = [] then uint (fl_time (fq_flow m flow))
       else Min ((\<lambda>g. uint (fl_time (fq_flow m g))) ` set (fq_queued_tree m)))"
proof -
  have st: "ppi_state (fq_output m) = STATE_DONE_PENDING" using inv job by (auto simp: fq_inv_def fq_output_ok_def ppi_inv_def)
  then obtain flow where flow: "fq_sending_flow m = Some flow" using inv by (auto simp: fq_inv_def fq_output_ok_def)
  then have f: "flow \<in> set (fq_flows_list m)" "flow \<notin> set (fq_queued_tree m)" "fq_previous_flow m = None" "\<not> fq_schedule_job m"
    "\<not> fl_is_queued (fq_flow m flow)" "ppi_state (fl_input (fq_flow m flow)) = STATE_BUSY"
    "\<And>g. g \<in> set (fq_queued_tree m) \<Longrightarrow> fl_time (fq_flow m flow) \<le> fl_time (fq_flow m g)"
    using inv by (auto simp: fq_inv_def fq_sending_ok_def fq_queue_ok_def fq_flow_ok_def)
  define outp where "outp = (fq_output m)\<lparr>ppi_job_done := False, ppi_state := STATE_NONE\<rparr>"
  define m1 where "m1 = m\<lparr>fq_output := outp, fq_sending_flow := None, fq_previous_flow := Some flow\<rparr>"
  have "fq_sorted m1 (fq_queued_tree m)" by (rule fq_sorted_cong [of m]) (use inv in \<open>auto simp: m1_def fq_inv_def fq_queue_ok_def\<close>)
  then have q1: "fq_queue_ok m1" using inv by (auto simp: m1_def fq_inv_def fq_queue_ok_def)
  have f1: "flow \<in> set (fq_flows_list m1)" "flow \<notin> set (fq_queued_tree m1)" "fq_sending_flow m1 = None"
    "\<And>g. g \<in> set (fq_queued_tree m1) \<Longrightarrow> fl_time (fq_flow m1 flow) \<le> fl_time (fq_flow m1 g)"
    using f by (auto simp: m1_def)
  define amount :: u64 where "amount = of_int (fq_packet_weight m) + of_int (fq_sending_len m)"
  obtain m2 s where inc: "increment_sent_flow m1 flow amount = Inr m2" "s = overflow_subtract m1 flow amount"
    "m2 = m1\<lparr>fq_flow := fq_flow m2\<rparr>" "\<And>g. fq_flow m2 g = (fq_flow m1 g)\<lparr>fl_time := fl_time (fq_flow m2 g)\<rparr>"
    "uint (fl_time (fq_flow m2 flow)) = uint (fl_time (fq_flow m1 flow)) + uint amount - uint s"
    "\<And>f. f \<in> set (fq_flows_list m1) \<Longrightarrow> f \<noteq> flow \<Longrightarrow>
       uint (fl_time (fq_flow m2 f)) = max 0 (uint (fl_time (fq_flow m1 f)) - uint s)"
    "\<And>g. g \<in> set (fq_queued_tree m1) \<Longrightarrow> s \<le> fl_time (fq_flow m1 g) \<and> fl_time (fq_flow m2 g) = fl_time (fq_flow m1 g) - s"
    by (rule increment_sent_flow_spec [OF q1 f1(1-3), where amount = amount]) (erule f1(4), rule that)
  note inc2 = inc(2) and inc = inc(1,3-)
  have same: "fl_input (fq_flow m2 g) = fl_input (fq_flow m g)" "fl_is_queued (fq_flow m2 g) = fl_is_queued (fq_flow m g)"
    "fl_data (fq_flow m2 g) = fl_data (fq_flow m g)" "fl_data_len (fq_flow m2 g) = fl_data_len (fq_flow m g)" for g
    by (subst inc(3), simp add: m1_def)+
  define i where "i = (fl_input (fq_flow m flow))\<lparr>ppi_job_requestcancel := False, ppi_job_done := True, ppi_state := STATE_DONE_PENDING\<rparr>"
  define m' where "m' = upd_flow (upd_flow (m2\<lparr>fq_schedule_job := True\<rparr>) flow (\<lambda>x. x\<lparr>fl_input := i\<rparr>)) flow (\<lambda>x. x\<lparr>fl_handler_busy := False\<rparr>)"
  have m2: "fq_flows_list m2 = fq_flows_list m" "fq_queued_tree m2 = fq_queued_tree m" "fq_output m2 = outp"
    "fq_sending_flow m2 = None" "fq_previous_flow m2 = Some flow" "fq_freeing m2 = fq_freeing m"
    "fq_packet_weight m2 = fq_packet_weight m" "fq_use_cancel m2 = fq_use_cancel m"
    by (subst inc(2), simp add: m1_def)+
  have run: "fq_run_output_done m = Inr (m', fl_handler_busy (fq_flow m2 flow))"
    using inv st flow f inc(1) same
    by (simp add: fq_run_output_done_def fq_output_handler_done_def PacketPassInterface_job_done_def
        PacketPassInterface_Done_def Let_def fq_inv_def outp_def [symmetric] m1_def [symmetric] amount_def m'_def i_def)
  have m1t: "fq_queued_tree m1 = fq_queued_tree m" by (simp add: m1_def)
  have "fq_sorted m2 (fq_queued_tree m1)"
    by (rule fq_sorted_shift [of m1]) (use q1 inc(6) in \<open>auto simp: fq_queue_ok_def\<close>)
  then have s2: "fq_sorted m2 (fq_queued_tree m)" by (simp only: m1t)
  have srt: "fq_sorted m' (fq_queued_tree m)" by (rule fq_sorted_cong [OF s2]) (simp add: m'_def)
  have "fq_inv m'"
    by (rule fq_finished_inv [OF inv flow _ st]) (use srt in \<open>simp_all add: m'_def m2 same outp_def i_def\<close>)
  moreover have am: "uint amount = fq_packet_weight m + fq_sending_len m"
    using inv flow unfolding amount_def by (intro uint_weight_len) (auto simp: fq_inv_def fq_output_ok_def fq_sending_ok_def)
  moreover have "uint (fl_time (fq_flow m' g)) = max 0 (uint (fl_time (fq_flow m g)) - uint s)"
    if "g \<in> set (fq_flows_list m)" "g \<noteq> flow" for g
    using inc(5) [of g] that by (simp add: m'_def m1_def)
  moreover have "uint s = (if uint (fl_time (fq_flow m flow)) + fq_packet_weight m + fq_sending_len m < 2 ^ 64 then 0
       else if fq_queued_tree m = [] then uint (fl_time (fq_flow m flow))
       else Min ((\<lambda>g. uint (fl_time (fq_flow m g))) ` set (fq_queued_tree m)))"
    unfolding inc2 uint_overflow_subtract [OF q1] am by (simp add: m1_def add.assoc)
  moreover have "uint (fl_time (fq_flow m' g)) = uint (fl_time (fq_flow m g)) - uint s" if "g \<in> set (fq_queued_tree m)" for g
    using inc(6) [of g] that f(2) by (cases "g = flow") (auto simp: m1t m'_def m1_def uint_diff_le)
  ultimately show thesis
    using inc(4) by (intro that [OF flow run, of "uint s"]) (simp_all add: m'_def m2 i_def m1_def)
qed

subsection \<open>Histories\<close>

lemma fq_flow_input_inv:
  assumes inv: "fq_inv m" and i: "f \<in> set (fq_flows_list m) \<Longrightarrow> ppi_inv i" "ppi_mtu i = ppi_mtu (fl_input (fq_flow m f))"
    "ppi_state i = STATE_BUSY \<longleftrightarrow> ppi_state (fl_input (fq_flow m f)) = STATE_BUSY"
  shows "fq_inv (upd_flow m f (\<lambda>x. x\<lparr>fl_input := i\<rparr>))" (is "fq_inv ?m")
proof -
  have "fq_sorted ?m (fq_queued_tree m)" by (rule fq_sorted_cong [of m]) (use inv in \<open>simp_all add: fq_inv_def fq_queue_ok_def\<close>)
  then have "fq_queue_ok ?m" using inv by (simp add: fq_inv_def fq_queue_ok_def)
  moreover have "fq_flow_ok ?m g" if "g \<in> set (fq_flows_list m)" for g
    using inv that i by (cases "g = f") (simp_all add: fq_inv_def fq_flow_ok_def)
  moreover have "fq_output_ok ?m" "fq_sending_ok ?m" "fq_idle_ok ?m"
    using inv by (simp_all add: fq_inv_def fq_output_ok_def fq_sending_ok_def fq_idle_ok_def)
  ultimately show ?thesis using inv by (simp add: fq_inv_def)
qed

lemma fq_output_inv:
  assumes inv: "fq_inv m" and i: "ppi_inv i" "ppi_handler_done i" "ppi_mtu i = ppi_mtu (fq_output m)"
    "ppi_state i = STATE_NONE \<longleftrightarrow> ppi_state (fq_output m) = STATE_NONE"
    "ppi_handler_requestcancel i = ppi_handler_requestcancel (fq_output m)"
  shows "fq_inv (m\<lparr>fq_output := i\<rparr>)" (is "fq_inv ?m")
proof -
  have "fq_sorted ?m (fq_queued_tree m)" by (rule fq_sorted_cong [of m]) (use inv in \<open>simp_all add: fq_inv_def fq_queue_ok_def\<close>)
  then have "fq_queue_ok ?m" using inv by (simp add: fq_inv_def fq_queue_ok_def)
  moreover have "fq_output_ok ?m" using inv i by (simp add: fq_inv_def fq_output_ok_def)
  ultimately show ?thesis using inv i by (simp add: fq_inv_def fq_flow_ok_def fq_sending_ok_def fq_idle_ok_def)
qed

lemma fq_output_ppi: "fq_inv m \<Longrightarrow> ppi_inv (fq_output m) \<and> ppi_handler_done (fq_output m)"
  by (simp add: fq_inv_def fq_output_ok_def)

lemma fq_flow_ppi: "fq_inv m \<Longrightarrow> f \<in> set (fq_flows_list m) \<Longrightarrow> ppi_inv (fl_input (fq_flow m f))"
  by (simp add: fq_inv_def fq_flow_ok_def)

lemma PacketPassFairQueueFlow_Init_inv:
  assumes inv: "fq_inv m" and new: "f \<notin> set (fq_flows_list m)"
  shows "\<exists>m'. PacketPassFairQueueFlow_Init m f = Inr m' \<and> fq_inv m'"
proof -
  define i :: "int PacketPassInterface" where "i = projr (PacketPassInterface_Init (ppi_mtu (fq_output m)))"
  have mtu: "0 \<le> ppi_mtu (fq_output m)" using inv by (simp add: fq_inv_def fq_output_ok_def)
  define m' where "m' = (upd_flow m f (\<lambda>x. x\<lparr>fl_handler_busy := False, fl_input := i, fl_time := 0, fl_is_queued := False\<rparr>))
             \<lparr>fq_flows_list := fq_flows_list m @ [f]\<rparr>"
  have i: "PacketPassInterface_Init (ppi_mtu (fq_output m)) = Inr i" "ppi_inv i" "ppi_mtu i = ppi_mtu (fq_output m)" "ppi_state i = STATE_NONE"
    using mtu by (simp_all add: i_def PacketPassInterface_Init_def ppi_inv_def)
  have nq: "f \<notin> set (fq_queued_tree m)" using inv new by (auto simp: fq_inv_def fq_queue_ok_def)
  have ns: "fq_sending_flow m \<noteq> Some f" using inv new by (auto simp: fq_inv_def fq_sending_ok_def)
  have "fq_sorted m' (fq_queued_tree m)"
    by (rule fq_sorted_cong [of m]) (use inv nq in \<open>auto simp: fq_inv_def fq_queue_ok_def m'_def\<close>)
  then have "fq_queue_ok m'" using inv new nq by (auto simp: fq_inv_def fq_queue_ok_def m'_def)
  moreover have "fq_flow_ok m' g" if "g \<in> set (fq_flows_list m')" for g
    using inv that i nq ns by (cases "g = f") (auto simp: fq_inv_def fq_flow_ok_def m'_def)
  moreover have "fq_output_ok m'" "fq_idle_ok m'" using inv by (auto simp: fq_inv_def fq_output_ok_def fq_idle_ok_def m'_def)
  moreover have "fq_sending_ok m'" using inv new nq by (auto simp: fq_inv_def fq_sending_ok_def m'_def)
  ultimately have "fq_inv m'" using inv by (simp add: fq_inv_def m'_def)
  then show ?thesis using inv i
    by (intro exI [of _ m']) (simp add: PacketPassFairQueueFlow_Init_def PacketPassInterface_GetMTU_def fq_inv_def m'_def)
qed

lemma fq_sorted_remove1: "fq_sorted m xs \<Longrightarrow> fq_sorted m (remove1 x xs)"
  by (induction xs) (auto simp: fq_sorted_Cons dest: notin_set_remove1)

lemma fq_sorted_distinct: "fq_sorted m xs \<Longrightarrow> distinct xs"
  by (induction xs) (auto simp: fq_sorted_Cons compare_flows_less)

lemma PacketPassFairQueueFlow_Free_inv:
  assumes inv: "fq_inv m" and f: "f \<in> set (fq_flows_list m)" and free: "fq_sending_flow m \<noteq> Some f"
  shows "\<exists>m'. PacketPassFairQueueFlow_Free m f = Inr m' \<and> fq_inv m' \<and> set (fq_flows_list m') = set (fq_flows_list m) - {f}"
proof -
  define m' where "m' = m\<lparr>fq_previous_flow := (if fq_previous_flow m = Some f then None else fq_previous_flow m),
    fq_queued_tree := remove1 f (fq_queued_tree m), fq_flows_list := remove1 f (fq_flows_list m)\<rparr>"
  have q: "fl_is_queued (fq_flow m f) \<longleftrightarrow> f \<in> set (fq_queued_tree m)" using inv f by (auto simp: fq_inv_def fq_queue_ok_def)
  have run: "PacketPassFairQueueFlow_Free m f = Inr m'"
    using free q by (auto simp: PacketPassFairQueueFlow_Free_def Let_def m'_def remove1_idem)
  have s: "fq_sorted m (remove1 f (fq_queued_tree m))" and d: "distinct (fq_flows_list m)" "distinct (fq_queued_tree m)"
    using inv by (auto simp: fq_inv_def fq_queue_ok_def fq_sorted_remove1 fq_sorted_distinct)
  have "fq_sorted m' (remove1 f (fq_queued_tree m))" by (rule fq_sorted_cong [OF s]) (simp add: m'_def)
  then have "fq_queue_ok m'" using inv d by (auto simp: fq_inv_def fq_queue_ok_def m'_def set_remove1_eq)
  moreover have "fq_flow_ok m' g" if "g \<in> set (fq_flows_list m')" for g
    using inv that d by (auto simp: fq_inv_def fq_flow_ok_def m'_def set_remove1_eq)
  moreover have "fq_output_ok m'" "fq_sending_ok m'" "fq_idle_ok m'"
    using inv free d by (auto simp: fq_inv_def fq_output_ok_def fq_sending_ok_def fq_idle_ok_def m'_def set_remove1_eq)
  ultimately have "fq_inv m'" using inv by (simp add: fq_inv_def m'_def)
  then show ?thesis using run d by (intro exI [of _ m']) (simp add: m'_def set_remove1_eq)
qed

text \<open>
  Everything that can happen to a queue until \<open>PrepareFree\<close>: flows come and go, their users send
  packets, the provider of the output takes and finishes packets, and the reactor runs whichever
  job is set. A user's call is a step only when it respects the assertions of the call.
\<close>

inductive fq_reach :: "PacketPassFairQueue \<Rightarrow> bool" where
  fq_init: "ppi_inv outp \<Longrightarrow> ppi_state outp = STATE_NONE \<Longrightarrow> 0 \<le> ppi_mtu outp \<Longrightarrow>
    PacketPassFairQueue_Init outp use_cancel weight mem = Inr (Some m) \<Longrightarrow> fq_reach m"
| fq_flow_init: "fq_reach m \<Longrightarrow> f \<notin> set (fq_flows_list m) \<Longrightarrow>
    PacketPassFairQueueFlow_Init m f = Inr m' \<Longrightarrow> fq_reach m'"
| fq_flow_free: "fq_reach m \<Longrightarrow> f \<in> set (fq_flows_list m) \<Longrightarrow>
    PacketPassFairQueueFlow_Free m f = Inr m' \<Longrightarrow> fq_reach m'"
| fq_set_busy: "fq_reach m \<Longrightarrow> PacketPassFairQueueFlow_SetBusyHandler m f h = Inr m' \<Longrightarrow> fq_reach m'"
| fq_cancel: "fq_reach m \<Longrightarrow> PacketPassFairQueueFlow_RequestCancel m f = Inr m' \<Longrightarrow> fq_reach m'"
| fq_sender_init: "fq_reach m \<Longrightarrow> f \<in> set (fq_flows_list m) \<Longrightarrow>
    PacketPassInterface_Sender_Init (fl_input (fq_flow m f)) = Inr i \<Longrightarrow> fq_reach (upd_flow m f (\<lambda>x. x\<lparr>fl_input := i\<rparr>))"
| fq_send: "fq_reach m \<Longrightarrow> f \<in> set (fq_flows_list m) \<Longrightarrow>
    PacketPassInterface_Sender_Send (fl_input (fq_flow m f)) dat len = Inr i \<Longrightarrow> fq_reach (upd_flow m f (\<lambda>x. x\<lparr>fl_input := i\<rparr>))"
| fq_run_operation: "fq_reach m \<Longrightarrow> f \<in> set (fq_flows_list m) \<Longrightarrow> ppi_job_operation (fl_input (fq_flow m f)) \<Longrightarrow>
    fq_run_flow_operation m f = Inr m' \<Longrightarrow> fq_reach m'"
| fq_run_done: "fq_reach m \<Longrightarrow> f \<in> set (fq_flows_list m) \<Longrightarrow> ppi_job_done (fl_input (fq_flow m f)) \<Longrightarrow>
    fq_run_flow_done m f = Inr m' \<Longrightarrow> fq_reach m'"
| fq_output_take: "fq_reach m \<Longrightarrow> ppi_job_operation (fq_output m) \<Longrightarrow>
    PacketPassInterface_job_operation (fq_output m) = Inr (i, dat, len) \<Longrightarrow> fq_reach (m\<lparr>fq_output := i\<rparr>)"
| fq_output_cancel: "fq_reach m \<Longrightarrow> ppi_job_requestcancel (fq_output m) \<Longrightarrow>
    PacketPassInterface_job_requestcancel (fq_output m) = Inr i \<Longrightarrow> fq_reach (m\<lparr>fq_output := i\<rparr>)"
| fq_output_finish: "fq_reach m \<Longrightarrow> PacketPassInterface_Done (fq_output m) = Inr i \<Longrightarrow> fq_reach (m\<lparr>fq_output := i\<rparr>)"
| fq_output_done: "fq_reach m \<Longrightarrow> ppi_job_done (fq_output m) \<Longrightarrow> fq_run_output_done m = Inr (m', h) \<Longrightarrow> fq_reach m'"
| fq_schedule: "fq_reach m \<Longrightarrow> fq_schedule_job m \<Longrightarrow> schedule_job_handler m = Inr m' \<Longrightarrow> fq_reach m'"

lemma PacketPassFairQueue_Init_inv:
  assumes "ppi_inv outp" "ppi_state outp = STATE_NONE" "0 \<le> ppi_mtu outp"
    "PacketPassFairQueue_Init outp use_cancel weight mem = Inr (Some m)"
  shows "fq_inv m"
  using assms
  by (auto simp: PacketPassFairQueue_Init_def PacketPassInterface_Sender_Init_def PacketPassInterface_GetMTU_def
      PacketPassInterface_HasCancel_def result_simps fq_inv_defs fq_sorted_def ppi_inv_def split: if_splits)

lemma SetBusyHandler_inv:
  assumes "fq_inv m" "PacketPassFairQueueFlow_SetBusyHandler m f h = Inr m'"
  shows "fq_inv m'"
proof -
  have m': "m' = upd_flow m f (\<lambda>x. x\<lparr>fl_handler_busy := h\<rparr>)"
    using assms(2) by (auto simp: PacketPassFairQueueFlow_SetBusyHandler_def result_simps)
  have "fq_sorted m' (fq_queued_tree m)" by (rule fq_sorted_cong [of m]) (use assms(1) in \<open>simp_all add: m' fq_inv_def fq_queue_ok_def\<close>)
  then have "fq_queue_ok m'" using assms(1) by (simp add: fq_inv_def fq_queue_ok_def m')
  moreover have "fq_flow_ok m' g" if "g \<in> set (fq_flows_list m)" for g
    using assms(1) that by (cases "g = f") (simp_all add: fq_inv_def fq_flow_ok_def m')
  moreover have "fq_output_ok m'" "fq_sending_ok m'" "fq_idle_ok m'"
    using assms(1) by (simp_all add: fq_inv_def fq_output_ok_def fq_sending_ok_def fq_idle_ok_def m')
  ultimately show ?thesis using assms(1) by (simp add: fq_inv_def m')
qed

lemma fq_run_flow_done_inv:
  assumes "fq_inv m" "f \<in> set (fq_flows_list m)" "ppi_job_done (fl_input (fq_flow m f))"
  shows "\<exists>m'. fq_run_flow_done m f = Inr m' \<and> fq_inv m'"
proof -
  have st: "ppi_inv (fl_input (fq_flow m f))" "ppi_state (fl_input (fq_flow m f)) = STATE_DONE_PENDING"
    using fq_flow_ppi [OF assms(1,2)] assms(3) by (auto simp: ppi_inv_def)
  let ?i = "(fl_input (fq_flow m f))\<lparr>ppi_job_done := False, ppi_state := STATE_NONE\<rparr>"
  have "fq_inv (upd_flow m f (\<lambda>x. x\<lparr>fl_input := ?i\<rparr>))"
    by (rule fq_flow_input_inv [OF assms(1)]) (use st in \<open>auto simp: ppi_inv_def\<close>)
  then show ?thesis using st by (simp add: fq_run_flow_done_def PacketPassInterface_job_done_def)
qed

text \<open>Changes of the output that do not start or end an operation.\<close>

definition ppi_same_op :: "int PacketPassInterface \<Rightarrow> int PacketPassInterface \<Rightarrow> bool" where
  "ppi_same_op i j \<longleftrightarrow> ppi_inv j \<and> ppi_handler_done j = ppi_handler_done i \<and> ppi_mtu j = ppi_mtu i \<and>
     (ppi_state j = STATE_NONE \<longleftrightarrow> ppi_state i = STATE_NONE) \<and> ppi_handler_requestcancel j = ppi_handler_requestcancel i"

lemma ppi_same_op_jobs:
  assumes "ppi_inv i"
  shows "PacketPassInterface_job_operation i = Inr (j, dat, len) \<Longrightarrow> ppi_same_op i j"
    and "PacketPassInterface_job_requestcancel i = Inr j \<Longrightarrow> ppi_same_op i j"
    and "PacketPassInterface_Done i = Inr j \<Longrightarrow> ppi_same_op i j"
    and "PacketPassInterface_Sender_RequestCancel i = Inr j \<Longrightarrow> ppi_same_op i j"
  using assms
  by (auto simp: ppi_defs ppi_inv_def ppi_same_op_def result_simps Let_def split: if_splits)

lemma fq_output_job_inv:
  assumes "fq_inv m" and "ppi_same_op (fq_output m) i"
  shows "fq_inv (m\<lparr>fq_output := i\<rparr>)"
  using assms fq_output_ppi [OF assms(1)] by (intro fq_output_inv) (simp_all add: ppi_same_op_def)

lemmas fq_output_jobs = fq_output_job_inv [OF _ ppi_same_op_jobs(1)] fq_output_job_inv [OF _ ppi_same_op_jobs(2)]
  fq_output_job_inv [OF _ ppi_same_op_jobs(3)] fq_output_job_inv [OF _ ppi_same_op_jobs(4)]

lemma fq_run_output_done_ex:
  assumes "fq_inv m" "ppi_job_done (fq_output m)"
  shows "\<exists>m' h. fq_run_output_done m = Inr (m', h) \<and> fq_inv m'"
proof (rule fq_run_output_done_inv [OF assms])
  fix m' h assume "fq_run_output_done m = Inr (m', h)" "fq_inv m'"
  then show ?thesis by (intro exI conjI)
qed

lemma fq_reach_inv: "fq_reach m \<Longrightarrow> fq_inv m"
proof (induction rule: fq_reach.induct)
  case (fq_init outp use_cancel weight mem m)
  then show ?case by (rule PacketPassFairQueue_Init_inv)
next
  case (fq_flow_init m f m')
  then show ?case using PacketPassFairQueueFlow_Init_inv [of m f] by auto
next
  case (fq_flow_free m f m')
  then have "fq_sending_flow m \<noteq> Some f" by (auto simp: PacketPassFairQueueFlow_Free_def result_simps fq_inv_def)
  then show ?case using fq_flow_free PacketPassFairQueueFlow_Free_inv [of m f] by auto
next
  case (fq_set_busy m f h m')
  then show ?case using SetBusyHandler_inv by blast
next
  case (fq_cancel m f m')
  then obtain i where "PacketPassInterface_Sender_RequestCancel (fq_output m) = Inr i" "m' = m\<lparr>fq_output := i\<rparr>"
    by (auto simp: PacketPassFairQueueFlow_RequestCancel_def result_simps)
  then show ?case using fq_output_jobs(4) [of m i] fq_cancel.IH fq_output_ppi by simp
next
  case (fq_sender_init m f i)
  then have "ppi_inv (fl_input (fq_flow m f))" by (simp add: fq_flow_ppi)
  then show ?case using fq_sender_init
    by (intro fq_flow_input_inv) (auto simp: PacketPassInterface_Sender_Init_def ppi_inv_def result_simps)
next
  case (fq_send m f dat len i)
  then have "ppi_inv (fl_input (fq_flow m f))" by (simp add: fq_flow_ppi)
  then show ?case using fq_send
    by (intro fq_flow_input_inv) (auto simp: PacketPassInterface_Sender_Send_def ppi_inv_def result_simps)
next
  case (fq_run_operation m f m')
  then show ?case using fq_run_flow_operation_inv [of m f] by auto
next
  case (fq_run_done m f m')
  then show ?case using fq_run_flow_done_inv [of m f] by auto
next
  case (fq_output_done m m' h)
  then show ?case using fq_run_output_done_ex [of m] by simp
next
  case (fq_schedule m m')
  then show ?case using schedule_job_handler_inv [of m] by auto
next
  case (fq_output_take m i dat len)
  then show ?case by (intro fq_output_jobs(1)) (simp_all add: fq_output_ppi)
next
  case (fq_output_cancel m i)
  then show ?case by (intro fq_output_jobs(2)) (simp_all add: fq_output_ppi)
next
  case (fq_output_finish m i)
  then show ?case by (intro fq_output_jobs(3)) (simp_all add: fq_output_ppi)
qed

text \<open>
  C24: In every history of a fair queue, whatever the order in which the reactor runs the jobs, no
  assertion of the queue fails when a job that is set is run: a flow's packet is accepted, a flow's
  user is told that its packet is done, the end of a packet is handled, and the next packet is
  scheduled. The flow whose packet is being sent has sent no more than any flow that waits, and a
  waiting packet is never forgotten: while one waits, another is being sent or the schedule job is
  set.
\<close>

theorem PacketPassFairQueue_correct:
  assumes "fq_reach m"
  shows "(\<forall>f\<in>set (fq_flows_list m).
            (ppi_job_operation (fl_input (fq_flow m f)) \<longrightarrow> no_fault (fq_run_flow_operation m f)) \<and>
            (ppi_job_done (fl_input (fq_flow m f)) \<longrightarrow> no_fault (fq_run_flow_done m f))) \<and>
         (ppi_job_done (fq_output m) \<longrightarrow> no_fault (fq_run_output_done m)) \<and>
         (fq_schedule_job m \<longrightarrow> no_fault (schedule_job_handler m)) \<and>
         (\<forall>f g. fq_sending_flow m = Some f \<and> g \<in> set (fq_queued_tree m) \<longrightarrow>
            fl_time (fq_flow m f) \<le> fl_time (fq_flow m g)) \<and>
         (fq_queued_tree m \<noteq> [] \<longrightarrow> fq_sending_flow m \<noteq> None \<or> fq_schedule_job m)"
proof (intro conjI ballI impI allI)
  note inv = fq_reach_inv [OF assms]
  show "no_fault (fq_run_flow_operation m f)" if "f \<in> set (fq_flows_list m)" "ppi_job_operation (fl_input (fq_flow m f))" for f
    using fq_run_flow_operation_inv [OF inv that] by (auto simp: no_fault_iff)
  show "no_fault (fq_run_flow_done m f)" if "f \<in> set (fq_flows_list m)" "ppi_job_done (fl_input (fq_flow m f))" for f
    using fq_run_flow_done_inv [OF inv that] by (auto simp: no_fault_iff)
  show "no_fault (fq_run_output_done m)" if "ppi_job_done (fq_output m)"
    using fq_run_output_done_ex [OF inv that] by (auto simp: no_fault_iff)
  show "no_fault (schedule_job_handler m)" if "fq_schedule_job m"
    using schedule_job_handler_inv [OF inv that] by (auto simp: no_fault_iff)
  show "fl_time (fq_flow m f) \<le> fl_time (fq_flow m g)" if "fq_sending_flow m = Some f \<and> g \<in> set (fq_queued_tree m)" for f g
    using inv that by (simp add: fq_inv_def fq_sending_ok_def)
  show "fq_sending_flow m \<noteq> None \<or> fq_schedule_job m" if "fq_queued_tree m \<noteq> []"
    using inv that by (auto simp: fq_inv_def fq_idle_ok_def)
qed

text \<open>A queue with two flows: the first sends a packet, and the packet of the second waits.\<close>

definition fq_example_output :: "int PacketPassInterface" where
  "fq_example_output = projr (PacketPassInterface_Init 1500)"

definition fq_example_flow :: PacketPassFairQueueFlow where
  "fq_example_flow = \<lparr> fl_handler_busy = False, fl_input = fq_example_output, fl_time = 0, fl_is_queued = False,
     fl_data = None, fl_data_len = 0 \<rparr>"

definition fq_example_start :: "nat list \<Rightarrow> PacketPassFairQueue" where
  "fq_example_start fs =
     (the (projr (PacketPassFairQueue_Init fq_example_output False 1 (\<lambda>_. fq_example_flow))))\<lparr>fq_flows_list := fs\<rparr>"

lemma fq_example_output_simp: "fq_example_output =
    \<lparr> ppi_mtu = 1500, ppi_handler_requestcancel = False, ppi_handler_done = False,
      ppi_job_operation = False, ppi_job_operation_data = None, ppi_job_operation_len = 0,
      ppi_job_requestcancel = False, ppi_job_done = False, ppi_state = STATE_NONE, ppi_cancel_requested = False \<rparr>"
  by (simp add: fq_example_output_def PacketPassInterface_Init_def)

lemma fq_example_start_simp: "fq_example_start fs =
    \<lparr> fq_output = fq_example_output\<lparr>ppi_handler_done := True\<rparr>, fq_use_cancel = False, fq_packet_weight = 1,
      fq_sending_flow = None, fq_sending_len = 0, fq_previous_flow = None, fq_queued_tree = [],
      fq_flows_list = fs, fq_freeing = False, fq_schedule_job = False, fq_flow = \<lambda>_. fq_example_flow \<rparr>"
  by (simp add: fq_example_start_def PacketPassFairQueue_Init_def PacketPassInterface_GetMTU_def
      PacketPassInterface_Sender_Init_def fq_example_output_simp uint_max_diff [of 0, simplified])

lemma fq_example_start_reach: "fq_reach (fq_example_start [0, 1])"
proof -
  have "fq_reach (fq_example_start [])"
    by (rule fq_init [of fq_example_output False 1 "\<lambda>_. fq_example_flow"])
       (simp_all add: fq_example_start_simp PacketPassFairQueue_Init_def PacketPassInterface_GetMTU_def
          PacketPassInterface_Sender_Init_def fq_example_output_simp ppi_inv_def uint_max_diff [of 0, simplified])
  then have "fq_reach (fq_example_start [0])"
    by (rule fq_flow_init [of _ 0]) (simp_all add: fq_example_start_simp PacketPassFairQueueFlow_Init_def
       PacketPassInterface_GetMTU_def PacketPassInterface_Init_def fq_example_flow_def fq_example_output_simp fun_upd_idem_iff)
  then show ?thesis
    by (rule fq_flow_init [of _ 1]) (simp_all add: fq_example_start_simp PacketPassFairQueueFlow_Init_def
       PacketPassInterface_GetMTU_def PacketPassInterface_Init_def fq_example_flow_def fq_example_output_simp fun_upd_idem_iff)
qed

text \<open>A flow whose packet of 100 bytes is taken by the queue.\<close>

definition fq_example_sent :: PacketPassFairQueueFlow where
  "fq_example_sent = fq_example_flow\<lparr>fl_input := fq_example_output\<lparr>ppi_handler_done := True,
     ppi_job_operation_data := Some 7, ppi_job_operation_len := 100, ppi_job_operation := True,
     ppi_state := STATE_OPERATION_PENDING\<rparr>\<rparr>"

definition fq_example_busy :: "bool \<Rightarrow> PacketPassFairQueueFlow" where
  "fq_example_busy queued = fq_example_flow\<lparr>fl_input := fq_example_output\<lparr>ppi_handler_done := True,
     ppi_job_operation_data := Some 7, ppi_job_operation_len := 100, ppi_job_operation := False,
     ppi_state := STATE_BUSY\<rparr>, fl_data := Some 7, fl_data_len := 100, fl_is_queued := queued\<rparr>"

lemma fq_example_user:
  assumes "fq_reach m" "f \<in> set (fq_flows_list m)" "fq_flow m f = fq_example_flow"
    and "fq_run_flow_operation (upd_flow m f (\<lambda>x. fq_example_sent)) f = Inr m'"
  shows "fq_reach m'"
proof -
  have "fq_reach (upd_flow m f (\<lambda>x. x\<lparr>fl_input := fq_example_output\<lparr>ppi_handler_done := True\<rparr>\<rparr>))" (is "fq_reach ?m1")
    by (rule fq_sender_init [OF assms(1,2)])
       (simp add: assms(3) fq_example_flow_def PacketPassInterface_Sender_Init_def fq_example_output_simp)
  then have "fq_reach (upd_flow ?m1 f (\<lambda>x. x\<lparr>fl_input := fl_input fq_example_sent\<rparr>))"
    by (rule fq_send [where dat = "Some 7" and len = 100])
       (use assms(2) in \<open>simp_all add: PacketPassInterface_Sender_Send_def fq_example_sent_def fq_example_output_simp\<close>)
  then have "fq_reach (upd_flow m f (\<lambda>x. fq_example_sent))"
    by (simp add: assms(3) fq_example_sent_def)
  then show ?thesis
    by (rule fq_run_operation [OF _ _ _ assms(4)]) (use assms(2) in \<open>simp_all add: fq_example_sent_def\<close>)
qed

definition fq_example_one :: PacketPassFairQueue where
  "fq_example_one = (fq_example_start [0, 1])
     \<lparr>fq_output := fq_example_output\<lparr>ppi_handler_done := True, ppi_job_operation_data := Some 7,
        ppi_job_operation_len := 100, ppi_job_operation := True, ppi_state := STATE_OPERATION_PENDING\<rparr>,
      fq_sending_flow := Some 0, fq_sending_len := 100, fq_flow := (\<lambda>_. fq_example_flow)(0 := fq_example_busy False)\<rparr>"

definition fq_example_two :: PacketPassFairQueue where
  "fq_example_two = fq_example_one\<lparr>fq_queued_tree := [1], fq_flow := (fq_flow fq_example_one)(1 := fq_example_busy True)\<rparr>"

lemmas fq_example_eval = fq_example_start_simp fq_example_output_simp fq_example_flow_def fq_example_sent_def
  fq_example_busy_def PacketPassInterface_Sender_Send_def fq_run_flow_operation_def
  PacketPassInterface_job_operation_def fq_input_handler_send_def get_current_time_def tree_GetFirst_def schedule_def
  compare_flows_def B_COMPARE_def ASSERT_def Let_def

lemma fq_example_reach: "fq_reach fq_example_two"
proof -
  have "fq_reach fq_example_one"
    by (rule fq_example_user [OF fq_example_start_reach, of 0]) (simp_all add: fq_example_eval fq_example_one_def)
  then show ?thesis
    by (rule fq_example_user [of _ 1]) (simp_all add: fq_example_eval fq_example_one_def fq_example_two_def)
qed

theorem PacketPassFairQueue_correct_witness:
  "fq_reach fq_example_two \<and> fq_sending_flow fq_example_two = Some 0 \<and> fq_queued_tree fq_example_two = [1] \<and>
     fl_time (fq_flow fq_example_two 0) \<le> fl_time (fq_flow fq_example_two 1)"
proof -
  have q: "fq_sending_flow fq_example_two = Some 0" "fq_queued_tree fq_example_two = [1]"
    by (simp_all add: fq_example_two_def fq_example_one_def)
  then show ?thesis using PacketPassFairQueue_correct [OF fq_example_reach] fq_example_reach by simp
qed

text \<open>
  C25: When a packet is finished, the time of its flow grows by exactly the weight of the packet
  plus its length, less an amount that is taken off all flows. That amount is 0 as long as the
  64-bit time does not overflow; when it would, it is the least time of the flows that wait, or, when
  none waits, the time of the flow itself, which so starts again from 0. Every other flow loses the
  amount, down to 0 at the least, and the flows that wait lose exactly the amount. So no time wraps
  around, and the order in which the waiting flows are served, and the lead of each over the flow
  that has just sent, are the same as with unbounded times.
\<close>

theorem fair_queue_time_exact:
  assumes "fq_inv m" and "ppi_job_done (fq_output m)"
  shows "\<exists>flow m' h s. fq_sending_flow m = Some flow \<and> fq_run_output_done m = Inr (m', h) \<and>
     fq_queued_tree m' = fq_queued_tree m \<and>
     s = (if uint (fl_time (fq_flow m flow)) + fq_packet_weight m + fq_sending_len m < 2 ^ 64 then 0
          else if fq_queued_tree m = [] then uint (fl_time (fq_flow m flow))
          else Min ((\<lambda>g. uint (fl_time (fq_flow m g))) ` set (fq_queued_tree m))) \<and>
     uint (fl_time (fq_flow m' flow)) = uint (fl_time (fq_flow m flow)) + fq_packet_weight m + fq_sending_len m - s \<and>
     (\<forall>g\<in>set (fq_queued_tree m). uint (fl_time (fq_flow m' g)) = uint (fl_time (fq_flow m g)) - s) \<and>
     (\<forall>g\<in>set (fq_flows_list m) - {flow}. uint (fl_time (fq_flow m' g)) = max 0 (uint (fl_time (fq_flow m g)) - s))"
proof (rule fq_run_output_done_inv [OF assms])
  fix flow m' h s
  assume "fq_sending_flow m = Some flow" "fq_run_output_done m = Inr (m', h)" "fq_queued_tree m' = fq_queued_tree m"
    "uint (fl_time (fq_flow m' flow)) = uint (fl_time (fq_flow m flow)) + fq_packet_weight m + fq_sending_len m - s"
    "\<And>g. g \<in> set (fq_queued_tree m) \<Longrightarrow> uint (fl_time (fq_flow m' g)) = uint (fl_time (fq_flow m g)) - s"
    "\<And>g. g \<in> set (fq_flows_list m) \<Longrightarrow> g \<noteq> flow \<Longrightarrow> uint (fl_time (fq_flow m' g)) = max 0 (uint (fl_time (fq_flow m g)) - s)"
    "s = (if uint (fl_time (fq_flow m flow)) + fq_packet_weight m + fq_sending_len m < 2 ^ 64 then 0
       else if fq_queued_tree m = [] then uint (fl_time (fq_flow m flow))
       else Min ((\<lambda>g. uint (fl_time (fq_flow m g))) ` set (fq_queued_tree m)))"
  then show ?thesis by (intro exI [of _ flow] exI [of _ m'] exI [of _ h] exI [of _ s]) simp
qed

text \<open>The two flows of the example at the top of the time range: the sending flow overflows.\<close>

definition fq_example_full :: PacketPassFairQueue where
  "fq_example_full = fq_example_two\<lparr>fq_output := (fq_output fq_example_two)\<lparr>ppi_job_operation := False,
       ppi_job_done := True, ppi_state := STATE_DONE_PENDING\<rparr>,
     fq_flow := (\<lambda>_. fq_example_flow)(0 := (fq_example_busy False)\<lparr>fl_time := 18446744073709551600\<rparr>,
       1 := (fq_example_busy True)\<lparr>fl_time := 18446744073709551610\<rparr>)\<rparr>"

theorem fair_queue_time_exact_witness:
  "\<exists>m' h. fq_run_output_done fq_example_full = Inr (m', h) \<and>
     uint (fl_time (fq_flow m' 0)) = 91 \<and> uint (fl_time (fq_flow m' 1)) = 0"
proof -
  have f: "fq_sending_flow fq_example_full = Some 0" "fq_queued_tree fq_example_full = [1]"
    "fq_packet_weight fq_example_full = 1" "fq_sending_len fq_example_full = 100"
    "uint (fl_time (fq_flow fq_example_full 0)) = 18446744073709551600"
    "uint (fl_time (fq_flow fq_example_full 1)) = 18446744073709551610"
    by (simp_all add: fq_example_full_def fq_example_two_def fq_example_one_def fq_example_start_simp)
  have "ppi_job_done (fq_output fq_example_full)" by (simp add: fq_example_full_def)
  moreover have "fq_inv fq_example_full"
    by (simp add: fq_inv_defs fq_example_full_def fq_example_two_def fq_example_one_def fq_example_start_simp
        fq_example_flow_def fq_example_busy_def fq_example_output_simp ppi_inv_def fq_sorted_def uint_max_diff [of 0, simplified]
        word_le_def)
  ultimately show ?thesis using fair_queue_time_exact [of fq_example_full] f by auto
qed

end
