(* ===== verification/Socks_Client.thy ===== *)
theory Socks_Client
  imports Flow_Parts Socket_Addr
begin

section \<open>The SOCKS5 client: \<^verbatim>\<open>socksclient/BSocksClient.c\<close>\<close>

text \<open>
  A client object connects to the SOCKS server, offers its authentication methods, authenticates
  with a username and password if the server asks for it, requests a connection to the
  destination, and hands the established stream to its user. The record has the fields of the C
  struct, with the packet stream sender it embeds and the receive interface of its connection;
  of the connection itself it has which parts are initialised.

  All messages pass through one buffer that is reallocated for each. \<^verbatim>\<open>realloc\<close> is a parameter: it
  fails or returns a block of the requested length. A handler returns the client and the event it
  reports to the user, if any; reporting is the last thing a handler does. \<open>size_t\<close> is 32 bits wide,
  the narrower of the targets.
\<close>

subsection \<open>Sizes: \<^verbatim>\<open>misc/bsize.h\<close>\<close>

type_synonym size_t = "32 word"

definition SIZE_MAX :: size_t where
  "SIZE_MAX = - 1"

record bsize_t =
  bs_is_overflow :: bool
  bs_value :: size_t

definition bsize_fromsize :: "size_t \<Rightarrow> bsize_t" where
  "bsize_fromsize v = \<lparr> bs_is_overflow = False, bs_value = v \<rparr>"

definition bsize_fromint :: "int \<Rightarrow> bsize_t" where
  "bsize_fromint v = \<lparr> bs_is_overflow = (v < 0 \<or> v > uint SIZE_MAX), bs_value = of_int v \<rparr>"

definition bsize_overflow :: bsize_t where
  "bsize_overflow = \<lparr> bs_is_overflow = True, bs_value = 0 \<rparr>"

definition bsize_tosize :: "bsize_t \<Rightarrow> size_t option" where
  "bsize_tosize s = (if bs_is_overflow s then None else Some (bs_value s))"

definition bsize_toint :: "bsize_t \<Rightarrow> int option" where
  "bsize_toint s = (if bs_is_overflow s \<or> uint (bs_value s) > INT_MAX then None else Some (uint (bs_value s)))"

definition bsize_add :: "bsize_t \<Rightarrow> bsize_t \<Rightarrow> bsize_t" where
  "bsize_add s1 s2 =
     \<lparr> bs_is_overflow = (bs_is_overflow s1 \<or> bs_is_overflow s2 \<or> bs_value s2 > SIZE_MAX - bs_value s1),
       bs_value = bs_value s1 + bs_value s2 \<rparr>"

definition bsize_max :: "bsize_t \<Rightarrow> bsize_t \<Rightarrow> bsize_t" where
  "bsize_max s1 s2 =
     \<lparr> bs_is_overflow = (bs_is_overflow s1 \<or> bs_is_overflow s2),
       bs_value = (if bs_value s1 > bs_value s2 then 1 else 0) * bs_value s1 +
                  (if bs_value s1 \<le> bs_value s2 then 1 else 0) * bs_value s2 \<rparr>"

definition bsize_mul :: "bsize_t \<Rightarrow> bsize_t \<Rightarrow> bsize_t" where
  "bsize_mul s1 s2 =
     \<lparr> bs_is_overflow = (bs_is_overflow s1 \<or> bs_is_overflow s2 \<or>
         (bs_value s1 \<noteq> 0 \<and> bs_value s2 > SIZE_MAX div bs_value s1)),
       bs_value = bs_value s1 * bs_value s2 \<rparr>"

text \<open>\<^verbatim>\<open>BRealloc\<close> of \<^verbatim>\<open>misc/balloc.h\<close>, on the parameter \<open>realloc\<close>.\<close>

definition BRealloc :: "(bytes option \<Rightarrow> nat \<Rightarrow> bytes option) \<Rightarrow> bytes option \<Rightarrow> size_t \<Rightarrow> bytes option" where
  "BRealloc realloc m size_bytes = (if size_bytes = 0 then realloc m 1 else realloc m (unat size_bytes))"

subsection \<open>The protocol: \<^verbatim>\<open>misc/socks_proto.h\<close>\<close>

definition SOCKS_VERSION :: u8 where "SOCKS_VERSION = 5"
definition SOCKS_METHOD_NO_AUTHENTICATION_REQUIRED :: int where "SOCKS_METHOD_NO_AUTHENTICATION_REQUIRED = 0"
definition SOCKS_METHOD_USERNAME_PASSWORD :: int where "SOCKS_METHOD_USERNAME_PASSWORD = 2"
definition SOCKS_CMD_CONNECT :: u8 where "SOCKS_CMD_CONNECT = 1"
definition SOCKS_ATYP_IPV4 :: u8 where "SOCKS_ATYP_IPV4 = 1"
definition SOCKS_ATYP_IPV6 :: u8 where "SOCKS_ATYP_IPV6 = 4"
definition SOCKS_REP_SUCCEEDED :: u8 where "SOCKS_REP_SUCCEEDED = 0"

text \<open>The structs as they are laid out in a message.\<close>

definition socks_client_hello_header :: "u8 \<Rightarrow> u8 \<Rightarrow> bytes" where
  "socks_client_hello_header ver nmethods = [ver, nmethods]"

definition socks_request_header :: "u8 \<Rightarrow> u8 \<Rightarrow> u8 \<Rightarrow> u8 \<Rightarrow> bytes" where
  "socks_request_header ver cmd rsv atyp = [ver, cmd, rsv, atyp]"

definition socks_addr_ipv4 :: "u32 \<Rightarrow> u16 \<Rightarrow> bytes" where
  "socks_addr_ipv4 addr port = u32_bytes addr @ u16_bytes port"

definition socks_addr_ipv6 :: "bytes \<Rightarrow> u16 \<Rightarrow> bytes" where
  "socks_addr_ipv6 addr port = addr @ u16_bytes port"

subsection \<open>The client\<close>

datatype socks_state = SC_CONNECTING | SC_SENDING_HELLO | SC_SENT_HELLO | SC_SENDING_PASSWORD | SC_SENT_PASSWORD
  | SC_SENDING_REQUEST | SC_SENT_REQUEST | SC_RECEIVED_REPLY_HEADER | SC_UP

datatype socks_event = BSOCKSCLIENT_EVENT_ERROR | BSOCKSCLIENT_EVENT_UP | BSOCKSCLIENT_EVENT_ERROR_CLOSED

record BSocksClient_auth_info =
  auth_type :: int
  auth_username :: bytes
  auth_username_len :: nat
  auth_password :: bytes
  auth_password_len :: nat

text \<open>Which parts of the connection are initialised.\<close>

record socks_connection =
  con_inited :: bool
  con_send :: bool
  con_recv :: bool

text \<open>
  The C object keeps a pointer to the array \<open>auth_info\<close> of its caller; \<open>sc_auth_info\<close> is what that memory holds. The caller may change it while
  the object lives: the step \<open>so_memory\<close> of \<open>socks_reach\<close> below.
\<close>

record BSocksClient =
  sc_auth_info :: "BSocksClient_auth_info list"
  sc_dest_addr :: BAddr
  sc_state :: socks_state
  sc_buffer :: "bytes option"
  sc_con :: socks_connection
  sc_sender :: PacketStreamSender
  sc_recv_if :: "int StreamRecvInterface"
  sc_recv_dest :: int
  sc_recv_len :: int
  sc_recv_total :: int

definition con_RecvAsync_Init :: "socks_connection \<Rightarrow> socks_connection result" where
  "con_RecvAsync_Init c = ASSERT (con_inited c) (ASSERT (\<not> con_recv c) (Inr (c\<lparr>con_recv := True\<rparr>)))"

definition con_SendAsync_Init :: "socks_connection \<Rightarrow> socks_connection result" where
  "con_SendAsync_Init c = ASSERT (con_inited c) (ASSERT (\<not> con_send c) (Inr (c\<lparr>con_send := True\<rparr>)))"

definition con_RecvAsync_Free :: "socks_connection \<Rightarrow> socks_connection result" where
  "con_RecvAsync_Free c = ASSERT (con_recv c) (Inr (c\<lparr>con_recv := False\<rparr>))"

definition con_SendAsync_Free :: "socks_connection \<Rightarrow> socks_connection result" where
  "con_SendAsync_Free c = ASSERT (con_send c) (Inr (c\<lparr>con_send := False\<rparr>))"

definition con_Free :: "socks_connection \<Rightarrow> socks_connection result" where
  "con_Free c = ASSERT (con_inited c) (ASSERT (\<not> con_recv c) (ASSERT (\<not> con_send c) (Inr (c\<lparr>con_inited := False\<rparr>))))"

definition init_control_io :: "BSocksClient \<Rightarrow> BSocksClient result" where
  "init_control_io c =
     andthen (con_RecvAsync_Init (sc_con c)) (\<lambda>con.
     andthen (StreamRecvInterface_Receiver_Init StreamRecvInterface_Init) (\<lambda>recv_if.
     andthen (con_SendAsync_Init con) (\<lambda>con.
     andthen (PacketStreamSender_Init StreamPassInterface_Init INT_MAX) (\<lambda>sender.
     andthen (PacketPassInterface_Sender_Init (PacketStreamSender_GetInput sender)) (\<lambda>send_if.
     Inr (c\<lparr>sc_con := con, sc_recv_if := recv_if, sc_sender := sender\<lparr>pss_input := send_if\<rparr>\<rparr>))))))"

definition free_control_io :: "BSocksClient \<Rightarrow> BSocksClient result" where
  "free_control_io c =
     andthen (con_SendAsync_Free (sc_con c)) (\<lambda>con.
     andthen (con_RecvAsync_Free con) (\<lambda>con. Inr (c\<lparr>sc_con := con\<rparr>)))"

definition init_up_io :: "BSocksClient \<Rightarrow> BSocksClient result" where
  "init_up_io c =
     andthen (con_RecvAsync_Init (sc_con c)) (\<lambda>con.
     andthen (con_SendAsync_Init con) (\<lambda>con. Inr (c\<lparr>sc_con := con\<rparr>)))"

definition free_up_io :: "BSocksClient \<Rightarrow> BSocksClient result" where
  "free_up_io c =
     andthen (con_SendAsync_Free (sc_con c)) (\<lambda>con.
     andthen (con_RecvAsync_Free con) (\<lambda>con. Inr (c\<lparr>sc_con := con\<rparr>)))"

text \<open>The boolean is the return value.\<close>

definition reserve_buffer :: "(bytes option \<Rightarrow> nat \<Rightarrow> bytes option) \<Rightarrow> BSocksClient \<Rightarrow> bsize_t \<Rightarrow> BSocksClient \<times> bool" where
  "reserve_buffer realloc c s =
     (if bs_is_overflow s then (c, False)
      else case BRealloc realloc (sc_buffer c) (bs_value s) of None \<Rightarrow> (c, False)
      | Some buffer \<Rightarrow> (c\<lparr>sc_buffer := Some buffer\<rparr>, True))"

definition do_receive :: "BSocksClient \<Rightarrow> BSocksClient result" where
  "do_receive c =
     ASSERT (sc_recv_len c < sc_recv_total c)
     (andthen (StreamRecvInterface_Receiver_Recv (sc_recv_if c) (Some (sc_recv_dest c + sc_recv_len c))
                 (sc_recv_total c - sc_recv_len c)) (\<lambda>i. Inr (c\<lparr>sc_recv_if := i\<rparr>)))"

definition start_receive :: "BSocksClient \<Rightarrow> int \<Rightarrow> int \<Rightarrow> BSocksClient result" where
  "start_receive c dest total_len =
     ASSERT (total_len > 0) (do_receive (c\<lparr>sc_recv_dest := dest, sc_recv_len := 0, sc_recv_total := total_len\<rparr>))"

text \<open>Writing to and reading from the buffer, and sending from its start.\<close>

definition buffer_write :: "BSocksClient \<Rightarrow> nat \<Rightarrow> bytes \<Rightarrow> BSocksClient result" where
  "buffer_write c off bs =
     (case sc_buffer c of None \<Rightarrow> Inl Out_of_bounds
      | Some b \<Rightarrow> andthen (mem_write b off bs) (\<lambda>b. Inr (c\<lparr>sc_buffer := Some b\<rparr>)))"

definition buffer_read :: "BSocksClient \<Rightarrow> nat \<Rightarrow> nat \<Rightarrow> bytes result" where
  "buffer_read c off n = (case sc_buffer c of None \<Rightarrow> Inl Out_of_bounds | Some b \<Rightarrow> mem_read b off n)"

definition send_buffer :: "BSocksClient \<Rightarrow> size_t \<Rightarrow> BSocksClient result" where
  "send_buffer c len =
     andthen (PacketPassInterface_Sender_Send (pss_input (sc_sender c)) (if sc_buffer c = None then None else Some 0) (uint len)) (\<lambda>i.
     Inr (c\<lparr>sc_sender := (sc_sender c)\<lparr>pss_input := i\<rparr>\<rparr>))"

text \<open>\<open>report_error\<close> calls the user's handler.\<close>

definition report_error :: "BSocksClient \<Rightarrow> socks_event \<Rightarrow> (BSocksClient \<times> socks_event option) result" where
  "report_error c error = Inr (c, Some error)"

fun write_hello_methods :: "BSocksClient \<Rightarrow> nat \<Rightarrow> BSocksClient_auth_info list \<Rightarrow> BSocksClient result" where
  "write_hello_methods c i [] = Inr c"
| "write_hello_methods c i (a # as) =
     andthen (buffer_write c (2 + i) [hton8 (of_int (auth_type a))]) (\<lambda>c. write_hello_methods c (Suc i) as)"

text \<open>
  \<open>connector_handler\<close>: its label \<open>fail1\<close>, the part that sends the hello, and the whole. The last
  argument is the result of \<^verbatim>\<open>BConnection_Init\<close>.
\<close>

definition connector_fail1 :: "BSocksClient \<Rightarrow> (BSocksClient \<times> socks_event option) result" where
  "connector_fail1 c =
     andthen (free_control_io c) (\<lambda>c.
     andthen (con_Free (sc_con c)) (\<lambda>con. report_error (c\<lparr>sc_con := con\<rparr>) BSOCKSCLIENT_EVENT_ERROR))"

definition connector_send_hello :: "(bytes option \<Rightarrow> nat \<Rightarrow> bytes option) \<Rightarrow> BSocksClient \<Rightarrow>
    (BSocksClient \<times> socks_event option) result" where
  "connector_send_hello realloc c =
     (let n = length (sc_auth_info c) in
      if n = 0 \<or> n > 255 then connector_fail1 c
      else
        let s = bsize_add (bsize_fromsize 2) (bsize_mul (bsize_fromsize (of_nat n)) (bsize_fromsize 1));
            (c, ok) = reserve_buffer realloc c s
        in if \<not> ok then connector_fail1 c
        else andthen (buffer_write c 0 (socks_client_hello_header (hton8 SOCKS_VERSION) (hton8 (of_nat n)))) (\<lambda>c.
             andthen (write_hello_methods c 0 (sc_auth_info c)) (\<lambda>c.
             andthen (send_buffer c (bs_value s)) (\<lambda>c.
             Inr (c\<lparr>sc_state := SC_SENDING_HELLO\<rparr>, None)))))"

definition connector_handler :: "(bytes option \<Rightarrow> nat \<Rightarrow> bytes option) \<Rightarrow> BSocksClient \<Rightarrow> bool \<Rightarrow> bool \<Rightarrow>
    (BSocksClient \<times> socks_event option) result" where
  "connector_handler realloc c is_error con_ok =
     ASSERT (sc_state c = SC_CONNECTING)
     (if is_error then report_error c BSOCKSCLIENT_EVENT_ERROR
      else if \<not> con_ok then report_error c BSOCKSCLIENT_EVENT_ERROR
      else andthen (init_control_io (c\<lparr>sc_con := (sc_con c)\<lparr>con_inited := True\<rparr>\<rparr>)) (connector_send_hello realloc))"

definition connection_handler :: "BSocksClient \<Rightarrow> bool \<Rightarrow> (BSocksClient \<times> socks_event option) result" where
  "connection_handler c recv_closed =
     ASSERT (sc_state c \<noteq> SC_CONNECTING)
     (if sc_state c = SC_UP \<and> recv_closed then report_error c BSOCKSCLIENT_EVENT_ERROR_CLOSED
      else report_error c BSOCKSCLIENT_EVENT_ERROR)"

definition auth_finished :: "(bytes option \<Rightarrow> nat \<Rightarrow> bytes option) \<Rightarrow> BSocksClient \<Rightarrow>
    (BSocksClient \<times> socks_event option) result" where
  "auth_finished realloc c =
     (let s = bsize_fromsize 4;
          s = (case sc_dest_addr c of BAddr_IPv4 _ _ \<Rightarrow> bsize_add s (bsize_fromsize 6)
               | BAddr_IPv6 _ _ \<Rightarrow> bsize_add s (bsize_fromsize 18) | _ \<Rightarrow> s);
          (c, ok) = reserve_buffer realloc c s
      in if \<not> ok then report_error c BSOCKSCLIENT_EVENT_ERROR
      else
        andthen (case sc_dest_addr c of
                   BAddr_IPv4 ip port \<Rightarrow> andthen (buffer_write c 4 (socks_addr_ipv4 ip port)) (\<lambda>c. Inr (c, hton8 SOCKS_ATYP_IPV4))
                 | BAddr_IPv6 ip port \<Rightarrow> andthen (buffer_write c 4 (socks_addr_ipv6 ip port)) (\<lambda>c. Inr (c, hton8 SOCKS_ATYP_IPV6))
                 | _ \<Rightarrow> Inl Assertion_failed) (\<lambda>(c, atyp).
        andthen (buffer_write c 0 (socks_request_header (hton8 SOCKS_VERSION) (hton8 SOCKS_CMD_CONNECT) (hton8 0) atyp)) (\<lambda>c.
        andthen (send_buffer c (bs_value s)) (\<lambda>c.
        Inr (c\<lparr>sc_state := SC_SENDING_REQUEST\<rparr>, None)))))"

fun find_auth :: "BSocksClient_auth_info list \<Rightarrow> int \<Rightarrow> BSocksClient_auth_info option" where
  "find_auth [] method_id = None"
| "find_auth (a # as) method_id = (if auth_type a = method_id then Some a else find_auth as method_id)"

text \<open>The password packet, written through a moving pointer.\<close>

definition send_password :: "(bytes option \<Rightarrow> nat \<Rightarrow> bytes option) \<Rightarrow> BSocksClient \<Rightarrow> BSocksClient_auth_info \<Rightarrow>
    (BSocksClient \<times> socks_event option) result" where
  "send_password realloc c ai =
     (let ul = auth_username_len ai; pl = auth_password_len ai in
      if ul = 0 \<or> ul > 255 \<or> pl = 0 \<or> pl > 255 then report_error c BSOCKSCLIENT_EVENT_ERROR
      else
        let s = bsize_fromsize (1 + 1 + of_nat ul + 1 + of_nat pl);
            (c, ok) = reserve_buffer realloc c s
        in if \<not> ok then report_error c BSOCKSCLIENT_EVENT_ERROR
        else
          andthen (buffer_write c 0 [1]) (\<lambda>c.
          andthen (buffer_write c 1 [of_nat ul]) (\<lambda>c.
          andthen (mem_read (auth_username ai) 0 ul) (\<lambda>user.
          andthen (buffer_write c 2 user) (\<lambda>c.
          andthen (buffer_write c (2 + ul) [of_nat pl]) (\<lambda>c.
          andthen (mem_read (auth_password ai) 0 pl) (\<lambda>pass.
          andthen (buffer_write c (3 + ul) pass) (\<lambda>c.
          andthen (send_buffer c (bs_value s)) (\<lambda>c.
          Inr (c\<lparr>sc_state := SC_SENDING_PASSWORD\<rparr>, None))))))))))"

text \<open>The cases of \<open>recv_handler_done\<close> once a message is complete.\<close>

definition recv_hello :: "(bytes option \<Rightarrow> nat \<Rightarrow> bytes option) \<Rightarrow> BSocksClient \<Rightarrow> (BSocksClient \<times> socks_event option) result" where
  "recv_hello realloc c =
     andthen (buffer_read c 0 2) (\<lambda>imsg.
     if ntoh8 (imsg ! 0) \<noteq> SOCKS_VERSION then report_error c BSOCKSCLIENT_EVENT_ERROR
     else case find_auth (sc_auth_info c) (uint (ntoh8 (imsg ! 1))) of
       None \<Rightarrow> report_error c BSOCKSCLIENT_EVENT_ERROR
     | Some ai \<Rightarrow>
         if auth_type ai = SOCKS_METHOD_NO_AUTHENTICATION_REQUIRED then auth_finished realloc c
         else if auth_type ai = SOCKS_METHOD_USERNAME_PASSWORD then send_password realloc c ai
         else Inl Assertion_failed)"

definition recv_reply_header :: "BSocksClient \<Rightarrow> (BSocksClient \<times> socks_event option) result" where
  "recv_reply_header c =
     andthen (buffer_read c 0 4) (\<lambda>imsg.
     if ntoh8 (imsg ! 0) \<noteq> SOCKS_VERSION then report_error c BSOCKSCLIENT_EVENT_ERROR
     else if ntoh8 (imsg ! 1) \<noteq> SOCKS_REP_SUCCEEDED then report_error c BSOCKSCLIENT_EVENT_ERROR
     else
       let addr_len = (if ntoh8 (imsg ! 3) = SOCKS_ATYP_IPV4 then Some 6
                       else if ntoh8 (imsg ! 3) = SOCKS_ATYP_IPV6 then Some 18 else None)
       in case addr_len of None \<Rightarrow> report_error c BSOCKSCLIENT_EVENT_ERROR
          | Some n \<Rightarrow> andthen (start_receive c 4 n) (\<lambda>c. Inr (c\<lparr>sc_state := SC_RECEIVED_REPLY_HEADER\<rparr>, None)))"

definition recv_password_reply :: "(bytes option \<Rightarrow> nat \<Rightarrow> bytes option) \<Rightarrow> BSocksClient \<Rightarrow> (BSocksClient \<times> socks_event option) result" where
  "recv_password_reply realloc c =
     andthen (buffer_read c 0 1) (\<lambda>b0.
     if b0 ! 0 \<noteq> 1 then report_error c BSOCKSCLIENT_EVENT_ERROR
     else andthen (buffer_read c 1 1) (\<lambda>b1.
     if b1 ! 0 \<noteq> 0 then report_error c BSOCKSCLIENT_EVENT_ERROR
     else auth_finished realloc c))"

definition recv_reply_rest :: "BSocksClient \<Rightarrow> (BSocksClient \<times> socks_event option) result" where
  "recv_reply_rest c =
     (let c = c\<lparr>sc_buffer := None\<rparr> in
      andthen (free_control_io c) (\<lambda>c.
      andthen (init_up_io c) (\<lambda>c.
      Inr (c\<lparr>sc_state := SC_UP\<rparr>, Some BSOCKSCLIENT_EVENT_UP))))"

definition socks_recv_handler_done :: "(bytes option \<Rightarrow> nat \<Rightarrow> bytes option) \<Rightarrow> BSocksClient \<Rightarrow> int \<Rightarrow>
    (BSocksClient \<times> socks_event option) result" where
  "socks_recv_handler_done realloc c data_len =
     ASSERT (data_len \<ge> 0) (ASSERT (data_len \<le> sc_recv_total c - sc_recv_len c)
     (let c = c\<lparr>sc_recv_len := sc_recv_len c + data_len\<rparr> in
      if sc_recv_len c < sc_recv_total c then andthen (do_receive c) (\<lambda>c. Inr (c, None))
      else case sc_state c of
        SC_SENT_HELLO \<Rightarrow> recv_hello realloc c
      | SC_SENT_REQUEST \<Rightarrow> recv_reply_header c
      | SC_SENT_PASSWORD \<Rightarrow> recv_password_reply realloc c
      | SC_RECEIVED_REPLY_HEADER \<Rightarrow> recv_reply_rest c
      | _ \<Rightarrow> Inl Assertion_failed))"

text \<open>The cases of \<open>send_handler_done\<close> reserve the buffer, start to receive and change the state.\<close>

definition receive_next :: "(bytes option \<Rightarrow> nat \<Rightarrow> bytes option) \<Rightarrow> BSocksClient \<Rightarrow> bsize_t \<Rightarrow> int \<Rightarrow> socks_state \<Rightarrow>
    (BSocksClient \<times> socks_event option) result" where
  "receive_next realloc c s n st =
     (let (c, ok) = reserve_buffer realloc c s in
      if \<not> ok then report_error c BSOCKSCLIENT_EVENT_ERROR
      else andthen (start_receive c 0 n) (\<lambda>c. Inr (c\<lparr>sc_state := st\<rparr>, None)))"

definition socks_send_handler_done :: "(bytes option \<Rightarrow> nat \<Rightarrow> bytes option) \<Rightarrow> BSocksClient \<Rightarrow> (BSocksClient \<times> socks_event option) result" where
  "socks_send_handler_done realloc c =
     ASSERT (sc_buffer c \<noteq> None)
     (case sc_state c of
        SC_SENDING_HELLO \<Rightarrow> (let s = bsize_fromsize 2 in receive_next realloc c s (uint (bs_value s)) SC_SENT_HELLO)
      | SC_SENDING_REQUEST \<Rightarrow>
          (let s = bsize_add (bsize_fromsize 4) (bsize_max (bsize_fromsize 6) (bsize_fromsize 18))
           in receive_next realloc c s 4 SC_SENT_REQUEST)
      | SC_SENDING_PASSWORD \<Rightarrow> (let s = bsize_fromsize 2 in receive_next realloc c s (uint (bs_value s)) SC_SENT_PASSWORD)
      | _ \<Rightarrow> Inl Assertion_failed)"

definition BSocksClient_auth_none :: BSocksClient_auth_info where
  "BSocksClient_auth_none = \<lparr> auth_type = SOCKS_METHOD_NO_AUTHENTICATION_REQUIRED, auth_username = [], auth_username_len = 0,
     auth_password = [], auth_password_len = 0 \<rparr>"

definition BSocksClient_auth_password :: "bytes \<Rightarrow> nat \<Rightarrow> bytes \<Rightarrow> nat \<Rightarrow> BSocksClient_auth_info" where
  "BSocksClient_auth_password username username_len password password_len =
     \<lparr> auth_type = SOCKS_METHOD_USERNAME_PASSWORD, auth_username = username, auth_username_len = username_len,
       auth_password = password, auth_password_len = password_len \<rparr>"

text \<open>
  The last argument of \<open>BSocksClient_Init\<close> is the result of \<^verbatim>\<open>BConnector_Init\<close>; the fields of the control
  I/O are uninitialised until the connection is established, and have the values of \<open>c\<close>.
\<close>

definition BSocksClient_Init :: "BSocksClient \<Rightarrow> BAddr \<Rightarrow> BSocksClient_auth_info list \<Rightarrow> BAddr \<Rightarrow> bool \<Rightarrow> BSocksClient option result" where
  "BSocksClient_Init c server_addr auth_info dest_addr connector_ok =
     ASSERT (\<not> BAddr_IsInvalid server_addr)
     (ASSERT (BAddr_type dest_addr = 1 \<or> BAddr_type dest_addr = 2)
     (ASSERT (\<forall>a\<in>set auth_info. auth_type a = SOCKS_METHOD_NO_AUTHENTICATION_REQUIRED \<or> auth_type a = SOCKS_METHOD_USERNAME_PASSWORD)
     (if \<not> connector_ok then Inr None
      else Inr (Some (c\<lparr>sc_auth_info := auth_info, sc_dest_addr := dest_addr, sc_buffer := None, sc_state := SC_CONNECTING,
             sc_con := \<lparr> con_inited = False, con_send = False, con_recv = False \<rparr>\<rparr>)))))"

definition BSocksClient_Free :: "BSocksClient \<Rightarrow> BSocksClient result" where
  "BSocksClient_Free c =
     andthen (if sc_state c \<noteq> SC_CONNECTING
              then andthen (if sc_state c = SC_UP then free_up_io c else free_control_io c) (\<lambda>c.
                   andthen (con_Free (sc_con c)) (\<lambda>con. Inr (c\<lparr>sc_con := con\<rparr>)))
              else Inr c) (\<lambda>c. Inr (if sc_buffer c \<noteq> None then c\<lparr>sc_buffer := None\<rparr> else c))"

subsection \<open>Receiving from a stream\<close>

definition sri_inv :: "'p StreamRecvInterface \<Rightarrow> bool" where
  "sri_inv i \<longleftrightarrow> sri_handler_done i \<and>
     (sri_job_operation i \<longleftrightarrow> sri_state i = STATE_OPERATION_PENDING) \<and>
     (sri_job_done i \<longleftrightarrow> sri_state i = STATE_DONE_PENDING)"

lemma sri_Recv_ok:
  assumes "sri_inv i" "sri_state i = STATE_NONE" "0 < len"
  obtains j where "StreamRecvInterface_Receiver_Recv i (Some p) len = Inr j" "sri_inv j" "sri_state j = STATE_OPERATION_PENDING"
    "sri_job_operation_data j = Some p" "sri_job_operation_len j = len"
  using assms by (simp add: StreamRecvInterface_Receiver_Recv_def sri_inv_def)

lemma sri_job_operation_ok:
  assumes "sri_inv i" "sri_job_operation i"
  obtains j where "StreamRecvInterface_job_operation i = Inr (j, sri_job_operation_data i, sri_job_operation_len i)" "sri_inv j"
    "sri_state j = STATE_BUSY" "sri_job_operation_data j = sri_job_operation_data i" "sri_job_operation_len j = sri_job_operation_len i"
  using assms by (simp add: StreamRecvInterface_job_operation_def sri_inv_def)

lemma sri_Done_ok:
  assumes "sri_inv i" "sri_state i = STATE_BUSY" "0 < k" "k \<le> sri_job_operation_len i"
  obtains j where "StreamRecvInterface_Done i k = Inr j" "sri_inv j" "sri_state j = STATE_DONE_PENDING" "sri_job_done_len j = k"
    "sri_job_operation_data j = sri_job_operation_data i" "sri_job_operation_len j = sri_job_operation_len i"
  using assms by (simp add: StreamRecvInterface_Done_def sri_inv_def)

lemma sri_job_done_ok:
  assumes "sri_inv i" "sri_job_done i"
  obtains j where "StreamRecvInterface_job_done i = Inr (j, sri_job_done_len i)" "sri_inv j" "sri_state j = STATE_NONE"
  using assms by (simp add: StreamRecvInterface_job_done_def sri_inv_def)

subsection \<open>What a conversation looks like\<close>

definition hello_msg :: "BSocksClient_auth_info list \<Rightarrow> bytes" where
  "hello_msg as = [5, of_nat (length as)] @ map (\<lambda>a. of_int (auth_type a)) as"

definition password_msg :: "BSocksClient_auth_info \<Rightarrow> bytes" where
  "password_msg a = [1, of_nat (auth_username_len a)] @ take (auth_username_len a) (auth_username a) @
     [of_nat (auth_password_len a)] @ take (auth_password_len a) (auth_password a)"

fun request_msg :: "BAddr \<Rightarrow> bytes" where
  "request_msg (BAddr_IPv4 ip port) = [5, 1, 0, 1] @ u32_bytes ip @ u16_bytes port"
| "request_msg (BAddr_IPv6 ip port) = [5, 1, 0, 4] @ ip @ u16_bytes port"
| "request_msg _ = []"

text \<open>What the client has sent and received when it is authenticated.\<close>

definition auth_conv :: "BSocksClient_auth_info list \<Rightarrow> bytes \<Rightarrow> bytes \<Rightarrow> bool" where
  "auth_conv as out inp \<longleftrightarrow>
     (inp = [5, 0] \<and> find_auth as 0 \<noteq> None \<and> out = hello_msg as) \<or>
     (\<exists>a. inp = [5, 2, 1, 0] \<and> find_auth as 2 = Some a \<and> out = hello_msg as @ password_msg a)"

definition addr_len :: "u8 \<Rightarrow> nat option" where
  "addr_len atyp = (if atyp = 1 then Some 6 else if atyp = 4 then Some 18 else None)"

text \<open>A whole successful conversation.\<close>

definition socks_conv :: "BSocksClient_auth_info list \<Rightarrow> BAddr \<Rightarrow> bytes \<Rightarrow> bytes \<Rightarrow> bool" where
  "socks_conv as dest out inp \<longleftrightarrow>
     (\<exists>aout ain rsv atyp addr. auth_conv as aout ain \<and> out = aout @ request_msg dest \<and>
        inp = ain @ [5, 0, rsv, atyp] @ addr \<and> addr_len atyp = Some (length addr))"

subsection \<open>The invariant\<close>

definition socks_wf :: "BSocksClient \<Rightarrow> bool" where
  "socks_wf c \<longleftrightarrow> is_ip_addr (sc_dest_addr c) \<and>
     (\<forall>a\<in>set (sc_auth_info c). (auth_type a = 0 \<or> auth_type a = 2) \<and>
        auth_username_len a \<le> length (auth_username a) \<and> auth_password_len a \<le> length (auth_password a))"

definition con_all :: "bool \<Rightarrow> BSocksClient \<Rightarrow> bool" where
  "con_all b c \<longleftrightarrow> sc_con c = \<lparr> con_inited = b, con_send = b, con_recv = b \<rparr>"

text \<open>Nothing is being sent or received, as it is when a handler is called.\<close>

definition socks_quiet :: "BSocksClient \<Rightarrow> bool" where
  "socks_quiet c \<longleftrightarrow> pss_inv (sc_sender c) [] [] \<and> ppi_state (pss_input (sc_sender c)) = STATE_NONE \<and>
     ppi_mtu (pss_input (sc_sender c)) = INT_MAX \<and> sri_inv (sc_recv_if c) \<and> sri_state (sc_recv_if c) = STATE_NONE"

definition socks_sending :: "BSocksClient \<Rightarrow> bytes \<Rightarrow> bool" where
  "socks_sending c rest \<longleftrightarrow> (\<exists>b. sc_buffer c = Some b \<and> pss_inv (sc_sender c) b rest \<and>
     ppi_state (pss_input (sc_sender c)) \<noteq> STATE_NONE \<and> ppi_mtu (pss_input (sc_sender c)) = INT_MAX \<and>
     sri_inv (sc_recv_if c) \<and> sri_state (sc_recv_if c) = STATE_NONE)"

text \<open>\<open>part\<close> is what has been received of the \<open>n\<close> bytes that go to position \<open>off\<close> of the buffer \<open>b\<close>.\<close>

definition socks_receiving :: "BSocksClient \<Rightarrow> bytes \<Rightarrow> nat \<Rightarrow> nat \<Rightarrow> bytes \<Rightarrow> bool" where
  "socks_receiving c b off n part \<longleftrightarrow> sc_buffer c = Some b \<and> off + n \<le> length b \<and>
     pss_inv (sc_sender c) [] [] \<and> ppi_state (pss_input (sc_sender c)) = STATE_NONE \<and> ppi_mtu (pss_input (sc_sender c)) = INT_MAX \<and>
     sri_inv (sc_recv_if c) \<and> sri_state (sc_recv_if c) \<noteq> STATE_NONE \<and>
     sc_recv_dest c = int off \<and> sc_recv_total c = int n \<and> 0 \<le> sc_recv_len c \<and> sc_recv_len c < int n \<and>
     sri_job_operation_data (sc_recv_if c) = Some (int off + sc_recv_len c) \<and>
     sri_job_operation_len (sc_recv_if c) = int n - sc_recv_len c \<and>
     (let k = (if sri_state (sc_recv_if c) = STATE_DONE_PENDING then sri_job_done_len (sc_recv_if c) else 0) in
      (sri_state (sc_recv_if c) = STATE_DONE_PENDING \<longrightarrow> 0 < k \<and> k \<le> int n - sc_recv_len c) \<and>
      part = take (nat (sc_recv_len c + k)) (drop off b))"

definition socks_inv :: "BSocksClient \<Rightarrow> bytes \<Rightarrow> bytes \<Rightarrow> bool" where
  "socks_inv c out inp \<longleftrightarrow> socks_wf c \<and> con_all (sc_state c \<noteq> SC_CONNECTING) c \<and>
     (let as = sc_auth_info c; dest = sc_dest_addr c in
      case sc_state c of
        SC_CONNECTING \<Rightarrow> sc_buffer c = None \<and> out = [] \<and> inp = []
      | SC_SENDING_HELLO \<Rightarrow> \<exists>rest. socks_sending c rest \<and> out @ rest = hello_msg as \<and> inp = []
      | SC_SENT_HELLO \<Rightarrow> \<exists>b. socks_receiving c b 0 2 inp \<and> out = hello_msg as
      | SC_SENDING_PASSWORD \<Rightarrow> \<exists>rest a. socks_sending c rest \<and> find_auth as 2 = Some a \<and>
          out @ rest = hello_msg as @ password_msg a \<and> inp = [5, 2]
      | SC_SENT_PASSWORD \<Rightarrow> \<exists>b part a. socks_receiving c b 0 2 part \<and> find_auth as 2 = Some a \<and>
          out = hello_msg as @ password_msg a \<and> inp = [5, 2] @ part
      | SC_SENDING_REQUEST \<Rightarrow> \<exists>rest aout. socks_sending c rest \<and> auth_conv as aout inp \<and> out @ rest = aout @ request_msg dest
      | SC_SENT_REQUEST \<Rightarrow> \<exists>b part aout ain. socks_receiving c b 0 4 part \<and> length b = 22 \<and> auth_conv as aout ain \<and>
          out = aout @ request_msg dest \<and> inp = ain @ part
      | SC_RECEIVED_REPLY_HEADER \<Rightarrow> \<exists>b part aout ain rsv atyp n. addr_len atyp = Some n \<and> socks_receiving c b 4 n part \<and>
          auth_conv as aout ain \<and> out = aout @ request_msg dest \<and> inp = ain @ [5, 0, rsv, atyp] @ part
      | SC_UP \<Rightarrow> False)"

text \<open>What a handler leaves: the invariant, or an object that can be freed, or an established stream.\<close>

definition socks_outcome :: "BSocksClient \<times> socks_event option \<Rightarrow> bytes \<Rightarrow> bytes \<Rightarrow> bool" where
  "socks_outcome r out inp \<longleftrightarrow>
     (case r of (c, None) \<Rightarrow> socks_inv c out inp
      | (c, Some BSOCKSCLIENT_EVENT_UP) \<Rightarrow>
          sc_state c = SC_UP \<and> con_all True c \<and> sc_buffer c = None \<and> socks_conv (sc_auth_info c) (sc_dest_addr c) out inp
      | (c, Some _) \<Rightarrow> con_all (sc_state c \<noteq> SC_CONNECTING) c)"

definition realloc_ok :: "(bytes option \<Rightarrow> nat \<Rightarrow> bytes option) \<Rightarrow> bool" where
  "realloc_ok realloc \<longleftrightarrow> (\<forall>m n b. realloc m n = Some b \<longrightarrow> length b = n)"

lemma pss_inv_idle:
  "ppi_state (pss_input s) = STATE_NONE \<Longrightarrow> pss_inv s mem rest \<longleftrightarrow> pss_inv s [] [] \<and> rest = []"
  by (auto simp: pss_inv_def)

text \<open>
  \<open>same_conf c c'\<close>: the two clients differ at most in their buffer, sender, receive fields and state.
\<close>

definition same_conf :: "BSocksClient \<Rightarrow> BSocksClient \<Rightarrow> bool" where
  "same_conf c c' \<longleftrightarrow> sc_auth_info c' = sc_auth_info c \<and> sc_dest_addr c' = sc_dest_addr c \<and> sc_con c' = sc_con c"

lemma socks_state_simps [simp]:
  "socks_receiving (c\<lparr>sc_state := st\<rparr>) b off n part = socks_receiving c b off n part"
  "socks_sending (c\<lparr>sc_state := st\<rparr>) rest = socks_sending c rest"
  "socks_quiet (c\<lparr>sc_state := st\<rparr>) = socks_quiet c" "socks_quiet (c\<lparr>sc_buffer := m\<rparr>) = socks_quiet c"
  "socks_quiet (c\<lparr>sc_con := con\<rparr>) = socks_quiet c" "socks_quiet (c\<lparr>sc_recv_len := l\<rparr>) = socks_quiet c"
  by (simp_all add: socks_receiving_def socks_sending_def socks_quiet_def)

lemma reserve_cases:
  assumes "realloc_ok realloc" "\<not> bs_is_overflow s" "bs_value s \<noteq> 0"
  shows "reserve_buffer realloc c s = (c, False) \<or>
    (\<exists>b. reserve_buffer realloc c s = (c\<lparr>sc_buffer := Some b\<rparr>, True) \<and> length b = unat (bs_value s))"
  using assms by (auto simp: reserve_buffer_def BRealloc_def realloc_ok_def split: option.splits)

lemma send_buffer_ok:
  assumes q: "socks_quiet c" and b: "sc_buffer c = Some b" "unat len \<le> length b" "uint len \<le> INT_MAX"
  obtains s where "send_buffer c len = Inr (c\<lparr>sc_sender := s\<rparr>)" "socks_sending (c\<lparr>sc_sender := s\<rparr>) (take (unat len) b)"
proof -
  have n: "nat (uint len) = unat len" by simp
  have inv: "pss_inv (sc_sender c) [] []" "ppi_state (pss_input (sc_sender c)) = STATE_NONE"
    using q by (simp_all add: socks_quiet_def)
  obtain s where s: "pss_user_send (sc_sender c) 0 (uint len) = Inr s" "pss_inv s b (take (unat len) b)"
    "ppi_state (pss_input s) = STATE_OPERATION_PENDING" "ppi_mtu (pss_input s) = INT_MAX"
    using pss_user_send_inv [OF inv, of 0 "uint len" b] b q by (auto simp: socks_quiet_def)
  have "send_buffer c len = Inr (c\<lparr>sc_sender := s\<rparr>)"
    using s(1) b(1) by (auto simp: send_buffer_def pss_user_send_def result_simps)
  moreover have "socks_sending (c\<lparr>sc_sender := s\<rparr>) (take (unat len) b)"
    using s q b(1) by (simp add: socks_sending_def socks_quiet_def)
  ultimately show thesis by (rule that)
qed

lemma start_receive_ok:
  assumes q: "socks_quiet c" and b: "sc_buffer c = Some b" "off + n \<le> length b" "0 < n"
  obtains c' where "start_receive c (int off) (int n) = Inr c'" "socks_receiving c' b off n []" "same_conf c c'"
    "sc_state c' = sc_state c"
proof -
  obtain j where j: "StreamRecvInterface_Receiver_Recv (sc_recv_if c) (Some (int off)) (int n) = Inr j" "sri_inv j"
    "sri_state j = STATE_OPERATION_PENDING" "sri_job_operation_data j = Some (int off)" "sri_job_operation_len j = int n"
    using sri_Recv_ok [of "sc_recv_if c" "int n" "int off"] q b(3) by (auto simp: socks_quiet_def)
  let ?c = "c\<lparr>sc_recv_dest := int off, sc_recv_len := 0, sc_recv_total := int n, sc_recv_if := j\<rparr>"
  have "start_receive c (int off) (int n) = Inr ?c"
    using j(1) b(3) by (simp add: start_receive_def do_receive_def)
  moreover have "socks_receiving ?c b off n []"
    using j b q by (simp add: socks_receiving_def socks_quiet_def Let_def)
  ultimately show thesis by (rule that) (simp_all add: same_conf_def)
qed

lemma receive_next_ok:
  assumes re: "realloc_ok realloc" and q: "socks_quiet c" and s: "\<not> bs_is_overflow s" "0 < n" "n \<le> unat (bs_value s)"
  obtains "receive_next realloc c s (int n) st = Inr (c, Some BSOCKSCLIENT_EVENT_ERROR)"
  | c' b where "receive_next realloc c s (int n) st = Inr (c', None)" "sc_state c' = st" "same_conf c c'"
      "socks_receiving c' b 0 n []" "length b = unat (bs_value s)"
proof -
  have "bs_value s \<noteq> 0" using s by auto
  from reserve_cases [OF re s(1) this, of c] consider "reserve_buffer realloc c s = (c, False)"
    | b where "reserve_buffer realloc c s = (c\<lparr>sc_buffer := Some b\<rparr>, True)" "length b = unat (bs_value s)" by blast
  then show thesis
  proof cases
    case 1
    then show ?thesis using that(1) by (simp add: receive_next_def report_error_def)
  next
    case (2 b)
    obtain c' where c': "start_receive (c\<lparr>sc_buffer := Some b\<rparr>) (int 0) (int n) = Inr c'" "socks_receiving c' b 0 n []"
      "same_conf (c\<lparr>sc_buffer := Some b\<rparr>) c'"
      using start_receive_ok [of "c\<lparr>sc_buffer := Some b\<rparr>" b 0 n] s 2(2) q by auto
    then show ?thesis using 2 c' by (intro that(2) [of "c'\<lparr>sc_state := st\<rparr>" b]) (simp_all add: receive_next_def same_conf_def)
  qed
qed

lemma socks_wf_same: "same_conf c c' \<Longrightarrow> socks_wf c' \<longleftrightarrow> socks_wf c"
  by (simp add: same_conf_def socks_wf_def)

lemma con_all_same: "same_conf c c' \<Longrightarrow> con_all b c' \<longleftrightarrow> con_all b c"
  by (simp add: same_conf_def con_all_def)

lemma mem_write_all: "length bs = length b \<Longrightarrow> mem_write b 0 bs = Inr bs"
  by (simp add: mem_write_def)

text \<open>Writing the messages fills the buffer with exactly the message.\<close>

lemma buffer_write_ok:
  "sc_buffer c = Some b \<Longrightarrow> off + length bs \<le> length b \<Longrightarrow>
     buffer_write c off bs = Inr (c\<lparr>sc_buffer := Some (take off b @ bs @ drop (off + length bs) b)\<rparr>)"
  by (simp add: buffer_write_def mem_write_def)

lemma write_hello_methods_ok:
  assumes "sc_buffer c = Some b" "2 + i + length as \<le> length b"
  shows "write_hello_methods c i as =
    Inr (c\<lparr>sc_buffer := Some (take (2 + i) b @ map (\<lambda>a. of_int (auth_type a)) as @ drop (2 + i + length as) b)\<rparr>)"
  using assms
proof (induction as arbitrary: c b i)
  case Nil
  have "c\<lparr>sc_buffer := Some b\<rparr> = c" using Nil by (cases c) simp
  then show ?case using append_take_drop_id [of "2 + i" b] by simp
next
  case (Cons a as)
  let ?b = "take (2 + i) b @ [of_int (auth_type a)] @ drop (2 + i + 1) b"
  have "buffer_write c (2 + i) [hton8 (of_int (auth_type a))] = Inr (c\<lparr>sc_buffer := Some ?b\<rparr>)"
    using Cons.prems buffer_write_ok [of c b "2 + i" "[of_int (auth_type a)]"] by (simp add: hton8_def)
  moreover have "write_hello_methods (c\<lparr>sc_buffer := Some ?b\<rparr>) (Suc i) as =
      Inr ((c\<lparr>sc_buffer := Some ?b\<rparr>)\<lparr>sc_buffer := Some (take (2 + Suc i) ?b @ map (\<lambda>a. of_int (auth_type a)) as @
        drop (2 + Suc i + length as) ?b)\<rparr>)"
    using Cons.prems by (intro Cons.IH) simp_all
  ultimately show ?case using Cons.prems by (simp add: add.commute)
qed

lemma hello_written:
  assumes "sc_buffer c = Some b" "length b = 2 + length (sc_auth_info c)"
  obtains c1 where "buffer_write c 0 (socks_client_hello_header (hton8 SOCKS_VERSION) (hton8 (of_nat (length (sc_auth_info c))))) = Inr c1"
    "sc_auth_info c1 = sc_auth_info c"
    "write_hello_methods c1 0 (sc_auth_info c) = Inr (c\<lparr>sc_buffer := Some (hello_msg (sc_auth_info c))\<rparr>)"
proof -
  let ?b = "[5, of_nat (length (sc_auth_info c))] @ drop 2 b"
  have "buffer_write c 0 (socks_client_hello_header (hton8 SOCKS_VERSION) (hton8 (of_nat (length (sc_auth_info c))))) =
      Inr (c\<lparr>sc_buffer := Some ?b\<rparr>)"
    using assms by (simp add: buffer_write_ok socks_client_hello_header_def SOCKS_VERSION_def hton8_def numeral_2_eq_2)
  moreover have "write_hello_methods (c\<lparr>sc_buffer := Some ?b\<rparr>) 0 (sc_auth_info c) = Inr (c\<lparr>sc_buffer := Some (hello_msg (sc_auth_info c))\<rparr>)"
    using assms by (subst write_hello_methods_ok [where b = ?b]) (simp_all add: hello_msg_def)
  ultimately show thesis by (intro that) simp_all
qed

lemma init_control_io_ok:
  assumes "sc_con c = \<lparr> con_inited = True, con_send = False, con_recv = False \<rparr>"
  obtains c' where "init_control_io c = Inr c'" "socks_quiet c'" "con_all True c'" "sc_auth_info c' = sc_auth_info c"
    "sc_dest_addr c' = sc_dest_addr c" "sc_buffer c' = sc_buffer c" "sc_state c' = sc_state c"
proof -
  define s0 :: PacketStreamSender where "s0 = projr (PacketStreamSender_Init StreamPassInterface_Init INT_MAX)"
  define i where "i = projr (PacketPassInterface_Sender_Init (pss_input s0))"
  have s0: "PacketStreamSender_Init StreamPassInterface_Init INT_MAX = Inr s0" "PacketPassInterface_Sender_Init (pss_input s0) = Inr i"
    by (simp_all add: s0_def i_def PacketStreamSender_Init_def PacketPassInterface_Init_def StreamPassInterface_Sender_Init_def
        StreamPassInterface_Init_def PacketPassInterface_Sender_Init_def INT_MAX_def)
  have "pss_inv (s0\<lparr>pss_input := i\<rparr>) [] [] \<and> ppi_state i = STATE_NONE \<and> ppi_mtu i = INT_MAX"
    by (rule PacketStreamSender_Init_inv [OF s0(1) _ _ _ s0(2)]) (simp_all add: StreamPassInterface_Init_def)
  then show thesis using assms s0
    by (intro that [of "c\<lparr>sc_con := \<lparr> con_inited = True, con_send = True, con_recv = True \<rparr>,
          sc_recv_if := StreamRecvInterface_Init\<lparr>sri_handler_done := True\<rparr>, sc_sender := s0\<lparr>pss_input := i\<rparr>\<rparr>"])
       (simp_all add: init_control_io_def con_RecvAsync_Init_def con_SendAsync_Init_def StreamRecvInterface_Receiver_Init_def
         StreamRecvInterface_Init_def PacketStreamSender_GetInput_def socks_quiet_def con_all_def sri_inv_def)
qed

lemma free_control_io_ok:
  "con_all True c \<Longrightarrow> free_control_io c = Inr (c\<lparr>sc_con := \<lparr> con_inited = True, con_send = False, con_recv = False \<rparr>\<rparr>)"
  by (simp add: free_control_io_def con_all_def con_SendAsync_Free_def con_RecvAsync_Free_def)

lemma unat_SIZE_MAX: "unat SIZE_MAX = 4294967295"
  by (simp add: SIZE_MAX_def unsigned_minus_1_eq_mask mask_eq_exp_minus_1)

lemma hello_size:
  assumes "n \<le> 255"
  shows "\<not> bs_is_overflow (bsize_add (bsize_fromsize 2) (bsize_mul (bsize_fromsize (of_nat n)) (bsize_fromsize 1)))" (is "\<not> ?o")
    and "unat (bs_value (bsize_add (bsize_fromsize 2) (bsize_mul (bsize_fromsize (of_nat n)) (bsize_fromsize 1)))) = 2 + n" (is "?v")
proof -
  have u: "unat (of_nat n :: size_t) = n" using assms by (simp add: unat_of_nat_u32)
  then have le: "(of_nat n :: size_t) \<le> 255" using assms by (simp add: word_le_nat_alt)
  have "(1 :: size_t) \<le> SIZE_MAX div of_nat n" if "n \<noteq> 0"
    using u assms that by (simp add: word_le_nat_alt unat_div unat_SIZE_MAX Suc_le_eq div_greater_zero_iff)
  moreover have "(of_nat n :: size_t) \<le> SIZE_MAX - 2"
    using le by (simp add: SIZE_MAX_def word_le_nat_alt)
  ultimately show "\<not> ?o" using u by (cases "n = 0") (auto simp: bsize_add_def bsize_mul_def bsize_fromsize_def not_less)
  show ?v using u assms by (simp add: bsize_add_def bsize_mul_def bsize_fromsize_def unat_word_ariths)
qed

lemma connector_fail1_ok:
  assumes "con_all True c" "sc_state c = SC_CONNECTING"
  shows "\<exists>r. connector_fail1 c = Inr r \<and> socks_outcome r out inp"
  using assms by (simp add: connector_fail1_def free_control_io_ok con_Free_def report_error_def socks_outcome_def con_all_def)

lemma connector_send_hello_ok:
  assumes re: "realloc_ok realloc" and c: "socks_quiet c" "con_all True c" "socks_wf c" "sc_state c = SC_CONNECTING"
  shows "\<exists>r. connector_send_hello realloc c = Inr r \<and> socks_outcome r [] []"
proof -
  let ?as = "sc_auth_info c" and ?n = "length (sc_auth_info c)"
  note fail = connector_fail1_ok [OF c(2,4)]
  define s where "s = bsize_add (bsize_fromsize 2) (bsize_mul (bsize_fromsize (of_nat ?n)) (bsize_fromsize 1))"
  show ?thesis
  proof (cases "?n = 0 \<or> ?n > 255")
    case True
    then have "connector_send_hello realloc c = connector_fail1 c" unfolding connector_send_hello_def Let_def by (simp only: if_True)
    then show ?thesis using fail by simp
  next
    case n: False
    have sz: "\<not> bs_is_overflow s" "unat (bs_value s) = 2 + ?n" using hello_size [of ?n] n by (auto simp: s_def)
    then have "bs_value s \<noteq> 0" by auto
    from reserve_cases [OF re sz(1) this, of c] sz(2) consider "reserve_buffer realloc c s = (c, False)"
      | b where "reserve_buffer realloc c s = (c\<lparr>sc_buffer := Some b\<rparr>, True)" "length b = 2 + ?n" by auto
    then show ?thesis
    proof cases
      case 1
      then have "connector_send_hello realloc c = connector_fail1 c"
        using n unfolding connector_send_hello_def Let_def s_def [symmetric] by simp
      then show ?thesis using fail by simp
    next
      case (2 b)
      let ?c = "c\<lparr>sc_buffer := Some (hello_msg ?as)\<rparr>"
      have len: "length (hello_msg ?as) = 2 + ?n" by (simp add: hello_msg_def)
      obtain c1 where w: "buffer_write (c\<lparr>sc_buffer := Some b\<rparr>) 0 (socks_client_hello_header (hton8 SOCKS_VERSION) (hton8 (of_nat ?n))) = Inr c1"
        "sc_auth_info c1 = ?as" "write_hello_methods c1 0 ?as = Inr ?c"
        using hello_written [of "c\<lparr>sc_buffer := Some b\<rparr>" b] 2(2) by auto
      have iv: "uint (bs_value s) = int (2 + ?n)" using sz(2) by (metis uint_nat)
      obtain sd where sd: "send_buffer ?c (bs_value s) = Inr (?c\<lparr>sc_sender := sd\<rparr>)"
        "socks_sending (?c\<lparr>sc_sender := sd\<rparr>) (take (unat (bs_value s)) (hello_msg ?as))"
        using send_buffer_ok [of ?c "hello_msg ?as" "bs_value s"] c(1) sz(2) iv len n by (auto simp: INT_MAX_def)
      let ?d = "?c\<lparr>sc_sender := sd, sc_state := SC_SENDING_HELLO\<rparr>"
      have "connector_send_hello realloc c = Inr (?d, None)"
        using n 2(1) w sd(1) unfolding connector_send_hello_def Let_def s_def [symmetric] by simp
      moreover have "socks_inv ?d [] []"
        using sd(2) sz(2) len c by (simp add: socks_inv_def socks_wf_def con_all_def)
      ultimately show ?thesis by (auto simp: socks_outcome_def)
    qed
  qed
qed

lemma connector_handler_ok:
  assumes re: "realloc_ok realloc" and inv: "socks_inv c out inp" and st: "sc_state c = SC_CONNECTING"
  shows "\<exists>r. connector_handler realloc c is_error con_ok = Inr r \<and> socks_outcome r out inp"
proof (cases "is_error \<or> \<not> con_ok")
  case True
  then show ?thesis using inv st by (auto simp: connector_handler_def report_error_def socks_outcome_def socks_inv_def)
next
  case False
  have c: "con_all False c" "socks_wf c" "out = []" "inp = []" using inv st by (auto simp: socks_inv_def)
  have "sc_con (c\<lparr>sc_con := (sc_con c)\<lparr>con_inited := True\<rparr>\<rparr>) = \<lparr> con_inited = True, con_send = False, con_recv = False \<rparr>"
    using c(1) by (simp add: con_all_def)
  then obtain c1 where c1: "init_control_io (c\<lparr>sc_con := (sc_con c)\<lparr>con_inited := True\<rparr>\<rparr>) = Inr c1" "socks_quiet c1" "con_all True c1"
    "sc_auth_info c1 = sc_auth_info c" "sc_dest_addr c1 = sc_dest_addr c" "sc_state c1 = SC_CONNECTING"
    by (rule init_control_io_ok) (use st in auto)
  have "socks_wf c1" using c(2) c1(4,5) by (simp add: socks_wf_def)
  then obtain r where "connector_send_hello realloc c1 = Inr r" "socks_outcome r [] []"
    using connector_send_hello_ok [OF re c1(2,3) _ c1(6)] by blast
  then show ?thesis using False st c1(1) c by (simp add: connector_handler_def)
qed

lemma request_written:
  assumes "sc_buffer c = Some b" "length b = length (request_msg (sc_dest_addr c))" "is_ip_addr (sc_dest_addr c)"
  shows "\<exists>c1 atyp. (case sc_dest_addr c of
      BAddr_IPv4 ip port \<Rightarrow> andthen (buffer_write c 4 (socks_addr_ipv4 ip port)) (\<lambda>c. Inr (c, hton8 SOCKS_ATYP_IPV4))
    | BAddr_IPv6 ip port \<Rightarrow> andthen (buffer_write c 4 (socks_addr_ipv6 ip port)) (\<lambda>c. Inr (c, hton8 SOCKS_ATYP_IPV6))
    | _ \<Rightarrow> Inl Assertion_failed) = Inr (c1, atyp) \<and>
    buffer_write c1 0 (socks_request_header (hton8 SOCKS_VERSION) (hton8 SOCKS_CMD_CONNECT) (hton8 0) atyp) =
      Inr (c\<lparr>sc_buffer := Some (request_msg (sc_dest_addr c))\<rparr>)"
  using assms
  by (cases "sc_dest_addr c")
     (auto simp: is_ip_addr_def buffer_write_ok socks_addr_ipv4_def socks_addr_ipv6_def socks_request_header_def hton8_def
       SOCKS_VERSION_def SOCKS_CMD_CONNECT_def SOCKS_ATYP_IPV4_def SOCKS_ATYP_IPV6_def)

lemma request_size:
  assumes "is_ip_addr dest"
  defines "s \<equiv> (case dest of BAddr_IPv4 _ _ \<Rightarrow> bsize_add (bsize_fromsize 4) (bsize_fromsize 6)
     | BAddr_IPv6 _ _ \<Rightarrow> bsize_add (bsize_fromsize 4) (bsize_fromsize 18) | _ \<Rightarrow> bsize_fromsize 4)"
  shows "\<not> bs_is_overflow s" "unat (bs_value s) = length (request_msg dest)" "length (request_msg dest) \<le> 22"
  using assms
  by (cases dest; simp add: is_ip_addr_def bsize_add_def bsize_fromsize_def SIZE_MAX_def word_less_nat_alt)+

text \<open>After authentication the request is sent, or memory runs out.\<close>

lemma auth_finished_ok:
  assumes re: "realloc_ok realloc" and c: "socks_quiet c" "con_all True c" "socks_wf c" "sc_state c \<noteq> SC_CONNECTING"
    and conv: "auth_conv (sc_auth_info c) out inp"
  shows "\<exists>r. auth_finished realloc c = Inr r \<and> socks_outcome r out inp"
proof -
  let ?m = "request_msg (sc_dest_addr c)"
  define s where "s = (case sc_dest_addr c of BAddr_IPv4 _ _ \<Rightarrow> bsize_add (bsize_fromsize 4) (bsize_fromsize 6)
     | BAddr_IPv6 _ _ \<Rightarrow> bsize_add (bsize_fromsize 4) (bsize_fromsize 18) | _ \<Rightarrow> bsize_fromsize 4)"
  have ip: "is_ip_addr (sc_dest_addr c)" using c(3) by (simp add: socks_wf_def)
  note sz = request_size [OF ip, folded s_def]
  have "length ?m > 0" using ip by (cases "sc_dest_addr c") (auto simp: is_ip_addr_def)
  then have "bs_value s \<noteq> 0" using sz(2) by auto
  from reserve_cases [OF re sz(1) this, of c] sz(2) consider "reserve_buffer realloc c s = (c, False)"
    | b where "reserve_buffer realloc c s = (c\<lparr>sc_buffer := Some b\<rparr>, True)" "length b = length ?m" by auto
  then show ?thesis
  proof cases
    case 1
    then have "auth_finished realloc c = Inr (c, Some BSOCKSCLIENT_EVENT_ERROR)"
      unfolding auth_finished_def Let_def s_def [symmetric] by (simp add: report_error_def)
    then show ?thesis using c by (simp add: socks_outcome_def)
  next
    case (2 b)
    let ?b = "c\<lparr>sc_buffer := Some b\<rparr>" and ?c = "c\<lparr>sc_buffer := Some ?m\<rparr>"
    obtain c1 atyp where w: "(case sc_dest_addr c of
        BAddr_IPv4 ip port \<Rightarrow> andthen (buffer_write ?b 4 (socks_addr_ipv4 ip port)) (\<lambda>c. Inr (c, hton8 SOCKS_ATYP_IPV4))
      | BAddr_IPv6 ip port \<Rightarrow> andthen (buffer_write ?b 4 (socks_addr_ipv6 ip port)) (\<lambda>c. Inr (c, hton8 SOCKS_ATYP_IPV6))
      | _ \<Rightarrow> Inl Assertion_failed) = Inr (c1, atyp)"
      "buffer_write c1 0 (socks_request_header (hton8 SOCKS_VERSION) (hton8 SOCKS_CMD_CONNECT) (hton8 0) atyp) = Inr ?c"
      using request_written [of ?b b] 2(2) ip by auto
    have iv: "uint (bs_value s) = int (length ?m)" using sz(2) by (metis uint_nat)
    obtain sd where sd: "send_buffer ?c (bs_value s) = Inr (?c\<lparr>sc_sender := sd\<rparr>)"
      "socks_sending (?c\<lparr>sc_sender := sd\<rparr>) (take (unat (bs_value s)) ?m)"
      using send_buffer_ok [of ?c ?m "bs_value s"] c(1) sz(2,3) iv by (auto simp: INT_MAX_def)
    let ?d = "?c\<lparr>sc_sender := sd, sc_state := SC_SENDING_REQUEST\<rparr>"
    have "auth_finished realloc c = Inr (?d, None)"
      using 2(1) w sd(1) unfolding auth_finished_def Let_def s_def [symmetric] by simp
    moreover have "socks_inv ?d out inp"
      using sd(2) sz(2) c conv by (auto simp: socks_inv_def socks_wf_def con_all_def)
    ultimately show ?thesis by (auto simp: socks_outcome_def)
  qed
qed

lemma find_auth_Some: "find_auth as t = Some a \<Longrightarrow> a \<in> set as \<and> auth_type a = t"
  by (induction as) (auto split: if_splits)

lemma password_written:
  assumes b: "sc_buffer c = Some b" "length b = 3 + n + length pass" and n: "n = length user"
  shows "andthen (buffer_write c 0 [1]) (\<lambda>c.
      andthen (buffer_write c 1 [ul]) (\<lambda>c.
      andthen (buffer_write c 2 user) (\<lambda>c.
      andthen (buffer_write c (2 + n) [pl]) (\<lambda>c.
      andthen (buffer_write c (3 + n) pass) k)))) =
    k (c\<lparr>sc_buffer := Some ([1, ul] @ user @ [pl] @ pass)\<rparr>)"
  using b unfolding n by (simp add: buffer_write_ok drop_Cons' numeral_3_eq_3)

lemma send_password_ok:
  assumes re: "realloc_ok realloc" and c: "socks_quiet c" "con_all True c" "socks_wf c" "sc_state c \<noteq> SC_CONNECTING"
    and ai: "find_auth (sc_auth_info c) 2 = Some ai"
  shows "\<exists>r. send_password realloc c ai = Inr r \<and> socks_outcome r (hello_msg (sc_auth_info c)) [5, 2]"
proof -
  let ?ul = "auth_username_len ai" and ?pl = "auth_password_len ai"
  let ?m = "password_msg ai"
  define s where "s = bsize_fromsize (1 + 1 + of_nat ?ul + 1 + of_nat ?pl)"
  have le: "?ul \<le> length (auth_username ai)" "?pl \<le> length (auth_password ai)"
    using find_auth_Some [OF ai] c(3) by (auto simp: socks_wf_def)
  then have len: "length ?m = 3 + ?ul + ?pl" by (simp add: password_msg_def)
  have err: "\<exists>r. report_error c BSOCKSCLIENT_EVENT_ERROR = Inr r \<and> socks_outcome r (hello_msg (sc_auth_info c)) [5, 2]"
    using c by (simp add: report_error_def socks_outcome_def)
  show ?thesis
  proof (cases "?ul = 0 \<or> ?ul > 255 \<or> ?pl = 0 \<or> ?pl > 255")
    case True
    then have "send_password realloc c ai = report_error c BSOCKSCLIENT_EVENT_ERROR"
      unfolding send_password_def Let_def by (simp only: if_True)
    then show ?thesis using err by simp
  next
    case n: False
    have sz: "\<not> bs_is_overflow s" "unat (bs_value s) = 3 + ?ul + ?pl"
      using n by (simp_all add: s_def bsize_fromsize_def unat_word_ariths unat_of_nat_u32)
    then have "bs_value s \<noteq> 0" by auto
    from reserve_cases [OF re sz(1) this, of c] sz(2) consider "reserve_buffer realloc c s = (c, False)"
      | b where "reserve_buffer realloc c s = (c\<lparr>sc_buffer := Some b\<rparr>, True)" "length b = 3 + ?ul + ?pl" by auto
    then show ?thesis
    proof cases
      case 1
      then have "send_password realloc c ai = report_error c BSOCKSCLIENT_EVENT_ERROR"
        using n unfolding send_password_def Let_def s_def [symmetric] by simp
      then show ?thesis using err by simp
    next
      case (2 b)
      let ?c = "c\<lparr>sc_buffer := Some ?m\<rparr>"
      have iv: "uint (bs_value s) = int (length ?m)" using sz(2) len by (metis uint_nat)
      obtain sd where sd: "send_buffer ?c (bs_value s) = Inr (?c\<lparr>sc_sender := sd\<rparr>)"
        "socks_sending (?c\<lparr>sc_sender := sd\<rparr>) (take (unat (bs_value s)) ?m)"
        using send_buffer_ok [of ?c ?m "bs_value s"] c(1) sz(2) iv len n by (auto simp: INT_MAX_def)
      let ?d = "?c\<lparr>sc_sender := sd, sc_state := SC_SENDING_PASSWORD\<rparr>"
      have rd: "mem_read (auth_username ai) 0 ?ul = Inr (take ?ul (auth_username ai))"
        "mem_read (auth_password ai) 0 ?pl = Inr (take ?pl (auth_password ai))"
        using le by (simp_all add: mem_read_def)
      have "send_password realloc c ai =
          andthen (buffer_write (c\<lparr>sc_buffer := Some b\<rparr>) 0 [1]) (\<lambda>c.
          andthen (buffer_write c 1 [of_nat ?ul]) (\<lambda>c.
          andthen (buffer_write c 2 (take ?ul (auth_username ai))) (\<lambda>c.
          andthen (buffer_write c (2 + ?ul) [of_nat ?pl]) (\<lambda>c.
          andthen (buffer_write c (3 + ?ul) (take ?pl (auth_password ai))) (\<lambda>c.
          andthen (send_buffer c (bs_value s)) (\<lambda>c. Inr (c\<lparr>sc_state := SC_SENDING_PASSWORD\<rparr>, None)))))))"
        using n 2(1) unfolding send_password_def Let_def s_def [symmetric] by (simp add: rd)
      also have "\<dots> = andthen (send_buffer ?c (bs_value s)) (\<lambda>c. Inr (c\<lparr>sc_state := SC_SENDING_PASSWORD\<rparr>, None))"
        by (subst password_written [where b = b]) (use 2(2) le in \<open>simp_all add: password_msg_def\<close>)
      finally have "send_password realloc c ai = Inr (?d, None)" using sd(1) by simp
      moreover have "socks_inv ?d (hello_msg (sc_auth_info c)) [5, 2]"
        using sd(2) sz(2) len c ai by (auto simp: socks_inv_def socks_wf_def con_all_def)
      ultimately show ?thesis by (auto simp: socks_outcome_def)
    qed
  qed
qed

text \<open>The handlers of the two interfaces.\<close>

lemma socks_send_handler_done_ok:
  assumes re: "realloc_ok realloc" and c: "socks_quiet c" "con_all True c" "socks_wf c" "sc_buffer c \<noteq> None"
    and st: "(sc_state c = SC_SENDING_HELLO \<and> out = hello_msg (sc_auth_info c) \<and> inp = []) \<or>
      (sc_state c = SC_SENDING_PASSWORD \<and> (\<exists>a. find_auth (sc_auth_info c) 2 = Some a \<and>
         out = hello_msg (sc_auth_info c) @ password_msg a \<and> inp = [5, 2])) \<or>
      (sc_state c = SC_SENDING_REQUEST \<and> (\<exists>aout. auth_conv (sc_auth_info c) aout inp \<and> out = aout @ request_msg (sc_dest_addr c)))"
  shows "\<exists>r. socks_send_handler_done realloc c = Inr r \<and> socks_outcome r out inp"
proof -
  have err: "socks_outcome (c, Some BSOCKSCLIENT_EVENT_ERROR) out inp" using c st by (auto simp: socks_outcome_def)
  have ok: "\<exists>r. receive_next realloc c s (int n) st' = Inr r \<and> socks_outcome r out inp"
    if "\<not> bs_is_overflow s" "0 < n" "n \<le> unat (bs_value s)"
      and fin: "\<And>c' b. sc_state c' = st' \<Longrightarrow> same_conf c c' \<Longrightarrow> socks_receiving c' b 0 n [] \<Longrightarrow> length b = unat (bs_value s) \<Longrightarrow>
        socks_inv c' out inp" for s n st'
    by (rule receive_next_ok [OF re c(1) that(1-3), of st']) (use err fin in \<open>auto simp: socks_outcome_def\<close>)
  have conf: "socks_wf c' \<and> con_all True c'" if "same_conf c c'" for c'
    using that c by (simp add: socks_wf_same con_all_same)
  from st consider "sc_state c = SC_SENDING_HELLO" "out = hello_msg (sc_auth_info c)" "inp = []"
    | a where "sc_state c = SC_SENDING_PASSWORD" "find_auth (sc_auth_info c) 2 = Some a"
        "out = hello_msg (sc_auth_info c) @ password_msg a" "inp = [5, 2]"
    | aout where "sc_state c = SC_SENDING_REQUEST" "auth_conv (sc_auth_info c) aout inp" "out = aout @ request_msg (sc_dest_addr c)"
    by blast
  then show ?thesis
  proof cases
    case 1
    have "\<exists>r. receive_next realloc c (bsize_fromsize 2) (int 2) SC_SENT_HELLO = Inr r \<and> socks_outcome r out inp"
      by (rule ok) (use 1 conf in \<open>auto simp: bsize_fromsize_def socks_inv_def same_conf_def\<close>)
    then show ?thesis using 1 c(4) by (simp add: socks_send_handler_done_def bsize_fromsize_def)
  next
    case 2
    have "\<exists>r. receive_next realloc c (bsize_fromsize 2) (int 2) SC_SENT_PASSWORD = Inr r \<and> socks_outcome r out inp"
      by (rule ok) (use 2 conf in \<open>auto simp: bsize_fromsize_def socks_inv_def same_conf_def\<close>)
    then show ?thesis using 2 c(4) by (simp add: socks_send_handler_done_def bsize_fromsize_def)
  next
    case 3
    let ?s = "bsize_add (bsize_fromsize 4) (bsize_max (bsize_fromsize 6) (bsize_fromsize 18))"
    have s: "\<not> bs_is_overflow ?s" "unat (bs_value ?s) = 22"
      by (simp_all add: bsize_add_def bsize_max_def bsize_fromsize_def SIZE_MAX_def word_less_nat_alt)
    have "\<exists>r. receive_next realloc c ?s (int 4) SC_SENT_REQUEST = Inr r \<and> socks_outcome r out inp"
      by (rule ok) (use 3 conf s in \<open>auto simp: socks_inv_def same_conf_def\<close>)
    then show ?thesis using 3 c(4) by (simp add: socks_send_handler_done_def Let_def)
  qed
qed

text \<open>
  The states in which the client sends and those in which it receives; each can be replaced by
  another that has the same message in progress.
\<close>

lemma socks_receivingD: "socks_receiving c b off n part \<Longrightarrow> ppi_state (pss_input (sc_sender c)) = STATE_NONE"
  by (simp add: socks_receiving_def)

lemma socks_sendingD: "socks_sending c rest \<Longrightarrow> sri_state (sc_recv_if c) = STATE_NONE"
  by (auto simp: socks_sending_def)

lemma same_confD:
  assumes "same_conf c c'" "socks_inv c out inp" "sc_state c' = sc_state c"
  shows "socks_wf c' \<and> con_all (sc_state c' \<noteq> SC_CONNECTING) c'" "sc_auth_info c' = sc_auth_info c" "sc_dest_addr c' = sc_dest_addr c"
proof -
  have "socks_wf c" "con_all (sc_state c \<noteq> SC_CONNECTING) c" using assms(2) unfolding socks_inv_def by blast+
  then show "socks_wf c' \<and> con_all (sc_state c' \<noteq> SC_CONNECTING) c'"
    unfolding assms(3) using socks_wf_same [OF assms(1)] con_all_same [OF assms(1)] by blast
qed (use assms(1) in \<open>simp_all add: same_conf_def\<close>)

text \<open>The invariant, state by state.\<close>

lemma socks_invI:
  assumes "socks_wf c" "con_all True c"
  shows "\<lbrakk> sc_state c = SC_SENDING_HELLO; socks_sending c rest; out @ rest = hello_msg (sc_auth_info c); inp = [] \<rbrakk> \<Longrightarrow> socks_inv c out inp"
    and "\<lbrakk> sc_state c = SC_SENDING_PASSWORD; socks_sending c rest; find_auth (sc_auth_info c) 2 = Some a;
        out @ rest = hello_msg (sc_auth_info c) @ password_msg a; inp = [5, 2] \<rbrakk> \<Longrightarrow> socks_inv c out inp"
    and "\<lbrakk> sc_state c = SC_SENDING_REQUEST; socks_sending c rest; auth_conv (sc_auth_info c) aout inp;
        out @ rest = aout @ request_msg (sc_dest_addr c) \<rbrakk> \<Longrightarrow> socks_inv c out inp"
    and "\<lbrakk> sc_state c = SC_SENT_HELLO; socks_receiving c b 0 2 inp; out = hello_msg (sc_auth_info c) \<rbrakk> \<Longrightarrow> socks_inv c out inp"
    and "\<lbrakk> sc_state c = SC_SENT_PASSWORD; socks_receiving c b 0 2 part; find_auth (sc_auth_info c) 2 = Some a;
        out = hello_msg (sc_auth_info c) @ password_msg a; inp = [5, 2] @ part \<rbrakk> \<Longrightarrow> socks_inv c out inp"
    and "\<lbrakk> sc_state c = SC_SENT_REQUEST; socks_receiving c b 0 4 part; length b = 22; auth_conv (sc_auth_info c) aout ain;
        out = aout @ request_msg (sc_dest_addr c); inp = ain @ part \<rbrakk> \<Longrightarrow> socks_inv c out inp"
    and "\<lbrakk> sc_state c = SC_RECEIVED_REPLY_HEADER; addr_len atyp = Some n; socks_receiving c b 4 n part; auth_conv (sc_auth_info c) aout ain;
        out = aout @ request_msg (sc_dest_addr c); inp = ain @ [5, 0, rsv, atyp] @ part \<rbrakk> \<Longrightarrow> socks_inv c out inp"
proof -
  let ?as = "sc_auth_info c" and ?dest = "sc_dest_addr c"
  show "socks_inv c out inp" if "sc_state c = SC_SENDING_HELLO" and r: "socks_sending c rest" "out @ rest = hello_msg ?as" "inp = []"
  proof -
    have "\<exists>rest. socks_sending c rest \<and> out @ rest = hello_msg ?as \<and> inp = []" using r by (intro exI conjI)
    then show ?thesis using assms that(1) by (simp add: socks_inv_def Let_def)
  qed
  show "socks_inv c out inp" if "sc_state c = SC_SENDING_PASSWORD" and r: "socks_sending c rest" "find_auth ?as 2 = Some a"
    "out @ rest = hello_msg ?as @ password_msg a" "inp = [5, 2]"
  proof -
    have "\<exists>rest a. socks_sending c rest \<and> find_auth ?as 2 = Some a \<and> out @ rest = hello_msg ?as @ password_msg a \<and> inp = [5, 2]"
      using r by (intro exI conjI)
    then show ?thesis using assms that(1) by (simp add: socks_inv_def Let_def)
  qed
  show "socks_inv c out inp" if "sc_state c = SC_SENDING_REQUEST" and r: "socks_sending c rest" "auth_conv ?as aout inp"
    "out @ rest = aout @ request_msg ?dest"
  proof -
    have "\<exists>rest aout. socks_sending c rest \<and> auth_conv ?as aout inp \<and> out @ rest = aout @ request_msg ?dest" using r by (intro exI conjI)
    then show ?thesis using assms that(1) by (simp add: socks_inv_def Let_def)
  qed
  show "socks_inv c out inp" if "sc_state c = SC_SENT_HELLO" and r: "socks_receiving c b 0 2 inp" "out = hello_msg ?as"
  proof -
    have "\<exists>b. socks_receiving c b 0 2 inp \<and> out = hello_msg ?as" using r by (intro exI conjI)
    then show ?thesis using assms that(1) by (simp add: socks_inv_def Let_def)
  qed
  show "socks_inv c out inp" if "sc_state c = SC_SENT_PASSWORD" and r: "socks_receiving c b 0 2 part" "find_auth ?as 2 = Some a"
    "out = hello_msg ?as @ password_msg a" "inp = [5, 2] @ part"
  proof -
    have "\<exists>b part a. socks_receiving c b 0 2 part \<and> find_auth ?as 2 = Some a \<and> out = hello_msg ?as @ password_msg a \<and> inp = [5, 2] @ part"
      using r by (intro exI conjI)
    then show ?thesis using assms that(1) by (simp add: socks_inv_def Let_def)
  qed
  show "socks_inv c out inp" if st: "sc_state c = SC_SENT_REQUEST" and r: "socks_receiving c b 0 4 part" "length b = 22" "auth_conv ?as aout ain"
    "out = aout @ request_msg ?dest" "inp = ain @ part"
  proof -
    have "\<exists>b part aout ain. socks_receiving c b 0 4 part \<and> length b = 22 \<and> auth_conv ?as aout ain \<and>
        out = aout @ request_msg ?dest \<and> inp = ain @ part" using r by (intro exI conjI)
    then show ?thesis using assms st by (simp add: socks_inv_def Let_def)
  qed
  show "socks_inv c out inp" if st: "sc_state c = SC_RECEIVED_REPLY_HEADER"
    and r: "addr_len atyp = Some n" "socks_receiving c b 4 n part" "auth_conv ?as aout ain"
      "out = aout @ request_msg ?dest" "inp = ain @ [5, 0, rsv, atyp] @ part"
  proof -
    have "\<exists>b part aout ain rsv atyp n. addr_len atyp = Some n \<and> socks_receiving c b 4 n part \<and> auth_conv ?as aout ain \<and>
        out = aout @ request_msg ?dest \<and> inp = ain @ [5, 0, rsv, atyp] @ part" using r by (intro exI conjI)
    then show ?thesis using assms st by (simp add: socks_inv_def Let_def)
  qed
qed

lemma socks_inv_sending:
  assumes inv: "socks_inv c out inp" and st: "sc_state c \<noteq> SC_CONNECTING" "ppi_state (pss_input (sc_sender c)) \<noteq> STATE_NONE"
  obtains rest where "socks_sending c rest"
    "\<And>c' out' rest'. sc_state c' = sc_state c \<Longrightarrow> same_conf c c' \<Longrightarrow> socks_sending c' rest' \<Longrightarrow> out' @ rest' = out @ rest \<Longrightarrow>
       socks_inv c' out' inp"
proof (cases "sc_state c")
  case SC_SENDING_HELLO
  then obtain rest where "socks_sending c rest" "out @ rest = hello_msg (sc_auth_info c)" "inp = []"
    using inv by (auto simp: socks_inv_def Let_def)
  then show thesis using SC_SENDING_HELLO same_confD [OF _ inv] by (intro that [of rest] socks_invI(1)) simp_all
next
  case SC_SENDING_PASSWORD
  then obtain rest a where "socks_sending c rest" "find_auth (sc_auth_info c) 2 = Some a"
    "out @ rest = hello_msg (sc_auth_info c) @ password_msg a" "inp = [5, 2]"
    using inv by (auto simp: socks_inv_def Let_def)
  then show thesis using SC_SENDING_PASSWORD same_confD [OF _ inv] by (intro that [of rest] socks_invI(2)) simp_all
next
  case SC_SENDING_REQUEST
  then obtain rest aout where "socks_sending c rest" "auth_conv (sc_auth_info c) aout inp" "out @ rest = aout @ request_msg (sc_dest_addr c)"
    using inv by (auto simp: socks_inv_def Let_def)
  then show thesis using SC_SENDING_REQUEST same_confD [OF _ inv]
    by (intro that [of rest]) (assumption, rule socks_invI(3) [where aout = aout], auto)
qed (use assms in \<open>auto simp: socks_inv_def Let_def dest: socks_receivingD\<close>)

lemma socks_inv_receiving:
  assumes inv: "socks_inv c out inp" and st: "sc_state c \<noteq> SC_CONNECTING" "sri_state (sc_recv_if c) \<noteq> STATE_NONE"
  obtains b off n part inp0 where "socks_receiving c b off n part" "inp = inp0 @ part"
    "\<And>c' b' part'. sc_state c' = sc_state c \<Longrightarrow> same_conf c c' \<Longrightarrow> socks_receiving c' b' off n part' \<Longrightarrow> length b' = length b \<Longrightarrow>
       socks_inv c' out (inp0 @ part')"
proof (cases "sc_state c")
  case SC_SENT_HELLO
  then obtain b where "socks_receiving c b 0 2 inp" "out = hello_msg (sc_auth_info c)" using inv by (auto simp: socks_inv_def Let_def)
  then show thesis using SC_SENT_HELLO same_confD [OF _ inv]
    by (intro that [of b 0 2 inp "[]"] socks_invI(4)) simp_all
next
  case SC_SENT_PASSWORD
  then obtain b part a where "socks_receiving c b 0 2 part" "find_auth (sc_auth_info c) 2 = Some a"
      "out = hello_msg (sc_auth_info c) @ password_msg a" "inp = [5, 2] @ part" using inv by (auto simp: socks_inv_def Let_def)
  then show thesis using SC_SENT_PASSWORD same_confD [OF _ inv]
    by (intro that [of b 0 2 part "[5, 2]"] socks_invI(5)) simp_all
next
  case SC_SENT_REQUEST
  then obtain b part aout ain where "socks_receiving c b 0 4 part" "length b = 22" "auth_conv (sc_auth_info c) aout ain"
      "out = aout @ request_msg (sc_dest_addr c)" "inp = ain @ part" using inv by (auto simp: socks_inv_def Let_def)
  note r = this
  show thesis
  proof (rule that [OF r(1,5)])
    fix c' b' part' assume "sc_state c' = sc_state c" "same_conf c c'" "socks_receiving c' b' 0 4 part'" "length b' = length b"
    then show "socks_inv c' out (ain @ part')" using SC_SENT_REQUEST same_confD [OF _ inv, of c'] r
      by (intro socks_invI(6) [of c' b' part' aout ain]) simp_all
  qed
next
  case SC_RECEIVED_REPLY_HEADER
  then obtain b part aout ain rsv atyp n where "addr_len atyp = Some n" "socks_receiving c b 4 n part" "auth_conv (sc_auth_info c) aout ain"
      "out = aout @ request_msg (sc_dest_addr c)" "inp = ain @ [5, 0, rsv, atyp] @ part" using inv by (auto simp: socks_inv_def Let_def)
  then show thesis using SC_RECEIVED_REPLY_HEADER same_confD [OF _ inv]
    by (intro that [of b 4 n part "ain @ [5, 0, rsv, atyp]"] socks_invI(7)) simp_all
qed (use assms in \<open>auto simp: socks_inv_def Let_def dest: socks_sendingD\<close>)

lemma recv_rest_ok:
  assumes "socks_quiet c" "con_all True c"
  shows "recv_reply_rest c = Inr (c\<lparr>sc_buffer := None, sc_con := \<lparr> con_inited = True, con_send = True, con_recv = True \<rparr>,
    sc_state := SC_UP\<rparr>, Some BSOCKSCLIENT_EVENT_UP)"
  using assms by (simp add: recv_reply_rest_def con_all_def free_control_io_def init_up_io_def con_SendAsync_Free_def
      con_RecvAsync_Free_def con_RecvAsync_Init_def con_SendAsync_Init_def)

lemma recv_hello_ok:
  assumes re: "realloc_ok realloc" and c: "socks_quiet c" "con_all True c" "socks_wf c" "sc_state c = SC_SENT_HELLO"
    and b: "sc_buffer c = Some b" "2 \<le> length b"
  shows "\<exists>r. recv_hello realloc c = Inr r \<and> socks_outcome r (hello_msg (sc_auth_info c)) (take 2 b)"
proof -
  have rd: "buffer_read c 0 2 = Inr (take 2 b)" using b by (simp add: buffer_read_def mem_read_def)
  obtain x y where xy: "take 2 b = [x, y]" using b(2) by (cases b; cases "tl b") auto
  have err: "\<exists>r. report_error c BSOCKSCLIENT_EVENT_ERROR = Inr r \<and> socks_outcome r out inp" for out inp
    using c by (simp add: report_error_def socks_outcome_def)
  consider "x \<noteq> 5" | "x = 5" "find_auth (sc_auth_info c) (uint y) = None"
    | ai where "x = 5" "find_auth (sc_auth_info c) (uint y) = Some ai" by blast
  then show ?thesis
  proof cases
    case 3
    then have ty: "auth_type ai = uint y" "uint y = 0 \<or> uint y = 2" using find_auth_Some [OF 3(2)] c(3) by (auto simp: socks_wf_def)
    then consider "y = 0" "auth_type ai = 0" | "y = 2" "auth_type ai = 2"
      by (metis of_int_0 of_int_numeral word_of_int_uint)
    then show ?thesis
    proof cases
      case 1
      then have "auth_conv (sc_auth_info c) (hello_msg (sc_auth_info c)) (take 2 b)"
        using 3 xy by (simp add: auth_conv_def)
      then show ?thesis using auth_finished_ok [OF re c(1-3)] c(4) 1 3 xy rd
        by (simp add: recv_hello_def ntoh8_def hton8_def SOCKS_VERSION_def SOCKS_METHOD_NO_AUTHENTICATION_REQUIRED_def)
    next
      case 2
      then show ?thesis using send_password_ok [OF re c(1-3), of ai] c(4) 3 xy rd
        by (simp add: recv_hello_def ntoh8_def hton8_def SOCKS_VERSION_def SOCKS_METHOD_NO_AUTHENTICATION_REQUIRED_def
            SOCKS_METHOD_USERNAME_PASSWORD_def)
    qed
  qed (use err rd xy in \<open>simp_all add: recv_hello_def ntoh8_def hton8_def SOCKS_VERSION_def\<close>)
qed

lemma recv_password_reply_ok:
  assumes re: "realloc_ok realloc" and c: "socks_quiet c" "con_all True c" "socks_wf c" "sc_state c = SC_SENT_PASSWORD"
    and b: "sc_buffer c = Some b" "2 \<le> length b" and a: "find_auth (sc_auth_info c) 2 = Some a"
  shows "\<exists>r. recv_password_reply realloc c = Inr r \<and>
    socks_outcome r (hello_msg (sc_auth_info c) @ password_msg a) ([5, 2] @ take 2 b)"
proof -
  obtain x y b' where xy: "b = x # y # b'" using b(2) by (cases b; cases "tl b") auto
  have rd: "buffer_read c 0 1 = Inr [x]" "buffer_read c 1 1 = Inr [y]" using b xy by (simp_all add: buffer_read_def mem_read_def)
  have err: "\<exists>r. report_error c BSOCKSCLIENT_EVENT_ERROR = Inr r \<and> socks_outcome r out inp" for out inp
    using c by (simp add: report_error_def socks_outcome_def)
  show ?thesis
  proof (cases "x = 1 \<and> y = 0")
    case True
    then have "auth_conv (sc_auth_info c) (hello_msg (sc_auth_info c) @ password_msg a) ([5, 2] @ take 2 b)"
      using xy a by (simp add: auth_conv_def)
    then show ?thesis using auth_finished_ok [OF re c(1-3)] c(4) True rd by (simp add: recv_password_reply_def)
  next
    case False
    then show ?thesis using err rd by (auto simp: recv_password_reply_def)
  qed
qed

lemma recv_reply_header_ok:
  assumes c: "socks_quiet c" "con_all True c" "socks_wf c" "sc_state c = SC_SENT_REQUEST"
    and b: "sc_buffer c = Some b" "length b = 22" and a: "auth_conv (sc_auth_info c) aout ain"
  shows "\<exists>r. recv_reply_header c = Inr r \<and> socks_outcome r (aout @ request_msg (sc_dest_addr c)) (ain @ take 4 b)"
proof -
  obtain v p rsv atyp where v: "take 4 b = [v, p, rsv, atyp]"
    using b(2) by (cases b; cases "tl b"; cases "tl (tl b)"; cases "tl (tl (tl b))") auto
  have rd: "buffer_read c 0 4 = Inr (take 4 b)" using b by (simp add: buffer_read_def mem_read_def)
  have err: "\<exists>r. report_error c BSOCKSCLIENT_EVENT_ERROR = Inr r \<and> socks_outcome r out inp" for out inp
    using c by (simp add: report_error_def socks_outcome_def)
  show ?thesis
  proof (cases "v = 5 \<and> p = 0 \<and> addr_len atyp \<noteq> None")
    case True
    then obtain n where n: "addr_len atyp = Some n" "0 < n" "4 + n \<le> length b" using b(2) by (auto simp: addr_len_def split: if_splits)
    obtain c' where c': "start_receive c (int 4) (int n) = Inr c'" "socks_receiving c' b 4 n []" "same_conf c c'"
      using start_receive_ok [OF c(1) b(1) n(3,2)] by blast
    let ?d = "c'\<lparr>sc_state := SC_RECEIVED_REPLY_HEADER\<rparr>"
    have "recv_reply_header c = Inr (?d, None)"
      using True n v rd c'(1) by (auto simp: recv_reply_header_def ntoh8_def hton8_def SOCKS_VERSION_def SOCKS_REP_SUCCEEDED_def
          SOCKS_ATYP_IPV4_def SOCKS_ATYP_IPV6_def addr_len_def split: if_splits)
    moreover have "socks_inv ?d (aout @ request_msg (sc_dest_addr c)) (ain @ take 4 b)"
      by (rule socks_invI(7) [where n = n and atyp = atyp and b = b and part = "[]" and aout = aout and ain = ain and rsv = rsv])
         (use c'(2,3) c n a v True in \<open>auto simp: same_conf_def socks_wf_def con_all_def\<close>)
    ultimately show ?thesis by (auto simp: socks_outcome_def)
  next
    case False
    then have "recv_reply_header c = report_error c BSOCKSCLIENT_EVENT_ERROR"
      using v rd by (auto simp: recv_reply_header_def ntoh8_def hton8_def SOCKS_VERSION_def SOCKS_REP_SUCCEEDED_def
          SOCKS_ATYP_IPV4_def SOCKS_ATYP_IPV6_def addr_len_def Let_def split: if_splits)
    then show ?thesis using err by simp
  qed
qed

subsection \<open>The client between its server and the reactor\<close>

definition socks_run_recv_done :: "(bytes option \<Rightarrow> nat \<Rightarrow> bytes option) \<Rightarrow> BSocksClient \<Rightarrow> (BSocksClient \<times> socks_event option) result" where
  "socks_run_recv_done realloc c =
     andthen (StreamRecvInterface_job_done (sc_recv_if c)) (\<lambda>(i, data_len).
     socks_recv_handler_done realloc (c\<lparr>sc_recv_if := i\<rparr>) data_len)"

definition socks_run_send_done :: "(bytes option \<Rightarrow> nat \<Rightarrow> bytes option) \<Rightarrow> BSocksClient \<Rightarrow> (BSocksClient \<times> socks_event option) result" where
  "socks_run_send_done realloc c =
     andthen (pss_run_done (sc_sender c)) (\<lambda>s. socks_send_handler_done realloc (c\<lparr>sc_sender := s\<rparr>))"

definition socks_sender_step :: "BSocksClient \<Rightarrow> (PacketStreamSender \<Rightarrow> PacketStreamSender result) \<Rightarrow> BSocksClient result" where
  "socks_sender_step c f = andthen (f (sc_sender c)) (\<lambda>s. Inr (c\<lparr>sc_sender := s\<rparr>))"

definition socks_stream_sent :: "BSocksClient \<Rightarrow> nat \<Rightarrow> (BSocksClient \<times> bytes) result" where
  "socks_stream_sent c k =
     (case sc_buffer c of None \<Rightarrow> Inl Out_of_bounds
      | Some b \<Rightarrow> andthen (pss_stream_sent (sc_sender c) b k) (\<lambda>(s, bs). Inr (c\<lparr>sc_sender := s\<rparr>, bs)))"

definition socks_stream_ask :: "BSocksClient \<Rightarrow> BSocksClient result" where
  "socks_stream_ask c = andthen (StreamRecvInterface_job_operation (sc_recv_if c)) (\<lambda>(i, _, _). Inr (c\<lparr>sc_recv_if := i\<rparr>))"

text \<open>The server's bytes \<open>d\<close> arrive: they are written where the client asked for them.\<close>

definition socks_stream_received :: "BSocksClient \<Rightarrow> bytes \<Rightarrow> BSocksClient result" where
  "socks_stream_received c d =
     (case (sc_buffer c, sri_job_operation_data (sc_recv_if c)) of (Some b, Some off) \<Rightarrow>
        andthen (mem_write b (nat off) d) (\<lambda>b.
        andthen (StreamRecvInterface_Done (sc_recv_if c) (int (length d))) (\<lambda>i.
        Inr (c\<lparr>sc_buffer := Some b, sc_recv_if := i\<rparr>)))
      | _ \<Rightarrow> Inl Out_of_bounds)"

lemma socks_receiving_done:
  assumes r: "socks_receiving c b off n part" and job: "sri_job_done (sc_recv_if c)"
  obtains j k where "StreamRecvInterface_job_done (sc_recv_if c) = Inr (j, k)" "0 < k" "k \<le> int n - sc_recv_len c"
    "socks_quiet (c\<lparr>sc_recv_if := j, sc_recv_len := l\<rparr>)" "part = take (nat (sc_recv_len c + k)) (drop off b)"
proof -
  have inv: "sri_inv (sc_recv_if c)" using r by (simp add: socks_receiving_def)
  then have st: "sri_state (sc_recv_if c) = STATE_DONE_PENDING" using job by (simp add: sri_inv_def)
  obtain j where j: "StreamRecvInterface_job_done (sc_recv_if c) = Inr (j, sri_job_done_len (sc_recv_if c))" "sri_inv j" "sri_state j = STATE_NONE"
    using sri_job_done_ok [OF inv job] .
  show thesis by (rule that [OF j(1)]) (use r st j in \<open>simp_all add: socks_receiving_def socks_quiet_def Let_def\<close>)
qed

text \<open>A piece of a message has arrived and more is needed.\<close>

lemma socks_recv_more:
  assumes r: "socks_receiving c b off n part" and j: "sri_inv j" "sri_state j = STATE_NONE"
    and k: "0 < k" "sc_recv_len c + k < int n" "part = take (nat (sc_recv_len c + k)) (drop off b)"
  obtains c' where "socks_recv_handler_done realloc (c\<lparr>sc_recv_if := j\<rparr>) k = Inr (c', None)" "socks_receiving c' b off n part"
    "same_conf c c'" "sc_state c' = sc_state c"
proof -
  let ?l = "sc_recv_len c + k"
  have f: "sc_recv_dest c = int off" "sc_recv_total c = int n" "0 \<le> sc_recv_len c" using r by (simp_all add: socks_receiving_def)
  obtain i where i: "StreamRecvInterface_Receiver_Recv j (Some (int off + ?l)) (int n - ?l) = Inr i" "sri_inv i"
    "sri_state i = STATE_OPERATION_PENDING" "sri_job_operation_data i = Some (int off + ?l)" "sri_job_operation_len i = int n - ?l"
    using sri_Recv_ok [OF j, of "int n - ?l" "int off + ?l"] k by auto
  let ?c = "c\<lparr>sc_recv_if := i, sc_recv_len := ?l\<rparr>"
  have "socks_recv_handler_done realloc (c\<lparr>sc_recv_if := j\<rparr>) k = Inr (?c, None)"
    using f k i(1) by (simp add: socks_recv_handler_done_def do_receive_def)
  moreover have "socks_receiving ?c b off n part"
    using r i k f by (simp add: socks_receiving_def Let_def)
  ultimately show thesis by (rule that) (simp_all add: same_conf_def)
qed

text \<open>A message is complete.\<close>

lemma socks_recv_complete:
  assumes re: "realloc_ok realloc" and inv: "socks_inv c out inp" and st: "sc_state c \<noteq> SC_CONNECTING"
    and r: "socks_receiving c b off n part" and k: "0 < k" "sc_recv_len c + k = int n" "part = take n (drop off b)"
    and q: "socks_quiet (c\<lparr>sc_recv_if := j, sc_recv_len := int n\<rparr>)"
  shows "\<exists>r. socks_recv_handler_done realloc (c\<lparr>sc_recv_if := j\<rparr>) k = Inr r \<and> socks_outcome r out inp"
proof -
  let ?c = "c\<lparr>sc_recv_if := j, sc_recv_len := int n\<rparr>"
  have c: "con_all True ?c" "socks_wf ?c" using inv st by (simp_all add: socks_inv_def con_all_def socks_wf_def)
  have b: "sc_buffer ?c = Some b" "off + n \<le> length b" "sc_recv_total c = int n" using r by (simp_all add: socks_receiving_def)
  have run: "socks_recv_handler_done realloc (c\<lparr>sc_recv_if := j\<rparr>) k = (case sc_state ?c of
        SC_SENT_HELLO \<Rightarrow> recv_hello realloc ?c | SC_SENT_REQUEST \<Rightarrow> recv_reply_header ?c
      | SC_SENT_PASSWORD \<Rightarrow> recv_password_reply realloc ?c | SC_RECEIVED_REPLY_HEADER \<Rightarrow> recv_reply_rest ?c
      | _ \<Rightarrow> Inl Assertion_failed)"
    using k b(3) by (simp add: socks_recv_handler_done_def Let_def)
  have same: "off' = off \<and> n' = n \<and> b' = b \<and> part' = part" if "socks_receiving c b' off' n' part'" for b' off' n' part'
    using r that by (auto simp: socks_receiving_def Let_def)
  have nr: "\<not> socks_sending c rest" for rest using r socks_sendingD by (auto simp: socks_receiving_def)
  show ?thesis
  proof (cases "sc_state c")
    case SC_SENT_HELLO
    then obtain b' where "socks_receiving c b' 0 2 inp" and o: "out = hello_msg (sc_auth_info c)" using inv by (auto simp: socks_inv_def Let_def)
    then have "off = 0" "n = 2" "inp = take 2 b" using same [of b' 0 2 inp] k(3) by auto
    then show ?thesis using recv_hello_ok [OF re q c _ b(1)] b(2) SC_SENT_HELLO run o by simp
  next
    case SC_SENT_PASSWORD
    then obtain b' part' a where "socks_receiving c b' 0 2 part'" and o: "find_auth (sc_auth_info c) 2 = Some a"
      "out = hello_msg (sc_auth_info c) @ password_msg a" "inp = [5, 2] @ part'" using inv by (auto simp: socks_inv_def Let_def)
    then have "off = 0" "n = 2" "part' = take 2 b" using same [of b' 0 2 part'] k(3) by auto
    then show ?thesis using recv_password_reply_ok [OF re q c _ b(1), of a] b(2) SC_SENT_PASSWORD run o by simp
  next
    case SC_SENT_REQUEST
    then obtain b' part' aout ain where "socks_receiving c b' 0 4 part'" and o: "length b' = 22" "auth_conv (sc_auth_info c) aout ain"
      "out = aout @ request_msg (sc_dest_addr c)" "inp = ain @ part'" using inv by (auto simp: socks_inv_def Let_def)
    then have "off = 0" "n = 4" "part' = take 4 b" "length b = 22" using same [of b' 0 4 part'] k(3) by auto
    then show ?thesis using recv_reply_header_ok [OF q c _ b(1), of aout ain] SC_SENT_REQUEST run o by simp
  next
    case SC_RECEIVED_REPLY_HEADER
    then obtain b' part' aout ain rsv atyp n' where "socks_receiving c b' 4 n' part'" and o: "addr_len atyp = Some n'" "auth_conv (sc_auth_info c) aout ain"
      "out = aout @ request_msg (sc_dest_addr c)" "inp = ain @ [5, 0, rsv, atyp] @ part'" using inv by (auto simp: socks_inv_def Let_def)
    then have p: "off = 4" "n' = n" "part' = part" using same by blast+
    then have "length part = n" using k(3) b(2) by simp
    then have "socks_conv (sc_auth_info c) (sc_dest_addr c) out inp"
      using o p unfolding socks_conv_def by (intro exI [of _ aout] exI [of _ ain] exI [of _ rsv] exI [of _ atyp] exI [of _ part]) simp
    then show ?thesis using recv_rest_ok [OF q c(1)] SC_RECEIVED_REPLY_HEADER run by (simp add: socks_outcome_def con_all_def)
  qed (use inv st nr in \<open>auto simp: socks_inv_def Let_def\<close>)
qed

lemma socks_run_recv_done_ok:
  assumes re: "realloc_ok realloc" and inv: "socks_inv c out inp" and st: "sc_state c \<noteq> SC_CONNECTING"
    and job: "sri_job_done (sc_recv_if c)" "sri_state (sc_recv_if c) \<noteq> STATE_NONE"
  shows "\<exists>r. socks_run_recv_done realloc c = Inr r \<and> socks_outcome r out inp"
proof (rule socks_inv_receiving [OF inv st job(2)])
  fix b off n part inp0
  assume r: "socks_receiving c b off n part" and i: "inp = inp0 @ part"
    and fin: "\<And>c' b' part'. sc_state c' = sc_state c \<Longrightarrow> same_conf c c' \<Longrightarrow> socks_receiving c' b' off n part' \<Longrightarrow> length b' = length b \<Longrightarrow>
       socks_inv c' out (inp0 @ part')"
  obtain j k where j: "StreamRecvInterface_job_done (sc_recv_if c) = Inr (j, k)" "0 < k" "k \<le> int n - sc_recv_len c"
    "socks_quiet (c\<lparr>sc_recv_if := j, sc_recv_len := int n\<rparr>)" "part = take (nat (sc_recv_len c + k)) (drop off b)"
    using socks_receiving_done [OF r job(1)] by blast
  have run: "socks_run_recv_done realloc c = socks_recv_handler_done realloc (c\<lparr>sc_recv_if := j\<rparr>) k"
    by (simp add: socks_run_recv_done_def j(1))
  show ?thesis
  proof (cases "sc_recv_len c + k < int n")
    case True
    have "sri_inv j" "sri_state j = STATE_NONE" using j(4) by (simp_all add: socks_quiet_def)
    then obtain c' where "socks_recv_handler_done realloc (c\<lparr>sc_recv_if := j\<rparr>) k = Inr (c', None)" "socks_receiving c' b off n part"
      "same_conf c c'" "sc_state c' = sc_state c" using socks_recv_more [OF r _ _ j(2) True j(5), of j realloc] by blast
    then show ?thesis using run fin i by (simp add: socks_outcome_def)
  next
    case False
    then have "sc_recv_len c + k = int n" using j(3) by simp
    then show ?thesis using socks_recv_complete [OF re inv st r j(2) _ _ j(4)] j(5) run by simp
  qed
qed

text \<open>
  The system: the client, the bytes the server has been sent, the bytes it has answered, and the
  event reported last. A step is a job that is set being run, the connector or the connection
  reporting, or the server taking and sending any number of bytes; its result may be a fault.
\<close>

record socks_sys =
  so_client :: BSocksClient
  so_out :: bytes
  so_in :: bytes
  so_event :: "socks_event option"

definition so_report :: "socks_sys \<Rightarrow> (BSocksClient \<times> socks_event option) result \<Rightarrow> socks_sys result" where
  "so_report s r = andthen r (\<lambda>(c, ev). Inr (s\<lparr>so_client := c, so_event := ev\<rparr>))"

definition so_set :: "socks_sys \<Rightarrow> BSocksClient result \<Rightarrow> socks_sys result" where
  "so_set s r = andthen r (\<lambda>c. Inr (s\<lparr>so_client := c\<rparr>))"

definition so_active :: "socks_sys \<Rightarrow> bool" where
  "so_active s \<longleftrightarrow> so_event s = None \<and> sc_state (so_client s) \<noteq> SC_CONNECTING"

inductive socks_step :: "(bytes option \<Rightarrow> nat \<Rightarrow> bytes option) \<Rightarrow> socks_sys \<Rightarrow> socks_sys result \<Rightarrow> bool" for realloc where
  so_connect: "so_event s = None \<Longrightarrow> sc_state (so_client s) = SC_CONNECTING \<Longrightarrow>
    socks_step realloc s (so_report s (connector_handler realloc (so_client s) is_error con_ok))"
| so_connection: "so_active s \<Longrightarrow> socks_step realloc s (so_report s (connection_handler (so_client s) closed))"
| so_operation: "so_active s \<Longrightarrow> ppi_job_operation (pss_input (sc_sender (so_client s))) \<Longrightarrow>
    socks_step realloc s (so_set s (socks_sender_step (so_client s) pss_run_operation))"
| so_take: "so_active s \<Longrightarrow> spi_job_operation (pss_output (sc_sender (so_client s))) \<Longrightarrow>
    socks_step realloc s (so_set s (socks_sender_step (so_client s) pss_stream_take))"
| so_sent: "so_active s \<Longrightarrow> spi_state (pss_output (sc_sender (so_client s))) = STATE_BUSY \<Longrightarrow> 0 < k \<Longrightarrow>
    int k \<le> spi_job_operation_len (pss_output (sc_sender (so_client s))) \<Longrightarrow>
    socks_step realloc s (andthen (socks_stream_sent (so_client s) k) (\<lambda>(c, bs). Inr (s\<lparr>so_client := c, so_out := so_out s @ bs\<rparr>)))"
| so_stream_done: "so_active s \<Longrightarrow> spi_job_done (pss_output (sc_sender (so_client s))) \<Longrightarrow>
    socks_step realloc s (so_set s (socks_sender_step (so_client s) pss_stream_done))"
| so_send_done: "so_active s \<Longrightarrow> ppi_job_done (pss_input (sc_sender (so_client s))) \<Longrightarrow>
    socks_step realloc s (so_report s (socks_run_send_done realloc (so_client s)))"
| so_ask: "so_active s \<Longrightarrow> sri_job_operation (sc_recv_if (so_client s)) \<Longrightarrow> socks_step realloc s (so_set s (socks_stream_ask (so_client s)))"
| so_received: "so_active s \<Longrightarrow> sri_state (sc_recv_if (so_client s)) = STATE_BUSY \<Longrightarrow> d \<noteq> [] \<Longrightarrow>
    int (length d) \<le> sri_job_operation_len (sc_recv_if (so_client s)) \<Longrightarrow>
    socks_step realloc s (so_set (s\<lparr>so_in := so_in s @ d\<rparr>) (socks_stream_received (so_client s) d))"
| so_recv_done: "so_active s \<Longrightarrow> sri_job_done (sc_recv_if (so_client s)) \<Longrightarrow>
    socks_step realloc s (so_report s (socks_run_recv_done realloc (so_client s)))"
| so_up_connection: "so_event s = Some BSOCKSCLIENT_EVENT_UP \<Longrightarrow>
    socks_step realloc s (so_report s (connection_handler (so_client s) closed))"

text \<open>
  Between the steps the caller may change the memory of the user names and passwords, not the methods (\<^verbatim>\<open>tun2socks\<close> overwrites the user name when it
  accepts another client). The client reads it last when the server has answered the hello, and what is stored there later has no
  effect on it: from then on \<open>sc_auth_info\<close> stays what it was when it was read.
\<close>

inductive socks_reach :: "(bytes option \<Rightarrow> nat \<Rightarrow> bytes option) \<Rightarrow> socks_sys \<Rightarrow> bool" for realloc where
  so_init: "BSocksClient_Init c0 server_addr auth_info dest_addr True = Inr (Some c) \<Longrightarrow> socks_wf c \<Longrightarrow>
    socks_reach realloc \<lparr> so_client = c, so_out = [], so_in = [], so_event = None \<rparr>"
| so_memory: "socks_reach realloc s \<Longrightarrow> so_event s = None \<Longrightarrow>
    sc_state (so_client s) \<in> {SC_CONNECTING, SC_SENDING_HELLO, SC_SENT_HELLO} \<Longrightarrow>
    map auth_type as = map auth_type (sc_auth_info (so_client s)) \<Longrightarrow> socks_wf ((so_client s)\<lparr>sc_auth_info := as\<rparr>) \<Longrightarrow>
    socks_reach realloc (s\<lparr>so_client := (so_client s)\<lparr>sc_auth_info := as\<rparr>\<rparr>)"
| so_trans: "socks_reach realloc s \<Longrightarrow> socks_step realloc s (Inr t) \<Longrightarrow> socks_reach realloc t"

definition so_inv :: "socks_sys \<Rightarrow> bool" where
  "so_inv s \<longleftrightarrow> socks_outcome (so_client s, so_event s) (so_out s) (so_in s)"

definition so_good :: "socks_sys result \<Rightarrow> bool" where
  "so_good r \<longleftrightarrow> (\<exists>s. r = Inr s \<and> so_inv s)"

lemma so_report_good:
  "\<exists>x. r = Inr x \<and> socks_outcome x (so_out s) (so_in s) \<Longrightarrow> so_good (so_report s r)"
  by (auto simp: so_good_def so_report_def so_inv_def)

lemma so_set_good:
  "\<exists>c. r = Inr c \<and> socks_inv c (so_out s) (so_in s) \<Longrightarrow> so_event s = None \<Longrightarrow> so_good (so_set s r)"
  by (auto simp: so_good_def so_set_def so_inv_def socks_outcome_def)

text \<open>A step of the sender that keeps what is left to send.\<close>

lemma socks_sender_step_ok:
  assumes inv: "socks_inv c out inp" and st: "sc_state c \<noteq> SC_CONNECTING" "ppi_state (pss_input (sc_sender c)) \<noteq> STATE_NONE"
    and f: "\<And>b rest. pss_inv (sc_sender c) b rest \<Longrightarrow> \<exists>s. f (sc_sender c) = Inr s \<and> pss_inv s b rest \<and>
      ppi_mtu (pss_input s) = ppi_mtu (pss_input (sc_sender c)) \<and> ppi_state (pss_input s) \<noteq> STATE_NONE"
  shows "\<exists>c'. socks_sender_step c f = Inr c' \<and> socks_inv c' out inp"
proof (rule socks_inv_sending [OF inv st])
  fix rest assume r: "socks_sending c rest"
    and fin: "\<And>c' out' rest'. sc_state c' = sc_state c \<Longrightarrow> same_conf c c' \<Longrightarrow> socks_sending c' rest' \<Longrightarrow> out' @ rest' = out @ rest \<Longrightarrow>
       socks_inv c' out' inp"
  obtain b where b: "sc_buffer c = Some b" "pss_inv (sc_sender c) b rest" using r by (auto simp: socks_sending_def)
  obtain s where s: "f (sc_sender c) = Inr s" "pss_inv s b rest" "ppi_mtu (pss_input s) = ppi_mtu (pss_input (sc_sender c))"
    "ppi_state (pss_input s) \<noteq> STATE_NONE" using f [OF b(2)] by blast
  have "socks_sending (c\<lparr>sc_sender := s\<rparr>) rest" using r s b(1) by (simp add: socks_sending_def)
  then have "socks_inv (c\<lparr>sc_sender := s\<rparr>) out inp" by (intro fin) (simp_all add: same_conf_def)
  then show ?thesis using s(1) by (simp add: socks_sender_step_def)
qed

lemma socks_stream_sent_ok:
  assumes inv: "socks_inv c out inp" and st: "sc_state c \<noteq> SC_CONNECTING" "ppi_state (pss_input (sc_sender c)) \<noteq> STATE_NONE"
    and k: "spi_state (pss_output (sc_sender c)) = STATE_BUSY" "0 < k" "int k \<le> spi_job_operation_len (pss_output (sc_sender c))"
  shows "\<exists>c' bs. socks_stream_sent c k = Inr (c', bs) \<and> socks_inv c' (out @ bs) inp"
proof (rule socks_inv_sending [OF inv st])
  fix rest assume r: "socks_sending c rest"
    and fin: "\<And>c' out' rest'. sc_state c' = sc_state c \<Longrightarrow> same_conf c c' \<Longrightarrow> socks_sending c' rest' \<Longrightarrow> out' @ rest' = out @ rest \<Longrightarrow>
       socks_inv c' out' inp"
  obtain b where b: "sc_buffer c = Some b" "pss_inv (sc_sender c) b rest" using r by (auto simp: socks_sending_def)
  obtain s where s: "pss_stream_sent (sc_sender c) b k = Inr (s, take k rest)" "pss_inv s b (drop k rest)" "pss_input s = pss_input (sc_sender c)"
    using pss_stream_sent_inv [OF b(2) k] by blast
  have "socks_sending (c\<lparr>sc_sender := s\<rparr>) (drop k rest)" using r s b(1) by (simp add: socks_sending_def)
  then have "socks_inv (c\<lparr>sc_sender := s\<rparr>) (out @ take k rest) inp"
    by (rule fin [rotated 2]) (simp_all add: same_conf_def)
  then show ?thesis using s(1) b(1) by (simp add: socks_stream_sent_def)
qed

lemma socks_invD:
  assumes "socks_inv c out inp" "sc_state c \<noteq> SC_CONNECTING"
  shows "socks_wf c" "con_all True c"
  using assms unfolding socks_inv_def by simp_all

lemma socks_sending_states:
  assumes inv: "socks_inv c out inp" and st: "sc_state c \<noteq> SC_CONNECTING" "ppi_state (pss_input (sc_sender c)) \<noteq> STATE_NONE"
  shows "(sc_state c = SC_SENDING_HELLO \<and> (\<exists>rest. socks_sending c rest \<and> out @ rest = hello_msg (sc_auth_info c) \<and> inp = [])) \<or>
    (sc_state c = SC_SENDING_PASSWORD \<and> (\<exists>rest a. socks_sending c rest \<and> find_auth (sc_auth_info c) 2 = Some a \<and>
       out @ rest = hello_msg (sc_auth_info c) @ password_msg a \<and> inp = [5, 2])) \<or>
    (sc_state c = SC_SENDING_REQUEST \<and> (\<exists>rest aout. socks_sending c rest \<and> auth_conv (sc_auth_info c) aout inp \<and>
       out @ rest = aout @ request_msg (sc_dest_addr c)))"
proof -
  have nr: "\<not> socks_receiving c b off n part" for b off n part using st(2) socks_receivingD by blast
  show ?thesis using inv st(1) by (cases "sc_state c") (simp_all add: socks_inv_def Let_def nr)
qed

lemma socks_run_send_done_ok:
  assumes re: "realloc_ok realloc" and inv: "socks_inv c out inp" and st: "sc_state c \<noteq> SC_CONNECTING"
    and job: "ppi_job_done (pss_input (sc_sender c))" "ppi_state (pss_input (sc_sender c)) \<noteq> STATE_NONE"
  shows "\<exists>r. socks_run_send_done realloc c = Inr r \<and> socks_outcome r out inp"
proof -
  obtain rest where r: "socks_sending c rest" using socks_sending_states [OF inv st job(2)] by blast
  then obtain b where b: "sc_buffer c = Some b" "pss_inv (sc_sender c) b rest" by (auto simp: socks_sending_def)
  obtain s where s: "pss_run_done (sc_sender c) = Inr s" "pss_inv s b rest" "rest = []" "ppi_state (pss_input s) = STATE_NONE"
    "ppi_mtu (pss_input s) = ppi_mtu (pss_input (sc_sender c))" using pss_run_done_inv [OF b(2) job(1)] by blast
  let ?c = "c\<lparr>sc_sender := s\<rparr>"
  have "pss_inv s [] []" using s(2) pss_inv_idle [OF s(4), of b rest] by blast
  then have q: "socks_quiet ?c" using s r by (auto simp: socks_quiet_def socks_sending_def)
  have nil: "rest' = []" if "socks_sending c rest'" for rest'
  proof -
    have "pss_inv (sc_sender c) b rest'" using that b(1) by (auto simp: socks_sending_def)
    then show ?thesis using pss_run_done_inv job(1) by blast
  qed
  have "\<exists>r. socks_send_handler_done realloc ?c = Inr r \<and> socks_outcome r out inp"
  proof (rule socks_send_handler_done_ok [OF re q])
    show "con_all True ?c" "socks_wf ?c" using socks_invD [OF inv st] by (simp_all add: con_all_def socks_wf_def)
    show "sc_buffer ?c \<noteq> None" using b(1) by simp
    show "(sc_state ?c = SC_SENDING_HELLO \<and> out = hello_msg (sc_auth_info ?c) \<and> inp = []) \<or>
      (sc_state ?c = SC_SENDING_PASSWORD \<and> (\<exists>a. find_auth (sc_auth_info ?c) 2 = Some a \<and>
         out = hello_msg (sc_auth_info ?c) @ password_msg a \<and> inp = [5, 2])) \<or>
      (sc_state ?c = SC_SENDING_REQUEST \<and> (\<exists>aout. auth_conv (sc_auth_info ?c) aout inp \<and> out = aout @ request_msg (sc_dest_addr ?c)))"
    proof -
      from socks_sending_states [OF inv st job(2)] consider
        rest' where "sc_state c = SC_SENDING_HELLO" "socks_sending c rest'" "out @ rest' = hello_msg (sc_auth_info c)" "inp = []"
      | rest' a where "sc_state c = SC_SENDING_PASSWORD" "socks_sending c rest'" "find_auth (sc_auth_info c) 2 = Some a"
          "out @ rest' = hello_msg (sc_auth_info c) @ password_msg a" "inp = [5, 2]"
      | rest' aout where "sc_state c = SC_SENDING_REQUEST" "socks_sending c rest'" "auth_conv (sc_auth_info c) aout inp"
          "out @ rest' = aout @ request_msg (sc_dest_addr c)" by blast
      then show ?thesis
      proof cases
        case 1
        then show ?thesis using nil [OF 1(2)] by simp
      next
        case 2
        then show ?thesis using nil [OF 2(2)] by simp
      next
        case 3
        then show ?thesis using nil [OF 3(2)] by auto
      qed
    qed
  qed
  then show ?thesis using s(1) by (simp add: socks_run_send_done_def)
qed

lemma socks_stream_ask_ok:
  assumes inv: "socks_inv c out inp" and st: "sc_state c \<noteq> SC_CONNECTING" "sri_state (sc_recv_if c) \<noteq> STATE_NONE"
    and job: "sri_job_operation (sc_recv_if c)"
  shows "\<exists>c'. socks_stream_ask c = Inr c' \<and> socks_inv c' out inp"
proof (rule socks_inv_receiving [OF inv st])
  fix b off n part inp0
  assume r: "socks_receiving c b off n part" and i: "inp = inp0 @ part"
    and fin: "\<And>c' b' part'. sc_state c' = sc_state c \<Longrightarrow> same_conf c c' \<Longrightarrow> socks_receiving c' b' off n part' \<Longrightarrow> length b' = length b \<Longrightarrow>
       socks_inv c' out (inp0 @ part')"
  have ri: "sri_inv (sc_recv_if c)" using r by (simp add: socks_receiving_def)
  obtain j where j: "StreamRecvInterface_job_operation (sc_recv_if c) =
      Inr (j, sri_job_operation_data (sc_recv_if c), sri_job_operation_len (sc_recv_if c))" "sri_inv j" "sri_state j = STATE_BUSY"
    "sri_job_operation_data j = sri_job_operation_data (sc_recv_if c)" "sri_job_operation_len j = sri_job_operation_len (sc_recv_if c)"
    using sri_job_operation_ok [OF ri job] .
  have "sri_state (sc_recv_if c) = STATE_OPERATION_PENDING" using ri job by (simp add: sri_inv_def)
  then have "socks_receiving (c\<lparr>sc_recv_if := j\<rparr>) b off n part" using r j by (simp add: socks_receiving_def Let_def)
  then have "socks_inv (c\<lparr>sc_recv_if := j\<rparr>) out (inp0 @ part)" by (rule fin [rotated 2]) (simp_all add: same_conf_def)
  then show ?thesis using j(1) i by (simp add: socks_stream_ask_def)
qed

lemma socks_stream_received_ok:
  assumes inv: "socks_inv c out inp" and st: "sc_state c \<noteq> SC_CONNECTING" "sri_state (sc_recv_if c) = STATE_BUSY"
    and d: "d \<noteq> []" "int (length d) \<le> sri_job_operation_len (sc_recv_if c)"
  shows "\<exists>c'. socks_stream_received c d = Inr c' \<and> socks_inv c' out (inp @ d)"
proof -
  have st': "sri_state (sc_recv_if c) \<noteq> STATE_NONE" using st(2) by simp
  show ?thesis
  proof (rule socks_inv_receiving [OF inv st(1) st'])
    fix b off n part inp0
    assume r: "socks_receiving c b off n part" and i: "inp = inp0 @ part"
      and fin: "\<And>c' b' part'. sc_state c' = sc_state c \<Longrightarrow> same_conf c c' \<Longrightarrow> socks_receiving c' b' off n part' \<Longrightarrow> length b' = length b \<Longrightarrow>
         socks_inv c' out (inp0 @ part')"
    define l where "l = nat (sc_recv_len c)"
    have f: "sc_buffer c = Some b" "off + n \<le> length b" "sc_recv_len c = int l" "l < n" "sri_inv (sc_recv_if c)"
      "sri_job_operation_data (sc_recv_if c) = Some (int (off + l))" "sri_job_operation_len (sc_recv_if c) = int n - int l"
      "part = take l (drop off b)"
      using r st(2) by (simp_all add: socks_receiving_def Let_def l_def nat_less_iff)
    have rq: "pss_inv (sc_sender c) [] []" "ppi_state (pss_input (sc_sender c)) = STATE_NONE"
      "ppi_mtu (pss_input (sc_sender c)) = INT_MAX" "sc_recv_dest c = int off" "sc_recv_total c = int n"
      using r by (simp_all add: socks_receiving_def)
    have len: "0 < int (length d)" "l + length d \<le> n" using d f(4,7) by auto
    obtain j where j: "StreamRecvInterface_Done (sc_recv_if c) (int (length d)) = Inr j" "sri_inv j" "sri_state j = STATE_DONE_PENDING"
      "sri_job_done_len j = int (length d)" "sri_job_operation_data j = sri_job_operation_data (sc_recv_if c)"
      "sri_job_operation_len j = sri_job_operation_len (sc_recv_if c)"
      using sri_Done_ok [OF f(5) st(2) len(1) d(2)] .
    define b' where "b' = take (off + l) b @ d @ drop (off + l + length d) b"
    have w: "mem_write b (off + l) d = Inr b'" using f(2) len(2) by (simp add: mem_write_def b'_def)
    have part: "part @ d = take (l + length d) (drop off b')"
      using f(2,8) len(2) by (simp add: b'_def drop_take take_add)
    have "socks_receiving (c\<lparr>sc_buffer := Some b', sc_recv_if := j\<rparr>) b' off n (part @ d)"
      using rq f(1-4,6,7) j(2-6) len part mem_write_length [OF w] by (simp add: socks_receiving_def Let_def nat_add_distrib) (use f(4) in simp)
    then have "socks_inv (c\<lparr>sc_buffer := Some b', sc_recv_if := j\<rparr>) out (inp0 @ (part @ d))"
      by (rule fin [rotated 2]) (simp_all add: same_conf_def mem_write_length [OF w])
    moreover have "socks_stream_received c d = Inr (c\<lparr>sc_buffer := Some b', sc_recv_if := j\<rparr>)"
      using f(1,6) w j(1) by (simp add: socks_stream_received_def nat_add_distrib)
    ultimately show ?thesis using i by simp
  qed
qed

text \<open>What is set tells what is in progress.\<close>

lemma socks_send_active:
  assumes inv: "socks_inv c out inp" and st: "sc_state c \<noteq> SC_CONNECTING"
  shows "ppi_job_operation (pss_input (sc_sender c)) \<or> ppi_job_done (pss_input (sc_sender c)) \<or> spi_job_operation (pss_output (sc_sender c)) \<or>
      spi_job_done (pss_output (sc_sender c)) \<or> spi_state (pss_output (sc_sender c)) = STATE_BUSY \<Longrightarrow>
    ppi_state (pss_input (sc_sender c)) \<noteq> STATE_NONE"
proof
  assume job: "ppi_job_operation (pss_input (sc_sender c)) \<or> ppi_job_done (pss_input (sc_sender c)) \<or> spi_job_operation (pss_output (sc_sender c)) \<or>
      spi_job_done (pss_output (sc_sender c)) \<or> spi_state (pss_output (sc_sender c)) = STATE_BUSY"
    and none: "ppi_state (pss_input (sc_sender c)) = STATE_NONE"
  have ns: "\<not> socks_sending c rest" for rest using none by (auto simp: socks_sending_def)
  have "\<exists>b off n part. socks_receiving c b off n part"
    using inv st by (cases "sc_state c") (auto simp: socks_inv_def Let_def ns)
  then have "pss_inv (sc_sender c) [] []" by (auto simp: socks_receiving_def)
  then have "ppi_inv (pss_input (sc_sender c))" "spi_inv (pss_output (sc_sender c))" "spi_state (pss_output (sc_sender c)) = STATE_NONE"
    using none by (simp_all add: pss_inv_def)
  then show False using job none by (simp add: ppi_inv_jobs spi_inv_def)
qed

lemma socks_recv_active:
  assumes inv: "socks_inv c out inp" and st: "sc_state c \<noteq> SC_CONNECTING"
    and job: "sri_job_operation (sc_recv_if c) \<or> sri_job_done (sc_recv_if c)"
  shows "sri_state (sc_recv_if c) \<noteq> STATE_NONE"
proof
  assume none: "sri_state (sc_recv_if c) = STATE_NONE"
  have nr: "\<not> socks_receiving c b off n part" for b off n part using none by (auto simp: socks_receiving_def)
  have "\<exists>rest. socks_sending c rest" using inv st by (cases "sc_state c") (auto simp: socks_inv_def Let_def nr)
  then have "sri_inv (sc_recv_if c)" by (auto simp: socks_sending_def)
  then show False using job none by (simp add: sri_inv_def)
qed

lemma so_active_inv: "so_inv s \<Longrightarrow> so_active s \<Longrightarrow> socks_inv (so_client s) (so_out s) (so_in s) \<and> so_event s = None \<and> sc_state (so_client s) \<noteq> SC_CONNECTING"
  by (auto simp: so_inv_def so_active_def socks_outcome_def)

lemma connection_handler_ok:
  assumes "socks_inv c out inp" "sc_state c \<noteq> SC_CONNECTING"
  shows "\<exists>r. connection_handler c closed = Inr r \<and> socks_outcome r out inp"
  using socks_invD [OF assms] assms(2) by (auto simp: connection_handler_def report_error_def socks_outcome_def)

lemma socks_stream_take_ok:
  assumes inv: "socks_inv c out inp" and st: "sc_state c \<noteq> SC_CONNECTING" "ppi_state (pss_input (sc_sender c)) \<noteq> STATE_NONE"
    and job: "spi_job_operation (pss_output (sc_sender c))"
  shows "\<exists>c'. socks_sender_step c pss_stream_take = Inr c' \<and> socks_inv c' out inp"
proof (rule socks_sender_step_ok [OF inv st])
  fix b rest assume "pss_inv (sc_sender c) b rest"
  from pss_stream_take_inv [OF this job] st(2)
  show "\<exists>s. pss_stream_take (sc_sender c) = Inr s \<and> pss_inv s b rest \<and>
      ppi_mtu (pss_input s) = ppi_mtu (pss_input (sc_sender c)) \<and> ppi_state (pss_input s) \<noteq> STATE_NONE" by auto
qed

lemma socks_step_good:
  assumes step: "socks_step realloc s r" and re: "realloc_ok realloc" and inv: "so_inv s"
  shows "so_good r"
proof -
  have c: "socks_inv (so_client s) (so_out s) (so_in s)" "so_event s = None" "sc_state (so_client s) \<noteq> SC_CONNECTING"
    if "so_active s" using so_active_inv [OF inv that] by simp_all
  from step show ?thesis
  proof cases
    case (so_connect is_error con_ok)
    have i: "socks_inv (so_client s) (so_out s) (so_in s)" using inv so_connect(2) by (simp add: so_inv_def socks_outcome_def)
    show ?thesis unfolding so_connect(1) by (rule so_report_good [OF connector_handler_ok [OF re i so_connect(3)]])
  next
    case (so_connection closed)
    show ?thesis unfolding so_connection(1) by (rule so_report_good [OF connection_handler_ok [OF c(1,3)]]) (rule so_connection(2))+
  next
    case so_operation
    note c = c [OF so_operation(2)]
    have act: "ppi_state (pss_input (sc_sender (so_client s))) \<noteq> STATE_NONE" using socks_send_active [OF c(1,3)] so_operation(3) by simp
    show ?thesis unfolding so_operation(1)
      by (rule so_set_good [OF socks_sender_step_ok [where f = pss_run_operation, OF c(1,3) act] c(2)]) (rule pss_run_operation_inv [OF _ so_operation(3)])
  next
    case so_take
    note c = c [OF so_take(2)]
    have act: "ppi_state (pss_input (sc_sender (so_client s))) \<noteq> STATE_NONE" using socks_send_active [OF c(1,3)] so_take(3) by simp
    show ?thesis unfolding so_take(1)
      by (rule so_set_good [OF socks_stream_take_ok [OF c(1,3) act so_take(3)] c(2)])
  next
    case (so_sent k)
    note c = c [OF so_sent(2)]
    have act: "ppi_state (pss_input (sc_sender (so_client s))) \<noteq> STATE_NONE" using socks_send_active [OF c(1,3)] so_sent(3) by simp
    obtain c' bs where r: "socks_stream_sent (so_client s) k = Inr (c', bs)" "socks_inv c' (so_out s @ bs) (so_in s)"
      using socks_stream_sent_ok [OF c(1,3) act so_sent(3-5)] by blast
    show ?thesis unfolding so_sent(1) using r c(2) by (simp add: so_good_def so_inv_def socks_outcome_def)
  next
    case so_stream_done
    note c = c [OF so_stream_done(2)]
    have act: "ppi_state (pss_input (sc_sender (so_client s))) \<noteq> STATE_NONE" using socks_send_active [OF c(1,3)] so_stream_done(3) by simp
    show ?thesis unfolding so_stream_done(1)
      by (rule so_set_good [OF socks_sender_step_ok [where f = pss_stream_done, OF c(1,3) act] c(2)]) (rule pss_stream_done_inv [OF _ so_stream_done(3)])
  next
    case so_send_done
    note c = c [OF so_send_done(2)]
    have act: "ppi_state (pss_input (sc_sender (so_client s))) \<noteq> STATE_NONE" using socks_send_active [OF c(1,3)] so_send_done(3) by simp
    show ?thesis unfolding so_send_done(1)
      by (rule so_report_good [OF socks_run_send_done_ok [OF re c(1,3) so_send_done(3) act]])
  next
    case so_ask
    note c = c [OF so_ask(2)]
    have act: "sri_state (sc_recv_if (so_client s)) \<noteq> STATE_NONE" using socks_recv_active [OF c(1,3)] so_ask(3) by simp
    show ?thesis unfolding so_ask(1) by (rule so_set_good [OF socks_stream_ask_ok [OF c(1,3) act so_ask(3)] c(2)])
  next
    case (so_received d)
    note c = c [OF so_received(2)]
    show ?thesis unfolding so_received(1)
      by (rule so_set_good) (use socks_stream_received_ok [OF c(1,3) so_received(3-5)] c(2) in simp_all)
  next
    case so_recv_done
    note c = c [OF so_recv_done(2)]
    have act: "sri_state (sc_recv_if (so_client s)) \<noteq> STATE_NONE" using socks_recv_active [OF c(1,3)] so_recv_done(3) by simp
    show ?thesis unfolding so_recv_done(1)
      by (rule so_report_good [OF socks_run_recv_done_ok [OF re c(1,3) so_recv_done(3) act]])
  next
    case (so_up_connection closed)
    have up: "sc_state (so_client s) = SC_UP" "con_all True (so_client s)"
      using inv so_up_connection(2) by (simp_all add: so_inv_def socks_outcome_def)
    then show ?thesis unfolding so_up_connection(1)
      by (intro so_report_good) (simp add: connection_handler_def report_error_def socks_outcome_def)
  qed
qed

text \<open>The hello names the methods only.\<close>

lemma hello_msg_types:
  assumes "map auth_type as = map auth_type bs"
  shows "hello_msg as = hello_msg bs"
proof -
  have "map (of_int \<circ> auth_type) as = map (of_int \<circ> auth_type) bs" using assms unfolding map_map [symmetric] by simp
  then show ?thesis using map_eq_imp_length_eq [OF assms] by (simp add: hello_msg_def comp_def)
qed

lemma socks_inv_memory:
  assumes "socks_inv c out inp" "sc_state c \<in> {SC_CONNECTING, SC_SENDING_HELLO, SC_SENT_HELLO}"
    "map auth_type as = map auth_type (sc_auth_info c)" "socks_wf (c\<lparr>sc_auth_info := as\<rparr>)"
  shows "socks_inv (c\<lparr>sc_auth_info := as\<rparr>) out inp"
proof -
  have "socks_sending (c\<lparr>sc_auth_info := as\<rparr>) rest = socks_sending c rest"
    "socks_receiving (c\<lparr>sc_auth_info := as\<rparr>) b off n part = socks_receiving c b off n part" for rest b off n part
    by (simp_all add: socks_sending_def socks_receiving_def)
  then show ?thesis using assms hello_msg_types [OF assms(3)] by (auto simp: socks_inv_def con_all_def)
qed

lemma socks_reach_inv: "socks_reach realloc s \<Longrightarrow> realloc_ok realloc \<Longrightarrow> so_inv s"
proof (induction rule: socks_reach.induct)
  case (so_init c0 server_addr auth_info dest_addr c)
  then show ?case by (auto simp: BSocksClient_Init_def so_inv_def socks_outcome_def socks_inv_def con_all_def result_simps)
next
  case (so_memory s as)
  then have "so_inv s" by simp
  then have "socks_inv (so_client s) (so_out s) (so_in s)" using so_memory.hyps(2) by (simp add: so_inv_def socks_outcome_def)
  then show ?case using socks_inv_memory [OF _ so_memory.hyps(3-5)] so_memory.hyps(2) by (simp add: so_inv_def socks_outcome_def)
next
  case (so_trans s t)
  then show ?case using socks_step_good by (fastforce simp: so_good_def)
qed

lemma BSocksClient_Free_ok: "con_all (sc_state c \<noteq> SC_CONNECTING) c \<Longrightarrow> no_fault (BSocksClient_Free c)"
  by (cases "sc_state c") (auto simp: BSocksClient_Free_def con_all_def free_up_io_def free_control_io_def con_SendAsync_Free_def
      con_RecvAsync_Free_def con_Free_def)

text \<open>Freeing leaves neither a buffer nor a part of the connection.\<close>

lemma BSocksClient_Free_all:
  "con_all (sc_state c \<noteq> SC_CONNECTING) c \<Longrightarrow> \<exists>c'. BSocksClient_Free c = Inr c' \<and> sc_buffer c' = None \<and> con_all False c'"
  by (cases "sc_state c") (auto simp: BSocksClient_Free_def con_all_def free_up_io_def free_control_io_def con_SendAsync_Free_def
      con_RecvAsync_Free_def con_Free_def)

subsection \<open>Runs of the system\<close>

text \<open>A step chosen by name, and a run of such steps.\<close>

datatype so_choice = Connect bool bool | Connection bool | Operation | Take | Sent nat | Stream_done | Send_done | Ask | Received bytes | Recv_done

fun so_fire :: "(bytes option \<Rightarrow> nat \<Rightarrow> bytes option) \<Rightarrow> socks_sys \<Rightarrow> so_choice \<Rightarrow> socks_sys result option" where
  "so_fire realloc s (Connect e ok) = (if so_event s = None \<and> sc_state (so_client s) = SC_CONNECTING
     then Some (so_report s (connector_handler realloc (so_client s) e ok)) else None)"
| "so_fire realloc s (Connection closed) = (if so_active s then Some (so_report s (connection_handler (so_client s) closed)) else None)"
| "so_fire realloc s Operation = (if so_active s \<and> ppi_job_operation (pss_input (sc_sender (so_client s)))
     then Some (so_set s (socks_sender_step (so_client s) pss_run_operation)) else None)"
| "so_fire realloc s Take = (if so_active s \<and> spi_job_operation (pss_output (sc_sender (so_client s)))
     then Some (so_set s (socks_sender_step (so_client s) pss_stream_take)) else None)"
| "so_fire realloc s (Sent k) = (if so_active s \<and> spi_state (pss_output (sc_sender (so_client s))) = STATE_BUSY \<and> 0 < k \<and>
       int k \<le> spi_job_operation_len (pss_output (sc_sender (so_client s)))
     then Some (andthen (socks_stream_sent (so_client s) k) (\<lambda>(c, bs). Inr (s\<lparr>so_client := c, so_out := so_out s @ bs\<rparr>))) else None)"
| "so_fire realloc s Stream_done = (if so_active s \<and> spi_job_done (pss_output (sc_sender (so_client s)))
     then Some (so_set s (socks_sender_step (so_client s) pss_stream_done)) else None)"
| "so_fire realloc s Send_done = (if so_active s \<and> ppi_job_done (pss_input (sc_sender (so_client s)))
     then Some (so_report s (socks_run_send_done realloc (so_client s))) else None)"
| "so_fire realloc s Ask = (if so_active s \<and> sri_job_operation (sc_recv_if (so_client s))
     then Some (so_set s (socks_stream_ask (so_client s))) else None)"
| "so_fire realloc s (Received d) = (if so_active s \<and> sri_state (sc_recv_if (so_client s)) = STATE_BUSY \<and> d \<noteq> [] \<and>
       int (length d) \<le> sri_job_operation_len (sc_recv_if (so_client s))
     then Some (so_set (s\<lparr>so_in := so_in s @ d\<rparr>) (socks_stream_received (so_client s) d)) else None)"
| "so_fire realloc s Recv_done = (if so_active s \<and> sri_job_done (sc_recv_if (so_client s))
     then Some (so_report s (socks_run_recv_done realloc (so_client s))) else None)"

fun so_run :: "(bytes option \<Rightarrow> nat \<Rightarrow> bytes option) \<Rightarrow> socks_sys \<Rightarrow> so_choice list \<Rightarrow> socks_sys option" where
  "so_run realloc s [] = Some s"
| "so_run realloc s (ch # chs) = (case so_fire realloc s ch of Some (Inr t) \<Rightarrow> so_run realloc t chs | _ \<Rightarrow> None)"

lemma so_fire_step: "so_fire realloc s ch = Some r \<Longrightarrow> socks_step realloc s r"
  by (cases ch) (auto intro: socks_step.intros split: if_splits)

lemma so_run_reach: "so_run realloc s chs = Some t \<Longrightarrow> socks_reach realloc s \<Longrightarrow> socks_reach realloc t"
  by (induction chs arbitrary: s) (auto split: option.splits sum.splits dest: so_fire_step intro: so_trans)

lemma so_inv_con_all: "so_inv s \<Longrightarrow> con_all (sc_state (so_client s) \<noteq> SC_CONNECTING) (so_client s)"
  by (auto simp: so_inv_def socks_outcome_def socks_inv_def split: option.splits socks_event.splits)

text \<open>A client with no authentication and a whole run of it, the server's answers coming in pieces.\<close>

definition ex_realloc :: "bytes option \<Rightarrow> nat \<Rightarrow> bytes option" where
  "ex_realloc m n = Some (replicate n 0)"

definition ex_client :: BSocksClient where
  "ex_client = \<lparr> sc_auth_info = [BSocksClient_auth_none], sc_dest_addr = BAddr_IPv4 0x04030201 0x5000, sc_state = SC_CONNECTING,
     sc_buffer = None, sc_con = \<lparr> con_inited = False, con_send = False, con_recv = False \<rparr>,
     sc_sender = \<lparr> pss_input = projr (PacketPassInterface_Init 0), pss_output = StreamPassInterface_Init, pss_in_len = 0, pss_in = None, pss_in_used = 0 \<rparr>,
     sc_recv_if = StreamRecvInterface_Init, sc_recv_dest = 0, sc_recv_len = 0, sc_recv_total = 0 \<rparr>"

definition ex_start :: socks_sys where
  "ex_start = \<lparr> so_client = ex_client, so_out = [], so_in = [], so_event = None \<rparr>"

definition ex_choices :: "so_choice list" where
  "ex_choices = [Connect False True, Operation, Take, Sent 2, Stream_done, Take, Sent 1, Stream_done, Send_done,
     Ask, Received [5], Recv_done, Ask, Received [0], Recv_done,
     Operation, Take, Sent 10, Stream_done, Send_done, Ask, Received [5, 0, 0, 1], Recv_done, Ask, Received [9, 9, 9, 9, 0, 1], Recv_done]"

lemma ex_start_reach: "socks_reach ex_realloc ex_start"
proof -
  have "BSocksClient_Init ex_client (BAddr_IPv4 0 0) [BSocksClient_auth_none] (BAddr_IPv4 0x04030201 0x5000) True = Inr (Some ex_client)"
    by (simp add: BSocksClient_Init_def BAddr_IsInvalid_def ex_client_def BSocksClient_auth_none_def SOCKS_METHOD_NO_AUTHENTICATION_REQUIRED_def)
  moreover have "socks_wf ex_client" by (simp add: socks_wf_def is_ip_addr_def ex_client_def BSocksClient_auth_none_def SOCKS_METHOD_NO_AUTHENTICATION_REQUIRED_def)
  ultimately show ?thesis unfolding ex_start_def by (rule so_init)
qed

lemma ex_realloc_ok: "realloc_ok ex_realloc"
  by (simp add: realloc_ok_def ex_realloc_def)

lemma ex_run:
  "map_option (\<lambda>s. (so_event s, so_out s, so_in s)) (so_run ex_realloc ex_start ex_choices) =
     Some (Some BSOCKSCLIENT_EVENT_UP, [5, 1, 0, 5, 1, 0, 1, 1, 2, 3, 4, 0, 80], [5, 0, 5, 0, 0, 1, 9, 9, 9, 9, 0, 1])"
  by code_simp

text \<open>
  C29: whatever the server answers and in whatever pieces, whatever the connection and the allocator
  do, in whatever order the jobs run and whatever the caller stores as user name and password, the SOCKS client fails no assertion and never
  reads or writes outside of its buffer. At any time, before it is connected, during the conversation, when it is up and after
  it has reported an error or the end of the connection, it can be freed, and then nothing of its buffer or its connection is left.
\<close>

theorem BSocksClient_safe:
  assumes "realloc_ok realloc" "socks_reach realloc s"
  shows "(\<forall>r. socks_step realloc s r \<longrightarrow> no_fault r) \<and>
    (\<exists>c. BSocksClient_Free (so_client s) = Inr c \<and> sc_buffer c = None \<and>
       \<not> con_inited (sc_con c) \<and> \<not> con_send (sc_con c) \<and> \<not> con_recv (sc_con c))"
proof -
  have inv: "so_inv s" by (rule socks_reach_inv [OF assms(2,1)])
  have "no_fault r" if "socks_step realloc s r" for r
    using socks_step_good [OF that assms(1) inv] by (auto simp: so_good_def no_fault_def)
  then show ?thesis using BSocksClient_Free_all [OF so_inv_con_all [OF inv]] by (auto simp: con_all_def)
qed

text \<open>A client that waits for the rest of the answer to its hello, and the same client when it is up.\<close>

theorem BSocksClient_safe_witness:
  "(\<exists>s r. socks_reach ex_realloc s \<and> socks_step ex_realloc s r \<and> so_in s = [5] \<and> no_fault r) \<and>
   (\<exists>s c. socks_reach ex_realloc s \<and> so_event s = Some BSOCKSCLIENT_EVENT_UP \<and>
      BSocksClient_Free (so_client s) = Inr c \<and> \<not> con_inited (sc_con c))"
proof
  have "map_option so_in (so_run ex_realloc ex_start (take 11 ex_choices)) = Some [5]" by code_simp
  then obtain s where s: "so_run ex_realloc ex_start (take 11 ex_choices) = Some s" "so_in s = [5]" by auto
  have "map_option (\<lambda>s. so_event s = None \<and> sc_state (so_client s) = SC_SENT_HELLO) (so_run ex_realloc ex_start (take 11 ex_choices)) = Some True"
    by code_simp
  then have a: "so_active s" using s(1) by (simp add: so_active_def)
  have reach: "socks_reach ex_realloc s" by (rule so_run_reach [OF s(1) ex_start_reach])
  have step: "socks_step ex_realloc s (so_report s (connection_handler (so_client s) True))" by (rule so_connection [OF a])
  show "\<exists>s r. socks_reach ex_realloc s \<and> socks_step ex_realloc s r \<and> so_in s = [5] \<and> no_fault r"
    using BSocksClient_safe [OF ex_realloc_ok reach] reach step s(2) by blast
next
  obtain s where s: "so_run ex_realloc ex_start ex_choices = Some s" "so_event s = Some BSOCKSCLIENT_EVENT_UP" using ex_run by auto
  have reach: "socks_reach ex_realloc s" by (rule so_run_reach [OF s(1) ex_start_reach])
  show "\<exists>s c. socks_reach ex_realloc s \<and> so_event s = Some BSOCKSCLIENT_EVENT_UP \<and>
      BSocksClient_Free (so_client s) = Inr c \<and> \<not> con_inited (sc_con c)"
    using BSocksClient_safe [OF ex_realloc_ok reach] reach s(2) by blast
qed

text \<open>
  C28: when the client reports that it is up, exactly the conversation of RFC 1928 (with no
  authentication, or with the user name and password of RFC 1929) has taken place: what it has sent
  is the hello, the credentials and the request for the destination address, nothing more or less; what
  it has taken from the stream is the server's answers up to the bound address, and nothing of
  what follows. Afterwards only the connection reports, and an end of the stream is told from an error.
\<close>

theorem BSocksClient_conversation:
  assumes "realloc_ok realloc" "socks_reach realloc s" "so_event s = Some BSOCKSCLIENT_EVENT_UP"
  shows "socks_conv (sc_auth_info (so_client s)) (sc_dest_addr (so_client s)) (so_out s) (so_in s) \<and> sc_buffer (so_client s) = None \<and>
    connection_handler (so_client s) closed =
      Inr (so_client s, Some (if closed then BSOCKSCLIENT_EVENT_ERROR_CLOSED else BSOCKSCLIENT_EVENT_ERROR))"
proof -
  have "so_inv s" by (rule socks_reach_inv [OF assms(2,1)])
  then show ?thesis using assms(3) by (simp add: so_inv_def socks_outcome_def connection_handler_def report_error_def)
qed

theorem BSocksClient_conversation_witness:
  "\<exists>s. socks_reach ex_realloc s \<and> so_out s = [5, 1, 0, 5, 1, 0, 1, 1, 2, 3, 4, 0, 80] \<and>
     socks_conv (sc_auth_info (so_client s)) (sc_dest_addr (so_client s)) (so_out s) (so_in s) \<and>
     connection_handler (so_client s) True = Inr (so_client s, Some BSOCKSCLIENT_EVENT_ERROR_CLOSED)"
proof -
  obtain s where s: "so_run ex_realloc ex_start ex_choices = Some s" "so_event s = Some BSOCKSCLIENT_EVENT_UP"
    "so_out s = [5, 1, 0, 5, 1, 0, 1, 1, 2, 3, 4, 0, 80]" using ex_run by auto
  have reach: "socks_reach ex_realloc s" by (rule so_run_reach [OF s(1) ex_start_reach])
  show ?thesis using BSocksClient_conversation [OF ex_realloc_ok reach s(2), of True] reach s(3) by auto
qed

end
