(* ===== verification/Udpgw_Client.thy ===== *)
theory Udpgw_Client
  imports Bavl_Index Flow_Parts Fair_Queue Socks_Client
begin

section \<open>The udpgw client: \<^verbatim>\<open>udpgw_client/UdpGwClient.c\<close>\<close>

text \<open>
  The client multiplexes UDP over one stream to a udpgw server. Every pair of a local and a remote address is a connection with an identifier; the
  connections are in two search trees, by their addresses and by their identifiers, and in a list in the order of their last use. A
  packet that needs a new connection when the table is full takes over the connection that has not been used for the longest time.

  The trees are the pointer trees of \<open>Bavl\<close>, so the operations that search them are partial: \<open>None\<close> is a run that does not end. The list is the list of its elements
  (\<open>Linked_List\<close> shows that \<^verbatim>\<open>LinkedList1\<close> behaves so). A connection is identified by its address, which is also the address of its flow in the send
  queue and of its nodes in the trees. \<^verbatim>\<open>malloc\<close> is a parameter. The parts that the client sets up but that run on their own (queue, monitor, connector,
  writers) are the records of their theories; an interface that two parts share is a field of each, as its initialisation leaves it.
  \<^verbatim>\<open>first_data\<close> points to the data of the caller, which the code needs until the first job has run; the model keeps the bytes.
\<close>

subsection \<open>Messages: \<^verbatim>\<open>protocol/udpgw_proto.h\<close>\<close>

definition UDPGW_CLIENT_FLAG_KEEPALIVE :: u8 where "UDPGW_CLIENT_FLAG_KEEPALIVE = 1"
definition UDPGW_CLIENT_FLAG_REBIND :: u8 where "UDPGW_CLIENT_FLAG_REBIND = 2"
definition UDPGW_CLIENT_FLAG_DNS :: u8 where "UDPGW_CLIENT_FLAG_DNS = 4"
definition UDPGW_CLIENT_FLAG_IPV6 :: u8 where "UDPGW_CLIENT_FLAG_IPV6 = 8"

text \<open>The bytes of the packed structures.\<close>

definition udpgw_header :: "u8 \<Rightarrow> u16 \<Rightarrow> bytes" where
  "udpgw_header flags conid = flags # u16_bytes conid"

definition udpgw_addr_ipv4 :: "u32 \<Rightarrow> u16 \<Rightarrow> bytes" where
  "udpgw_addr_ipv4 ip port = u32_bytes ip @ u16_bytes port"

definition udpgw_addr_ipv6 :: "bytes \<Rightarrow> u16 \<Rightarrow> bytes" where
  "udpgw_addr_ipv6 ip port = ip @ u16_bytes port"

definition udpgw_compute_mtu :: "int \<Rightarrow> int" where
  "udpgw_compute_mtu dgram_mtu =
     (let bs = bsize_add (bsize_fromsize 3) (bsize_add (bsize_max (bsize_fromsize 6) (bsize_fromsize 18)) (bsize_fromint dgram_mtu)) in
      case bsize_toint bs of None \<Rightarrow> - 1 | Some s \<Rightarrow> s)"

subsection \<open>State\<close>

record UdpGwClient_conaddr =
  ca_local_addr :: BAddr
  ca_remote_addr :: BAddr

record UdpGwClient_connection =
  uc_conaddr :: UdpGwClient_conaddr
  uc_first_flags :: u8
  uc_first_data :: bytes
  uc_conid :: u16
  uc_first_job :: bool
  uc_send_ppflow :: PacketProtoFlow

record UdpGwClient =
  ug_udp_mtu :: int
  ug_max_connections :: int
  ug_send_buffer_size :: int
  ug_udpgw_mtu :: int
  ug_pp_mtu :: int
  ug_tree_by_conaddr :: BAVL
  ug_tree_by_conid :: BAVL
  ug_connections_list :: "nat list"
  ug_num_connections :: int
  ug_next_conid :: int
  ug_send_queue :: PacketPassFairQueue
  ug_send_monitor :: PacketPassInactivityMonitor
  ug_send_connector :: PacketPassConnector
  ug_keepalive_packet :: bytes
  ug_keepalive_qflow :: nat
  ug_keepalive_sending :: bool
  ug_have_server :: bool
  ug_server :: "(PacketStreamSender \<times> PacketProtoDecoder) option"
  ug_recv_if :: "int PacketPassInterface"
  ug_con :: "nat \<Rightarrow> UdpGwClient_connection"

abbreviation upd_con :: "UdpGwClient \<Rightarrow> nat \<Rightarrow> (UdpGwClient_connection \<Rightarrow> UdpGwClient_connection) \<Rightarrow> UdpGwClient" where
  "upd_con u c f \<equiv> u\<lparr>ug_con := (ug_con u)(c := f (ug_con u c))\<rparr>"

text \<open>Runs that may not end: sequencing and assertions.\<close>

definition bindr :: "'a result option \<Rightarrow> ('a \<Rightarrow> 'b result option) \<Rightarrow> 'b result option" where
  "bindr r f = (case r of None \<Rightarrow> None | Some (Inl e) \<Rightarrow> Some (Inl e) | Some (Inr x) \<Rightarrow> f x)"

definition ASSERTR :: "bool \<Rightarrow> 'a result option \<Rightarrow> 'a result option" where
  "ASSERTR P r = (if P then r else Some (Inl Assertion_failed))"

lemma bindr_simps [simp]: "bindr (Some (Inr x)) f = f x" "bindr (Some (Inl e)) f = Some (Inl e)" "bindr None f = None"
  by (simp_all add: bindr_def)

lemma ASSERTR_True [simp]: "P \<Longrightarrow> ASSERTR P r = r"
  by (simp add: ASSERTR_def)

subsection \<open>Comparators and lookups\<close>

definition uint16_comparator :: "u16 \<Rightarrow> u16 \<Rightarrow> int" where
  "uint16_comparator v1 v2 = B_COMPARE v1 v2"

definition conaddr_comparator :: "UdpGwClient_conaddr \<Rightarrow> UdpGwClient_conaddr \<Rightarrow> int" where
  "conaddr_comparator v1 v2 =
     (let r = BAddr_CompareOrder (ca_remote_addr v1) (ca_remote_addr v2) in
      if r \<noteq> 0 then r else BAddr_CompareOrder (ca_local_addr v1) (ca_local_addr v2))"

definition con_addr :: "UdpGwClient \<Rightarrow> nat \<Rightarrow> UdpGwClient_conaddr" where
  "con_addr u c = uc_conaddr (ug_con u c)"

definition con_id :: "UdpGwClient \<Rightarrow> nat \<Rightarrow> u16" where
  "con_id u c = uc_conid (ug_con u c)"

definition find_connection_by_conaddr :: "UdpGwClient \<Rightarrow> UdpGwClient_conaddr \<Rightarrow> nat option result option" where
  "find_connection_by_conaddr u conaddr = BAVL_LookupExact (\<lambda>c. conaddr_comparator conaddr (con_addr u c)) (ug_tree_by_conaddr u)"

definition find_connection_by_conid :: "UdpGwClient \<Rightarrow> u16 \<Rightarrow> nat option result option" where
  "find_connection_by_conid u conid = BAVL_LookupExact (\<lambda>c. uint16_comparator conid (con_id u c)) (ug_tree_by_conid u)"

definition insert_by_conaddr :: "UdpGwClient \<Rightarrow> nat \<Rightarrow> UdpGwClient result option" where
  "insert_by_conaddr u c =
     bindr (BAVL_Insert (\<lambda>a b. conaddr_comparator (con_addr u a) (con_addr u b)) (ug_tree_by_conaddr u) c) (\<lambda>(t, res, _).
     ASSERTR res (Some (Inr (u\<lparr>ug_tree_by_conaddr := t\<rparr>))))"

definition insert_by_conid :: "UdpGwClient \<Rightarrow> nat \<Rightarrow> UdpGwClient result option" where
  "insert_by_conid u c =
     bindr (BAVL_Insert (\<lambda>a b. uint16_comparator (con_id u a) (con_id u b)) (ug_tree_by_conid u) c) (\<lambda>(t, res, _).
     ASSERTR res (Some (Inr (u\<lparr>ug_tree_by_conid := t\<rparr>))))"

text \<open>The loop of \<open>find_unused_conid\<close>, which stores the identifier it looks at in the client.\<close>

partial_function (option) find_unused_loop :: "UdpGwClient \<Rightarrow> (UdpGwClient \<times> u16) result option" where
  "find_unused_loop u =
     (case find_connection_by_conid u (of_int (ug_next_conid u)) of
        None \<Rightarrow> None
      | Some r \<Rightarrow> (case r of
          Inl e \<Rightarrow> Some (Inl e)
        | Inr q \<Rightarrow> (case q of
            None \<Rightarrow> Some (Inr (u, of_int (ug_next_conid u)))
          | Some c \<Rightarrow>
              find_unused_loop (u\<lparr>ug_next_conid := (if ug_next_conid u = ug_max_connections u - 1 then 0 else ug_next_conid u + 1)\<rparr>))))"

definition find_unused_conid :: "UdpGwClient \<Rightarrow> (UdpGwClient \<times> u16) result option" where
  "find_unused_conid u = ASSERTR (ug_num_connections u < ug_max_connections u) (find_unused_loop u)"

subsection \<open>Connections\<close>

text \<open>
  \<open>connection_send\<close>: the position that the writer returns is in the memory of the connection's packet buffer. The remote address selects what is
  written between the header and the data.
\<close>

definition addr_bytes :: "BAddr \<Rightarrow> bytes" where
  "addr_bytes a = (case a of BAddr_IPv4 ip port \<Rightarrow> udpgw_addr_ipv4 ip port | BAddr_IPv6 ip port \<Rightarrow> udpgw_addr_ipv6 ip port | _ \<Rightarrow> [])"

definition send_flags :: "BAddr \<Rightarrow> u8 \<Rightarrow> u8" where
  "send_flags a flags = (case a of BAddr_IPv6 _ _ \<Rightarrow> flags OR UDPGW_CLIENT_FLAG_IPV6 | _ \<Rightarrow> flags)"

definition connection_send :: "UdpGwClient \<Rightarrow> nat \<Rightarrow> u8 \<Rightarrow> bytes \<Rightarrow> UdpGwClient result" where
  "connection_send u con flags data =
     (let c = ug_con u con; f = uc_send_ppflow c; remote = ca_remote_addr (uc_conaddr c) in
      ASSERT (int (length data) \<le> ug_udp_mtu u)
      (andthen (BufferWriter_StartPacket (PacketProtoFlow_GetInput f)) (\<lambda>(w, out).
       case out of None \<Rightarrow> Inr u
       | Some None \<Rightarrow> Inl Out_of_bounds
       | Some (Some out) \<Rightarrow>
           let flags = send_flags remote flags;
               header = udpgw_header (ltoh8 flags) (ltoh16 (uc_conid c));
               addr = addr_bytes remote;
               pos1 = length header; pos2 = pos1 + length addr; pos3 = pos2 + length data;
               mem = cb_buffer (pb_buf (ppf_buffer f)) in
           andthen (mem_write mem (nat out) header) (\<lambda>mem.
           andthen (mem_write mem (nat out + pos1) addr) (\<lambda>mem.
           andthen (mem_write mem (nat out + pos2) data) (\<lambda>mem.
           andthen (BufferWriter_EndPacket w (int pos3)) (\<lambda>w.
           let b = (ppf_buffer f)\<lparr>pb_buf := (pb_buf (ppf_buffer f))\<lparr>cb_buffer := mem\<rparr>\<rparr> in
           Inr (upd_con u con (\<lambda>c. c\<lparr>uc_send_ppflow := f\<lparr>ppf_ainput := w, ppf_buffer := b\<rparr>\<rparr>)))))))))"

text \<open>The job runs after the reactor has unset it.\<close>

definition connection_first_job_handler :: "UdpGwClient \<Rightarrow> nat \<Rightarrow> UdpGwClient result" where
  "connection_first_job_handler u con =
     (let u = upd_con u con (\<lambda>c. c\<lparr>uc_first_job := False\<rparr>) in
      connection_send u con (UDPGW_CLIENT_FLAG_REBIND OR uc_first_flags (ug_con u con)) (uc_first_data (ug_con u con)))"

text \<open>
  The part of \<open>connection_init\<close> after the identifier has been chosen. The initialisation of the flow's packet
  buffer registers the buffer as the user of the queue's interface, which the queue has too.
\<close>

definition init_flow :: "(nat \<Rightarrow> bytes option) \<Rightarrow> UdpGwClient \<Rightarrow> nat \<Rightarrow> UdpGwClient result option" where
  "init_flow alloc u con =
     bindr (Some (PacketPassFairQueueFlow_Init (ug_send_queue u) con)) (\<lambda>queue.
     let u = u\<lparr>ug_send_queue := queue\<rparr> in
     bindr (Some (PacketProtoFlow_Init alloc (ug_udpgw_mtu u) (ug_send_buffer_size u) (fl_input (fq_flow queue con)))) (\<lambda>r.
     case r of
       None \<Rightarrow>
         bindr (Some (PacketPassFairQueueFlow_Free queue con)) (\<lambda>queue.
         Some (Inr (upd_con (u\<lparr>ug_send_queue := queue\<rparr>) con (\<lambda>c. c\<lparr>uc_first_job := False\<rparr>))))
     | Some f \<Rightarrow>
         let queue = upd_flow queue con (\<lambda>x. x\<lparr>fl_input := pb_output (ppf_buffer f)\<rparr>);
             u = upd_con (u\<lparr>ug_send_queue := queue\<rparr>) con (\<lambda>c. c\<lparr>uc_send_ppflow := f\<rparr>) in
         bindr (insert_by_conaddr u con) (\<lambda>u.
         bindr (insert_by_conid u con) (\<lambda>u.
         Some (Inr (u\<lparr>ug_connections_list := ug_connections_list u @ [con], ug_num_connections := ug_num_connections u + 1\<rparr>))))))"

text \<open>
  \<open>connection_init\<close>: \<open>m\<close> is what \<^verbatim>\<open>malloc\<close> returns for the structure, \<open>alloc\<close> the allocation of the packet buffer.
\<close>

definition connection_init :: "(nat \<Rightarrow> bytes option) \<Rightarrow> nat option \<Rightarrow> UdpGwClient \<Rightarrow> UdpGwClient_conaddr \<Rightarrow> u8 \<Rightarrow> bytes \<Rightarrow> UdpGwClient result option" where
  "connection_init alloc m u conaddr flags data =
     ASSERTR (ug_num_connections u < ug_max_connections u)
     (bindr (find_connection_by_conaddr u conaddr) (\<lambda>q. ASSERTR (q = None)
     (ASSERTR (int (length data) \<le> ug_udp_mtu u)
     (case m of None \<Rightarrow> Some (Inr u)
      | Some con \<Rightarrow>
          let u = upd_con u con (\<lambda>c. c\<lparr>uc_conaddr := conaddr, uc_first_flags := flags, uc_first_data := data\<rparr>) in
          bindr (find_unused_conid u) (\<lambda>(u, conid).
          let u = upd_con u con (\<lambda>c. c\<lparr>uc_conid := conid, uc_first_job := True\<rparr>) in
          init_flow alloc u con)))))"

definition connection_free :: "UdpGwClient \<Rightarrow> nat \<Rightarrow> UdpGwClient result option" where
  "connection_free u con =
     bindr (Some (PacketPassFairQueueFlow_AssertFree (ug_send_queue u) con)) (\<lambda>_.
     let u = u\<lparr>ug_num_connections := ug_num_connections u - 1, ug_connections_list := remove1 con (ug_connections_list u)\<rparr> in
     bindr (BAVL_Remove (ug_tree_by_conid u) con) (\<lambda>t.
     let u = u\<lparr>ug_tree_by_conid := t\<rparr> in
     bindr (BAVL_Remove (ug_tree_by_conaddr u) con) (\<lambda>t.
     let u = u\<lparr>ug_tree_by_conaddr := t\<rparr> in
     bindr (Some (PacketPassFairQueueFlow_Free (ug_send_queue u) con)) (\<lambda>queue.
     Some (Inr (upd_con (u\<lparr>ug_send_queue := queue\<rparr>) con (\<lambda>c. c\<lparr>uc_first_job := False\<rparr>)))))))"

definition reuse_connection :: "UdpGwClient \<Rightarrow> UdpGwClient_conaddr \<Rightarrow> (UdpGwClient \<times> nat) result option" where
  "reuse_connection u conaddr =
     bindr (find_connection_by_conaddr u conaddr) (\<lambda>q. ASSERTR (q = None)
     (ASSERTR (ug_num_connections u > 0)
     (case ug_connections_list u of [] \<Rightarrow> Some (Inl Out_of_bounds)
      | con # _ \<Rightarrow>
          bindr (BAVL_Remove (ug_tree_by_conaddr u) con) (\<lambda>t.
          let u = upd_con (u\<lparr>ug_tree_by_conaddr := t\<rparr>) con (\<lambda>c. c\<lparr>uc_conaddr := conaddr\<rparr>) in
          bindr (insert_by_conaddr u con) (\<lambda>u. Some (Inr (u, con)))))))"

definition to_back :: "nat \<Rightarrow> UdpGwClient \<Rightarrow> UdpGwClient" where
  "to_back con u = u\<lparr>ug_connections_list := remove1 con (ug_connections_list u) @ [con]\<rparr>"

subsection \<open>The server\<close>

definition free_server :: "UdpGwClient \<Rightarrow> UdpGwClient result" where
  "free_server u =
     andthen (PacketPassConnector_DisconnectOutput (ug_send_connector u)) (\<lambda>c.
     Inr (u\<lparr>ug_send_connector := c, ug_server := None\<rparr>))"

text \<open>An error of the decoder: \<open>handler_servererror\<close> is called, which is the last thing the function does.\<close>

definition decoder_handler_error :: "UdpGwClient \<Rightarrow> UdpGwClient result" where
  "decoder_handler_error u = ASSERT (ug_have_server u) (Inr u)"

text \<open>
  The parts of \<open>recv_interface_handler_send\<close> before the connection is looked up: the header, the address and the remaining data, or
  \<open>None\<close> for a packet that is dropped.
\<close>

definition parse_header :: "bytes \<Rightarrow> (u8 \<times> u16 \<times> bytes) option result" where
  "parse_header data =
     (if length data < 3 then Inr None
      else andthen (mem_read data 0 3) (\<lambda>h. Inr (Some (ltoh8 (h ! 0), ltoh16 (u16_of_bytes (h ! 1) (h ! 2)), drop 3 data))))"

definition parse_remote :: "u8 \<Rightarrow> bytes \<Rightarrow> (BAddr \<times> bytes) option result" where
  "parse_remote flags data =
     (if flags AND UDPGW_CLIENT_FLAG_IPV6 \<noteq> 0
      then if length data < 18 then Inr None
           else andthen (mem_read data 0 18) (\<lambda>a. Inr (Some (BAddr_MakeIPv6 (take 16 a) (u16_of_bytes (a ! 16) (a ! 17)), drop 18 data)))
      else if length data < 6 then Inr None
           else andthen (mem_read data 0 6) (\<lambda>a.
             Inr (Some (BAddr_MakeIPv4 (u32_of_bytes (a ! 0) (a ! 1) (a ! 2) (a ! 3)) (u16_of_bytes (a ! 4) (a ! 5)), drop 6 data))))"

definition parse_packet :: "int \<Rightarrow> bytes \<Rightarrow> (u16 \<times> BAddr \<times> bytes) option result" where
  "parse_packet udp_mtu data =
     andthen (parse_header data) (\<lambda>h. case h of None \<Rightarrow> Inr None
     | Some (flags, conid, data) \<Rightarrow>
         andthen (parse_remote flags data) (\<lambda>a. case a of None \<Rightarrow> Inr None
         | Some (remote, data) \<Rightarrow> if int (length data) > udp_mtu then Inr None else Inr (Some (conid, remote, data))))"

text \<open>The second component is the call of \<open>handler_received\<close>: the local and the remote address and the data.\<close>

definition recv_interface_handler_send :: "UdpGwClient \<Rightarrow> bytes \<Rightarrow> (UdpGwClient \<times> (BAddr \<times> BAddr \<times> bytes) option) result option" where
  "recv_interface_handler_send u data =
     ASSERTR (ug_have_server u) (ASSERTR (int (length data) \<le> ug_udpgw_mtu u)
     (bindr (Some (PacketPassInterface_Done (ug_recv_if u))) (\<lambda>i.
      let u = u\<lparr>ug_recv_if := i\<rparr> in
      bindr (Some (parse_packet (ug_udp_mtu u) data)) (\<lambda>p. case p of None \<Rightarrow> Some (Inr (u, None))
      | Some (conid, remote, data) \<Rightarrow>
          bindr (find_connection_by_conid u conid) (\<lambda>q. case q of None \<Rightarrow> Some (Inr (u, None))
          | Some con \<Rightarrow>
              if BAddr_CompareOrder (ca_remote_addr (con_addr u con)) remote \<noteq> 0 then Some (Inr (u, None))
              else let u = to_back con u in
                Some (Inr (u, Some (ca_local_addr (con_addr u con), ca_remote_addr (con_addr u con), data))))))))"

text \<open>The build of the application defines \<^verbatim>\<open>PSIPHON\<close>: the handler of the inactivity monitor returns at once.\<close>

definition send_monitor_handler :: "UdpGwClient \<Rightarrow> UdpGwClient" where
  "send_monitor_handler u = u"

definition keepalive_if_handler_done :: "UdpGwClient \<Rightarrow> UdpGwClient result" where
  "keepalive_if_handler_done u = ASSERT (ug_keepalive_sending u) (Inr (u\<lparr>ug_keepalive_sending := False\<rparr>))"

subsection \<open>The operations of the client\<close>

text \<open>
  \<open>qflow\<close> is the address of the keepalive flow, \<open>mem\<close>, \<open>fmem\<close> and \<open>cmem\<close> the contents of the memory that is not initialised yet. \<open>None\<close> is the
  return value 0.
\<close>

definition UdpGwClient_Init :: "nat \<Rightarrow> (nat \<Rightarrow> BAVLNode) \<Rightarrow> (nat \<Rightarrow> PacketPassFairQueueFlow) \<Rightarrow> (nat \<Rightarrow> UdpGwClient_connection) \<Rightarrow>
    int \<Rightarrow> int \<Rightarrow> int \<Rightarrow> UdpGwClient option result" where
  "UdpGwClient_Init qflow mem fmem cmem udp_mtu max_connections send_buffer_size =
     ASSERT (udp_mtu \<ge> 0) (ASSERT (udpgw_compute_mtu udp_mtu \<ge> 0) (ASSERT (udpgw_compute_mtu udp_mtu \<le> PACKETPROTO_MAXPAYLOAD)
     (ASSERT (max_connections > 0) (ASSERT (send_buffer_size > 0)
     (let udpgw_mtu = udpgw_compute_mtu udp_mtu; pp_mtu = udpgw_mtu + 2 in
      andthen (PacketPassConnector_Init pp_mtu) (\<lambda>connector.
      andthen (PacketPassInactivityMonitor_Init (PacketPassConnector_GetInput connector) True) (\<lambda>monitor.
      let connector = connector\<lparr>ppc_input := pim_output monitor\<rparr> in
      andthen (PacketPassFairQueue_Init (pim_input monitor) False 1 fmem) (\<lambda>r.
      case r of None \<Rightarrow> Inr None
      | Some queue \<Rightarrow>
          let monitor = monitor\<lparr>pim_input := fq_output queue\<rparr> in
          andthen (PacketPassFairQueueFlow_Init queue qflow) (\<lambda>queue.
          andthen (PacketPassInterface_Sender_Init (fl_input (fq_flow queue qflow))) (\<lambda>i.
          Inr (Some \<lparr> ug_udp_mtu = udp_mtu,
                 ug_max_connections = (if max_connections > UINT16_MAX + 1 then UINT16_MAX + 1 else max_connections),
                 ug_send_buffer_size = send_buffer_size, ug_udpgw_mtu = udpgw_mtu, ug_pp_mtu = pp_mtu,
                 ug_tree_by_conaddr = BAVL_Init mem, ug_tree_by_conid = BAVL_Init mem, ug_connections_list = [], ug_num_connections = 0,
                 ug_next_conid = 0, ug_send_queue = upd_flow queue qflow (\<lambda>x. x\<lparr>fl_input := i\<rparr>), ug_send_monitor = monitor, ug_send_connector = connector,
                 ug_keepalive_packet = u16_bytes 3 @ udpgw_header UDPGW_CLIENT_FLAG_KEEPALIVE 0,
                 ug_keepalive_qflow = qflow, ug_keepalive_sending = False, ug_have_server = False, ug_server = None,
                 ug_recv_if = i, ug_con = cmem \<rparr>)))))))))))"

partial_function (option) free_connections :: "UdpGwClient \<Rightarrow> UdpGwClient result option" where
  "free_connections u =
     (case ug_connections_list u of [] \<Rightarrow> Some (Inr u)
      | con # _ \<Rightarrow>
          (case connection_free u con of None \<Rightarrow> None
           | Some r \<Rightarrow> (case r of Inl e \<Rightarrow> Some (Inl e) | Inr u \<Rightarrow> free_connections u)))"

definition UdpGwClient_Free :: "UdpGwClient \<Rightarrow> UdpGwClient result option" where
  "UdpGwClient_Free u =
     (let u = u\<lparr>ug_send_queue := PacketPassFairQueue_PrepareFree (ug_send_queue u)\<rparr> in
      bindr (free_connections u) (\<lambda>u.
      bindr (Some (if ug_have_server u then free_server u else Inr u)) (\<lambda>u.
      bindr (Some (PacketPassFairQueueFlow_Free (ug_send_queue u) (ug_keepalive_qflow u))) (\<lambda>queue.
      let u = u\<lparr>ug_send_queue := queue\<rparr> in
      bindr (Some (PacketPassFairQueue_Free (ug_send_queue u))) (\<lambda>_. Some (Inr u))))))"

definition UdpGwClient_SubmitPacket :: "(nat \<Rightarrow> bytes option) \<Rightarrow> nat option \<Rightarrow> UdpGwClient \<Rightarrow> BAddr \<Rightarrow> BAddr \<Rightarrow> bool \<Rightarrow> bytes \<Rightarrow> UdpGwClient result option" where
  "UdpGwClient_SubmitPacket alloc m u local_addr remote_addr is_dns data =
     ASSERTR (BAddr_type local_addr = 1 \<or> BAddr_type local_addr = 2)
     (ASSERTR (BAddr_type remote_addr = 1 \<or> BAddr_type remote_addr = 2)
     (ASSERTR (int (length data) \<le> ug_udp_mtu u)
     (let conaddr = \<lparr> ca_local_addr = local_addr, ca_remote_addr = remote_addr \<rparr> in
      bindr (find_connection_by_conaddr u conaddr) (\<lambda>con.
      let flags = (if is_dns then 0 OR UDPGW_CLIENT_FLAG_DNS else 0) in
      bindr (if con = None \<and> ug_num_connections u = ug_max_connections u
             then bindr (reuse_connection u conaddr) (\<lambda>(u, con). Some (Inr (u, Some con, flags OR UDPGW_CLIENT_FLAG_REBIND)))
             else Some (Inr (u, con, flags))) (\<lambda>(u, con, flags).
      case con of None \<Rightarrow> connection_init alloc m u conaddr flags data
      | Some con \<Rightarrow> Some (connection_send (to_back con u) con flags data))))))"

text \<open>\<open>None\<close> is the return value 0.\<close>

definition UdpGwClient_ConnectServer :: "(nat \<Rightarrow> bytes option) \<Rightarrow> UdpGwClient \<Rightarrow> int StreamPassInterface \<Rightarrow> int StreamRecvInterface \<Rightarrow> (UdpGwClient \<times> bool) result" where
  "UdpGwClient_ConnectServer alloc u send_if recv_if =
     ASSERT (\<not> ug_have_server u)
     (andthen (PacketPassInterface_Init (ug_udpgw_mtu u)) (\<lambda>i.
      andthen (PacketProtoDecoder_Init alloc recv_if i) (\<lambda>r. case r of None \<Rightarrow> Inr (u, False)
      | Some decoder \<Rightarrow>
          andthen (PacketStreamSender_Init send_if (ug_pp_mtu u)) (\<lambda>sender.
          andthen (PacketPassConnector_ConnectOutput (ug_send_connector u) (PacketStreamSender_GetInput sender)) (\<lambda>connector.
          Inr (u\<lparr>ug_recv_if := dec_output decoder, ug_send_connector := connector, ug_have_server := True,
                 ug_server := Some (sender, decoder)\<rparr>, True))))))"

definition UdpGwClient_DisconnectServer :: "UdpGwClient \<Rightarrow> UdpGwClient result" where
  "UdpGwClient_DisconnectServer u =
     ASSERT (ug_have_server u) (andthen (free_server u) (\<lambda>u. Inr (u\<lparr>ug_have_server := False\<rparr>)))"

end
