(* ===== verification/Udpgw_Table.thy ===== *)
theory Udpgw_Table
  imports Udpgw_Client
begin

section \<open>The connection table of the udpgw client\<close>

text \<open>
  The two search trees, the list and the counter of the client describe one table of connections; every operation keeps it, and ends.
\<close>

subsection \<open>The comparators\<close>

definition valid_conaddr :: "UdpGwClient_conaddr \<Rightarrow> bool" where
  "valid_conaddr a \<longleftrightarrow> is_ip_addr (ca_local_addr a) \<and> is_ip_addr (ca_remote_addr a)"

lemma B_COMPARE_range: "B_COMPARE a b = - 1 \<or> B_COMPARE a b = 0 \<or> B_COMPARE a b = 1"
  by (simp add: B_COMPARE_def)

lemma CompareOrder_range: "BAddr_CompareOrder a b = - 1 \<or> BAddr_CompareOrder a b = 0 \<or> BAddr_CompareOrder a b = 1"
  by (cases a; cases b) (auto simp: BAddr_CompareOrder_def B_COMPARE_def Let_def)

interpretation u16: tree_comparator uint16_comparator "\<lambda>_. True"
  unfolding uint16_comparator_def by (rule bcmp.tree_comparator_axioms)

interpretation conaddr: tree_comparator conaddr_comparator valid_conaddr
proof
  fix x y z :: UdpGwClient_conaddr
  show "valid_conaddr x \<Longrightarrow> conaddr_comparator x x = 0"
    by (simp add: conaddr_comparator_def valid_conaddr_def baddr.cmp_refl)
  show "valid_conaddr x \<Longrightarrow> valid_conaddr y \<Longrightarrow> conaddr_comparator x y = 0 \<Longrightarrow> x = y"
    using baddr.cmp_eq [of "ca_remote_addr x" "ca_remote_addr y"] baddr.cmp_eq [of "ca_local_addr x" "ca_local_addr y"]
    by (auto simp: conaddr_comparator_def valid_conaddr_def Let_def split: if_splits)
  show "valid_conaddr x \<Longrightarrow> valid_conaddr y \<Longrightarrow> (0 < conaddr_comparator x y) = (conaddr_comparator y x < 0)"
    using baddr.cmp_antisym [of "ca_remote_addr x" "ca_remote_addr y"] baddr.cmp_antisym [of "ca_remote_addr y" "ca_remote_addr x"]
      baddr.cmp_antisym [of "ca_local_addr x" "ca_local_addr y"]
    by (auto simp: conaddr_comparator_def valid_conaddr_def Let_def)
  show "conaddr_comparator x z < 0" if v: "valid_conaddr x" "valid_conaddr y" "valid_conaddr z" and xy: "conaddr_comparator x y < 0" and yz: "conaddr_comparator y z < 0"
  proof -
    note ip = v [unfolded valid_conaddr_def]
    consider "BAddr_CompareOrder (ca_remote_addr x) (ca_remote_addr y) < 0" "BAddr_CompareOrder (ca_remote_addr y) (ca_remote_addr z) < 0"
      | "BAddr_CompareOrder (ca_remote_addr x) (ca_remote_addr y) < 0" "ca_remote_addr y = ca_remote_addr z"
      | "ca_remote_addr x = ca_remote_addr y" "BAddr_CompareOrder (ca_remote_addr y) (ca_remote_addr z) < 0"
      | "ca_remote_addr x = ca_remote_addr y" "ca_remote_addr y = ca_remote_addr z"
        "BAddr_CompareOrder (ca_local_addr x) (ca_local_addr y) < 0" "BAddr_CompareOrder (ca_local_addr y) (ca_local_addr z) < 0"
      using xy yz ip baddr.cmp_eq [of "ca_remote_addr x" "ca_remote_addr y"] baddr.cmp_eq [of "ca_remote_addr y" "ca_remote_addr z"]
      by (auto simp: conaddr_comparator_def Let_def split: if_splits)
    then show ?thesis
    proof cases
      case 1
      then have "BAddr_CompareOrder (ca_remote_addr x) (ca_remote_addr z) < 0" using baddr.cmp_trans ip by blast
      then show ?thesis by (simp add: conaddr_comparator_def)
    next
      case 2
      then show ?thesis by (simp add: conaddr_comparator_def)
    next
      case 3
      then show ?thesis by (simp add: conaddr_comparator_def)
    next
      case 4
      then have "BAddr_CompareOrder (ca_local_addr x) (ca_local_addr z) < 0" using baddr.cmp_trans ip by blast
      then show ?thesis using 4(1,2) baddr.cmp_refl ip by (simp add: conaddr_comparator_def)
    qed
  qed
  show "conaddr_comparator x y = - 1 \<or> conaddr_comparator x y = 0 \<or> conaddr_comparator x y = 1"
    using CompareOrder_range [of "ca_remote_addr x" "ca_remote_addr y"] CompareOrder_range [of "ca_local_addr x" "ca_local_addr y"]
    by (auto simp: conaddr_comparator_def Let_def)
qed

subsection \<open>The table\<close>

definition table_ok :: "UdpGwClient \<Rightarrow> bool" where
  "table_ok u \<longleftrightarrow>
     indexed conaddr_comparator valid_conaddr (con_addr u) (ug_tree_by_conaddr u) (set (ug_connections_list u)) \<and>
     indexed uint16_comparator (\<lambda>_. True) (con_id u) (ug_tree_by_conid u) (set (ug_connections_list u)) \<and>
     distinct (ug_connections_list u) \<and> ug_num_connections u = int (length (ug_connections_list u)) \<and>
     ug_num_connections u \<le> ug_max_connections u \<and> 0 < ug_max_connections u \<and> ug_max_connections u \<le> 65536 \<and>
     0 \<le> ug_next_conid u \<and> ug_next_conid u < ug_max_connections u \<and>
     (\<forall>c\<in>set (ug_connections_list u). int (unat (con_id u c)) < ug_max_connections u)"

lemma find_by_conaddr_ok:
  assumes "table_ok u" "valid_conaddr a"
  obtains q where "find_connection_by_conaddr u a = Some (Inr q)" "\<And>c. q = Some c \<longleftrightarrow> c \<in> set (ug_connections_list u) \<and> con_addr u c = a"
  using conaddr.indexed_lookup [of "con_addr u" "ug_tree_by_conaddr u" "set (ug_connections_list u)" a] assms
  unfolding table_ok_def find_connection_by_conaddr_def by blast

lemma find_by_conid_ok:
  assumes "table_ok u"
  obtains q where "find_connection_by_conid u i = Some (Inr q)" "\<And>c. q = Some c \<longleftrightarrow> c \<in> set (ug_connections_list u) \<and> con_id u c = i"
  using u16.indexed_lookup [of "con_id u" "ug_tree_by_conid u" "set (ug_connections_list u)" i] assms
  unfolding table_ok_def find_connection_by_conid_def by blast

text \<open>The loop that looks for an identifier goes around the identifiers, and one of them is free.\<close>

definition unused :: "UdpGwClient \<Rightarrow> int \<Rightarrow> bool" where
  "unused u i \<longleftrightarrow> (\<forall>c\<in>set (ug_connections_list u). con_id u c \<noteq> of_int i)"

lemma next_conid_simps [simp]:
  "find_connection_by_conid (u\<lparr>ug_next_conid := i\<rparr>) = find_connection_by_conid u" "unused (u\<lparr>ug_next_conid := i\<rparr>) = unused u"
  "con_addr (u\<lparr>ug_next_conid := i\<rparr>) = con_addr u" "con_id (u\<lparr>ug_next_conid := i\<rparr>) = con_id u"
  by (auto simp: find_connection_by_conid_def con_id_def con_addr_def unused_def fun_eq_iff)

lemma table_next: "table_ok u \<Longrightarrow> 0 \<le> i \<Longrightarrow> i < ug_max_connections u \<Longrightarrow> table_ok (u\<lparr>ug_next_conid := i\<rparr>)"
  by (simp add: table_ok_def)

lemma find_unused_loop_ends:
  assumes "table_ok u" "unused u ((ug_next_conid u + int k) mod ug_max_connections u)"
  shows "\<exists>i. find_unused_loop u = Some (Inr (u\<lparr>ug_next_conid := i\<rparr>, of_int i)) \<and> 0 \<le> i \<and> i < ug_max_connections u \<and> unused u i"
  using assms
proof (induction k arbitrary: u)
  case 0
  let ?n = "ug_next_conid u"
  have n: "0 \<le> ?n" "?n < ug_max_connections u" using 0(1) by (auto simp: table_ok_def)
  then have "unused u ?n" using 0(2) by simp
  obtain q where q: "find_connection_by_conid u (of_int ?n) = Some (Inr q)" "\<And>c. q = Some c \<longleftrightarrow> c \<in> set (ug_connections_list u) \<and> con_id u c = of_int ?n"
    using find_by_conid_ok [OF 0(1)] by blast
  have "q = None" using q(2) \<open>unused u ?n\<close> by (cases q) (auto simp: unused_def)
  then have "find_unused_loop u = Some (Inr (u, of_int ?n))" using q(1) by (subst find_unused_loop.simps) simp
  then show ?case using n \<open>unused u ?n\<close> by (intro exI [of _ ?n]) simp
next
  case (Suc k)
  let ?n = "ug_next_conid u" and ?m = "ug_max_connections u"
  let ?n' = "if ?n = ?m - 1 then 0 else ?n + 1"
  have n: "0 \<le> ?n" "?n < ?m" using Suc.prems(1) by (auto simp: table_ok_def)
  obtain q where q: "find_connection_by_conid u (of_int ?n) = Some (Inr q)" "\<And>c. q = Some c \<longleftrightarrow> c \<in> set (ug_connections_list u) \<and> con_id u c = of_int ?n"
    using find_by_conid_ok [OF Suc.prems(1)] by blast
  show ?case
  proof (cases q)
    case None
    then have "find_unused_loop u = Some (Inr (u, of_int ?n))" using q(1) by (subst find_unused_loop.simps) simp
    moreover have "unused u ?n" using q(2) None by (auto simp: unused_def)
    ultimately show ?thesis using n by (intro exI [of _ ?n]) simp
  next
    case (Some c)
    have run: "find_unused_loop u = find_unused_loop (u\<lparr>ug_next_conid := ?n'\<rparr>)" using q(1) Some by (subst find_unused_loop.simps) simp
    have "?n' = (?n + 1) mod ?m" using n by auto
    then have "(?n' + int k) mod ?m = (?n + int (Suc k)) mod ?m" by (simp add: mod_simps ac_simps)
    then have "unused (u\<lparr>ug_next_conid := ?n'\<rparr>) ((ug_next_conid (u\<lparr>ug_next_conid := ?n'\<rparr>) + int k) mod ug_max_connections (u\<lparr>ug_next_conid := ?n'\<rparr>))"
      using Suc.prems(2) by simp
    then show ?thesis using Suc.IH [of "u\<lparr>ug_next_conid := ?n'\<rparr>"] table_next [OF Suc.prems(1), of ?n'] n unfolding run by auto
  qed
qed

lemma some_unused:
  assumes "table_ok u" "ug_num_connections u < ug_max_connections u"
  shows "\<exists>i. 0 \<le> i \<and> i < ug_max_connections u \<and> unused u i"
proof (rule ccontr)
  assume no: "\<not> ?thesis"
  let ?L = "ug_connections_list u" and ?m = "ug_max_connections u"
  have m: "?m \<le> 65536" "int (length ?L) < ?m" using assms by (auto simp: table_ok_def)
  have "{0..<?m} \<subseteq> (\<lambda>c. uint (con_id u c)) ` set ?L"
  proof
    fix i assume i: "i \<in> {0..<?m}"
    then obtain c where "c \<in> set ?L" "con_id u c = of_int i" using no by (auto simp: unused_def)
    moreover then have "uint (con_id u c) = i" using i m(1) by (simp add: uint_word_of_int take_bit_int_eq_self)
    ultimately show "i \<in> (\<lambda>c. uint (con_id u c)) ` set ?L" by force
  qed
  then have "card {0..<?m} \<le> card (set ?L)" by (meson List.finite_set card_mono card_image_le finite_imageI le_trans)
  then show False using m card_length [of ?L] by simp
qed

lemma find_unused_conid_ok:
  assumes T: "table_ok u" and room: "ug_num_connections u < ug_max_connections u"
  obtains i where "find_unused_conid u = Some (Inr (u\<lparr>ug_next_conid := i\<rparr>, of_int i))" "0 \<le> i" "i < ug_max_connections u" "unused u i"
proof -
  obtain i where i: "0 \<le> i" "i < ug_max_connections u" "unused u i" using some_unused [OF assms] by blast
  have n: "0 \<le> ug_next_conid u" "ug_next_conid u < ug_max_connections u" using T by (auto simp: table_ok_def)
  define k where "k = nat ((i - ug_next_conid u) mod ug_max_connections u)"
  have "(ug_next_conid u + int k) mod ug_max_connections u = i" using i n by (simp add: k_def mod_simps)
  then show ?thesis using find_unused_loop_ends [OF T, of k] i that room by (auto simp: find_unused_conid_def)
qed

lemma insert_by_conaddr_ok:
  assumes "indexed conaddr_comparator valid_conaddr (con_addr u) (ug_tree_by_conaddr u) S" "c \<notin> S" "valid_conaddr (con_addr u c)" "con_addr u c \<notin> con_addr u ` S"
  obtains t where "insert_by_conaddr u c = Some (Inr (u\<lparr>ug_tree_by_conaddr := t\<rparr>))" "indexed conaddr_comparator valid_conaddr (con_addr u) t (insert c S)"
  using conaddr.indexed_insert [OF assms(1-3)] assms(4) by (auto simp: insert_by_conaddr_def)

lemma insert_by_conid_ok:
  assumes "indexed uint16_comparator (\<lambda>_. True) (con_id u) (ug_tree_by_conid u) S" "c \<notin> S" "con_id u c \<notin> con_id u ` S"
  obtains t where "insert_by_conid u c = Some (Inr (u\<lparr>ug_tree_by_conid := t\<rparr>))" "indexed uint16_comparator (\<lambda>_. True) (con_id u) t (insert c S)"
  using u16.indexed_insert [OF assms(1,2) TrueI] assms(3) by (auto simp: insert_by_conid_def)

lemma indexed_addr_cong: "(\<And>c. c \<in> S \<Longrightarrow> con_addr u' c = con_addr u c) \<Longrightarrow>
    indexed conaddr_comparator valid_conaddr (con_addr u') t S = indexed conaddr_comparator valid_conaddr (con_addr u) t S"
  by (rule indexed_cong)

lemma indexed_id_cong: "(\<And>c. c \<in> S \<Longrightarrow> con_id u' c = con_id u c) \<Longrightarrow>
    indexed uint16_comparator (\<lambda>_. True) (con_id u') t S = indexed uint16_comparator (\<lambda>_. True) (con_id u) t S"
  by (rule indexed_cong)

text \<open>What the table does not look at.\<close>

lemma table_cong:
  assumes "table_ok u" "ug_tree_by_conaddr u' = ug_tree_by_conaddr u" "ug_tree_by_conid u' = ug_tree_by_conid u" "ug_connections_list u' = ug_connections_list u"
    "ug_num_connections u' = ug_num_connections u" "ug_max_connections u' = ug_max_connections u" "ug_next_conid u' = ug_next_conid u"
    "\<And>c. c \<in> set (ug_connections_list u) \<Longrightarrow> con_addr u' c = con_addr u c \<and> con_id u' c = con_id u c"
  shows "table_ok u'"
  using assms(1) indexed_addr_cong [of "set (ug_connections_list u)" u' u] indexed_id_cong [of "set (ug_connections_list u)" u' u] assms(8)
  unfolding table_ok_def assms(2-7) by auto

lemma set_remove1_back: "c \<in> set xs \<Longrightarrow> set (remove1 c xs @ [c]) = set xs"
  by (induction xs) auto

lemma to_back_simps [simp]:
  "ug_con (to_back c u) = ug_con u" "con_addr (to_back c u) = con_addr u" "con_id (to_back c u) = con_id u"
  "ug_connections_list (to_back c u) = remove1 c (ug_connections_list u) @ [c]"
  by (auto simp: to_back_def con_addr_def con_id_def fun_eq_iff)

lemma table_to_back:
  assumes "table_ok u" "c \<in> set (ug_connections_list u)"
  shows "table_ok (to_back c u)"
proof -
  obtain n where n: "length (ug_connections_list u) = Suc n" using assms(2) by (cases "ug_connections_list u") auto
  have len: "int (length (remove1 c (ug_connections_list u))) + 1 = int (length (ug_connections_list u))"
    using assms(2) by (simp add: length_remove1 n)
  have set: "set (remove1 c (ug_connections_list u) @ [c]) = set (ug_connections_list u)" by (rule set_remove1_back [OF assms(2)])
  have "distinct (remove1 c (ug_connections_list u) @ [c])" using assms(1) by (simp add: table_ok_def)
  moreover have "int (length (remove1 c (ug_connections_list u) @ [c])) = int (length (ug_connections_list u))" using len by simp
  ultimately show ?thesis using assms(1) set unfolding table_ok_def to_back_simps by (simp add: to_back_def del: set_append length_append distinct_append)
qed

subsection \<open>Writing a packet\<close>

text \<open>
  What the client relies on of the writer of a connection's flow: when the writer has room for a packet, the room is in the memory of the packet buffer and
  the interface behind it waits for the packet.
\<close>

definition writer_ok :: "int \<Rightarrow> PacketProtoFlow \<Rightarrow> bool" where
  "writer_ok mtu f \<longleftrightarrow>
     (let w = ppf_ainput f; i = bw_recv_interface w in
      \<not> bw_d_writing w \<and> bw_d_mtu w = mtu \<and>
      (bw_out_have w \<longrightarrow> pri_state i = STATE_BUSY \<and> pri_mtu i = mtu \<and>
         (\<exists>off. bw_out w = Some off \<and> 0 \<le> off \<and> off + mtu \<le> int (length (cb_buffer (pb_buf (ppf_buffer f)))))))"

definition udpgw_packet :: "u8 \<Rightarrow> u16 \<Rightarrow> BAddr \<Rightarrow> bytes \<Rightarrow> bytes" where
  "udpgw_packet flags conid remote data = udpgw_header (ltoh8 (send_flags remote flags)) (ltoh16 conid) @ addr_bytes remote @ data"

lemma addr_bytes_length: "is_ip_addr a \<Longrightarrow> length (addr_bytes a) \<le> 18"
  by (cases a) (auto simp: addr_bytes_def udpgw_addr_ipv4_def udpgw_addr_ipv6_def u32_bytes_def u16_bytes_def is_ip_addr_def)

lemma header_length [simp]: "length (udpgw_header f i) = 3"
  by (simp add: udpgw_header_def u16_bytes_def)

lemma udpgw_packet_length: "is_ip_addr a \<Longrightarrow> length (udpgw_packet f i a d) \<le> 21 + length d"
  using addr_bytes_length [of a] by (simp add: udpgw_packet_def)

lemma mem_write_append:
  assumes "off + length a + length b \<le> length m"
  shows "andthen (mem_write m off a) (\<lambda>m. mem_write m (off + length a) b) = mem_write m off (a @ b)"
  using assms by (simp add: mem_write_def ac_simps)

text \<open>The flow after a packet has been written.\<close>

definition flow_wrote :: "PacketProtoFlow \<Rightarrow> nat \<Rightarrow> bytes \<Rightarrow> PacketProtoFlow" where
  "flow_wrote f off p =
     (let w = ppf_ainput f; m = cb_buffer (pb_buf (ppf_buffer f));
          i = (bw_recv_interface w)\<lparr>pri_job_done_len := int (length p), pri_job_done := True, pri_state := STATE_DONE_PENDING\<rparr> in
      f\<lparr>ppf_ainput := w\<lparr>bw_out_have := False, bw_recv_interface := i, bw_d_writing := False\<rparr>,
        ppf_buffer := (ppf_buffer f)\<lparr>pb_buf := (pb_buf (ppf_buffer f))\<lparr>cb_buffer := take off m @ p @ drop (off + length p) m\<rparr>\<rparr>\<rparr>)"

lemma connection_send_ok:
  assumes w: "writer_ok (ug_udp_mtu u + 21) (uc_send_ppflow (ug_con u c))" and ip: "is_ip_addr (ca_remote_addr (con_addr u c))"
    and len: "int (length data) \<le> ug_udp_mtu u"
  shows "\<exists>f'. connection_send u c flags data = Inr (upd_con u c (\<lambda>x. x\<lparr>uc_send_ppflow := f'\<rparr>)) \<and> writer_ok (ug_udp_mtu u + 21) f' \<and>
    (let f = uc_send_ppflow (ug_con u c); w = ppf_ainput f in
     if bw_out_have w then f' = flow_wrote f (nat (the (bw_out w))) (udpgw_packet flags (con_id u c) (ca_remote_addr (con_addr u c)) data)
     else f' = f)"
proof -
  define f where "f = uc_send_ppflow (ug_con u c)"
  define wr where "wr = ppf_ainput f"
  define mem where "mem = cb_buffer (pb_buf (ppf_buffer f))"
  let ?remote = "ca_remote_addr (con_addr u c)"
  let ?p = "udpgw_packet flags (con_id u c) ?remote data"
  have W: "\<not> bw_d_writing wr" "bw_d_mtu wr = ug_udp_mtu u + 21" using w by (auto simp: writer_ok_def f_def wr_def Let_def)
  show ?thesis
  proof (cases "bw_out_have wr")
    case False
    have "connection_send u c flags data = Inr u"
      using W False len by (simp add: connection_send_def PacketProtoFlow_GetInput_def BufferWriter_StartPacket_def f_def wr_def)
    moreover have "upd_con u c (\<lambda>x. x\<lparr>uc_send_ppflow := f\<rparr>) = u" by (simp add: f_def)
    ultimately show ?thesis using w False by (intro exI [of _ f]) (simp add: f_def wr_def)
  next
    case True
    then obtain off where off: "bw_out wr = Some off" "0 \<le> off" "off + (ug_udp_mtu u + 21) \<le> int (length mem)"
      and i: "pri_state (bw_recv_interface wr) = STATE_BUSY" "pri_mtu (bw_recv_interface wr) = ug_udp_mtu u + 21"
      using w by (auto simp: writer_ok_def f_def wr_def mem_def Let_def)
    let ?h = "udpgw_header (ltoh8 (send_flags ?remote flags)) (ltoh16 (con_id u c))" and ?a = "addr_bytes ?remote"
    have plen: "int (length ?p) \<le> ug_udp_mtu u + 21" using udpgw_packet_length [OF ip, of flags "con_id u c" data] len by simp
    then have fit: "nat off + length ?p \<le> length mem" using off by linarith
    have lens: "length ?p = length ?h + length ?a + length data" by (simp add: udpgw_packet_def)
    have wr_all: "andthen (mem_write mem (nat off) ?h) (\<lambda>m. andthen (mem_write m (nat off + length ?h) ?a) (\<lambda>m. mem_write m (nat off + (length ?h + length ?a)) data)) =
      Inr (take (nat off) mem @ ?p @ drop (nat off + length ?p) mem)"
      using fit unfolding lens by (simp add: mem_write_def udpgw_packet_def) (simp add: ac_simps)
    then obtain m1 m2 where M: "mem_write mem (nat off) ?h = Inr m1" "mem_write m1 (nat off + length ?h) ?a = Inr m2"
      "mem_write m2 (nat off + (length ?h + length ?a)) data = Inr (take (nat off) mem @ ?p @ drop (nat off + length ?p) mem)"
      unfolding andthen_eq_Inr by blast
    have fin: "BufferWriter_EndPacket (wr\<lparr>bw_d_writing := True\<rparr>) (int (length ?p)) =
      Inr (wr\<lparr>bw_out_have := False, bw_recv_interface := (bw_recv_interface wr)\<lparr>pri_job_done_len := int (length ?p), pri_job_done := True, pri_state := STATE_DONE_PENDING\<rparr>, bw_d_writing := False\<rparr>)"
      using plen W True i by (simp add: BufferWriter_EndPacket_def PacketRecvInterface_Done_def)
    have start: "BufferWriter_StartPacket (PacketProtoFlow_GetInput f) = Inr (wr\<lparr>bw_d_writing := True\<rparr>, Some (Some off))"
      using W True off by (simp add: BufferWriter_StartPacket_def PacketProtoFlow_GetInput_def wr_def)
    have fin': "BufferWriter_EndPacket (wr\<lparr>bw_d_writing := True\<rparr>) (int (length ?h + length ?a + length data)) =
      Inr (wr\<lparr>bw_out_have := False, bw_recv_interface := (bw_recv_interface wr)\<lparr>pri_job_done_len := int (length ?p), pri_job_done := True, pri_state := STATE_DONE_PENDING\<rparr>, bw_d_writing := False\<rparr>)"
      using fin unfolding lens .
    have "connection_send u c flags data = Inr (upd_con u c (\<lambda>x. x\<lparr>uc_send_ppflow := flow_wrote f (nat off) ?p\<rparr>))"
      unfolding connection_send_def Let_def f_def [symmetric] start
      using len M fin'
      by (simp add: con_addr_def [symmetric] con_id_def [symmetric] mem_def [symmetric] flow_wrote_def Let_def wr_def [symmetric] del: header_length)
    moreover have "writer_ok (ug_udp_mtu u + 21) (flow_wrote f (nat off) ?p)" using W by (simp add: writer_ok_def flow_wrote_def wr_def Let_def)
    ultimately show ?thesis using True off by (intro exI [of _ "flow_wrote f (nat off) ?p"]) (simp add: f_def wr_def Let_def)
  qed
qed

subsection \<open>The invariant of the client\<close>

definition conf_ok :: "UdpGwClient \<Rightarrow> bool" where
  "conf_ok u \<longleftrightarrow> 0 \<le> ug_udp_mtu u \<and> ug_udpgw_mtu u = ug_udp_mtu u + 21 \<and> ug_udpgw_mtu u \<le> PACKETPROTO_MAXPAYLOAD \<and> ug_pp_mtu u = ug_udpgw_mtu u + 2 \<and>
     0 < ug_send_buffer_size u \<and> 4 * ChunkBuffer2_calc_blocks (ug_pp_mtu u) (ug_send_buffer_size u) \<le> INT_MAX"

definition con_ok :: "UdpGwClient \<Rightarrow> nat \<Rightarrow> bool" where
  "con_ok u c \<longleftrightarrow> writer_ok (ug_udp_mtu u + 21) (uc_send_ppflow (ug_con u c)) \<and> int (length (uc_first_data (ug_con u c))) \<le> ug_udp_mtu u"

definition queue_ok :: "UdpGwClient \<Rightarrow> bool" where
  "queue_ok u \<longleftrightarrow> fq_inv (ug_send_queue u) \<and> ppi_mtu (fq_output (ug_send_queue u)) = ug_pp_mtu u \<and>
     set (fq_flows_list (ug_send_queue u)) = insert (ug_keepalive_qflow u) (set (ug_connections_list u)) \<and> ug_keepalive_qflow u \<notin> set (ug_connections_list u)"

definition server_ok :: "UdpGwClient \<Rightarrow> bool" where
  "server_ok u \<longleftrightarrow> ppc_inv (ug_send_connector u) \<and> ppc_input_mtu (ug_send_connector u) = ug_pp_mtu u \<and>
     (ug_have_server u \<longleftrightarrow> ppc_output (ug_send_connector u) \<noteq> None) \<and> \<not> ug_keepalive_sending u"

definition ug_inv :: "UdpGwClient \<Rightarrow> bool" where
  "ug_inv u \<longleftrightarrow> table_ok u \<and> conf_ok u \<and> (\<forall>c\<in>set (ug_connections_list u). con_ok u c) \<and> queue_ok u \<and> server_ok u"

text \<open>What the connections of two states have in common.\<close>

definition same_cons :: "UdpGwClient \<Rightarrow> UdpGwClient \<Rightarrow> nat set \<Rightarrow> bool" where
  "same_cons u u' S \<longleftrightarrow> (\<forall>c\<in>S. ug_con u' c = ug_con u c)"

definition same_conf :: "UdpGwClient \<Rightarrow> UdpGwClient \<Rightarrow> bool" where
  "same_conf u u' \<longleftrightarrow> ug_udp_mtu u' = ug_udp_mtu u \<and> ug_max_connections u' = ug_max_connections u \<and> ug_send_buffer_size u' = ug_send_buffer_size u \<and>
     ug_udpgw_mtu u' = ug_udpgw_mtu u \<and> ug_pp_mtu u' = ug_pp_mtu u \<and> ug_keepalive_qflow u' = ug_keepalive_qflow u \<and>
     ug_send_connector u' = ug_send_connector u \<and> ug_have_server u' = ug_have_server u \<and> ug_keepalive_sending u' = ug_keepalive_sending u"

lemma same_conf_ok: "same_conf u u' \<Longrightarrow> conf_ok u' = conf_ok u" "same_conf u u' \<Longrightarrow> server_ok u' = server_ok u"
  by (auto simp: same_conf_def conf_ok_def server_ok_def)

lemma same_cons_ok: "same_cons u u' S \<Longrightarrow> same_conf u u' \<Longrightarrow> c \<in> S \<Longrightarrow> con_ok u' c = con_ok u c \<and> con_addr u' c = con_addr u c \<and> con_id u' c = con_id u c"
  by (simp add: same_cons_def same_conf_def con_ok_def con_addr_def con_id_def)

lemma flow_init_ok:
  assumes inv: "fq_inv q" and c: "c \<notin> set (fq_flows_list q)"
  shows "\<exists>q' i. PacketPassFairQueueFlow_Init q c = Inr q' \<and> fq_inv q' \<and> fq_flows_list q' = fq_flows_list q @ [c] \<and> ppi_mtu (fq_output q') = ppi_mtu (fq_output q) \<and>
    PacketPassInterface_Init (ppi_mtu (fq_output q)) = Inr i \<and> fl_input (fq_flow q' c) = i \<and> fq_sending_flow q' \<noteq> Some c"
proof -
  obtain q' where q': "PacketPassFairQueueFlow_Init q c = Inr q'" "fq_inv q'" using PacketPassFairQueueFlow_Init_inv [OF assms] by blast
  have "fq_sending_flow q \<noteq> Some c" using inv c by (auto simp: fq_inv_def fq_sending_ok_def)
  then show ?thesis using q' by (auto simp: PacketPassFairQueueFlow_Init_def PacketPassInterface_GetMTU_def result_simps)
qed

lemma ppi_Init_fields: "PacketPassInterface_Init mtu = Inr i \<Longrightarrow> ppi_inv i \<and> ppi_mtu i = mtu \<and> ppi_state i = STATE_NONE \<and> \<not> ppi_handler_done i"
  by (auto simp: PacketPassInterface_Init_def result_simps ppi_inv_def)

text \<open>There is memory for the packet buffer of a flow.\<close>

definition flow_memory :: "(nat \<Rightarrow> bytes option) \<Rightarrow> int \<Rightarrow> int \<Rightarrow> bool" where
  "flow_memory alloc mtu num \<longleftrightarrow> 0 \<le> ChunkBuffer2_calc_blocks (mtu + 2) num \<and> alloc (4 * nat (ChunkBuffer2_calc_blocks (mtu + 2) num)) \<noteq> None"

lemma PacketBuffer_Init_memory:
  assumes "PacketBuffer_Init alloc i j num = Inr r" "pri_mtu i = mtu + 2"
  shows "r \<noteq> None \<longleftrightarrow> flow_memory alloc mtu num"
  using assms by (auto simp: PacketBuffer_Init_def PacketRecvInterface_Receiver_Init_def PacketRecvInterface_GetMTU_def flow_memory_def result_simps Let_def split: if_splits option.splits)

lemma PacketProtoFlow_Init_ok:
  assumes mtu: "0 \<le> mtu" "mtu \<le> PACKETPROTO_MAXPAYLOAD" and num: "0 < num" and i: "PacketPassInterface_Init (mtu + 2) = Inr i"
    and alloc: "\<And>n b. alloc n = Some b \<Longrightarrow> length b = n" and small: "4 * ChunkBuffer2_calc_blocks (mtu + 2) num \<le> INT_MAX"
  shows "\<not> flow_memory alloc mtu num \<and> PacketProtoFlow_Init alloc mtu num i = Inr None \<or>
    (\<exists>f. flow_memory alloc mtu num \<and> PacketProtoFlow_Init alloc mtu num i = Inr (Some f) \<and> writer_ok mtu f \<and> PacketPassInterface_Sender_Init i = Inr (pb_output (ppf_buffer f)))"
proof -
  obtain j :: "int PacketRecvInterface" where j: "PacketRecvInterface_Init mtu = Inr j" using mtu(1) by (simp add: PacketRecvInterface_Init_def)
  have jf: "pri_mtu j = mtu" "\<not> pri_handler_done j" using j by (auto simp: PacketRecvInterface_Init_def result_simps)
  define w where "w = \<lparr> bw_recv_interface = j, bw_out_have = False, bw_out = None, bw_d_mtu = mtu, bw_d_writing = False \<rparr>"
  have w: "BufferWriter_Init mtu = Inr w" "\<not> bw_d_writing w" "bw_d_mtu w = mtu" "\<not> bw_out_have w" "PacketRecvInterface_Init mtu = Inr (bw_recv_interface w)"
    using mtu(1) j by (simp_all add: BufferWriter_Init_def w_def)
  obtain k :: "int PacketRecvInterface" where k: "PacketRecvInterface_Init (mtu + 2) = Inr k" using mtu(1) by (simp add: PacketRecvInterface_Init_def)
  define e where "e = \<lparr> enc_input = j\<lparr>pri_handler_done := True\<rparr>, enc_output = k, enc_output_packet = None \<rparr>"
  have e: "PacketProtoEncoder_Init (BufferWriter_GetOutput w) = Inr e" "PacketRecvInterface_Init (mtu + 2) = Inr (enc_output e)"
    using jf mtu k by (simp_all add: PacketProtoEncoder_Init_def BufferWriter_GetOutput_def PacketRecvInterface_GetMTU_def
        PacketRecvInterface_Receiver_Init_def PACKETPROTO_ENCLEN_def add.commute w_def e_def)
  have mt: "pri_mtu (enc_output e) = mtu + 2" using k by (auto simp: e_def PacketRecvInterface_Init_def result_simps)
  note init = PacketBuffer_Init_cases [OF e(2) i order_refl num alloc small]
  have fields: "ppi_mtu i = mtu + 2" using ppi_Init_fields [OF i] by blast
  have run: "PacketProtoFlow_Init alloc mtu num i = andthen (PacketBuffer_Init alloc (enc_output e) i num) (\<lambda>r.
      case r of None \<Rightarrow> Inr None
      | Some buffer \<Rightarrow> Inr (Some \<lparr> ppf_ainput = w\<lparr>bw_recv_interface := enc_input e\<rparr>, ppf_encoder = e\<lparr>enc_output := pb_input buffer\<rparr>, ppf_buffer = buffer \<rparr>))"
    using mtu num w(1) e(1) fields by (simp add: PacketProtoFlow_Init_def PacketPassInterface_GetMTU_def PACKETPROTO_ENCLEN_def)
  from init consider "PacketBuffer_Init alloc (enc_output e) i num = Inr None" | b where "PacketBuffer_Init alloc (enc_output e) i num = Inr (Some b)" by blast
  then show ?thesis
  proof cases
    case 1
    then show ?thesis using PacketBuffer_Init_memory [OF 1 mt] by (simp add: run)
  next
    case 2
    have "PacketPassInterface_Sender_Init i = Inr (pb_output b)"
      using 2 by (auto simp: PacketBuffer_Init_def PacketBuffer_recv_def result_simps Let_def split: if_splits option.splits)
    then show ?thesis using PacketBuffer_Init_memory [OF 2 mt] 2 w by (simp add: run writer_ok_def)
  qed
qed

end
