(* ===== verification/Udpgw_Relay.thy ===== *)
theory Udpgw_Relay
  imports Udpgw_Table
begin

section \<open>The operations of the udpgw client\<close>

text \<open>
  Every operation of the client keeps its invariant, ends and fails no assertion, in every history; the table of connections behaves as a bounded cache that
  gives up the entry that was not used for the longest time.
\<close>

subsection \<open>New connections\<close>

lemma con_fields_simps [simp]:
  "con_addr (u\<lparr>ug_tree_by_conaddr := t1\<rparr>) = con_addr u" "con_id (u\<lparr>ug_tree_by_conaddr := t1\<rparr>) = con_id u"
  "con_addr (u\<lparr>ug_tree_by_conid := t1\<rparr>) = con_addr u" "con_id (u\<lparr>ug_tree_by_conid := t1\<rparr>) = con_id u"
  "con_addr (u\<lparr>ug_connections_list := l\<rparr>) = con_addr u" "con_id (u\<lparr>ug_connections_list := l\<rparr>) = con_id u"
  "con_addr (u\<lparr>ug_num_connections := n\<rparr>) = con_addr u" "con_id (u\<lparr>ug_num_connections := n\<rparr>) = con_id u"
  "con_addr (u\<lparr>ug_send_queue := q\<rparr>) = con_addr u" "con_id (u\<lparr>ug_send_queue := q\<rparr>) = con_id u"
  by (auto simp: con_addr_def con_id_def fun_eq_iff)

lemma table_append:
  assumes T: "table_ok u" and c: "c \<notin> set (ug_connections_list u)" "valid_conaddr (con_addr u c)" "con_addr u c \<notin> con_addr u ` set (ug_connections_list u)"
    and i: "con_id u c = of_int i" "0 \<le> i" "i < ug_max_connections u" "unused u i" and room: "ug_num_connections u < ug_max_connections u"
  obtains t1 t2 where "insert_by_conaddr u c = Some (Inr (u\<lparr>ug_tree_by_conaddr := t1\<rparr>))"
    "insert_by_conid (u\<lparr>ug_tree_by_conaddr := t1\<rparr>) c = Some (Inr (u\<lparr>ug_tree_by_conaddr := t1, ug_tree_by_conid := t2\<rparr>))"
    "table_ok (u\<lparr>ug_tree_by_conaddr := t1, ug_tree_by_conid := t2, ug_connections_list := ug_connections_list u @ [c], ug_num_connections := ug_num_connections u + 1\<rparr>)"
proof -
  let ?S = "set (ug_connections_list u)"
  have X: "indexed conaddr_comparator valid_conaddr (con_addr u) (ug_tree_by_conaddr u) ?S" "indexed uint16_comparator (\<lambda>_. True) (con_id u) (ug_tree_by_conid u) ?S"
    using T by (auto simp: table_ok_def)
  obtain t1 where t1: "insert_by_conaddr u c = Some (Inr (u\<lparr>ug_tree_by_conaddr := t1\<rparr>))" "indexed conaddr_comparator valid_conaddr (con_addr u) t1 (insert c ?S)"
    using insert_by_conaddr_ok [OF X(1) c] by blast
  let ?u = "u\<lparr>ug_tree_by_conaddr := t1\<rparr>"
  have "con_id u c \<notin> con_id u ` ?S" using i(1,4) by (auto simp: unused_def)
  then obtain t2 where t2: "insert_by_conid ?u c = Some (Inr (?u\<lparr>ug_tree_by_conid := t2\<rparr>))" "indexed uint16_comparator (\<lambda>_. True) (con_id u) t2 (insert c ?S)"
    using insert_by_conid_ok [of ?u ?S c] X(2) c(1) by auto
  have "ug_max_connections u \<le> 65536" using T by (simp add: table_ok_def)
  then have "int (unat (con_id u c)) < ug_max_connections u" using i(1-3) by (simp add: unsigned_of_int take_bit_int_eq_self)
  then have "table_ok (u\<lparr>ug_tree_by_conaddr := t1, ug_tree_by_conid := t2, ug_connections_list := ug_connections_list u @ [c], ug_num_connections := ug_num_connections u + 1\<rparr>)"
    using T t1(2) t2(2) c(1) room by (auto simp: table_ok_def)
  then show ?thesis using that t1(1) t2(1) by simp
qed

lemma fq_sender_init_inv:
  assumes "fq_inv q" "c \<in> set (fq_flows_list q)" "PacketPassInterface_Sender_Init (fl_input (fq_flow q c)) = Inr i"
  shows "fq_inv (upd_flow q c (\<lambda>x. x\<lparr>fl_input := i\<rparr>))"
proof -
  have "ppi_inv (fl_input (fq_flow q c))" using assms(1,2) by (rule fq_flow_ppi)
  then show ?thesis using assms by (intro fq_flow_input_inv) (auto simp: PacketPassInterface_Sender_Init_def ppi_inv_def result_simps)
qed

lemma init_flow_ok:
  assumes T: "table_ok u" and conf: "conf_ok u" and cons: "\<And>d. d \<in> set (ug_connections_list u) \<Longrightarrow> con_ok u d" and Q: "queue_ok u" and V: "server_ok u"
    and c: "c \<notin> set (ug_connections_list u)" "c \<noteq> ug_keepalive_qflow u" "valid_conaddr (con_addr u c)" "con_addr u c \<notin> con_addr u ` set (ug_connections_list u)"
    and i: "con_id u c = of_int i" "0 \<le> i" "i < ug_max_connections u" "unused u i" and room: "ug_num_connections u < ug_max_connections u"
    and data: "int (length (uc_first_data (ug_con u c))) \<le> ug_udp_mtu u"
    and alloc: "\<And>n b. alloc n = Some b \<Longrightarrow> length b = n"
  shows "\<exists>u'. init_flow alloc u c = Some (Inr u') \<and> ug_inv u' \<and> same_conf u u' \<and> same_cons u u' (set (ug_connections_list u)) \<and>
    (\<not> flow_memory alloc (ug_udpgw_mtu u) (ug_send_buffer_size u) \<and> ug_connections_list u' = ug_connections_list u \<or>
     flow_memory alloc (ug_udpgw_mtu u) (ug_send_buffer_size u) \<and> ug_connections_list u' = ug_connections_list u @ [c] \<and>
       (\<exists>f. ug_con u' c = (ug_con u c)\<lparr>uc_send_ppflow := f\<rparr>))"
proof -
  have qi: "fq_inv (ug_send_queue u)" "ppi_mtu (fq_output (ug_send_queue u)) = ug_pp_mtu u" "c \<notin> set (fq_flows_list (ug_send_queue u))"
    "set (fq_flows_list (ug_send_queue u)) = insert (ug_keepalive_qflow u) (set (ug_connections_list u))" "ug_keepalive_qflow u \<notin> set (ug_connections_list u)"
    using Q c by (auto simp: queue_ok_def)
  obtain q pi where q: "PacketPassFairQueueFlow_Init (ug_send_queue u) c = Inr q" "fq_inv q" "fq_flows_list q = fq_flows_list (ug_send_queue u) @ [c]"
    "ppi_mtu (fq_output q) = ug_pp_mtu u" "PacketPassInterface_Init (ug_pp_mtu u) = Inr pi" "fl_input (fq_flow q c) = pi" "fq_sending_flow q \<noteq> Some c"
    using flow_init_ok [OF qi(1,3)] unfolding qi(2) by blast
  have C: "0 \<le> ug_udpgw_mtu u" "ug_udpgw_mtu u \<le> PACKETPROTO_MAXPAYLOAD" "0 < ug_send_buffer_size u" "ug_pp_mtu u = ug_udpgw_mtu u + 2" "ug_udpgw_mtu u = ug_udp_mtu u + 21"
    "4 * ChunkBuffer2_calc_blocks (ug_udpgw_mtu u + 2) (ug_send_buffer_size u) \<le> INT_MAX" using conf by (auto simp: conf_ok_def)
  have cq: "c \<in> set (fq_flows_list q)" unfolding q(3) by simp
  let ?M = "flow_memory alloc (ug_udpgw_mtu u) (ug_send_buffer_size u)"
  have "\<not> ?M \<and> PacketProtoFlow_Init alloc (ug_udpgw_mtu u) (ug_send_buffer_size u) pi = Inr None \<or>
      (\<exists>f. ?M \<and> PacketProtoFlow_Init alloc (ug_udpgw_mtu u) (ug_send_buffer_size u) pi = Inr (Some f) \<and> writer_ok (ug_udpgw_mtu u) f \<and> PacketPassInterface_Sender_Init pi = Inr (pb_output (ppf_buffer f)))"
    by (rule PacketProtoFlow_Init_ok [OF C(1-3) _ alloc C(6)]) (use q(5) C(4) in simp)
  then consider "PacketProtoFlow_Init alloc (ug_udpgw_mtu u) (ug_send_buffer_size u) pi = Inr None" "\<not> ?M"
    | f where "PacketProtoFlow_Init alloc (ug_udpgw_mtu u) (ug_send_buffer_size u) pi = Inr (Some f)" "writer_ok (ug_udpgw_mtu u) f" "PacketPassInterface_Sender_Init pi = Inr (pb_output (ppf_buffer f))" ?M
    by blast
  then show ?thesis
  proof cases
    case 1
    obtain q' where q': "PacketPassFairQueueFlow_Free q c = Inr q'" "fq_inv q'" "set (fq_flows_list q') = set (fq_flows_list q) - {c}"
      using PacketPassFairQueueFlow_Free_inv [OF q(2) cq q(7)] by blast
    have mtu: "ppi_mtu (fq_output q') = ug_pp_mtu u"
      using q'(1) q(4,7) by (auto simp: PacketPassFairQueueFlow_Free_def result_simps Let_def split: if_splits)
    define u' where "u' = upd_con (u\<lparr>ug_send_queue := q'\<rparr>) c (\<lambda>c. c\<lparr>uc_first_job := False\<rparr>)"
    have run: "init_flow alloc u c = Some (Inr u')" using q(1,6) 1(1) q'(1) by (simp add: init_flow_def Let_def u'_def)
    have sc: "same_conf u u'" "same_cons u u' (set (ug_connections_list u))" using c(1) by (auto simp: same_conf_def same_cons_def u'_def)
    have L: "ug_connections_list u' = ug_connections_list u" by (simp add: u'_def)
    have "table_ok u'" by (rule table_cong [OF T]) (use same_cons_ok [OF sc(2,1)] in \<open>auto simp: u'_def\<close>)
    moreover have "queue_ok u'" using q'(2,3) q(3) qi(3-5) mtu by (auto simp: queue_ok_def u'_def)
    ultimately have "ug_inv u'" using same_conf_ok [OF sc(1)] conf V same_cons_ok [OF sc(2,1)] cons unfolding ug_inv_def L by blast
    then show ?thesis using run sc L 1(2) by blast
  next
    case 2
    let ?q = "upd_flow q c (\<lambda>x. x\<lparr>fl_input := pb_output (ppf_buffer f)\<rparr>)"
    define u1 where "u1 = upd_con (u\<lparr>ug_send_queue := ?q\<rparr>) c (\<lambda>c. c\<lparr>uc_send_ppflow := f\<rparr>)"
    have fields: "con_addr u1 = con_addr u" "con_id u1 = con_id u" "unused u1 = unused u" by (auto simp: u1_def con_addr_def con_id_def unused_def fun_eq_iff)
    have T1: "table_ok u1" by (rule table_cong [OF T]) (auto simp: u1_def fields con_addr_def con_id_def)
    obtain t1 t2 where t: "insert_by_conaddr u1 c = Some (Inr (u1\<lparr>ug_tree_by_conaddr := t1\<rparr>))"
      "insert_by_conid (u1\<lparr>ug_tree_by_conaddr := t1\<rparr>) c = Some (Inr (u1\<lparr>ug_tree_by_conaddr := t1, ug_tree_by_conid := t2\<rparr>))"
      "table_ok (u1\<lparr>ug_tree_by_conaddr := t1, ug_tree_by_conid := t2, ug_connections_list := ug_connections_list u1 @ [c], ug_num_connections := ug_num_connections u1 + 1\<rparr>)"
      by (rule table_append [OF T1, of c i]) (use c i room fields in \<open>auto simp: u1_def\<close>)
    define u' where "u' = u1\<lparr>ug_tree_by_conaddr := t1, ug_tree_by_conid := t2, ug_connections_list := ug_connections_list u1 @ [c], ug_num_connections := ug_num_connections u1 + 1\<rparr>"
    have run: "init_flow alloc u c = Some (Inr u')"
    proof -
      have "init_flow alloc u c = bindr (insert_by_conaddr u1 c) (\<lambda>u. bindr (insert_by_conid u c) (\<lambda>u.
          Some (Inr (u\<lparr>ug_connections_list := ug_connections_list u @ [c], ug_num_connections := ug_num_connections u + 1\<rparr>))))"
        using q(1,6) 2(1) by (simp add: init_flow_def Let_def u1_def)
      also have "\<dots> = Some (Inr u')" unfolding t(1) bindr_simps t(2) u'_def by simp
      finally show ?thesis .
    qed
    have sc: "same_conf u u'" "same_cons u u' (set (ug_connections_list u))" using c(1) by (auto simp: same_conf_def same_cons_def u'_def u1_def)
    have L: "ug_connections_list u' = ug_connections_list u @ [c]" by (simp add: u'_def u1_def)
    have new: "ug_con u' c = (ug_con u c)\<lparr>uc_send_ppflow := f\<rparr>" by (simp add: u'_def u1_def)
    have "con_ok u' c" using 2(2) data sc(1) C(5) by (simp add: con_ok_def new same_conf_def)
    moreover have "fq_inv ?q" by (rule fq_sender_init_inv [OF q(2) cq]) (use q(6) 2(3) in simp)
    then have "queue_ok u'" using q(3,4) qi(3-5) c(2) by (auto simp: queue_ok_def u'_def u1_def)
    ultimately have "ug_inv u'" using same_conf_ok [OF sc(1)] conf V same_cons_ok [OF sc(2,1)] cons t(3) unfolding ug_inv_def L u'_def [symmetric] by auto
    then show ?thesis using run sc L new 2(4) by blast
  qed
qed

text \<open>There is memory for a new connection: for its structure and for its packet buffer.\<close>

definition con_memory :: "UdpGwClient \<Rightarrow> (nat \<Rightarrow> bytes option) \<Rightarrow> nat option \<Rightarrow> bool" where
  "con_memory u alloc m \<longleftrightarrow> m \<noteq> None \<and> flow_memory alloc (ug_udpgw_mtu u) (ug_send_buffer_size u)"

lemma connection_init_ok:
  assumes inv: "ug_inv u" and room: "ug_num_connections u < ug_max_connections u"
    and a: "valid_conaddr a" "a \<notin> con_addr u ` set (ug_connections_list u)" and data: "int (length data) \<le> ug_udp_mtu u"
    and m: "\<And>c. m = Some c \<Longrightarrow> c \<notin> set (ug_connections_list u) \<and> c \<noteq> ug_keepalive_qflow u"
    and alloc: "\<And>n b. alloc n = Some b \<Longrightarrow> length b = n"
  shows "\<exists>u'. connection_init alloc m u a flags data = Some (Inr u') \<and> ug_inv u' \<and> same_conf u u' \<and> same_cons u u' (set (ug_connections_list u)) \<and>
    (\<not> con_memory u alloc m \<and> ug_connections_list u' = ug_connections_list u \<or>
     (\<exists>c i. con_memory u alloc m \<and> m = Some c \<and> ug_connections_list u' = ug_connections_list u @ [c] \<and> unused u i \<and> 0 \<le> i \<and> i < ug_max_connections u \<and> con_addr u' c = a \<and> con_id u' c = of_int i \<and>
        uc_first_job (ug_con u' c) \<and> uc_first_flags (ug_con u' c) = flags \<and> uc_first_data (ug_con u' c) = data))"
proof -
  let ?L = "ug_connections_list u"
  have I: "table_ok u" "conf_ok u" "\<And>d. d \<in> set ?L \<Longrightarrow> con_ok u d" "queue_ok u" "server_ok u" using inv by (auto simp: ug_inv_def)
  obtain q where q: "find_connection_by_conaddr u a = Some (Inr q)" "\<And>c. q = Some c \<longleftrightarrow> c \<in> set ?L \<and> con_addr u c = a"
    using find_by_conaddr_ok [OF I(1) a(1)] by blast
  have "q \<noteq> Some c" for c using q(2) [of c] a(2) by auto
  then have qN: "q = None" by (cases q) auto
  show ?thesis
  proof (cases m)
    case None
    have "connection_init alloc m u a flags data = Some (Inr u)" using room q(1) qN data None by (simp add: connection_init_def)
    then show ?thesis using inv None by (auto simp: same_conf_def same_cons_def con_memory_def)
  next
    case (Some c)
    have c: "c \<notin> set ?L" "c \<noteq> ug_keepalive_qflow u" using m Some by auto
    define u1 where "u1 = upd_con u c (\<lambda>c. c\<lparr>uc_conaddr := a, uc_first_flags := flags, uc_first_data := data\<rparr>)"
    have T1: "table_ok u1" by (rule table_cong [OF I(1)]) (use c in \<open>auto simp: u1_def con_addr_def con_id_def\<close>)
    obtain i where i: "find_unused_conid u1 = Some (Inr (u1\<lparr>ug_next_conid := i\<rparr>, of_int i))" "0 \<le> i" "i < ug_max_connections u1" "unused u1 i"
      using find_unused_conid_ok [OF T1] room by (auto simp: u1_def)
    define u2 where "u2 = upd_con (u1\<lparr>ug_next_conid := i\<rparr>) c (\<lambda>c. c\<lparr>uc_conid := of_int i, uc_first_job := True\<rparr>)"
    have run: "connection_init alloc m u a flags data = init_flow alloc u2 c"
      unfolding connection_init_def q(1) bindr_simps Some option.case Let_def u1_def [symmetric] i(1) prod.case u2_def [symmetric] using room qN data by simp
    have sc: "same_conf u u2" "same_cons u u2 (set ?L)" "ug_connections_list u2 = ?L" "ug_num_connections u2 = ug_num_connections u" "ug_send_queue u2 = ug_send_queue u"
      using c(1) by (auto simp: same_conf_def same_cons_def u2_def u1_def)
    have old: "con_ok u2 d = con_ok u d \<and> con_addr u2 d = con_addr u d \<and> con_id u2 d = con_id u d" if "d \<in> set ?L" for d
      using same_cons_ok [OF sc(2,1) that] .
    have new: "con_addr u2 c = a" "con_id u2 c = of_int i" "uc_first_data (ug_con u2 c) = data" "uc_first_flags (ug_con u2 c) = flags" "uc_first_job (ug_con u2 c)"
      by (auto simp: con_addr_def con_id_def u2_def u1_def)
    have mx: "ug_max_connections u2 = ug_max_connections u" "ug_max_connections u1 = ug_max_connections u" by (simp_all add: u2_def u1_def)
    have id1: "con_id u1 d = con_id u d" for d by (cases "d = c") (simp_all add: u1_def con_id_def)
    have L1: "ug_connections_list u1 = ?L" by (simp add: u1_def)
    have "unused u i" using i(4) unfolding unused_def id1 L1 .
    moreover then have "unused u2 i" using old unfolding unused_def sc(3) by simp
    ultimately have un: "unused u2 i" "unused u i" by simp_all
    have T2: "table_ok u2"
    proof (rule table_cong [OF table_next [OF T1 i(2,3)]])
      fix d assume "d \<in> set (ug_connections_list (u1\<lparr>ug_next_conid := i\<rparr>))"
      then show "con_addr u2 d = con_addr (u1\<lparr>ug_next_conid := i\<rparr>) d \<and> con_id u2 d = con_id (u1\<lparr>ug_next_conid := i\<rparr>) d"
        using c(1) by (auto simp: u2_def u1_def con_addr_def con_id_def)
    qed (auto simp: u2_def)
    have Q2: "queue_ok u2" using I(4) sc by (simp add: queue_ok_def same_conf_def)
    have fresh: "con_addr u2 c \<notin> con_addr u2 ` set ?L"
    proof
      assume "con_addr u2 c \<in> con_addr u2 ` set ?L"
      then obtain d where "d \<in> set ?L" "con_addr u2 d = a" unfolding new(1) by auto
      then show False using old a(2) by auto
    qed
    have mem: "flow_memory alloc (ug_udpgw_mtu u2) (ug_send_buffer_size u2) = con_memory u alloc m" using sc(1) Some by (simp add: con_memory_def same_conf_def)
    have "\<exists>u'. init_flow alloc u2 c = Some (Inr u') \<and> ug_inv u' \<and> same_conf u2 u' \<and> same_cons u2 u' (set (ug_connections_list u2)) \<and>
      (\<not> flow_memory alloc (ug_udpgw_mtu u2) (ug_send_buffer_size u2) \<and> ug_connections_list u' = ug_connections_list u2 \<or>
       flow_memory alloc (ug_udpgw_mtu u2) (ug_send_buffer_size u2) \<and> ug_connections_list u' = ug_connections_list u2 @ [c] \<and> (\<exists>f. ug_con u' c = (ug_con u2 c)\<lparr>uc_send_ppflow := f\<rparr>))"
    proof (rule init_flow_ok [OF T2 _ _ Q2])
      show "conf_ok u2" "server_ok u2" using same_conf_ok [OF sc(1)] I by auto
      show "con_ok u2 d" if "d \<in> set (ug_connections_list u2)" for d using old I(3) that unfolding sc(3) by blast
      show "c \<notin> set (ug_connections_list u2)" "c \<noteq> ug_keepalive_qflow u2" using c sc by (auto simp: same_conf_def)
      show "valid_conaddr (con_addr u2 c)" using new(1) a(1) by simp
      show "con_addr u2 c \<notin> con_addr u2 ` set (ug_connections_list u2)" unfolding sc(3) by (rule fresh)
      show "con_id u2 c = of_int i" "0 \<le> i" "i < ug_max_connections u2" "unused u2 i" using new i mx un by auto
      show "ug_num_connections u2 < ug_max_connections u2" using room sc(4) mx by simp
      show "int (length (uc_first_data (ug_con u2 c))) \<le> ug_udp_mtu u2" using data new(3) sc(1) by (simp add: same_conf_def)
    qed (rule alloc)
    then obtain u' where u': "init_flow alloc u2 c = Some (Inr u')" "ug_inv u'" "same_conf u2 u'" "same_cons u2 u' (set ?L)"
      "\<not> con_memory u alloc m \<and> ug_connections_list u' = ?L \<or> con_memory u alloc m \<and> ug_connections_list u' = ?L @ [c] \<and> (\<exists>f. ug_con u' c = (ug_con u2 c)\<lparr>uc_send_ppflow := f\<rparr>)"
      unfolding sc(3) mem by blast
    have sc': "same_conf u u'" "same_cons u u' (set ?L)" using sc(1,2) u'(3,4) by (simp_all add: same_conf_def same_cons_def)
    have fin: "con_addr u' c = a \<and> con_id u' c = of_int i \<and> uc_first_job (ug_con u' c) \<and> uc_first_flags (ug_con u' c) = flags \<and> uc_first_data (ug_con u' c) = data"
      if "ug_con u' c = (ug_con u2 c)\<lparr>uc_send_ppflow := f\<rparr>" for f using new by (simp add: con_addr_def con_id_def that)
    have "\<not> con_memory u alloc m \<and> ug_connections_list u' = ?L \<or> (\<exists>c i. con_memory u alloc m \<and> m = Some c \<and> ug_connections_list u' = ?L @ [c] \<and> unused u i \<and> 0 \<le> i \<and> i < ug_max_connections u \<and> con_addr u' c = a \<and>
      con_id u' c = of_int i \<and> uc_first_job (ug_con u' c) \<and> uc_first_flags (ug_con u' c) = flags \<and> uc_first_data (ug_con u' c) = data)"
      using u'(5)
    proof (elim disjE conjE exE)
      fix f assume M: "con_memory u alloc m" and L': "ug_connections_list u' = ?L @ [c]" and f: "ug_con u' c = (ug_con u2 c)\<lparr>uc_send_ppflow := f\<rparr>"
      show ?thesis using fin [OF f] L' M Some un(2) i(2,3) unfolding mx(2) by (intro disjI2 exI [of _ c] exI [of _ i]) simp
    qed simp
    then show ?thesis using u'(1,2) sc' unfolding run by (intro exI [of _ u']) blast
  qed
qed

subsection \<open>Packets of connections that exist\<close>

text \<open>The packet is in the connection's buffer, or was dropped because the buffer is full.\<close>

definition sent_packet :: "UdpGwClient \<Rightarrow> UdpGwClient \<Rightarrow> nat \<Rightarrow> u8 \<Rightarrow> bytes \<Rightarrow> bool" where
  "sent_packet u u' c flags data \<longleftrightarrow>
     (let f = uc_send_ppflow (ug_con u c); w = ppf_ainput f in
      uc_send_ppflow (ug_con u' c) =
        (if bw_out_have w then flow_wrote f (nat (the (bw_out w))) (udpgw_packet flags (con_id u' c) (ca_remote_addr (con_addr u' c)) data) else f))"

lemma valid_con: "table_ok u \<Longrightarrow> c \<in> set (ug_connections_list u) \<Longrightarrow> valid_conaddr (con_addr u c)"
  by (auto simp: table_ok_def indexed_def)

lemma ug_inv_flow:
  assumes inv: "ug_inv u" and f: "writer_ok (ug_udp_mtu u + 21) f"
  shows "ug_inv (upd_con u c (\<lambda>x. x\<lparr>uc_send_ppflow := f\<rparr>))"
proof -
  let ?u = "upd_con u c (\<lambda>x. x\<lparr>uc_send_ppflow := f\<rparr>)"
  have "table_ok ?u" by (rule table_cong [of u]) (use inv in \<open>auto simp: ug_inv_def con_addr_def con_id_def\<close>)
  moreover have "con_ok ?u d" if "d \<in> set (ug_connections_list u)" for d
    using inv that f by (cases "d = c") (auto simp: ug_inv_def con_ok_def)
  ultimately show ?thesis using inv by (auto simp: ug_inv_def conf_ok_def queue_ok_def server_ok_def)
qed

lemma send_inv:
  assumes inv: "ug_inv u" and c: "c \<in> set (ug_connections_list u)" and data: "int (length data) \<le> ug_udp_mtu u"
  shows "\<exists>f. connection_send u c flags data = Inr (upd_con u c (\<lambda>x. x\<lparr>uc_send_ppflow := f\<rparr>)) \<and> ug_inv (upd_con u c (\<lambda>x. x\<lparr>uc_send_ppflow := f\<rparr>)) \<and>
    sent_packet u (upd_con u c (\<lambda>x. x\<lparr>uc_send_ppflow := f\<rparr>)) c flags data"
proof -
  have w: "writer_ok (ug_udp_mtu u + 21) (uc_send_ppflow (ug_con u c))" using inv c by (auto simp: ug_inv_def con_ok_def)
  have ip: "is_ip_addr (ca_remote_addr (con_addr u c))" using valid_con [of u c] inv c by (auto simp: ug_inv_def valid_conaddr_def)
  obtain f where f: "connection_send u c flags data = Inr (upd_con u c (\<lambda>x. x\<lparr>uc_send_ppflow := f\<rparr>))" "writer_ok (ug_udp_mtu u + 21) f"
    "let g = uc_send_ppflow (ug_con u c); w = ppf_ainput g in
     if bw_out_have w then f = flow_wrote g (nat (the (bw_out w))) (udpgw_packet flags (con_id u c) (ca_remote_addr (con_addr u c)) data) else f = g"
    using connection_send_ok [OF w ip data, of flags] by blast
  have "sent_packet u (upd_con u c (\<lambda>x. x\<lparr>uc_send_ppflow := f\<rparr>)) c flags data" using f(3) by (auto simp: sent_packet_def Let_def con_addr_def con_id_def split: if_splits)
  then show ?thesis using f(1) ug_inv_flow [OF inv f(2)] by blast
qed

lemma ug_inv_to_back:
  assumes inv: "ug_inv u" and c: "c \<in> set (ug_connections_list u)"
  shows "ug_inv (to_back c u)"
proof -
  have T: "table_ok (to_back c u)" using inv table_to_back [OF _ c] by (simp add: ug_inv_def)
  have L: "set (ug_connections_list (to_back c u)) = set (ug_connections_list u)" unfolding to_back_simps by (rule set_remove1_back [OF c])
  have sc: "same_conf u (to_back c u)" "same_cons u (to_back c u) (set (ug_connections_list u))" by (auto simp: same_conf_def same_cons_def to_back_def)
  have Q: "queue_ok (to_back c u)" using inv L sc(1) unfolding ug_inv_def queue_ok_def by (simp add: same_conf_def to_back_def)
  show ?thesis using T Q inv same_conf_ok [OF sc(1)] same_cons_ok [OF sc(2,1)] unfolding ug_inv_def L by blast
qed

lemma reuse_connection_ok:
  assumes inv: "ug_inv u" and L: "ug_connections_list u = c # cs" and a: "valid_conaddr a" "a \<notin> con_addr u ` set (ug_connections_list u)"
  obtains u' where "reuse_connection u a = Some (Inr (u', c))" "ug_inv u'" "same_conf u u'" "ug_connections_list u' = ug_connections_list u"
    "con_addr u' c = a" "con_id u' = con_id u" "uc_send_ppflow (ug_con u' c) = uc_send_ppflow (ug_con u c)" "\<And>d. d \<noteq> c \<Longrightarrow> ug_con u' d = ug_con u d"
    "ug_num_connections u' = ug_num_connections u"
proof -
  let ?L = "ug_connections_list u"
  have I: "table_ok u" "conf_ok u" "\<And>d. d \<in> set ?L \<Longrightarrow> con_ok u d" "queue_ok u" "server_ok u" using inv by (auto simp: ug_inv_def)
  have c: "c \<in> set ?L" by (simp add: L)
  have num: "ug_num_connections u > 0" using I(1) L by (simp add: table_ok_def)
  obtain q where q: "find_connection_by_conaddr u a = Some (Inr q)" "\<And>c. q = Some c \<longleftrightarrow> c \<in> set ?L \<and> con_addr u c = a"
    using find_by_conaddr_ok [OF I(1) a(1)] by blast
  have "q \<noteq> Some c" for c using q(2) [of c] a(2) by auto
  then have qN: "q = None" by (cases q) auto
  have X: "indexed conaddr_comparator valid_conaddr (con_addr u) (ug_tree_by_conaddr u) (set ?L)" using I(1) by (simp add: table_ok_def)
  obtain t where t: "BAVL_Remove (ug_tree_by_conaddr u) c = Some (Inr t)" "indexed conaddr_comparator valid_conaddr (con_addr u) t (set ?L - {c})"
    using conaddr.indexed_remove [OF X c] by blast
  define u1 where "u1 = upd_con (u\<lparr>ug_tree_by_conaddr := t\<rparr>) c (\<lambda>c. c\<lparr>uc_conaddr := a\<rparr>)"
  have f1: "con_addr u1 c = a" "\<And>d. d \<noteq> c \<Longrightarrow> con_addr u1 d = con_addr u d" "ug_tree_by_conaddr u1 = t" by (auto simp: u1_def con_addr_def)
  have "indexed conaddr_comparator valid_conaddr (con_addr u1) (ug_tree_by_conaddr u1) (set ?L - {c})"
    using t(2) f1(2) indexed_addr_cong [of "set ?L - {c}" u1 u t] unfolding f1(3) by auto
  moreover have "con_addr u1 c \<notin> con_addr u1 ` (set ?L - {c})" using a(2) f1(1,2) by auto
  ultimately obtain t' where t': "insert_by_conaddr u1 c = Some (Inr (u1\<lparr>ug_tree_by_conaddr := t'\<rparr>))" "indexed conaddr_comparator valid_conaddr (con_addr u1) t' (insert c (set ?L - {c}))"
    using insert_by_conaddr_ok [of u1 "set ?L - {c}" c] a(1) f1(1) by auto
  define u' where "u' = u1\<lparr>ug_tree_by_conaddr := t'\<rparr>"
  have run: "reuse_connection u a = Some (Inr (u', c))"
    unfolding reuse_connection_def q(1) bindr_simps L list.case t(1) Let_def u1_def [symmetric] t'(1) u'_def using qN num by simp
  have ids: "con_id u' = con_id u" by (auto simp: u'_def u1_def con_id_def fun_eq_iff)
  have Lu: "ug_connections_list u' = ?L" "ug_num_connections u' = ug_num_connections u" "ug_next_conid u' = ug_next_conid u" "ug_tree_by_conid u' = ug_tree_by_conid u"
    "ug_tree_by_conaddr u' = t'" "ug_send_queue u' = ug_send_queue u"
    by (simp_all add: u'_def u1_def)
  have sc: "same_conf u u'" by (simp add: same_conf_def u'_def u1_def)
  have ca: "con_addr u' = con_addr u1" by (simp add: u'_def)
  have "insert c (set ?L - {c}) = set ?L" using c by auto
  then have "indexed conaddr_comparator valid_conaddr (con_addr u') t' (set ?L)" using t'(2) unfolding ca by simp
  then have T: "table_ok u'" using I(1) sc unfolding table_ok_def Lu ids by (simp add: same_conf_def)
  have fl: "uc_send_ppflow (ug_con u' d) = uc_send_ppflow (ug_con u d)" "uc_first_data (ug_con u' d) = uc_first_data (ug_con u d)" for d
    by (cases "d = c"; simp add: u'_def u1_def)+
  have "con_ok u' d = con_ok u d" for d using sc by (simp add: con_ok_def fl same_conf_def)
  moreover have "queue_ok u'" using I(4) sc unfolding queue_ok_def Lu by (simp add: same_conf_def)
  ultimately have "ug_inv u'" using T I same_conf_ok [OF sc] unfolding ug_inv_def Lu by blast
  then show ?thesis
  proof (rule that [OF run])
    show "con_addr u' c = a" using f1(1) ca by simp
    show "\<And>d. d \<noteq> c \<Longrightarrow> ug_con u' d = ug_con u d" by (simp add: u'_def u1_def)
  qed (use sc Lu ids fl in auto)
qed

subsection \<open>Submitting a packet\<close>

text \<open>
  The specification of the table: a list of addresses with their identifiers, the one used last at the end. An address that is in the
  table moves to the end; a new one takes the place of the first when the table is full, and an identifier that nobody has otherwise. There may be no memory for it.
\<close>

definition entries :: "UdpGwClient \<Rightarrow> (UdpGwClient_conaddr \<times> u16) list" where
  "entries u = map (\<lambda>c. (con_addr u c, con_id u c)) (ug_connections_list u)"

definition lru_submit :: "bool \<Rightarrow> nat \<Rightarrow> UdpGwClient_conaddr \<Rightarrow> (UdpGwClient_conaddr \<times> u16) list \<Rightarrow> (UdpGwClient_conaddr \<times> u16) list \<Rightarrow> bool" where
  "lru_submit room n a xs xs' \<longleftrightarrow>
     (if a \<in> fst ` set xs then \<exists>i. (a, i) \<in> set xs \<and> xs' = remove1 (a, i) xs @ [(a, i)]
      else if length xs = n then xs' = tl xs @ [(a, snd (hd xs))]
      else if room then \<exists>i. i \<notin> snd ` set xs \<and> unat i < n \<and> xs' = xs @ [(a, i)]
      else xs' = xs)"

text \<open>What became of the packet: it was sent through the connection that is now the last, it waits for the first job of a new connection, or it was dropped.\<close>

definition submitted :: "bool \<Rightarrow> UdpGwClient \<Rightarrow> UdpGwClient \<Rightarrow> UdpGwClient_conaddr \<Rightarrow> u8 \<Rightarrow> bytes \<Rightarrow> bool" where
  "submitted room u u' a flags data \<longleftrightarrow>
     (let L = ug_connections_list u; L' = ug_connections_list u'; c = last L' in
      if a \<in> con_addr u ` set L then c \<in> set L \<and> con_addr u' c = a \<and> sent_packet u u' c flags data
      else if ug_num_connections u = ug_max_connections u
      then c = hd L \<and> con_addr u' c = a \<and> sent_packet u u' c (flags OR UDPGW_CLIENT_FLAG_REBIND) data
      else if \<not> room then L' = L
      else c \<notin> set L \<and> con_addr u' c = a \<and> uc_first_job (ug_con u' c) \<and> uc_first_flags (ug_con u' c) = flags \<and> uc_first_data (ug_con u' c) = data)"

lemma map_remove1_inj: "inj_on f (set xs) \<Longrightarrow> x \<in> set xs \<Longrightarrow> map f (remove1 x xs) = remove1 (f x) (map f xs)"
  by (induction xs) (auto simp: inj_on_def)

lemma con_addr_inj: "table_ok u \<Longrightarrow> inj_on (con_addr u) (set (ug_connections_list u))"
  using conaddr.indexed_inj by (auto simp: table_ok_def)

lemma upd_flow_addr [simp]:
  "con_addr (upd_con u c (\<lambda>x. x\<lparr>uc_send_ppflow := f\<rparr>)) = con_addr u" "con_id (upd_con u c (\<lambda>x. x\<lparr>uc_send_ppflow := f\<rparr>)) = con_id u"
  by (auto simp: con_addr_def con_id_def fun_eq_iff)

lemma fst_entries: "fst ` set (entries u) = con_addr u ` set (ug_connections_list u)" "snd ` set (entries u) = con_id u ` set (ug_connections_list u)"
  "length (entries u) = length (ug_connections_list u)"
  by (auto simp: entries_def image_image)

lemma entries_to_back:
  assumes T: "table_ok u" and c: "c \<in> set (ug_connections_list u)"
  shows "entries (to_back c u) = remove1 (con_addr u c, con_id u c) (entries u) @ [(con_addr u c, con_id u c)]"
proof -
  have "inj_on (\<lambda>c. (con_addr u c, con_id u c)) (set (ug_connections_list u))" using con_addr_inj [OF T] by (auto simp: inj_on_def)
  then show ?thesis using map_remove1_inj [of "\<lambda>c. (con_addr u c, con_id u c)" "ug_connections_list u" c] c by (simp add: entries_def)
qed

lemma submit_existing:
  assumes inv: "ug_inv u" and c: "c \<in> set (ug_connections_list u)" and data: "int (length data) \<le> ug_udp_mtu u"
  shows "\<exists>u'. connection_send (to_back c u) c flags data = Inr u' \<and> ug_inv u' \<and> same_conf u u' \<and> entries u' = entries (to_back c u) \<and>
    last (ug_connections_list u') = c \<and> con_addr u' c = con_addr u c \<and> sent_packet u u' c flags data"
proof -
  have inv': "ug_inv (to_back c u)" by (rule ug_inv_to_back [OF inv c])
  have d: "int (length data) \<le> ug_udp_mtu (to_back c u)" using data by (simp add: to_back_def)
  obtain f where f: "connection_send (to_back c u) c flags data = Inr (upd_con (to_back c u) c (\<lambda>x. x\<lparr>uc_send_ppflow := f\<rparr>))"
    "ug_inv (upd_con (to_back c u) c (\<lambda>x. x\<lparr>uc_send_ppflow := f\<rparr>))" "sent_packet (to_back c u) (upd_con (to_back c u) c (\<lambda>x. x\<lparr>uc_send_ppflow := f\<rparr>)) c flags data"
    using send_inv [OF inv' _ d, of c flags] by auto
  let ?u = "upd_con (to_back c u) c (\<lambda>x. x\<lparr>uc_send_ppflow := f\<rparr>)"
  have sc: "same_conf u ?u" by (simp add: same_conf_def to_back_def)
  have e: "entries ?u = entries (to_back c u)" unfolding entries_def upd_flow_addr by simp
  have l: "last (ug_connections_list ?u) = c" by simp
  have ca: "con_addr ?u c = con_addr u c" by (simp add: con_addr_def)
  have sp: "sent_packet u ?u c flags data" using f(3) unfolding sent_packet_def by simp
  show ?thesis by (intro exI [of _ ?u] conjI f(1,2) sc e l ca sp)
qed

text \<open>The table is full: the connection that has not been used for the longest time is taken over.\<close>

lemma submit_full:
  assumes inv: "ug_inv u" and va: "valid_conaddr a" and new: "a \<notin> con_addr u ` set (ug_connections_list u)" and data: "int (length data) \<le> ug_udp_mtu u"
    and True: "ug_num_connections u = ug_max_connections u"
  shows "\<exists>u1 c u'. reuse_connection u a = Some (Inr (u1, c)) \<and> connection_send (to_back c u1) c (flags OR UDPGW_CLIENT_FLAG_REBIND) data = Inr u' \<and> ug_inv u' \<and> same_conf u u' \<and>
    lru_submit room (nat (ug_max_connections u)) a (entries u) (entries u') \<and> submitted room u u' a flags data"
proof -
  let ?L = "ug_connections_list u"
  have T: "table_ok u" using inv by (simp add: ug_inv_def)
  have num: "ug_num_connections u = int (length ?L)" "0 < ug_max_connections u" using T by (auto simp: table_ok_def)
  obtain c cs where L: "?L = c # cs" using num True by (cases ?L) auto
  obtain u1 where u1: "reuse_connection u a = Some (Inr (u1, c))" "ug_inv u1" "same_conf u u1" "ug_connections_list u1 = ?L"
    "con_addr u1 c = a" "con_id u1 = con_id u" "uc_send_ppflow (ug_con u1 c) = uc_send_ppflow (ug_con u c)" "\<And>d. d \<noteq> c \<Longrightarrow> ug_con u1 d = ug_con u d"
    using reuse_connection_ok [OF inv L va new] by metis
  have c1: "c \<in> set (ug_connections_list u1)" using L u1(4) by simp
  have T1: "table_ok u1" using u1(2) by (simp add: ug_inv_def)
  have d1: "int (length data) \<le> ug_udp_mtu u1" using data u1(3) by (simp add: same_conf_def)
  let ?f = "flags OR UDPGW_CLIENT_FLAG_REBIND"
  obtain u' where u': "connection_send (to_back c u1) c ?f data = Inr u'" "ug_inv u'" "same_conf u1 u'" "entries u' = entries (to_back c u1)"
    "last (ug_connections_list u') = c" "con_addr u' c = con_addr u1 c" "sent_packet u1 u' c ?f data"
    using submit_existing [OF u1(2) c1 d1, of ?f] by blast
  have full: "length ?L = nat (ug_max_connections u)" using True num by simp
  have "c \<notin> set cs" using T L by (simp add: table_ok_def)
  then have "d \<noteq> c" if "d \<in> set cs" for d using that by blast
  then have "con_addr u1 d = con_addr u d" if "d \<in> set cs" for d using u1(8) that by (simp add: con_addr_def)
  then have "entries (to_back c u1) = tl (entries u) @ [(a, snd (hd (entries u)))]"
    using u1(4-6) L by (simp add: entries_def)
  then have "lru_submit room (nat (ug_max_connections u)) a (entries u) (entries u')"
    using new full unfolding lru_submit_def fst_entries u'(4) by simp
  moreover have "submitted room u u' a flags data"
    using new True u'(5-7) u1(5,7) L by (simp add: submitted_def sent_packet_def Let_def)
  moreover have "same_conf u u'" using u1(3) u'(3) by (simp add: same_conf_def)
  ultimately show ?thesis using u'(1,2) u1(1) by blast
qed

text \<open>A new connection is made, if there is memory for it.\<close>

lemma submit_new:
  assumes inv: "ug_inv u" and va: "valid_conaddr a" and new: "a \<notin> con_addr u ` set (ug_connections_list u)" and data: "int (length data) \<le> ug_udp_mtu u"
    and room: "ug_num_connections u < ug_max_connections u"
    and m: "\<And>c. m = Some c \<Longrightarrow> c \<notin> set (ug_connections_list u) \<and> c \<noteq> ug_keepalive_qflow u"
    and alloc: "\<And>n b. alloc n = Some b \<Longrightarrow> length b = n"
  shows "\<exists>u'. connection_init alloc m u a flags data = Some (Inr u') \<and> ug_inv u' \<and> same_conf u u' \<and>
    lru_submit (con_memory u alloc m) (nat (ug_max_connections u)) a (entries u) (entries u') \<and> submitted (con_memory u alloc m) u u' a flags data"
proof -
  let ?L = "ug_connections_list u"
  have T: "table_ok u" using inv by (simp add: ug_inv_def)
  have num: "ug_num_connections u = int (length ?L)" "ug_num_connections u \<le> ug_max_connections u" "0 < ug_max_connections u" using T by (auto simp: table_ok_def)
  have False: "ug_num_connections u \<noteq> ug_max_connections u" using room by simp
  obtain u' where u': "connection_init alloc m u a flags data = Some (Inr u')" "ug_inv u'" "same_conf u u'" "same_cons u u' (set ?L)"
    "\<not> con_memory u alloc m \<and> ug_connections_list u' = ?L \<or> (\<exists>c i. con_memory u alloc m \<and> m = Some c \<and> ug_connections_list u' = ?L @ [c] \<and> unused u i \<and> 0 \<le> i \<and> i < ug_max_connections u \<and> con_addr u' c = a \<and> con_id u' c = of_int i \<and>
      uc_first_job (ug_con u' c) \<and> uc_first_flags (ug_con u' c) = flags \<and> uc_first_data (ug_con u' c) = data)"
    using connection_init_ok [where flags = flags and m = m and alloc = alloc, OF inv room va new data m alloc] by blast
  have old: "map (\<lambda>c. (con_addr u' c, con_id u' c)) ?L = entries u" unfolding entries_def using u'(4) by (auto simp: same_cons_def con_addr_def con_id_def)
  have mx: "ug_max_connections u \<le> 65536" using T by (simp add: table_ok_def)
  have "lru_submit (con_memory u alloc m) (nat (ug_max_connections u)) a (entries u) (entries u') \<and> submitted (con_memory u alloc m) u u' a flags data"
    using u'(5)
  proof (elim disjE exE conjE)
    assume M: "\<not> con_memory u alloc m" and "ug_connections_list u' = ?L"
    moreover then have "entries u' = entries u" using old by (simp add: entries_def)
    ultimately show ?thesis using new False num M unfolding lru_submit_def fst_entries submitted_def Let_def by auto
  next
    fix c i assume M: "con_memory u alloc m" and c: "m = Some c" "ug_connections_list u' = ?L @ [c]" "con_addr u' c = a" "con_id u' c = of_int i"
      and i: "unused u i" "0 \<le> i" "i < ug_max_connections u"
      and f: "uc_first_job (ug_con u' c)" "uc_first_flags (ug_con u' c) = flags" "uc_first_data (ug_con u' c) = data"
    have "entries u' = entries u @ [(a, of_int i)]" using old c unfolding entries_def by simp
    moreover have "(of_int i :: u16) \<notin> snd ` set (entries u)" using i(1) by (auto simp: fst_entries unused_def)
    moreover have "unat (of_int i :: u16) < nat (ug_max_connections u)" using i(2,3) mx by (simp add: unsigned_of_int take_bit_int_eq_self)
    ultimately have "lru_submit (con_memory u alloc m) (nat (ug_max_connections u)) a (entries u) (entries u')" using new False num M unfolding lru_submit_def fst_entries by auto
    then show ?thesis using M c f new False m [OF c(1)] by (simp add: submitted_def Let_def)
  qed
  then show ?thesis using u'(1-3) by blast
qed

lemma SubmitPacket_ok:
  assumes inv: "ug_inv u" and ip: "is_ip_addr l" "is_ip_addr r" and data: "int (length data) \<le> ug_udp_mtu u"
    and m: "\<And>c. m = Some c \<Longrightarrow> c \<notin> set (ug_connections_list u) \<and> c \<noteq> ug_keepalive_qflow u"
    and alloc: "\<And>n b. alloc n = Some b \<Longrightarrow> length b = n"
  shows "\<exists>u'. UdpGwClient_SubmitPacket alloc m u l r is_dns data = Some (Inr u') \<and> ug_inv u' \<and> same_conf u u' \<and>
    lru_submit (con_memory u alloc m) (nat (ug_max_connections u)) \<lparr> ca_local_addr = l, ca_remote_addr = r \<rparr> (entries u) (entries u') \<and>
    submitted (con_memory u alloc m) u u' \<lparr> ca_local_addr = l, ca_remote_addr = r \<rparr> (if is_dns then UDPGW_CLIENT_FLAG_DNS else 0) data"
proof -
  define a where "a = \<lparr> ca_local_addr = l, ca_remote_addr = r \<rparr>"
  define flags where "flags = (if is_dns then UDPGW_CLIENT_FLAG_DNS else 0)"
  let ?L = "ug_connections_list u"
  have T: "table_ok u" using inv by (simp add: ug_inv_def)
  have num: "ug_num_connections u = int (length ?L)" "ug_num_connections u \<le> ug_max_connections u" "0 < ug_max_connections u" using T by (auto simp: table_ok_def)
  have va: "valid_conaddr a" using ip by (simp add: valid_conaddr_def a_def)
  obtain q where q: "find_connection_by_conaddr u a = Some (Inr q)" "\<And>c. q = Some c \<longleftrightarrow> c \<in> set ?L \<and> con_addr u c = a"
    using find_by_conaddr_ok [OF T va] by blast
  have types: "BAddr_type l = 1 \<or> BAddr_type l = 2" "BAddr_type r = 1 \<or> BAddr_type r = 2" using ip by (auto simp: is_ip_addr_def)
  have fl: "(if is_dns then 0 OR UDPGW_CLIENT_FLAG_DNS else 0) = flags" by (simp add: flags_def)
  have run: "UdpGwClient_SubmitPacket alloc m u l r is_dns data =
    bindr (if q = None \<and> ug_num_connections u = ug_max_connections u
           then bindr (reuse_connection u a) (\<lambda>(u, con). Some (Inr (u, Some con, flags OR UDPGW_CLIENT_FLAG_REBIND)))
           else Some (Inr (u, q, flags))) (\<lambda>(u, con, flags).
    case con of None \<Rightarrow> connection_init alloc m u a flags data
    | Some con \<Rightarrow> Some (connection_send (to_back con u) con flags data))"
    unfolding UdpGwClient_SubmitPacket_def Let_def a_def [symmetric] q(1) bindr_simps fl ASSERTR_True [OF types(1)] ASSERTR_True [OF types(2)] ASSERTR_True [OF data] ..
  have "\<exists>u'. UdpGwClient_SubmitPacket alloc m u l r is_dns data = Some (Inr u') \<and> ug_inv u' \<and> same_conf u u' \<and>
    lru_submit (con_memory u alloc m) (nat (ug_max_connections u)) a (entries u) (entries u') \<and> submitted (con_memory u alloc m) u u' a flags data"
  proof (cases q)
    case (Some c)
    then have c: "c \<in> set ?L" "con_addr u c = a" using q(2) by auto
    then have known: "a \<in> con_addr u ` set ?L" by blast
    obtain u' where u': "connection_send (to_back c u) c flags data = Inr u'" "ug_inv u'" "same_conf u u'" "entries u' = entries (to_back c u)"
      "last (ug_connections_list u') = c" "con_addr u' c = con_addr u c" "sent_packet u u' c flags data"
      using submit_existing [OF inv c(1) data, of flags] by blast
    have "lru_submit (con_memory u alloc m) (nat (ug_max_connections u)) a (entries u) (entries u')"
      using known c unfolding lru_submit_def fst_entries u'(4) entries_to_back [OF T c(1)] by (auto simp: entries_def)
    moreover have "submitted (con_memory u alloc m) u u' a flags data" using known u'(5-7) c by (simp add: submitted_def Let_def)
    ultimately show ?thesis using u'(1-3) unfolding run Some by auto
  next
    case None
    have new: "a \<notin> con_addr u ` set ?L" using q(2) None by auto
    show ?thesis
    proof (cases "ug_num_connections u = ug_max_connections u")
      case True
      show ?thesis using submit_full [OF inv va new data True, of flags "con_memory u alloc m"] True unfolding run None by auto
    next
      case False
      then have room: "ug_num_connections u < ug_max_connections u" using num by simp
      show ?thesis using submit_new [where flags = flags and m = m and alloc = alloc, OF inv va new data room m alloc] False unfolding run None by auto
    qed
  qed
  then show ?thesis unfolding a_def flags_def .
qed

subsection \<open>Received packets\<close>

lemma parse_packet_total: "\<exists>r. parse_packet n d = Inr r"
  by (auto simp: parse_packet_def parse_header_def parse_remote_def mem_read_def split: option.splits)

lemma parse_packet_ip: "parse_packet n d = Inr (Some (i, r, p)) \<Longrightarrow> is_ip_addr r"
  by (auto simp: parse_packet_def parse_header_def parse_remote_def mem_read_def BAddr_MakeIPv4_def BAddr_MakeIPv6_def is_ip_addr_def split: option.splits if_splits)

text \<open>What is passed to the user for a packet from the server.\<close>

definition delivers :: "UdpGwClient \<Rightarrow> bytes \<Rightarrow> (BAddr \<times> BAddr \<times> bytes) option \<Rightarrow> bool" where
  "delivers u data r \<longleftrightarrow> (\<forall>l rem d. r = Some (l, rem, d) \<longleftrightarrow>
     (\<exists>i. parse_packet (ug_udp_mtu u) data = Inr (Some (i, rem, d)) \<and> (\<lparr> ca_local_addr = l, ca_remote_addr = rem \<rparr>, i) \<in> set (entries u)))"

lemma conaddr_eq: "(\<lparr> ca_local_addr = l, ca_remote_addr = r \<rparr> = x) = (l = ca_local_addr x \<and> r = ca_remote_addr x)"
  by (cases x) auto

lemma recv_handler_ok:
  assumes inv: "ug_inv u" and sv: "ug_have_server u" "ppi_state (ug_recv_if u) = STATE_BUSY" and len: "int (length data) \<le> ug_udpgw_mtu u"
  shows "\<exists>u' r. recv_interface_handler_send u data = Some (Inr (u', r)) \<and> ug_inv u' \<and> same_conf u u' \<and> set (entries u') = set (entries u) \<and> delivers u data r"
proof -
  have T: "table_ok u" using inv by (simp add: ug_inv_def)
  obtain i where i: "PacketPassInterface_Done (ug_recv_if u) = Inr i" using sv(2) by (simp add: PacketPassInterface_Done_def)
  define u1 where "u1 = u\<lparr>ug_recv_if := i\<rparr>"
  have e1: "con_addr u1 = con_addr u" "con_id u1 = con_id u" "ug_connections_list u1 = ug_connections_list u" "ug_udp_mtu u1 = ug_udp_mtu u" "entries u1 = entries u"
    by (auto simp: u1_def con_addr_def con_id_def fun_eq_iff entries_def)
  have T1: "table_ok u1" by (rule table_cong [OF T]) (auto simp: u1_def con_addr_def con_id_def)
  have sc1: "same_conf u u1" "same_cons u u1 (set (ug_connections_list u))" by (simp_all add: same_conf_def same_cons_def u1_def)
  have Q1: "queue_ok u1" using inv by (simp add: ug_inv_def queue_ok_def u1_def)
  have inv1: "ug_inv u1" using T1 Q1 inv same_conf_ok [OF sc1(1)] same_cons_ok [OF sc1(2,1)] unfolding ug_inv_def e1 by blast
  obtain r where r: "parse_packet (ug_udp_mtu u) data = Inr r" using parse_packet_total by blast
  have run: "recv_interface_handler_send u data = (case r of None \<Rightarrow> Some (Inr (u1, None))
      | Some (conid, remote, data) \<Rightarrow>
          bindr (find_connection_by_conid u1 conid) (\<lambda>q. case q of None \<Rightarrow> Some (Inr (u1, None))
          | Some con \<Rightarrow>
              if BAddr_CompareOrder (ca_remote_addr (con_addr u1 con)) remote \<noteq> 0 then Some (Inr (u1, None))
              else let u = to_back con u1 in
                Some (Inr (u, Some (ca_local_addr (con_addr u con), ca_remote_addr (con_addr u con), data)))))"
    unfolding recv_interface_handler_send_def ASSERTR_True [OF sv(1)] ASSERTR_True [OF len] i bindr_simps Let_def u1_def [symmetric] e1(4) r bindr_simps ..
  have id_inj: "inj_on (con_id u) (set (ug_connections_list u))" using u16.indexed_inj T by (auto simp: table_ok_def)
  have drop: ?thesis if "recv_interface_handler_send u data = Some (Inr (u1, None))" "delivers u data None"
    using that inv1 sc1(1) e1(5) by auto
  show ?thesis
  proof (cases r)
    case None
    have "delivers u data None" unfolding delivers_def r None by simp
    then show ?thesis by (intro drop) (simp_all add: run None)
  next
    case (Some x)
    obtain conid remote d where x: "x = (conid, remote, d)" by (cases x)
    have ipr: "is_ip_addr remote" using parse_packet_ip r Some x by metis
    obtain q where q: "find_connection_by_conid u1 conid = Some (Inr q)" "\<And>c. q = Some c \<longleftrightarrow> c \<in> set (ug_connections_list u) \<and> con_id u c = conid"
      using find_by_conid_ok [OF T1] unfolding e1 by blast
    have P: "parse_packet (ug_udp_mtu u) data = Inr (Some (conid, remote, d))" using r Some x by simp
    show ?thesis
    proof (cases q)
      case None
      have "\<not> (l, conid) \<in> set (entries u)" for l using q(2) None by (auto simp: entries_def)
      then have "delivers u data None" unfolding delivers_def P by auto
      then show ?thesis using q(1) None by (intro drop) (simp_all add: run Some x)
    next
      case (Some c)
      then have c: "c \<in> set (ug_connections_list u)" "con_id u c = conid" using q(2) by auto
      have only: "(l, conid) \<in> set (entries u) \<longleftrightarrow> l = con_addr u c" for l
        using c inj_onD [OF id_inj] by (auto simp: entries_def)
      have ipc: "is_ip_addr (ca_remote_addr (con_addr u c))" using valid_con [OF T c(1)] by (simp add: valid_conaddr_def)
      have cmp: "BAddr_CompareOrder (ca_remote_addr (con_addr u c)) remote \<noteq> 0 \<longleftrightarrow> ca_remote_addr (con_addr u c) \<noteq> remote"
        using baddr.cmp_eq [OF ipc ipr] baddr.cmp_refl [OF ipr] by auto
      show ?thesis
      proof (cases "ca_remote_addr (con_addr u c) = remote")
        case False
        then have "delivers u data None" unfolding delivers_def P using only by (auto simp: conaddr_eq)
        moreover have "recv_interface_handler_send u data = Some (Inr (u1, None))" using q(1) False cmp by (simp add: run \<open>r = Some x\<close> x Some e1)
        ultimately show ?thesis by (intro drop)
      next
        case True
        let ?r = "Some (ca_local_addr (con_addr u c), remote, d)"
        have "recv_interface_handler_send u data = Some (Inr (to_back c u1, ?r))"
          using q(1) True cmp by (simp add: run \<open>r = Some x\<close> x Some e1 Let_def)
        moreover have "ug_inv (to_back c u1)" using ug_inv_to_back [OF inv1] c(1) e1(3) by simp
        moreover have "same_conf u (to_back c u1)" using sc1(1) by (simp add: same_conf_def to_back_def)
        moreover have "set (entries (to_back c u1)) = set (entries u)"
          using set_remove1_back [OF c(1)] unfolding entries_def to_back_simps e1 set_map by simp
        moreover have "delivers u data ?r" unfolding delivers_def P using only True by (auto simp: conaddr_eq)
        ultimately show ?thesis by blast
      qed
    qed
  qed
qed

subsection \<open>The server comes and goes\<close>

text \<open>Streams that nobody uses yet, as a connection provides them.\<close>

definition fresh_streams :: "int StreamPassInterface \<Rightarrow> int StreamRecvInterface \<Rightarrow> bool" where
  "fresh_streams s r \<longleftrightarrow> \<not> spi_handler_done s \<and> \<not> sri_handler_done r \<and> sri_state r = STATE_NONE"

lemma ug_inv_server:
  assumes inv: "ug_inv u" and c: "ppc_inv c" "ppc_input_mtu c = ug_pp_mtu u" "h \<longleftrightarrow> ppc_output c \<noteq> None"
  shows "ug_inv (u\<lparr>ug_send_connector := c, ug_have_server := h, ug_server := s, ug_recv_if := i\<rparr>)"
proof -
  let ?u = "u\<lparr>ug_send_connector := c, ug_have_server := h, ug_server := s, ug_recv_if := i\<rparr>"
  have "table_ok ?u" by (rule table_cong [of u]) (use inv in \<open>auto simp: ug_inv_def con_addr_def con_id_def\<close>)
  moreover have "conf_ok ?u = conf_ok u" "con_ok ?u d = con_ok u d" "queue_ok ?u = queue_ok u" for d by (simp_all add: conf_ok_def con_ok_def queue_ok_def)
  moreover have "server_ok ?u" using inv c by (simp add: ug_inv_def server_ok_def)
  ultimately show ?thesis using inv by (simp add: ug_inv_def)
qed

lemma connect_ok:
  assumes inv: "ug_inv u" and no: "\<not> ug_have_server u" and fr: "fresh_streams si ri"
  shows "\<exists>u' b. UdpGwClient_ConnectServer alloc u si ri = Inr (u', b) \<and> ug_inv u' \<and> entries u' = entries u \<and> ug_have_server u' = b \<and>
    (b \<longleftrightarrow> alloc (nat (ug_udpgw_mtu u + 2)) \<noteq> None) \<and> ug_udp_mtu u' = ug_udp_mtu u \<and> ug_udpgw_mtu u' = ug_udpgw_mtu u"
proof -
  have C: "0 \<le> ug_udpgw_mtu u" "ug_pp_mtu u = ug_udpgw_mtu u + 2" "ug_udpgw_mtu u \<le> PACKETPROTO_MAXPAYLOAD" using inv by (auto simp: ug_inv_def conf_ok_def)
  obtain i :: "int PacketPassInterface" where i: "PacketPassInterface_Init (ug_udpgw_mtu u) = Inr i" using C(1) by (simp add: PacketPassInterface_Init_def)
  have fi: "ppi_mtu i = ug_udpgw_mtu u" "\<not> ppi_handler_done i" using ppi_Init_fields [OF i] by auto
  define b where "b = PACKETPROTO_ENCLEN (min (ug_udpgw_mtu u) PACKETPROTO_MAXPAYLOAD)"
  have bpos: "0 < b" using C(1) by (simp add: b_def PACKETPROTO_ENCLEN_def PACKETPROTO_MAXPAYLOAD_def UINT16_MAX_def)
  have b: "b = ug_udpgw_mtu u + 2" using C(3) by (simp add: b_def PACKETPROTO_ENCLEN_def min_absorb1)
  have dec: "alloc (nat b) = None \<and> PacketProtoDecoder_Init alloc ri i = Inr None \<or> alloc (nat b) \<noteq> None \<and> (\<exists>d. PacketProtoDecoder_Init alloc ri i = Inr (Some d))"
    using fr fi bpos by (auto simp: PacketProtoDecoder_Init_def StreamRecvInterface_Receiver_Init_def PacketPassInterface_Sender_Init_def PacketPassInterface_GetMTU_def
        StreamRecvInterface_Receiver_Recv_def fresh_streams_def Let_def b_def [symmetric] split: option.splits)
  obtain s where s: "PacketStreamSender_Init si (ug_pp_mtu u) = Inr s" "PacketPassInterface_Init (ug_pp_mtu u) = Inr (pss_input s)"
  proof -
    obtain j :: "int PacketPassInterface" where j: "PacketPassInterface_Init (ug_pp_mtu u) = Inr j" using C by (simp add: PacketPassInterface_Init_def)
    then show ?thesis using that [of "\<lparr> pss_input = j, pss_output = si\<lparr>spi_handler_done := True\<rparr>, pss_in_len = - 1, pss_in = None, pss_in_used = 0 \<rparr>"] fr C
      by (simp add: PacketStreamSender_Init_def StreamPassInterface_Sender_Init_def fresh_streams_def)
  qed
  have si: "ppi_inv (pss_input s)" "ppi_mtu (pss_input s) = ug_pp_mtu u" "ppi_state (pss_input s) = STATE_NONE" "\<not> ppi_handler_done (pss_input s)"
    using ppi_Init_fields [OF s(2)] by auto
  let ?c = "ug_send_connector u"
  have P: "ppc_inv ?c" "ppc_input_mtu ?c = ug_pp_mtu u" "ppc_output ?c = None" using inv no by (auto simp: ug_inv_def server_ok_def)
  obtain c where c: "PacketPassConnector_ConnectOutput ?c (pss_input s) = Inr c" "ppc_inv c" "ppc_input_mtu c = ug_pp_mtu u" "ppc_output c \<noteq> None"
    using P si by (auto simp: PacketPassConnector_ConnectOutput_def PacketPassInterface_GetMTU_def PacketPassInterface_Sender_Init_def PacketPassInterface_Sender_Send_def
        ppc_inv_defs split: if_splits)
  show ?thesis
  proof (cases "\<exists>d. PacketProtoDecoder_Init alloc ri i = Inr (Some d)")
    case True
    then obtain d where d: "PacketProtoDecoder_Init alloc ri i = Inr (Some d)" by blast
    let ?u = "u\<lparr>ug_recv_if := dec_output d, ug_send_connector := c, ug_have_server := True, ug_server := Some (s, d)\<rparr>"
    have "UdpGwClient_ConnectServer alloc u si ri = Inr (?u, True)" using no i d s(1) c(1) by (simp add: UdpGwClient_ConnectServer_def PacketStreamSender_GetInput_def)
    moreover have "?u = u\<lparr>ug_send_connector := c, ug_have_server := True, ug_server := Some (s, d), ug_recv_if := dec_output d\<rparr>" by (cases u) simp
    then have "ug_inv ?u" using ug_inv_server [OF inv c(2,3), where h = True and s = "Some (s, d)" and i = "dec_output d"] c(4) by (simp only: simp_thms)
    moreover have "entries ?u = entries u" by (simp add: entries_def con_addr_def con_id_def)
    ultimately show ?thesis using dec d unfolding b by (intro exI [of _ ?u] exI [of _ True]) auto
  next
    case False
    then have "UdpGwClient_ConnectServer alloc u si ri = Inr (u, False)" using dec no i by (auto simp: UdpGwClient_ConnectServer_def)
    then show ?thesis using inv no dec False unfolding b by auto
  qed
qed

lemma disconnect_ok:
  assumes inv: "ug_inv u" and sv: "ug_have_server u"
  shows "\<exists>u'. UdpGwClient_DisconnectServer u = Inr u' \<and> ug_inv u' \<and> entries u' = entries u \<and> \<not> ug_have_server u' \<and> ug_udp_mtu u' = ug_udp_mtu u"
proof -
  let ?c = "ug_send_connector u"
  have P: "ppc_inv ?c" "ppc_input_mtu ?c = ug_pp_mtu u" "ppc_output ?c \<noteq> None" using inv sv by (auto simp: ug_inv_def server_ok_def)
  let ?u = "u\<lparr>ug_send_connector := ?c\<lparr>ppc_output := None\<rparr>, ug_have_server := False, ug_server := None, ug_recv_if := ug_recv_if u\<rparr>"
  have run: "UdpGwClient_DisconnectServer u = Inr ?u"
    using sv P(3) by (simp add: UdpGwClient_DisconnectServer_def free_server_def PacketPassConnector_DisconnectOutput_def)
  have "ppc_inv (?c\<lparr>ppc_output := None\<rparr>)" using P(1) by (simp add: ppc_inv_def ppc_input_ok_def)
  then have "ug_inv ?u" using ug_inv_server [OF inv, where c = "?c\<lparr>ppc_output := None\<rparr>" and h = False and s = None and i = "ug_recv_if u"] P(2) by simp
  moreover have "entries ?u = entries u" by (simp add: entries_def con_addr_def con_id_def)
  ultimately show ?thesis using run by (intro exI [of _ ?u]) simp
qed

end
