(* ===== verification/Udpgw_Life.thy ===== *)
theory Udpgw_Life
  imports Udpgw_Relay
begin

section \<open>The life of a udpgw client\<close>

text \<open>
  Initialisation and the end of a client, its histories, and the properties of the client: every operation ends and fails no assertion, the table
  of connections is a cache of the connections used last, and packets go where they belong.
\<close>

subsection \<open>The end\<close>

text \<open>The send queue while its flows are freed.\<close>

definition fq_free_ok :: "PacketPassFairQueue \<Rightarrow> bool" where
  "fq_free_ok q \<longleftrightarrow> fq_freeing q \<and> distinct (fq_flows_list q) \<and> distinct (fq_queued_tree q) \<and> set (fq_queued_tree q) \<subseteq> set (fq_flows_list q) \<and>
     (\<forall>f\<in>set (fq_flows_list q). fl_is_queued (fq_flow q f) \<longleftrightarrow> f \<in> set (fq_queued_tree q)) \<and>
     (\<forall>f. fq_sending_flow q = Some f \<longrightarrow> f \<in> set (fq_flows_list q)) \<and> (\<forall>f. fq_previous_flow q = Some f \<longrightarrow> f \<in> set (fq_flows_list q))"

lemma PrepareFree_ok: "fq_inv q \<Longrightarrow> fq_free_ok (PacketPassFairQueue_PrepareFree q)"
  using fq_sorted_distinct [of q "fq_queued_tree q"]
  by (auto simp: fq_free_ok_def PacketPassFairQueue_PrepareFree_def fq_inv_def fq_queue_ok_def fq_sending_ok_def fq_idle_ok_def)

lemma Flow_Free_ok:
  assumes "fq_free_ok q" "f \<in> set (fq_flows_list q)"
  shows "\<exists>q'. PacketPassFairQueueFlow_Free q f = Inr q' \<and> fq_free_ok q' \<and> fq_flows_list q' = remove1 f (fq_flows_list q)"
proof -
  define q' where "q' = q\<lparr>fq_sending_flow := (if Some f = fq_sending_flow q then None else fq_sending_flow q),
    fq_previous_flow := (if Some f = fq_previous_flow q then None else fq_previous_flow q),
    fq_queued_tree := (if fl_is_queued (fq_flow q f) then remove1 f (fq_queued_tree q) else fq_queued_tree q), fq_flows_list := remove1 f (fq_flows_list q)\<rparr>"
  have "PacketPassFairQueueFlow_Free q f = Inr q'" using assms(1) by (auto simp: PacketPassFairQueueFlow_Free_def Let_def q'_def fq_free_ok_def)
  moreover have "fq_free_ok q'" using assms by (auto simp: fq_free_ok_def q'_def)
  moreover have "fq_flows_list q' = remove1 f (fq_flows_list q)" by (simp add: q'_def)
  ultimately show ?thesis by blast
qed

definition freeing_ok :: "UdpGwClient \<Rightarrow> bool" where
  "freeing_ok u \<longleftrightarrow>
     indexed conaddr_comparator valid_conaddr (con_addr u) (ug_tree_by_conaddr u) (set (ug_connections_list u)) \<and>
     indexed uint16_comparator (\<lambda>_. True) (con_id u) (ug_tree_by_conid u) (set (ug_connections_list u)) \<and>
     distinct (ug_connections_list u) \<and> fq_free_ok (ug_send_queue u) \<and> ug_keepalive_qflow u \<notin> set (ug_connections_list u) \<and>
     set (fq_flows_list (ug_send_queue u)) = insert (ug_keepalive_qflow u) (set (ug_connections_list u))"

lemma connection_free_ok:
  assumes F: "freeing_ok u" and c: "c \<in> set (ug_connections_list u)"
  shows "\<exists>u'. connection_free u c = Some (Inr u') \<and> freeing_ok u' \<and> ug_connections_list u' = remove1 c (ug_connections_list u) \<and>
    ug_have_server u' = ug_have_server u \<and> ug_send_connector u' = ug_send_connector u"
proof -
  let ?L = "ug_connections_list u"
  have I: "indexed conaddr_comparator valid_conaddr (con_addr u) (ug_tree_by_conaddr u) (set ?L)" "indexed uint16_comparator (\<lambda>_. True) (con_id u) (ug_tree_by_conid u) (set ?L)"
    "distinct ?L" "fq_free_ok (ug_send_queue u)" "ug_keepalive_qflow u \<notin> set ?L" "set (fq_flows_list (ug_send_queue u)) = insert (ug_keepalive_qflow u) (set ?L)"
    using F by (auto simp: freeing_ok_def)
  obtain t1 where t1: "BAVL_Remove (ug_tree_by_conid u) c = Some (Inr t1)" "indexed uint16_comparator (\<lambda>_. True) (con_id u) t1 (set ?L - {c})"
    using u16.indexed_remove [OF I(2) c] by blast
  obtain t2 where t2: "BAVL_Remove (ug_tree_by_conaddr u) c = Some (Inr t2)" "indexed conaddr_comparator valid_conaddr (con_addr u) t2 (set ?L - {c})"
    using conaddr.indexed_remove [OF I(1) c] by blast
  have cq: "c \<in> set (fq_flows_list (ug_send_queue u))" using c I(6) by simp
  obtain q where q: "PacketPassFairQueueFlow_Free (ug_send_queue u) c = Inr q" "fq_free_ok q" "fq_flows_list q = remove1 c (fq_flows_list (ug_send_queue u))"
    using Flow_Free_ok [OF I(4) cq] by blast
  define u' where "u' = upd_con (u\<lparr>ug_num_connections := ug_num_connections u - 1, ug_connections_list := remove1 c ?L, ug_tree_by_conid := t1, ug_tree_by_conaddr := t2,
    ug_send_queue := q\<rparr>) c (\<lambda>c. c\<lparr>uc_first_job := False\<rparr>)"
  have "PacketPassFairQueueFlow_AssertFree (ug_send_queue u) c = Inr ()" using I(4) by (simp add: PacketPassFairQueueFlow_AssertFree_def fq_free_ok_def)
  then have run: "connection_free u c = Some (Inr u')" using t1(1) t2(1) q(1) by (simp add: connection_free_def Let_def u'_def)
  have keys: "con_addr u' = con_addr u" "con_id u' = con_id u" by (auto simp: u'_def con_addr_def con_id_def fun_eq_iff)
  have L': "ug_connections_list u' = remove1 c ?L" "set (remove1 c ?L) = set ?L - {c}" using I(3) by (simp_all add: u'_def)
  have "set (fq_flows_list q) = insert (ug_keepalive_qflow u) (set ?L) - {c}" using I(4,6) unfolding q(3) by (simp add: fq_free_ok_def)
  moreover have "c \<noteq> ug_keepalive_qflow u" using c I(5) by auto
  ultimately have "set (fq_flows_list q) = insert (ug_keepalive_qflow u) (set ?L - {c})" by auto
  then have "freeing_ok u'" unfolding freeing_ok_def keys L' using t1(2) t2(2) q(2) I(3,5) by (simp add: u'_def)
  then show ?thesis using run L'(1) by (intro exI [of _ u']) (simp add: u'_def)
qed

lemma free_connections_ends:
  "freeing_ok u \<Longrightarrow> \<exists>u'. free_connections u = Some (Inr u') \<and> freeing_ok u' \<and> ug_connections_list u' = [] \<and>
    ug_have_server u' = ug_have_server u \<and> ug_send_connector u' = ug_send_connector u"
proof (induction "length (ug_connections_list u)" arbitrary: u)
  case 0
  then have "free_connections u = Some (Inr u)" by (subst free_connections.simps) simp
  then show ?case using 0 by auto
next
  case (Suc n)
  then obtain c cs where L: "ug_connections_list u = c # cs" by (cases "ug_connections_list u") auto
  obtain u1 where u1: "connection_free u c = Some (Inr u1)" "freeing_ok u1" "ug_connections_list u1 = cs" "ug_have_server u1 = ug_have_server u" "ug_send_connector u1 = ug_send_connector u"
    using connection_free_ok [OF Suc.prems, of c] L by auto
  have "free_connections u = free_connections u1" using L u1(1) by (subst free_connections.simps) simp
  moreover have "n = length (ug_connections_list u1)" using Suc.hyps(2) L u1(3) by simp
  ultimately show ?case using Suc.hyps(1) [OF _ u1(2)] u1(4,5) by auto
qed

lemma Free_ok:
  assumes inv: "ug_inv u"
  shows "\<exists>u'. UdpGwClient_Free u = Some (Inr u') \<and> ug_connections_list u' = []"
proof -
  let ?u0 = "u\<lparr>ug_send_queue := PacketPassFairQueue_PrepareFree (ug_send_queue u)\<rparr>"
  have "freeing_ok ?u0" using inv PrepareFree_ok [of "ug_send_queue u"]
    by (auto simp: freeing_ok_def ug_inv_def table_ok_def queue_ok_def PacketPassFairQueue_PrepareFree_def)
  then obtain u1 where u1: "free_connections ?u0 = Some (Inr u1)" "freeing_ok u1" "ug_connections_list u1 = []" "ug_have_server u1 = ug_have_server u" "ug_send_connector u1 = ug_send_connector u"
    using free_connections_ends [of ?u0] by auto
  obtain u2 where u2: "(if ug_have_server u1 then free_server u1 else Inr u1) = Inr u2" "ug_send_queue u2 = ug_send_queue u1" "ug_keepalive_qflow u2 = ug_keepalive_qflow u1" "ug_connections_list u2 = []"
    using inv u1(3-5) by (auto simp: free_server_def PacketPassConnector_DisconnectOutput_def ug_inv_def server_ok_def)
  have F: "fq_free_ok (ug_send_queue u1)" "set (fq_flows_list (ug_send_queue u1)) = {ug_keepalive_qflow u1}" using u1(2,3) by (auto simp: freeing_ok_def)
  obtain q where q: "PacketPassFairQueueFlow_Free (ug_send_queue u1) (ug_keepalive_qflow u1) = Inr q" "fq_free_ok q" "fq_flows_list q = remove1 (ug_keepalive_qflow u1) (fq_flows_list (ug_send_queue u1))"
    using Flow_Free_ok [OF F(1), of "ug_keepalive_qflow u1"] F(2) by auto
  have "set (fq_flows_list q) = {}" using F unfolding q(3) by (simp add: fq_free_ok_def)
  then have "PacketPassFairQueue_Free q = Inr ()" using q(2) by (auto simp: PacketPassFairQueue_Free_def fq_free_ok_def)
  then have "UdpGwClient_Free u = Some (Inr (u2\<lparr>ug_send_queue := q\<rparr>))"
    unfolding UdpGwClient_Free_def Let_def u1(1) bindr_simps u2(1) u2(2,3) q(1) by simp
  then show ?thesis using u2(4) by simp
qed

subsection \<open>The beginning\<close>

lemma uint_max: "uint (- 1 :: 32 word) = 4294967295" "uint (- 1 :: 64 word) = 18446744073709551615"
  by (simp_all add: unsigned_minus_1_eq_mask mask_eq_exp_minus_1)

lemma udpgw_compute_mtu_value:
  assumes nonneg: "0 \<le> n" and le: "n \<le> INT_MAX"
  shows "udpgw_compute_mtu n = (if n + 21 \<le> INT_MAX then n + 21 else - 1)"
proof -
  note assms = nonneg le [unfolded INT_MAX_def]
  have v: "uint (of_int n :: size_t) = n" using assms by (simp add: uint_word_of_int take_bit_int_eq_self)
  have small: "(of_int n :: size_t) \<le> 2147483647" using assms v by (simp add: word_le_def)
  then have a: "\<not> (of_int n :: size_t) > SIZE_MAX - 18" by (simp add: SIZE_MAX_def not_less word_le_def)
  have s: "uint (18 + of_int n :: size_t) = n + 18" using assms v by (simp add: uint_word_ariths)
  then have b: "\<not> (18 + of_int n :: size_t) > SIZE_MAX - 3" using assms by (simp add: SIZE_MAX_def not_less word_le_def)
  have t: "uint (3 + (18 + of_int n) :: size_t) = n + 21" using assms s by (subst uint_word_ariths) simp
  have f: "bsize_fromint n = \<lparr> bs_is_overflow = False, bs_value = of_int n \<rparr>" using assms by (simp add: bsize_fromint_def SIZE_MAX_def uint_max)
  have mx: "bsize_max (bsize_fromsize 6) (bsize_fromsize 18) = bsize_fromsize 18" by (simp add: bsize_max_def bsize_fromsize_def)
  have e18: "bsize_add (bsize_fromsize 18) (bsize_fromint n) = \<lparr> bs_is_overflow = False, bs_value = 18 + of_int n \<rparr>"
    using a by (simp add: bsize_add_def f bsize_fromsize_def)
  have "bsize_add (bsize_fromsize 3) (bsize_add (bsize_max (bsize_fromsize 6) (bsize_fromsize 18)) (bsize_fromint n)) = \<lparr> bs_is_overflow = False, bs_value = 3 + (18 + of_int n) \<rparr>"
    unfolding mx e18 using b by (simp add: bsize_add_def bsize_fromsize_def)
  then show ?thesis using t assms by (simp add: udpgw_compute_mtu_def bsize_toint_def Let_def INT_MAX_def)
qed

lemma Init_ok:
  assumes mtu: "0 \<le> n" "n + 21 \<le> PACKETPROTO_MAXPAYLOAD" and mx: "0 < mx" and sz: "0 < sz" "4 * ChunkBuffer2_calc_blocks (n + 23) sz \<le> INT_MAX"
  shows "\<exists>u. UdpGwClient_Init k mem fmem cmem n mx sz = Inr (Some u) \<and> ug_inv u \<and> entries u = [] \<and> \<not> ug_have_server u \<and> ug_udp_mtu u = n \<and>
    ug_max_connections u = min mx 65536 \<and> ug_keepalive_qflow u = k \<and> ug_udpgw_mtu u = n + 21 \<and> ug_send_buffer_size u = sz"
proof -
  have cm: "udpgw_compute_mtu n = n + 21" using udpgw_compute_mtu_value [of n] mtu by (simp add: PACKETPROTO_MAXPAYLOAD_def UINT16_MAX_def INT_MAX_def)
  have le: "n + 23 \<le> 65537" using mtu(2) by (simp add: PACKETPROTO_MAXPAYLOAD_def UINT16_MAX_def)
  obtain i :: "int PacketPassInterface" where i: "PacketPassInterface_Init (n + 23) = Inr i" using mtu by (simp add: PacketPassInterface_Init_def)
  have fi: "ppi_inv i" "ppi_mtu i = n + 23" "ppi_state i = STATE_NONE" "\<not> ppi_handler_done i" "\<not> ppi_handler_requestcancel i"
    using ppi_Init_fields [OF i] i by (auto simp: PacketPassInterface_Init_def result_simps)
  define c where "c = \<lparr> ppc_input = i, ppc_input_mtu = n + 23, ppc_in_len = - 1, ppc_in = None, ppc_output = None \<rparr>"
  have c: "PacketPassConnector_Init (n + 23) = Inr c" using mtu i by (simp add: PacketPassConnector_Init_def c_def)
  define s where "s = i\<lparr>ppi_handler_done := True\<rparr>"
  have s: "PacketPassInterface_Sender_Init i = Inr s" "ppi_inv s" using fi by (simp_all add: PacketPassInterface_Sender_Init_def s_def ppi_inv_def)
  define p where "p = \<lparr> pim_output = s, pim_handler = True, pim_input = i, pim_timer = True \<rparr>"
  have p: "PacketPassInactivityMonitor_Init (PacketPassConnector_GetInput c) True = Inr p"
    using i s(1) fi by (simp add: PacketPassInactivityMonitor_Init_def PacketPassConnector_GetInput_def c_def PacketPassInterface_GetMTU_def PacketPassInterface_HasCancel_def p_def)
  obtain q0 where q0: "PacketPassFairQueue_Init (pim_input p) False 1 fmem = Inr (Some q0)" "fq_output q0 = s" "fq_flows_list q0 = []"
    using s(1) fi le by (simp add: PacketPassFairQueue_Init_def p_def PacketPassInterface_GetMTU_def FAIRQUEUE_MAX_TIME_def uint_max)
  have f0: "fq_inv q0" by (rule PacketPassFairQueue_Init_inv [OF _ _ _ q0(1)]) (use fi mtu in \<open>simp_all add: p_def\<close>)
  have mtu0: "ppi_mtu (fq_output q0) = n + 23" using q0(2) fi(2) by (simp add: s_def)
  obtain q1 j where q1: "PacketPassFairQueueFlow_Init q0 k = Inr q1" "fq_inv q1" "fq_flows_list q1 = [k]" "ppi_mtu (fq_output q1) = n + 23"
    "PacketPassInterface_Init (n + 23) = Inr j" "fl_input (fq_flow q1 k) = j"
    using flow_init_ok [OF f0, of k] q0(3) unfolding mtu0 by auto
  obtain j' where j': "PacketPassInterface_Sender_Init (fl_input (fq_flow q1 k)) = Inr j'"
    using ppi_Init_fields [OF q1(5)] q1(6) by (simp add: PacketPassInterface_Sender_Init_def)
  define q where "q = upd_flow q1 k (\<lambda>x. x\<lparr>fl_input := j'\<rparr>)"
  have q: "fq_inv q" "fq_flows_list q = [k]" "ppi_mtu (fq_output q) = n + 23"
    using fq_sender_init_inv [OF q1(2) _ j'] q1(3,4) by (simp_all add: q_def)
  define u where "u = \<lparr> ug_udp_mtu = n, ug_max_connections = (if mx > UINT16_MAX + 1 then UINT16_MAX + 1 else mx), ug_send_buffer_size = sz, ug_udpgw_mtu = n + 21, ug_pp_mtu = n + 23,
    ug_tree_by_conaddr = BAVL_Init mem, ug_tree_by_conid = BAVL_Init mem, ug_connections_list = [], ug_num_connections = 0,
    ug_next_conid = 0, ug_send_queue = q, ug_send_monitor = p\<lparr>pim_input := fq_output q0\<rparr>, ug_send_connector = c\<lparr>ppc_input := pim_output p\<rparr>,
    ug_keepalive_packet = u16_bytes 3 @ udpgw_header UDPGW_CLIENT_FLAG_KEEPALIVE 0,
    ug_keepalive_qflow = k, ug_keepalive_sending = False, ug_have_server = False, ug_server = None, ug_recv_if = j', ug_con = cmem \<rparr>"
  have pre: "n + 21 \<ge> 0" "n + 21 \<le> PACKETPROTO_MAXPAYLOAD" "n + 21 + 2 = n + 23" using mtu cm by auto
  have run: "UdpGwClient_Init k mem fmem cmem n mx sz = Inr (Some u)"
    unfolding UdpGwClient_Init_def ASSERT_True [OF mtu(1)] ASSERT_True [OF pre(1)] ASSERT_True [OF pre(2)] ASSERT_True [OF mx] ASSERT_True [OF sz(1)] cm Let_def pre(3) c andthen_Inr p q0(1) option.case
      q1(1) j' q_def [symmetric] u_def ..
  have "table_ok u" unfolding table_ok_def using mx by (simp add: u_def indexed_Init UINT16_MAX_def)
  moreover have "conf_ok u" using mtu sz by (simp add: conf_ok_def u_def)
  moreover have "queue_ok u" using q by (simp add: queue_ok_def u_def)
  moreover have "ppc_inv (c\<lparr>ppc_input := s\<rparr>)" using s(2) fi mtu by (simp add: ppc_inv_def ppc_input_ok_def c_def s_def)
  then have "server_ok u" by (simp add: server_ok_def u_def p_def c_def)
  moreover have "ug_connections_list u = []" by (simp add: u_def)
  ultimately have "ug_inv u" by (simp add: ug_inv_def)
  then show ?thesis using run by (intro exI [of _ u]) (simp add: u_def entries_def UINT16_MAX_def)
qed

subsection \<open>Histories\<close>

lemma first_job_ok:
  assumes inv: "ug_inv u" and c: "c \<in> set (ug_connections_list u)"
  shows "\<exists>u'. connection_first_job_handler u c = Inr u' \<and> ug_inv u' \<and> same_conf u u' \<and> entries u' = entries u \<and>
    sent_packet u u' c (UDPGW_CLIENT_FLAG_REBIND OR uc_first_flags (ug_con u c)) (uc_first_data (ug_con u c))"
proof -
  define u0 where "u0 = upd_con u c (\<lambda>c. c\<lparr>uc_first_job := False\<rparr>)"
  have keys: "con_addr u0 = con_addr u" "con_id u0 = con_id u" "ug_connections_list u0 = ug_connections_list u" "ug_udp_mtu u0 = ug_udp_mtu u"
    by (auto simp: u0_def con_addr_def con_id_def fun_eq_iff)
  have f0: "uc_send_ppflow (ug_con u0 d) = uc_send_ppflow (ug_con u d)" "uc_first_data (ug_con u0 d) = uc_first_data (ug_con u d)" "uc_first_flags (ug_con u0 d) = uc_first_flags (ug_con u d)" for d
    by (cases "d = c"; simp add: u0_def)+
  have sc: "same_conf u u0" by (simp add: same_conf_def u0_def)
  have "table_ok u0" by (rule table_cong [of u]) (use inv in \<open>auto simp: ug_inv_def u0_def con_addr_def con_id_def\<close>)
  moreover have "con_ok u0 d = con_ok u d" for d by (simp add: con_ok_def f0 keys)
  moreover have "queue_ok u0 = queue_ok u" by (simp add: queue_ok_def u0_def)
  ultimately have inv0: "ug_inv u0" using inv same_conf_ok [OF sc] by (simp add: ug_inv_def keys)
  let ?fl = "UDPGW_CLIENT_FLAG_REBIND OR uc_first_flags (ug_con u c)" and ?d = "uc_first_data (ug_con u c)"
  have d: "int (length ?d) \<le> ug_udp_mtu u0" using inv c by (simp add: ug_inv_def con_ok_def keys)
  obtain f where f: "connection_send u0 c ?fl ?d = Inr (upd_con u0 c (\<lambda>x. x\<lparr>uc_send_ppflow := f\<rparr>))" "ug_inv (upd_con u0 c (\<lambda>x. x\<lparr>uc_send_ppflow := f\<rparr>))"
    "sent_packet u0 (upd_con u0 c (\<lambda>x. x\<lparr>uc_send_ppflow := f\<rparr>)) c ?fl ?d"
    using send_inv [OF inv0 _ d, of c ?fl] c keys(3) by auto
  have run: "connection_first_job_handler u c = connection_send u0 c ?fl ?d" unfolding connection_first_job_handler_def Let_def u0_def [symmetric] f0 ..
  have e: "entries (upd_con u0 c (\<lambda>x. x\<lparr>uc_send_ppflow := f\<rparr>)) = entries u" unfolding entries_def upd_flow_addr keys using keys(3) by simp
  have "sent_packet u (upd_con u0 c (\<lambda>x. x\<lparr>uc_send_ppflow := f\<rparr>)) c ?fl ?d" using f(3) unfolding sent_packet_def f0 .
  moreover have "same_conf u (upd_con u0 c (\<lambda>x. x\<lparr>uc_send_ppflow := f\<rparr>))" using sc by (simp add: same_conf_def)
  ultimately show ?thesis using run f(1,2) e by (intro exI [of _ "upd_con u0 c (\<lambda>x. x\<lparr>uc_send_ppflow := f\<rparr>)"]) simp
qed

definition alloc_ok :: "(nat \<Rightarrow> bytes option) \<Rightarrow> bool" where
  "alloc_ok alloc \<longleftrightarrow> (\<forall>n b. alloc n = Some b \<longrightarrow> length b = n)"

text \<open>
  Everything that can happen to a client. Its user submits packets between IP addresses, of at most the MTU; \<^verbatim>\<open>malloc\<close> returns an address that is not in use. The reactor runs
  the first job of a new connection. A server is connected and disconnected, and sends packets. The parts below the client work on their own: the queue, the connector and the writers
  change in any way that keeps their invariants.
\<close>

definition can_submit :: "UdpGwClient \<Rightarrow> (nat \<Rightarrow> bytes option) \<Rightarrow> nat option \<Rightarrow> BAddr \<Rightarrow> BAddr \<Rightarrow> bytes \<Rightarrow> bool" where
  "can_submit u alloc m l r data \<longleftrightarrow> alloc_ok alloc \<and> is_ip_addr l \<and> is_ip_addr r \<and> int (length data) \<le> ug_udp_mtu u \<and>
     (\<forall>c. m = Some c \<longrightarrow> c \<notin> set (ug_connections_list u) \<and> c \<noteq> ug_keepalive_qflow u)"

definition can_receive :: "UdpGwClient \<Rightarrow> bytes \<Rightarrow> bool" where
  "can_receive u data \<longleftrightarrow> ug_have_server u \<and> ppi_state (ug_recv_if u) = STATE_BUSY \<and> int (length data) \<le> ug_udpgw_mtu u"

inductive ug_runs :: "UdpGwClient \<Rightarrow> UdpGwClient \<Rightarrow> bool" where
  ug_first_job: "c \<in> set (ug_connections_list u) \<Longrightarrow> uc_first_job (ug_con u c) \<Longrightarrow> connection_first_job_handler u c = Inr u' \<Longrightarrow> ug_runs u u'"
| ug_receive: "can_receive u data \<Longrightarrow> recv_interface_handler_send u data = Some (Inr (u', r)) \<Longrightarrow> ug_runs u u'"
| ug_monitor: "ug_runs u (send_monitor_handler u)"
| ug_queue_runs: "fq_inv q \<Longrightarrow> fq_flows_list q = fq_flows_list (ug_send_queue u) \<Longrightarrow> ppi_mtu (fq_output q) = ppi_mtu (fq_output (ug_send_queue u)) \<Longrightarrow>
    ug_runs u (u\<lparr>ug_send_queue := q\<rparr>)"
| ug_flow_runs: "c \<in> set (ug_connections_list u) \<Longrightarrow> writer_ok (ug_udpgw_mtu u) f \<Longrightarrow> ug_runs u (upd_con u c (\<lambda>x. x\<lparr>uc_send_ppflow := f\<rparr>))"
| ug_server_runs: "ppc_inv c \<Longrightarrow> ppc_input_mtu c = ppc_input_mtu (ug_send_connector u) \<Longrightarrow> (ppc_output c = None) = (ppc_output (ug_send_connector u) = None) \<Longrightarrow>
    ug_runs u (u\<lparr>ug_send_connector := c, ug_server := s, ug_recv_if := i\<rparr>)"

inductive ug_reach :: "UdpGwClient \<Rightarrow> bool" where
  ug_init: "0 \<le> n \<Longrightarrow> n + 21 \<le> PACKETPROTO_MAXPAYLOAD \<Longrightarrow> 0 < mx \<Longrightarrow> 0 < sz \<Longrightarrow> 4 * ChunkBuffer2_calc_blocks (n + 23) sz \<le> INT_MAX \<Longrightarrow>
    UdpGwClient_Init k mem fmem cmem n mx sz = Inr (Some u) \<Longrightarrow> ug_reach u"
| ug_submit: "ug_reach u \<Longrightarrow> can_submit u alloc m l r data \<Longrightarrow> UdpGwClient_SubmitPacket alloc m u l r is_dns data = Some (Inr u') \<Longrightarrow> ug_reach u'"
| ug_run: "ug_reach u \<Longrightarrow> ug_runs u u' \<Longrightarrow> ug_reach u'"
| ug_connect: "ug_reach u \<Longrightarrow> \<not> ug_have_server u \<Longrightarrow> fresh_streams si ri \<Longrightarrow> UdpGwClient_ConnectServer alloc u si ri = Inr (u', b) \<Longrightarrow> ug_reach u'"
| ug_disconnect: "ug_reach u \<Longrightarrow> ug_have_server u \<Longrightarrow> UdpGwClient_DisconnectServer u = Inr u' \<Longrightarrow> ug_reach u'"

lemma can_submit_D:
  assumes "can_submit u alloc m l r data"
  shows "is_ip_addr l" "is_ip_addr r" "int (length data) \<le> ug_udp_mtu u" "\<And>c. m = Some c \<Longrightarrow> c \<notin> set (ug_connections_list u) \<and> c \<noteq> ug_keepalive_qflow u"
    "\<And>n b. alloc n = Some b \<Longrightarrow> length b = n"
  using assms by (auto simp: can_submit_def alloc_ok_def)

text \<open>What the client does by itself keeps its invariant, its MTU, its connections, and whether it has a server.\<close>

lemma ug_runs_inv: "ug_runs u u' \<Longrightarrow> ug_inv u \<Longrightarrow> ug_inv u' \<and> ug_have_server u' = ug_have_server u \<and> ug_udp_mtu u' = ug_udp_mtu u \<and> set (entries u') = set (entries u)"
proof (induction rule: ug_runs.induct)
  case (ug_first_job c u u')
  then show ?case using first_job_ok [of u c] by (auto simp: same_conf_def)
next
  case (ug_receive u data u' r)
  then show ?case using recv_handler_ok [of u data] by (auto simp: can_receive_def same_conf_def)
next
  case (ug_monitor u)
  then show ?case by (simp add: send_monitor_handler_def)
next
  case (ug_queue_runs q u)
  have "table_ok (u\<lparr>ug_send_queue := q\<rparr>)" by (rule table_cong [of u]) (use ug_queue_runs.prems in \<open>auto simp: ug_inv_def con_addr_def con_id_def\<close>)
  moreover have "conf_ok (u\<lparr>ug_send_queue := q\<rparr>) = conf_ok u" "con_ok (u\<lparr>ug_send_queue := q\<rparr>) d = con_ok u d" "server_ok (u\<lparr>ug_send_queue := q\<rparr>) = server_ok u" for d
    by (simp_all add: conf_ok_def con_ok_def server_ok_def)
  moreover have "queue_ok (u\<lparr>ug_send_queue := q\<rparr>)" using ug_queue_runs by (simp add: ug_inv_def queue_ok_def)
  moreover have "entries (u\<lparr>ug_send_queue := q\<rparr>) = entries u" by (simp add: entries_def)
  ultimately show ?case using ug_queue_runs.prems by (simp add: ug_inv_def)
next
  case (ug_flow_runs c u f)
  have "ug_udpgw_mtu u = ug_udp_mtu u + 21" using ug_flow_runs.prems by (simp add: ug_inv_def conf_ok_def)
  moreover have "entries (upd_con u c (\<lambda>x. x\<lparr>uc_send_ppflow := f\<rparr>)) = entries u" unfolding entries_def upd_flow_addr by simp
  ultimately show ?case using ug_inv_flow [OF ug_flow_runs.prems] ug_flow_runs.hyps(2) by simp
next
  case (ug_server_runs c u i s)
  have S: "ppc_input_mtu c = ug_pp_mtu u" "ug_have_server u \<longleftrightarrow> ppc_output c \<noteq> None" using ug_server_runs by (auto simp: ug_inv_def server_ok_def)
  have "u\<lparr>ug_send_connector := c, ug_server := s, ug_recv_if := i\<rparr> = u\<lparr>ug_send_connector := c, ug_have_server := ug_have_server u, ug_server := s, ug_recv_if := i\<rparr>" by simp
  moreover have "entries (u\<lparr>ug_send_connector := c, ug_server := s, ug_recv_if := i\<rparr>) = entries u" by (simp add: entries_def con_addr_def con_id_def)
  ultimately show ?case using ug_inv_server [OF ug_server_runs.prems ug_server_runs.hyps(1) S] by simp
qed

lemma ug_reach_inv: "ug_reach u \<Longrightarrow> ug_inv u"
proof (induction rule: ug_reach.induct)
  case (ug_init n mx sz k mem fmem cmem u)
  then show ?case using Init_ok [OF ug_init(1-5), of k mem fmem cmem] by auto
next
  case (ug_submit u alloc m l r data is_dns u')
  show ?case using SubmitPacket_ok [where is_dns = is_dns and m = m and alloc = alloc, OF ug_submit.IH can_submit_D [OF ug_submit.hyps(2)]] ug_submit.hyps(3) by auto
next
  case (ug_run u u')
  then show ?case using ug_runs_inv by blast
next
  case (ug_connect u si ri alloc u' b)
  then show ?case using connect_ok [of u si ri alloc] by auto
next
  case (ug_disconnect u u')
  then show ?case using disconnect_ok [of u] by auto
qed

subsection \<open>Messages are read as they are written\<close>

lemma flag_bit: "(f :: u8) AND 8 \<noteq> 0 \<longleftrightarrow> bit f 3" "bit f 3 \<Longrightarrow> f OR 8 = f" "(f OR 8) AND 8 \<noteq> 0"
proof -
  have b: "bit (8 :: int) n \<longleftrightarrow> n = 3" for n using bit_exp_iff [of 3 n, where 'a = int] by auto
  show "f AND 8 \<noteq> 0 \<longleftrightarrow> bit f 3" "bit f 3 \<Longrightarrow> f OR 8 = f" "(f OR 8) AND 8 \<noteq> 0"
    by (auto simp: bit_eq_iff [where 'a = "8 word"] bit_and_iff bit_or_iff b)
qed

lemma u16_bytes_Cons: "y # z # ds = u16_bytes i @ rest \<longleftrightarrow> u16_of_bytes y z = i \<and> ds = rest"
proof
  assume h: "y # z # ds = u16_bytes i @ rest"
  then have "u16_bytes i = [y, z]" by (simp add: u16_bytes_def)
  then show "u16_of_bytes y z = i \<and> ds = rest" using h u16_bytes_inverse by auto
qed auto

lemma u32_bytes_Cons: "a # b # c # d # ds = u32_bytes i @ rest \<longleftrightarrow> u32_of_bytes a b c d = i \<and> ds = rest"
proof
  assume h: "a # b # c # d # ds = u32_bytes i @ rest"
  then have "u32_bytes i = [a, b, c, d]" by (simp add: u32_bytes_def)
  then show "u32_of_bytes a b c d = i \<and> ds = rest" using h u32_bytes_inverse by auto
qed auto

lemma parse_header_iff: "parse_header d = Inr (Some (f, i, rest)) \<longleftrightarrow> d = udpgw_header f i @ rest"
proof (cases "length d < 3")
  case False
  then obtain x y z ds where d: "d = x # y # z # ds" by (auto simp: not_less eval_nat_numeral Suc_le_length_iff)
  show ?thesis unfolding d by (auto simp: parse_header_def mem_read_def byte_order_defs udpgw_header_def u16_bytes_Cons)
qed (auto simp: parse_header_def)

lemma parse_remote_iff:
  "parse_remote f d = Inr (Some (r, rest)) \<longleftrightarrow> is_ip_addr r \<and> d = addr_bytes r @ rest \<and> (f AND UDPGW_CLIENT_FLAG_IPV6 \<noteq> 0 \<longleftrightarrow> BAddr_type r = 2)"
proof (cases r)
  case (BAddr_IPv4 ip port)
  show ?thesis
  proof (cases "length d < 6")
    case False
    then obtain x0 x1 x2 x3 x4 x5 ds where d: "d = x0 # x1 # x2 # x3 # x4 # x5 # ds" by (auto simp: not_less eval_nat_numeral Suc_le_length_iff)
    have "d = addr_bytes r @ rest \<longleftrightarrow> u32_of_bytes x0 x1 x2 x3 = ip \<and> u16_of_bytes x4 x5 = port \<and> ds = rest"
      unfolding d by (simp add: addr_bytes_def BAddr_IPv4 udpgw_addr_ipv4_def u32_bytes_Cons u16_bytes_Cons)
    then show ?thesis by (auto simp: parse_remote_def mem_read_def d BAddr_IPv4 BAddr_MakeIPv4_def BAddr_MakeIPv6_def is_ip_addr_def)
  qed (auto simp: parse_remote_def BAddr_IPv4 addr_bytes_def udpgw_addr_ipv4_def BAddr_MakeIPv6_def mem_read_def)
next
  case (BAddr_IPv6 ip port)
  show ?thesis
  proof (cases "length d < 18")
    case False
    then have "2 \<le> length (drop 16 d)" by simp
    then obtain x y ds where e: "drop 16 d = x # y # ds" by (cases "drop 16 d"; cases "tl (drop 16 d)") auto
    define p where "p = take 16 d"
    have p: "d = p @ x # y # ds" "length p = 16" using False e append_take_drop_id [of 16 d] by (simp_all add: p_def)
    have "d = addr_bytes r @ rest \<and> length ip = 16 \<longleftrightarrow> p = ip \<and> u16_of_bytes x y = port \<and> ds = rest"
      using p(2) by (auto simp: p(1) addr_bytes_def BAddr_IPv6 udpgw_addr_ipv6_def u16_bytes_Cons)
    then show ?thesis by (auto simp: parse_remote_def mem_read_def p BAddr_IPv6 BAddr_MakeIPv4_def BAddr_MakeIPv6_def is_ip_addr_def nth_append)
  qed (auto simp: parse_remote_def BAddr_IPv6 addr_bytes_def udpgw_addr_ipv6_def BAddr_MakeIPv4_def mem_read_def is_ip_addr_def)
qed (auto simp: parse_remote_def mem_read_def BAddr_MakeIPv4_def BAddr_MakeIPv6_def is_ip_addr_def)

lemma parse_packet_iff:
  "parse_packet n msg = Inr (Some (i, r, d)) \<longleftrightarrow> is_ip_addr r \<and> int (length d) \<le> n \<and>
     (\<exists>flags. msg = udpgw_packet flags i r d \<and> (BAddr_type r = 2 \<or> flags AND UDPGW_CLIENT_FLAG_IPV6 = 0))"
  (is "_ \<longleftrightarrow> _ \<and> _ \<and> (\<exists>f. ?msg f)")
proof -
  have "parse_packet n msg = Inr (Some (i, r, d)) \<longleftrightarrow>
      (\<exists>f rest. parse_header msg = Inr (Some (f, i, rest)) \<and> parse_remote f rest = Inr (Some (r, d)) \<and> int (length d) \<le> n)"
    by (auto simp: parse_packet_def andthen_def split: sum.splits option.splits if_splits prod.splits)
  also have "\<dots> \<longleftrightarrow> is_ip_addr r \<and> int (length d) \<le> n \<and> (\<exists>f. msg = udpgw_header f i @ addr_bytes r @ d \<and> (f AND UDPGW_CLIENT_FLAG_IPV6 \<noteq> 0 \<longleftrightarrow> BAddr_type r = 2))"
    unfolding parse_header_iff parse_remote_iff by auto
  also have "\<dots> \<longleftrightarrow> is_ip_addr r \<and> int (length d) \<le> n \<and> (\<exists>f. ?msg f)"
  proof (intro conj_cong refl iffI; elim exE conjE)
    fix f assume ip: "is_ip_addr r" and f: "msg = udpgw_header f i @ addr_bytes r @ d" "f AND UDPGW_CLIENT_FLAG_IPV6 \<noteq> 0 \<longleftrightarrow> BAddr_type r = 2"
    have "send_flags r f = f" using ip f(2) flag_bit(1,2) [of f] by (cases r) (auto simp: send_flags_def UDPGW_CLIENT_FLAG_IPV6_def)
    then show "\<exists>f. ?msg f" using f by (intro exI [of _ f]) (auto simp: udpgw_packet_def byte_order_defs)
  next
    fix f assume ip: "is_ip_addr r" and f: "msg = udpgw_packet f i r d" "BAddr_type r = 2 \<or> f AND UDPGW_CLIENT_FLAG_IPV6 = 0"
    then show "\<exists>f. msg = udpgw_header f i @ addr_bytes r @ d \<and> (f AND UDPGW_CLIENT_FLAG_IPV6 \<noteq> 0 \<longleftrightarrow> BAddr_type r = 2)"
      using flag_bit(3) [of f] by (intro exI [of _ "send_flags r f"], cases r) (auto simp: udpgw_packet_def byte_order_defs send_flags_def UDPGW_CLIENT_FLAG_IPV6_def is_ip_addr_def)
  qed
  finally show ?thesis .
qed

lemma entries_valid:
  assumes inv: "ug_inv u" and e: "(a, i) \<in> set (entries u)"
  shows "valid_conaddr a"
proof -
  obtain c where "c \<in> set (ug_connections_list u)" "con_addr u c = a" using e by (force simp: entries_def)
  then show ?thesis using valid_con [of u c] inv by (auto simp: ug_inv_def)
qed

text \<open>What is delivered for a message from the server.\<close>

lemma recv_message_ok:
  assumes inv: "ug_inv u" and rc: "can_receive u msg"
  shows "\<exists>u' x. recv_interface_handler_send u msg = Some (Inr (u', x)) \<and> set (entries u') = set (entries u) \<and>
    (\<forall>l r data. x = Some (l, r, data) \<longleftrightarrow> (\<exists>flags i. (\<lparr> ca_local_addr = l, ca_remote_addr = r \<rparr>, i) \<in> set (entries u) \<and> int (length data) \<le> ug_udp_mtu u \<and>
       msg = udpgw_packet flags i r data \<and> (BAddr_type r = 2 \<or> flags AND UDPGW_CLIENT_FLAG_IPV6 = 0)))"
proof -
  have ip: "is_ip_addr r" if "(\<lparr> ca_local_addr = l, ca_remote_addr = r \<rparr>, i) \<in> set (entries u)" for l r i using entries_valid [OF inv that] by (simp add: valid_conaddr_def)
  have s: "ug_have_server u" "ppi_state (ug_recv_if u) = STATE_BUSY" "int (length msg) \<le> ug_udpgw_mtu u" using rc by (auto simp: can_receive_def)
  obtain u' x where x: "recv_interface_handler_send u msg = Some (Inr (u', x))" "set (entries u') = set (entries u)" "delivers u msg x"
    using recv_handler_ok [OF inv s] by blast
  have "x = Some (l, r, data) \<longleftrightarrow> (\<exists>flags i. (\<lparr> ca_local_addr = l, ca_remote_addr = r \<rparr>, i) \<in> set (entries u) \<and> int (length data) \<le> ug_udp_mtu u \<and>
       msg = udpgw_packet flags i r data \<and> (BAddr_type r = 2 \<or> flags AND UDPGW_CLIENT_FLAG_IPV6 = 0))" for l r data
    using x(3) ip unfolding delivers_def parse_packet_iff by blast
  then show ?thesis using x(1,2) by blast
qed

subsection \<open>Properties\<close>

text \<open>
  C11: Every operation of a udpgw client, in every state that it can reach, ends and fails no assertion: a packet that its user submits, the first job of a connection, a packet from the server,
  an error of the decoder, connecting and disconnecting the server, and the end of the client, which leaves no connection.
\<close>

theorem UdpGwClient_safe:
  assumes "ug_reach u"
  shows "(\<forall>alloc m l r is_dns data. can_submit u alloc m l r data \<longrightarrow> (\<exists>u'. UdpGwClient_SubmitPacket alloc m u l r is_dns data = Some (Inr u'))) \<and>
    (\<forall>c\<in>set (ug_connections_list u). \<exists>u'. connection_first_job_handler u c = Inr u') \<and>
    (\<forall>msg. can_receive u msg \<longrightarrow> (\<exists>u' x. recv_interface_handler_send u msg = Some (Inr (u', x)))) \<and>
    (\<forall>alloc si ri. \<not> ug_have_server u \<longrightarrow> fresh_streams si ri \<longrightarrow> (\<exists>u'. UdpGwClient_ConnectServer alloc u si ri = Inr (u', alloc (nat (ug_udpgw_mtu u + 2)) \<noteq> None))) \<and>
    (ug_have_server u \<longrightarrow> no_fault (decoder_handler_error u) \<and> no_fault (UdpGwClient_DisconnectServer u)) \<and>
    (\<exists>u'. UdpGwClient_Free u = Some (Inr u') \<and> ug_connections_list u' = [])"
proof -
  note inv = ug_reach_inv [OF assms]
  have "\<exists>u'. UdpGwClient_SubmitPacket alloc m u l r is_dns data = Some (Inr u')" if s: "can_submit u alloc m l r data" for alloc m l r is_dns data
    using SubmitPacket_ok [where is_dns = is_dns and m = m and alloc = alloc, OF inv can_submit_D [OF s]] by blast
  moreover have "\<exists>u'. connection_first_job_handler u c = Inr u'" if "c \<in> set (ug_connections_list u)" for c using first_job_ok [OF inv that] by blast
  moreover have "\<exists>u' x. recv_interface_handler_send u msg = Some (Inr (u', x))" if "can_receive u msg" for msg
    using recv_handler_ok [OF inv, of msg] that unfolding can_receive_def by blast
  moreover have "\<exists>u'. UdpGwClient_ConnectServer alloc u si ri = Inr (u', alloc (nat (ug_udpgw_mtu u + 2)) \<noteq> None)" if "\<not> ug_have_server u" "fresh_streams si ri" for alloc si ri
    using connect_ok [OF inv that, of alloc] by (elim exE conjE) simp
  moreover have "no_fault (decoder_handler_error u) \<and> no_fault (UdpGwClient_DisconnectServer u)" if "ug_have_server u"
    using disconnect_ok [OF inv that] that by (auto simp: decoder_handler_error_def no_fault_def)
  ultimately show ?thesis using Free_ok [OF inv] by blast
qed

text \<open>
  C10: The table of connections is a cache: a packet between addresses that have a connection goes through that connection, which becomes the most recent one; when the table is full the
  connection that has not been used for the longest time is taken over, keeping its identifier, and the server is told so; otherwise a new connection is made with an identifier that no other
  has, if there is memory for it. The packet is written behind the header that tells the server the connection's identifier and remote address, unless the connection's buffer is full; that of
  a new connection waits for its first job.
\<close>

theorem UdpGwClient_SubmitPacket_lru:
  assumes "ug_reach u" "can_submit u alloc m l r data"
  shows "\<exists>u'. UdpGwClient_SubmitPacket alloc m u l r is_dns data = Some (Inr u') \<and>
    lru_submit (con_memory u alloc m) (nat (ug_max_connections u)) \<lparr> ca_local_addr = l, ca_remote_addr = r \<rparr> (entries u) (entries u') \<and>
    submitted (con_memory u alloc m) u u' \<lparr> ca_local_addr = l, ca_remote_addr = r \<rparr> (if is_dns then UDPGW_CLIENT_FLAG_DNS else 0) data"
  using SubmitPacket_ok [where is_dns = is_dns and m = m and alloc = alloc, OF ug_reach_inv [OF assms(1)] can_submit_D [OF assms(2)]] by blast

text \<open>
  C12: A message from the server is passed to the user exactly when it is a packet as \<open>connection_send\<close> writes it, with the identifier and the remote address of a connection, and of
  at most the MTU; the user gets the addresses of that connection and the data. Every other message is dropped, and no message changes the connections.
\<close>

theorem UdpGwClient_delivers:
  assumes "ug_reach u" "can_receive u msg"
  shows "\<exists>u' x. recv_interface_handler_send u msg = Some (Inr (u', x)) \<and> set (entries u') = set (entries u) \<and>
    (\<forall>l r data. x = Some (l, r, data) \<longleftrightarrow> (\<exists>flags i. (\<lparr> ca_local_addr = l, ca_remote_addr = r \<rparr>, i) \<in> set (entries u) \<and> int (length data) \<le> ug_udp_mtu u \<and>
       msg = udpgw_packet flags i r data \<and> (BAddr_type r = 2 \<or> flags AND UDPGW_CLIENT_FLAG_IPV6 = 0)))"
  by (rule recv_message_ok [OF ug_reach_inv [OF assms(1)] assms(2)])

text \<open>
  C13: In every state that a udpgw client can reach, the connections have different addresses and different identifiers, all of them IP addresses and identifiers below the
  maximum; there are at most as many as the maximum, which is at most the number of identifiers; and all connections are in both search trees.
\<close>

theorem udpgw_table_wf:
  assumes "ug_reach u"
  shows "distinct (map fst (entries u)) \<and> distinct (map snd (entries u)) \<and> int (length (entries u)) \<le> ug_max_connections u \<and> ug_max_connections u \<le> 65536 \<and>
    list_all (\<lambda>(a, i). valid_conaddr a \<and> int (unat i) < ug_max_connections u) (entries u) \<and>
    list_all (\<lambda>c. find_connection_by_conaddr u (con_addr u c) = Some (Inr (Some c)) \<and> find_connection_by_conid u (con_id u c) = Some (Inr (Some c))) (ug_connections_list u)"
proof -
  have T: "table_ok u" using ug_reach_inv [OF assms] by (simp add: ug_inv_def)
  let ?L = "ug_connections_list u"
  have I: "inj_on (con_addr u) (set ?L)" "inj_on (con_id u) (set ?L)" "distinct ?L" using T conaddr.indexed_inj u16.indexed_inj by (auto simp: table_ok_def)
  have find: "find_connection_by_conaddr u (con_addr u c) = Some (Inr (Some c)) \<and> find_connection_by_conid u (con_id u c) = Some (Inr (Some c))" if c: "c \<in> set ?L" for c
  proof -
    obtain q where q: "find_connection_by_conaddr u (con_addr u c) = Some (Inr q)" "\<And>d. q = Some d \<longleftrightarrow> d \<in> set ?L \<and> con_addr u d = con_addr u c"
      using find_by_conaddr_ok [OF T valid_con [OF T c]] by blast
    obtain p where p: "find_connection_by_conid u (con_id u c) = Some (Inr p)" "\<And>d. p = Some d \<longleftrightarrow> d \<in> set ?L \<and> con_id u d = con_id u c"
      using find_by_conid_ok [OF T] by blast
    show ?thesis using q(1) q(2) [of c] p(1) p(2) [of c] c by simp
  qed
  have "map fst (entries u) = map (con_addr u) ?L" "map snd (entries u) = map (con_id u) ?L" by (simp_all add: entries_def)
  then show ?thesis using I T find valid_con [OF T] by (auto simp: distinct_map table_ok_def entries_def list_all_iff comp_def)
qed

subsection \<open>An example\<close>

lemma example_client:
  obtains u where "ug_reach u" "entries u = []" "\<not> ug_have_server u" "ug_udp_mtu u = 1500" "ug_max_connections u = 256" "ug_keepalive_qflow u = 0" "ug_udpgw_mtu u = 1521"
    "ug_send_buffer_size u = 8"
proof -
  obtain mem :: "nat \<Rightarrow> BAVLNode" and fmem :: "nat \<Rightarrow> PacketPassFairQueueFlow" and cmem :: "nat \<Rightarrow> UdpGwClient_connection" where True by blast
  have b: "4 * ChunkBuffer2_calc_blocks (1500 + 23) 8 \<le> INT_MAX" by code_simp
  obtain u where u: "UdpGwClient_Init 0 mem fmem cmem 1500 256 8 = Inr (Some u)" "entries u = []" "\<not> ug_have_server u" "ug_udp_mtu u = 1500"
    "ug_max_connections u = 256" "ug_keepalive_qflow u = 0" "ug_udpgw_mtu u = 1521" "ug_send_buffer_size u = 8"
    using Init_ok [of 1500 256 8 0 mem fmem cmem] b by (auto simp: PACKETPROTO_MAXPAYLOAD_def UINT16_MAX_def)
  have "ug_reach u" by (rule ug_init [OF _ _ _ _ b u(1)]) (simp_all add: PACKETPROTO_MAXPAYLOAD_def UINT16_MAX_def)
  then show ?thesis using u that by blast
qed

abbreviation example_l :: BAddr where "example_l \<equiv> BAddr_IPv4 16777226 13330"
abbreviation example_r :: BAddr where "example_r \<equiv> BAddr_IPv4 134744072 13568"
abbreviation example_a :: UdpGwClient_conaddr where "example_a \<equiv> \<lparr> ca_local_addr = example_l, ca_remote_addr = example_r \<rparr>"
abbreviation example_alloc :: "nat \<Rightarrow> bytes option" where "example_alloc \<equiv> \<lambda>n. Some (replicate n 0)"

lemma example_can_submit:
  "entries u = [] \<Longrightarrow> ug_keepalive_qflow u = 0 \<Longrightarrow> ug_udp_mtu u = 1500 \<Longrightarrow> can_submit u example_alloc (Some 1) example_l example_r [1, 2, 3]"
  by (simp add: can_submit_def alloc_ok_def is_ip_addr_def entries_def)

lemma example_memory: "ug_udpgw_mtu u = 1521 \<Longrightarrow> ug_send_buffer_size u = 8 \<Longrightarrow> con_memory u example_alloc (Some 1)"
  by (simp add: con_memory_def flow_memory_def) code_simp

theorem UdpGwClient_safe_witness:
  "\<exists>u u' u''. ug_reach u \<and> can_submit u example_alloc (Some 1) example_l example_r [1, 2, 3] \<and>
     UdpGwClient_SubmitPacket example_alloc (Some 1) u example_l example_r True [1, 2, 3] = Some (Inr u') \<and> UdpGwClient_Free u = Some (Inr u'')"
proof -
  obtain u where u: "ug_reach u" "entries u = []" "ug_keepalive_qflow u = 0" "ug_udp_mtu u = 1500" using example_client by metis
  note c = example_can_submit [OF u(2-4)]
  show ?thesis using UdpGwClient_safe [OF u(1)] u(1) c by blast
qed

theorem UdpGwClient_SubmitPacket_lru_witness:
  "\<exists>u u' i. ug_reach u \<and> entries u = [] \<and> can_submit u example_alloc (Some 1) example_l example_r [1, 2, 3] \<and>
     UdpGwClient_SubmitPacket example_alloc (Some 1) u example_l example_r False [1, 2, 3] = Some (Inr u') \<and>
     entries u' = [(example_a, i)]"
proof -
  obtain u where u: "ug_reach u" "entries u = []" "ug_keepalive_qflow u = 0" "ug_udp_mtu u = 1500" "ug_udpgw_mtu u = 1521" "ug_send_buffer_size u = 8" "ug_max_connections u = 256"
    using example_client by metis
  note c = example_can_submit [OF u(2-4)] and m = example_memory [OF u(5,6)]
  obtain u' where u': "UdpGwClient_SubmitPacket example_alloc (Some 1) u example_l example_r False [1, 2, 3] = Some (Inr u')"
    "lru_submit (con_memory u example_alloc (Some 1)) (nat (ug_max_connections u)) example_a (entries u) (entries u')"
    using UdpGwClient_SubmitPacket_lru [OF u(1) c, where is_dns = False] by blast
  obtain i where "entries u' = [(example_a, i)]" using u'(2) m u(2,7) by (auto simp: lru_submit_def)
  then show ?thesis using u c u'(1) by blast
qed

text \<open>The example's client, with a connection and a server that has sent something.\<close>

lemma example_busy:
  obtains u i where "ug_reach u" "entries u = [(example_a, i)]" "ug_have_server u" "ppi_state (ug_recv_if u) = STATE_BUSY" "ug_udp_mtu u = 1500" "ug_udpgw_mtu u = 1521"
proof -
  obtain u where u: "ug_reach u" "entries u = []" "ug_keepalive_qflow u = 0" "ug_udp_mtu u = 1500" "ug_udpgw_mtu u = 1521" "ug_send_buffer_size u = 8" "ug_max_connections u = 256"
    "\<not> ug_have_server u" using example_client by metis
  note c = example_can_submit [OF u(2-4)] and m = example_memory [OF u(5,6)]
  obtain u1 where u1: "UdpGwClient_SubmitPacket example_alloc (Some 1) u example_l example_r False [1, 2, 3] = Some (Inr u1)" "same_conf u u1"
    "lru_submit (con_memory u example_alloc (Some 1)) (nat (ug_max_connections u)) example_a (entries u) (entries u1)"
    using SubmitPacket_ok [where is_dns = False and m = "Some 1" and alloc = example_alloc, OF ug_reach_inv [OF u(1)] can_submit_D [OF c]] by blast
  have r1: "ug_reach u1" by (rule ug_submit [OF u(1) c u1(1)])
  obtain i where i: "entries u1 = [(example_a, i)]" using u1(3) m u(2,7) by (auto simp: lru_submit_def)
  have c1: "\<not> ug_have_server u1" "fresh_streams StreamPassInterface_Init StreamRecvInterface_Init"
    using u1(2) u(8) by (simp_all add: same_conf_def fresh_streams_def StreamPassInterface_Init_def StreamRecvInterface_Init_def)
  obtain u2 where u2: "UdpGwClient_ConnectServer example_alloc u1 StreamPassInterface_Init StreamRecvInterface_Init = Inr (u2, True)" "entries u2 = entries u1" "ug_have_server u2"
    "ug_udp_mtu u2 = 1500" "ug_udpgw_mtu u2 = 1521"
    using connect_ok [OF ug_reach_inv [OF r1] c1, of example_alloc] u1(2) u(4,5) by (auto simp: same_conf_def)
  have r2: "ug_reach u2" by (rule ug_connect [OF r1 c1 u2(1)])
  define u3 where "u3 = u2\<lparr>ug_send_connector := ug_send_connector u2, ug_server := ug_server u2, ug_recv_if := (ug_recv_if u2)\<lparr>ppi_state := STATE_BUSY\<rparr>\<rparr>"
  have "ppc_inv (ug_send_connector u2)" using ug_reach_inv [OF r2] by (simp add: ug_inv_def server_ok_def)
  then have r3: "ug_reach u3" unfolding u3_def by (intro ug_run [OF r2] ug_server_runs) simp_all
  have "entries u3 = entries u2" by (simp add: u3_def entries_def con_addr_def con_id_def)
  then show ?thesis using that [of u3 i] r3 i u2 by (simp add: u3_def)
qed

theorem UdpGwClient_delivers_witness:
  "\<exists>u i u'. ug_reach u \<and> can_receive u (udpgw_packet 0 i example_r [7, 8]) \<and>
     recv_interface_handler_send u (udpgw_packet 0 i example_r [7, 8]) = Some (Inr (u', Some (example_l, example_r, [7, 8])))"
proof -
  obtain u i where u: "ug_reach u" "entries u = [(example_a, i)]" "ug_have_server u" "ppi_state (ug_recv_if u) = STATE_BUSY" "ug_udp_mtu u = 1500" "ug_udpgw_mtu u = 1521"
    using example_busy by metis
  let ?msg = "udpgw_packet 0 i example_r [7, 8]"
  have r: "can_receive u ?msg" using u(3-6) udpgw_packet_length [of example_r 0 i "[7, 8]"] by (simp add: can_receive_def is_ip_addr_def)
  have m: "\<exists>flags j. (example_a, j) \<in> set (entries u) \<and> int (length [7 :: u8, 8]) \<le> ug_udp_mtu u \<and> ?msg = udpgw_packet flags j example_r [7, 8] \<and>
      (BAddr_type example_r = 2 \<or> flags AND UDPGW_CLIENT_FLAG_IPV6 = 0)" using u(2,5) by (intro exI [of _ 0] exI [of _ i]) simp
  obtain u' x where x: "recv_interface_handler_send u ?msg = Some (Inr (u', x))" "x = Some (example_l, example_r, [7, 8])"
    using UdpGwClient_delivers [OF u(1) r] m by metis
  show ?thesis using u(1) r x(1) unfolding x(2) by blast
qed

theorem udpgw_table_wf_witness:
  "\<exists>u i. ug_reach u \<and> entries u = [(example_a, i)] \<and> int (unat i) < ug_max_connections u \<and> ug_max_connections u \<le> 65536"
proof -
  obtain u i where u: "ug_reach u" "entries u = [(example_a, i)]" using example_busy by metis
  then show ?thesis using udpgw_table_wf [OF u(1)] by auto
qed

end
