(* ===== verification/Socks_Udpgw.thy ===== *)
theory Socks_Udpgw
  imports Udpgw_Life
begin

section \<open>The udpgw client through SOCKS: \<^verbatim>\<open>tun2socks/SocksUdpGwClient.c\<close>\<close>

text \<open>
  \<open>SocksUdpGwClient\<close> gives the udpgw client its server: a SOCKS client that connects to the udpgw server, and is started again some time after it has failed. The
  timer is whether it is running. The streams that \<open>BSocksClient_GetSendInterface\<close> and \<open>BSocksClient_GetRecvInterface\<close> return are those of the
  connection, which has just initialised them when the SOCKS client reports that it is up. \<open>connector_ok\<close> is the result of \<^verbatim>\<open>BConnector_Init\<close>.
\<close>

subsection \<open>State and operations\<close>

record SocksUdpGwClient =
  su_udp_mtu :: int
  su_socks_server_addr :: BAddr
  su_auth_info :: "BSocksClient_auth_info list"
  su_remote_udpgw_addr :: BAddr
  su_udpgw_client :: UdpGwClient
  su_reconnect_timer :: bool
  su_have_socks :: bool
  su_socks_client :: BSocksClient
  su_socks_up :: bool

definition BSocksClient_GetSendInterface :: "BSocksClient \<Rightarrow> int StreamPassInterface result" where
  "BSocksClient_GetSendInterface c = ASSERT (sc_state c = SC_UP) (Inr StreamPassInterface_Init)"

definition BSocksClient_GetRecvInterface :: "BSocksClient \<Rightarrow> int StreamRecvInterface result" where
  "BSocksClient_GetRecvInterface c = ASSERT (sc_state c = SC_UP) (Inr StreamRecvInterface_Init)"

definition free_socks :: "SocksUdpGwClient \<Rightarrow> SocksUdpGwClient result" where
  "free_socks w =
     ASSERT (su_have_socks w)
     (andthen (if su_socks_up w then UdpGwClient_DisconnectServer (su_udpgw_client w) else Inr (su_udpgw_client w)) (\<lambda>u.
      andthen (BSocksClient_Free (su_socks_client w)) (\<lambda>c.
      Inr (w\<lparr>su_udpgw_client := u, su_socks_client := c, su_have_socks := False\<rparr>))))"

definition try_connect :: "bool \<Rightarrow> SocksUdpGwClient \<Rightarrow> SocksUdpGwClient result" where
  "try_connect connector_ok w =
     ASSERT (\<not> su_have_socks w) (ASSERT (\<not> su_reconnect_timer w)
     (andthen (BSocksClient_Init (su_socks_client w) (su_socks_server_addr w) (su_auth_info w) (su_remote_udpgw_addr w) connector_ok) (\<lambda>r.
      case r of None \<Rightarrow> Inr (w\<lparr>su_reconnect_timer := True\<rparr>)
      | Some c \<Rightarrow> Inr (w\<lparr>su_socks_client := c, su_have_socks := True, su_socks_up := False\<rparr>))))"

text \<open>The reactor has stopped the timer when it calls the handler.\<close>

definition reconnect_timer_handler :: "bool \<Rightarrow> SocksUdpGwClient \<Rightarrow> SocksUdpGwClient result" where
  "reconnect_timer_handler connector_ok w =
     (let w = w\<lparr>su_reconnect_timer := False\<rparr> in ASSERT (\<not> su_have_socks w) (try_connect connector_ok w))"

definition free_and_wait :: "SocksUdpGwClient \<Rightarrow> SocksUdpGwClient result" where
  "free_and_wait w = andthen (free_socks w) (\<lambda>w. Inr (w\<lparr>su_reconnect_timer := True\<rparr>))"

definition socks_client_handler :: "(nat \<Rightarrow> bytes option) \<Rightarrow> SocksUdpGwClient \<Rightarrow> socks_event \<Rightarrow> SocksUdpGwClient result" where
  "socks_client_handler alloc w event =
     ASSERT (su_have_socks w)
     (case event of
        BSOCKSCLIENT_EVENT_UP \<Rightarrow>
          ASSERT (\<not> su_socks_up w)
          (andthen (BSocksClient_GetSendInterface (su_socks_client w)) (\<lambda>send_if.
           andthen (BSocksClient_GetRecvInterface (su_socks_client w)) (\<lambda>recv_if.
           andthen (UdpGwClient_ConnectServer alloc (su_udpgw_client w) send_if recv_if) (\<lambda>(u, ok).
           let w = w\<lparr>su_udpgw_client := u\<rparr> in
           if ok then Inr (w\<lparr>su_socks_up := True\<rparr>) else free_and_wait w))))
      | BSOCKSCLIENT_EVENT_ERROR \<Rightarrow> free_and_wait w
      | BSOCKSCLIENT_EVENT_ERROR_CLOSED \<Rightarrow> free_and_wait w)"

definition udpgw_handler_servererror :: "SocksUdpGwClient \<Rightarrow> SocksUdpGwClient result" where
  "udpgw_handler_servererror w = ASSERT (su_have_socks w) (ASSERT (su_socks_up w) (free_and_wait w))"

definition SocksUdpGwClient_Init :: "nat \<Rightarrow> (nat \<Rightarrow> BAVLNode) \<Rightarrow> (nat \<Rightarrow> PacketPassFairQueueFlow) \<Rightarrow> (nat \<Rightarrow> UdpGwClient_connection) \<Rightarrow> BSocksClient \<Rightarrow> bool \<Rightarrow>
    int \<Rightarrow> int \<Rightarrow> int \<Rightarrow> BAddr \<Rightarrow> BSocksClient_auth_info list \<Rightarrow> BAddr \<Rightarrow> bool \<Rightarrow> SocksUdpGwClient option result" where
  "SocksUdpGwClient_Init qflow mem fmem cmem cinit upinit udp_mtu max_connections send_buffer_size socks_server_addr auth_info remote_udpgw_addr connector_ok =
     ASSERT (\<not> BAddr_IsInvalid socks_server_addr) (ASSERT (BAddr_type remote_udpgw_addr = 1 \<or> BAddr_type remote_udpgw_addr = 2)
     (andthen (UdpGwClient_Init qflow mem fmem cmem udp_mtu max_connections send_buffer_size) (\<lambda>r.
      case r of None \<Rightarrow> Inr None
      | Some u \<Rightarrow>
          andthen (try_connect connector_ok
            \<lparr> su_udp_mtu = udp_mtu, su_socks_server_addr = socks_server_addr, su_auth_info = auth_info, su_remote_udpgw_addr = remote_udpgw_addr, su_udpgw_client = u,
              su_reconnect_timer = False, su_have_socks = False, su_socks_client = cinit, su_socks_up = upinit \<rparr>) (\<lambda>w. Inr (Some w)))))"

definition SocksUdpGwClient_Free :: "SocksUdpGwClient \<Rightarrow> SocksUdpGwClient result option" where
  "SocksUdpGwClient_Free w =
     bindr (Some (if su_have_socks w then free_socks w else Inr w)) (\<lambda>w.
     let w = w\<lparr>su_reconnect_timer := False\<rparr> in
     bindr (UdpGwClient_Free (su_udpgw_client w)) (\<lambda>u. Some (Inr (w\<lparr>su_udpgw_client := u\<rparr>))))"

definition SocksUdpGwClient_SubmitPacket :: "(nat \<Rightarrow> bytes option) \<Rightarrow> nat option \<Rightarrow> SocksUdpGwClient \<Rightarrow> BAddr \<Rightarrow> BAddr \<Rightarrow> bool \<Rightarrow> bytes \<Rightarrow> SocksUdpGwClient result option" where
  "SocksUdpGwClient_SubmitPacket alloc m w local_addr remote_addr is_dns data =
     bindr (UdpGwClient_SubmitPacket alloc m (su_udpgw_client w) local_addr remote_addr is_dns data) (\<lambda>u. Some (Inr (w\<lparr>su_udpgw_client := u\<rparr>)))"

subsection \<open>What the SOCKS client is connected to does not change\<close>

definition socks_goal :: "BSocksClient \<Rightarrow> BSocksClient_auth_info list \<times> BAddr" where
  "socks_goal c = (sc_auth_info c, sc_dest_addr c)"

lemma goal_io:
  "init_control_io c = Inr c' \<Longrightarrow> socks_goal c' = socks_goal c" "free_control_io c = Inr c' \<Longrightarrow> socks_goal c' = socks_goal c"
  "init_up_io c = Inr c' \<Longrightarrow> socks_goal c' = socks_goal c" "start_receive c d n = Inr c' \<Longrightarrow> socks_goal c' = socks_goal c"
  "do_receive c = Inr c' \<Longrightarrow> socks_goal c' = socks_goal c"
  "send_buffer c k = Inr c' \<Longrightarrow> socks_goal c' = socks_goal c" "buffer_write c off bs = Inr c' \<Longrightarrow> socks_goal c' = socks_goal c"
  "reserve_buffer realloc c k' = (c', b) \<Longrightarrow> socks_goal c' = socks_goal c"
  by (auto simp: socks_goal_def init_control_io_def free_control_io_def init_up_io_def start_receive_def do_receive_def send_buffer_def buffer_write_def reserve_buffer_def result_simps
      split: option.splits if_splits)

lemma goal_hello: "write_hello_methods c i as = Inr c' \<Longrightarrow> socks_goal c' = socks_goal c"
  by (induction c i as rule: write_hello_methods.induct) (auto simp: result_simps dest!: goal_io)

lemma goal_simps [simp]:
  "socks_goal (c\<lparr>sc_state := st\<rparr>) = socks_goal c" "socks_goal (c\<lparr>sc_con := con\<rparr>) = socks_goal c" "socks_goal (c\<lparr>sc_buffer := b\<rparr>) = socks_goal c"
  "socks_goal (c\<lparr>sc_recv_len := n\<rparr>) = socks_goal c" "socks_goal (c\<lparr>sc_recv_if := i\<rparr>) = socks_goal c" "socks_goal (c\<lparr>sc_sender := sd\<rparr>) = socks_goal c"
  by (simp_all add: socks_goal_def)

lemma goal_connector: "connector_handler realloc c e ok = Inr (c', ev) \<Longrightarrow> socks_goal c' = socks_goal c"
  by (auto simp: connector_handler_def connector_send_hello_def connector_fail1_def report_error_def result_simps Let_def dest!: goal_io goal_hello split: if_splits prod.splits)

lemma goal_connection: "connection_handler c closed = Inr (c', ev) \<Longrightarrow> socks_goal c' = socks_goal c"
  by (auto simp: connection_handler_def report_error_def result_simps split: if_splits)

lemma goal_auth_finished: "auth_finished realloc c = Inr (c', ev) \<Longrightarrow> socks_goal c' = socks_goal c"
  by (auto simp: auth_finished_def report_error_def result_simps Let_def dest!: goal_io split: if_splits prod.splits BAddr.splits)

lemma goal_send_password: "send_password realloc c ai = Inr (c', ev) \<Longrightarrow> socks_goal c' = socks_goal c"
  by (auto simp: send_password_def report_error_def result_simps Let_def dest!: goal_io split: if_splits prod.splits)

lemma goal_recv: "socks_recv_handler_done realloc c n = Inr (c', ev) \<Longrightarrow> socks_goal c' = socks_goal c"
  by (auto simp: socks_recv_handler_done_def recv_hello_def recv_reply_header_def recv_password_reply_def recv_reply_rest_def report_error_def result_simps Let_def
      dest!: goal_io goal_auth_finished goal_send_password split: if_splits option.splits socks_state.splits)

lemma goal_send: "socks_send_handler_done realloc c = Inr (c', ev) \<Longrightarrow> socks_goal c' = socks_goal c"
  by (auto simp: socks_send_handler_done_def receive_next_def report_error_def result_simps Let_def dest!: goal_io split: if_splits prod.splits socks_state.splits)

lemma goal_step: "socks_step realloc s (Inr t) \<Longrightarrow> socks_goal (so_client t) = socks_goal (so_client s)"
  by (erule socks_step.cases) (auto simp: so_report_def so_set_def socks_sender_step_def socks_stream_sent_def socks_stream_ask_def socks_stream_received_def socks_run_recv_done_def
      socks_run_send_done_def result_simps dest!: goal_connector goal_connection goal_recv goal_send split: option.splits)

subsection \<open>Histories\<close>

text \<open>
  The client with what the SOCKS server has been sent and has answered since the SOCKS client was started. A step is a step of the SOCKS client until it is up, reported to the handler; then
  only its connection reports. Or the timer expires, the decoder of the udpgw client finds an error, or the udpgw client works by itself. The result of a step may be a
  fault. The user submits packets in between.
\<close>

record udpgw_sys =
  sg_client :: SocksUdpGwClient
  sg_out :: bytes
  sg_in :: bytes

definition sg_socks :: "udpgw_sys \<Rightarrow> socks_sys" where
  "sg_socks s = \<lparr> so_client = su_socks_client (sg_client s), so_out = sg_out s, so_in = sg_in s, so_event = None \<rparr>"

definition sg_report :: "(nat \<Rightarrow> bytes option) \<Rightarrow> udpgw_sys \<Rightarrow> socks_sys \<Rightarrow> udpgw_sys result" where
  "sg_report alloc s t =
     (let w = (sg_client s)\<lparr>su_socks_client := so_client t\<rparr> in
      andthen (case so_event t of None \<Rightarrow> Inr w | Some ev \<Rightarrow> socks_client_handler alloc w ev) (\<lambda>w.
      Inr \<lparr> sg_client = w, sg_out = so_out t, sg_in = so_in t \<rparr>))"

inductive sg_step :: "(bytes option \<Rightarrow> nat \<Rightarrow> bytes option) \<Rightarrow> udpgw_sys \<Rightarrow> udpgw_sys result \<Rightarrow> bool" for realloc where
  sg_socks_runs: "su_have_socks (sg_client s) \<Longrightarrow> \<not> su_socks_up (sg_client s) \<Longrightarrow> socks_step realloc (sg_socks s) r \<Longrightarrow>
    sg_step realloc s (andthen r (sg_report alloc s))"
| sg_connection: "su_have_socks (sg_client s) \<Longrightarrow> su_socks_up (sg_client s) \<Longrightarrow>
    sg_step realloc s (andthen (so_report (sg_socks s) (connection_handler (su_socks_client (sg_client s)) closed)) (sg_report alloc s))"
| sg_timer: "su_reconnect_timer (sg_client s) \<Longrightarrow>
    sg_step realloc s (andthen (reconnect_timer_handler connector_ok (sg_client s)) (\<lambda>w. Inr \<lparr> sg_client = w, sg_out = [], sg_in = [] \<rparr>))"
| sg_decoder_error: "ug_have_server (su_udpgw_client (sg_client s)) \<Longrightarrow>
    sg_step realloc s (andthen (decoder_handler_error (su_udpgw_client (sg_client s))) (\<lambda>u.
      andthen (udpgw_handler_servererror ((sg_client s)\<lparr>su_udpgw_client := u\<rparr>)) (\<lambda>w. Inr (s\<lparr>sg_client := w\<rparr>))))"
| sg_udpgw_runs: "ug_runs (su_udpgw_client (sg_client s)) u \<Longrightarrow> sg_step realloc s (Inr (s\<lparr>sg_client := (sg_client s)\<lparr>su_udpgw_client := u\<rparr>\<rparr>))"

definition auth_wf :: "BSocksClient_auth_info list \<Rightarrow> bool" where
  "auth_wf as \<longleftrightarrow> (\<forall>a\<in>set as. (auth_type a = 0 \<or> auth_type a = 2) \<and> auth_username_len a \<le> length (auth_username a) \<and> auth_password_len a \<le> length (auth_password a))"

inductive sg_reach :: "(bytes option \<Rightarrow> nat \<Rightarrow> bytes option) \<Rightarrow> udpgw_sys \<Rightarrow> bool" for realloc where
  sg_init: "0 \<le> n \<Longrightarrow> n + 21 \<le> PACKETPROTO_MAXPAYLOAD \<Longrightarrow> 0 < mx \<Longrightarrow> 0 < sz \<Longrightarrow> 4 * ChunkBuffer2_calc_blocks (n + 23) sz \<le> INT_MAX \<Longrightarrow>
    \<not> BAddr_IsInvalid server \<Longrightarrow> is_ip_addr remote \<Longrightarrow> auth_wf auth \<Longrightarrow>
    SocksUdpGwClient_Init k mem fmem cmem cinit upinit n mx sz server auth remote connector_ok = Inr (Some w) \<Longrightarrow> sg_reach realloc \<lparr> sg_client = w, sg_out = [], sg_in = [] \<rparr>"
| sg_trans: "sg_reach realloc s \<Longrightarrow> sg_step realloc s (Inr t) \<Longrightarrow> sg_reach realloc t"
| sg_submit: "sg_reach realloc s \<Longrightarrow> can_submit (su_udpgw_client (sg_client s)) alloc m l r data \<Longrightarrow>
    SocksUdpGwClient_SubmitPacket alloc m (sg_client s) l r is_dns data = Some (Inr w) \<Longrightarrow> sg_reach realloc (s\<lparr>sg_client := w\<rparr>)"

subsection \<open>The invariant\<close>

definition goal_ok :: "SocksUdpGwClient \<Rightarrow> bool" where
  "goal_ok w \<longleftrightarrow> \<not> BAddr_IsInvalid (su_socks_server_addr w) \<and> is_ip_addr (su_remote_udpgw_addr w) \<and> auth_wf (su_auth_info w)"

definition up_ok :: "SocksUdpGwClient \<Rightarrow> bytes \<Rightarrow> bytes \<Rightarrow> bool" where
  "up_ok w out inp \<longleftrightarrow> sc_state (su_socks_client w) = SC_UP \<and> con_all True (su_socks_client w) \<and> socks_conv (su_auth_info w) (su_remote_udpgw_addr w) out inp"

definition sg_inv :: "udpgw_sys \<Rightarrow> bool" where
  "sg_inv s \<longleftrightarrow> (let w = sg_client s; u = su_udpgw_client w in
     ug_inv u \<and> ug_udp_mtu u = su_udp_mtu w \<and> goal_ok w \<and> su_reconnect_timer w = (\<not> su_have_socks w) \<and> ug_have_server u = (su_have_socks w \<and> su_socks_up w) \<and>
     (su_have_socks w \<longrightarrow> socks_goal (su_socks_client w) = (su_auth_info w, su_remote_udpgw_addr w) \<and>
        (if su_socks_up w then up_ok w (sg_out s) (sg_in s) else so_inv (sg_socks s))))"

abbreviation sg_entries :: "udpgw_sys \<Rightarrow> (UdpGwClient_conaddr \<times> u16) list" where
  "sg_entries s \<equiv> entries (su_udpgw_client (sg_client s))"

lemma try_connect_ok:
  assumes "\<not> su_have_socks w" "\<not> su_reconnect_timer w" "goal_ok w" "ug_inv (su_udpgw_client w)" "ug_udp_mtu (su_udpgw_client w) = su_udp_mtu w" "\<not> ug_have_server (su_udpgw_client w)"
  shows "\<exists>w'. try_connect connector_ok w = Inr w' \<and> sg_inv \<lparr> sg_client = w', sg_out = [], sg_in = [] \<rparr> \<and> su_udpgw_client w' = su_udpgw_client w"
proof -
  have t: "BAddr_type (su_remote_udpgw_addr w) = 1 \<or> BAddr_type (su_remote_udpgw_addr w) = 2" using assms(3) by (simp add: goal_ok_def is_ip_addr_def)
  have a: "\<forall>a\<in>set (su_auth_info w). auth_type a = SOCKS_METHOD_NO_AUTHENTICATION_REQUIRED \<or> auth_type a = SOCKS_METHOD_USERNAME_PASSWORD"
    using assms(3) by (simp add: goal_ok_def auth_wf_def SOCKS_METHOD_NO_AUTHENTICATION_REQUIRED_def SOCKS_METHOD_USERNAME_PASSWORD_def)
  show ?thesis
  proof (cases connector_ok)
    case True
    define c where "c = (su_socks_client w)\<lparr>sc_auth_info := su_auth_info w, sc_dest_addr := su_remote_udpgw_addr w, sc_buffer := None, sc_state := SC_CONNECTING,
      sc_con := \<lparr> con_inited = False, con_send = False, con_recv = False \<rparr>\<rparr>"
    define w' where "w' = w\<lparr>su_socks_client := c, su_have_socks := True, su_socks_up := False\<rparr>"
    have "BSocksClient_Init (su_socks_client w) (su_socks_server_addr w) (su_auth_info w) (su_remote_udpgw_addr w) connector_ok = Inr (Some c)"
      using True assms(3) t a unfolding BSocksClient_Init_def c_def by (simp add: goal_ok_def)
    then have "try_connect connector_ok w = Inr w'" using assms(1,2) by (simp add: try_connect_def w'_def)
    moreover have "socks_inv c [] []" using assms(3) by (simp add: socks_inv_def socks_wf_def con_all_def c_def goal_ok_def auth_wf_def)
    then have "so_inv (sg_socks \<lparr> sg_client = w', sg_out = [], sg_in = [] \<rparr>)" by (simp add: so_inv_def socks_outcome_def sg_socks_def w'_def)
    then have "sg_inv \<lparr> sg_client = w', sg_out = [], sg_in = [] \<rparr>" using assms by (simp add: sg_inv_def w'_def goal_ok_def socks_goal_def c_def)
    ultimately show ?thesis by (intro exI [of _ w']) (simp add: w'_def)
  next
    case False
    let ?w = "w\<lparr>su_reconnect_timer := True\<rparr>"
    have "try_connect connector_ok w = Inr ?w" using False assms(1-3) t a by (simp add: try_connect_def BSocksClient_Init_def goal_ok_def)
    moreover have "sg_inv \<lparr> sg_client = ?w, sg_out = [], sg_in = [] \<rparr>" using assms by (simp add: sg_inv_def goal_ok_def)
    ultimately show ?thesis by (intro exI [of _ ?w]) simp
  qed
qed

text \<open>The end of the SOCKS client, whatever has happened to it.\<close>

lemma free_and_wait_ok:
  assumes h: "su_have_socks w" and g: "goal_ok w" and u: "ug_inv (su_udpgw_client w)" "ug_udp_mtu (su_udpgw_client w) = su_udp_mtu w"
    and up: "ug_have_server (su_udpgw_client w) = su_socks_up w" and c: "con_all (sc_state (su_socks_client w) \<noteq> SC_CONNECTING) (su_socks_client w)"
    and t: "\<not> su_reconnect_timer w"
  shows "\<exists>w'. free_socks w = Inr w' \<and> free_and_wait w = Inr (w'\<lparr>su_reconnect_timer := True\<rparr>) \<and> \<not> su_have_socks w' \<and> ug_inv (su_udpgw_client w') \<and>
    (\<forall>out inp. sg_inv \<lparr> sg_client = w'\<lparr>su_reconnect_timer := True\<rparr>, sg_out = out, sg_in = inp \<rparr>) \<and> entries (su_udpgw_client w') = entries (su_udpgw_client w)"
proof -
  obtain c' where c': "BSocksClient_Free (su_socks_client w) = Inr c'" using BSocksClient_Free_ok [OF c] by (auto simp: no_fault_def split: sum.splits)
  obtain u' where u': "(if su_socks_up w then UdpGwClient_DisconnectServer (su_udpgw_client w) else Inr (su_udpgw_client w)) = Inr u'" "ug_inv u'" "\<not> ug_have_server u'" "ug_udp_mtu u' = su_udp_mtu w"
    "entries u' = entries (su_udpgw_client w)" using disconnect_ok [OF u(1)] u up by (cases "su_socks_up w") auto
  define w' where "w' = w\<lparr>su_udpgw_client := u', su_socks_client := c', su_have_socks := False\<rparr>"
  have "free_socks w = Inr w'" unfolding free_socks_def u'(1) c' w'_def using h by simp
  moreover have "sg_inv \<lparr> sg_client = w'\<lparr>su_reconnect_timer := True\<rparr>, sg_out = out, sg_in = inp \<rparr>" for out inp using u' g by (simp add: sg_inv_def w'_def goal_ok_def)
  ultimately show ?thesis using u'(2,5) by (intro exI [of _ w']) (simp add: free_and_wait_def w'_def)
qed

lemma sg_report_ok:
  assumes I: "sg_inv s" and h: "su_have_socks (sg_client s)" and t: "so_inv t" "socks_goal (so_client t) = socks_goal (su_socks_client (sg_client s))"
    and up: "su_socks_up (sg_client s) \<Longrightarrow> so_event t = Some BSOCKSCLIENT_EVENT_ERROR \<or> so_event t = Some BSOCKSCLIENT_EVENT_ERROR_CLOSED"
  shows "\<exists>s'. sg_report alloc s t = Inr s' \<and> sg_inv s' \<and> sg_entries s' = sg_entries s"
proof -
  define w where "w = (sg_client s)\<lparr>su_socks_client := so_client t\<rparr>"
  have W: "su_have_socks w" "goal_ok w" "ug_inv (su_udpgw_client w)" "ug_udp_mtu (su_udpgw_client w) = su_udp_mtu w" "ug_have_server (su_udpgw_client w) = su_socks_up w" "\<not> su_reconnect_timer w"
    "socks_goal (su_socks_client w) = (su_auth_info w, su_remote_udpgw_addr w)" "su_socks_client w = so_client t" "su_socks_up w = su_socks_up (sg_client s)" "entries (su_udpgw_client w) = sg_entries s"
    using I h t(2) by (auto simp: sg_inv_def w_def goal_ok_def Let_def)
  have run: "sg_report alloc s t = andthen (case so_event t of None \<Rightarrow> Inr w | Some ev \<Rightarrow> socks_client_handler alloc w ev) (\<lambda>w. Inr \<lparr> sg_client = w, sg_out = so_out t, sg_in = so_in t \<rparr>)"
    unfolding sg_report_def Let_def w_def ..
  have c: "con_all (sc_state (su_socks_client w) \<noteq> SC_CONNECTING) (su_socks_client w)" unfolding W(8) by (rule so_inv_con_all [OF t(1)])
  have err: "\<exists>w'. free_and_wait w = Inr w' \<and> sg_inv \<lparr> sg_client = w', sg_out = so_out t, sg_in = so_in t \<rparr> \<and> entries (su_udpgw_client w') = sg_entries s"
    using free_and_wait_ok [OF W(1-5) c W(6)] W(10) by auto
  consider "so_event t = None" | "so_event t = Some BSOCKSCLIENT_EVENT_UP" | "so_event t = Some BSOCKSCLIENT_EVENT_ERROR" | "so_event t = Some BSOCKSCLIENT_EVENT_ERROR_CLOSED"
    by (metis option.exhaust socks_event.exhaust)
  then show ?thesis
  proof cases
    case 1
    have "sg_socks \<lparr> sg_client = w, sg_out = so_out t, sg_in = so_in t \<rparr> = t" using 1 W(8) by (cases t) (simp add: sg_socks_def)
    then have "sg_inv \<lparr> sg_client = w, sg_out = so_out t, sg_in = so_in t \<rparr>" using W t(1) up 1 by (auto simp: sg_inv_def Let_def)
    then show ?thesis unfolding run 1 using W(10) by simp
  next
    case 2
    have nup: "\<not> su_socks_up w" using up 2 W(9) by auto
    have o: "sc_state (so_client t) = SC_UP" "con_all True (so_client t)" "socks_conv (su_auth_info w) (su_remote_udpgw_addr w) (so_out t) (so_in t)"
      using t(1) 2 W(7,8) by (auto simp: so_inv_def socks_outcome_def socks_goal_def)
    have ns: "\<not> ug_have_server (su_udpgw_client w)" "fresh_streams StreamPassInterface_Init StreamRecvInterface_Init"
      using nup W(5) by (simp_all add: fresh_streams_def StreamPassInterface_Init_def StreamRecvInterface_Init_def)
    obtain u b where u: "UdpGwClient_ConnectServer alloc (su_udpgw_client w) StreamPassInterface_Init StreamRecvInterface_Init = Inr (u, b)" "ug_inv u" "ug_have_server u = b" "ug_udp_mtu u = su_udp_mtu w" "entries u = sg_entries s"
      using connect_ok [OF W(3) ns, of alloc] W(4,10) by auto
    let ?w = "w\<lparr>su_udpgw_client := u\<rparr>"
    have h: "socks_client_handler alloc w BSOCKSCLIENT_EVENT_UP = (if b then Inr (?w\<lparr>su_socks_up := True\<rparr>) else free_and_wait ?w)"
      unfolding socks_client_handler_def socks_event.case BSocksClient_GetSendInterface_def BSocksClient_GetRecvInterface_def W(8)
      using W(1) nup o(1) by (simp add: u(1))
    show ?thesis
    proof (cases b)
      case True
      then have "sg_inv \<lparr> sg_client = ?w\<lparr>su_socks_up := True\<rparr>, sg_out = so_out t, sg_in = so_in t \<rparr>" using W u o by (simp add: sg_inv_def goal_ok_def up_ok_def)
      then show ?thesis unfolding run 2 option.case h using True u(5) by simp
    next
      case False
      obtain w' where "free_and_wait ?w = Inr w'" "sg_inv \<lparr> sg_client = w', sg_out = so_out t, sg_in = so_in t \<rparr>" "entries (su_udpgw_client w') = sg_entries s"
        using free_and_wait_ok [of ?w] W(1,2,6) u nup c False by (auto simp: goal_ok_def)
      then show ?thesis unfolding run 2 option.case h using False by simp
    qed
  next
    case 3
    then show ?thesis unfolding run using err W(1) by (auto simp: socks_client_handler_def)
  next
    case 4
    then show ?thesis unfolding run using err W(1) by (auto simp: socks_client_handler_def)
  qed
qed

lemma sg_step_ok:
  assumes st: "sg_step realloc s r" and I: "sg_inv s" and re: "realloc_ok realloc"
  shows "\<exists>t. r = Inr t \<and> sg_inv t \<and> set (sg_entries t) = set (sg_entries s)"
  using st
proof cases
  case (sg_socks_runs r' alloc)
  have "so_inv (sg_socks s)" using I sg_socks_runs(2,3) by (simp add: sg_inv_def Let_def)
  then obtain t where t: "r' = Inr t" "so_inv t" using socks_step_good [OF sg_socks_runs(4) re] by (auto simp: so_good_def)
  have "socks_goal (so_client t) = socks_goal (su_socks_client (sg_client s))" using goal_step sg_socks_runs(4) unfolding t(1) by (auto simp: sg_socks_def)
  then obtain s' where "sg_report alloc s t = Inr s'" "sg_inv s'" "sg_entries s' = sg_entries s" using sg_report_ok [OF I sg_socks_runs(2) t(2), of alloc] sg_socks_runs(3) by auto
  then show ?thesis using sg_socks_runs(1) t(1) by simp
next
  case (sg_connection closed alloc)
  have c: "sc_state (su_socks_client (sg_client s)) = SC_UP" "con_all True (su_socks_client (sg_client s))" using I sg_connection(2,3) by (auto simp: sg_inv_def Let_def up_ok_def)
  define t where "t = (sg_socks s)\<lparr>so_event := Some (if closed then BSOCKSCLIENT_EVENT_ERROR_CLOSED else BSOCKSCLIENT_EVENT_ERROR)\<rparr>"
  have "so_report (sg_socks s) (connection_handler (su_socks_client (sg_client s)) closed) = Inr t"
    using c(1) by (simp add: so_report_def connection_handler_def report_error_def t_def sg_socks_def)
  moreover have "so_inv t" using c by (simp add: so_inv_def socks_outcome_def t_def sg_socks_def)
  moreover have cl: "socks_goal (so_client t) = socks_goal (su_socks_client (sg_client s))"
    and ev: "so_event t = Some BSOCKSCLIENT_EVENT_ERROR \<or> so_event t = Some BSOCKSCLIENT_EVENT_ERROR_CLOSED" by (simp_all add: t_def sg_socks_def)
  moreover obtain s' where "sg_report alloc s t = Inr s'" "sg_inv s'" "sg_entries s' = sg_entries s"
    using sg_report_ok [OF I sg_connection(2) \<open>so_inv t\<close> cl ev, of alloc] by blast
  ultimately show ?thesis using sg_connection(1) by simp
next
  case (sg_timer connector_ok)
  let ?w = "(sg_client s)\<lparr>su_reconnect_timer := False\<rparr>"
  have p: "\<not> su_have_socks ?w" "\<not> su_reconnect_timer ?w" "goal_ok ?w" "ug_inv (su_udpgw_client ?w)" "ug_udp_mtu (su_udpgw_client ?w) = su_udp_mtu ?w" "\<not> ug_have_server (su_udpgw_client ?w)"
    using I sg_timer(2) by (auto simp: sg_inv_def Let_def goal_ok_def)
  obtain w' where "try_connect connector_ok ?w = Inr w'" "sg_inv \<lparr> sg_client = w', sg_out = [], sg_in = [] \<rparr>" "su_udpgw_client w' = su_udpgw_client (sg_client s)"
    using try_connect_ok [OF p, of connector_ok] by auto
  moreover have "\<not> su_have_socks (sg_client s)" using p(1) by simp
  ultimately show ?thesis using sg_timer(1) by (simp add: reconnect_timer_handler_def)
next
  case sg_decoder_error
  have W: "su_have_socks (sg_client s)" "su_socks_up (sg_client s)" "goal_ok (sg_client s)" "ug_inv (su_udpgw_client (sg_client s))" "ug_udp_mtu (su_udpgw_client (sg_client s)) = su_udp_mtu (sg_client s)" "\<not> su_reconnect_timer (sg_client s)"
    "con_all (sc_state (su_socks_client (sg_client s)) \<noteq> SC_CONNECTING) (su_socks_client (sg_client s))"
    using I sg_decoder_error(2) by (auto simp: sg_inv_def Let_def up_ok_def)
  obtain w' where w': "free_and_wait (sg_client s) = Inr w'" "sg_inv \<lparr> sg_client = w', sg_out = sg_out s, sg_in = sg_in s \<rparr>" "entries (su_udpgw_client w') = sg_entries s"
    using free_and_wait_ok [OF W(1,3-5) _ W(7,6)] W(2) sg_decoder_error(2) by auto
  have "sg_inv (s\<lparr>sg_client := w'\<rparr>)" using w'(2) by (cases s) simp
  then show ?thesis using sg_decoder_error W(1,2) w'(1,3) by (simp add: decoder_handler_error_def udpgw_handler_servererror_def)
next
  case (sg_udpgw_runs u)
  have "ug_inv u \<and> ug_have_server u = ug_have_server (su_udpgw_client (sg_client s)) \<and> ug_udp_mtu u = ug_udp_mtu (su_udpgw_client (sg_client s)) \<and>
      set (entries u) = set (sg_entries s)" using ug_runs_inv [OF sg_udpgw_runs(2)] I by (simp add: sg_inv_def Let_def)
  then show ?thesis using sg_udpgw_runs(1) I by (auto simp: sg_inv_def Let_def goal_ok_def up_ok_def sg_socks_def)
qed

lemma sg_submit_ok:
  assumes I: "sg_inv s" and c: "can_submit (su_udpgw_client (sg_client s)) alloc m l r data"
  shows "\<exists>w. SocksUdpGwClient_SubmitPacket alloc m (sg_client s) l r is_dns data = Some (Inr w) \<and> sg_inv (s\<lparr>sg_client := w\<rparr>) \<and>
    lru_submit (con_memory (su_udpgw_client (sg_client s)) alloc m) (nat (ug_max_connections (su_udpgw_client (sg_client s))))
      \<lparr> ca_local_addr = l, ca_remote_addr = r \<rparr> (sg_entries s) (entries (su_udpgw_client w))"
proof -
  let ?u = "su_udpgw_client (sg_client s)"
  have u: "ug_inv ?u" using I by (simp add: sg_inv_def Let_def)
  obtain u' where u': "UdpGwClient_SubmitPacket alloc m ?u l r is_dns data = Some (Inr u')" "ug_inv u'" "same_conf ?u u'"
    "lru_submit (con_memory ?u alloc m) (nat (ug_max_connections ?u)) \<lparr> ca_local_addr = l, ca_remote_addr = r \<rparr> (entries ?u) (entries u')"
    using SubmitPacket_ok [where is_dns = is_dns and m = m and alloc = alloc, OF u can_submit_D [OF c]] by blast
  let ?w = "(sg_client s)\<lparr>su_udpgw_client := u'\<rparr>"
  have "sg_inv (s\<lparr>sg_client := ?w\<rparr>)" using I u'(2,3) by (auto simp: sg_inv_def Let_def goal_ok_def up_ok_def sg_socks_def same_conf_def)
  then show ?thesis using u'(1,4) by (intro exI [of _ ?w]) (simp add: SocksUdpGwClient_SubmitPacket_def)
qed

lemma SocksUdpGw_Init_ok:
  assumes "0 \<le> n" "n + 21 \<le> PACKETPROTO_MAXPAYLOAD" "0 < mx" "0 < sz" "4 * ChunkBuffer2_calc_blocks (n + 23) sz \<le> INT_MAX"
    and g: "\<not> BAddr_IsInvalid server" "is_ip_addr remote" "auth_wf auth"
  shows "\<exists>w. SocksUdpGwClient_Init k mem fmem cmem cinit upinit n mx sz server auth remote connector_ok = Inr (Some w) \<and> sg_inv \<lparr> sg_client = w, sg_out = [], sg_in = [] \<rparr> \<and>
    entries (su_udpgw_client w) = [] \<and> ug_send_buffer_size (su_udpgw_client w) = sz \<and> ug_keepalive_qflow (su_udpgw_client w) = k \<and> su_have_socks w = connector_ok \<and> su_udp_mtu w = n \<and>
    (connector_ok \<longrightarrow> \<not> su_socks_up w \<and> su_socks_client w = cinit\<lparr>sc_auth_info := auth, sc_dest_addr := remote, sc_buffer := None, sc_state := SC_CONNECTING,
       sc_con := \<lparr> con_inited = False, con_send = False, con_recv = False \<rparr>\<rparr>)"
proof -
  obtain u where u: "UdpGwClient_Init k mem fmem cmem n mx sz = Inr (Some u)" "ug_inv u" "\<not> ug_have_server u" "ug_udp_mtu u = n" "entries u = []" "ug_send_buffer_size u = sz" "ug_keepalive_qflow u = k"
    using Init_ok [OF assms(1-5), of k mem fmem cmem] by blast
  define w0 where "w0 = \<lparr> su_udp_mtu = n, su_socks_server_addr = server, su_auth_info = auth, su_remote_udpgw_addr = remote, su_udpgw_client = u,
    su_reconnect_timer = False, su_have_socks = False, su_socks_client = cinit, su_socks_up = upinit \<rparr>"
  have p: "\<not> su_have_socks w0" "\<not> su_reconnect_timer w0" "goal_ok w0" "ug_inv (su_udpgw_client w0)" "ug_udp_mtu (su_udpgw_client w0) = su_udp_mtu w0" "\<not> ug_have_server (su_udpgw_client w0)"
    using u g by (simp_all add: w0_def goal_ok_def)
  obtain w where w: "try_connect connector_ok w0 = Inr w" "sg_inv \<lparr> sg_client = w, sg_out = [], sg_in = [] \<rparr>" "su_udpgw_client w = su_udpgw_client w0"
    using try_connect_ok [OF p] by blast
  have t: "BAddr_type remote = 1 \<or> BAddr_type remote = 2" using g(2) by (simp add: is_ip_addr_def)
  have "SocksUdpGwClient_Init k mem fmem cmem cinit upinit n mx sz server auth remote connector_ok = Inr (Some w)"
    unfolding SocksUdpGwClient_Init_def u(1) ASSERT_True [OF g(1)] ASSERT_True [OF t] andthen_Inr option.case w0_def [symmetric] w(1) ..
  moreover have "su_have_socks w = connector_ok" "su_udp_mtu w = n"
    "connector_ok \<Longrightarrow> \<not> su_socks_up w \<and> su_socks_client w = cinit\<lparr>sc_auth_info := auth, sc_dest_addr := remote, sc_buffer := None, sc_state := SC_CONNECTING,
       sc_con := \<lparr> con_inited = False, con_send = False, con_recv = False \<rparr>\<rparr>"
    using w(1) by (auto simp: try_connect_def BSocksClient_Init_def w0_def result_simps split: option.splits if_splits)
  moreover have "entries (su_udpgw_client w) = []" "ug_send_buffer_size (su_udpgw_client w) = sz" "ug_keepalive_qflow (su_udpgw_client w) = k" using w(3) u(5-7) by (simp_all add: w0_def)
  ultimately show ?thesis using w(2) by blast
qed

lemma sg_reach_inv: "sg_reach realloc s \<Longrightarrow> realloc_ok realloc \<Longrightarrow> sg_inv s"
proof (induction rule: sg_reach.induct)
  case (sg_init n mx sz server remote auth k mem fmem cmem cinit upinit connector_ok w)
  then show ?case using SocksUdpGw_Init_ok [OF sg_init(1-8), of k mem fmem cmem cinit upinit connector_ok] by auto
next
  case (sg_trans s t)
  then show ?case using sg_step_ok by blast
next
  case (sg_submit s alloc m l r data is_dns w)
  then show ?case using sg_submit_ok [of s alloc m l r data is_dns] by auto
qed

lemma SocksUdpGw_Free_ok:
  assumes I: "sg_inv s"
  shows "\<exists>w. SocksUdpGwClient_Free (sg_client s) = Some (Inr w) \<and> \<not> su_have_socks w \<and> \<not> su_reconnect_timer w \<and> ug_connections_list (su_udpgw_client w) = []"
proof -
  let ?w = "sg_client s"
  obtain w1 where w1: "(if su_have_socks ?w then free_socks ?w else Inr ?w) = Inr w1" "\<not> su_have_socks w1" "ug_inv (su_udpgw_client w1)"
  proof (cases "su_have_socks ?w")
    case True
    have c: "con_all (sc_state (su_socks_client ?w) \<noteq> SC_CONNECTING) (su_socks_client ?w)"
      using I True so_inv_con_all [of "sg_socks s"] by (cases "su_socks_up ?w") (auto simp: sg_inv_def Let_def up_ok_def sg_socks_def)
    have "goal_ok ?w" "ug_inv (su_udpgw_client ?w)" "ug_udp_mtu (su_udpgw_client ?w) = su_udp_mtu ?w" "ug_have_server (su_udpgw_client ?w) = su_socks_up ?w" "\<not> su_reconnect_timer ?w"
      using I True by (auto simp: sg_inv_def Let_def)
    then show ?thesis using free_and_wait_ok [OF True _ _ _ _ c] True that by auto
  next
    case False
    then show ?thesis using that I by (auto simp: sg_inv_def Let_def)
  qed
  obtain u where "UdpGwClient_Free (su_udpgw_client w1) = Some (Inr u)" "ug_connections_list u = []" using Free_ok [OF w1(3)] by blast
  then show ?thesis unfolding SocksUdpGwClient_Free_def w1(1) bindr_simps using w1(2) by simp
qed

subsection \<open>Properties\<close>

text \<open>
  C14: The udpgw client always has a server or a way to one: in every state that can be reached, the SOCKS client exists exactly when the reconnect timer does not run; the udpgw client is
  connected exactly while the SOCKS client is up, and then the whole conversation of SOCKS 5 with the address of the udpgw server has taken place. Whatever the servers, the connections,
  the allocator and the user do next ends and fails no assertion; and the client can be freed, which leaves neither a connection nor the timer nor the SOCKS client.
\<close>

theorem SocksUdpGwClient_correct:
  assumes "realloc_ok realloc" "sg_reach realloc s"
  shows "(let w = sg_client s; u = su_udpgw_client w in
      su_reconnect_timer w = (\<not> su_have_socks w) \<and> ug_have_server u = (su_have_socks w \<and> su_socks_up w) \<and>
      (ug_have_server u \<longrightarrow> sc_state (su_socks_client w) = SC_UP \<and> socks_conv (su_auth_info w) (su_remote_udpgw_addr w) (sg_out s) (sg_in s)) \<and>
      (\<exists>w'. SocksUdpGwClient_Free w = Some (Inr w') \<and> \<not> su_have_socks w' \<and> \<not> su_reconnect_timer w' \<and> ug_connections_list (su_udpgw_client w') = [])) \<and>
    (\<forall>r. sg_step realloc s r \<longrightarrow> no_fault r) \<and>
    (\<forall>alloc m l r is_dns data. can_submit (su_udpgw_client (sg_client s)) alloc m l r data \<longrightarrow>
       (\<exists>w. SocksUdpGwClient_SubmitPacket alloc m (sg_client s) l r is_dns data = Some (Inr w)))"
proof -
  have I: "sg_inv s" by (rule sg_reach_inv [OF assms(2,1)])
  have "no_fault r" if "sg_step realloc s r" for r using sg_step_ok [OF that I assms(1)] by auto
  moreover have "\<exists>w. SocksUdpGwClient_SubmitPacket alloc m (sg_client s) l r is_dns data = Some (Inr w)"
    if "can_submit (su_udpgw_client (sg_client s)) alloc m l r data" for alloc m l r is_dns data using sg_submit_ok [OF I that] by blast
  ultimately show ?thesis using I SocksUdpGw_Free_ok [OF I] by (auto simp: sg_inv_def Let_def up_ok_def)
qed

subsection \<open>A run until the client has its server\<close>

lemma so_run_done: "so_event s \<noteq> None \<Longrightarrow> so_run realloc s chs = Some t \<Longrightarrow> chs = [] \<and> t = s"
  by (cases "(realloc, s, hd chs)" rule: so_fire.cases; cases chs) (auto simp: so_active_def)

lemma sg_run_up:
  assumes "so_run realloc (sg_socks s) chs = Some t" "so_event t = Some BSOCKSCLIENT_EVENT_UP" "P s" "su_have_socks (sg_client s)" "\<not> su_socks_up (sg_client s)"
    and re: "realloc_ok realloc" and P: "\<And>s t. P s \<Longrightarrow> sg_step realloc s (Inr t) \<Longrightarrow> P t" "\<And>s. P s \<Longrightarrow> sg_inv s"
  shows "\<exists>s'. P s' \<and> ug_have_server (su_udpgw_client (sg_client s')) \<and> sg_out s' = so_out t \<and> sg_in s' = so_in t"
  using assms(1-5)
proof (induction chs arbitrary: s)
  case Nil
  then show ?case by (auto simp: sg_socks_def)
next
  case (Cons ch chs)
  obtain t1 where t1: "so_fire realloc (sg_socks s) ch = Some (Inr t1)" "so_run realloc t1 chs = Some t"
    using Cons.prems(1) by (auto split: option.splits sum.splits)
  let ?alloc = "\<lambda>n. Some (replicate n 0)"
  have st: "sg_step realloc s (andthen (Inr t1) (sg_report ?alloc s))" by (rule sg_socks_runs [OF Cons.prems(4,5) so_fire_step [OF t1(1)]])
  have I: "sg_inv s" by (rule P(2) [OF Cons.prems(3)])
  obtain s1 where s1: "sg_report ?alloc s t1 = Inr s1" "sg_inv s1" using sg_step_ok [OF st I re] by auto
  have r1: "P s1" using P(1) [OF Cons.prems(3)] st s1(1) by auto
  show ?case
  proof (cases "so_event t1")
    case None
    have "sg_client s1 = (sg_client s)\<lparr>su_socks_client := so_client t1\<rparr>" "sg_out s1 = so_out t1" "sg_in s1 = so_in t1" using s1(1) None by (auto simp: sg_report_def)
    moreover then have "sg_socks s1 = t1" using None by (cases t1) (simp add: sg_socks_def)
    ultimately show ?thesis using Cons.IH [of s1] t1(2) Cons.prems(2,4,5) r1 by simp
  next
    case (Some ev)
    then have t: "t1 = t" "ev = BSOCKSCLIENT_EVENT_UP" using so_run_done [OF _ t1(2)] Cons.prems(2) by auto
    let ?u = "su_udpgw_client (sg_client s)"
    have u: "ug_inv ?u" "\<not> ug_have_server ?u" using I Cons.prems(5) by (auto simp: sg_inv_def Let_def)
    have fr: "fresh_streams StreamPassInterface_Init StreamRecvInterface_Init" by (simp add: fresh_streams_def StreamPassInterface_Init_def StreamRecvInterface_Init_def)
    obtain u' where u': "UdpGwClient_ConnectServer ?alloc ?u StreamPassInterface_Init StreamRecvInterface_Init = Inr (u', True)" "ug_have_server u'"
      using connect_ok [OF u fr, of ?alloc] by auto
    have "ug_have_server (su_udpgw_client (sg_client s1)) \<and> sg_out s1 = so_out t \<and> sg_in s1 = so_in t"
      using s1(1) u' Some Cons.prems(4,5) unfolding t
      by (auto simp: sg_report_def socks_client_handler_def BSocksClient_GetSendInterface_def BSocksClient_GetRecvInterface_def result_simps)
    then show ?thesis using r1 by blast
  qed
qed

theorem SocksUdpGwClient_correct_witness:
  "\<exists>s. realloc_ok ex_realloc \<and> sg_reach ex_realloc s \<and> \<not> su_reconnect_timer (sg_client s) \<and> sg_out s = [5, 1, 0, 5, 1, 0, 1, 1, 2, 3, 4, 0, 80] \<and>
     socks_conv (su_auth_info (sg_client s)) (su_remote_udpgw_addr (sg_client s)) (sg_out s) (sg_in s)"
proof -
  obtain mem :: "nat \<Rightarrow> BAVLNode" and fmem :: "nat \<Rightarrow> PacketPassFairQueueFlow" and cmem :: "nat \<Rightarrow> UdpGwClient_connection" where True by blast
  let ?init = "SocksUdpGwClient_Init 0 mem fmem cmem ex_client False 1500 256 8 (BAddr_IPv4 0 0) [BSocksClient_auth_none] (BAddr_IPv4 0x04030201 0x5000) True"
  have b: "4 * ChunkBuffer2_calc_blocks (1500 + 23) 8 \<le> INT_MAX" by code_simp
  have g: "\<not> BAddr_IsInvalid (BAddr_IPv4 0 0)" "is_ip_addr (BAddr_IPv4 0x04030201 0x5000)" "auth_wf [BSocksClient_auth_none]"
    by (simp_all add: BAddr_IsInvalid_def is_ip_addr_def auth_wf_def BSocksClient_auth_none_def SOCKS_METHOD_NO_AUTHENTICATION_REQUIRED_def)
  have n: "(0 :: int) \<le> 1500" "1500 + 21 \<le> PACKETPROTO_MAXPAYLOAD" "(0 :: int) < 256" "(0 :: int) < 8" by (simp_all add: PACKETPROTO_MAXPAYLOAD_def UINT16_MAX_def)
  obtain w where w: "?init = Inr (Some w)" and w': "su_have_socks w" "\<not> su_socks_up w" "su_socks_client w = ex_client\<lparr>sc_auth_info := [BSocksClient_auth_none],
      sc_dest_addr := BAddr_IPv4 0x04030201 0x5000, sc_buffer := None, sc_state := SC_CONNECTING, sc_con := \<lparr> con_inited = False, con_send = False, con_recv = False \<rparr>\<rparr>"
    using SocksUdpGw_Init_ok [where k = 0 and mem = mem and fmem = fmem and cmem = cmem and cinit = ex_client and upinit = False and connector_ok = True, OF n b g] by blast
  let ?s = "\<lparr> sg_client = w, sg_out = [], sg_in = [] \<rparr>"
  have r: "sg_reach ex_realloc ?s" by (rule sg_init [OF n b g w])
  have e: "sg_socks ?s = ex_start" by (simp add: sg_socks_def ex_start_def w'(3) ex_client_def)
  obtain t where t: "so_run ex_realloc ex_start ex_choices = Some t" "so_event t = Some BSOCKSCLIENT_EVENT_UP" "so_out t = [5, 1, 0, 5, 1, 0, 1, 1, 2, 3, 4, 0, 80]"
    using ex_run by auto
  obtain s where s: "sg_reach ex_realloc s" "ug_have_server (su_udpgw_client (sg_client s))" "sg_out s = so_out t"
    using sg_run_up [where P = "sg_reach ex_realloc", of ex_realloc ?s ex_choices t] t(1,2) r w' ex_realloc_ok sg_trans sg_reach_inv unfolding e by auto
  show ?thesis using SocksUdpGwClient_correct [OF ex_realloc_ok s(1)] s t(3) ex_realloc_ok by (intro exI [of _ s]) (simp add: Let_def)
qed

end
