(* ===== verification/Ip_Udp.thy ===== *)
theory Ip_Udp
  imports Byte_Order
begin

unbundle bit_operations_syntax

section \<open>IP and UDP headers: \<^verbatim>\<open>misc/ipv4_proto.h\<close>, \<^verbatim>\<open>ipv6_proto.h\<close>, \<^verbatim>\<open>udp_proto.h\<close>\<close>

text \<open>
  The packed header structs, their layout in memory, the checksum computations and the three
  header checks through which every packet read from the TUN device passes. A pointer and a
  length (\<^verbatim>\<open>uint8_t *data, int data_len\<close>) are the list of the \<open>data_len\<close> bytes; a read, or a part handed
  on, that leaves these bytes is a fault. Multi-byte fields
  hold values in network order, stored by the little-endian target.

  The lemmas relate the loops to \<open>be16_sum\<close>, the sum of the big-endian 16-bit words of a
  block, and show that the 32-bit accumulator never wraps.
\<close>

subsection \<open>Structs\<close>

record ipv4_header =
  version4_ihl4 :: u8
  ds :: u8
  total_length :: u16
  identification :: u16
  flags3_fragmentoffset13 :: u16
  ttl :: u8
  protocol :: u8
  ip4_checksum :: u16
  ip4_source_address :: u32
  ip4_destination_address :: u32

record ipv6_header =
  version4_tc4 :: u8
  tc4_fl4 :: u8
  fl :: u16
  payload_length :: u16
  next_header :: u8
  hop_limit :: u8
  ip6_source_address :: bytes
  ip6_destination_address :: bytes

record udp_header =
  source_port :: u16
  dest_port :: u16
  udp_len :: u16
  udp_csum :: u16

definition IPV4_PROTOCOL_UDP :: nat where
  "IPV4_PROTOCOL_UDP = 17"

definition IPV6_NEXT_UDP :: nat where
  "IPV6_NEXT_UDP = 17"

text \<open>The bytes of a packed struct, as \<^verbatim>\<open>memcpy\<close> from it copies them.\<close>

definition ipv4_header_bytes :: "ipv4_header \<Rightarrow> bytes" where
  "ipv4_header_bytes h =
     [version4_ihl4 h, ds h] @ u16_bytes (total_length h) @ u16_bytes (identification h) @
     u16_bytes (flags3_fragmentoffset13 h) @ [ttl h, protocol h] @ u16_bytes (ip4_checksum h) @
     u32_bytes (ip4_source_address h) @ u32_bytes (ip4_destination_address h)"

definition ipv4_header_of_bytes :: "bytes \<Rightarrow> ipv4_header" where
  "ipv4_header_of_bytes b =
     \<lparr> version4_ihl4 = b ! 0, ds = b ! 1, total_length = u16_of_bytes (b ! 2) (b ! 3),
       identification = u16_of_bytes (b ! 4) (b ! 5),
       flags3_fragmentoffset13 = u16_of_bytes (b ! 6) (b ! 7), ttl = b ! 8, protocol = b ! 9,
       ip4_checksum = u16_of_bytes (b ! 10) (b ! 11),
       ip4_source_address = u32_of_bytes (b ! 12) (b ! 13) (b ! 14) (b ! 15),
       ip4_destination_address = u32_of_bytes (b ! 16) (b ! 17) (b ! 18) (b ! 19) \<rparr>"

definition ipv6_header_bytes :: "ipv6_header \<Rightarrow> bytes" where
  "ipv6_header_bytes h =
     [version4_tc4 h, tc4_fl4 h] @ u16_bytes (fl h) @ u16_bytes (payload_length h) @
     [next_header h, hop_limit h] @ ip6_source_address h @ ip6_destination_address h"

definition ipv6_header_of_bytes :: "bytes \<Rightarrow> ipv6_header" where
  "ipv6_header_of_bytes b =
     \<lparr> version4_tc4 = b ! 0, tc4_fl4 = b ! 1, fl = u16_of_bytes (b ! 2) (b ! 3),
       payload_length = u16_of_bytes (b ! 4) (b ! 5), next_header = b ! 6, hop_limit = b ! 7,
       ip6_source_address = take 16 (drop 8 b), ip6_destination_address = take 16 (drop 24 b) \<rparr>"

definition udp_header_bytes :: "udp_header \<Rightarrow> bytes" where
  "udp_header_bytes h =
     u16_bytes (source_port h) @ u16_bytes (dest_port h) @ u16_bytes (udp_len h) @
     u16_bytes (udp_csum h)"

definition udp_header_of_bytes :: "bytes \<Rightarrow> udp_header" where
  "udp_header_of_bytes b =
     \<lparr> source_port = u16_of_bytes (b ! 0) (b ! 1), dest_port = u16_of_bytes (b ! 2) (b ! 3),
       udp_len = u16_of_bytes (b ! 4) (b ! 5), udp_csum = u16_of_bytes (b ! 6) (b ! 7) \<rparr>"

definition IPV4_GET_VERSION :: "ipv4_header \<Rightarrow> u8" where
  "IPV4_GET_VERSION h = drop_bit 4 (version4_ihl4 h AND 0xF0)"

definition IPV4_GET_IHL :: "ipv4_header \<Rightarrow> u8" where
  "IPV4_GET_IHL h = drop_bit 0 (version4_ihl4 h AND 0x0F)"

definition IPV4_MAKE_VERSION_IHL :: "nat \<Rightarrow> u8" where
  "IPV4_MAKE_VERSION_IHL sz = of_nat (sz div 4 + 4 * 2 ^ 4)"

subsection \<open>Checksums\<close>

text \<open>The summing loop: \<^verbatim>\<open>for (i = 0; i < n; i++) t += badvpn_read_be16(data + 2 * i)\<close>.\<close>

function be16_loop :: "bytes \<Rightarrow> nat \<Rightarrow> nat \<Rightarrow> u32 \<Rightarrow> u32 result" where
  "be16_loop data i n t =
     (if i < n
      then andthen (badvpn_read_be16 (drop (2 * i) data))
             (\<lambda>v. be16_loop data (Suc i) n (t + ucast v))
      else Inr t)"
  by pat_completeness auto
termination
  by (relation "measure (\<lambda>(data, i, n, t). n - i)") auto

declare be16_loop.simps [simp del]

lemma unat_low_half: "unat ((t :: u32) AND 0xFFFF) = unat t mod 65536"
proof -
  have "t AND 0xFFFF = t mod 65536"
    using take_bit_eq_mask [of 16 t] by (simp add: take_bit_eq_mod mask_eq_exp_minus_1)
  then show ?thesis by (simp add: unat_mod)
qed

lemma unat_high_half: "unat (drop_bit 16 (t :: u32)) = unat t div 65536"
  by (simp add: drop_bit_eq_div unat_div)

lemma high_half_zero: "drop_bit 16 (t :: u32) = 0 \<longleftrightarrow> unat t < 65536"
  by (metis unat_high_half unsigned_0 unat_eq_zero div_eq_0_iff zero_neq_numeral)

lemma div_mod_65536: "(n :: nat) = 65536 * (n div 65536) + n mod 65536" "n mod 65536 < 65536"
  by simp_all

lemma unat_fold_step:
  "unat (((t :: u32) AND 0xFFFF) + drop_bit 16 t) = unat t mod 65536 + unat t div 65536"
proof -
  have "unat t mod 65536 + unat t div 65536 < 4294967296"
    using unat_u32_less [of t] div_mod_65536 [of "unat t"] by linarith
  then show ?thesis
    by (simp add: unat_word_ariths unat_low_half unat_high_half)
qed

lemma fold_step_less:
  assumes "drop_bit 16 t \<noteq> (0 :: u32)"
  shows "unat ((t AND 0xFFFF) + drop_bit 16 t) < unat t"
proof -
  from assms have "65536 \<le> unat t" by (simp add: high_half_zero)
  then have "1 \<le> unat t div 65536" by (simp add: Suc_le_eq div_greater_zero_iff)
  then show ?thesis unfolding unat_fold_step using div_mod_65536 [of "unat t"] by linarith
qed

text \<open>\<^verbatim>\<open>while (t >> 16) t = (t & 0xFFFF) + (t >> 16)\<close>.\<close>

function fold_carries :: "u32 \<Rightarrow> u32" where
  "fold_carries t =
     (if drop_bit 16 t \<noteq> 0 then fold_carries ((t AND 0xFFFF) + drop_bit 16 t) else t)"
  by pat_completeness auto
termination
  by (relation "measure unat") (auto simp: fold_step_less)

declare fold_carries.simps [simp del]

definition ipv4_checksum :: "ipv4_header \<Rightarrow> bytes \<Rightarrow> u16 \<Rightarrow> u16 result" where
  "ipv4_checksum header extra extra_len =
     ASSERT (unat extra_len mod 2 = 0)
      (andthen (be16_loop (ipv4_header_bytes header) 0 (20 div 2) 0)
        (\<lambda>t. andthen (be16_loop extra 0 (unat extra_len div 2) t)
          (\<lambda>t. Inr (hton16 (ucast (NOT (fold_carries t)))))))"

definition ipv4_check :: "bytes \<Rightarrow> (ipv4_header \<times> bytes) option result" where
  "ipv4_check data =
     (if length data < 20 then Inr None else
      andthen (mem_read data 0 20) (\<lambda>hdr.
      let out_header = ipv4_header_of_bytes hdr in
      if IPV4_GET_VERSION out_header \<noteq> 4 then Inr None else
      let header_len = unat (IPV4_GET_IHL out_header) * 4 in
      if header_len < 20 then Inr None else
      if header_len > length data then Inr None else
      let tot = unat (ntoh16 (total_length out_header)) in
      if tot < header_len then Inr None else
      if tot > length data then Inr None else
      let checksum_in_packet = ip4_checksum out_header in
      andthen (ipv4_checksum (out_header\<lparr>ip4_checksum := hton16 0\<rparr>) (drop 20 data)
                 (of_nat (header_len - 20)))
        (\<lambda>checksum_computed.
          if checksum_in_packet \<noteq> checksum_computed then Inr None
          else andthen (mem_read data header_len (tot - header_len)) (\<lambda>out_payload.
               Inr (Some (out_header, out_payload))))))"

definition ipv6_check :: "bytes \<Rightarrow> (ipv6_header \<times> bytes) option result" where
  "ipv6_check data =
     (if length data < 40 then Inr None else
      andthen (mem_read data 0 40) (\<lambda>hdr.
      let out_header = ipv6_header_of_bytes hdr in
      if drop_bit 4 (ntoh8 (version4_tc4 out_header)) \<noteq> 6 then Inr None else
      let plen = unat (ntoh16 (payload_length out_header)) in
      if plen > length data - 40 then Inr None
      else andthen (mem_read data 40 plen) (\<lambda>out_payload. Inr (Some (out_header, out_payload)))))"

definition udp_checksum_summer :: "bytes \<Rightarrow> u16 \<Rightarrow> u32 result" where
  "udp_checksum_summer data len =
     ASSERT (unat len mod 2 = 0) (be16_loop data 0 (unat len div 2) 0)"

text \<open>The payload's contribution: an odd last byte is the high half of one more word.\<close>

definition udp_payload_sum :: "bytes \<Rightarrow> u16 \<Rightarrow> u32 \<Rightarrow> u32 result" where
  "udp_payload_sum payload payload_len t =
     (if unat payload_len mod 2 = 0
      then andthen (udp_checksum_summer payload payload_len) (\<lambda>v. Inr (t + v))
      else andthen (udp_checksum_summer payload (payload_len - 1)) (\<lambda>v.
        if unat (payload_len - 1) < length payload
        then let x = hton16 (push_bit 8 (ucast (payload ! unat (payload_len - 1))))
             in andthen (udp_checksum_summer (u16_bytes x) 2) (\<lambda>w. Inr (t + v + w))
        else Inl Out_of_bounds))"

definition udp_checksum_finish :: "u32 \<Rightarrow> u16" where
  "udp_checksum_finish t =
     (let t = fold_carries t; t = (if t = 0 then 0xFFFF else t) in hton16 (ucast (NOT t)))"

definition udp_checksum :: "udp_header \<Rightarrow> bytes \<Rightarrow> u16 \<Rightarrow> u32 \<Rightarrow> u32 \<Rightarrow> u16 result" where
  "udp_checksum header payload payload_len source_addr dest_addr =
     andthen (udp_checksum_summer (u32_bytes source_addr) 4) (\<lambda>a.
     andthen (udp_checksum_summer (u32_bytes dest_addr) 4) (\<lambda>b.
     andthen (udp_checksum_summer (u16_bytes (hton16 (of_nat IPV4_PROTOCOL_UDP))) 2) (\<lambda>c.
     andthen (udp_checksum_summer (u16_bytes (hton16 (of_nat (8 + unat payload_len)))) 2) (\<lambda>d.
     andthen (udp_checksum_summer (udp_header_bytes header) 8) (\<lambda>e.
     andthen (udp_payload_sum payload payload_len (0 + a + b + c + d + e)) (\<lambda>t.
     Inr (udp_checksum_finish t)))))))"

definition udp_ip6_checksum :: "udp_header \<Rightarrow> bytes \<Rightarrow> u16 \<Rightarrow> bytes \<Rightarrow> bytes \<Rightarrow> u16 result" where
  "udp_ip6_checksum header payload payload_len source_addr dest_addr =
     andthen (udp_checksum_summer source_addr 16) (\<lambda>a.
     andthen (udp_checksum_summer dest_addr 16) (\<lambda>b.
     andthen (udp_checksum_summer (u32_bytes (hton32 (of_nat (8 + unat payload_len)))) 4) (\<lambda>c.
     andthen (udp_checksum_summer (u32_bytes (hton32 (of_nat IPV6_NEXT_UDP))) 4) (\<lambda>d.
     andthen (udp_checksum_summer (udp_header_bytes header) 8) (\<lambda>e.
     andthen (udp_payload_sum payload payload_len (0 + a + b + c + d + e)) (\<lambda>t.
     Inr (udp_checksum_finish t)))))))"

definition udp_check :: "bytes \<Rightarrow> (udp_header \<times> bytes) option result" where
  "udp_check data =
     (if length data < 8 then Inr None else
      andthen (mem_read data 0 8) (\<lambda>hdr.
      let out_header = udp_header_of_bytes hdr;
          data = drop 8 data;
          udp_length = unat (ntoh16 (udp_len out_header)) in
      if udp_length < 8 then Inr None else
      if udp_length > 8 + length data then Inr None
      else andthen (mem_read data 0 (udp_length - 8)) (\<lambda>out_payload. Inr (Some (out_header, out_payload)))))"

subsection \<open>The sum of the 16-bit words of a block\<close>

fun be16_sum :: "bytes \<Rightarrow> nat" where
  "be16_sum (a # b # bs) = 256 * unat a + unat b + be16_sum bs"
| "be16_sum [a] = 256 * unat a"
| "be16_sum [] = 0"

text \<open>End-around carry: the value in \<open>0..65535\<close> that folding the carries of a sum leaves.\<close>

definition oc_fold :: "nat \<Rightarrow> nat" where
  "oc_fold n = (if n = 0 then 0 else (n - 1) mod 65535 + 1)"

lemma oc_fold_le: "oc_fold n \<le> 65535"
  unfolding oc_fold_def by (simp add: Suc_le_eq)

lemma oc_fold_small: "n \<le> 65535 \<Longrightarrow> oc_fold n = n"
  by (simp add: oc_fold_def)

lemma oc_fold_step: "65536 \<le> n \<Longrightarrow> oc_fold (n mod 65536 + n div 65536) = oc_fold n"
proof -
  assume big: "65536 \<le> n"
  define q where "q = n div 65536"
  define r where "r = n mod 65536"
  have n: "n = 65536 * q + r" unfolding q_def r_def by simp
  have q: "1 \<le> q" unfolding q_def using big by (simp add: Suc_le_eq div_greater_zero_iff)
  have "n - 1 = (r + q - 1) + 65535 * q" using n q by simp
  then have "(n - 1) mod 65535 = (r + q - 1) mod 65535" by simp
  then show ?thesis
    unfolding oc_fold_def q_def [symmetric] r_def [symmetric] using q n by simp
qed

lemma fold_carries_eq: "unat (fold_carries t) = oc_fold (unat t)"
proof (induction t rule: fold_carries.induct)
  case (1 t)
  show ?case
  proof (cases "drop_bit 16 t = 0")
    case True
    then have "unat t \<le> 65535" by (simp add: high_half_zero)
    with True show ?thesis by (simp add: fold_carries.simps [of t] oc_fold_small)
  next
    case False
    then have "65536 \<le> unat t" by (simp add: high_half_zero)
    with False "1.IH" show ?thesis
      by (simp add: fold_carries.simps [of t] unat_fold_step oc_fold_step)
  qed
qed

lemma read_be16_eq:
  "badvpn_read_be16 (a # b # rest) = Inr (of_nat (256 * unat a + unat b))"
proof -
  have "push_bit 8 (ucast a :: u16) OR ucast b = push_bit 8 (ucast a) + ucast b"
    by (rule disjunctive_add [symmetric]) (auto simp: bit_simps)
  moreover have "push_bit 8 (ucast a :: u16) = 256 * ucast a"
    by (simp add: push_bit_eq_mult mult.commute)
  ultimately show ?thesis
    by (simp add: badvpn_read_be16_def)
qed

lemma two_bytes_less: "256 * unat (a :: u8) + unat (b :: u8) < 65536"
  using unat_byte_less [of a] unat_byte_less [of b] by linarith

lemma ucast_of_nat_u16:
  "k < 65536 \<Longrightarrow> (ucast (of_nat k :: u16) :: u32) = of_nat k"
  by (simp add: unsigned_of_nat take_bit_nat_eq_self)

lemma be16_loop_eq:
  "2 * n \<le> length data \<Longrightarrow> i \<le> n \<Longrightarrow>
     be16_loop data i n t = Inr (t + of_nat (be16_sum (take (2 * (n - i)) (drop (2 * i) data))))"
proof (induction data i n t rule: be16_loop.induct)
  case (1 data i n t)
  show ?case
  proof (cases "i < n")
    case True
    with "1.prems" have "2 \<le> length (drop (2 * i) data)" by simp
    then obtain a b rest where d: "drop (2 * i) data = a # b # rest"
      by (metis One_nat_def Suc_1 Suc_le_length_iff)
    have d': "drop (2 * Suc i) data = rest"
      using arg_cong [OF d, of "drop 2"] by (simp add: drop_drop)
    have k: "2 * (n - i) = Suc (Suc (2 * (n - Suc i)))" using True by simp
    have "be16_loop data (Suc i) n (t + of_nat (256 * unat a + unat b)) =
        Inr (t + of_nat (256 * unat a + unat b) + of_nat (be16_sum (take (2 * (n - Suc i)) rest)))"
      using "1.IH" [OF True, of "of_nat (256 * unat a + unat b)"] True "1.prems"
      by (simp only: ucast_of_nat_u16 [OF two_bytes_less] d' Suc_le_eq)
    then show ?thesis
      using True
      by (simp add: be16_loop.simps [of data i n t] d read_be16_eq k d'
            ucast_of_nat_u16 [OF two_bytes_less] del: of_nat_add of_nat_mult) (simp add: add.assoc)
  next
    case False
    with "1.prems" show ?thesis by (subst be16_loop.simps) simp
  qed
qed

lemma be16_sum_append: "even (length xs) \<Longrightarrow> be16_sum (xs @ ys) = be16_sum xs + be16_sum ys"
  by (induction xs rule: be16_sum.induct) auto

lemma be16_sum_le: "be16_sum xs \<le> 65535 * ((length xs + 1) div 2)"
proof (induction xs rule: be16_sum.induct)
  case (1 a b bs)
  then show ?case using two_bytes_less [of a b] by simp
next
  case (2 a)
  have "256 * unat a \<le> 65535" using unat_byte_less [of a] by linarith
  then show ?case by simp
qed simp

lemma be16_sum_u16_bytes [simp]: "be16_sum (u16_bytes (hton16 x)) = unat x"
proof -
  have "badvpn_read_be16 (u16_bytes (hton16 x) @ []) = Inr x"
    by (rule read_be16_hton16)
  moreover obtain a b where ab: "u16_bytes (hton16 x) = [a, b]"
    by (simp add: u16_bytes_def)
  ultimately have "x = of_nat (256 * unat a + unat b)"
    by (simp add: read_be16_eq del: of_nat_add of_nat_mult)
  then have "unat x = 256 * unat a + unat b"
    by (simp only: unat_of_nat_u16 [OF two_bytes_less])
  with ab show ?thesis by simp
qed

lemma udp_checksum_summer_eq:
  "even (unat len) \<Longrightarrow> unat len \<le> length data \<Longrightarrow>
     udp_checksum_summer data len = Inr (of_nat (be16_sum (take (unat len) data)))"
  by (simp add: udp_checksum_summer_def be16_loop_eq even_iff_mod_2_eq_zero [symmetric])

lemma odd_byte_word: "u16_bytes (hton16 (push_bit 8 (ucast (b :: u8)))) = [b, 0]"
proof -
  have "u16_bytes (push_bit 8 (ucast b)) = [0, b]"
    unfolding u16_bytes_def by (auto intro!: bit_word_eqI simp: bit_simps)
  then show ?thesis by (simp add: hton16_def)
qed

lemma unat_minus_one_word: "x \<noteq> (0 :: u16) \<Longrightarrow> unat (x - 1) = unat x - 1"
  by (simp add: unat_minus_one)

lemma udp_payload_sum_eq:
  assumes "unat plen \<le> length payload"
  shows "udp_payload_sum payload plen t = Inr (t + of_nat (be16_sum (take (unat plen) payload)))"
proof (cases "even (unat plen)")
  case True
  with assms show ?thesis
    by (simp add: udp_payload_sum_def udp_checksum_summer_eq even_iff_mod_2_eq_zero [symmetric])
next
  case False
  then obtain k where k: "unat plen = Suc k" and ek: "even k" by (cases "unat plen") auto
  then have k': "unat (plen - 1) = k" by (subst unat_minus_one_word) auto
  have tk: "take (Suc k) payload = take k payload @ [payload ! k]"
    using assms k by (simp add: take_Suc_conv_app_nth)
  have "be16_sum (take (Suc k) payload) = be16_sum (take k payload) + 256 * unat (payload ! k)"
    unfolding tk using ek assms k by (subst be16_sum_append) auto
  moreover have "udp_checksum_summer [payload ! k, 0] 2 = Inr (of_nat (256 * unat (payload ! k)))"
    by (subst udp_checksum_summer_eq) simp_all
  moreover have "Suc k mod 2 = 1" using ek by presburger
  ultimately show ?thesis
    using ek assms k k' odd_byte_word
    by (simp add: udp_payload_sum_def udp_checksum_summer_eq Let_def)
qed

subsection \<open>What the checksum functions compute\<close>

lemma ucast_not_u32:
  assumes "unat (t :: u32) \<le> 65535"
  shows "(ucast (NOT t) :: u16) = of_nat (65535 - unat t)"
proof -
  have "unat (NOT t) = 4294967295 - unat t"
  proof -
    have "NOT t = - 1 - t" by (simp add: not_eq_complement)
    moreover have "unat (- 1 - t) = unat (- 1 :: u32) - unat t"
      by (rule unat_sub) simp
    moreover have "unat (- 1 :: u32) = 4294967295"
      by (simp add: unsigned_minus_1_eq_mask mask_eq_exp_minus_1)
    ultimately show ?thesis by simp
  qed
  then have "unat (NOT t) = 65536 * 65535 + (65535 - unat t)" using assms by simp
  then have "unat (NOT t) mod 65536 = 65535 - unat t"
    by (simp only: mod_mult_self4) simp
  then have "unat (ucast (NOT t) :: u16) = 65535 - unat t"
    by (simp add: unsigned_ucast_eq take_bit_eq_mod)
  also have "\<dots> = unat (of_nat (65535 - unat t) :: u16)"
    by (rule unat_of_nat_u16 [symmetric]) simp
  finally show ?thesis by (simp only: word_unat_eq_iff)
qed

lemma oc_fold_pos: "0 < n \<Longrightarrow> 0 < oc_fold n"
  by (simp add: oc_fold_def)

lemma unat_fold_of_nat:
  "n < 4294967296 \<Longrightarrow> unat (fold_carries (of_nat n)) = oc_fold n"
  by (simp add: fold_carries_eq unat_of_nat_u32)

lemma udp_checksum_finish_eq:
  assumes "0 < n" and "n < 4294967296"
  shows "udp_checksum_finish (of_nat n) = hton16 (of_nat (65535 - oc_fold n))"
proof -
  have u: "unat (fold_carries (of_nat n)) = oc_fold n" using assms by (simp add: unat_fold_of_nat)
  then have "fold_carries (of_nat n) \<noteq> 0" using oc_fold_pos [OF assms(1)] by auto
  then show ?thesis
    using ucast_not_u32 [of "fold_carries (of_nat n)"] oc_fold_le [of n] u
    by (simp add: udp_checksum_finish_def Let_def)
qed

lemma length_ipv4_header_bytes [simp]: "length (ipv4_header_bytes h) = 20"
  by (simp add: ipv4_header_bytes_def)

lemma length_udp_header_bytes [simp]: "length (udp_header_bytes h) = 8"
  by (simp add: udp_header_bytes_def)

text \<open>The words summed for a UDP datagram: the pseudo-header, the header and the payload.\<close>

definition udp4_words :: "udp_header \<Rightarrow> bytes \<Rightarrow> u32 \<Rightarrow> u32 \<Rightarrow> nat" where
  "udp4_words header payload source_addr dest_addr =
     be16_sum (u32_bytes source_addr) + be16_sum (u32_bytes dest_addr) + 17 +
     (8 + length payload) mod 65536 + be16_sum (udp_header_bytes header) + be16_sum payload"

definition udp6_words :: "udp_header \<Rightarrow> bytes \<Rightarrow> bytes \<Rightarrow> bytes \<Rightarrow> nat" where
  "udp6_words header payload source_addr dest_addr =
     be16_sum source_addr + be16_sum dest_addr +
     be16_sum (u32_bytes (hton32 (of_nat (8 + length payload)))) + 17 +
     be16_sum (udp_header_bytes header) + be16_sum payload"

lemma be16_sum_word32 [simp]: "be16_sum (u32_bytes (hton32 17)) = 17"
  by (simp add: hton32_def) (simp add: u32_bytes_def)

lemma udp4_words_less:
  assumes "length payload \<le> 65535"
  shows "udp4_words header payload s d < 4294967296" "0 < udp4_words header payload s d"
proof -
  have p: "be16_sum payload \<le> 65535 * 32768"
  proof -
    have "(length payload + 1) div 2 \<le> 32768" using assms by simp
    then have "65535 * ((length payload + 1) div 2) \<le> 65535 * 32768" by simp
    then show ?thesis using be16_sum_le [of payload] by linarith
  qed
  have "be16_sum (u32_bytes s) \<le> 131070" "be16_sum (u32_bytes d) \<le> 131070"
    "be16_sum (udp_header_bytes header) \<le> 262140" "(8 + length payload) mod 65536 < 65536"
    using be16_sum_le [of "u32_bytes s"] be16_sum_le [of "u32_bytes d"]
      be16_sum_le [of "udp_header_bytes header"] by simp_all
  with p show "udp4_words header payload s d < 4294967296"
    unfolding udp4_words_def by linarith
  show "0 < udp4_words header payload s d" by (simp add: udp4_words_def)
qed

lemma udp_checksum_eq:
  assumes "length payload \<le> 65535"
  shows "udp_checksum header payload (of_nat (length payload)) s d =
           Inr (hton16 (of_nat (65535 - oc_fold (udp4_words header payload s d))))"
proof -
  let ?l = "of_nat (length payload) :: u16"
  have l: "unat ?l = length payload" using assms by (simp add: unat_of_nat_u16)
  have m: "unat (of_nat (8 + length payload) :: u16) = (8 + length payload) mod 65536"
    by (simp only: unsigned_of_nat take_bit_eq_mod) simp
  have "udp_checksum header payload ?l s d =
      Inr (udp_checksum_finish (of_nat (udp4_words header payload s d)))"
    using l m
    by (simp add: udp_checksum_def udp_checksum_summer_eq udp_payload_sum_eq IPV4_PROTOCOL_UDP_def
          udp4_words_def del: of_nat_add) (simp add: add_ac)
  then show ?thesis
    by (simp add: udp_checksum_finish_eq udp4_words_less [OF assms])
qed

lemma udp6_words_less:
  assumes "length payload \<le> 65535" and "length s = 16" and "length d = 16"
  shows "udp6_words header payload s d < 4294967296" "0 < udp6_words header payload s d"
proof -
  have "(length payload + 1) div 2 \<le> 32768" using assms(1) by simp
  then have "65535 * ((length payload + 1) div 2) \<le> 65535 * 32768" by simp
  then have "be16_sum payload \<le> 65535 * 32768" using be16_sum_le [of payload] by linarith
  moreover have "be16_sum s \<le> 524280" "be16_sum d \<le> 524280"
    "be16_sum (udp_header_bytes header) \<le> 262140"
    "be16_sum (u32_bytes (hton32 (of_nat (8 + length payload)))) \<le> 131070"
    using be16_sum_le [of s] be16_sum_le [of d] be16_sum_le [of "udp_header_bytes header"]
      be16_sum_le [of "u32_bytes (hton32 (of_nat (8 + length payload)))"] assms(2,3) by simp_all
  ultimately show "udp6_words header payload s d < 4294967296"
    unfolding udp6_words_def by linarith
  show "0 < udp6_words header payload s d" by (simp add: udp6_words_def)
qed

lemma udp_ip6_checksum_eq:
  assumes "length payload \<le> 65535" and "length s = 16" and "length d = 16"
  shows "udp_ip6_checksum header payload (of_nat (length payload)) s d =
           Inr (hton16 (of_nat (65535 - oc_fold (udp6_words header payload s d))))"
proof -
  let ?l = "of_nat (length payload) :: u16"
  have l: "unat ?l = length payload" using assms by (simp add: unat_of_nat_u16)
  have "udp_ip6_checksum header payload ?l s d =
      Inr (udp_checksum_finish (of_nat (udp6_words header payload s d)))"
    using l assms
    by (simp add: udp_ip6_checksum_def udp_checksum_summer_eq udp_payload_sum_eq IPV6_NEXT_UDP_def
          udp6_words_def)
  then show ?thesis
    by (simp add: udp_checksum_finish_eq udp6_words_less [OF assms])
qed

lemma ipv4_checksum_eq:
  assumes "even (unat elen)" and "unat elen \<le> length extra" and "unat elen \<le> 40"
  shows "ipv4_checksum h extra elen =
           Inr (hton16 (of_nat (65535 - oc_fold (be16_sum (ipv4_header_bytes h @
                  take (unat elen) extra)))))"
proof -
  let ?w = "be16_sum (ipv4_header_bytes h @ take (unat elen) extra)"
  have s: "?w = be16_sum (ipv4_header_bytes h) + be16_sum (take (unat elen) extra)"
    by (rule be16_sum_append) simp
  have "?w \<le> 65535 * ((length (ipv4_header_bytes h @ take (unat elen) extra) + 1) div 2)"
    by (rule be16_sum_le)
  also have "\<dots> \<le> 65535 * 30" using assms by (intro mult_le_mono2) simp
  finally have lt: "?w < 4294967296" by simp
  have "2 * (unat elen div 2) = unat elen" using assms(1) by simp
  then have "ipv4_checksum h extra elen = Inr (hton16 (ucast (NOT (fold_carries (of_nat ?w)))))"
    using assms by (simp add: ipv4_checksum_def be16_loop_eq s even_iff_mod_2_eq_zero [symmetric])
  then show ?thesis
    using ucast_not_u32 [of "fold_carries (of_nat ?w)"] unat_fold_of_nat [OF lt] oc_fold_le [of ?w]
    by simp
qed

text \<open>A sum completed by the complement of its fold is all ones: the receiver's test of RFC 1071.\<close>

lemma oc_fold_complement: "oc_fold (n + (65535 - oc_fold n)) = 65535"
proof (cases "n = 0")
  case True
  then show ?thesis by (simp add: oc_fold_def)
next
  case False
  define q where "q = (n - 1) div 65535"
  define r where "r = (n - 1) mod 65535"
  have "n - 1 = 65535 * q + r" unfolding q_def r_def by simp
  then have n: "n = 65535 * q + (r + 1)" using False by simp
  have f: "oc_fold n = r + 1" using False by (simp add: oc_fold_def r_def)
  have "r < 65535" by (simp add: r_def)
  then have m: "n + (65535 - oc_fold n) = 65535 * q + 65535" unfolding f using n by simp
  have "65535 * q + 65535 - 1 = 65534 + 65535 * q" by simp
  then have "(65535 * q + 65535 - 1) mod 65535 = 65534"
    by (simp only: mod_mult_self2) simp
  then show ?thesis unfolding m by (simp add: oc_fold_def)
qed

subsection \<open>Headers in memory\<close>

lemma ipv4_header_of_bytes_append [simp]:
  "ipv4_header_of_bytes (ipv4_header_bytes h @ rest) = h"
  by (simp add: ipv4_header_of_bytes_def ipv4_header_bytes_def u16_bytes_def u32_bytes_def
        join_bytes16 join_bytes32)

lemma udp_header_of_bytes_append [simp]:
  "udp_header_of_bytes (udp_header_bytes h @ rest) = h"
  by (simp add: udp_header_of_bytes_def udp_header_bytes_def u16_bytes_def
        join_bytes16)

lemma length_ipv6_header_bytes:
  "length (ip6_source_address h) = 16 \<Longrightarrow> length (ip6_destination_address h) = 16 \<Longrightarrow>
     length (ipv6_header_bytes h) = 40"
  by (simp add: ipv6_header_bytes_def)

lemma ipv6_header_of_bytes_append:
  assumes "length (ip6_source_address h) = 16" and "length (ip6_destination_address h) = 16"
  shows "ipv6_header_of_bytes (ipv6_header_bytes h @ rest) = h"
proof -
  have e: "ipv6_header_bytes h =
      version4_tc4 h # tc4_fl4 h # ucast (fl h) # ucast (drop_bit 8 (fl h)) #
      ucast (payload_length h) # ucast (drop_bit 8 (payload_length h)) #
      next_header h # hop_limit h # (ip6_source_address h @ ip6_destination_address h)"
    by (simp add: ipv6_header_bytes_def u16_bytes_def)
  have s: "take 16 (drop 8 (ipv6_header_bytes h @ rest)) = ip6_source_address h"
    unfolding e using assms by simp
  have d: "take 16 (drop 24 (ipv6_header_bytes h @ rest)) = ip6_destination_address h"
    unfolding e using assms by simp
  show ?thesis
    unfolding ipv6_header_of_bytes_def s d unfolding e
    by (simp add: join_bytes16)
qed

subsection \<open>The header checks\<close>

lemma ihl_le: "unat (IPV4_GET_IHL h) \<le> 15"
proof -
  have "version4_ihl4 h AND 0x0F = version4_ihl4 h mod 16"
    using take_bit_eq_mask [of 4 "version4_ihl4 h"] by (simp add: take_bit_eq_mod mask_eq_exp_minus_1)
  then show ?thesis
    by (simp add: IPV4_GET_IHL_def unat_mod)
qed

text \<open>No read of the three checks leaves the packet: their guards make each of them an equation without faults.\<close>

lemma ipv4_check_eq:
  "ipv4_check data =
     (if length data < 20 then Inr None else
      let out_header = ipv4_header_of_bytes (take 20 data) in
      if IPV4_GET_VERSION out_header \<noteq> 4 then Inr None else
      let header_len = unat (IPV4_GET_IHL out_header) * 4 in
      if header_len < 20 then Inr None else
      if header_len > length data then Inr None else
      let tot = unat (ntoh16 (total_length out_header)) in
      if tot < header_len then Inr None else
      if tot > length data then Inr None else
      let checksum_in_packet = ip4_checksum out_header in
      andthen (ipv4_checksum (out_header\<lparr>ip4_checksum := hton16 0\<rparr>) (drop 20 data)
                 (of_nat (header_len - 20)))
        (\<lambda>checksum_computed.
          if checksum_in_packet \<noteq> checksum_computed then Inr None
          else Inr (Some (out_header, take (tot - header_len) (drop header_len data)))))"
  by (simp add: ipv4_check_def mem_read_def Let_def cong: if_cong)

lemma ipv6_check_eq:
  "ipv6_check data =
     Inr (if length data < 40 then None else
      let out_header = ipv6_header_of_bytes (take 40 data) in
      if drop_bit 4 (ntoh8 (version4_tc4 out_header)) \<noteq> 6 then None else
      let plen = unat (ntoh16 (payload_length out_header)) in
      if plen > length data - 40 then None
      else Some (out_header, take plen (drop 40 data)))"
  by (auto simp: ipv6_check_def mem_read_def Let_def)

lemma udp_check_eq:
  "udp_check data =
     Inr (if length data < 8 then None else
      let out_header = udp_header_of_bytes (take 8 data);
          data = drop 8 data;
          udp_length = unat (ntoh16 (udp_len out_header)) in
      if udp_length < 8 then None else
      if udp_length > 8 + length data then None
      else Some (out_header, take (udp_length - 8) data))"
  by (auto simp: udp_check_def mem_read_def Let_def)

lemma udp_check_no_fault: "no_fault (udp_check data)"
  by (simp add: udp_check_eq)

lemma ipv6_check_no_fault: "no_fault (ipv6_check data)"
  by (simp add: ipv6_check_eq)

lemma ipv4_check_no_fault: "no_fault (ipv4_check data)"
proof -
  let ?h = "ipv4_header_of_bytes (take 20 data)"
  define hl where "hl = unat (IPV4_GET_IHL ?h) * 4"
  have "no_fault (ipv4_checksum h (drop 20 data) (of_nat (hl - 20)))"
    if "20 \<le> hl" "hl \<le> length data" for h
  proof -
    have le: "hl - 20 \<le> 40" unfolding hl_def using ihl_le [of ?h] by simp
    have "even (hl - 20)" unfolding hl_def by simp
    moreover have "unat (of_nat (hl - 20) :: u16) = hl - 20"
      by (rule unat_of_nat_u16) (use le in simp)
    ultimately show ?thesis
      using that le by (subst ipv4_checksum_eq) simp_all
  qed
  then show ?thesis
    unfolding ipv4_check_eq Let_def hl_def [symmetric]
    by (simp add: no_fault_andthen)
qed

lemma ipv4_check_SomeD:
  assumes "ipv4_check data = Inr (Some (h, payload))"
  shows "20 \<le> length data" and "h = ipv4_header_of_bytes (take 20 data)"
    and "sublist payload data" and "length payload \<le> 65535"
  using assms unfolding ipv4_check_eq Let_def
  by (auto simp: result_simps simp del: length_take split: if_splits)

lemma udp_check_SomeD:
  assumes "udp_check data = Inr (Some (h, payload))"
  shows "8 \<le> length data" and "h = udp_header_of_bytes (take 8 data)"
    and "sublist payload data" and "length payload \<le> 65535"
  using assms by (auto simp: udp_check_eq Let_def simp del: length_take split: if_splits)

lemma ipv6_check_SomeD:
  assumes "ipv6_check data = Inr (Some (h, payload))"
  shows "length (ip6_source_address h) = 16" and "length (ip6_destination_address h) = 16"
    and "sublist payload data" and "length payload \<le> 65535"
proof -
  from assms have *: "40 \<le> length data" "h = ipv6_header_of_bytes (take 40 data)"
    "payload = take (unat (ntoh16 (payload_length h))) (drop 40 data)"
    by (auto simp: ipv6_check_eq Let_def split: if_splits)
  show "length (ip6_source_address h) = 16" and "length (ip6_destination_address h) = 16"
    using *(1,2) by (simp_all add: ipv6_header_of_bytes_def)
  show "sublist payload data" and "length payload \<le> 65535"
    using *(3) by (simp_all del: length_take)
qed

subsection \<open>Completing a sum with its checksum\<close>

lemma hton16_0 [simp]: "hton16 0 = 0"
  by (simp add: hton16_def badvpn_reverse16_def u16_bytes_def u16_of_bytes_def)

lemma u16_bytes_0 [simp]: "u16_bytes 0 = [0, 0]"
  by (simp add: u16_bytes_def)

lemma ipv4_words_checksum:
  "be16_sum (ipv4_header_bytes (h\<lparr>ip4_checksum := hton16 x\<rparr>)) =
     be16_sum (ipv4_header_bytes (h\<lparr>ip4_checksum := 0\<rparr>)) + unat x"
  by (simp add: ipv4_header_bytes_def be16_sum_append)

lemma udp_words_checksum:
  "be16_sum (udp_header_bytes (h\<lparr>udp_csum := hton16 x\<rparr>)) =
     be16_sum (udp_header_bytes (h\<lparr>udp_csum := 0\<rparr>)) + unat x"
  by (simp add: udp_header_bytes_def be16_sum_append)

lemma checksum_completes: "oc_fold (n + unat (of_nat (65535 - oc_fold n) :: u16)) = 65535"
  by (simp only: unat_of_nat_u16 [of "65535 - oc_fold n"] oc_fold_complement)

lemma hton16_ones [simp]: "hton16 0xFFFF = 0xFFFF"
  by (simp add: hton16_def badvpn_reverse16_def u16_bytes_def u16_of_bytes_def)

lemma hton16_checksum_zero:
  "hton16 (of_nat (65535 - oc_fold n)) = 0 \<longleftrightarrow> oc_fold n = 65535"
proof -
  have "hton16 (of_nat (65535 - oc_fold n)) = 0 \<longleftrightarrow> (of_nat (65535 - oc_fold n) :: u16) = of_nat 0"
    using hton16_inject [of "of_nat (65535 - oc_fold n)" 0] by simp
  also have "\<dots> \<longleftrightarrow> 65535 - oc_fold n = 0"
    by (rule word_of_nat_eq_iff_small) simp_all
  finally show ?thesis using oc_fold_le [of n] by linarith
qed

lemma hton16_checksum_not_ones:
  assumes "0 < n"
  shows "hton16 (of_nat (65535 - oc_fold n)) \<noteq> 0xFFFF"
proof -
  have "hton16 (of_nat (65535 - oc_fold n)) = 0xFFFF \<longleftrightarrow>
      (of_nat (65535 - oc_fold n) :: u16) = of_nat 65535"
    using hton16_inject [of "of_nat (65535 - oc_fold n)" "0xFFFF"] by simp
  also have "\<dots> \<longleftrightarrow> 65535 - oc_fold n = 65535"
    by (rule word_of_nat_eq_iff_small) simp_all
  finally show ?thesis using oc_fold_pos [OF assms] by simp
qed

lemma oc_fold_full_iff: "0 < n \<Longrightarrow> oc_fold n = 65535 \<longleftrightarrow> n mod 65535 = 0"
  by (cases n) (auto simp: oc_fold_def mod_Suc split: if_splits)

end
