(* ===== verification/Tun_Udp.thy ===== *)
theory Tun_Udp
  imports Ip_Udp Socket_Addr
begin

unbundle bit_operations_syntax

section \<open>The UDP path of \<^verbatim>\<open>tun2socks/tun2socks.c\<close>\<close>

text \<open>
  \<open>process_device_udp_packet\<close> decides, for every packet read from the TUN device, whether it
  is a UDP datagram to be relayed through the udpgw connection, and
  \<open>udpgw_client_handler_received\<close> builds the IP packet for a datagram that comes back. The
  options and the globals the two functions read are the record \<open>tun_config\<close>; what they do is
  returned: the call of \<^verbatim>\<open>SocksUdpGwClient_SubmitPacket\<close> with its arguments, and the packet given
  to \<^verbatim>\<open>BTap_Send\<close> together with the new contents of \<open>device_write_buf\<close>.
\<close>

record tun_config =
  udpgw_remote_server_addr :: bool  \<comment> \<open>\<^verbatim>\<open>options.udpgw_remote_server_addr != NULL\<close>\<close>
  netif_ip6addr :: bool             \<comment> \<open>\<^verbatim>\<open>options.netif_ip6addr != NULL\<close>\<close>
  udpgw_transparent_dns :: bool
  netif_ipaddr :: u32
  udp_mtu :: int
  device_mtu :: int                 \<comment> \<open>\<^verbatim>\<open>BTap_GetMTU(&device)\<close>\<close>

text \<open>The MTU computation of \<open>run\<close>: the largest UDP payload the udpgw link must carry.\<close>

definition compute_udp_mtu :: "tun_config \<Rightarrow> int" where
  "compute_udp_mtu c =
     (let m = device_mtu c - (20 + 8);
          m = (if netif_ip6addr c
               then let m6 = device_mtu c - (40 + 8) in (if m < m6 then m6 else m) else m)
      in if m < 0 then 0 else m)"

text \<open>What is handed to \<^verbatim>\<open>SocksUdpGwClient_SubmitPacket\<close>.\<close>

record udp_submit =
  sub_local_addr :: BAddr
  sub_remote_addr :: BAddr
  sub_is_dns :: bool
  sub_data :: bytes

definition process_udp4 :: "tun_config \<Rightarrow> bytes \<Rightarrow> udp_submit option result" where
  "process_udp4 c data =
     (if length data < 20 then Inr None else
      andthen (mem_byte data 9) (\<lambda>proto.
      if proto \<noteq> of_nat IPV4_PROTOCOL_UDP then Inr None else
      andthen (ipv4_check data) (\<lambda>r. case r of None \<Rightarrow> Inr None | Some (iph, data) \<Rightarrow>
        andthen (udp_check data) (\<lambda>r. case r of None \<Rightarrow> Inr None | Some (udph, data) \<Rightarrow>
          (let checksum_in_packet = udp_csum udph; udph = udph\<lparr>udp_csum := 0\<rparr> in
           andthen (udp_checksum udph data (of_nat (length data))
                      (ip4_source_address iph) (ip4_destination_address iph)) (\<lambda>checksum_computed.
             if checksum_in_packet \<noteq> checksum_computed then Inr None
             else Inr (Some
               \<lparr> sub_local_addr = BAddr_MakeIPv4 (ip4_source_address iph) (source_port udph),
                 sub_remote_addr = BAddr_MakeIPv4 (ip4_destination_address iph) (dest_port udph),
                 sub_is_dns = (udpgw_transparent_dns c \<and>
                    ip4_destination_address iph = netif_ipaddr c \<and> dest_port udph = hton16 53),
                 sub_data = data \<rparr>)))))))"

definition process_udp6 :: "tun_config \<Rightarrow> bytes \<Rightarrow> udp_submit option result" where
  "process_udp6 c data =
     (if \<not> netif_ip6addr c then Inr None else
      if length data < 40 then Inr None else
      andthen (mem_byte data 6) (\<lambda>nxt.
      if nxt \<noteq> of_nat IPV6_NEXT_UDP then Inr None else
      andthen (ipv6_check data) (\<lambda>r. case r of None \<Rightarrow> Inr None | Some (iph, data) \<Rightarrow>
        andthen (udp_check data) (\<lambda>r. case r of None \<Rightarrow> Inr None | Some (udph, data) \<Rightarrow>
          (let checksum_in_packet = udp_csum udph; udph = udph\<lparr>udp_csum := 0\<rparr> in
           andthen (udp_ip6_checksum udph data (of_nat (length data))
                      (ip6_source_address iph) (ip6_destination_address iph)) (\<lambda>checksum_computed.
             if checksum_in_packet \<noteq> checksum_computed then Inr None
             else Inr (Some
               \<lparr> sub_local_addr = BAddr_MakeIPv6 (ip6_source_address iph) (source_port udph),
                 sub_remote_addr = BAddr_MakeIPv6 (ip6_destination_address iph) (dest_port udph),
                 sub_is_dns = False,
                 sub_data = data \<rparr>)))))))"

text \<open>
  The result \<open>None\<close> is the C return value 0 (the packet goes to lwIP), \<open>Some\<close> is 1 (the
  datagram was submitted to udpgw).
\<close>

definition process_device_udp_packet :: "tun_config \<Rightarrow> bytes \<Rightarrow> udp_submit option result" where
  "process_device_udp_packet c data =
     (if \<not> udpgw_remote_server_addr c then Inr None else
      andthen (if length data > 0 then andthen (mem_byte data 0) (\<lambda>b. Inr (drop_bit 4 b)) else Inr 0) (\<lambda>ip_version.
      andthen (if ip_version = 4 then process_udp4 c data
               else if ip_version = 6 then process_udp6 c data else Inr None)
        (\<lambda>r. case r of None \<Rightarrow> Inr None
           | Some s \<Rightarrow> if int (length (sub_data s)) > udp_mtu c then Inr None else Inr (Some s))))"

text \<open>The headers of a packet for a datagram that arrived from udpgw.\<close>

definition build_ipv4_header :: "u32 \<Rightarrow> u32 \<Rightarrow> nat \<Rightarrow> ipv4_header result" where
  "build_ipv4_header src dst data_len =
     (let iph = \<lparr> version4_ihl4 = IPV4_MAKE_VERSION_IHL 20, ds = hton8 0,
                  total_length = hton16 (of_nat (20 + 8 + data_len)), identification = hton16 0,
                  flags3_fragmentoffset13 = hton16 0, ttl = hton8 64,
                  protocol = hton8 (of_nat IPV4_PROTOCOL_UDP), ip4_checksum = hton16 0,
                  ip4_source_address = src, ip4_destination_address = dst \<rparr>
      in andthen (ipv4_checksum iph [] 0) (\<lambda>ck. Inr (iph\<lparr>ip4_checksum := ck\<rparr>)))"

definition build_ipv6_header :: "bytes \<Rightarrow> bytes \<Rightarrow> nat \<Rightarrow> ipv6_header" where
  "build_ipv6_header src dst data_len =
     \<lparr> version4_tc4 = hton8 (6 * 2 ^ 4), tc4_fl4 = hton8 0, fl = hton16 0,
       payload_length = hton16 (of_nat (8 + data_len)), next_header = hton8 (of_nat IPV6_NEXT_UDP),
       hop_limit = hton8 64, ip6_source_address = src, ip6_destination_address = dst \<rparr>"

definition build_udp_header :: "u16 \<Rightarrow> u16 \<Rightarrow> nat \<Rightarrow> udp_header" where
  "build_udp_header sport dport data_len =
     \<lparr> source_port = sport, dest_port = dport, udp_len = hton16 (of_nat (8 + data_len)),
       udp_csum = hton16 0 \<rparr>"

text \<open>The three \<^verbatim>\<open>memcpy\<close> calls that write a packet to \<open>device_write_buf\<close>.\<close>

definition write_packet :: "bytes \<Rightarrow> bytes \<Rightarrow> bytes \<Rightarrow> bytes \<Rightarrow> (bytes \<times> nat) result" where
  "write_packet buf iph udph data =
     andthen (mem_write buf 0 iph) (\<lambda>buf.
     andthen (mem_write buf (length iph) udph) (\<lambda>buf.
     andthen (mem_write buf (length iph + length udph) data) (\<lambda>buf.
     Inr (buf, length iph + length udph + length data))))"

text \<open>
  \<open>udpgw_client_handler_received\<close>: the new \<open>device_write_buf\<close>, and the packet passed to
  \<^verbatim>\<open>BTap_Send\<close> or \<open>None\<close> where the function returns early.
\<close>

definition udpgw_client_handler_received ::
    "tun_config \<Rightarrow> bytes \<Rightarrow> BAddr \<Rightarrow> BAddr \<Rightarrow> bytes \<Rightarrow> (bytes \<times> bytes option) result" where
  "udpgw_client_handler_received c buf local_addr remote_addr data =
     ASSERT (udpgw_remote_server_addr c)
     (ASSERT (BAddr_type local_addr = 1 \<or> BAddr_type local_addr = 2)
     (ASSERT (BAddr_type local_addr = BAddr_type remote_addr)
     (let data_len = length data in
      case (local_addr, remote_addr) of
        (BAddr_IPv4 lip lport, BAddr_IPv4 rip rport) \<Rightarrow>
          if int data_len > UINT16_MAX - (20 + 8) \<or> int data_len > device_mtu c - (20 + 8)
          then Inr (buf, None)
          else andthen (build_ipv4_header rip lip data_len) (\<lambda>iph.
               let udph = build_udp_header rport lport data_len in
               andthen (udp_checksum udph data (of_nat data_len) (ip4_source_address iph)
                          (ip4_destination_address iph)) (\<lambda>ck.
               andthen (write_packet buf (ipv4_header_bytes iph)
                          (udp_header_bytes (udph\<lparr>udp_csum := ck\<rparr>)) data) (\<lambda>(buf, packet_length).
               andthen (mem_read buf 0 packet_length) (\<lambda>pkt. Inr (buf, Some pkt)))))
      | (BAddr_IPv6 lip lport, BAddr_IPv6 rip rport) \<Rightarrow>
          if \<not> netif_ip6addr c then Inr (buf, None)
          else if int data_len > UINT16_MAX - 8 \<or> int data_len > device_mtu c - (40 + 8)
          then Inr (buf, None)
          else let iph = build_ipv6_header rip lip data_len;
                   udph = build_udp_header rport lport data_len in
               andthen (udp_ip6_checksum udph data (of_nat data_len) (ip6_source_address iph)
                          (ip6_destination_address iph)) (\<lambda>ck.
               andthen (write_packet buf (ipv6_header_bytes iph)
                          (udp_header_bytes (udph\<lparr>udp_csum := ck\<rparr>)) data) (\<lambda>(buf, packet_length).
               andthen (mem_read buf 0 packet_length) (\<lambda>pkt. Inr (buf, Some pkt))))
      | _ \<Rightarrow> Inl Assertion_failed)))"

subsection \<open>Reading packets from the device\<close>

lemma process_udp4_no_fault: "no_fault (process_udp4 c data)"
proof -
  have "no_fault (udp_checksum h d (of_nat (length d)) x y)" if "length d \<le> 65535" for h d x y
    using that by (simp add: udp_checksum_eq)
  then show ?thesis
    unfolding process_udp4_def Let_def
    by (auto intro!: no_fault_andthen ipv4_check_no_fault udp_check_no_fault simp: udp_check_SomeD(4)
        split: option.split)
qed

lemma process_udp6_no_fault: "no_fault (process_udp6 c data)"
  unfolding process_udp6_def Let_def
  by (auto intro!: no_fault_andthen ipv6_check_no_fault udp_check_no_fault simp: udp_check_SomeD(4) ipv6_check_SomeD(1,2)
      udp_ip6_checksum_eq split: option.split)

lemma process_udp4_SomeD:
  assumes "process_udp4 c data = Inr (Some s)"
  shows "sublist (sub_data s) data" and "BAddr_type (sub_local_addr s) = 1"
    and "BAddr_type (sub_remote_addr s) = 1"
proof -
  from assms obtain iph d1 udph where ck: "ipv4_check data = Inr (Some (iph, d1))"
    and u: "udp_check d1 = Inr (Some (udph, sub_data s))"
    and *: "BAddr_type (sub_local_addr s) = 1" "BAddr_type (sub_remote_addr s) = 1"
    by (auto simp: process_udp4_def Let_def result_simps BAddr_MakeIPv4_def
        split: if_splits option.splits prod.splits)
  show "sublist (sub_data s) data"
    using sublist_order.order_trans [OF udp_check_SomeD(3) [OF u] ipv4_check_SomeD(3) [OF ck]] .
  show "BAddr_type (sub_local_addr s) = 1" "BAddr_type (sub_remote_addr s) = 1" by (fact *)+
qed

lemma process_udp6_SomeD:
  assumes "process_udp6 c data = Inr (Some s)"
  shows "sublist (sub_data s) data" and "is_ip_addr (sub_local_addr s)"
    and "is_ip_addr (sub_remote_addr s)" and "BAddr_type (sub_local_addr s) = 2"
    and "BAddr_type (sub_remote_addr s) = 2"
proof -
  from assms obtain iph d1 udph where ck: "ipv6_check data = Inr (Some (iph, d1))"
    and u: "udp_check d1 = Inr (Some (udph, sub_data s))"
    and l: "sub_local_addr s = BAddr_IPv6 (take 16 (ip6_source_address iph)) (source_port udph)"
    and r: "sub_remote_addr s = BAddr_IPv6 (take 16 (ip6_destination_address iph)) (dest_port udph)"
    by (auto simp: process_udp6_def Let_def result_simps BAddr_MakeIPv6_def
        split: if_splits option.splits prod.splits)
  show "sublist (sub_data s) data"
    using sublist_order.order_trans [OF udp_check_SomeD(3) [OF u] ipv6_check_SomeD(3) [OF ck]] .
  show "is_ip_addr (sub_local_addr s)" "is_ip_addr (sub_remote_addr s)"
    "BAddr_type (sub_local_addr s) = 2" "BAddr_type (sub_remote_addr s) = 2"
    by (simp_all add: l r is_ip_addr_def ipv6_check_SomeD(1,2) [OF ck])
qed

text \<open>
  Reading a packet from the TUN device never reads outside it and never fails an assertion,
  whatever bytes the packet holds, and the function returns for every packet.
\<close>

lemma process_device_udp_packet_safe: "no_fault (process_device_udp_packet c data)"
  unfolding process_device_udp_packet_def Let_def
  by (auto intro!: no_fault_andthen simp: process_udp4_no_fault process_udp6_no_fault
      split: option.split)

text \<open>
  A datagram submitted to udpgw is a contiguous piece of the packet, no longer than the
  configured UDP MTU, and its two addresses are IP addresses of the same family (what the
  assertions of the udpgw client require of its caller).
\<close>

lemma process_device_udp_packet_submits:
  assumes "process_device_udp_packet c data = Inr (Some s)"
  shows "sublist (sub_data s) data \<and> int (length (sub_data s)) \<le> udp_mtu c \<and>
    is_ip_addr (sub_local_addr s) \<and> is_ip_addr (sub_remote_addr s) \<and>
    BAddr_type (sub_local_addr s) = BAddr_type (sub_remote_addr s)"
proof -
  from assms have len: "int (length (sub_data s)) \<le> udp_mtu c"
    and "process_udp4 c data = Inr (Some s) \<or> process_udp6 c data = Inr (Some s)"
    by (auto simp: process_device_udp_packet_def Let_def result_simps
        split: if_splits option.splits prod.splits)
  then show ?thesis
  proof (elim disjE)
    assume p: "process_udp4 c data = Inr (Some s)"
    have "is_ip_addr a" if "BAddr_type a = 1" for a
      using that by (cases a) (auto simp: is_ip_addr_def)
    then show ?thesis using len process_udp4_SomeD [OF p] by simp
  next
    assume "process_udp6 c data = Inr (Some s)"
    from process_udp6_SomeD [OF this] len show ?thesis by simp
  qed
qed

subsection \<open>Building packets for the device\<close>

lemma write_packet_eq:
  "length iph + length udph + length data \<le> length buf \<Longrightarrow>
     write_packet buf iph udph data =
       Inr (iph @ udph @ data @ drop (length iph + length udph + length data) buf,
            length iph + length udph + length data)"
  by (simp add: write_packet_def mem_write_def add_ac)

lemma ipv4_checksum_no_extra: "ipv4_checksum h extra 0 = ipv4_checksum h [] 0"
  by (simp add: ipv4_checksum_def be16_loop.simps [of _ 0 0])

lemma build_ipv4_headerD:
  assumes "build_ipv4_header src dst n = Inr iph"
  shows "version4_ihl4 iph = 0x45" "protocol iph = 17" "ip4_source_address iph = src"
    "ip4_destination_address iph = dst" "total_length iph = hton16 (of_nat (28 + n))"
    "ipv4_checksum (iph\<lparr>ip4_checksum := hton16 0\<rparr>) [] 0 = Inr (ip4_checksum iph)"
  using assms
  by (auto simp: build_ipv4_header_def Let_def result_simps IPV4_MAKE_VERSION_IHL_def
      IPV4_PROTOCOL_UDP_def hton8_def)

lemma build_ipv4_header_no_fault: "no_fault (build_ipv4_header src dst n)"
  unfolding build_ipv4_header_def Let_def
  by (intro no_fault_andthen) (simp_all add: ipv4_checksum_eq)

lemma ipv4_header_nth:
  "(ipv4_header_bytes h @ rest) ! 0 = version4_ihl4 h" "(ipv4_header_bytes h @ rest) ! 9 = protocol h"
  by (simp_all add: ipv4_header_bytes_def u16_bytes_def)

lemma ipv4_check_built:
  assumes b: "build_ipv4_header src dst n = Inr iph" and "length d = 8 + n" and "n \<le> 65507"
  shows "ipv4_check (ipv4_header_bytes iph @ d) = Inr (Some (iph, d))"
proof -
  have h: "ipv4_header_of_bytes (take 20 (ipv4_header_bytes iph @ d)) = iph"
    using ipv4_header_of_bytes_append [of iph "[]"] by simp
  have v: "IPV4_GET_VERSION iph = 4" "IPV4_GET_IHL iph = 5"
    using build_ipv4_headerD(1) [OF b] by (simp_all add: IPV4_GET_VERSION_def IPV4_GET_IHL_def)
  have t: "unat (ntoh16 (total_length iph)) = 28 + n"
    using build_ipv4_headerD(5) [OF b] assms(3) by (simp only: ntoh16_hton16 unat_of_nat_u16)
  show ?thesis
    using assms(2) build_ipv4_headerD(6) [OF b]
    unfolding ipv4_check_eq Let_def h v t
    by (simp add: ipv4_checksum_no_extra [of _ d])
qed

lemma udp_check_built:
  assumes "udp_len h = hton16 (of_nat (8 + length data))" and "length data \<le> 65527"
  shows "udp_check (udp_header_bytes h @ data) = Inr (Some (h, data))"
proof -
  have h: "udp_header_of_bytes (take 8 (udp_header_bytes h @ data)) = h"
    using udp_header_of_bytes_append [of h "[]"] by simp
  have t: "unat (ntoh16 (udp_len h)) = 8 + length data"
    using assms by (simp only: ntoh16_hton16 unat_of_nat_u16)
  show ?thesis unfolding udp_check_eq Let_def h t by simp
qed

lemma ipv6_check_built:
  assumes "length src = 16" and "length dst = 16" and "length d = 8 + n" and "n \<le> 65527"
  shows "ipv6_check (ipv6_header_bytes (build_ipv6_header src dst n) @ d) =
           Inr (Some (build_ipv6_header src dst n, d))"
proof -
  let ?h = "build_ipv6_header src dst n"
  have a: "length (ip6_source_address ?h) = 16" "length (ip6_destination_address ?h) = 16"
    using assms by (simp_all add: build_ipv6_header_def)
  have l: "length (ipv6_header_bytes ?h) = 40" by (rule length_ipv6_header_bytes [OF a])
  have h: "ipv6_header_of_bytes (take 40 (ipv6_header_bytes ?h @ d)) = ?h"
    using ipv6_header_of_bytes_append [OF a, of "[]"] l by simp
  have v: "drop_bit 4 (ntoh8 (version4_tc4 ?h)) = 6"
    by (simp add: build_ipv6_header_def ntoh8_def hton8_def)
  have "payload_length ?h = hton16 (of_nat (8 + n))" by (simp add: build_ipv6_header_def)
  then have t: "unat (ntoh16 (payload_length ?h)) = 8 + n"
    using assms(4) by (simp only: ntoh16_hton16 unat_of_nat_u16)
  show ?thesis unfolding ipv6_check_eq Let_def h v t using l assms(3) by simp
qed

lemma udp4_packet:
  assumes "udpgw_remote_server_addr c" and "int (length buf) = device_mtu c"
    and "int (length data) \<le> UINT16_MAX - 28" and "int (length data) \<le> device_mtu c - 28"
  obtains iph udph where "build_ipv4_header rip lip (length data) = Inr iph"
    and "udp_checksum (build_udp_header rport lport (length data)) data (of_nat (length data)) rip lip
           = Inr (udp_csum udph)"
    and "udph\<lparr>udp_csum := hton16 0\<rparr> = build_udp_header rport lport (length data)"
    and "udpgw_client_handler_received c buf (BAddr_IPv4 lip lport) (BAddr_IPv4 rip rport) data =
           Inr (ipv4_header_bytes iph @ udp_header_bytes udph @ data @ drop (28 + length data) buf,
                Some (ipv4_header_bytes iph @ udp_header_bytes udph @ data))"
proof -
  obtain iph where iph: "build_ipv4_header rip lip (length data) = Inr iph"
    using build_ipv4_header_no_fault [of rip lip "length data"] by (auto simp: no_fault_iff)
  let ?u = "build_udp_header rport lport (length data)"
  have dl: "length data \<le> 65507" using assms(3) by (simp add: UINT16_MAX_def)
  then obtain ck where ck: "udp_checksum ?u data (of_nat (length data)) rip lip = Inr ck"
    by (simp add: udp_checksum_eq)
  have fit: "20 + 8 + length data \<le> length buf" using assms(2,4) by linarith
  have "udpgw_client_handler_received c buf (BAddr_IPv4 lip lport) (BAddr_IPv4 rip rport) data =
      Inr (ipv4_header_bytes iph @ udp_header_bytes (?u\<lparr>udp_csum := ck\<rparr>) @ data @
             drop (28 + length data) buf,
           Some (ipv4_header_bytes iph @ udp_header_bytes (?u\<lparr>udp_csum := ck\<rparr>) @ data))"
    using assms iph ck fit build_ipv4_headerD(3,4) [OF iph]
    by (simp add: udpgw_client_handler_received_def Let_def write_packet_eq mem_read_def)
  then show thesis
    using that [of iph "?u\<lparr>udp_csum := ck\<rparr>"] iph ck by (simp add: build_udp_header_def)
qed

lemma udp6_packet:
  assumes "udpgw_remote_server_addr c" and "netif_ip6addr c" and "int (length buf) = device_mtu c"
    and "length lip = 16" and "length rip = 16"
    and "int (length data) \<le> UINT16_MAX - 8" and "int (length data) \<le> device_mtu c - 48"
  obtains udph where
    "udp_ip6_checksum (build_udp_header rport lport (length data)) data (of_nat (length data)) rip lip
           = Inr (udp_csum udph)"
    and "udph\<lparr>udp_csum := hton16 0\<rparr> = build_udp_header rport lport (length data)"
    and "udpgw_client_handler_received c buf (BAddr_IPv6 lip lport) (BAddr_IPv6 rip rport) data =
           Inr (ipv6_header_bytes (build_ipv6_header rip lip (length data)) @ udp_header_bytes udph @
                  data @ drop (48 + length data) buf,
                Some (ipv6_header_bytes (build_ipv6_header rip lip (length data)) @
                  udp_header_bytes udph @ data))"
proof -
  let ?h = "build_ipv6_header rip lip (length data)"
  let ?u = "build_udp_header rport lport (length data)"
  have dl: "length data \<le> 65527" using assms(6) by (simp add: UINT16_MAX_def)
  then obtain ck where ck: "udp_ip6_checksum ?u data (of_nat (length data)) rip lip = Inr ck"
    using assms by (simp add: udp_ip6_checksum_eq)
  have a: "ip6_source_address ?h = rip" "ip6_destination_address ?h = lip"
    by (simp_all add: build_ipv6_header_def)
  have l: "length (ipv6_header_bytes ?h) = 40"
    using length_ipv6_header_bytes [of ?h] assms(4,5) a by simp
  have fit: "40 + 8 + length data \<le> length buf" using assms(3,7) by linarith
  have "udpgw_client_handler_received c buf (BAddr_IPv6 lip lport) (BAddr_IPv6 rip rport) data =
      Inr (ipv6_header_bytes ?h @ udp_header_bytes (?u\<lparr>udp_csum := ck\<rparr>) @ data @
             drop (48 + length data) buf,
           Some (ipv6_header_bytes ?h @ udp_header_bytes (?u\<lparr>udp_csum := ck\<rparr>) @ data))"
    using assms ck fit a l
    by (simp add: udpgw_client_handler_received_def Let_def write_packet_eq mem_read_def)
  then show thesis
    using that [of "?u\<lparr>udp_csum := ck\<rparr>"] ck by (simp add: build_udp_header_def)
qed

lemma udp4_dropped:
  assumes "udpgw_remote_server_addr c"
    and "\<not> (int (length data) \<le> UINT16_MAX - 28 \<and> int (length data) \<le> device_mtu c - 28)"
  shows "udpgw_client_handler_received c buf (BAddr_IPv4 lip lport) (BAddr_IPv4 rip rport) data =
           Inr (buf, None)"
  using assms by (auto simp: udpgw_client_handler_received_def Let_def)

lemma udp6_dropped:
  assumes "udpgw_remote_server_addr c"
    and "\<not> (netif_ip6addr c \<and> int (length data) \<le> UINT16_MAX - 8 \<and>
            int (length data) \<le> device_mtu c - 48)"
  shows "udpgw_client_handler_received c buf (BAddr_IPv6 lip lport) (BAddr_IPv6 rip rport) data =
           Inr (buf, None)"
  using assms by (auto simp: udpgw_client_handler_received_def Let_def)

lemma same_family_cases:
  assumes "is_ip_addr la" and "is_ip_addr ra" and "BAddr_type la = BAddr_type ra"
  obtains (v4) lip lport rip rport where "la = BAddr_IPv4 lip lport" "ra = BAddr_IPv4 rip rport"
    | (v6) lip lport rip rport where "la = BAddr_IPv6 lip lport" "ra = BAddr_IPv6 rip rport"
        "length lip = 16" "length rip = 16"
  using assms by (cases la; cases ra) (auto simp: is_ip_addr_def)

text \<open>
  Building a packet for a datagram received from udpgw never writes outside
  \<open>device_write_buf\<close> (which is as long as the device MTU), for any two addresses of the same
  family and any payload.
\<close>

lemma udpgw_client_handler_received_safe:
  assumes c: "udpgw_remote_server_addr c" and buf: "int (length buf) = device_mtu c"
    and "is_ip_addr la" and "is_ip_addr ra" and "BAddr_type la = BAddr_type ra"
  shows "no_fault (udpgw_client_handler_received c buf la ra data)"
  using assms(3-5)
proof (cases rule: same_family_cases)
  case (v4 lip lport rip rport)
  show ?thesis
  proof (cases "int (length data) \<le> UINT16_MAX - 28 \<and> int (length data) \<le> device_mtu c - 28")
    case True
    then show ?thesis unfolding v4
      using udp4_packet [OF c buf, of data rip lip rport lport] by (metis no_fault_Inr)
  next
    case False
    then show ?thesis unfolding v4 using udp4_dropped [OF c] by simp
  qed
next
  case (v6 lip lport rip rport)
  show ?thesis
  proof (cases "netif_ip6addr c \<and> int (length data) \<le> UINT16_MAX - 8 \<and>
            int (length data) \<le> device_mtu c - 48")
    case True
    then show ?thesis unfolding v6(1,2)
      using udp6_packet [OF c _ buf v6(3,4), of data rport lport] by (metis no_fault_Inr)
  next
    case False
    then show ?thesis unfolding v6(1,2) using udp6_dropped [OF c] by simp
  qed
qed

text \<open>What a packet that passed the size checks looks like, for either family.\<close>

lemma received_SomeD4:
  assumes c: "udpgw_remote_server_addr c" and buf: "int (length buf) = device_mtu c"
    and r: "udpgw_client_handler_received c buf (BAddr_IPv4 lip lport) (BAddr_IPv4 rip rport) data =
              Inr (buf', Some pkt)"
  obtains iph udph where "int (length data) \<le> UINT16_MAX - 28" "int (length data) \<le> device_mtu c - 28"
    and "build_ipv4_header rip lip (length data) = Inr iph"
    and "udp_checksum (build_udp_header rport lport (length data)) data (of_nat (length data)) rip lip
           = Inr (udp_csum udph)"
    and "udph\<lparr>udp_csum := hton16 0\<rparr> = build_udp_header rport lport (length data)"
    and "pkt = ipv4_header_bytes iph @ udp_header_bytes udph @ data"
proof -
  have f: "int (length data) \<le> UINT16_MAX - 28 \<and> int (length data) \<le> device_mtu c - 28"
    using udp4_dropped [OF c, of data buf lip lport rip rport] r by auto
  then obtain iph udph where "build_ipv4_header rip lip (length data) = Inr iph"
    "udp_checksum (build_udp_header rport lport (length data)) data (of_nat (length data)) rip lip
           = Inr (udp_csum udph)"
    "udph\<lparr>udp_csum := hton16 0\<rparr> = build_udp_header rport lport (length data)"
    "pkt = ipv4_header_bytes iph @ udp_header_bytes udph @ data"
    using udp4_packet [OF c buf, of data rip lip rport lport] r by (metis Inr_inject Pair_inject option.inject)
  with f show thesis using that by blast
qed

lemma received_SomeD6:
  assumes c: "udpgw_remote_server_addr c" and buf: "int (length buf) = device_mtu c"
    and l: "length lip = 16" "length rip = 16"
    and r: "udpgw_client_handler_received c buf (BAddr_IPv6 lip lport) (BAddr_IPv6 rip rport) data =
              Inr (buf', Some pkt)"
  obtains udph where "netif_ip6addr c" "int (length data) \<le> UINT16_MAX - 8"
      "int (length data) \<le> device_mtu c - 48"
    and "udp_ip6_checksum (build_udp_header rport lport (length data)) data (of_nat (length data)) rip lip
           = Inr (udp_csum udph)"
    and "udph\<lparr>udp_csum := hton16 0\<rparr> = build_udp_header rport lport (length data)"
    and "pkt = ipv6_header_bytes (build_ipv6_header rip lip (length data)) @ udp_header_bytes udph @ data"
proof -
  have f: "netif_ip6addr c \<and> int (length data) \<le> UINT16_MAX - 8 \<and> int (length data) \<le> device_mtu c - 48"
    using udp6_dropped [OF c, of data buf lip lport rip rport] r by auto
  then obtain udph where
    "udp_ip6_checksum (build_udp_header rport lport (length data)) data (of_nat (length data)) rip lip
           = Inr (udp_csum udph)"
    "udph\<lparr>udp_csum := hton16 0\<rparr> = build_udp_header rport lport (length data)"
    "pkt = ipv6_header_bytes (build_ipv6_header rip lip (length data)) @ udp_header_bytes udph @ data"
    using udp6_packet [OF c _ buf l, of data rport lport] r by (metis Inr_inject Pair_inject option.inject)
  with f show thesis using that by blast
qed

lemma udph_fields:
  assumes "udph\<lparr>udp_csum := hton16 0\<rparr> = build_udp_header sport dport n"
  shows "udp_len udph = hton16 (of_nat (8 + n))" "source_port udph = sport" "dest_port udph = dport"
  using assms by (cases udph; simp add: build_udp_header_def)+

lemma build_udp_header_ports [simp]:
  "source_port (build_udp_header sport dport n) = sport" "dest_port (build_udp_header sport dport n) = dport"
  by (simp_all add: build_udp_header_def)

lemma process_udp4_built:
  assumes "build_ipv4_header rip lip (length data) = Inr iph" and "length data \<le> 65507"
    and "udp_checksum (build_udp_header rport lport (length data)) data (of_nat (length data)) rip lip
           = Inr (udp_csum udph)"
    and u: "udph\<lparr>udp_csum := hton16 0\<rparr> = build_udp_header rport lport (length data)"
  shows "process_udp4 c (ipv4_header_bytes iph @ udp_header_bytes udph @ data) =
           Inr (Some \<lparr> sub_local_addr = BAddr_IPv4 rip rport, sub_remote_addr = BAddr_IPv4 lip lport,
                       sub_is_dns = (udpgw_transparent_dns c \<and> lip = netif_ipaddr c \<and> lport = hton16 53),
                       sub_data = data \<rparr>)"
proof -
  let ?d = "udp_header_bytes udph @ data"
  have ck: "ipv4_check (ipv4_header_bytes iph @ ?d) = Inr (Some (iph, ?d))"
    by (rule ipv4_check_built [OF assms(1)]) (use assms(2) in simp_all)
  have uc: "udp_check ?d = Inr (Some (udph, data))"
    by (rule udp_check_built) (use udph_fields(1) [OF u] assms(2) in simp_all)
  have "udph\<lparr>udp_csum := 0\<rparr> = build_udp_header rport lport (length data)" using u by simp
  then show ?thesis
    using assms(3) ipv4_header_nth(2) [of iph ?d] build_ipv4_headerD [OF assms(1)] udph_fields [OF u]
    unfolding process_udp4_def ck uc
    by (simp add: uc IPV4_PROTOCOL_UDP_def BAddr_MakeIPv4_def Let_def)
qed

lemma process_udp6_built:
  assumes "netif_ip6addr c" and "length data \<le> 65527" and l: "length lip = 16" "length rip = 16"
    and "udp_ip6_checksum (build_udp_header rport lport (length data)) data (of_nat (length data)) rip lip
           = Inr (udp_csum udph)"
    and u: "udph\<lparr>udp_csum := hton16 0\<rparr> = build_udp_header rport lport (length data)"
  shows "process_udp6 c (ipv6_header_bytes (build_ipv6_header rip lip (length data)) @
             udp_header_bytes udph @ data) =
           Inr (Some \<lparr> sub_local_addr = BAddr_IPv6 rip rport, sub_remote_addr = BAddr_IPv6 lip lport,
                       sub_is_dns = False, sub_data = data \<rparr>)"
proof -
  let ?d = "udp_header_bytes udph @ data" and ?h = "build_ipv6_header rip lip (length data)"
  have ck: "ipv6_check (ipv6_header_bytes ?h @ ?d) = Inr (Some (?h, ?d))"
    by (rule ipv6_check_built) (use assms(2) l in simp_all)
  have uc: "udp_check ?d = Inr (Some (udph, data))"
    by (rule udp_check_built) (use udph_fields(1) [OF u] assms(2) in simp_all)
  have n: "(ipv6_header_bytes ?h @ ?d) ! 6 = 17" "length (ipv6_header_bytes ?h) = 40"
    using l by (simp_all add: ipv6_header_bytes_def build_ipv6_header_def u16_bytes_def hton8_def
        IPV6_NEXT_UDP_def)
  have a: "ip6_source_address ?h = rip" "ip6_destination_address ?h = lip"
    by (simp_all add: build_ipv6_header_def)
  have "udph\<lparr>udp_csum := 0\<rparr> = build_udp_header rport lport (length data)" using u by simp
  then show ?thesis
    using assms(1,5) n a udph_fields [OF u] l
    unfolding process_udp6_def ck
    by (simp add: uc IPV6_NEXT_UDP_def BAddr_MakeIPv6_def Let_def)
qed

lemma ipv6_header_nth0: "(ipv6_header_bytes h @ rest) ! 0 = version4_tc4 h"
  by (simp add: ipv6_header_bytes_def)

text \<open>The packet built for a datagram is parsed back.\<close>

lemma received_packet_parses:
  assumes c: "udpgw_remote_server_addr c" and buf: "int (length buf) = device_mtu c"
    and mtu: "udp_mtu c = compute_udp_mtu c"
    and ip: "is_ip_addr la" "is_ip_addr ra" "BAddr_type la = BAddr_type ra"
    and r: "udpgw_client_handler_received c buf la ra data = Inr (buf', Some pkt)"
  shows "process_device_udp_packet c pkt =
           Inr (Some \<lparr> sub_local_addr = ra, sub_remote_addr = la,
                       sub_is_dns = (udpgw_transparent_dns c \<and> la = BAddr_IPv4 (netif_ipaddr c) (hton16 53)),
                       sub_data = data \<rparr>)"
  using ip
proof (cases rule: same_family_cases)
  case (v4 lip lport rip rport)
  obtain iph udph where l: "int (length data) \<le> UINT16_MAX - 28" "int (length data) \<le> device_mtu c - 28"
    and b: "build_ipv4_header rip lip (length data) = Inr iph"
    and k: "udp_checksum (build_udp_header rport lport (length data)) data (of_nat (length data)) rip lip
           = Inr (udp_csum udph)" "udph\<lparr>udp_csum := hton16 0\<rparr> = build_udp_header rport lport (length data)"
    and p: "pkt = ipv4_header_bytes iph @ udp_header_bytes udph @ data"
    using received_SomeD4 [OF c buf r [unfolded v4]] .
  have len: "length data \<le> 65507" using l(1) by (simp add: UINT16_MAX_def)
  have v: "drop_bit 4 (pkt ! 0) = 4" "0 < length pkt"
    unfolding p ipv4_header_nth using build_ipv4_headerD(1) [OF b] by simp_all
  have m: "int (length data) \<le> udp_mtu c" using l mtu by (simp add: compute_udp_mtu_def Let_def)
  show ?thesis
    using c v m process_udp4_built [OF b len k, of c]
    by (simp add: process_device_udp_packet_def v4 p [symmetric])
next
  case (v6 lip lport rip rport)
  obtain udph where l: "netif_ip6addr c" "int (length data) \<le> UINT16_MAX - 8"
      "int (length data) \<le> device_mtu c - 48"
    and k: "udp_ip6_checksum (build_udp_header rport lport (length data)) data (of_nat (length data)) rip lip
           = Inr (udp_csum udph)" "udph\<lparr>udp_csum := hton16 0\<rparr> = build_udp_header rport lport (length data)"
    and p: "pkt = ipv6_header_bytes (build_ipv6_header rip lip (length data)) @ udp_header_bytes udph @ data"
    using received_SomeD6 [OF c buf v6(3,4) r [unfolded v6(1,2)]] .
  have len: "length data \<le> 65527" using l(2) by (simp add: UINT16_MAX_def)
  have v: "drop_bit 4 (pkt ! 0) = 6" "0 < length pkt"
    unfolding p ipv6_header_nth0 by (simp_all add: build_ipv6_header_def hton8_def)
  have m: "int (length data) \<le> udp_mtu c" using l mtu by (simp add: compute_udp_mtu_def Let_def)
  show ?thesis
    using c v m process_udp6_built [OF l(1) len v6(3,4) k]
    by (simp add: process_device_udp_packet_def v6 p [symmetric])
qed

text \<open>
  C19: Round trip. The packet built for a datagram that arrived from udpgw, read back from the
  device, passes every check (lengths, both checksums, MTU) and is the same datagram with the
  two addresses exchanged, for IPv4 and IPv6.
\<close>

theorem udpgw_packet_roundtrip:
  assumes c: "udpgw_remote_server_addr c" and buf: "int (length buf) = device_mtu c"
    and mtu: "udp_mtu c = compute_udp_mtu c"
    and ip: "is_ip_addr la" "is_ip_addr ra" "BAddr_type la = BAddr_type ra"
    and r: "udpgw_client_handler_received c buf la ra data = Inr (buf', Some pkt)"
  shows "process_device_udp_packet c pkt =
           Inr (Some \<lparr> sub_local_addr = ra, sub_remote_addr = la,
                       sub_is_dns = (udpgw_transparent_dns c \<and> la = BAddr_IPv4 (netif_ipaddr c) (hton16 53)),
                       sub_data = data \<rparr>)"
  by (rule received_packet_parses [OF assms])

lemma built_ipv4_sum:
  assumes "build_ipv4_header src dst n = Inr iph"
  shows "oc_fold (be16_sum (ipv4_header_bytes iph)) = 65535"
proof -
  let ?w = "be16_sum (ipv4_header_bytes (iph\<lparr>ip4_checksum := 0\<rparr>))"
  have "ip4_checksum iph = hton16 (of_nat (65535 - oc_fold ?w))"
    using build_ipv4_headerD(6) [OF assms] by (simp add: ipv4_checksum_eq)
  then have "iph = iph\<lparr>ip4_checksum := hton16 (of_nat (65535 - oc_fold ?w))\<rparr>" by simp
  then have "be16_sum (ipv4_header_bytes iph) = ?w + unat (of_nat (65535 - oc_fold ?w) :: u16)"
    using ipv4_words_checksum by metis
  then show ?thesis by (simp only: checksum_completes)
qed

lemma built_udp_sum:
  assumes k: "udp_checksum (build_udp_header rport lport (length data)) data (of_nat (length data)) rip lip
           = Inr (udp_csum udph)"
    and u: "udph\<lparr>udp_csum := hton16 0\<rparr> = build_udp_header rport lport (length data)"
    and len: "length data \<le> 65507"
  shows "oc_fold (be16_sum (u32_bytes rip) + be16_sum (u32_bytes lip) + 17 + (8 + length data) +
           be16_sum (udp_header_bytes udph) + be16_sum data) = 65535"
proof -
  let ?h = "build_udp_header rport lport (length data)"
  let ?w = "udp4_words ?h data rip lip"
  have "udp_csum udph = hton16 (of_nat (65535 - oc_fold ?w))"
    using k len by (simp add: udp_checksum_eq)
  then have "udph = udph\<lparr>udp_csum := hton16 (of_nat (65535 - oc_fold ?w))\<rparr>" by simp
  then have "be16_sum (udp_header_bytes udph) =
      be16_sum (udp_header_bytes (udph\<lparr>udp_csum := 0\<rparr>)) + unat (of_nat (65535 - oc_fold ?w) :: u16)"
    using udp_words_checksum by metis
  moreover have "udph\<lparr>udp_csum := 0\<rparr> = ?h" using u by simp
  ultimately have "be16_sum (u32_bytes rip) + be16_sum (u32_bytes lip) + 17 + (8 + length data) +
      be16_sum (udp_header_bytes udph) + be16_sum data =
      ?w + unat (of_nat (65535 - oc_fold ?w) :: u16)"
    using len by (simp add: udp4_words_def)
  then show ?thesis by (simp only: checksum_completes)
qed

lemma built_udp6_sum:
  assumes k: "udp_ip6_checksum (build_udp_header rport lport (length data)) data (of_nat (length data)) rip lip
           = Inr (udp_csum udph)"
    and u: "udph\<lparr>udp_csum := hton16 0\<rparr> = build_udp_header rport lport (length data)"
    and len: "length data \<le> 65527" and l: "length rip = 16" "length lip = 16"
  shows "oc_fold (be16_sum rip + be16_sum lip + be16_sum (u32_bytes (hton32 (of_nat (8 + length data)))) + 17 +
           be16_sum (udp_header_bytes udph) + be16_sum data) = 65535"
proof -
  let ?h = "build_udp_header rport lport (length data)"
  let ?w = "udp6_words ?h data rip lip"
  have "udp_csum udph = hton16 (of_nat (65535 - oc_fold ?w))"
    using k len l by (simp add: udp_ip6_checksum_eq)
  then have "udph = udph\<lparr>udp_csum := hton16 (of_nat (65535 - oc_fold ?w))\<rparr>" by simp
  then have "be16_sum (udp_header_bytes udph) =
      be16_sum (udp_header_bytes (udph\<lparr>udp_csum := 0\<rparr>)) + unat (of_nat (65535 - oc_fold ?w) :: u16)"
    using udp_words_checksum by metis
  moreover have "udph\<lparr>udp_csum := 0\<rparr> = ?h" using u by simp
  ultimately have "be16_sum rip + be16_sum lip + be16_sum (u32_bytes (hton32 (of_nat (8 + length data)))) + 17 +
      be16_sum (udp_header_bytes udph) + be16_sum data =
      ?w + unat (of_nat (65535 - oc_fold ?w) :: u16)"
    by (simp add: udp6_words_def)
  then show ?thesis by (simp only: checksum_completes)
qed

text \<open>What a receiver that follows RFC 1071 sums, for either family: the IPv4 header, and the pseudo-header with the UDP header and the payload.\<close>

definition checksums_valid :: "BAddr \<Rightarrow> BAddr \<Rightarrow> bytes \<Rightarrow> bool" where
  "checksums_valid src dst pkt =
     (case (src, dst) of
        (BAddr_IPv4 sip _, BAddr_IPv4 dip _) \<Rightarrow>
          oc_fold (be16_sum (take 20 pkt)) = 65535 \<and>
          oc_fold (be16_sum (u32_bytes sip) + be16_sum (u32_bytes dip) + 17 + (length pkt - 20) + be16_sum (drop 20 pkt)) = 65535
      | (BAddr_IPv6 sip _, BAddr_IPv6 dip _) \<Rightarrow>
          oc_fold (be16_sum sip + be16_sum dip + be16_sum (u32_bytes (hton32 (of_nat (length pkt - 40)))) + 17 + be16_sum (drop 40 pkt)) = 65535
      | _ \<Rightarrow> False)"

text \<open>
  C20: The packets emitted towards the device are valid for a receiver that follows RFC 1071: the
  ones-complement sum of the IPv4 header, and that of the pseudo-header (of IPv4, or of IPv6 as RFC 2460 defines it), UDP header and payload,
  are all ones, for any addresses of either family, any ports and any payload that fits.
\<close>

theorem udpgw_packet_checksums_valid:
  assumes c: "udpgw_remote_server_addr c" and buf: "int (length buf) = device_mtu c"
    and ip: "is_ip_addr la" "is_ip_addr ra" "BAddr_type la = BAddr_type ra"
    and r: "udpgw_client_handler_received c buf la ra data = Inr (buf', Some pkt)"
  shows "checksums_valid ra la pkt \<and>
    length pkt = (case la of BAddr_IPv4 _ _ \<Rightarrow> 28 | _ \<Rightarrow> 48) + length data"
  using ip
proof (cases rule: same_family_cases)
  case (v4 lip lport rip rport)
  obtain iph udph where l: "int (length data) \<le> UINT16_MAX - 28" "int (length data) \<le> device_mtu c - 28"
    and b: "build_ipv4_header rip lip (length data) = Inr iph"
    and k: "udp_checksum (build_udp_header rport lport (length data)) data (of_nat (length data)) rip lip
           = Inr (udp_csum udph)" "udph\<lparr>udp_csum := hton16 0\<rparr> = build_udp_header rport lport (length data)"
    and p: "pkt = ipv4_header_bytes iph @ udp_header_bytes udph @ data"
    using received_SomeD4 [OF c buf r [unfolded v4]] .
  have len: "length data \<le> 65507" using l(1) by (simp add: UINT16_MAX_def)
  show ?thesis
    using built_ipv4_sum [OF b] built_udp_sum [OF k(1) k(2) len]
    by (simp add: v4 checksums_valid_def p be16_sum_append add_ac)
next
  case (v6 lip lport rip rport)
  let ?h = "build_ipv6_header rip lip (length data)"
  obtain udph where l: "netif_ip6addr c" "int (length data) \<le> UINT16_MAX - 8"
      "int (length data) \<le> device_mtu c - 48"
    and k: "udp_ip6_checksum (build_udp_header rport lport (length data)) data (of_nat (length data)) rip lip
           = Inr (udp_csum udph)" "udph\<lparr>udp_csum := hton16 0\<rparr> = build_udp_header rport lport (length data)"
    and p: "pkt = ipv6_header_bytes ?h @ udp_header_bytes udph @ data"
    using received_SomeD6 [OF c buf v6(3,4) r [unfolded v6(1,2)]] .
  have len: "length data \<le> 65527" using l(2) by (simp add: UINT16_MAX_def)
  have h: "length (ipv6_header_bytes ?h) = 40"
    by (rule length_ipv6_header_bytes) (simp_all add: build_ipv6_header_def v6(3,4))
  show ?thesis
    using built_udp6_sum [OF k(1) k(2) len v6(4,3)]
    by (simp add: v6(1,2) checksums_valid_def p h be16_sum_append add_ac del: of_nat_add)
qed

lemma ipv4_check_version:
  assumes "ipv4_check data = Inr (Some (iph, d))"
  shows "drop_bit 4 (data ! 0) = 4" and "0 < length data"
proof -
  from assms have h: "20 \<le> length data" "IPV4_GET_VERSION (ipv4_header_of_bytes (take 20 data)) = 4"
    by (auto simp: ipv4_check_eq Let_def split: if_splits)
  have "bit (15 :: u8) n" if "bit x (4 + n)" for x :: u8 and n
  proof -
    have "4 + n < 8" using bit_imp_le_length [OF that] by simp
    then have "n = 0 \<or> n = 1 \<or> n = 2 \<or> n = 3" by linarith
    then show ?thesis by (elim disjE) simp_all
  qed
  then have "drop_bit 4 (x AND 0xF0) = drop_bit 4 x" for x :: u8
    by (auto intro!: bit_word_eqI simp: bit_simps)
  with h show "drop_bit 4 (data ! 0) = 4"
    by (simp add: IPV4_GET_VERSION_def ipv4_header_of_bytes_def)
  show "0 < length data" using h(1) by linarith
qed

lemma ipv6_check_version:
  assumes "ipv6_check data = Inr (Some (iph, d))"
  shows "drop_bit 4 (data ! 0) = 6" and "0 < length data"
  using assms by (auto simp: ipv6_check_eq Let_def ipv6_header_of_bytes_def ntoh8_def hton8_def split: if_splits)

text \<open>
  C21: The zero checksum. RFC 768 transmits a computed checksum of zero as all ones, because zero
  means that the sender computed none (and RFC 2460 forbids it). The code replaces a zero sum before the complement and not
  a zero checksum after it: over IPv4 and over IPv6, exactly the datagrams whose words sum to a multiple of 65535 get the
  checksum 0, and the value 0xFFFF is never produced, so a correctly checksummed datagram whose
  checksum field holds 0xFFFF is never relayed.
\<close>

theorem udp_zero_checksum:
  assumes "length payload \<le> 65535" and "length src6 = 16" and "length dst6 = 16"
  shows "(udp_checksum h payload (of_nat (length payload)) src dst = Inr 0 \<longleftrightarrow>
            udp4_words h payload src dst mod 65535 = 0) \<and>
         (udp_ip6_checksum h payload (of_nat (length payload)) src6 dst6 = Inr 0 \<longleftrightarrow>
            udp6_words h payload src6 dst6 mod 65535 = 0) \<and>
         (ipv4_check data = Inr (Some (iph, d)) \<and> udp_check d = Inr (Some (udph, p)) \<and> udp_csum udph = 0xFFFF
            \<longrightarrow> process_device_udp_packet c data = Inr None) \<and>
         (ipv6_check data = Inr (Some (iph6, d)) \<and> udp_check d = Inr (Some (udph, p)) \<and> udp_csum udph = 0xFFFF
            \<longrightarrow> process_device_udp_packet c data = Inr None)"
proof (intro conjI impI)
  show "udp_checksum h payload (of_nat (length payload)) src dst = Inr 0 \<longleftrightarrow>
            udp4_words h payload src dst mod 65535 = 0"
    using assms(1) udp4_words_less(2) [OF assms(1), of h src dst]
    by (simp add: udp_checksum_eq hton16_checksum_zero oc_fold_full_iff)
  show "udp_ip6_checksum h payload (of_nat (length payload)) src6 dst6 = Inr 0 \<longleftrightarrow>
            udp6_words h payload src6 dst6 mod 65535 = 0"
    using assms udp6_words_less(2) [OF assms, of h]
    by (simp add: udp_ip6_checksum_eq hton16_checksum_zero oc_fold_full_iff)
next
  assume a: "ipv4_check data = Inr (Some (iph, d)) \<and> udp_check d = Inr (Some (udph, p)) \<and> udp_csum udph = 0xFFFF"
  then have p: "length p \<le> 65535" using udp_check_SomeD(4) by blast
  let ?w = "udp4_words (udph\<lparr>udp_csum := 0\<rparr>) p (ip4_source_address iph) (ip4_destination_address iph)"
  have "hton16 (of_nat (65535 - oc_fold ?w)) \<noteq> 0xFFFF"
    by (rule hton16_checksum_not_ones [OF udp4_words_less(2) [OF p]])
  moreover have "20 \<le> length data" using a ipv4_check_SomeD(1) by blast
  ultimately have "process_udp4 c data = Inr None"
    using a p not_sym unfolding process_udp4_def by (simp add: Let_def udp_checksum_eq)
  moreover have "drop_bit 4 (data ! 0) = 4" "0 < length data" using ipv4_check_version a by blast+
  ultimately show "process_device_udp_packet c data = Inr None"
    by (simp add: process_device_udp_packet_def)
next
  assume a: "ipv6_check data = Inr (Some (iph6, d)) \<and> udp_check d = Inr (Some (udph, p)) \<and> udp_csum udph = 0xFFFF"
  then have p: "length p \<le> 65535" "length (ip6_source_address iph6) = 16" "length (ip6_destination_address iph6) = 16"
    using udp_check_SomeD(4) ipv6_check_SomeD(1,2) by blast+
  let ?w = "udp6_words (udph\<lparr>udp_csum := 0\<rparr>) p (ip6_source_address iph6) (ip6_destination_address iph6)"
  have "hton16 (of_nat (65535 - oc_fold ?w)) \<noteq> 0xFFFF"
    by (rule hton16_checksum_not_ones [OF udp6_words_less(2) [OF p]])
  moreover have "40 \<le> length data" using a by (auto simp: ipv6_check_eq split: if_splits)
  ultimately have "process_udp6 c data = Inr None"
    using a p not_sym unfolding process_udp6_def by (simp add: Let_def udp_ip6_checksum_eq)
  moreover have "drop_bit 4 (data ! 0) = 6" "0 < length data" using ipv6_check_version a by blast+
  ultimately show "process_device_udp_packet c data = Inr None"
    by (simp add: process_device_udp_packet_def)
qed

subsection \<open>Concrete packets\<close>

definition ex_config :: tun_config where
  "ex_config = \<lparr> udpgw_remote_server_addr = True, netif_ip6addr = True, udpgw_transparent_dns = True,
     netif_ipaddr = 0x0100000A, udp_mtu = 12, device_mtu = 40 \<rparr>"

definition ex_local :: BAddr where "ex_local = BAddr_IPv4 0x0100000A (hton16 53)"
definition ex_remote :: BAddr where "ex_remote = BAddr_IPv4 0x08080808 (hton16 4096)"

definition ex_packet :: bytes where
  "ex_packet = (case udpgw_client_handler_received ex_config (replicate 40 0) ex_local ex_remote [7, 8, 9]
                of Inr (_, Some p) \<Rightarrow> p | _ \<Rightarrow> [])"

lemma ex_packet_eq:
  "ex_packet = [69, 0, 0, 31, 0, 0, 0, 0, 64, 17, 96, 190, 8, 8, 8, 8, 10, 0, 0, 1, 16, 0,
     0, 53, 0, 11, 197, 138, 7, 8, 9]"
  by code_simp

lemma ex_packet_built:
  "udpgw_client_handler_received ex_config (replicate 40 0) ex_local ex_remote [7, 8, 9] =
     Inr (ex_packet @ replicate 9 0, Some ex_packet)"
  by code_simp

lemma ex_addrs:
  "is_ip_addr ex_local" "is_ip_addr ex_remote" "BAddr_type ex_local = BAddr_type ex_remote"
  by code_simp+

lemma ex_config_facts:
  "udpgw_remote_server_addr ex_config" "int (length (replicate 40 (0 :: u8))) = device_mtu ex_config"
  "udp_mtu ex_config = compute_udp_mtu ex_config"
  by (simp_all add: ex_config_def compute_udp_mtu_def)

theorem udpgw_packet_roundtrip_witness:
  "process_device_udp_packet ex_config ex_packet =
     Inr (Some \<lparr> sub_local_addr = ex_remote, sub_remote_addr = ex_local, sub_is_dns = True,
                 sub_data = [7, 8, 9] \<rparr>)"
  using udpgw_packet_roundtrip [OF ex_config_facts ex_addrs ex_packet_built]
  by (simp add: ex_config_def ex_local_def)

text \<open>A packet for IPv6.\<close>

definition ex_config6 :: tun_config where
  "ex_config6 = ex_config\<lparr>device_mtu := 60\<rparr>"

definition ex_local6 :: BAddr where "ex_local6 = BAddr_IPv6 (replicate 16 1) (hton16 53)"
definition ex_remote6 :: BAddr where "ex_remote6 = BAddr_IPv6 (replicate 16 2) (hton16 4096)"

definition ex_packet6 :: bytes where
  "ex_packet6 = (case udpgw_client_handler_received ex_config6 (replicate 60 0) ex_local6 ex_remote6 [7, 8, 9]
                 of Inr (_, Some p) \<Rightarrow> p | _ \<Rightarrow> [])"

lemma ex_packet6_built:
  "udpgw_client_handler_received ex_config6 (replicate 60 0) ex_local6 ex_remote6 [7, 8, 9] =
     Inr (ex_packet6 @ replicate 9 0, Some ex_packet6)"
  by code_simp

lemma ex_addrs6:
  "is_ip_addr ex_local6" "is_ip_addr ex_remote6" "BAddr_type ex_local6 = BAddr_type ex_remote6"
  by code_simp+

lemma ex_config6_facts:
  "udpgw_remote_server_addr ex_config6" "int (length (replicate 60 (0 :: u8))) = device_mtu ex_config6"
  by (simp_all add: ex_config6_def ex_config_def)

theorem udpgw_packet_checksums_valid_witness:
  "checksums_valid ex_remote ex_local ex_packet \<and> length ex_packet = 31 \<and>
   checksums_valid ex_remote6 ex_local6 ex_packet6 \<and> length ex_packet6 = 51"
  using udpgw_packet_checksums_valid [OF ex_config_facts(1,2) ex_addrs ex_packet_built]
    udpgw_packet_checksums_valid [OF ex_config6_facts ex_addrs6 ex_packet6_built]
  by (simp add: ex_local_def ex_local6_def)

theorem udp_zero_checksum_witness:
  "process_device_udp_packet ex_config (ex_packet[26 := 0xFF, 27 := 0xFF]) = Inr None \<and>
   process_device_udp_packet ex_config6 (ex_packet6[46 := 0xFF, 47 := 0xFF]) = Inr None \<and>
   udp4_words (build_udp_header 0 0 0) [] 0 0 mod 65535 \<noteq> 0 \<and>
   udp6_words (build_udp_header 0 0 0) [] (replicate 16 0) (replicate 16 0) mod 65535 \<noteq> 0"
proof -
  let ?h = "build_udp_header 0 0 0" and ?z = "replicate 16 0 :: bytes"
  let ?d = "drop 20 (ex_packet[26 := 0xFF, 27 := 0xFF])" and ?d6 = "drop 40 (ex_packet6[46 := 0xFF, 47 := 0xFF])"
  let ?u = "udp_header_of_bytes [16, 0, 0, 53, 0, 11, 255, 255]"
  have i: "ipv4_check (ex_packet[26 := 0xFF, 27 := 0xFF]) = Inr (Some (ipv4_header_of_bytes (take 20 ex_packet), ?d))"
    by code_simp
  have i6: "ipv6_check (ex_packet6[46 := 0xFF, 47 := 0xFF]) = Inr (Some (ipv6_header_of_bytes (take 40 ex_packet6), ?d6))"
    by code_simp
  have u: "udp_check ?d = Inr (Some (?u, [7, 8, 9]))" "udp_check ?d6 = Inr (Some (?u, [7, 8, 9]))"
    by code_simp+
  have f: "udp_csum ?u = 0xFFFF" by code_simp
  have n: "udp_checksum ?h [] 0 0 0 \<noteq> Inr 0" "udp_ip6_checksum ?h [] 0 ?z ?z \<noteq> Inr 0" by code_simp+
  note z = udp_zero_checksum [of "[]" ?z ?z ?h 0 0, simplified]
  show ?thesis using z i i6 u f n by blast
qed

end
