(* ===== verification/Udp_Path.thy ===== *)
theory Udp_Path
  imports Socks_Udpgw Tun_Udp
begin

section \<open>The whole UDP path\<close>

text \<open>
  The parts of the UDP path put together: \<^verbatim>\<open>tun2socks.c\<close> starts the udpgw client with the MTU that it computes from that of the device, submits to it the datagrams that it finds in packets from
  the device, and writes to the device the datagrams that come back. The assertions of each part are about what the others do: the udpgw client wants datagrams within its MTU, and the
  handler of received datagrams wants two addresses of one family, which it gets since all connections were made for packets from the device.
\<close>

subsection \<open>The composition\<close>

definition DEFAULT_UDPGW_MAX_CONNECTIONS :: int where "DEFAULT_UDPGW_MAX_CONNECTIONS = 256"

text \<open>
  The part of \<open>run\<close> that starts the udpgw client, with the global \<open>udp_mtu\<close> in the configuration; \<open>None\<close> is its error exit. The first arguments are the contents of memory that
  is not initialised yet.
\<close>

definition start_udpgw :: "nat \<Rightarrow> (nat \<Rightarrow> BAVLNode) \<Rightarrow> (nat \<Rightarrow> PacketPassFairQueueFlow) \<Rightarrow> (nat \<Rightarrow> UdpGwClient_connection) \<Rightarrow> BSocksClient \<Rightarrow> bool \<Rightarrow>
    tun_config \<Rightarrow> int \<Rightarrow> BAddr \<Rightarrow> BSocksClient_auth_info list \<Rightarrow> BAddr \<Rightarrow> bool \<Rightarrow> (tun_config \<times> SocksUdpGwClient option) option result" where
  "start_udpgw qflow mem fmem cmem cinit upinit c udpgw_connection_buffer_size socks_server_addr auth_info remote_addr connector_ok =
     (if \<not> udpgw_remote_server_addr c then Inr (Some (c, None))
      else let m = compute_udp_mtu c; c = c\<lparr>udp_mtu := m\<rparr>; udpgw_mtu = udpgw_compute_mtu m in
        if udpgw_mtu < 0 \<or> udpgw_mtu > PACKETPROTO_MAXPAYLOAD then Inr None
        else andthen (SocksUdpGwClient_Init qflow mem fmem cmem cinit upinit m DEFAULT_UDPGW_MAX_CONNECTIONS udpgw_connection_buffer_size
                        socks_server_addr auth_info remote_addr connector_ok) (\<lambda>r.
             case r of None \<Rightarrow> Inr None | Some w \<Rightarrow> Inr (Some (c, Some w))))"

text \<open>A packet from the device; the boolean is the return value of \<open>process_device_udp_packet\<close>.\<close>

definition relay_device_packet :: "tun_config \<Rightarrow> (nat \<Rightarrow> bytes option) \<Rightarrow> nat option \<Rightarrow> SocksUdpGwClient \<Rightarrow> bytes \<Rightarrow> (SocksUdpGwClient \<times> bool) result option" where
  "relay_device_packet c alloc m w packet =
     bindr (Some (process_device_udp_packet c packet)) (\<lambda>r. case r of None \<Rightarrow> Some (Inr (w, False))
     | Some d \<Rightarrow> bindr (SocksUdpGwClient_SubmitPacket alloc m w (sub_local_addr d) (sub_remote_addr d) (sub_is_dns d) (sub_data d)) (\<lambda>w. Some (Inr (w, True))))"

text \<open>
  A message from the udpgw server: the handlers of the udpgw client, of \<open>SocksUdpGwClient\<close> and of \<^verbatim>\<open>tun2socks.c\<close> call each other. The result has the new contents of
  \<open>device_write_buf\<close> and the packet that is given to the device.
\<close>

definition udpgw_handler_received :: "tun_config \<Rightarrow> bytes \<Rightarrow> BAddr \<Rightarrow> BAddr \<Rightarrow> bytes \<Rightarrow> (bytes \<times> bytes option) result" where
  "udpgw_handler_received c buf local_addr remote_addr data = udpgw_client_handler_received c buf local_addr remote_addr data"

definition relay_udpgw_message :: "tun_config \<Rightarrow> bytes \<Rightarrow> SocksUdpGwClient \<Rightarrow> bytes \<Rightarrow> (SocksUdpGwClient \<times> bytes \<times> bytes option) result option" where
  "relay_udpgw_message c buf w msg =
     bindr (recv_interface_handler_send (su_udpgw_client w) msg) (\<lambda>(u, x).
     let w = w\<lparr>su_udpgw_client := u\<rparr> in
     case x of None \<Rightarrow> Some (Inr (w, buf, None))
     | Some (l, r, data) \<Rightarrow> bindr (Some (udpgw_handler_received c buf l r data)) (\<lambda>(buf, packet). Some (Inr (w, buf, packet))))"

subsection \<open>Reachable states\<close>

definition fresh_address :: "SocksUdpGwClient \<Rightarrow> nat option \<Rightarrow> bool" where
  "fresh_address w m \<longleftrightarrow> (\<forall>a. m = Some a \<longrightarrow> a \<notin> set (ug_connections_list (su_udpgw_client w)) \<and> a \<noteq> ug_keepalive_qflow (su_udpgw_client w))"

inductive path_reach :: "(bytes option \<Rightarrow> nat \<Rightarrow> bytes option) \<Rightarrow> tun_config \<Rightarrow> udpgw_sys \<Rightarrow> bool" for realloc where
  path_start: "device_mtu c0 \<le> INT_MAX \<Longrightarrow> 0 < sz \<Longrightarrow> 4 * ChunkBuffer2_calc_blocks (compute_udp_mtu c0 + 23) sz \<le> INT_MAX \<Longrightarrow> \<not> BAddr_IsInvalid server \<Longrightarrow> is_ip_addr remote \<Longrightarrow> auth_wf auth \<Longrightarrow>
    udpgw_remote_server_addr c0 \<Longrightarrow>
    start_udpgw k mem fmem cmem cinit upinit c0 sz server auth remote connector_ok = Inr (Some (c, Some w)) \<Longrightarrow> path_reach realloc c \<lparr> sg_client = w, sg_out = [], sg_in = [] \<rparr>"
| path_event: "path_reach realloc c s \<Longrightarrow> sg_step realloc s (Inr t) \<Longrightarrow> path_reach realloc c t"
| path_device: "path_reach realloc c s \<Longrightarrow> alloc_ok alloc \<Longrightarrow> fresh_address (sg_client s) m \<Longrightarrow>
    relay_device_packet c alloc m (sg_client s) packet = Some (Inr (w, b)) \<Longrightarrow> path_reach realloc c (s\<lparr>sg_client := w\<rparr>)"

text \<open>All connections have two addresses of one family.\<close>

definition one_family :: "UdpGwClient_conaddr \<Rightarrow> bool" where
  "one_family a \<longleftrightarrow> BAddr_type (ca_local_addr a) = BAddr_type (ca_remote_addr a)"

definition path_inv :: "tun_config \<Rightarrow> udpgw_sys \<Rightarrow> bool" where
  "path_inv c s \<longleftrightarrow> udpgw_remote_server_addr c \<and> udp_mtu c = compute_udp_mtu c \<and> su_udp_mtu (sg_client s) = udp_mtu c \<and> sg_inv s \<and> (\<forall>(a, i)\<in>set (sg_entries s). one_family a)"

lemma free_and_wait_mtu: "free_and_wait w = Inr w' \<Longrightarrow> su_udp_mtu w' = su_udp_mtu w"
  by (auto simp: free_and_wait_def free_socks_def result_simps split: if_splits)

lemma socks_client_handler_mtu: "socks_client_handler alloc w ev = Inr w' \<Longrightarrow> su_udp_mtu w' = su_udp_mtu w"
  by (cases ev) (auto simp: socks_client_handler_def result_simps Let_def dest!: free_and_wait_mtu split: if_splits)

lemma try_connect_mtu: "try_connect ok w = Inr w' \<Longrightarrow> su_udp_mtu w' = su_udp_mtu w"
  by (auto simp: try_connect_def BSocksClient_Init_def result_simps split: if_splits)

lemma sg_report_mtu: "sg_report alloc s t = Inr s' \<Longrightarrow> su_udp_mtu (sg_client s') = su_udp_mtu (sg_client s)"
  by (cases "so_event t") (auto simp: sg_report_def result_simps dest!: socks_client_handler_mtu)

lemma step_mtu: "sg_step realloc s (Inr t) \<Longrightarrow> su_udp_mtu (sg_client t) = su_udp_mtu (sg_client s)"
  by (erule sg_step.cases) (auto simp: reconnect_timer_handler_def udpgw_handler_servererror_def result_simps dest!: sg_report_mtu try_connect_mtu free_and_wait_mtu)

lemma device_submit_can:
  assumes I: "path_inv c s" and p: "process_device_udp_packet c packet = Inr (Some d)" and a: "alloc_ok alloc" "fresh_address (sg_client s) m"
  shows "can_submit (su_udpgw_client (sg_client s)) alloc m (sub_local_addr d) (sub_remote_addr d) (sub_data d)"
    and "one_family \<lparr> ca_local_addr = sub_local_addr d, ca_remote_addr = sub_remote_addr d \<rparr>"
  using process_device_udp_packet_submits [OF p] I a by (auto simp: path_inv_def sg_inv_def Let_def can_submit_def fresh_address_def one_family_def)

lemma lru_new: "lru_submit room n a xs xs' \<Longrightarrow> fst ` set xs' \<subseteq> insert a (fst ` set xs)"
proof -
  assume l: "lru_submit room n a xs xs'"
  have tl: "set (tl xs) \<subseteq> set xs" for xs :: "(UdpGwClient_conaddr \<times> u16) list" by (cases xs) auto
  show ?thesis
  proof (cases "a \<in> fst ` set xs")
    case True
    then obtain i where "xs' = remove1 (a, i) xs @ [(a, i)]" using l by (auto simp: lru_submit_def)
    then show ?thesis using set_remove1_subset [of "(a, i)" xs] by auto
  next
    case False
    then show ?thesis using l tl [of xs] by (auto simp: lru_submit_def split: if_splits)
  qed
qed

lemma path_device_ok:
  assumes I: "path_inv c s" and a: "alloc_ok alloc" "fresh_address (sg_client s) m"
  shows "\<exists>w b. relay_device_packet c alloc m (sg_client s) packet = Some (Inr (w, b)) \<and> path_inv c (s\<lparr>sg_client := w\<rparr>)"
proof -
  obtain r where r: "process_device_udp_packet c packet = Inr r" using process_device_udp_packet_safe [of c packet] by (auto simp: no_fault_iff)
  show ?thesis
  proof (cases r)
    case None
    then have "relay_device_packet c alloc m (sg_client s) packet = Some (Inr (sg_client s, False))" using r by (simp add: relay_device_packet_def)
    then show ?thesis using I by (intro exI [of _ "sg_client s"] exI [of _ False]) simp
  next
    case (Some d)
    then have p: "process_device_udp_packet c packet = Inr (Some d)" using r by simp
    note can = device_submit_can [OF I p a]
    have si: "sg_inv s" using I by (simp add: path_inv_def)
    obtain w where w: "SocksUdpGwClient_SubmitPacket alloc m (sg_client s) (sub_local_addr d) (sub_remote_addr d) (sub_is_dns d) (sub_data d) = Some (Inr w)" "sg_inv (s\<lparr>sg_client := w\<rparr>)"
      "lru_submit (con_memory (su_udpgw_client (sg_client s)) alloc m) (nat (ug_max_connections (su_udpgw_client (sg_client s))))
        \<lparr> ca_local_addr = sub_local_addr d, ca_remote_addr = sub_remote_addr d \<rparr> (sg_entries s) (entries (su_udpgw_client w))"
      using sg_submit_ok [OF si can(1), of "sub_is_dns d"] by blast
    have "su_udp_mtu w = su_udp_mtu (sg_client s)" using w(1) by (auto simp: SocksUdpGwClient_SubmitPacket_def bindr_def split: option.splits sum.splits)
    moreover have "one_family b" if "(b, i) \<in> set (entries (su_udpgw_client w))" for b i
    proof -
      have "b \<in> fst ` set (entries (su_udpgw_client w))" using that by force
      then have "b = \<lparr> ca_local_addr = sub_local_addr d, ca_remote_addr = sub_remote_addr d \<rparr> \<or> b \<in> fst ` set (sg_entries s)" using lru_new [OF w(3)] by blast
      then show ?thesis using can(2) I by (auto simp: path_inv_def)
    qed
    ultimately have "path_inv c (s\<lparr>sg_client := w\<rparr>)" using w(2) I by (auto simp: path_inv_def)
    then show ?thesis using w(1) r Some by (intro exI [of _ w] exI [of _ True]) (simp add: relay_device_packet_def)
  qed
qed

lemma start_ok:
  assumes m: "device_mtu c0 \<le> INT_MAX" and sz: "0 < sz" "4 * ChunkBuffer2_calc_blocks (compute_udp_mtu c0 + 23) sz \<le> INT_MAX"
    and g: "\<not> BAddr_IsInvalid server" "is_ip_addr remote" "auth_wf auth"
  shows "no_fault (start_udpgw k mem fmem cmem cinit upinit c0 sz server auth remote connector_ok)"
    and "start_udpgw k mem fmem cmem cinit upinit c0 sz server auth remote connector_ok = Inr (Some (c, Some w)) \<Longrightarrow> path_inv c \<lparr> sg_client = w, sg_out = [], sg_in = [] \<rparr>"
proof -
  let ?m = "compute_udp_mtu c0"
  have mt: "0 \<le> ?m" "?m \<le> INT_MAX" using m by (auto simp: compute_udp_mtu_def INT_MAX_def Let_def)
  let ?start = "start_udpgw k mem fmem cmem cinit upinit c0 sz server auth remote connector_ok"
  let ?bad = "udpgw_compute_mtu ?m < 0 \<or> udpgw_compute_mtu ?m > PACKETPROTO_MAXPAYLOAD"
  have off: "?start = Inr (Some (c0, None))" if "\<not> udpgw_remote_server_addr c0" using that by (simp add: start_udpgw_def)
  have bad: "?start = Inr None" if "udpgw_remote_server_addr c0" ?bad using that by (simp add: start_udpgw_def)
  have ok: "\<exists>w. ?start = Inr (Some (c0\<lparr>udp_mtu := ?m\<rparr>, Some w)) \<and> path_inv (c0\<lparr>udp_mtu := ?m\<rparr>) \<lparr> sg_client = w, sg_out = [], sg_in = [] \<rparr>"
    if u: "udpgw_remote_server_addr c0" "\<not> ?bad"
  proof -
    have n: "?m + 21 \<le> PACKETPROTO_MAXPAYLOAD" using u(2) udpgw_compute_mtu_value [OF mt] by (auto split: if_splits)
    have x: "0 < DEFAULT_UDPGW_MAX_CONNECTIONS" by (simp add: DEFAULT_UDPGW_MAX_CONNECTIONS_def)
    obtain w where w: "SocksUdpGwClient_Init k mem fmem cmem cinit upinit ?m DEFAULT_UDPGW_MAX_CONNECTIONS sz server auth remote connector_ok = Inr (Some w)"
      "sg_inv \<lparr> sg_client = w, sg_out = [], sg_in = [] \<rparr>" "entries (su_udpgw_client w) = []" "su_udp_mtu w = ?m"
      using SocksUdpGw_Init_ok [where k = k and mem = mem and fmem = fmem and cmem = cmem and cinit = cinit and upinit = upinit and connector_ok = connector_ok,
          OF mt(1) n x sz g] by blast
    have "compute_udp_mtu (c0\<lparr>udp_mtu := x\<rparr>) = ?m" for x by (simp add: compute_udp_mtu_def Let_def)
    then have "path_inv (c0\<lparr>udp_mtu := ?m\<rparr>) \<lparr> sg_client = w, sg_out = [], sg_in = [] \<rparr>" using w u(1) by (simp add: path_inv_def)
    moreover have "?start = Inr (Some (c0\<lparr>udp_mtu := ?m\<rparr>, Some w))" using u w(1) by (simp add: start_udpgw_def)
    ultimately show ?thesis by blast
  qed
  show "no_fault ?start" using off bad ok by (metis no_fault_Inr)
  show "path_inv c \<lparr> sg_client = w, sg_out = [], sg_in = [] \<rparr>" if "?start = Inr (Some (c, Some w))" using off bad ok that by fastforce
qed

lemma path_reach_inv: "path_reach realloc c s \<Longrightarrow> realloc_ok realloc \<Longrightarrow> path_inv c s"
proof (induction rule: path_reach.induct)
  case (path_start c0 sz server remote auth k mem fmem cmem cinit upinit connector_ok c w)
  then show ?case using start_ok(2) [OF path_start(1-6)] by blast
next
  case (path_event c s t)
  then have "sg_inv t" "set (sg_entries t) = set (sg_entries s)" using sg_step_ok [OF path_event.hyps(2)] by (auto simp: path_inv_def)
  then show ?case using path_event step_mtu [OF path_event.hyps(2)] by (simp add: path_inv_def)
next
  case (path_device c s alloc m packet w b)
  then show ?case using path_device_ok [of c s alloc m packet] by auto
qed

subsection \<open>Messages from the server\<close>

definition fits_device :: "tun_config \<Rightarrow> BAddr \<Rightarrow> bytes \<Rightarrow> bool" where
  "fits_device c l data \<longleftrightarrow> (case l of
     BAddr_IPv4 _ _ \<Rightarrow> int (length data) \<le> UINT16_MAX - 28 \<and> int (length data) \<le> device_mtu c - 28
   | BAddr_IPv6 _ _ \<Rightarrow> netif_ip6addr c \<and> int (length data) \<le> UINT16_MAX - 8 \<and> int (length data) \<le> device_mtu c - 48
   | _ \<Rightarrow> False)"

lemma received_fits:
  assumes c: "udpgw_remote_server_addr c" and buf: "int (length buf) = device_mtu c" and ip: "is_ip_addr l" "is_ip_addr r" "BAddr_type l = BAddr_type r" and f: "fits_device c l data"
  obtains buf' pkt where "udpgw_client_handler_received c buf l r data = Inr (buf', Some pkt)"
  using ip
proof (cases rule: same_family_cases)
  case (v4 lip lport rip rport)
  then show ?thesis using f udp4_packet [OF c buf, of data rip lip rport lport] that by (simp add: fits_device_def) metis
next
  case (v6 lip lport rip rport)
  then show ?thesis using f udp6_packet [OF c _ buf, of lip rip data rport lport] that by (simp add: fits_device_def) metis
qed

lemma path_message_ok:
  assumes I: "path_inv c s" and buf: "int (length buf) = device_mtu c" and rc: "can_receive (su_udpgw_client (sg_client s)) msg"
  shows "\<exists>u x. recv_interface_handler_send (su_udpgw_client (sg_client s)) msg = Some (Inr (u, x)) \<and>
    (\<forall>l r data. x = Some (l, r, data) \<longleftrightarrow> (\<exists>flags i. (\<lparr> ca_local_addr = l, ca_remote_addr = r \<rparr>, i) \<in> set (sg_entries s) \<and> int (length data) \<le> udp_mtu c \<and>
       msg = udpgw_packet flags i r data \<and> (BAddr_type r = 2 \<or> flags AND UDPGW_CLIENT_FLAG_IPV6 = 0))) \<and>
    (\<forall>l r data. x = Some (l, r, data) \<longrightarrow> is_ip_addr l \<and> is_ip_addr r \<and> BAddr_type l = BAddr_type r)"
proof -
  have u: "ug_inv (su_udpgw_client (sg_client s))" "ug_udp_mtu (su_udpgw_client (sg_client s)) = udp_mtu c" using I by (auto simp: path_inv_def sg_inv_def Let_def)
  obtain u' x where x: "recv_interface_handler_send (su_udpgw_client (sg_client s)) msg = Some (Inr (u', x))"
    "\<forall>l r data. x = Some (l, r, data) \<longleftrightarrow> (\<exists>flags i. (\<lparr> ca_local_addr = l, ca_remote_addr = r \<rparr>, i) \<in> set (sg_entries s) \<and> int (length data) \<le> udp_mtu c \<and>
       msg = udpgw_packet flags i r data \<and> (BAddr_type r = 2 \<or> flags AND UDPGW_CLIENT_FLAG_IPV6 = 0))"
    using recv_message_ok [OF u(1) rc] unfolding u(2) by blast
  have "is_ip_addr l \<and> is_ip_addr r \<and> BAddr_type l = BAddr_type r" if d: "x = Some (l, r, data)" for l r data
  proof -
    obtain i where e: "(\<lparr> ca_local_addr = l, ca_remote_addr = r \<rparr>, i) \<in> set (sg_entries s)" using x(2) d by blast
    then have "one_family \<lparr> ca_local_addr = l, ca_remote_addr = r \<rparr>" using I by (auto simp: path_inv_def)
    then show ?thesis using entries_valid [OF u(1) e] by (simp add: one_family_def valid_conaddr_def)
  qed
  then show ?thesis using x by blast
qed

subsection \<open>Properties\<close>


text \<open>
  C16: A reply reaches the program that sent the datagram: when the udpgw server answers on a connection, with the identifier and the remote address of that connection, then a packet is written to the
  device, if the data fits into one, and this packet, read as packets from the device are read, is a valid UDP datagram with that data from the remote address to the local address of the connection.
\<close>

theorem udp_reply_reaches_device:
  assumes "realloc_ok realloc" "path_reach realloc c s" "int (length buf) = device_mtu c" "(\<lparr> ca_local_addr = l, ca_remote_addr = r \<rparr>, i) \<in> set (sg_entries s)"
    "can_receive (su_udpgw_client (sg_client s)) (udpgw_packet flags i r data)" "BAddr_type r = 2 \<or> flags AND UDPGW_CLIENT_FLAG_IPV6 = 0" "int (length data) \<le> udp_mtu c" "fits_device c l data"
  shows "\<exists>w buf' pkt. relay_udpgw_message c buf (sg_client s) (udpgw_packet flags i r data) = Some (Inr (w, buf', Some pkt)) \<and>
    process_device_udp_packet c pkt = Inr (Some \<lparr> sub_local_addr = r, sub_remote_addr = l,
      sub_is_dns = (udpgw_transparent_dns c \<and> l = BAddr_IPv4 (netif_ipaddr c) (hton16 53)), sub_data = data \<rparr>)"
proof -
  have I: "path_inv c s" by (rule path_reach_inv [OF assms(2,1)])
  have on: "udpgw_remote_server_addr c" "udp_mtu c = compute_udp_mtu c" using I by (auto simp: path_inv_def)
  let ?msg = "udpgw_packet flags i r data"
  obtain u x where x: "recv_interface_handler_send (su_udpgw_client (sg_client s)) ?msg = Some (Inr (u, x))"
    "\<forall>l r data. x = Some (l, r, data) \<longleftrightarrow> (\<exists>flags i. (\<lparr> ca_local_addr = l, ca_remote_addr = r \<rparr>, i) \<in> set (sg_entries s) \<and> int (length data) \<le> udp_mtu c \<and>
       ?msg = udpgw_packet flags i r data \<and> (BAddr_type r = 2 \<or> flags AND UDPGW_CLIENT_FLAG_IPV6 = 0))"
    "\<forall>l r data. x = Some (l, r, data) \<longrightarrow> is_ip_addr l \<and> is_ip_addr r \<and> BAddr_type l = BAddr_type r"
    using path_message_ok [OF I assms(3,5)] by (elim exE conjE) (rule that)
  have d: "x = Some (l, r, data)" using x(2) assms(4,6,7) by blast
  then have ip: "is_ip_addr l" "is_ip_addr r" "BAddr_type l = BAddr_type r" using x(3) by auto
  obtain buf' pkt where p: "udpgw_client_handler_received c buf l r data = Inr (buf', Some pkt)" by (rule received_fits [OF on(1) assms(3) ip assms(8)])
  then have "relay_udpgw_message c buf (sg_client s) ?msg = Some (Inr ((sg_client s)\<lparr>su_udpgw_client := u\<rparr>, buf', Some pkt))"
    using x(1) d by (simp add: relay_udpgw_message_def udpgw_handler_received_def)
  then show ?thesis using received_packet_parses [OF on(1) assms(3) on(2) ip p] by blast
qed

subsection \<open>An example\<close>

text \<open>The client is started, a packet from the device makes a connection, the SOCKS client comes up and the server answers.\<close>

abbreviation example_conn :: UdpGwClient_conaddr where "example_conn \<equiv> \<lparr> ca_local_addr = ex_remote, ca_remote_addr = ex_local \<rparr>"

lemma example_started:
  obtains w where "path_reach ex_realloc ex_config \<lparr> sg_client = w, sg_out = [], sg_in = [] \<rparr>" "entries (su_udpgw_client w) = []" "ug_send_buffer_size (su_udpgw_client w) = 8"
    "ug_keepalive_qflow (su_udpgw_client w) = 0" "su_have_socks w" "\<not> su_socks_up w" "su_socks_client w = ex_client"
proof -
  obtain mem :: "nat \<Rightarrow> BAVLNode" and fmem :: "nat \<Rightarrow> PacketPassFairQueueFlow" and cmem :: "nat \<Rightarrow> UdpGwClient_connection" where True by blast
  have m: "compute_udp_mtu ex_config = 12" "device_mtu ex_config \<le> INT_MAX" by code_simp+
  have b: "4 * ChunkBuffer2_calc_blocks (12 + 23) 8 \<le> INT_MAX" by code_simp
  have g: "\<not> BAddr_IsInvalid (BAddr_IPv4 0 0)" "is_ip_addr (BAddr_IPv4 0x04030201 0x5000)" "auth_wf [BSocksClient_auth_none]"
    by (simp_all add: BAddr_IsInvalid_def is_ip_addr_def auth_wf_def BSocksClient_auth_none_def SOCKS_METHOD_NO_AUTHENTICATION_REQUIRED_def)
  have n: "(0 :: int) \<le> 12" "12 + 21 \<le> PACKETPROTO_MAXPAYLOAD" "0 < DEFAULT_UDPGW_MAX_CONNECTIONS" "(0 :: int) < 8"
    by (simp_all add: PACKETPROTO_MAXPAYLOAD_def UINT16_MAX_def DEFAULT_UDPGW_MAX_CONNECTIONS_def)
  obtain w where w: "SocksUdpGwClient_Init 0 mem fmem cmem ex_client False 12 DEFAULT_UDPGW_MAX_CONNECTIONS 8 (BAddr_IPv4 0 0) [BSocksClient_auth_none] (BAddr_IPv4 0x04030201 0x5000) True = Inr (Some w)"
    "entries (su_udpgw_client w) = []" "ug_send_buffer_size (su_udpgw_client w) = 8" "ug_keepalive_qflow (su_udpgw_client w) = 0" "su_have_socks w" "\<not> su_socks_up w"
    "su_socks_client w = ex_client\<lparr>sc_auth_info := [BSocksClient_auth_none], sc_dest_addr := BAddr_IPv4 0x04030201 0x5000, sc_buffer := None, sc_state := SC_CONNECTING,
       sc_con := \<lparr> con_inited = False, con_send = False, con_recv = False \<rparr>\<rparr>"
    using SocksUdpGw_Init_ok [where k = 0 and mem = mem and fmem = fmem and cmem = cmem and cinit = ex_client and upinit = False and connector_ok = True, OF n b g] by blast
  have b': "4 * ChunkBuffer2_calc_blocks (compute_udp_mtu ex_config + 23) 8 \<le> INT_MAX" using b m(1) by simp
  have cm: "udpgw_compute_mtu 12 = 33" using udpgw_compute_mtu_value [of 12] by (simp add: INT_MAX_def)
  have cf: "ex_config\<lparr>udp_mtu := 12\<rparr> = ex_config" by (simp add: ex_config_def)
  have "start_udpgw 0 mem fmem cmem ex_client False ex_config 8 (BAddr_IPv4 0 0) [BSocksClient_auth_none] (BAddr_IPv4 0x04030201 0x5000) True = Inr (Some (ex_config, Some w))"
    unfolding start_udpgw_def Let_def m(1) cm cf using w(1) ex_config_facts(1) by (simp add: PACKETPROTO_MAXPAYLOAD_def UINT16_MAX_def)
  then have "path_reach ex_realloc ex_config \<lparr> sg_client = w, sg_out = [], sg_in = [] \<rparr>"
    by (rule path_start [OF m(2) n(4) b' g ex_config_facts(1)])
  moreover have "su_socks_client w = ex_client" using w(7) by (simp add: ex_client_def)
  ultimately show ?thesis using w that by blast
qed

lemma example_connected:
  obtains s i where "path_reach ex_realloc ex_config s" "(example_conn, i) \<in> set (sg_entries s)" "su_have_socks (sg_client s)" "\<not> su_socks_up (sg_client s)" "sg_socks s = ex_start"
proof -
  obtain w where w: "path_reach ex_realloc ex_config \<lparr> sg_client = w, sg_out = [], sg_in = [] \<rparr>" "entries (su_udpgw_client w) = []" "ug_send_buffer_size (su_udpgw_client w) = 8"
    "ug_keepalive_qflow (su_udpgw_client w) = 0" "su_have_socks w" "\<not> su_socks_up w" "su_socks_client w = ex_client" using example_started by metis
  let ?s = "\<lparr> sg_client = w, sg_out = [], sg_in = [] \<rparr>"
  have I: "path_inv ex_config ?s" by (rule path_reach_inv [OF w(1) ex_realloc_ok])
  have p: "process_device_udp_packet ex_config ex_packet = Inr (Some \<lparr> sub_local_addr = ex_remote, sub_remote_addr = ex_local, sub_is_dns = True, sub_data = [7, 8, 9] \<rparr>)" by code_simp
  have a: "alloc_ok example_alloc" "fresh_address w (Some 1)" using w(2,4) by (simp_all add: alloc_ok_def fresh_address_def entries_def)
  have si: "sg_inv ?s" and mx: "su_udp_mtu w = 12" using I by (simp_all add: path_inv_def ex_config_def)
  have c: "ug_udpgw_mtu (su_udpgw_client w) = 33" "0 < ug_max_connections (su_udpgw_client w)" using si mx by (auto simp: sg_inv_def Let_def ug_inv_def conf_ok_def table_ok_def)
  have mem: "con_memory (su_udpgw_client w) example_alloc (Some 1)" unfolding con_memory_def flow_memory_def c(1) w(3) by (simp, code_simp)
  have can: "can_submit (su_udpgw_client w) example_alloc (Some 1) ex_remote ex_local [7, 8, 9]" using device_submit_can(1) [OF I p a(1), of "Some 1"] a(2) by simp
  obtain w' where w': "SocksUdpGwClient_SubmitPacket example_alloc (Some 1) w ex_remote ex_local True [7, 8, 9] = Some (Inr w')"
    "lru_submit (con_memory (su_udpgw_client w) example_alloc (Some 1)) (nat (ug_max_connections (su_udpgw_client w))) example_conn [] (entries (su_udpgw_client w'))"
    using sg_submit_ok [OF si, where is_dns = True] can w(2) by fastforce
  obtain i where i: "entries (su_udpgw_client w') = [(example_conn, i)]" using w'(2) mem c(2) by (auto simp: lru_submit_def)
  have "relay_device_packet ex_config example_alloc (Some 1) w ex_packet = Some (Inr (w', True))" using p w'(1) by (simp add: relay_device_packet_def)
  then have r: "path_reach ex_realloc ex_config (?s\<lparr>sg_client := w'\<rparr>)" using path_device [OF w(1) a(1)] a(2) by simp
  have same: "su_have_socks w' = su_have_socks w" "su_socks_up w' = su_socks_up w" "su_socks_client w' = su_socks_client w"
    using w'(1) by (auto simp: SocksUdpGwClient_SubmitPacket_def bindr_def split: option.splits sum.splits)
  show ?thesis using that [OF r, of i] i same w(5-7) by (simp add: sg_socks_def ex_start_def)
qed

lemma example_answered:
  obtains s i where "path_reach ex_realloc ex_config s" "(example_conn, i) \<in> set (sg_entries s)" "can_receive (su_udpgw_client (sg_client s)) (udpgw_packet 0 i ex_local [1, 2])"
proof -
  obtain s i where s: "path_reach ex_realloc ex_config s" "(example_conn, i) \<in> set (sg_entries s)" "su_have_socks (sg_client s)" "\<not> su_socks_up (sg_client s)" "sg_socks s = ex_start"
    using example_connected by metis
  obtain t where t: "so_run ex_realloc ex_start ex_choices = Some t" "so_event t = Some BSOCKSCLIENT_EVENT_UP" using ex_run by auto
  define P where "P = (\<lambda>s. path_reach ex_realloc ex_config s \<and> (example_conn, i) \<in> set (sg_entries s))"
  have inv: "sg_inv s" if "P s" for s using path_reach_inv [OF _ ex_realloc_ok] that by (auto simp: P_def path_inv_def)
  have step: "P t" if p: "P s" "sg_step ex_realloc s (Inr t)" for s t
    using p path_event [of ex_realloc ex_config s t] sg_step_ok [OF p(2) inv [OF p(1)] ex_realloc_ok] by (auto simp: P_def)
  have "P s" using s by (simp add: P_def)
  then obtain s1 where s1: "P s1" "ug_have_server (su_udpgw_client (sg_client s1))"
    using sg_run_up [where P = P, of ex_realloc s ex_choices t] t s(3-5) ex_realloc_ok step inv by auto
  let ?u = "su_udpgw_client (sg_client s1)"
  have u: "ug_inv ?u" "ug_udp_mtu ?u = 12" using inv [OF s1(1)] path_reach_inv [OF _ ex_realloc_ok] s1(1) by (auto simp: sg_inv_def Let_def P_def path_inv_def ex_config_def)
  define u2 where "u2 = ?u\<lparr>ug_send_connector := ug_send_connector ?u, ug_server := ug_server ?u, ug_recv_if := (ug_recv_if ?u)\<lparr>ppi_state := STATE_BUSY\<rparr>\<rparr>"
  have run: "ug_runs ?u u2" unfolding u2_def by (rule ug_server_runs) (use u(1) in \<open>simp_all add: ug_inv_def server_ok_def\<close>)
  define s2 where "s2 = s1\<lparr>sg_client := (sg_client s1)\<lparr>su_udpgw_client := u2\<rparr>\<rparr>"
  have "P s2" by (rule step [OF s1(1)]) (unfold s2_def, rule sg_udpgw_runs [OF run])
  moreover have "can_receive (su_udpgw_client (sg_client s2)) (udpgw_packet 0 i ex_local [1, 2])"
    using s1(2) u udpgw_packet_length [OF ex_addrs(1), of 0 i "[1, 2]"] by (simp add: can_receive_def s2_def u2_def ug_inv_def conf_ok_def)
  ultimately show ?thesis using that by (auto simp: P_def)
qed


theorem udp_reply_reaches_device_witness:
  "\<exists>s i w buf pkt. path_reach ex_realloc ex_config s \<and> (example_conn, i) \<in> set (sg_entries s) \<and>
     relay_udpgw_message ex_config (replicate 40 0) (sg_client s) (udpgw_packet 0 i ex_local [1, 2]) = Some (Inr (w, buf, Some pkt)) \<and>
     process_device_udp_packet ex_config pkt = Inr (Some \<lparr> sub_local_addr = ex_local, sub_remote_addr = ex_remote, sub_is_dns = False, sub_data = [1, 2] \<rparr>)"
proof -
  obtain s i where s: "path_reach ex_realloc ex_config s" "(example_conn, i) \<in> set (sg_entries s)" "can_receive (su_udpgw_client (sg_client s)) (udpgw_packet 0 i ex_local [1, 2])"
    using example_answered by metis
  have f: "fits_device ex_config ex_remote [1, 2]" "int (length [1 :: u8, 2]) \<le> udp_mtu ex_config" by (simp_all add: fits_device_def ex_remote_def ex_config_def UINT16_MAX_def)
  have z: "BAddr_type ex_local = 2 \<or> (0 :: u8) AND UDPGW_CLIENT_FLAG_IPV6 = 0" by simp
  have dns: "(udpgw_transparent_dns ex_config \<and> ex_remote = BAddr_IPv4 (netif_ipaddr ex_config) (hton16 53)) = False" by (simp add: ex_remote_def ex_config_def)
  show ?thesis using udp_reply_reaches_device [OF ex_realloc_ok s(1) ex_config_facts(2) s(2,3) z f(2,1)] s(1,2) unfolding dns by blast
qed

end
