(* ===== verification/Linked_List.thy ===== *)
theory Linked_List
  imports Prelude
begin

section \<open>Linked lists: \<^verbatim>\<open>structure/SLinkedList_impl.h\<close> and \<^verbatim>\<open>structure/LinkedList1.h\<close>\<close>

text \<open>
  Two intrusive doubly linked lists: the nodes are part of the objects they link, so a list is a
  shape in the heap. Addresses are natural numbers, \<open>None\<close> is NULL, and the heap gives each address
  its node. \<open>SLinkedList\<close> (with \<^verbatim>\<open>SLINKEDLIST_PARAM_FEATURE_LAST\<close> 0, as \<open>BPending\<close> uses it) does not keep
  the \<open>prev\<close> of its first node up to date and marks a node outside any list by letting its \<open>next\<close>
  point to itself; \<open>LinkedList1\<close> keeps both ends.

  \<open>seg h pr xs nx\<close> says that the nodes \<open>xs\<close> are linked in this order, with \<open>pr\<close> before the first and
  \<open>nx\<close> behind the last one. The lemmas show that every operation is the list operation of its name.
\<close>

record node =
  nd_prev :: "nat option"
  nd_next :: "nat option"

type_synonym node_heap = "nat \<Rightarrow> node"

definition set_prev :: "node_heap \<Rightarrow> nat \<Rightarrow> nat option \<Rightarrow> node_heap" where
  "set_prev h a v = h(a := (h a)\<lparr>nd_prev := v\<rparr>)"

definition set_next :: "node_heap \<Rightarrow> nat \<Rightarrow> nat option \<Rightarrow> node_heap" where
  "set_next h a v = h(a := (h a)\<lparr>nd_next := v\<rparr>)"

subsection \<open>\<open>SLinkedList\<close>\<close>

text \<open>The list object is its \<open>first\<close> pointer.\<close>

definition SLinkedListMarkRemoved :: "node_heap \<Rightarrow> nat \<Rightarrow> node_heap" where
  "SLinkedListMarkRemoved h e = set_next h e (Some e)"

definition SLinkedListIsRemoved :: "node_heap \<Rightarrow> nat \<Rightarrow> bool" where
  "SLinkedListIsRemoved h e \<longleftrightarrow> nd_next (h e) = Some e"

definition SLinkedList_Init :: "nat option" where
  "SLinkedList_Init = None"

definition SLinkedList_Next :: "node_heap \<Rightarrow> nat \<Rightarrow> nat option" where
  "SLinkedList_Next h e = nd_next (h e)"

definition SLinkedList_Prev :: "node_heap \<Rightarrow> nat option \<Rightarrow> nat \<Rightarrow> nat option" where
  "SLinkedList_Prev h first e = (if Some e = first then None else nd_prev (h e))"

definition SLinkedList_Prepend :: "node_heap \<Rightarrow> nat option \<Rightarrow> nat \<Rightarrow> node_heap \<times> nat option" where
  "SLinkedList_Prepend h first e =
     (let h = set_next h e first;
          h = (case first of Some f \<Rightarrow> set_prev h f (Some e) | None \<Rightarrow> h)
      in (h, Some e))"

definition SLinkedList_InsertBefore ::
    "node_heap \<Rightarrow> nat option \<Rightarrow> nat \<Rightarrow> nat \<Rightarrow> (node_heap \<times> nat option) result" where
  "SLinkedList_InsertBefore h first e b =
     (let h = set_next h e (Some b) in
      andthen (if Some b \<noteq> first
               then (let h = set_prev h e (nd_prev (h b)) in
                     case nd_prev (h b) of None \<Rightarrow> Inl Out_of_bounds
                     | Some p \<Rightarrow> Inr (set_next h p (Some e), first))
               else Inr (h, Some e))
        (\<lambda>(h, first). Inr (set_prev h b (Some e), first)))"

definition SLinkedList_InsertAfter :: "node_heap \<Rightarrow> nat option \<Rightarrow> nat \<Rightarrow> nat \<Rightarrow> node_heap \<times> nat option" where
  "SLinkedList_InsertAfter h first e a =
     (let h = set_next h e (nd_next (h a));
          h = set_prev h e (Some a);
          h = (case nd_next (h a) of Some n \<Rightarrow> set_prev h n (Some e) | None \<Rightarrow> h)
      in (set_next h a (Some e), first))"

definition SLinkedList_Remove :: "node_heap \<Rightarrow> nat option \<Rightarrow> nat \<Rightarrow> (node_heap \<times> nat option) result" where
  "SLinkedList_Remove h first e =
     (if Some e \<noteq> first
      then (case nd_prev (h e) of None \<Rightarrow> Inl Out_of_bounds
            | Some p \<Rightarrow>
                (let h = set_next h p (nd_next (h e));
                     h = (case nd_next (h e) of Some n \<Rightarrow> set_prev h n (nd_prev (h e)) | None \<Rightarrow> h)
                 in Inr (h, first)))
      else Inr (h, nd_next (h e)))"

definition SLinkedList_RemoveFirst :: "node_heap \<Rightarrow> nat option \<Rightarrow> nat option result" where
  "SLinkedList_RemoveFirst h first =
     (case first of None \<Rightarrow> Inl Assertion_failed | Some f \<Rightarrow> Inr (nd_next (h f)))"

definition SLinkedList_First :: "nat option \<Rightarrow> nat option" where
  "SLinkedList_First first = first"

definition SLinkedList_IsEmpty :: "nat option \<Rightarrow> bool" where
  "SLinkedList_IsEmpty first \<longleftrightarrow> first = None"

subsection \<open>\<open>LinkedList1\<close>\<close>

record LinkedList1 =
  ll_first :: "nat option"
  ll_last :: "nat option"

definition LinkedList1_Init :: LinkedList1 where
  "LinkedList1_Init = \<lparr> ll_first = None, ll_last = None \<rparr>"

definition LinkedList1_IsEmpty :: "LinkedList1 \<Rightarrow> bool" where
  "LinkedList1_IsEmpty l \<longleftrightarrow> ll_first l = None"

definition LinkedList1_GetFirst :: "LinkedList1 \<Rightarrow> nat option" where
  "LinkedList1_GetFirst l = ll_first l"

definition LinkedList1_GetLast :: "LinkedList1 \<Rightarrow> nat option" where
  "LinkedList1_GetLast l = ll_last l"

definition LinkedList1_Prepend :: "node_heap \<Rightarrow> LinkedList1 \<Rightarrow> nat \<Rightarrow> node_heap \<times> LinkedList1" where
  "LinkedList1_Prepend h l a =
     (let h = set_prev h a None; h = set_next h a (ll_first l);
          (h, l) = (case ll_first l of Some f \<Rightarrow> (set_prev h f (Some a), l) | None \<Rightarrow> (h, l\<lparr>ll_last := Some a\<rparr>))
      in (h, l\<lparr>ll_first := Some a\<rparr>))"

definition LinkedList1_Append :: "node_heap \<Rightarrow> LinkedList1 \<Rightarrow> nat \<Rightarrow> node_heap \<times> LinkedList1" where
  "LinkedList1_Append h l a =
     (let h = set_prev h a (ll_last l); h = set_next h a None;
          (h, l) = (case ll_last l of Some f \<Rightarrow> (set_next h f (Some a), l) | None \<Rightarrow> (h, l\<lparr>ll_first := Some a\<rparr>))
      in (h, l\<lparr>ll_last := Some a\<rparr>))"

definition LinkedList1_InsertBefore :: "node_heap \<Rightarrow> LinkedList1 \<Rightarrow> nat \<Rightarrow> nat \<Rightarrow> node_heap \<times> LinkedList1" where
  "LinkedList1_InsertBefore h l a t =
     (let h = set_prev h a (nd_prev (h t)); h = set_next h a (Some t);
          (h, l) = (case nd_prev (h t) of Some p \<Rightarrow> (set_next h p (Some a), l) | None \<Rightarrow> (h, l\<lparr>ll_first := Some a\<rparr>))
      in (set_prev h t (Some a), l))"

definition LinkedList1_InsertAfter :: "node_heap \<Rightarrow> LinkedList1 \<Rightarrow> nat \<Rightarrow> nat \<Rightarrow> node_heap \<times> LinkedList1" where
  "LinkedList1_InsertAfter h l a t =
     (let h = set_prev h a (Some t); h = set_next h a (nd_next (h t));
          (h, l) = (case nd_next (h t) of Some n \<Rightarrow> (set_prev h n (Some a), l) | None \<Rightarrow> (h, l\<lparr>ll_last := Some a\<rparr>))
      in (set_next h t (Some a), l))"

definition LinkedList1_Remove :: "node_heap \<Rightarrow> LinkedList1 \<Rightarrow> nat \<Rightarrow> node_heap \<times> LinkedList1" where
  "LinkedList1_Remove h l a =
     (let (h, l) = (case nd_prev (h a) of Some p \<Rightarrow> (set_next h p (nd_next (h a)), l)
                    | None \<Rightarrow> (h, l\<lparr>ll_first := nd_next (h a)\<rparr>))
      in case nd_next (h a) of Some n \<Rightarrow> (set_prev h n (nd_prev (h a)), l)
         | None \<Rightarrow> (h, l\<lparr>ll_last := nd_prev (h a)\<rparr>))"

definition LinkedList1_InsertListAfter ::
    "node_heap \<Rightarrow> LinkedList1 \<Rightarrow> LinkedList1 \<Rightarrow> nat option \<Rightarrow> (node_heap \<times> LinkedList1) result" where
  "LinkedList1_InsertListAfter h l ins target =
     (case ll_first ins of None \<Rightarrow> Inr (h, l)
      | Some f \<Rightarrow>
        (case ll_last ins of None \<Rightarrow> Inl Out_of_bounds
         | Some la \<Rightarrow>
           (let t_next = (case target of Some t \<Rightarrow> nd_next (h t) | None \<Rightarrow> ll_first l);
                h = set_prev h f target; h = set_next h la t_next;
                (h, l) = (case target of Some t \<Rightarrow> (set_next h t (Some f), l) | None \<Rightarrow> (h, l\<lparr>ll_first := Some f\<rparr>))
            in Inr (case t_next of Some n \<Rightarrow> (set_prev h n (Some la), l) | None \<Rightarrow> (h, l\<lparr>ll_last := Some la\<rparr>)))))"

definition LinkedList1Node_Next :: "node_heap \<Rightarrow> nat \<Rightarrow> nat option" where
  "LinkedList1Node_Next h a = nd_next (h a)"

definition LinkedList1Node_Prev :: "node_heap \<Rightarrow> nat \<Rightarrow> nat option" where
  "LinkedList1Node_Prev h a = nd_prev (h a)"

subsection \<open>Linked nodes\<close>

definition hd_opt :: "'a list \<Rightarrow> 'a option" where
  "hd_opt xs = (case xs of [] \<Rightarrow> None | x # _ \<Rightarrow> Some x)"

definition last_opt :: "'a list \<Rightarrow> 'a option" where
  "last_opt xs = (if xs = [] then None else Some (last xs))"

lemma opt_simps [simp]:
  "hd_opt [] = None" "hd_opt (x # xs) = Some x" "last_opt [] = None" "last_opt (xs @ [x]) = Some x" "last_opt [x] = Some x"
  by (simp_all add: hd_opt_def last_opt_def)

fun seg :: "node_heap \<Rightarrow> nat option \<Rightarrow> nat list \<Rightarrow> nat option \<Rightarrow> bool" where
  "seg h pr [] nx \<longleftrightarrow> True"
| "seg h pr (a # as) nx \<longleftrightarrow>
     nd_prev (h a) = pr \<and> nd_next (h a) = (if as = [] then nx else hd_opt as) \<and> seg h (Some a) as nx"

lemma seg_append:
  "seg h pr (xs @ ys) nx \<longleftrightarrow>
     seg h pr xs (if ys = [] then nx else hd_opt ys) \<and> seg h (if xs = [] then pr else last_opt xs) ys nx"
proof (induction xs arbitrary: pr)
  case (Cons a xs)
  show ?case
  proof (cases xs)
    case Nil
    then show ?thesis by (cases ys) simp_all
  next
    case xs: (Cons b bs)
    have "last_opt (a # xs) = last_opt xs" by (simp add: last_opt_def xs)
    then show ?thesis using Cons.IH [of "Some a"] by (simp add: xs)
  qed
qed simp

lemma seg_frame: "(\<And>a. a \<in> set xs \<Longrightarrow> h' a = h a) \<Longrightarrow> seg h' pr xs nx \<longleftrightarrow> seg h pr xs nx"
  by (induction xs arbitrary: pr) auto

lemma seg_set_prev_other [simp]: "a \<notin> set xs \<Longrightarrow> seg (set_prev h a v) pr xs nx \<longleftrightarrow> seg h pr xs nx"
  by (rule seg_frame) (auto simp: set_prev_def)

lemma seg_set_next_other [simp]: "a \<notin> set xs \<Longrightarrow> seg (set_next h a v) pr xs nx \<longleftrightarrow> seg h pr xs nx"
  by (rule seg_frame) (auto simp: set_next_def)

lemma set_prev_next_simps [simp]:
  "nd_prev (set_prev h a v b) = (if b = a then v else nd_prev (h b))"
  "nd_next (set_prev h a v b) = nd_next (h b)"
  "nd_next (set_next h a v b) = (if b = a then v else nd_next (h b))"
  "nd_prev (set_next h a v b) = nd_prev (h b)"
  by (simp_all add: set_prev_def set_next_def)

lemma seg_prev_first:
  "a \<notin> set as \<Longrightarrow> seg h pr (a # as) nx \<Longrightarrow> seg (set_prev h a v) v (a # as) nx"
  by simp

lemma seg_next_last:
  "a \<notin> set as \<Longrightarrow> seg h pr (as @ [a]) nx \<Longrightarrow> seg (set_next h a v) pr (as @ [a]) v"
  by (simp add: seg_append)

lemma hd_opt_append [simp]: "hd_opt (xs @ ys) = (if xs = [] then hd_opt ys else hd_opt xs)"
  by (cases xs) simp_all

lemma last_opt_append [simp]: "last_opt (xs @ ys) = (if ys = [] then last_opt xs else last_opt ys)"
  by (simp add: last_opt_def)

lemma last_opt_Cons [simp]: "last_opt (x # xs) = (if xs = [] then Some x else last_opt xs)"
  by (simp add: last_opt_def)

lemma hd_opt_None [simp]: "hd_opt xs = None \<longleftrightarrow> xs = []"
  by (cases xs) simp_all

lemma last_opt_None [simp]: "last_opt xs = None \<longleftrightarrow> xs = []"
  by (simp add: last_opt_def)

lemma if_opt [simp]: "(if xs = [] then None else hd_opt xs) = hd_opt xs" "(if xs = [] then None else last_opt xs) = last_opt xs"
  by simp_all

text \<open>Taking a node out of the middle: its neighbours are linked to each other.\<close>

lemma seg_unlink:
  assumes "seg h pr (us @ p # a # zs) None" and "distinct (us @ p # a # zs)"
  defines "h1 \<equiv> set_next h p (nd_next (h a))"
  shows "nd_prev (h a) = Some p" and "nd_next (h a) = hd_opt zs"
    and "seg (case hd_opt zs of Some n \<Rightarrow> set_prev h1 n (Some p) | None \<Rightarrow> h1) pr (us @ p # zs) None"
proof -
  have s: "seg h pr us (Some p)" "nd_prev (h p) = (if us = [] then pr else last_opt us)"
    "nd_prev (h a) = Some p" "nd_next (h a) = hd_opt zs" "seg h (Some a) zs None"
    using assms(1) by (simp_all add: seg_append)
  from s(3,4) show "nd_prev (h a) = Some p" and "nd_next (h a) = hd_opt zs" by simp_all
  have d: "p \<notin> set us" "p \<notin> set zs" "distinct zs" "set us \<inter> set zs = {}" using assms(2) by auto
  show "seg (case hd_opt zs of Some n \<Rightarrow> set_prev h1 n (Some p) | None \<Rightarrow> h1) pr (us @ p # zs) None"
  proof (cases zs)
    case Nil
    then show ?thesis using s d unfolding h1_def by (simp add: seg_append)
  next
    case (Cons n ws)
    then have "n \<notin> set us" "n \<notin> set ws" "n \<noteq> p" "p \<notin> set ws" using d by auto
    then show ?thesis using s d Cons unfolding h1_def by (simp add: seg_append)
  qed
qed

subsection \<open>The operations on \<open>SLinkedList\<close>\<close>

definition sl_rep :: "node_heap \<Rightarrow> nat option \<Rightarrow> nat list \<Rightarrow> bool" where
  "sl_rep h first xs \<longleftrightarrow> distinct xs \<and> first = hd_opt xs \<and> (\<exists>pr. seg h pr xs None)"

text \<open>What an operation on the list leaves alone: the nodes outside it.\<close>

definition same_outside :: "nat set \<Rightarrow> node_heap \<Rightarrow> node_heap \<Rightarrow> bool" where
  "same_outside A h h' \<longleftrightarrow> (\<forall>a. a \<notin> A \<longrightarrow> h' a = h a)"

lemma Prepend_rep:
  assumes "sl_rep h first xs" and "e \<notin> set xs"
  shows "\<exists>h'. SLinkedList_Prepend h first e = (h', Some e) \<and> sl_rep h' (Some e) (e # xs) \<and>
           same_outside (set (e # xs)) h h'"
proof (cases xs)
  case Nil
  then show ?thesis using assms
    by (simp add: sl_rep_def SLinkedList_Prepend_def same_outside_def set_next_def)
next
  case (Cons f ys)
  then have n: "f \<noteq> e" "e \<notin> set ys" "f \<notin> set ys" "distinct ys" "first = Some f" "seg h (Some f) ys None"
    "nd_next (h f) = hd_opt ys"
    using assms by (auto simp: sl_rep_def)
  let ?h = "set_prev (set_next h e (Some f)) f (Some e)"
  have "SLinkedList_Prepend h first e = (?h, Some e)" using n by (simp add: SLinkedList_Prepend_def)
  moreover have "sl_rep ?h (Some e) (e # xs)" using n Cons by (simp add: sl_rep_def)
  moreover have "same_outside (set (e # xs)) h ?h" using Cons by (simp add: same_outside_def set_next_def set_prev_def)
  ultimately show ?thesis by blast
qed

lemma SRemove_rep:
  assumes "sl_rep h first xs" and "e \<in> set xs"
  shows "\<exists>h' first'. SLinkedList_Remove h first e = Inr (h', first') \<and> sl_rep h' first' (remove1 e xs) \<and>
           same_outside (set xs - {e}) h h'"
proof -
  obtain ys zs where xs: "xs = ys @ e # zs" "e \<notin> set ys" using split_list_first [OF assms(2)] by blast
  obtain pr where pr: "seg h pr xs None" and d: "distinct xs" and f: "first = hd_opt xs"
    using assms(1) by (auto simp: sl_rep_def)
  have r: "remove1 e xs = ys @ zs" using xs by (simp add: remove1_append)
  show ?thesis
  proof (cases ys rule: rev_cases)
    case Nil
    then show ?thesis
      using pr d f xs r by (auto simp: SLinkedList_Remove_def sl_rep_def same_outside_def)
  next
    case (snoc us p)
    have s: "seg h pr (us @ p # e # zs) None" "distinct (us @ p # e # zs)" using pr d xs snoc by simp_all
    note u = seg_unlink [OF s]
    have ne: "Some e \<noteq> first" using f xs snoc d by (cases us) auto
    let ?h1 = "set_next h p (nd_next (h e))"
    let ?h2 = "case hd_opt zs of Some n \<Rightarrow> set_prev ?h1 n (Some p) | None \<Rightarrow> ?h1"
    have "SLinkedList_Remove h first e = Inr (?h2, first)"
      using ne u(1,2) s(2) by (cases zs) (auto simp: SLinkedList_Remove_def Let_def)
    moreover have "sl_rep ?h2 first (ys @ zs)"
      using u(3) d f xs snoc by (auto simp: sl_rep_def)
    moreover have "same_outside (set xs - {e}) h ?h2"
      using xs snoc s(2) by (cases zs) (auto simp: same_outside_def set_next_def set_prev_def)
    ultimately show ?thesis using r by auto
  qed
qed

lemma RemoveFirst_rep:
  assumes "sl_rep h first (x # xs)"
  shows "SLinkedList_RemoveFirst h first = Inr (hd_opt xs) \<and> sl_rep h (hd_opt xs) xs"
  using assms by (auto simp: sl_rep_def SLinkedList_RemoveFirst_def)

lemma SInsertAfter_rep:
  assumes "sl_rep h first (ys @ a # zs)" and "e \<notin> set (ys @ a # zs)"
  shows "sl_rep (fst (SLinkedList_InsertAfter h first e a)) (snd (SLinkedList_InsertAfter h first e a)) (ys @ a # e # zs)"
proof -
  obtain pr where s: "seg h pr ys (Some a)" "nd_prev (h a) = (if ys = [] then pr else last_opt ys)"
    "nd_next (h a) = hd_opt zs" "seg h (Some a) zs None"
    using assms(1) by (auto simp: sl_rep_def seg_append)
  have d: "a \<notin> set ys" "a \<notin> set zs" "distinct ys" "distinct zs" "e \<noteq> a" "e \<notin> set ys" "e \<notin> set zs" "set ys \<inter> set zs = {}"
    "first = hd_opt (ys @ [a])"
    using assms by (auto simp: sl_rep_def)
  have "seg (fst (SLinkedList_InsertAfter h first e a)) pr (ys @ a # e # zs) None"
  proof (cases zs)
    case Nil
    then show ?thesis using s d by (simp add: SLinkedList_InsertAfter_def Let_def seg_append)
  next
    case (Cons n ws)
    then have "n \<notin> set ys" "n \<notin> set ws" "n \<noteq> a" "n \<noteq> e" "a \<notin> set ws" "e \<notin> set ws" using d by auto
    then show ?thesis using s d Cons by (simp add: SLinkedList_InsertAfter_def Let_def seg_append)
  qed
  then show ?thesis using d by (auto simp: sl_rep_def SLinkedList_InsertAfter_def Let_def)
qed

lemma SInsertBefore_rep:
  assumes "sl_rep h first (ys @ b # zs)" and "e \<notin> set (ys @ b # zs)"
  shows "\<exists>h' first'. SLinkedList_InsertBefore h first e b = Inr (h', first') \<and> sl_rep h' first' (ys @ e # b # zs)"
proof -
  obtain pr where s: "seg h pr ys (Some b)" "nd_prev (h b) = (if ys = [] then pr else last_opt ys)"
    "nd_next (h b) = hd_opt zs" "seg h (Some b) zs None"
    using assms(1) by (auto simp: sl_rep_def seg_append)
  have d: "b \<notin> set ys" "b \<notin> set zs" "distinct ys" "distinct zs" "e \<noteq> b" "e \<notin> set ys" "e \<notin> set zs" "set ys \<inter> set zs = {}"
    "first = hd_opt (ys @ [b])"
    using assms by (auto simp: sl_rep_def)
  show ?thesis
  proof (cases ys rule: rev_cases)
    case Nil
    then show ?thesis using s d by (simp add: SLinkedList_InsertBefore_def Let_def sl_rep_def)
  next
    case (snoc us p)
    then have n: "p \<noteq> b" "p \<noteq> e" "p \<notin> set us" "p \<notin> set zs" "b \<notin> set us" "e \<notin> set us" using d by auto
    have ne: "Some b \<noteq> first" using d snoc by (cases us) auto
    let ?h = "set_prev (set_next (set_prev (set_next h e (Some b)) e (Some p)) p (Some e)) b (Some e)"
    have "SLinkedList_InsertBefore h first e b = Inr (?h, first)"
      using s d snoc ne by (simp add: SLinkedList_InsertBefore_def Let_def)
    moreover have "sl_rep ?h first (ys @ e # b # zs)"
      using s d snoc n by (auto simp: sl_rep_def seg_append)
    ultimately show ?thesis by blast
  qed
qed

subsection \<open>The operations on \<open>LinkedList1\<close>\<close>

definition l1_rep :: "node_heap \<Rightarrow> LinkedList1 \<Rightarrow> nat list \<Rightarrow> bool" where
  "l1_rep h l xs \<longleftrightarrow> distinct xs \<and> ll_first l = hd_opt xs \<and> ll_last l = last_opt xs \<and> seg h None xs None"

lemma LinkedList1_Append_rep:
  assumes "l1_rep h l xs" and "a \<notin> set xs"
  shows "l1_rep (fst (LinkedList1_Append h l a)) (snd (LinkedList1_Append h l a)) (xs @ [a])"
proof (cases xs rule: rev_cases)
  case Nil
  then show ?thesis using assms by (simp add: l1_rep_def LinkedList1_Append_def Let_def)
next
  case (snoc us p)
  then have n: "p \<noteq> a" "p \<notin> set us" "a \<notin> set us" using assms by (auto simp: l1_rep_def)
  show ?thesis using assms snoc n by (auto simp: l1_rep_def LinkedList1_Append_def Let_def seg_append)
qed

lemma LinkedList1_Prepend_rep:
  assumes "l1_rep h l xs" and "a \<notin> set xs"
  shows "l1_rep (fst (LinkedList1_Prepend h l a)) (snd (LinkedList1_Prepend h l a)) (a # xs)"
proof (cases xs)
  case Nil
  then show ?thesis using assms by (simp add: l1_rep_def LinkedList1_Prepend_def Let_def)
next
  case (Cons f ys)
  then have n: "f \<noteq> a" "f \<notin> set ys" "a \<notin> set ys" using assms by (auto simp: l1_rep_def)
  show ?thesis using assms Cons n by (auto simp: l1_rep_def LinkedList1_Prepend_def Let_def)
qed

lemma LinkedList1_Remove_rep:
  assumes "l1_rep h l (ys @ a # zs)"
  shows "l1_rep (fst (LinkedList1_Remove h l a)) (snd (LinkedList1_Remove h l a)) (ys @ zs)"
proof (cases ys rule: rev_cases)
  case Nil
  show ?thesis
  proof (cases zs)
    case (Cons n ws)
    then show ?thesis using assms Nil by (auto simp: l1_rep_def LinkedList1_Remove_def)
  qed (use assms Nil in \<open>simp add: l1_rep_def LinkedList1_Remove_def\<close>)
next
  case (snoc us p)
  have s: "seg h None (us @ p # a # zs) None" "distinct (us @ p # a # zs)" using assms snoc by (simp_all add: l1_rep_def)
  note u = seg_unlink [OF s]
  show ?thesis
    using assms snoc u s(2)
    by (cases zs) (auto simp: l1_rep_def LinkedList1_Remove_def)
qed

lemma LinkedList1_InsertBefore_rep:
  assumes "l1_rep h l (ys @ t # zs)" and "a \<notin> set (ys @ t # zs)"
  shows "l1_rep (fst (LinkedList1_InsertBefore h l a t)) (snd (LinkedList1_InsertBefore h l a t)) (ys @ a # t # zs)"
proof (cases ys rule: rev_cases)
  case Nil
  then show ?thesis using assms by (auto simp: l1_rep_def LinkedList1_InsertBefore_def Let_def)
next
  case (snoc us p)
  then have n: "p \<noteq> t" "p \<noteq> a" "a \<noteq> t" "p \<notin> set us" "p \<notin> set zs" "t \<notin> set us" "t \<notin> set zs" "a \<notin> set us" "a \<notin> set zs"
    using assms by (auto simp: l1_rep_def)
  show ?thesis using assms snoc n by (auto simp: l1_rep_def LinkedList1_InsertBefore_def Let_def seg_append)
qed

lemma LinkedList1_InsertAfter_rep:
  assumes "l1_rep h l (ys @ t # zs)" and "a \<notin> set (ys @ t # zs)"
  shows "l1_rep (fst (LinkedList1_InsertAfter h l a t)) (snd (LinkedList1_InsertAfter h l a t)) (ys @ t # a # zs)"
proof (cases zs)
  case Nil
  then show ?thesis using assms by (auto simp: l1_rep_def LinkedList1_InsertAfter_def Let_def seg_append)
next
  case (Cons n ws)
  then have n: "n \<noteq> t" "n \<noteq> a" "a \<noteq> t" "n \<notin> set ys" "n \<notin> set ws" "t \<notin> set ys" "t \<notin> set ws" "a \<notin> set ys" "a \<notin> set ws"
    using assms by (auto simp: l1_rep_def)
  show ?thesis using assms Cons n by (auto simp: l1_rep_def LinkedList1_InsertAfter_def Let_def seg_append)
qed

subsection \<open>The interface: a list to which nodes are added at one end and removed anywhere\<close>

text \<open>
  \<open>BPending\<close> and the connection list of the udpgw client both take a node out of its list and put
  it back at the end where nodes are added (\<open>place\<close>): the newest job to the front, the most recently
  used connection to the back.
\<close>

locale node_list =
  fixes rep :: "node_heap \<Rightarrow> 'l \<Rightarrow> nat list \<Rightarrow> bool"
    and add :: "node_heap \<Rightarrow> 'l \<Rightarrow> nat \<Rightarrow> node_heap \<times> 'l"
    and del :: "node_heap \<Rightarrow> 'l \<Rightarrow> nat \<Rightarrow> (node_heap \<times> 'l) result"
    and place :: "nat \<Rightarrow> nat list \<Rightarrow> nat list"
  assumes add_rep: "rep h l xs \<Longrightarrow> a \<notin> set xs \<Longrightarrow> add h l a = (h', l') \<Longrightarrow> rep h' l' (place a xs)"
    and del_rep: "rep h l xs \<Longrightarrow> a \<in> set xs \<Longrightarrow> \<exists>h' l'. del h l a = Inr (h', l') \<and> rep h' l' (remove1 a xs)"
    and rep_distinct: "rep h l xs \<Longrightarrow> distinct xs"
begin

lemma touch_rep:
  assumes "rep h l xs" and "a \<in> set xs"
  shows "\<exists>h1 l1 h2 l2. del h l a = Inr (h1, l1) \<and> add h1 l1 a = (h2, l2) \<and> rep h2 l2 (place a (remove1 a xs))"
proof -
  obtain h1 l1 where d: "del h l a = Inr (h1, l1)" "rep h1 l1 (remove1 a xs)" using del_rep [OF assms] by blast
  have "a \<notin> set (remove1 a xs)" using rep_distinct [OF assms(1)] by simp
  then show ?thesis using d add_rep [OF d(2)] by (metis surj_pair)
qed

end

interpretation sll: node_list sl_rep SLinkedList_Prepend SLinkedList_Remove "\<lambda>a xs. a # xs"
proof
  show "sl_rep h l xs \<Longrightarrow> a \<notin> set xs \<Longrightarrow> SLinkedList_Prepend h l a = (h', l') \<Longrightarrow> sl_rep h' l' (a # xs)"
    for h l xs a h' l' using Prepend_rep [of h l xs a] by auto
  show "sl_rep h l xs \<Longrightarrow> a \<in> set xs \<Longrightarrow>
      \<exists>h' l'. SLinkedList_Remove h l a = Inr (h', l') \<and> sl_rep h' l' (remove1 a xs)" for h l xs a
    using SRemove_rep [of h l xs a] by blast
  show "sl_rep h l xs \<Longrightarrow> distinct xs" for h l xs by (simp add: sl_rep_def)
qed

interpretation ll1: node_list l1_rep LinkedList1_Append "\<lambda>h l a. Inr (LinkedList1_Remove h l a)" "\<lambda>a xs. xs @ [a]"
proof
  show "l1_rep h l xs \<Longrightarrow> a \<notin> set xs \<Longrightarrow> LinkedList1_Append h l a = (h', l') \<Longrightarrow> l1_rep h' l' (xs @ [a])"
    for h l xs a h' l' using LinkedList1_Append_rep [of h l xs a] by simp
  show "\<exists>h' l'. Inr (LinkedList1_Remove h l a) = Inr (h', l') \<and> l1_rep h' l' (remove1 a xs)"
    if r: "l1_rep h l xs" "a \<in> set xs" for h l xs a
  proof -
    obtain ys zs where xs: "xs = ys @ a # zs" "a \<notin> set ys" using split_list_first [OF r(2)] by blast
    then have "remove1 a xs = ys @ zs" by (simp add: remove1_append)
    then show ?thesis using LinkedList1_Remove_rep [of h l ys a zs] r(1) xs by (metis surjective_pairing)
  qed
  show "l1_rep h l xs \<Longrightarrow> distinct xs" for h l xs by (simp add: l1_rep_def)
qed

lemma sl_rep_next_ne: "sl_rep h first xs \<Longrightarrow> a \<in> set xs \<Longrightarrow> nd_next (h a) \<noteq> Some a"
proof -
  assume r: "sl_rep h first xs" and "a \<in> set xs"
  then obtain ys zs where xs: "xs = ys @ a # zs" using split_list by fast
  with r have "nd_next (h a) = hd_opt zs" "a \<notin> set zs" by (auto simp: sl_rep_def seg_append)
  then show ?thesis by (cases zs) auto
qed

end
