(* ===== verification/Pending.thy ===== *)
theory Pending
  imports Linked_List
begin

section \<open>Pending jobs: \<^verbatim>\<open>base/BPending.c\<close>\<close>

text \<open>
  The program's control flow between components is a list of jobs: a component does not call
  another one back directly but sets a job, and the reactor runs the first job of the list until
  the list is empty. Setting a job puts it at the front, so the list is a stack in which a job that
  is set again moves to the top.

  A job is the address of its \<^verbatim>\<open>BSmallPending\<close>; the group is the linked list of the jobs that are set
  and the debug fields that the assertions read. \<open>BPendingGroup_ExecuteJob\<close> returns the job whose
  handler it calls as its last action. The abstract group is the list of jobs itself, and
  \<open>pg_rel\<close> the refinement relation.
\<close>

record BPendingGroup =
  pg_heap :: node_heap
  pg_jobs :: "nat option"
  pg_pending :: "nat \<Rightarrow> bool"   \<comment> \<open>the field \<open>pending\<close> of each job\<close>
  pg_pending_ctr :: nat

definition BPendingGroup_Init :: "node_heap \<Rightarrow> BPendingGroup" where
  "BPendingGroup_Init h =
     \<lparr> pg_heap = h, pg_jobs = SLinkedList_Init, pg_pending = (\<lambda>_. False), pg_pending_ctr = 0 \<rparr>"

definition BPendingGroup_Free :: "BPendingGroup \<Rightarrow> unit result" where
  "BPendingGroup_Free g =
     ASSERT (pg_pending_ctr g = 0) (ASSERT (SLinkedList_IsEmpty (pg_jobs g)) (Inr ()))"

definition BPendingGroup_HasJobs :: "BPendingGroup \<Rightarrow> bool" where
  "BPendingGroup_HasJobs g \<longleftrightarrow> \<not> SLinkedList_IsEmpty (pg_jobs g)"

definition BPendingGroup_ExecuteJob :: "BPendingGroup \<Rightarrow> (BPendingGroup \<times> nat) result" where
  "BPendingGroup_ExecuteJob g =
     ASSERT (\<not> SLinkedList_IsEmpty (pg_jobs g))
     (case SLinkedList_First (pg_jobs g) of None \<Rightarrow> Inl Out_of_bounds
      | Some p \<Rightarrow>
          ASSERT (\<not> SLinkedListIsRemoved (pg_heap g) p)
          (ASSERT (pg_pending g p)
          (andthen (SLinkedList_RemoveFirst (pg_heap g) (pg_jobs g)) (\<lambda>first.
           Inr (g\<lparr>pg_jobs := first, pg_heap := SLinkedListMarkRemoved (pg_heap g) p,
                  pg_pending := (pg_pending g)(p := False)\<rparr>, p)))))"

definition BPendingGroup_PeekJob :: "BPendingGroup \<Rightarrow> nat option" where
  "BPendingGroup_PeekJob g = SLinkedList_First (pg_jobs g)"

definition BSmallPending_Init :: "BPendingGroup \<Rightarrow> nat \<Rightarrow> BPendingGroup" where
  "BSmallPending_Init g a =
     g\<lparr>pg_heap := SLinkedListMarkRemoved (pg_heap g) a, pg_pending := (pg_pending g)(a := False),
       pg_pending_ctr := Suc (pg_pending_ctr g)\<rparr>"

definition BSmallPending_Free :: "BPendingGroup \<Rightarrow> nat \<Rightarrow> BPendingGroup result" where
  "BSmallPending_Free g a =
     ASSERT (pg_pending_ctr g > 0)
     (let g = g\<lparr>pg_pending_ctr := pg_pending_ctr g - 1\<rparr> in
      ASSERT (pg_pending g a = (\<not> SLinkedListIsRemoved (pg_heap g) a))
      (if \<not> SLinkedListIsRemoved (pg_heap g) a
       then andthen (SLinkedList_Remove (pg_heap g) (pg_jobs g) a) (\<lambda>(h, first).
            Inr (g\<lparr>pg_heap := h, pg_jobs := first\<rparr>))
       else Inr g))"

definition BSmallPending_Set :: "BPendingGroup \<Rightarrow> nat \<Rightarrow> BPendingGroup result" where
  "BSmallPending_Set g a =
     ASSERT (pg_pending g a = (\<not> SLinkedListIsRemoved (pg_heap g) a))
     (andthen (if \<not> SLinkedListIsRemoved (pg_heap g) a
               then SLinkedList_Remove (pg_heap g) (pg_jobs g) a
               else Inr (pg_heap g, pg_jobs g)) (\<lambda>(h, first).
      let (h, first) = SLinkedList_Prepend h first a in
      Inr (g\<lparr>pg_heap := h, pg_jobs := first, pg_pending := (pg_pending g)(a := True)\<rparr>)))"

definition BSmallPending_Unset :: "BPendingGroup \<Rightarrow> nat \<Rightarrow> BPendingGroup result" where
  "BSmallPending_Unset g a =
     ASSERT (pg_pending g a = (\<not> SLinkedListIsRemoved (pg_heap g) a))
     (if \<not> SLinkedListIsRemoved (pg_heap g) a
      then andthen (SLinkedList_Remove (pg_heap g) (pg_jobs g) a) (\<lambda>(h, first).
           Inr (g\<lparr>pg_heap := SLinkedListMarkRemoved h a, pg_jobs := first,
                  pg_pending := (pg_pending g)(a := False)\<rparr>))
      else Inr g)"

definition BSmallPending_IsSet :: "BPendingGroup \<Rightarrow> nat \<Rightarrow> bool result" where
  "BSmallPending_IsSet g a =
     ASSERT (pg_pending g a = (\<not> SLinkedListIsRemoved (pg_heap g) a))
       (Inr (\<not> SLinkedListIsRemoved (pg_heap g) a))"

text \<open>\<^verbatim>\<open>BPending\<close> is a \<^verbatim>\<open>BSmallPending\<close> that remembers its group; with one group the functions are the same.\<close>

definition BPending_Init :: "BPendingGroup \<Rightarrow> nat \<Rightarrow> BPendingGroup" where
  "BPending_Init g a = BSmallPending_Init g a"

definition BPending_Free :: "BPendingGroup \<Rightarrow> nat \<Rightarrow> BPendingGroup result" where
  "BPending_Free g a = BSmallPending_Free g a"

definition BPending_Set :: "BPendingGroup \<Rightarrow> nat \<Rightarrow> BPendingGroup result" where
  "BPending_Set g a = BSmallPending_Set g a"

definition BPending_Unset :: "BPendingGroup \<Rightarrow> nat \<Rightarrow> BPendingGroup result" where
  "BPending_Unset g a = BSmallPending_Unset g a"

definition BPending_IsSet :: "BPendingGroup \<Rightarrow> nat \<Rightarrow> bool result" where
  "BPending_IsSet g a = BSmallPending_IsSet g a"

subsection \<open>The group is a stack of jobs\<close>

text \<open>\<open>J\<close> is the set of the jobs that are initialised, \<open>js\<close> the jobs that are set, next one first.\<close>

definition pg_rel :: "BPendingGroup \<Rightarrow> nat set \<Rightarrow> nat list \<Rightarrow> bool" where
  "pg_rel g J js \<longleftrightarrow>
     sl_rep (pg_heap g) (pg_jobs g) js \<and> set js \<subseteq> J \<and> finite J \<and> pg_pending_ctr g = card J \<and>
     (\<forall>a\<in>J. pg_pending g a \<longleftrightarrow> a \<in> set js) \<and>
     (\<forall>a\<in>J. SLinkedListIsRemoved (pg_heap g) a \<longleftrightarrow> a \<notin> set js)"

lemma sl_rep_outside:
  "sl_rep h first js \<Longrightarrow> same_outside A h h' \<Longrightarrow> A \<inter> set js = {} \<Longrightarrow> sl_rep h' first js"
proof -
  assume r: "sl_rep h first js" and o: "same_outside A h h'" "A \<inter> set js = {}"
  have "seg h' pr js None \<longleftrightarrow> seg h pr js None" for pr
    by (rule seg_frame) (use o in \<open>auto simp: same_outside_def\<close>)
  then show ?thesis using r by (simp add: sl_rep_def)
qed

lemma mark_outside: "same_outside {a} h (SLinkedListMarkRemoved h a)"
  by (simp add: same_outside_def SLinkedListMarkRemoved_def set_next_def)

lemma removed_outside:
  "same_outside A h h' \<Longrightarrow> a \<notin> A \<Longrightarrow> SLinkedListIsRemoved h' a = SLinkedListIsRemoved h a"
  by (simp add: same_outside_def SLinkedListIsRemoved_def)

lemma mark_removed [simp]:
  "SLinkedListIsRemoved (SLinkedListMarkRemoved h a) b \<longleftrightarrow> b = a \<or> SLinkedListIsRemoved h b"
  by (simp add: SLinkedListIsRemoved_def SLinkedListMarkRemoved_def)

lemma Init_rel_pg: "pg_rel (BPendingGroup_Init h) {} []"
  by (simp add: pg_rel_def BPendingGroup_Init_def SLinkedList_Init_def sl_rep_def)

lemma BSmallPending_Init_rel:
  assumes "pg_rel g J js" and "a \<notin> J"
  shows "pg_rel (BSmallPending_Init g a) (insert a J) js"
proof -
  have "a \<notin> set js" using assms by (auto simp: pg_rel_def)
  then show ?thesis
    using assms sl_rep_outside [OF _ mark_outside, of "pg_heap g" "pg_jobs g" js a]
    by (auto simp: pg_rel_def BSmallPending_Init_def)
qed

text \<open>Taking a job that is set off the list, as \<open>Set\<close>, \<open>Unset\<close> and \<open>Free\<close> begin.\<close>

lemma pg_remove:
  assumes "pg_rel g J js" and "a \<in> set js"
  obtains h first where "SLinkedList_Remove (pg_heap g) (pg_jobs g) a = Inr (h, first)"
    and "sl_rep h first (remove1 a js)"
    and "\<And>b. b \<in> J \<Longrightarrow> b \<notin> set js \<Longrightarrow> SLinkedListIsRemoved h b"
proof -
  have r: "sl_rep (pg_heap g) (pg_jobs g) js" using assms(1) by (simp add: pg_rel_def)
  obtain h first where h: "SLinkedList_Remove (pg_heap g) (pg_jobs g) a = Inr (h, first)"
    "sl_rep h first (remove1 a js)" "same_outside (set js - {a}) (pg_heap g) h"
    using SRemove_rep [OF r assms(2)] by blast
  then show thesis
    using that assms(1) removed_outside [OF h(3)] by (auto simp: pg_rel_def)
qed

lemma removed_iff_sl: "sl_rep h first js \<Longrightarrow> a \<in> set js \<Longrightarrow> \<not> SLinkedListIsRemoved h a"
  using sl_rep_next_ne by (simp add: SLinkedListIsRemoved_def)

lemma BSmallPending_Set_rel:
  assumes "pg_rel g J js" and "a \<in> J"
  shows "\<exists>g'. BSmallPending_Set g a = Inr g' \<and> pg_rel g' J (a # remove1 a js)"
proof -
  have d: "distinct js" and sub: "set js \<subseteq> J" using assms(1) by (simp_all add: pg_rel_def sl_rep_def)
  obtain h first where h: "(if \<not> SLinkedListIsRemoved (pg_heap g) a
      then SLinkedList_Remove (pg_heap g) (pg_jobs g) a else Inr (pg_heap g, pg_jobs g)) = Inr (h, first)"
    "sl_rep h first (remove1 a js)" "\<And>b. b \<in> J \<Longrightarrow> b \<notin> set js \<Longrightarrow> SLinkedListIsRemoved h b"
  proof (cases "a \<in> set js")
    case True
    then show ?thesis using pg_remove [OF assms(1) True] that assms by (auto simp: pg_rel_def)
  next
    case False
    then show ?thesis using that [of "pg_heap g" "pg_jobs g"] assms by (auto simp: pg_rel_def remove1_idem)
  qed
  have na: "a \<notin> set (remove1 a js)" using d by simp
  obtain h2 where p: "SLinkedList_Prepend h first a = (h2, Some a)" "sl_rep h2 (Some a) (a # remove1 a js)"
    "same_outside (set (a # remove1 a js)) h h2" using Prepend_rep [OF h(2) na] by blast
  let ?g = "g\<lparr>pg_heap := h2, pg_jobs := Some a, pg_pending := (pg_pending g)(a := True)\<rparr>"
  have "BSmallPending_Set g a = Inr ?g"
    using h(1) p(1) assms by (simp add: BSmallPending_Set_def pg_rel_def split del: if_split)
  moreover have "pg_rel ?g J (a # remove1 a js)"
    using assms p(2) h(3) d sub removed_outside [OF p(3)] removed_iff_sl [OF p(2)]
    by (auto simp: pg_rel_def)
  ultimately show ?thesis by blast
qed

lemma BSmallPending_Unset_rel:
  assumes "pg_rel g J js" and "a \<in> J"
  shows "\<exists>g'. BSmallPending_Unset g a = Inr g' \<and> pg_rel g' J (remove1 a js)"
proof (cases "a \<in> set js")
  case True
  have d: "distinct js" and sub: "set js \<subseteq> J" using assms(1) by (simp_all add: pg_rel_def sl_rep_def)
  obtain h first where h: "SLinkedList_Remove (pg_heap g) (pg_jobs g) a = Inr (h, first)"
    "sl_rep h first (remove1 a js)" "\<forall>b. b \<in> J \<longrightarrow> b \<notin> set js \<longrightarrow> SLinkedListIsRemoved h b"
    using pg_remove [OF assms(1) True] by blast
  have m: "sl_rep (SLinkedListMarkRemoved h a) first (remove1 a js)"
    using sl_rep_outside [OF h(2) mark_outside] d by simp
  let ?g = "g\<lparr>pg_heap := SLinkedListMarkRemoved h a, pg_jobs := first, pg_pending := (pg_pending g)(a := False)\<rparr>"
  have "BSmallPending_Unset g a = Inr ?g"
    using h(1) assms True by (simp add: BSmallPending_Unset_def pg_rel_def)
  moreover have "pg_rel ?g J (remove1 a js)"
    using assms m h(3) d sub removed_iff_sl [OF h(2)] by (auto simp: pg_rel_def)
  ultimately show ?thesis by blast
next
  case False
  then show ?thesis using assms by (auto simp: BSmallPending_Unset_def pg_rel_def remove1_idem)
qed

lemma ExecuteJob_rel:
  assumes "pg_rel g J (a # js)"
  shows "\<exists>g'. BPendingGroup_ExecuteJob g = Inr (g', a) \<and> pg_rel g' J js"
proof -
  have r: "sl_rep (pg_heap g) (pg_jobs g) (a # js)" and a: "a \<in> J" using assms by (simp_all add: pg_rel_def)
  have f: "SLinkedList_RemoveFirst (pg_heap g) (pg_jobs g) = Inr (hd_opt js)" "sl_rep (pg_heap g) (hd_opt js) js"
    "pg_jobs g = Some a" "a \<notin> set js"
    using RemoveFirst_rep [OF r] r by (simp_all add: sl_rep_def)
  have m: "sl_rep (SLinkedListMarkRemoved (pg_heap g) a) (hd_opt js) js"
    using sl_rep_outside [OF f(2) mark_outside] f(4) by simp
  show ?thesis
    using assms f a m
    by (auto simp: BPendingGroup_ExecuteJob_def SLinkedList_IsEmpty_def SLinkedList_First_def pg_rel_def)
qed

lemma BSmallPending_Free_rel:
  assumes "pg_rel g J js" and "a \<in> J"
  shows "\<exists>g'. BSmallPending_Free g a = Inr g' \<and> pg_rel g' (J - {a}) (remove1 a js)"
proof -
  have c: "0 < pg_pending_ctr g" "pg_pending_ctr g - 1 = card (J - {a})" "finite J" "distinct js" "set js \<subseteq> J"
    using assms by (auto simp: pg_rel_def sl_rep_def card_gt_0_iff)
  show ?thesis
  proof (cases "a \<in> set js")
    case True
    obtain h first where h: "SLinkedList_Remove (pg_heap g) (pg_jobs g) a = Inr (h, first)"
      "sl_rep h first (remove1 a js)" "\<forall>b. b \<in> J \<longrightarrow> b \<notin> set js \<longrightarrow> SLinkedListIsRemoved h b"
      using pg_remove [OF assms(1) True] by blast
    show ?thesis
      using assms c h True removed_iff_sl [OF h(2)]
      by (auto simp: BSmallPending_Free_def pg_rel_def Let_def)
  next
    case False
    then show ?thesis using assms c by (auto simp: BSmallPending_Free_def pg_rel_def remove1_idem Let_def)
  qed
qed

lemma pg_queries:
  assumes "pg_rel g J js"
  shows "BPendingGroup_HasJobs g \<longleftrightarrow> js \<noteq> []" "BPendingGroup_PeekJob g = hd_opt js"
    "a \<in> J \<Longrightarrow> BSmallPending_IsSet g a = Inr (a \<in> set js)"
  using assms
  by (auto simp: pg_rel_def sl_rep_def BPendingGroup_HasJobs_def BPendingGroup_PeekJob_def SLinkedList_First_def
      SLinkedList_IsEmpty_def BSmallPending_IsSet_def)

subsection \<open>Running operations\<close>

datatype job_op = Job_init nat | Job_set nat | Job_unset nat | Job_free nat | Job_execute

text \<open>A sequence of operations on the group of the code, and on the abstract stack. The third component lists the jobs run.\<close>

fun pg_run :: "job_op list \<Rightarrow> BPendingGroup \<Rightarrow> (BPendingGroup \<times> nat list) result" where
  "pg_run [] g = Inr (g, [])"
| "pg_run (Job_init a # ops) g = pg_run ops (BPending_Init g a)"
| "pg_run (Job_set a # ops) g = andthen (BPending_Set g a) (pg_run ops)"
| "pg_run (Job_unset a # ops) g = andthen (BPending_Unset g a) (pg_run ops)"
| "pg_run (Job_free a # ops) g = andthen (BPending_Free g a) (pg_run ops)"
| "pg_run (Job_execute # ops) g =
     (if BPendingGroup_HasJobs g
      then andthen (BPendingGroup_ExecuteJob g) (\<lambda>(g, a).
           andthen (pg_run ops g) (\<lambda>(g, xs). Inr (g, a # xs)))
      else pg_run ops g)"

fun stack_run :: "job_op list \<Rightarrow> nat list \<Rightarrow> nat list \<times> nat list" where
  "stack_run [] js = (js, [])"
| "stack_run (Job_init a # ops) js = stack_run ops js"
| "stack_run (Job_set a # ops) js = stack_run ops (a # remove1 a js)"
| "stack_run (Job_unset a # ops) js = stack_run ops (remove1 a js)"
| "stack_run (Job_free a # ops) js = stack_run ops (remove1 a js)"
| "stack_run (Job_execute # ops) [] = stack_run ops []"
| "stack_run (Job_execute # ops) (a # js) = (let (js', xs) = stack_run ops js in (js', a # xs))"

text \<open>The client's side of the contract: only initialised jobs are used, and none is initialised twice.\<close>

fun ops_ok :: "nat set \<Rightarrow> job_op list \<Rightarrow> bool" where
  "ops_ok J [] \<longleftrightarrow> True"
| "ops_ok J (Job_init a # ops) \<longleftrightarrow> a \<notin> J \<and> ops_ok (insert a J) ops"
| "ops_ok J (Job_set a # ops) \<longleftrightarrow> a \<in> J \<and> ops_ok J ops"
| "ops_ok J (Job_unset a # ops) \<longleftrightarrow> a \<in> J \<and> ops_ok J ops"
| "ops_ok J (Job_free a # ops) \<longleftrightarrow> a \<in> J \<and> ops_ok (J - {a}) ops"
| "ops_ok J (Job_execute # ops) \<longleftrightarrow> ops_ok J ops"

lemma pg_run_refines:
  "ops_ok J ops \<Longrightarrow> pg_rel g J js \<Longrightarrow>
     \<exists>g' J'. pg_run ops g = Inr (g', snd (stack_run ops js)) \<and> pg_rel g' J' (fst (stack_run ops js))"
proof (induction ops arbitrary: g J js)
  case (Cons oper ops)
  show ?case
  proof (cases oper)
    case (Job_init a)
    then have "pg_rel (BSmallPending_Init g a) (insert a J) js" "ops_ok (insert a J) ops"
      using Cons.prems BSmallPending_Init_rel [of g J js a] by simp_all
    then show ?thesis using Cons.IH Job_init by (simp add: BPending_Init_def)
  next
    case (Job_set a)
    then show ?thesis using Cons BSmallPending_Set_rel [of g J js a] by (fastforce simp: BPending_Set_def)
  next
    case (Job_unset a)
    then show ?thesis using Cons BSmallPending_Unset_rel [of g J js a] by (fastforce simp: BPending_Unset_def)
  next
    case (Job_free a)
    then show ?thesis using Cons BSmallPending_Free_rel [of g J js a] by (fastforce simp: BPending_Free_def)
  next
    case Job_execute
    show ?thesis
    proof (cases js)
      case Nil
      then show ?thesis using Job_execute Cons pg_queries(1) [OF Cons.prems(2)] by auto
    next
      case (Cons a js')
      obtain g' where g': "BPendingGroup_ExecuteJob g = Inr (g', a)" "pg_rel g' J js'"
        using ExecuteJob_rel Cons.prems(2) Cons by blast
      then obtain g'' J'' where "pg_run ops g' = Inr (g'', snd (stack_run ops js'))" "pg_rel g'' J'' (fst (stack_run ops js'))"
        using Cons.IH [of J g' js'] Cons.prems(1) Job_execute by auto
      then show ?thesis
        using Job_execute Cons g' pg_queries(1) [OF Cons.prems(2)] by (auto simp: case_prod_beta)
    qed
  qed
qed auto

text \<open>
  C26: The job list implements a stack with move-to-front. For every sequence of operations on
  initialised jobs, no assertion of the code fails, no NULL pointer is followed, and the jobs that
  are executed, in order, and the jobs still set are those of the abstract stack.
\<close>

theorem BPendingGroup_refines_stack:
  assumes "ops_ok {} ops"
  shows "\<exists>g. pg_run ops (BPendingGroup_Init h) = Inr (g, snd (stack_run ops [])) \<and>
           BPendingGroup_PeekJob g = hd_opt (fst (stack_run ops [])) \<and>
           (BPendingGroup_HasJobs g \<longleftrightarrow> fst (stack_run ops []) \<noteq> [])"
  using pg_run_refines [OF assms Init_rel_pg] pg_queries(1,2) by metis

theorem BPendingGroup_refines_stack_witness:
  "\<exists>g. pg_run [Job_init 1, Job_init 2, Job_init 3, Job_set 1, Job_set 2, Job_set 3, Job_set 1, Job_unset 2,
       Job_execute, Job_set 2, Job_execute, Job_execute] (BPendingGroup_Init (\<lambda>_. \<lparr> nd_prev = None, nd_next = None \<rparr>)) =
       Inr (g, [1, 2, 3]) \<and> BPendingGroup_PeekJob g = None"
  using BPendingGroup_refines_stack [of "[Job_init 1, Job_init 2, Job_init 3, Job_set 1, Job_set 2, Job_set 3, Job_set 1,
      Job_unset 2, Job_execute, Job_set 2, Job_execute, Job_execute]" "\<lambda>_. \<lparr> nd_prev = None, nd_next = None \<rparr>"]
  by (auto simp del: pg_run.simps)

end
