(* ===== verification/Number_Text.thy ===== *)
theory Number_Text
  imports Prelude
begin

section \<open>Numbers in text: \<^verbatim>\<open>misc/parse_number.h\<close> and \<^verbatim>\<open>misc/find_char.h\<close>\<close>

text \<open>
  Parsing and printing of unsigned integers (\<^verbatim>\<open>uintmax_t\<close> has 64 bits, which the header
  checks itself). A parser returns \<open>None\<close> where the C function returns 0. Characters are compared
  as unsigned bytes, as \<^verbatim>\<open>char\<close> is on ARM and as \<^verbatim>\<open>memcmp\<close> compares everywhere.

  The parser strips leading zeros, compares what is left with the decimal representation of the
  greatest number, and only then converts, without a check: that this order of things is right is the
  theorem \<open>parse_unsigned_integer_exact\<close>, which relates it to the value of a string of digits.
\<close>

definition decode_decimal_digit :: "char \<Rightarrow> int" where
  "decode_decimal_digit c =
     (case map_of [(CHR ''0'', 0), (CHR ''1'', 1), (CHR ''2'', 2), (CHR ''3'', 3), (CHR ''4'', 4),
                   (CHR ''5'', 5), (CHR ''6'', 6), (CHR ''7'', 7), (CHR ''8'', 8), (CHR ''9'', 9)] c of
        Some d \<Rightarrow> d | None \<Rightarrow> - 1)"

definition decode_hex_digit :: "char \<Rightarrow> int" where
  "decode_hex_digit c =
     (case map_of [(CHR ''0'', 0), (CHR ''1'', 1), (CHR ''2'', 2), (CHR ''3'', 3), (CHR ''4'', 4),
                   (CHR ''5'', 5), (CHR ''6'', 6), (CHR ''7'', 7), (CHR ''8'', 8), (CHR ''9'', 9),
                   (CHR ''A'', 10), (CHR ''a'', 10), (CHR ''B'', 11), (CHR ''b'', 11), (CHR ''C'', 12), (CHR ''c'', 12),
                   (CHR ''D'', 13), (CHR ''d'', 13), (CHR ''E'', 14), (CHR ''e'', 14), (CHR ''F'', 15), (CHR ''f'', 15)] c of
        Some d \<Rightarrow> d | None \<Rightarrow> - 1)"

abbreviation ord :: "char \<Rightarrow> nat" where
  "ord c \<equiv> of_char c"

definition UINTMAX_MAX :: u64 where
  "UINTMAX_MAX = - 1"

definition parse_number__uintmax_max_str :: string where
  "parse_number__uintmax_max_str = ''18446744073709551615''"

text \<open>The loop of \<open>parse__no_overflow\<close>; the multiplication and the addition are those of \<^verbatim>\<open>uintmax_t\<close>.\<close>

fun parse__no_overflow_loop :: "u64 \<Rightarrow> string \<Rightarrow> u64 option" where
  "parse__no_overflow_loop n [] = Some n"
| "parse__no_overflow_loop n (c # str) =
     (if ord c < ord (CHR ''0'') \<or> ord c > ord (CHR ''9'') then None
      else parse__no_overflow_loop (10 * n + of_nat (ord c - ord (CHR ''0''))) str)"

definition parse__no_overflow :: "string \<Rightarrow> u64 option" where
  "parse__no_overflow str = parse__no_overflow_loop 0 str"

text \<open>The sign of the C library's \<^verbatim>\<open>memcmp\<close> on strings of the same length: whether the first is the greater.\<close>

fun memcmp_greater :: "string \<Rightarrow> string \<Rightarrow> bool" where
  "memcmp_greater (a # as) (b # bs) = (if a = b then memcmp_greater as bs else ord a > ord b)"
| "memcmp_greater _ _ = False"

definition parse_unsigned_integer_bin :: "string \<Rightarrow> u64 option" where
  "parse_unsigned_integer_bin str =
     (if length str = 0 then None
      else let str = dropWhile (\<lambda>c. c = CHR ''0'') str in
        if length str > length parse_number__uintmax_max_str \<or>
           (length str = length parse_number__uintmax_max_str \<and> memcmp_greater str parse_number__uintmax_max_str)
        then None else parse__no_overflow str)"

text \<open>The hexadecimal parser checks each step for an overflow.\<close>

fun parse_unsigned_hex_loop :: "u64 \<Rightarrow> string \<Rightarrow> u64 option" where
  "parse_unsigned_hex_loop n [] = Some n"
| "parse_unsigned_hex_loop n (c # str) =
     (let digit = decode_hex_digit c in
      if digit < 0 then None
      else if n > UINTMAX_MAX div 16 then None
      else let n = n * 16 in
        if of_int digit > UINTMAX_MAX - n then None
        else parse_unsigned_hex_loop (n + of_int digit) str)"

definition parse_unsigned_hex_integer_bin :: "string \<Rightarrow> u64 option" where
  "parse_unsigned_hex_integer_bin str = (if length str = 0 then None else parse_unsigned_hex_loop 0 str)"

definition parse_signmag_integer_bin :: "string \<Rightarrow> (int \<times> u64) option" where
  "parse_signmag_integer_bin str =
     (let (sgn, str) = (if length str > 0 \<and> (str ! 0 = CHR ''+'' \<or> str ! 0 = CHR ''-'')
                        then (1 - 2 * (if str ! 0 = CHR ''-'' then 1 else 0), drop 1 str) else (1, str)) in
      case parse_unsigned_integer_bin str of None \<Rightarrow> None | Some mag \<Rightarrow> Some (sgn, mag))"

text \<open>The representation of a number: its size, and the digits written from the last one on.\<close>

lemma u64_div10_decreases: "0 < x div (10 :: u64) \<Longrightarrow> unat (x div 10) < unat x"
  by (simp add: unat_div word_less_nat_alt)

function compute_decimal_repr_size :: "u64 \<Rightarrow> nat" where
  "compute_decimal_repr_size x = (if x div 10 > 0 then Suc (compute_decimal_repr_size (x div 10)) else 1)"
  by auto
termination by (relation "measure unat") (simp_all add: u64_div10_decreases)

function generate_decimal_repr_loop :: "u64 \<Rightarrow> string \<Rightarrow> nat \<Rightarrow> string result" where
  "generate_decimal_repr_loop x out i =
     (if i = 0 then Inl Out_of_bounds
      else andthen (mem_write out (i - 1) [char_of (ord (CHR ''0'') + unat (x mod 10))]) (\<lambda>out.
           if x div 10 > 0 then generate_decimal_repr_loop (x div 10) out (i - 1) else Inr out))"
  by auto
termination by (relation "measure (\<lambda>(x, out, i). unat x)") (simp_all add: u64_div10_decreases)

declare compute_decimal_repr_size.simps [simp del] generate_decimal_repr_loop.simps [simp del]

definition generate_decimal_repr :: "u64 \<Rightarrow> string \<Rightarrow> nat \<Rightarrow> string result" where
  "generate_decimal_repr x out repr_size =
     ASSERT (repr_size = compute_decimal_repr_size x) (generate_decimal_repr_loop x out repr_size)"

definition generate_decimal_repr_string :: "u64 \<Rightarrow> string \<Rightarrow> (string \<times> nat) result" where
  "generate_decimal_repr_string x out =
     (let repr_size = compute_decimal_repr_size x in
      andthen (generate_decimal_repr x out repr_size) (\<lambda>out.
      andthen (mem_write out repr_size [CHR 0x00]) (\<lambda>out. Inr (out, repr_size))))"

text \<open>\<^verbatim>\<open>misc/find_char.h\<close>\<close>

fun find_char_loop :: "string \<Rightarrow> char \<Rightarrow> nat \<Rightarrow> nat option" where
  "find_char_loop [] c i = None"
| "find_char_loop (x # str) c i = (if x = c then Some i else find_char_loop str c (Suc i))"

definition b_find_char_bin :: "string \<Rightarrow> char \<Rightarrow> nat option" where
  "b_find_char_bin str c = find_char_loop str c 0"

text \<open>The conversions \<^verbatim>\<open>%u\<close> and \<^verbatim>\<open>%x\<close> of the C library's \<^verbatim>\<open>sprintf\<close>.\<close>

definition digit_char :: "nat \<Rightarrow> char" where
  "digit_char d = ''0123456789abcdef'' ! d"

fun print_num :: "nat \<Rightarrow> nat \<Rightarrow> string" where
  "print_num b n = (if b < 2 \<or> n < b then [digit_char n] else print_num b (n div b) @ [digit_char (n mod b)])"

declare print_num.simps [simp del]

abbreviation print_dec :: "nat \<Rightarrow> string" where
  "print_dec \<equiv> print_num 10"

abbreviation print_hex :: "nat \<Rightarrow> string" where
  "print_hex \<equiv> print_num 16"

subsection \<open>The value of a string of digits\<close>

definition is_dec :: "char \<Rightarrow> bool" where
  "is_dec c \<longleftrightarrow> ord (CHR ''0'') \<le> ord c \<and> ord c \<le> ord (CHR ''9'')"

definition dec_value :: "string \<Rightarrow> nat" where
  "dec_value str = foldl (\<lambda>n c. 10 * n + (ord c - ord (CHR ''0''))) 0 str"

definition dec_fold :: "nat \<Rightarrow> string \<Rightarrow> nat" where
  "dec_fold k str = foldl (\<lambda>n c. 10 * n + (ord c - ord (CHR ''0''))) k str"

lemma dec_fold_simps [simp]:
  "dec_fold k [] = k" "dec_fold k (c # str) = dec_fold (10 * k + (ord c - 48)) str"
  by (simp_all add: dec_fold_def)

lemma dec_value_fold: "dec_value str = dec_fold 0 str"
  by (simp add: dec_value_def dec_fold_def)

lemma dec_fold_append [simp]: "dec_fold k (a @ b) = dec_fold (dec_fold k a) b"
  by (simp add: dec_fold_def)

lemma is_dec_digit: "is_dec c \<Longrightarrow> ord c - 48 < 10" "is_dec c \<Longrightarrow> is_dec b \<Longrightarrow> ord b < ord c \<longleftrightarrow> ord b - 48 < ord c - 48"
  by (auto simp: is_dec_def)

lemma dec_fold_ge: "k * 10 ^ length str \<le> dec_fold k str"
proof (induction str arbitrary: k)
  case (Cons c str)
  have "k * 10 ^ length (c # str) \<le> (10 * k + (ord c - 48)) * 10 ^ length str" by (simp add: algebra_simps)
  also have "\<dots> \<le> dec_fold (10 * k + (ord c - 48)) str" by (rule Cons.IH)
  finally show ?case by simp
qed simp

lemma dec_fold_less: "list_all is_dec str \<Longrightarrow> dec_fold k str < (k + 1) * 10 ^ length str"
proof (induction str arbitrary: k)
  case (Cons c str)
  have "dec_fold (10 * k + (ord c - 48)) str < (10 * k + (ord c - 48) + 1) * 10 ^ length str"
    using Cons by simp
  also have "\<dots> \<le> (10 * (k + 1)) * 10 ^ length str"
    using is_dec_digit(1) [of c] Cons.prems by (intro mult_le_mono1) simp
  finally show ?case by (simp add: algebra_simps)
qed simp

lemma parse__no_overflow_loop_value:
  "parse__no_overflow_loop (of_nat k) str = (if list_all is_dec str then Some (of_nat (dec_fold k str)) else None)"
proof (induction str arbitrary: k)
  case (Cons c str)
  have "10 * of_nat k + of_nat (ord c - 48) = (of_nat (10 * k + (ord c - 48)) :: u64)" by simp
  then show ?case using Cons.IH [of "10 * k + (ord c - 48)"] by (auto simp: is_dec_def)
qed simp

lemma memcmp_greater_value:
  "length a = length b \<Longrightarrow> list_all is_dec a \<Longrightarrow> list_all is_dec b \<Longrightarrow> memcmp_greater a b \<longleftrightarrow> dec_fold k a > dec_fold k b"
proof (induction a b arbitrary: k rule: memcmp_greater.induct)
  case (1 a as b bs)
  have n: "length as = length bs" using 1(2) by simp
  have less: "dec_fold (10 * k + (ord y - 48)) ys < dec_fold (10 * k + (ord x - 48)) xs"
    if "ord y < ord x" "is_dec x" "is_dec y" "list_all is_dec ys" "length xs = length ys" for x y xs ys
  proof -
    have "dec_fold (10 * k + (ord y - 48)) ys < (10 * k + (ord y - 48) + 1) * 10 ^ length ys" by (rule dec_fold_less) fact
    also have "\<dots> \<le> (10 * k + (ord x - 48)) * 10 ^ length xs"
      unfolding that(5) using that(1-3) is_dec_digit(2) [of x y] by (intro mult_le_mono1) simp
    also have "\<dots> \<le> dec_fold (10 * k + (ord x - 48)) xs" by (rule dec_fold_ge)
    finally show ?thesis .
  qed
  show ?case
  proof (cases "a = b")
    case True
    then show ?thesis using 1 by simp
  next
    case False
    then have "ord a \<noteq> ord b" by (metis char_of_char)
    then consider "ord a < ord b" | "ord b < ord a" by linarith
    then show ?thesis using less [of a b as bs] less [of b a bs as] 1(3,4) n False by cases auto
  qed
qed auto

lemma dec_value_dropWhile: "dec_value (dropWhile (\<lambda>c. c = CHR ''0'') str) = dec_value str"
  by (induction str) (auto simp: dec_value_fold)

lemma list_all_dropWhile_zero: "list_all is_dec (dropWhile (\<lambda>c. c = CHR ''0'') str) = list_all is_dec str"
  by (induction str) (auto simp: is_dec_def)

lemma dropWhile_value_bounds:
  assumes "list_all is_dec str"
  defines "s \<equiv> dropWhile (\<lambda>c. c = CHR ''0'') str"
  shows "length s > 20 \<Longrightarrow> dec_value s \<ge> 2 ^ 64" "length s < 20 \<Longrightarrow> dec_value s < 2 ^ 64"
proof -
  have all: "list_all is_dec s" using assms(1) list_all_dropWhile_zero by (simp add: s_def)
  show "dec_value s \<ge> 2 ^ 64" if l: "length s > 20"
  proof -
    obtain c t where s: "s = c # t" using l by (cases s) auto
    have "c \<noteq> CHR ''0''" using s hd_dropWhile [of "\<lambda>c. c = CHR ''0''" str] by (auto simp: s_def)
    then have "ord c \<noteq> ord (CHR ''0'')" by (metis char_of_char)
    then have c: "1 \<le> ord c - 48" using all s by (auto simp: is_dec_def)
    have "(2 :: nat) ^ 64 \<le> 10 ^ 20" by simp
    also have "(10 :: nat) ^ 20 \<le> 10 ^ length t" using l s by (intro power_increasing) simp_all
    also have "\<dots> \<le> (ord c - 48) * 10 ^ length t" using c by simp
    also have "\<dots> \<le> dec_value s" using dec_fold_ge [of "ord c - 48" t] by (simp add: s dec_value_fold)
    finally show ?thesis .
  qed
  show "dec_value s < 2 ^ 64" if l: "length s < 20"
  proof -
    have "dec_value s < 10 ^ length s" using dec_fold_less [OF all, of 0] by (simp add: dec_value_fold)
    also have "(10 :: nat) ^ length s \<le> 10 ^ 19" using l by (intro power_increasing) simp_all
    finally show ?thesis by simp
  qed
qed

lemma parse_unsigned_integer_bin_value:
  "parse_unsigned_integer_bin str =
     (if str \<noteq> [] \<and> list_all is_dec str \<and> dec_value str < 2 ^ 64 then Some (of_nat (dec_value str)) else None)"
proof -
  define s where "s = dropWhile (\<lambda>c. c = CHR ''0'') str"
  have all: "list_all is_dec s = list_all is_dec str" and v: "dec_value s = dec_value str"
    by (simp_all add: s_def list_all_dropWhile_zero dec_value_dropWhile)
  have run: "parse__no_overflow s = (if list_all is_dec str then Some (of_nat (dec_value str)) else None)"
    using parse__no_overflow_loop_value [of 0 s] v [symmetric] all by (simp add: parse__no_overflow_def dec_value_fold)
  have m: "length parse_number__uintmax_max_str = 20" "list_all is_dec parse_number__uintmax_max_str"
    "dec_value parse_number__uintmax_max_str = 2 ^ 64 - 1"
    by (simp_all add: parse_number__uintmax_max_str_def is_dec_def dec_value_fold)
  have eq: "memcmp_greater s parse_number__uintmax_max_str \<longleftrightarrow> dec_value str \<ge> 2 ^ 64" if "length s = 20" "list_all is_dec str"
    using memcmp_greater_value [of s parse_number__uintmax_max_str 0] that m all v unfolding dec_value_fold [symmetric] by auto
  show ?thesis
  proof (cases "list_all is_dec str")
    case False
    then show ?thesis by (auto simp: parse_unsigned_integer_bin_def Let_def s_def [symmetric] run)
  next
    case True
    note b = dropWhile_value_bounds [OF True, folded s_def]
    consider "length s > 20" | "length s = 20" | "length s < 20" by linarith
    then show ?thesis
    proof cases
      case 1
      then show ?thesis using b(1) v m(1) by (auto simp: parse_unsigned_integer_bin_def Let_def s_def [symmetric])
    next
      case 2
      then show ?thesis using eq [OF 2 True] True m(1) run
        by (auto simp: parse_unsigned_integer_bin_def Let_def s_def [symmetric] not_le)
    next
      case 3
      then show ?thesis using b(2) True v m(1) run by (auto simp: parse_unsigned_integer_bin_def Let_def s_def [symmetric])
    qed
  qed
qed

subsection \<open>Hexadecimal numbers\<close>

definition is_hex :: "char \<Rightarrow> bool" where
  "is_hex c \<longleftrightarrow> decode_hex_digit c \<ge> 0"

definition hex_fold :: "nat \<Rightarrow> string \<Rightarrow> nat" where
  "hex_fold k str = foldl (\<lambda>n c. 16 * n + nat (decode_hex_digit c)) k str"

lemma hex_fold_simps [simp]:
  "hex_fold k [] = k" "hex_fold k (c # str) = hex_fold (16 * k + nat (decode_hex_digit c)) str"
  "hex_fold k (a @ b) = hex_fold (hex_fold k a) b"
  by (simp_all add: hex_fold_def)

lemma decode_hex_digit_less: "decode_hex_digit c < 16"
  by (simp add: decode_hex_digit_def split: if_split)

lemma hex_fold_ge: "k \<le> hex_fold k str"
proof (induction str arbitrary: k)
  case (Cons c str)
  then have "16 * k + nat (decode_hex_digit c) \<le> hex_fold (16 * k + nat (decode_hex_digit c)) str" .
  then show ?case by simp
qed simp

lemma parse_unsigned_hex_loop_value:
  "k < 2 ^ 64 \<Longrightarrow> parse_unsigned_hex_loop (of_nat k) str =
     (if list_all is_hex str \<and> hex_fold k str < 2 ^ 64 then Some (of_nat (hex_fold k str)) else None)"
proof (induction str arbitrary: k)
  case (Cons c str)
  define d where "d = nat (decode_hex_digit c)"
  have d: "d < 16" using decode_hex_digit_less [of c] by (simp add: d_def)
  have u: "unat (of_nat k :: u64) = k" using Cons.prems by (simp add: unsigned_of_nat take_bit_nat_eq_self)
  have M: "unat UINTMAX_MAX = 2 ^ 64 - 1" "unat (UINTMAX_MAX div 16) = 2 ^ 60 - 1" by (simp_all add: UINTMAX_MAX_def unat_div unsigned_minus_1_eq_mask mask_eq_exp_minus_1)
  show ?case
  proof (cases "is_hex c \<and> k < 2 ^ 60")
    case False
    have "hex_fold (16 * k + d) str \<ge> 2 ^ 64" if "k \<ge> 2 ^ 60" using hex_fold_ge [of "16 * k + d" str] that by simp
    moreover have "(of_nat k :: u64) > UINTMAX_MAX div 16 \<longleftrightarrow> k \<ge> 2 ^ 60" using M(2) u by (simp add: word_less_nat_alt) arith
    ultimately show ?thesis using False by (auto simp: is_hex_def Let_def d_def not_less)
  next
    case True
    have lt: "16 * k + d < 2 ^ 64" using True d by simp
    have dd: "decode_hex_digit c = int d" using True by (simp add: is_hex_def d_def)
    have k16: "of_nat k * 16 = (of_nat (16 * k) :: u64)" by (simp add: mult.commute)
    have u16: "unat (of_nat (16 * k) :: u64) = 16 * k"
      using lt by (simp only: unsigned_of_nat) (simp add: take_bit_nat_eq_self)
    have "unat (UINTMAX_MAX - of_nat (16 * k)) = 2 ^ 64 - 1 - 16 * k"
      using M(1) u16 lt by (subst unat_sub) (simp_all add: word_le_nat_alt)
    moreover have "unat (of_nat d :: u64) = d" using d by (simp add: unsigned_of_nat take_bit_nat_eq_self)
    ultimately have no: "\<not> (of_nat d :: u64) > UINTMAX_MAX - of_nat (16 * k)" using lt by (simp add: word_less_nat_alt)
    have "\<not> (of_nat k :: u64) > UINTMAX_MAX div 16" using M(2) u True by (simp add: word_less_nat_alt)
    moreover have "of_int (int d) = (of_nat d :: u64)" "of_nat (16 * k) + of_nat d = (of_nat (16 * k + d) :: u64)" by simp_all
    ultimately have "parse_unsigned_hex_loop (of_nat k) (c # str) = parse_unsigned_hex_loop (of_nat (16 * k + d)) str"
      using no unfolding parse_unsigned_hex_loop.simps Let_def dd k16 by (simp only: if_False simp_thms of_nat_less_0_iff)
    then show ?thesis using Cons.IH [OF lt] True by (simp add: d_def)
  qed
qed simp

subsection \<open>Printed numbers\<close>

lemma all_digit_chars:
  "\<forall>d\<in>set [0..<10]. is_dec (digit_char d) \<and> ord (digit_char d) = 48 + d \<and> decode_decimal_digit (digit_char d) = int d"
  "\<forall>d\<in>set [0..<16]. decode_hex_digit (digit_char d) = int d"
  by code_simp+

lemma digit_char_dec: "d < 10 \<Longrightarrow> is_dec (digit_char d)" "d < 10 \<Longrightarrow> ord (digit_char d) = 48 + d"
  "d < 10 \<Longrightarrow> decode_decimal_digit (digit_char d) = int d"
  using all_digit_chars(1) by auto

lemma digit_char_hex: "d < 16 \<Longrightarrow> decode_hex_digit (digit_char d) = int d"
  using all_digit_chars(2) by auto

lemma digit_char_of: "d < 10 \<Longrightarrow> char_of (48 + d) = digit_char d"
  by (metis char_of_char digit_char_dec(2))

lemma print_num_nonempty [simp]: "print_num b n \<noteq> []" "[] \<noteq> print_num b n"
  by (subst print_num.simps, simp)+

lemma print_dec_value: "dec_fold 0 (print_dec n) = n"
proof (induction n rule: less_induct)
  case (less n)
  then show ?case by (subst print_num.simps) (auto simp: digit_char_dec)
qed

lemma print_dec_digits: "list_all is_dec (print_dec n)"
proof (induction n rule: less_induct)
  case (less n)
  then show ?case by (subst print_num.simps) (auto simp: digit_char_dec)
qed

lemma print_hex_value: "hex_fold 0 (print_hex n) = n"
proof (induction n rule: less_induct)
  case (less n)
  then show ?case by (subst print_num.simps) (auto simp: digit_char_hex)
qed

lemma print_hex_digits: "list_all is_hex (print_hex n)"
proof (induction n rule: less_induct)
  case (less n)
  then show ?case by (subst print_num.simps) (auto simp: digit_char_hex is_hex_def [of "digit_char _"])
qed

lemma print_num_length: "2 \<le> b \<Longrightarrow> n < b ^ Suc k \<Longrightarrow> length (print_num b n) \<le> Suc k"
proof (induction k arbitrary: n)
  case 0
  then show ?case by (subst print_num.simps) simp
next
  case (Suc k)
  then have "n div b < b ^ Suc k" by (simp add: less_mult_imp_div_less mult.commute)
  then show ?case using Suc by (subst print_num.simps) auto
qed

text \<open>The library's own generator writes what \<^verbatim>\<open>sprintf\<close> would.\<close>

lemma unat_div_10: "unat (x div (10 :: u64)) = unat x div 10" "unat (x mod (10 :: u64)) = unat x mod 10"
  "0 < x div (10 :: u64) \<longleftrightarrow> 10 \<le> unat x"
  by (simp_all add: unat_div unat_mod word_less_nat_alt div_greater_zero_iff)

lemma compute_decimal_repr_size_print: "compute_decimal_repr_size x = length (print_dec (unat x))"
proof (induction x rule: compute_decimal_repr_size.induct)
  case (1 x)
  then show ?case by (subst compute_decimal_repr_size.simps, subst print_num.simps) (auto simp: unat_div_10)
qed

lemma generate_decimal_repr_loop_print:
  "length (print_dec (unat x)) = i \<Longrightarrow> i \<le> length out \<Longrightarrow>
     generate_decimal_repr_loop x out i = Inr (print_dec (unat x) @ drop i out)"
proof (induction x out i rule: generate_decimal_repr_loop.induct)
  case (1 x out i)
  define c where "c = digit_char (unat x mod 10)"
  have c: "char_of (ord (CHR ''0'') + unat (x mod 10)) = c" by (simp add: c_def unat_div_10 digit_char_of)
  have i: "0 < i" using 1(2) by auto
  have w: "mem_write out (i - 1) [c] = Inr (take (i - 1) out @ c # drop i out)" using i 1(3) by (simp add: mem_write_def)
  show ?case
  proof (cases "10 \<le> unat x")
    case True
    then have p: "print_dec (unat x) = print_dec (unat x div 10) @ [c]" by (subst print_num.simps) (simp add: c_def)
    have l: "length (print_dec (unat (x div 10))) = i - 1" using 1(2) by (simp add: p unat_div_10)
    have "generate_decimal_repr_loop x out i = generate_decimal_repr_loop (x div 10) (take (i - 1) out @ c # drop i out) (i - 1)"
      using i w c True by (subst generate_decimal_repr_loop.simps) (simp add: unat_div_10)
    also have "\<dots> = Inr (print_dec (unat (x div 10)) @ drop (i - 1) (take (i - 1) out @ c # drop i out))"
      by (rule 1(1)) (use i True l 1(3) w c in \<open>simp_all add: unat_div_10\<close>)
    finally show ?thesis using 1(3) i by (simp add: p unat_div_10)
  next
    case False
    then have p: "print_dec (unat x) = [c]" by (subst print_num.simps) (simp add: c_def)
    then show ?thesis using 1(2) w c False by (subst generate_decimal_repr_loop.simps) (simp add: unat_div_10)
  qed
qed

lemma parse_print_dec: "n < 2 ^ 64 \<Longrightarrow> parse_unsigned_integer_bin (print_dec n) = Some (of_nat n)"
  using print_dec_digits [of n] print_dec_value [of n] by (simp add: parse_unsigned_integer_bin_value dec_value_fold)

text \<open>
  C36: parsing is exact. A decimal number is accepted exactly when it is a non-empty string of digits
  whose value fits in 64 bits, however many zeros lead it, and the result is that value: the
  conversion that is done without a check never wraps around. The same holds for hexadecimal numbers,
  and for a sign followed by a decimal number.
\<close>

theorem parse_unsigned_integer_exact:
  "parse_unsigned_integer_bin str =
     (if str \<noteq> [] \<and> list_all is_dec str \<and> dec_value str < 2 ^ 64 then Some (of_nat (dec_value str)) else None) \<and>
   parse_unsigned_hex_integer_bin str =
     (if str \<noteq> [] \<and> list_all is_hex str \<and> hex_fold 0 str < 2 ^ 64 then Some (of_nat (hex_fold 0 str)) else None) \<and>
   parse_signmag_integer_bin (CHR ''-'' # str) = map_option (\<lambda>m. (- 1, m)) (parse_unsigned_integer_bin str)"
  using parse_unsigned_integer_bin_value [of str] parse_unsigned_hex_loop_value [of 0 str]
  by (auto simp: parse_unsigned_hex_integer_bin_def parse_signmag_integer_bin_def split: option.splits)

text \<open>
  Printing and parsing. The generator never writes outside of a buffer that has room for the size
  it computes and a terminator; what it writes is the number in decimal as \<^verbatim>\<open>sprintf\<close> prints it, at most twenty
  characters, and the parser reads the number back.
\<close>

lemma decimal_repr_roundtrip:
  assumes "compute_decimal_repr_size x < length out"
  shows "\<exists>out'. generate_decimal_repr_string x out = Inr (out', compute_decimal_repr_size x) \<and>
    out' = print_dec (unat x) @ CHR 0x00 # drop (Suc (compute_decimal_repr_size x)) out \<and>
    compute_decimal_repr_size x \<le> 20 \<and>
    parse_unsigned_integer_bin (take (compute_decimal_repr_size x) out') = Some x"
proof -
  let ?n = "compute_decimal_repr_size x"
  have n: "?n = length (print_dec (unat x))" by (rule compute_decimal_repr_size_print)
  have g: "generate_decimal_repr_loop x out ?n = Inr (print_dec (unat x) @ drop ?n out)"
    by (rule generate_decimal_repr_loop_print) (use n assms in simp_all)
  obtain c t where d: "drop ?n out = c # t" using assms by (cases "drop ?n out") auto
  then have t: "t = drop (Suc ?n) out" by (metis Cons_nth_drop_Suc assms list.inject)
  have "mem_write (print_dec (unat x) @ drop ?n out) ?n [CHR 0x00] = Inr (print_dec (unat x) @ CHR 0x00 # t)"
    using n d by (simp add: mem_write_def)
  then have "generate_decimal_repr_string x out = Inr (print_dec (unat x) @ CHR 0x00 # t, ?n)"
    using g by (simp add: generate_decimal_repr_string_def generate_decimal_repr_def Let_def)
  moreover have "?n \<le> 20" using print_num_length [of 10 "unat x" 19] unat_u64_less [of x] n by simp
  moreover have "parse_unsigned_integer_bin (print_dec (unat x)) = Some x" using parse_print_dec [of "unat x"] unat_u64_less [of x] by simp
  ultimately show ?thesis using n t by simp
qed

end
