(* ===== verification/Addr_Text.thy ===== *)
theory Addr_Text
  imports Number_Text Socket_Addr
begin

section \<open>Addresses in text: \<^verbatim>\<open>misc/ipaddr.h\<close>, \<^verbatim>\<open>misc/ipaddr6.h\<close> and the printing of \<^verbatim>\<open>system/BAddr.h\<close>\<close>

text \<open>
  The parsers of IPv4 and IPv6 addresses, prefixes and interface addresses, their printers, and the
  conversions between prefixes and masks. The program reads the IPv6 address of its network interface with
  \<open>ipaddr6_parse_ipv6_addr\<close>. A parser returns \<open>None\<close> where the C function returns 0; the IPv6 parser
  writes through its output pointer while it parses, so its result is a fault when it leaves the sixteen
  bytes or the string.
\<close>

unbundle bit_operations_syntax

subsection \<open>IPv4\<close>

record ipv4_ifaddr =
  ifaddr4_addr :: u32
  ifaddr4_prefix :: int

text \<open>The bytes written so far are the last argument.\<close>

function parse_ipv4_loop :: "nat \<Rightarrow> string \<Rightarrow> bytes \<Rightarrow> bytes option" where
  "parse_ipv4_loop i name acc =
     (let j = length (takeWhile (\<lambda>c. c \<noteq> CHR ''.'') name) in
      if (j = length name \<and> i < 3) \<or> (j < length name \<and> i = 3) then None
      else if j < 1 \<or> j > 3 then None
      else case parse_unsigned_integer_bin (take j name) of None \<Rightarrow> None
      | Some d \<Rightarrow>
          if d > 255 then None
          else let acc = acc @ [ucast d] in
            if i = 3 then Some acc else parse_ipv4_loop (Suc i) (drop (j + 1) name) acc)"
  by auto
termination by (relation "measure (\<lambda>(i, name, acc). length name)") (auto intro!: diff_less)

declare parse_ipv4_loop.simps [simp del]

definition ipaddr_parse_ipv4_addr_bin :: "string \<Rightarrow> u32 option" where
  "ipaddr_parse_ipv4_addr_bin name =
     map_option (\<lambda>b. u32_of_bytes (b ! 0) (b ! 1) (b ! 2) (b ! 3)) (parse_ipv4_loop 0 name [])"

definition ipaddr_parse_ipv4_prefix_bin :: "string \<Rightarrow> int option" where
  "ipaddr_parse_ipv4_prefix_bin str =
     (case parse_unsigned_integer_bin str of None \<Rightarrow> None | Some d \<Rightarrow> if d > 32 then None else Some (uint d))"

definition ipaddr_parse_ipv4_ifaddr_bin :: "string \<Rightarrow> ipv4_ifaddr option" where
  "ipaddr_parse_ipv4_ifaddr_bin str =
     (case b_find_char_bin str CHR ''/'' of None \<Rightarrow> None
      | Some slash_pos \<Rightarrow>
          (case ipaddr_parse_ipv4_addr_bin (take slash_pos str) of None \<Rightarrow> None
           | Some addr \<Rightarrow>
               (case ipaddr_parse_ipv4_prefix_bin (drop (slash_pos + 1) str) of None \<Rightarrow> None
                | Some pfx \<Rightarrow> Some \<lparr> ifaddr4_addr = addr, ifaddr4_prefix = pfx \<rparr>)))"

fun mask4_loop :: "nat \<Rightarrow> nat \<Rightarrow> u32 \<Rightarrow> u32" where
  "mask4_loop 0 i t = t"
| "mask4_loop (Suc n) i t = mask4_loop n (Suc i) (t OR push_bit (32 - i - 1) 1)"

definition ipaddr_ipv4_mask_from_prefix :: "int \<Rightarrow> u32 result" where
  "ipaddr_ipv4_mask_from_prefix pfx =
     ASSERT (pfx \<ge> 0) (ASSERT (pfx \<le> 32) (Inr (hton32 (mask4_loop (nat pfx) 0 0))))"

text \<open>The candidates \<open>i\<close> are tried from 0 to 32, \<open>n\<close> of them are left.\<close>

fun prefix4_loop :: "nat \<Rightarrow> nat \<Rightarrow> u32 \<Rightarrow> u32 \<Rightarrow> int option" where
  "prefix4_loop 0 i t msk = None"
| "prefix4_loop (Suc n) i t msk =
     (if ntoh32 msk = t then Some (int i)
      else prefix4_loop n (Suc i) (if i < 32 then t OR push_bit (32 - i - 1) 1 else t) msk)"

definition ipaddr_ipv4_prefix_from_mask :: "u32 \<Rightarrow> int option" where
  "ipaddr_ipv4_prefix_from_mask msk = prefix4_loop 33 0 0 msk"

definition ipaddr_ipv4_ifaddr_from_addr_mask :: "u32 \<Rightarrow> u32 \<Rightarrow> ipv4_ifaddr option" where
  "ipaddr_ipv4_ifaddr_from_addr_mask addr msk =
     (case ipaddr_ipv4_prefix_from_mask msk of None \<Rightarrow> None
      | Some pfx \<Rightarrow> Some \<lparr> ifaddr4_addr = addr, ifaddr4_prefix = pfx \<rparr>)"

definition ipaddr_ipv4_addrs_in_network :: "u32 \<Rightarrow> u32 \<Rightarrow> int \<Rightarrow> bool result" where
  "ipaddr_ipv4_addrs_in_network addr1 addr2 netprefix =
     ASSERT (netprefix \<ge> 0) (ASSERT (netprefix \<le> 32)
     (andthen (ipaddr_ipv4_mask_from_prefix netprefix) (\<lambda>m. Inr (addr1 AND m = addr2 AND m))))"

definition ipaddr_print_addr :: "u32 \<Rightarrow> string" where
  "ipaddr_print_addr addr =
     (let b = u32_bytes addr in
      print_dec (unat (b ! 0)) @ ''.'' @ print_dec (unat (b ! 1)) @ ''.'' @ print_dec (unat (b ! 2)) @ ''.'' @ print_dec (unat (b ! 3)))"

definition ipaddr_print_ifaddr :: "ipv4_ifaddr \<Rightarrow> string result" where
  "ipaddr_print_ifaddr ifaddr =
     ASSERT (ifaddr4_prefix ifaddr \<ge> 0) (ASSERT (ifaddr4_prefix ifaddr \<le> 32)
     (let b = u32_bytes (ifaddr4_addr ifaddr) in
      Inr (print_dec (unat (b ! 0)) @ ''.'' @ print_dec (unat (b ! 1)) @ ''.'' @ print_dec (unat (b ! 2)) @ ''.'' @
           print_dec (unat (b ! 3)) @ ''/'' @ print_dec (nat (ifaddr4_prefix ifaddr)))))"

subsection \<open>IPv6\<close>

record ipv6_ifaddr =
  ifaddr6_addr :: bytes
  ifaddr6_prefix :: int

text \<open>The local variables of the parser; \<open>compress_pos\<close> is \<open>None\<close> where the code has -1.\<close>

record parse6 =
  p6_bytes :: bytes
  p6_num_blocks :: nat
  p6_compress_pos :: "nat option"
  p6_block :: u16
  p6_empty :: bool

definition put_block :: "parse6 \<Rightarrow> parse6 result" where
  "put_block p =
     andthen (mem_write (p6_bytes p) (2 * p6_num_blocks p)
       [ucast (drop_bit 8 (p6_block p)), ucast (p6_block p AND 0xFF)]) (\<lambda>bytes.
     Inr (p\<lparr>p6_bytes := bytes, p6_num_blocks := Suc (p6_num_blocks p)\<rparr>))"

text \<open>How the first loop is left: by returning 0, at its end, or with a jump to \<open>ipv4_ending\<close> at a position.\<close>

datatype parse6_exit = P6_fail | P6_end parse6 | P6_ipv4 nat parse6

text \<open>A colon: the block before it is written, and a second colon is the compression.\<close>

definition parse6_colon :: "nat \<Rightarrow> bool \<Rightarrow> parse6 \<Rightarrow> parse6 option result" where
  "parse6_colon i is_double p =
     andthen (if i > 0
              then (if p6_empty p \<or> p6_num_blocks p = 7 then Inr None
                    else andthen (put_block p) (\<lambda>p. Inr (Some (p\<lparr>p6_block := 0, p6_empty := True\<rparr>))))
              else if \<not> is_double then Inr None
              else Inr (Some p)) (\<lambda>r.
     case r of None \<Rightarrow> Inr None
     | Some p \<Rightarrow>
         if is_double
         then (if p6_compress_pos p \<noteq> None then Inr None
               else Inr (Some (p\<lparr>p6_compress_pos := Some (p6_num_blocks p)\<rparr>)))
         else Inr (Some p))"

definition parse6_digit :: "char \<Rightarrow> parse6 \<Rightarrow> parse6 option" where
  "parse6_digit c p =
     (let digit = decode_hex_digit c in
      if digit < 0 then None
      else if p6_block p > 0xFFFF div 16 then None
      else let block = p6_block p * 16 in
        if of_int digit > 0xFFFF - block then None
        else Some (p\<lparr>p6_block := block + of_int digit, p6_empty := False\<rparr>))"

function parse6_loop :: "string \<Rightarrow> nat \<Rightarrow> parse6 \<Rightarrow> parse6_exit result" where
  "parse6_loop name i p =
     (if i < length name then
        andthen (mem_byte name i) (\<lambda>c.
        if c = CHR ''.'' then Inr (P6_ipv4 i p)
        else if c = CHR '':'' then
          andthen (if i + 1 < length name then andthen (mem_byte name (i + 1)) (\<lambda>d. Inr (d = CHR '':'')) else Inr False) (\<lambda>is_double.
          andthen (parse6_colon i is_double p) (\<lambda>r. case r of None \<Rightarrow> Inr P6_fail
            | Some p \<Rightarrow> parse6_loop name (i + (1 + (if is_double then 1 else 0))) p))
        else case parse6_digit c p of None \<Rightarrow> Inr P6_fail | Some p \<Rightarrow> parse6_loop name (i + 1) p)
      else Inr (P6_end p))"
  by auto
termination by (relation "measure (\<lambda>(name, i, p). length name - i)") auto

declare parse6_loop.simps [simp del]

text \<open>The label \<open>ipv4_done\<close>.\<close>

definition parse6_ipv4_done :: "parse6 \<Rightarrow> bytes option result" where
  "parse6_ipv4_done p =
     (if p6_compress_pos p = None \<and> p6_num_blocks p \<noteq> 8 then Inr None
      else
        let compress_pos = (case p6_compress_pos p of None \<Rightarrow> 0 | Some c \<Rightarrow> c);
            num_rear = p6_num_blocks p - compress_pos in
        andthen (mem_read (p6_bytes p) (2 * compress_pos) (2 * num_rear)) (\<lambda>rear.
        andthen (mem_write (p6_bytes p) (2 * (8 - num_rear)) rear) (\<lambda>bytes.
        andthen (mem_write bytes (2 * compress_pos) (replicate (2 * (8 - num_rear - compress_pos)) 0)) (\<lambda>bytes.
        Inr (Some bytes)))))"

text \<open>The label \<open>ipv4_ending\<close>: back to the last colon, then four decimal bytes.\<close>

fun back_to_colon :: "string \<Rightarrow> nat \<Rightarrow> nat result" where
  "back_to_colon name 0 = Inl Out_of_bounds"
| "back_to_colon name (Suc i) = andthen (mem_byte name i) (\<lambda>c. if c \<noteq> CHR '':'' then back_to_colon name i else Inr (Suc i))"

record parse4 =
  p4_bytes :: bytes
  p4_cur_byte :: nat
  p4_byte :: u8
  p4_empty :: bool

function parse6_ipv4_loop :: "string \<Rightarrow> nat \<Rightarrow> parse4 \<Rightarrow> parse4 option result" where
  "parse6_ipv4_loop name i q =
     (if i < length name then
        andthen (mem_byte name i) (\<lambda>c.
        if c = CHR ''.'' then
          (if p4_empty q \<or> p4_cur_byte q = 3 then Inr None
           else andthen (mem_write (p4_bytes q) (p4_cur_byte q) [p4_byte q]) (\<lambda>bytes.
                parse6_ipv4_loop name (i + 1)
                  (q\<lparr>p4_bytes := bytes, p4_cur_byte := Suc (p4_cur_byte q), p4_byte := 0, p4_empty := True\<rparr>)))
        else if \<not> p4_empty q \<and> p4_byte q = 0 then Inr None
        else let digit = decode_decimal_digit c in
          if digit < 0 then Inr None
          else if p4_byte q > 255 div 10 then Inr None
          else let b = p4_byte q * 10 in
            if of_int digit > 255 - b then Inr None
            else parse6_ipv4_loop name (i + 1) (q\<lparr>p4_byte := b + of_int digit, p4_empty := False\<rparr>))
      else Inr (Some q))"
  by auto
termination by (relation "measure (\<lambda>(name, i, q). length name - i)") auto

declare parse6_ipv4_loop.simps [simp del]

definition parse6_ipv4_ending :: "string \<Rightarrow> nat \<Rightarrow> parse6 \<Rightarrow> bytes option result" where
  "parse6_ipv4_ending name i p =
     (if p6_empty p \<or> (p6_num_blocks p = 0 \<and> p6_compress_pos p = None) then Inr None
      else
        andthen (back_to_colon name i) (\<lambda>i.
        andthen (parse6_ipv4_loop name i \<lparr> p4_bytes = replicate 4 0, p4_cur_byte = 0, p4_byte = 0, p4_empty = True \<rparr>) (\<lambda>r.
        case r of None \<Rightarrow> Inr None
        | Some q \<Rightarrow>
            if p4_cur_byte q \<noteq> 3 \<or> p4_empty q then Inr None
            else
              andthen (mem_write (p4_bytes q) (p4_cur_byte q) [p4_byte q]) (\<lambda>bytes4.
              if 8 - int (p6_num_blocks p) < 2 then Inr None
              else andthen (mem_write (p6_bytes p) (2 * p6_num_blocks p) bytes4) (\<lambda>bytes.
                   parse6_ipv4_done (p\<lparr>p6_bytes := bytes, p6_num_blocks := p6_num_blocks p + 2\<rparr>))))))"

text \<open>\<open>out\<close> is the contents of the output before the call.\<close>

definition ipaddr6_parse_ipv6_addr_bin :: "string \<Rightarrow> bytes \<Rightarrow> bytes option result" where
  "ipaddr6_parse_ipv6_addr_bin name out =
     andthen (parse6_loop name 0 \<lparr> p6_bytes = out, p6_num_blocks = 0, p6_compress_pos = None, p6_block = 0, p6_empty = True \<rparr>) (\<lambda>r.
     case r of P6_fail \<Rightarrow> Inr None
     | P6_ipv4 i p \<Rightarrow> parse6_ipv4_ending name i p
     | P6_end p \<Rightarrow>
         if \<not> p6_empty p then andthen (put_block p) parse6_ipv4_done
         else if Some (p6_num_blocks p) \<noteq> p6_compress_pos p then Inr None
         else parse6_ipv4_done p)"

definition ipaddr6_parse_ipv6_prefix_bin :: "string \<Rightarrow> int option" where
  "ipaddr6_parse_ipv6_prefix_bin str =
     (case parse_unsigned_integer_bin str of None \<Rightarrow> None | Some d \<Rightarrow> if d > 128 then None else Some (uint d))"

definition ipaddr6_parse_ipv6_ifaddr_bin :: "string \<Rightarrow> bytes \<Rightarrow> ipv6_ifaddr option result" where
  "ipaddr6_parse_ipv6_ifaddr_bin str out =
     (case b_find_char_bin str CHR ''/'' of None \<Rightarrow> Inr None
      | Some slash_pos \<Rightarrow>
          andthen (ipaddr6_parse_ipv6_addr_bin (take slash_pos str) out) (\<lambda>r. case r of None \<Rightarrow> Inr None
            | Some addr \<Rightarrow>
                (case ipaddr6_parse_ipv6_prefix_bin (drop (slash_pos + 1) str) of None \<Rightarrow> Inr None
                 | Some pfx \<Rightarrow> Inr (Some \<lparr> ifaddr6_addr = addr, ifaddr6_prefix = pfx \<rparr>))))"

text \<open>Setting the leading bits of a byte.\<close>

fun byte_bits_loop :: "nat \<Rightarrow> nat \<Rightarrow> u8 \<Rightarrow> u8" where
  "byte_bits_loop 0 i t = t"
| "byte_bits_loop (Suc n) i t = byte_bits_loop n (Suc i) (t OR push_bit (8 - i - 1) 1)"

definition ipaddr6_ipv6_mask_from_prefix :: "int \<Rightarrow> bytes result" where
  "ipaddr6_ipv6_mask_from_prefix pfx =
     ASSERT (pfx \<ge> 0) (ASSERT (pfx \<le> 128)
     (let q = nat pfx div 8; r = nat pfx mod 8; m = replicate q (255 :: u8) @ replicate (16 - q) 0 in
      if r = 0 then Inr m
      else andthen (mem_read m q 1) (\<lambda>b. mem_write m q [byte_bits_loop r 0 (b ! 0)])))"

text \<open>\<open>n\<close> candidates for the number of leading bits are left.\<close>

fun byte_prefix_loop :: "nat \<Rightarrow> nat \<Rightarrow> u8 \<Rightarrow> u8 \<Rightarrow> nat option" where
  "byte_prefix_loop 0 j t b = None"
| "byte_prefix_loop (Suc n) j t b =
     (if b = t then Some j
      else byte_prefix_loop n (Suc j) (if j < 8 then t OR push_bit (8 - j - 1) 1 else t) b)"

definition ipaddr6_ipv6_prefix_from_mask :: "bytes \<Rightarrow> int option" where
  "ipaddr6_ipv6_prefix_from_mask msk =
     (let i = length (takeWhile (\<lambda>b. b = 255) msk); pfx = 8 * i in
      if i < 16 then
        (case byte_prefix_loop 9 0 0 (msk ! i) of None \<Rightarrow> None
         | Some j \<Rightarrow> if list_all (\<lambda>b. b = 0) (drop (i + 1) msk) then Some (int (pfx + j)) else None)
      else Some (int pfx))"

definition ipaddr6_ipv6_ifaddr_from_addr_mask :: "bytes \<Rightarrow> bytes \<Rightarrow> ipv6_ifaddr option" where
  "ipaddr6_ipv6_ifaddr_from_addr_mask addr msk =
     (case ipaddr6_ipv6_prefix_from_mask msk of None \<Rightarrow> None
      | Some pfx \<Rightarrow> Some \<lparr> ifaddr6_addr = addr, ifaddr6_prefix = pfx \<rparr>)"

definition ipaddr6_ipv6_addrs_in_network :: "bytes \<Rightarrow> bytes \<Rightarrow> int \<Rightarrow> bool result" where
  "ipaddr6_ipv6_addrs_in_network addr1 addr2 netprefix =
     ASSERT (netprefix \<ge> 0) (ASSERT (netprefix \<le> 128)
     (let q = nat netprefix div 8; r = nat netprefix mod 8 in
      andthen (mem_read addr1 0 q) (\<lambda>a.
      andthen (mem_read addr2 0 q) (\<lambda>b.
      if memcmp a b \<noteq> 0 then Inr False
      else if r = 0 then Inr True
      else let t = byte_bits_loop r 0 0 in
        andthen (mem_read addr1 q 1) (\<lambda>x. andthen (mem_read addr2 q 1) (\<lambda>y. Inr (x ! 0 AND t = y ! 0 AND t)))))))"

text \<open>The eight blocks of an address, and the longest run of zero blocks, the first of several.\<close>

definition addr_block :: "bytes \<Rightarrow> nat \<Rightarrow> u16" where
  "addr_block addr i = push_bit 8 (ucast (addr ! (2 * i))) OR ucast (addr ! (2 * i + 1))"

record zero_run =
  largest_start :: nat
  largest_len :: nat
  current_start :: nat
  current_len :: nat

definition zero_run_step :: "bytes \<Rightarrow> nat \<Rightarrow> zero_run \<Rightarrow> zero_run" where
  "zero_run_step addr i z =
     (if addr ! (2 * i) = 0 \<and> addr ! (2 * i + 1) = 0
      then let z = z\<lparr>current_len := current_len z + 1\<rparr> in
           if current_len z > largest_len z then z\<lparr>largest_start := current_start z, largest_len := current_len z\<rparr> else z
      else z\<lparr>current_start := i + 1, current_len := 0\<rparr>)"

definition largest_run :: "bytes \<Rightarrow> zero_run" where
  "largest_run addr =
     fold (zero_run_step addr) [0..<8] \<lparr> largest_start = 0, largest_len = 0, current_start = 0, current_len = 0 \<rparr>"

definition ipaddr6_print_addr :: "bytes \<Rightarrow> string" where
  "ipaddr6_print_addr addr =
     (let z = largest_run addr; s = largest_start z; l = largest_len z in
      if l > 1 then
        concat (map (\<lambda>i. print_hex (unat (addr_block addr i)) @ '':'') [0..<s]) @
        (if s = 0 then '':'' else []) @
        concat (map (\<lambda>i. '':'' @ print_hex (unat (addr_block addr i))) [s + l..<8]) @
        (if s + l = 8 then '':'' else [])
      else
        concat (map (\<lambda>i. (if i = 0 then [] else '':'') @ print_hex (unat (addr_block addr i))) [0..<8]))"

definition ipaddr6_print_ifaddr :: "ipv6_ifaddr \<Rightarrow> string result" where
  "ipaddr6_print_ifaddr ifaddr =
     ASSERT (ifaddr6_prefix ifaddr \<ge> 0) (ASSERT (ifaddr6_prefix ifaddr \<le> 128)
     (Inr (ipaddr6_print_addr (ifaddr6_addr ifaddr) @ ''/'' @ print_dec (nat (ifaddr6_prefix ifaddr)))))"

subsection \<open>\<open>BIPAddr\<close> and \<open>BAddr\<close>\<close>

fun BIPAddr_Print :: "BIPAddr \<Rightarrow> string" where
  "BIPAddr_Print BIPAddr_None = ''(none)''"
| "BIPAddr_Print (BIPAddr_IPv4 ip) =
     (let b = u32_bytes ip in
      print_dec (unat (b ! 0)) @ ''.'' @ print_dec (unat (b ! 1)) @ ''.'' @ print_dec (unat (b ! 2)) @ ''.'' @ print_dec (unat (b ! 3)))"
| "BIPAddr_Print (BIPAddr_IPv6 ip) =
     (let n = map (\<lambda>i. print_hex (unat (addr_block ip i))) [0..<8] in
      n ! 0 @ '':'' @ n ! 1 @ '':'' @ n ! 2 @ '':'' @ n ! 3 @ '':'' @ n ! 4 @ '':'' @ n ! 5 @ '':'' @ n ! 6 @ '':'' @ n ! 7)"

text \<open>The debugging format of a packet address needs the conversions \<^verbatim>\<open>%d\<close> and \<^verbatim>\<open>%02x\<close>.\<close>

definition print_int :: "int \<Rightarrow> string" where
  "print_int i = (if i < 0 then ''-'' @ print_dec (nat (- i)) else print_dec (nat i))"

definition print_hex2 :: "u8 \<Rightarrow> string" where
  "print_hex2 b = (if b < 16 then ''0'' else []) @ print_hex (unat b)"

fun BAddr_Print :: "BAddr \<Rightarrow> string result" where
  "BAddr_Print BAddr_None = Inr ''(none)''"
| "BAddr_Print (BAddr_IPv4 ip port) = Inr (BIPAddr_Print (BIPAddr_IPv4 ip) @ '':'' @ print_dec (unat (ntoh16 port)))"
| "BAddr_Print (BAddr_IPv6 ip port) = Inr (BIPAddr_Print (BIPAddr_IPv6 ip) @ '':'' @ print_dec (unat (ntoh16 port)))"
| "BAddr_Print (BAddr_Packet proto ifindex htype ptype addr) =
     ASSERT (htype = 1) (Inr (''proto='' @ print_dec (unat proto) @ '',ifindex='' @ print_int ifindex @ '',htype=eth,ptype='' @ print_int ptype @ '',addr='' @
     print_hex2 (addr ! 0) @ '':'' @ print_hex2 (addr ! 1) @ '':'' @ print_hex2 (addr ! 2) @ '':'' @
     print_hex2 (addr ! 3) @ '':'' @ print_hex2 (addr ! 4) @ '':'' @ print_hex2 (addr ! 5)))"

text \<open>
  The C library's \<^verbatim>\<open>strtol\<close> in base 10: white space, a sign and digits; what is left of the string is returned with the
  value, and the whole string when there is no digit. \<^verbatim>\<open>getaddrinfo\<close> reads the configuration of the system and the
  network: it is the parameter \<open>getaddrinfo\<close>, which takes the family (\<open>True\<close> for IPv6), whether only numeric addresses are
  accepted, and the string, and gives the bytes of the first address.
\<close>

definition is_space :: "char \<Rightarrow> bool" where
  "is_space c \<longleftrightarrow> ord c = 32 \<or> (9 \<le> ord c \<and> ord c \<le> 13)"

definition strtol10 :: "string \<Rightarrow> int \<times> string" where
  "strtol10 str =
     (let s = dropWhile is_space str;
          (sgn, s) = (if s \<noteq> [] \<and> hd s = CHR ''-'' then (- 1, tl s) else if s \<noteq> [] \<and> hd s = CHR ''+'' then (1, tl s) else (1, s));
          ds = takeWhile is_dec s
      in if ds = [] then (0, str) else (sgn * int (dec_value ds), dropWhile is_dec s))"

definition BIPAddr_Resolve :: "(bool \<Rightarrow> bool \<Rightarrow> string \<Rightarrow> bytes option) \<Rightarrow> string \<Rightarrow> bool \<Rightarrow> BIPAddr option" where
  "BIPAddr_Resolve getaddrinfo str noresolve =
     (let len = length str;
          (v6, addr_str) = (if len \<ge> 1 \<and> str ! 0 = CHR ''['' \<and> str ! (len - 1) = CHR '']''
                            then (True, take (len - 2) (drop 1 str)) else (False, str))
      in if length addr_str > 128 then None
      else case getaddrinfo v6 noresolve addr_str of None \<Rightarrow> None
      | Some b \<Rightarrow> Some (if v6 then BIPAddr_IPv6 b else BIPAddr_IPv4 (u32_of_bytes (b ! 0) (b ! 1) (b ! 2) (b ! 3))))"

text \<open>The two parts of an address with a port: whether it is IPv6, the address and the port.\<close>

definition split_addr_port :: "string \<Rightarrow> (bool \<times> string \<times> string) option" where
  "split_addr_port str =
     (if str ! 0 = CHR ''['' then
        (let i = 1 + length (takeWhile (\<lambda>c. c \<noteq> CHR '']'') (drop 1 str)) in
         if i \<ge> length str then None
         else if i + 1 \<ge> length str \<or> str ! (i + 1) \<noteq> CHR '':'' then None
         else Some (True, take (i - 1) (drop 1 str), drop (i + 2) str))
      else
        (let i = length (takeWhile (\<lambda>c. c \<noteq> CHR '':'') str) in
         if i \<ge> length str then None else Some (False, take i str, drop (i + 1) str)))"

text \<open>\<open>name\<close> is the size of the buffer for the name when there is one; the name is returned with the address.\<close>

definition BAddr_Parse2 :: "(bool \<Rightarrow> bool \<Rightarrow> string \<Rightarrow> bytes option) \<Rightarrow> string \<Rightarrow> nat option \<Rightarrow> bool \<Rightarrow> (BAddr \<times> string) option" where
  "BAddr_Parse2 getaddrinfo str name noresolve =
     (if length str < 1 \<or> length str > 1000 then None
      else case split_addr_port str of None \<Rightarrow> None
      | Some (v6, addr_str, port_str) \<Rightarrow>
          if length addr_str \<ge> 128 then None
          else if length port_str \<ge> 6 then None
          else let (conv_res, err) = strtol10 port_str in
            if port_str = [] \<or> err \<noteq> [] then None
            else if conv_res < 0 \<or> conv_res > 65535 then None
            else let port = hton16 (of_int conv_res) in
              case getaddrinfo v6 noresolve addr_str of None \<Rightarrow> None
              | Some b \<Rightarrow>
                  if (case name of None \<Rightarrow> False | Some name_len \<Rightarrow> length addr_str \<ge> name_len) then None
                  else Some (if v6 then BAddr_IPv6 b port else BAddr_IPv4 (u32_of_bytes (b ! 0) (b ! 1) (b ! 2) (b ! 3)) port, addr_str))"

subsection \<open>IPv4 addresses\<close>

lemma is_dec_not_special: "is_dec c \<Longrightarrow> c \<noteq> CHR ''.''" "is_dec c \<Longrightarrow> c \<noteq> CHR '':''" "is_dec c \<Longrightarrow> c \<noteq> CHR ''/''"
  "is_dec c \<Longrightarrow> \<not> is_space c" "is_dec c \<Longrightarrow> c \<noteq> CHR ''-''" "is_dec c \<Longrightarrow> c \<noteq> CHR ''+''" "is_dec c \<Longrightarrow> c \<noteq> CHR ''[''"
  by (auto simp: is_dec_def is_space_def)

lemma takeWhile_all_append: "list_all P xs \<Longrightarrow> \<not> P y \<Longrightarrow> takeWhile P (xs @ y # ys) = xs"
  by (induction xs) auto

lemma list_all_mono_strong: "list_all P xs \<Longrightarrow> (\<And>x. P x \<Longrightarrow> Q x) \<Longrightarrow> list_all Q xs"
  by (simp add: list_all_iff)

lemma takeWhile_all: "list_all P xs \<Longrightarrow> takeWhile P xs = xs"
  by (simp add: list_all_iff)

text \<open>A decimal byte of one to three digits.\<close>

definition octet :: "string \<Rightarrow> u8 option" where
  "octet str = (if 1 \<le> length str \<and> length str \<le> 3 \<and> list_all is_dec str \<and> dec_value str \<le> 255
                then Some (of_nat (dec_value str)) else None)"

lemma octet_print [simp]: "octet (print_dec (unat (b :: u8))) = Some b"
  using print_num_length [of 10 "unat b" 2] unat_byte_less [of b, unfolded less_Suc_eq_le [of _ 255, simplified]] print_dec_digits [of "unat b"] print_dec_value [of "unat b"]
  by (simp add: octet_def dec_value_fold Suc_le_eq del: unat_byte_less)

lemma octet_no_dot: "octet str = Some b \<Longrightarrow> list_all (\<lambda>c. c \<noteq> CHR ''.'') str"
  by (auto simp: octet_def list_all_iff is_dec_def split: if_splits)

lemma parse_octet:
  "1 \<le> length str \<Longrightarrow> length str \<le> 3 \<Longrightarrow>
     octet str = (case parse_unsigned_integer_bin str of None \<Rightarrow> None | Some d \<Rightarrow> if d > 255 then None else Some (ucast d))"
proof -
  assume l: "1 \<le> length str" "length str \<le> 3"
  show ?thesis
  proof (cases "list_all is_dec str")
    case True
    have "dec_value str < 10 ^ length str" using dec_fold_less [OF True, of 0] by (simp add: dec_value_fold)
    also have "(10 :: nat) ^ length str \<le> 10 ^ 3" using l by (intro power_increasing) simp_all
    finally have v: "dec_value str < 1000" by simp
    then have u: "unat (of_nat (dec_value str) :: u64) = dec_value str" by (simp add: unsigned_of_nat take_bit_nat_eq_self)
    then have "(of_nat (dec_value str) :: u64) > 255 \<longleftrightarrow> dec_value str > 255" by (simp add: word_less_nat_alt)
    moreover have "ucast (of_nat (dec_value str) :: u64) = (of_nat (dec_value str) :: u8)" if "dec_value str \<le> 255"
      using that u by (simp add: ucast_eq unsigned_of_nat take_bit_nat_eq_self)
    ultimately show ?thesis using True l v by (auto simp: octet_def parse_unsigned_integer_bin_value not_less Suc_le_eq)
  next
    case False
    then show ?thesis by (auto simp: octet_def parse_unsigned_integer_bin_value)
  qed
qed

text \<open>What an IPv4 address is: the pieces between the dots are four decimal bytes.\<close>

fun split_on :: "char \<Rightarrow> string \<Rightarrow> string list" where
  "split_on c [] = [[]]"
| "split_on c (x # xs) = (if x = c then [] # split_on c xs else (x # hd (split_on c xs)) # tl (split_on c xs))"

definition dotted_quad :: "string \<Rightarrow> u32 option" where
  "dotted_quad str = (case those (map octet (split_on CHR ''.'' str)) of
     Some [a, b, c, d] \<Rightarrow> Some (u32_of_bytes a b c d) | _ \<Rightarrow> None)"

lemma split_on_nonempty [simp]: "split_on c xs \<noteq> []"
  by (induction xs) auto

lemma split_on_unfold:
  "split_on c xs = (let j = length (takeWhile (\<lambda>x. x \<noteq> c) xs) in
     if j = length xs then [xs] else take j xs # split_on c (drop (j + 1) xs))"
  by (induction xs) (auto simp: Let_def)

lemma split_on_append: "list_all (\<lambda>x. x \<noteq> c) xs \<Longrightarrow> split_on c (xs @ c # ys) = xs # split_on c ys"
  by (induction xs) auto

lemma split_on_none: "list_all (\<lambda>x. x \<noteq> c) xs \<Longrightarrow> split_on c xs = [xs]"
  by (induction xs) auto

lemma parse_ipv4_loop_split:
  "i \<le> 3 \<Longrightarrow> parse_ipv4_loop i name acc =
     (if length (split_on CHR ''.'' name) = 4 - i
      then map_option (\<lambda>bs. acc @ bs) (those (map octet (split_on CHR ''.'' name))) else None)"
proof (induction i name acc rule: parse_ipv4_loop.induct)
  case (1 i name acc)
  define j where "j = length (takeWhile (\<lambda>c. c \<noteq> CHR ''.'') name)"
  have jn: "j \<le> length name" by (simp add: j_def length_takeWhile_le)
  have sp: "split_on CHR ''.'' name = (if j = length name then [name] else take j name # split_on CHR ''.'' (drop (j + 1) name))"
    by (subst split_on_unfold) (simp add: Let_def j_def)
  have len: "length (split_on CHR ''.'' xs) > 0" for xs by simp
  have oct: "octet (take j name) = (if j < 1 \<or> j > 3 then None else
      case parse_unsigned_integer_bin (take j name) of None \<Rightarrow> None | Some d \<Rightarrow> if d > 255 then None else Some (ucast d))"
    using parse_octet [of "take j name"] jn by (auto simp: octet_def)
  have unf: "parse_ipv4_loop i name acc = (if (j = length name \<and> i < 3) \<or> (j < length name \<and> i = 3) then None
      else case octet (take j name) of None \<Rightarrow> None
      | Some b \<Rightarrow> if i = 3 then Some (acc @ [b]) else parse_ipv4_loop (Suc i) (drop (j + 1) name) (acc @ [b]))"
  proof -
    obtain tk where tk: "take j name = tk" by simp
    show ?thesis using oct unfolding parse_ipv4_loop.simps [of i] j_def [symmetric] Let_def tk by (auto split: option.split)
  qed
  show ?case
  proof (cases "i = 3")
    case True
    show ?thesis unfolding unf unfolding True using jn len [of "drop (j + 1) name"]
      by (cases "j = length name") (auto simp: sp split: option.split)
  next
    case False
    then have i: "Suc i \<le> 3" using 1(2) by simp
    show ?thesis
    proof (cases "j = length name")
      case True
      then show ?thesis using i by (auto simp: unf sp)
    next
      case False
      have IH: "parse_ipv4_loop (Suc i) (drop (j + 1) name) (acc @ [b]) =
          (if length (split_on CHR ''.'' (drop (j + 1) name)) = 4 - Suc i
           then map_option (\<lambda>bs. (acc @ [b]) @ bs) (those (map octet (split_on CHR ''.'' (drop (j + 1) name)))) else None)"
        if b: "octet (take j name) = Some b" for b
      proof -
        obtain d where "parse_unsigned_integer_bin (take j name) = Some d" "\<not> d > 255" "b = ucast d" "\<not> (j < 1 \<or> j > 3)"
          using b oct by (auto split: if_splits option.splits)
        then show ?thesis using 1(1) [OF j_def, of d "acc @ [b]"] False i jn by simp
      qed
      have l: "length (split_on CHR ''.'' name) = 4 - i \<longleftrightarrow> length (split_on CHR ''.'' (drop (j + 1) name)) = 4 - Suc i"
        using False i by (simp add: sp) arith
      show ?thesis
      proof (cases "octet (take j name)")
        case None
        then show ?thesis using False by (simp add: unf sp)
      next
        case (Some b)
        then show ?thesis using False \<open>i \<noteq> 3\<close> l IH [OF Some]
            by (cases "those (map octet (split_on CHR ''.'' (drop (Suc j) name)))") (simp_all add: unf sp)
      qed
    qed
  qed
qed

lemma those_length: "those os = Some bs \<Longrightarrow> length bs = length os"
  by (induction os arbitrary: bs) (auto split: option.splits)

lemma ipaddr_parse_ipv4_addr_bin_eq: "ipaddr_parse_ipv4_addr_bin name = dotted_quad name"
proof (cases "length (split_on CHR ''.'' name) = 4")
  case True
  then obtain a b c d where s: "split_on CHR ''.'' name = [a, b, c, d]" by (auto simp: length_Suc_conv numeral_eq_Suc)
  show ?thesis by (simp add: ipaddr_parse_ipv4_addr_bin_def parse_ipv4_loop_split dotted_quad_def s split: option.split)
next
  case False
  have "length bs = length (split_on CHR ''.'' name)" if "those (map octet (split_on CHR ''.'' name)) = Some bs" for bs
    using those_length [OF that] by simp
  then show ?thesis using False
    by (auto simp: ipaddr_parse_ipv4_addr_bin_def parse_ipv4_loop_split dotted_quad_def split: option.split list.split)
qed

lemma no_dot_print: "list_all (\<lambda>x. x \<noteq> CHR ''.'') (print_dec n)"
  using print_dec_digits [of n] by (auto simp: list_all_iff is_dec_def)

lemma ipaddr_print_addr_split:
  "split_on CHR ''.'' (ipaddr_print_addr addr) = map (\<lambda>b. print_dec (unat b)) (u32_bytes addr)"
  by (simp add: ipaddr_print_addr_def u32_bytes_def Let_def split_on_append split_on_none no_dot_print)

lemma dotted_quad_print: "dotted_quad (ipaddr_print_addr addr) = Some addr"
  unfolding dotted_quad_def ipaddr_print_addr_split using u32_bytes_inverse [of addr] by (simp add: u32_bytes_def)

subsection \<open>Masks\<close>

lemma mask4_loop_snoc: "mask4_loop (Suc n) i t = mask4_loop n i t OR push_bit (32 - (i + n) - 1) 1"
proof (induction n arbitrary: i t)
  case (Suc n)
  have "mask4_loop (Suc (Suc n)) i t = mask4_loop (Suc n) (Suc i) (t OR push_bit (32 - i - 1) 1)" by (rule mask4_loop.simps(2))
  also have "\<dots> = mask4_loop n (Suc i) (t OR push_bit (32 - i - 1) 1) OR push_bit (32 - (Suc i + n) - 1) 1" by (rule Suc.IH)
  finally show ?case by (simp add: Suc.IH)
qed simp

lemma bit_mask4: "n \<le> 32 \<Longrightarrow> bit (mask4_loop n 0 0) k \<longleftrightarrow> 32 - n \<le> k \<and> k < 32"
proof (induction n)
  case (Suc n)
  then show ?case unfolding mask4_loop_snoc by (auto simp: bit_or_iff bit_exp_iff)
qed simp

lemma mask4_distinct: "i < n \<Longrightarrow> n \<le> 32 \<Longrightarrow> mask4_loop i 0 0 \<noteq> mask4_loop n 0 0"
proof
  assume "i < n" "n \<le> 32" "mask4_loop i 0 0 = mask4_loop n 0 0"
  then show False using bit_mask4 [of i "32 - n"] bit_mask4 [of n "32 - n"] by simp
qed

lemma prefix4_loop_finds:
  "i \<le> n \<Longrightarrow> n < i + fuel \<Longrightarrow> n \<le> 32 \<Longrightarrow> prefix4_loop fuel i (mask4_loop i 0 0) (hton32 (mask4_loop n 0 0)) = Some (int n)"
proof (induction fuel arbitrary: i)
  case (Suc fuel)
  show ?case
  proof (cases "i = n")
    case False
    then have i: "i < n" "i < 32" using Suc.prems by simp_all
    then have "prefix4_loop fuel (Suc i) (mask4_loop (Suc i) 0 0) (hton32 (mask4_loop n 0 0)) = Some (int n)"
      using Suc.prems by (intro Suc.IH) simp_all
    then show ?thesis using i mask4_distinct [OF i(1) Suc.prems(3)] by (simp add: mask4_loop_snoc del: mask4_loop.simps(2))
  qed simp
qed simp

lemma ipv4_mask_prefix: "n \<le> 32 \<Longrightarrow> ipaddr_ipv4_mask_from_prefix (int n) = Inr (hton32 (mask4_loop n 0 0)) \<and>
    ipaddr_ipv4_prefix_from_mask (hton32 (mask4_loop n 0 0)) = Some (int n)"
  using prefix4_loop_finds [of 0 n 33] by (simp add: ipaddr_ipv4_mask_from_prefix_def ipaddr_ipv4_prefix_from_mask_def)

lemma byte_prefixes: "\<forall>r\<in>set [0..<8]. byte_prefix_loop 9 0 0 (byte_bits_loop r 0 0) = Some r \<and> byte_bits_loop r 0 0 \<noteq> 255"
  by code_simp

lemma ipv6_mask_prefix:
  assumes "n \<le> 128"
  shows "ipaddr6_ipv6_mask_from_prefix (int n) = Inr (replicate (n div 8) 255 @ take (16 - n div 8) (byte_bits_loop (n mod 8) 0 0 # replicate 15 0)) \<and>
    ipaddr6_ipv6_prefix_from_mask (replicate (n div 8) 255 @ take (16 - n div 8) (byte_bits_loop (n mod 8) 0 0 # replicate 15 0)) = Some (int n)"
proof -
  define q where "q = n div 8"
  define r where "r = n mod 8"
  have n: "n = 8 * q + r" "r < 8" "q \<le> 16" "r \<noteq> 0 \<Longrightarrow> q < 16" using assms unfolding q_def r_def by presburger+
  have b: "byte_prefix_loop 9 0 0 (byte_bits_loop r 0 0) = Some r" "byte_bits_loop r 0 0 \<noteq> 255" using byte_prefixes n(2) by auto
  show ?thesis
  proof (cases "q = 16")
    case True
    then show ?thesis using n assms unfolding q_def [symmetric] r_def [symmetric]
      by (auto simp: ipaddr6_ipv6_mask_from_prefix_def ipaddr6_ipv6_prefix_from_mask_def q_def [symmetric] r_def [symmetric] Let_def)
  next
    case False
    then obtain m where m: "16 - q = Suc m" "m \<le> 15" "q + Suc m = 16" using n(3) by (intro that [of "15 - q"]) auto
    have tk: "take (16 - q) (byte_bits_loop r 0 0 # replicate 15 0) = byte_bits_loop r 0 0 # replicate m 0"
      using m by (simp add: min_def)
    have "ipaddr6_ipv6_mask_from_prefix (int n) = Inr (replicate q 255 @ byte_bits_loop r 0 0 # replicate m 0)"
      using assms m b by (auto simp: ipaddr6_ipv6_mask_from_prefix_def Let_def q_def [symmetric] r_def [symmetric] mem_read_def mem_write_def)
    moreover have "takeWhile (\<lambda>b. b = 255) (replicate q 255 @ byte_bits_loop r 0 0 # replicate m 0) = replicate q (255 :: u8)"
      using b(2) by (induction q) auto
    then have "ipaddr6_ipv6_prefix_from_mask (replicate q 255 @ byte_bits_loop r 0 0 # replicate m 0) = Some (int n)"
      using b(1) m n by (simp add: ipaddr6_ipv6_prefix_from_mask_def Let_def nth_append list_all_iff)
    ultimately show ?thesis unfolding q_def [symmetric] r_def [symmetric] tk by simp
  qed
qed

subsection \<open>The IPv6 parser stays in bounds\<close>

definition p6_inv :: "string \<Rightarrow> nat \<Rightarrow> parse6 \<Rightarrow> bool" where
  "p6_inv name i p \<longleftrightarrow> length (p6_bytes p) = 16 \<and> p6_num_blocks p \<le> 7 \<and>
     (\<forall>c. p6_compress_pos p = Some c \<longrightarrow> c \<le> p6_num_blocks p) \<and>
     (p6_num_blocks p = 0 \<and> p6_compress_pos p = None \<or> (\<exists>j<i. name ! j = CHR '':''))"

lemma put_block_ok:
  "length (p6_bytes p) = 16 \<Longrightarrow> p6_num_blocks p \<le> 7 \<Longrightarrow>
     \<exists>b. put_block p = Inr (p\<lparr>p6_bytes := b, p6_num_blocks := Suc (p6_num_blocks p)\<rparr>) \<and> length b = 16"
  by (auto simp: put_block_def mem_write_def)

lemma parse6_colon_ok:
  assumes "p6_inv name i p" "name ! i = CHR '':''" "i < k"
  shows "\<exists>r. parse6_colon i d p = Inr r \<and> (\<forall>q. r = Some q \<longrightarrow> p6_inv name k q)"
proof -
  have c: "\<exists>j<k. name ! j = CHR '':''" using assms(2,3) by blast
  show ?thesis
  proof (cases "i > 0")
    case True
    show ?thesis
    proof (cases "p6_empty p \<or> p6_num_blocks p = 7")
      case False
      obtain b where "put_block p = Inr (p\<lparr>p6_bytes := b, p6_num_blocks := Suc (p6_num_blocks p)\<rparr>)" "length b = 16"
        using put_block_ok [of p] assms(1) by (auto simp: p6_inv_def)
      then show ?thesis using True False assms(1) c by (auto simp: parse6_colon_def p6_inv_def le_Suc_eq)
    qed (use True in \<open>simp add: parse6_colon_def\<close>)
  next
    case False
    then show ?thesis using assms(1) c by (auto simp: parse6_colon_def p6_inv_def)
  qed
qed

lemma parse6_digit_inv: "p6_inv name i p \<Longrightarrow> parse6_digit c p = Some q \<Longrightarrow> i \<le> k \<Longrightarrow> p6_inv name k q"
  by (auto simp: parse6_digit_def p6_inv_def Let_def split: if_splits)

text \<open>The reads of the first loop are inside of the string: an equation without faults.\<close>

lemma parse6_loop_eq:
  "parse6_loop name i p =
     (if i < length name then
        (if name ! i = CHR ''.'' then Inr (P6_ipv4 i p)
         else if name ! i = CHR '':'' then
           (let is_double = (i + 1 < length name \<and> name ! (i + 1) = CHR '':'') in
            andthen (parse6_colon i is_double p) (\<lambda>r. case r of None \<Rightarrow> Inr P6_fail
              | Some p \<Rightarrow> parse6_loop name (i + (1 + (if is_double then 1 else 0))) p))
         else case parse6_digit (name ! i) p of None \<Rightarrow> Inr P6_fail | Some p \<Rightarrow> parse6_loop name (i + 1) p)
      else Inr (P6_end p))"
  by (subst parse6_loop.simps) (simp add: Let_def)

lemma parse6_loop_ok:
  "p6_inv name i p \<Longrightarrow> \<exists>r. parse6_loop name i p = Inr r \<and>
     (\<forall>q. r = P6_end q \<longrightarrow> (\<exists>k. p6_inv name k q)) \<and> (\<forall>k q. r = P6_ipv4 k q \<longrightarrow> k \<le> length name \<and> p6_inv name k q)"
proof (induction "length name - i" arbitrary: i p rule: less_induct)
  case (less i p)
  show ?case
  proof (cases "i < length name")
    case False
    then show ?thesis using less.prems by (subst parse6_loop_eq) auto
  next
    case i: True
    consider "name ! i = CHR ''.''" | "name ! i = CHR '':''" | "name ! i \<noteq> CHR ''.''" "name ! i \<noteq> CHR '':''" by blast
    then show ?thesis
    proof cases
      case 1
      then show ?thesis using i less.prems by (subst parse6_loop_eq) simp
    next
      case 2
      define d where "d = (i + 1 < length name \<and> name ! (i + 1) = CHR '':'')"
      define k where "k = i + (1 + (if d then 1 else 0))"
      obtain r where r: "parse6_colon i d p = Inr r" "\<And>q. r = Some q \<Longrightarrow> p6_inv name k q"
        using parse6_colon_ok [OF less.prems 2, of k d] by (auto simp: k_def)
      have run: "parse6_loop name i p = (case r of None \<Rightarrow> Inr P6_fail | Some p \<Rightarrow> parse6_loop name k p)"
        using i 2 r(1) by (subst parse6_loop_eq) (simp only: Let_def d_def [symmetric] k_def [symmetric], simp)
      have k: "length name - k < length name - i" using i by (auto simp: k_def)
      show ?thesis using less.hyps [OF k] r(2) unfolding run by (cases r) simp_all
    next
      case 3
      then have run: "parse6_loop name i p = (case parse6_digit (name ! i) p of None \<Rightarrow> Inr P6_fail | Some p \<Rightarrow> parse6_loop name (i + 1) p)"
        using i by (subst parse6_loop_eq) simp
      have k: "length name - (i + 1) < length name - i" using i by simp
      show ?thesis using less.hyps [OF k] parse6_digit_inv [OF less.prems] unfolding run
        by (cases "parse6_digit (name ! i) p") simp_all
    qed
  qed
qed

lemma parse6_ipv4_done_ok:
  assumes "length (p6_bytes p) = 16" "p6_num_blocks p \<le> 8" "\<And>c. p6_compress_pos p = Some c \<Longrightarrow> c \<le> p6_num_blocks p"
  shows "\<exists>r. parse6_ipv4_done p = Inr r \<and> (\<forall>b. r = Some b \<longrightarrow> length b = 16)"
proof (cases "p6_compress_pos p = None \<and> p6_num_blocks p \<noteq> 8")
  case True
  then show ?thesis by (simp add: parse6_ipv4_done_def)
next
  case False
  define c where "c = (case p6_compress_pos p of None \<Rightarrow> 0 | Some c \<Rightarrow> c)"
  define r where "r = p6_num_blocks p - c"
  have cr: "c + r \<le> 8" using assms(2,3) by (auto simp: c_def r_def split: option.splits)
  obtain rear where r1: "mem_read (p6_bytes p) (2 * c) (2 * r) = Inr rear" "length rear = 2 * r"
    using assms(1) cr by (simp add: mem_read_def)
  obtain b1 where b1: "mem_write (p6_bytes p) (2 * (8 - r)) rear = Inr b1"
    using assms(1) r1(2) cr by (cases "mem_write (p6_bytes p) (2 * (8 - r)) rear") (auto simp: mem_write_def split: if_splits)
  have l1: "length b1 = 16" using mem_write_length [OF b1] assms(1) by simp
  obtain b2 where b2: "mem_write b1 (2 * c) (replicate (2 * (8 - r - c)) 0) = Inr b2"
    using l1 cr by (cases "mem_write b1 (2 * c) (replicate (2 * (8 - r - c)) 0)") (auto simp: mem_write_def split: if_splits)
  have "parse6_ipv4_done p = Inr (Some b2)"
    using r1(1) b1 b2 unfolding parse6_ipv4_done_def Let_def c_def [symmetric] r_def [symmetric] using False by auto
  then show ?thesis using mem_write_length [OF b2] l1 by simp
qed

lemma back_to_colon_ok: "j < i \<Longrightarrow> i \<le> length name \<Longrightarrow> name ! j = CHR '':'' \<Longrightarrow> \<exists>k. back_to_colon name i = Inr k \<and> k \<le> i"
  by (induction i) (auto simp: less_Suc_eq le_Suc_eq)

lemma parse6_ipv4_loop_ok:
  "length (p4_bytes q) = 4 \<Longrightarrow> p4_cur_byte q \<le> 3 \<Longrightarrow>
     \<exists>r. parse6_ipv4_loop name i q = Inr r \<and> (\<forall>q'. r = Some q' \<longrightarrow> length (p4_bytes q') = 4 \<and> p4_cur_byte q' \<le> 3)"
proof (induction "length name - i" arbitrary: i q rule: less_induct)
  case (less i q)
  show ?case
  proof (cases "i < length name")
    case False
    then show ?thesis using less.prems by (subst parse6_ipv4_loop.simps) simp
  next
    case i: True
    then have k: "length name - (i + 1) < length name - i" by simp
    show ?thesis
    proof (cases "name ! i = CHR ''.''")
      case True
      have "mem_write (p4_bytes q) (p4_cur_byte q) [p4_byte q] = Inr ((p4_bytes q)[p4_cur_byte q := p4_byte q])"
        using less.prems by (simp add: mem_write_def upd_conv_take_nth_drop)
      then have run: "parse6_ipv4_loop name i q = (if p4_empty q \<or> p4_cur_byte q = 3 then Inr None
          else parse6_ipv4_loop name (i + 1) (q\<lparr>p4_bytes := (p4_bytes q)[p4_cur_byte q := p4_byte q],
            p4_cur_byte := Suc (p4_cur_byte q), p4_byte := 0, p4_empty := True\<rparr>))"
        using i True by (subst parse6_ipv4_loop.simps) simp
      show ?thesis unfolding run using less.prems
        by (cases "p4_empty q \<or> p4_cur_byte q = 3") (simp, simp only: if_False, intro less.hyps [OF k], simp_all)
    next
      case False
      let ?d = "decode_decimal_digit (name ! i)"
      have run: "parse6_ipv4_loop name i q =
          (if (\<not> p4_empty q \<and> p4_byte q = 0) \<or> ?d < 0 \<or> p4_byte q > 255 div 10 \<or> of_int ?d > 255 - p4_byte q * 10 then Inr None
           else parse6_ipv4_loop name (i + 1) (q\<lparr>p4_byte := p4_byte q * 10 + of_int ?d, p4_empty := False\<rparr>))"
        using i False by (subst parse6_ipv4_loop.simps) (simp add: Let_def)
      show ?thesis unfolding run
        using less.prems less.hyps [OF k, of "q\<lparr>p4_byte := p4_byte q * 10 + of_int ?d, p4_empty := False\<rparr>"] by simp
    qed
  qed
qed

lemma ipaddr6_parse_in_bounds:
  assumes "length out = 16"
  shows "\<exists>r. ipaddr6_parse_ipv6_addr_bin name out = Inr r \<and> (\<forall>b. r = Some b \<longrightarrow> length b = 16)"
proof -
  let ?p = "\<lparr> p6_bytes = out, p6_num_blocks = 0, p6_compress_pos = None, p6_block = 0, p6_empty = True \<rparr>"
  have "p6_inv name 0 ?p" using assms by (simp add: p6_inv_def)
  from parse6_loop_ok [OF this] obtain r where r: "parse6_loop name 0 ?p = Inr r"
    "\<And>q. r = P6_end q \<Longrightarrow> \<exists>k. p6_inv name k q" "\<And>k q. r = P6_ipv4 k q \<Longrightarrow> k \<le> length name \<and> p6_inv name k q" by blast
  show ?thesis
  proof (cases r)
    case P6_fail
    then show ?thesis using r(1) by (simp add: ipaddr6_parse_ipv6_addr_bin_def)
  next
    case (P6_end q)
    then have q: "length (p6_bytes q) = 16" "p6_num_blocks q \<le> 7" "\<And>c. p6_compress_pos q = Some c \<Longrightarrow> c \<le> p6_num_blocks q"
      using r(2) by (auto simp: p6_inv_def)
    obtain b where "put_block q = Inr (q\<lparr>p6_bytes := b, p6_num_blocks := Suc (p6_num_blocks q)\<rparr>)" "length b = 16"
      using put_block_ok q by blast
    then show ?thesis using P6_end r(1) q parse6_ipv4_done_ok [of q] parse6_ipv4_done_ok [of "q\<lparr>p6_bytes := b, p6_num_blocks := Suc (p6_num_blocks q)\<rparr>"]
      by (auto simp: ipaddr6_parse_ipv6_addr_bin_def le_SucI)
  next
    case (P6_ipv4 k q)
    then have q: "p6_inv name k q" using r(3) by simp
    have "\<exists>r. parse6_ipv4_ending name k q = Inr r \<and> (\<forall>b. r = Some b \<longrightarrow> length b = 16)"
    proof (cases "p6_empty q \<or> (p6_num_blocks q = 0 \<and> p6_compress_pos q = None)")
      case False
      then obtain j where "j < k" "name ! j = CHR '':''" using q by (auto simp: p6_inv_def)
      moreover have "k \<le> length name" using P6_ipv4 r(3) by simp
      ultimately obtain m where m: "back_to_colon name k = Inr m" using back_to_colon_ok by blast
      obtain r4 where r4: "parse6_ipv4_loop name m \<lparr> p4_bytes = replicate 4 0, p4_cur_byte = 0, p4_byte = 0, p4_empty = True \<rparr> = Inr r4"
        "\<And>q'. r4 = Some q' \<Longrightarrow> length (p4_bytes q') = 4 \<and> p4_cur_byte q' \<le> 3"
        using parse6_ipv4_loop_ok [of "\<lparr> p4_bytes = replicate 4 0, p4_cur_byte = 0, p4_byte = 0, p4_empty = True \<rparr>" name m] by auto
      show ?thesis
      proof (cases "r4 = None \<or> p4_cur_byte (the r4) \<noteq> 3 \<or> p4_empty (the r4) \<or> p6_num_blocks q > 6")
        case True
        then show ?thesis using False m r4 by (auto simp: parse6_ipv4_ending_def mem_write_def split: option.split)
      next
        case f: False
        then obtain q' where q': "r4 = Some q'" "p4_cur_byte q' = 3" "\<not> p4_empty q'" "p6_num_blocks q \<le> 6" by auto
        define b4 where "b4 = take 3 (p4_bytes q') @ [p4_byte q']"
        define b where "b = take (2 * p6_num_blocks q) (p6_bytes q) @ b4 @ drop (2 * p6_num_blocks q + 4) (p6_bytes q)"
        have w: "mem_write (p4_bytes q') 3 [p4_byte q'] = Inr b4" "length b4 = 4" using r4(2) [OF q'(1)] by (auto simp: mem_write_def b4_def)
        then have w2: "mem_write (p6_bytes q) (2 * p6_num_blocks q) b4 = Inr b" "length b = 16"
          using q q'(4) by (auto simp: mem_write_def b_def p6_inv_def)
        have "parse6_ipv4_ending name k q = parse6_ipv4_done (q\<lparr>p6_bytes := b, p6_num_blocks := p6_num_blocks q + 2\<rparr>)"
          using False m r4(1) q' w w2 by (auto simp: parse6_ipv4_ending_def)
        moreover have "c \<le> p6_num_blocks q + 2" if "p6_compress_pos q = Some c" for c using q that by (auto simp: p6_inv_def)
        ultimately show ?thesis using parse6_ipv4_done_ok [of "q\<lparr>p6_bytes := b, p6_num_blocks := p6_num_blocks q + 2\<rparr>"] q'(4) w2(2)
          by simp
      qed
    qed (simp add: parse6_ipv4_ending_def)
    then show ?thesis using P6_ipv4 r(1) by (simp add: ipaddr6_parse_ipv6_addr_bin_def)
  qed
qed

subsection \<open>Parsing what was printed\<close>

lemma is_hex_not_special: "is_hex c \<Longrightarrow> c \<noteq> CHR ''.''" "is_hex c \<Longrightarrow> c \<noteq> CHR '':''"
  by (auto simp: is_hex_def decode_hex_digit_def)

lemma parse6_digit_step:
  assumes "is_hex c" "16 * unat (p6_block p) + nat (decode_hex_digit c) < 65536"
  shows "parse6_digit c p = Some (p\<lparr>p6_block := of_nat (16 * unat (p6_block p) + nat (decode_hex_digit c)), p6_empty := False\<rparr>)"
proof -
  define d where "d = nat (decode_hex_digit c)"
  define k where "k = unat (p6_block p)"
  have dd: "decode_hex_digit c = int d" using assms(1) by (simp add: is_hex_def d_def)
  have d: "d < 16" using decode_hex_digit_less [of c] dd by simp
  have k: "16 * k + d < 65536" using assms(2) by (simp add: k_def d_def)
  have b: "p6_block p = of_nat k" by (simp add: k_def)
  have uk: "unat (of_nat k :: u16) = k" "unat (of_nat (16 * k) :: u16) = 16 * k" "unat (of_nat d :: u16) = d"
    using k d by (simp_all only: unat_of_nat_u16)
  have 1: "\<not> (of_nat k :: u16) > 0xFFFF div 16" using uk(1) k by (simp add: word_less_nat_alt unat_div)
  have "unat (0xFFFF - of_nat (16 * k) :: u16) = 65535 - 16 * k" using uk(2) k by (subst unat_sub) (simp_all add: word_le_nat_alt)
  then have 2: "\<not> (of_nat d :: u16) > 0xFFFF - of_nat (16 * k)" using uk(3) k by (simp add: word_less_nat_alt)
  have 3: "of_nat k * 16 = (of_nat (16 * k) :: u16)" by (simp add: mult.commute)
  have 4: "(of_nat (16 * k) + of_nat d :: u16) = of_nat (16 * k + d)" "of_int (int d) = (of_nat d :: u16)" by simp_all
  show ?thesis unfolding parse6_digit_def Let_def dd b 3 4 using 1 2 by (simp only: if_False of_nat_less_0_iff uk(1) nat_int)
qed

lemma parse6_hex_run:
  "list_all is_hex h \<Longrightarrow> hex_fold (unat (p6_block p)) h < 65536 \<Longrightarrow>
     parse6_loop (pre @ h @ suf) (length pre) p = parse6_loop (pre @ h @ suf) (length pre + length h)
       (p\<lparr>p6_block := of_nat (hex_fold (unat (p6_block p)) h), p6_empty := p6_empty p \<and> h = []\<rparr>)"
proof (induction h arbitrary: pre p)
  case (Cons c h)
  define k where "k = 16 * unat (p6_block p) + nat (decode_hex_digit c)"
  have f: "hex_fold (unat (p6_block p)) (c # h) = hex_fold k h" by (simp add: k_def)
  have k: "k < 65536" using hex_fold_ge [of k h] Cons.prems(2) unfolding f by simp
  define q where "q = p\<lparr>p6_block := of_nat k, p6_empty := False\<rparr>"
  have c: "is_hex c" using Cons.prems(1) by simp
  have q: "parse6_digit c p = Some q" using parse6_digit_step [OF c] k by (simp add: q_def k_def)
  have u: "unat (p6_block q) = k" using k by (simp add: q_def unat_of_nat_u16)
  have "parse6_loop (pre @ (c # h) @ suf) (length pre) p = parse6_loop (pre @ (c # h) @ suf) (length pre + 1) q"
    using is_hex_not_special [OF c] q by (subst parse6_loop_eq) (simp add: nth_append)
  also have "\<dots> = parse6_loop ((pre @ [c]) @ h @ suf) (length (pre @ [c])) q" by simp
  also have "\<dots> = parse6_loop ((pre @ [c]) @ h @ suf) (length (pre @ [c]) + length h)
      (q\<lparr>p6_block := of_nat (hex_fold (unat (p6_block q)) h), p6_empty := p6_empty q \<and> h = []\<rparr>)"
    by (rule Cons.IH) (use Cons.prems u f in simp_all)
  finally show ?case unfolding u f by (simp add: q_def)
qed simp

definition blk16 :: "u16 \<Rightarrow> bytes" where
  "blk16 w = [ucast (drop_bit 8 w), ucast (w AND 0xFF)]"

definition hx :: "u16 \<Rightarrow> string" where
  "hx w = print_hex (unat w)"

definition written :: "parse6 \<Rightarrow> bytes \<Rightarrow> bool" where
  "written p bs \<longleftrightarrow> length (p6_bytes p) = 16 \<and> take (2 * p6_num_blocks p) (p6_bytes p) = bs \<and> p6_num_blocks p \<le> 8"

lemma put_block_written:
  assumes "written p bs" "p6_num_blocks p \<le> 7"
  shows "\<exists>b. put_block p = Inr (p\<lparr>p6_bytes := b, p6_num_blocks := Suc (p6_num_blocks p)\<rparr>) \<and>
    written (p\<lparr>p6_bytes := b, p6_num_blocks := Suc (p6_num_blocks p)\<rparr>) (bs @ blk16 (p6_block p))"
proof -
  let ?n = "2 * p6_num_blocks p"
  define b where "b = take ?n (p6_bytes p) @ blk16 (p6_block p) @ drop (?n + 2) (p6_bytes p)"
  have "length (p6_bytes p) = 16" "take ?n (p6_bytes p) = bs" using assms by (simp_all add: written_def)
  then have "mem_write (p6_bytes p) ?n (blk16 (p6_block p)) = Inr b" "length b = 16" "take (?n + 2) b = bs @ blk16 (p6_block p)"
    using assms(2) by (auto simp: mem_write_def b_def blk16_def)
  then show ?thesis using assms(2) by (intro exI [of _ b]) (simp add: put_block_def blk16_def written_def)
qed

fun join_colon :: "string list \<Rightarrow> string" where
  "join_colon [] = []"
| "join_colon [h] = h"
| "join_colon (h # hs) = h @ CHR '':'' # join_colon hs"

lemma hx_hex [simp]: "list_all is_hex (hx w)" "hx w \<noteq> []" "hex_fold 0 (hx w) = unat w"
  by (simp_all add: hx_def print_hex_digits print_hex_value)

lemma hd_hx: "is_hex (hd (hx w))" "is_hex (hx w ! 0)"
  using hx_hex(1,2) [of w] by (cases "hx w"; simp)+

lemma hd_join_colon: "ws \<noteq> [] \<Longrightarrow> join_colon (map hx ws) \<noteq> [] \<and> is_hex (join_colon (map hx ws) ! 0)"
  using hd_hx by (cases ws; cases "tl ws") (auto simp: nth_append neq_Nil_conv)

text \<open>A single colon between two blocks, and a compression.\<close>

lemma parse6_single_colon:
  assumes "written p bs" "p6_num_blocks p < 7" "\<not> p6_empty p" "pre \<noteq> []" "suf \<noteq> []" "suf ! 0 \<noteq> CHR '':''"
  shows "\<exists>q. parse6_loop (pre @ CHR '':'' # suf) (length pre) p = parse6_loop (pre @ CHR '':'' # suf) (length pre + 1) q \<and>
    written q (bs @ blk16 (p6_block p)) \<and> p6_num_blocks q = Suc (p6_num_blocks p) \<and> p6_compress_pos q = p6_compress_pos p \<and>
    p6_block q = 0 \<and> p6_empty q"
proof -
  obtain b where b: "put_block p = Inr (p\<lparr>p6_bytes := b, p6_num_blocks := Suc (p6_num_blocks p)\<rparr>)"
    "written (p\<lparr>p6_bytes := b, p6_num_blocks := Suc (p6_num_blocks p)\<rparr>) (bs @ blk16 (p6_block p))"
    using put_block_written [OF assms(1)] assms(2) by auto
  let ?q = "p\<lparr>p6_bytes := b, p6_num_blocks := Suc (p6_num_blocks p), p6_block := 0, p6_empty := True\<rparr>"
  have "parse6_colon (length pre) False p = Inr (Some ?q)" using b(1) assms(2-4) by (simp add: parse6_colon_def)
  then have "parse6_loop (pre @ CHR '':'' # suf) (length pre) p = parse6_loop (pre @ CHR '':'' # suf) (length pre + 1) ?q"
    using assms(5,6) by (subst parse6_loop_eq) (simp add: nth_append Let_def)
  then show ?thesis using b(2) by (intro exI [of _ ?q]) (simp add: written_def)
qed

lemma parse6_double_colon:
  assumes w: "written p bs" and n: "p6_num_blocks p < 7" and c: "p6_compress_pos p = None"
    and pre: "(pre = [] \<and> bs' = bs \<and> n' = p6_num_blocks p \<and> p6_block p = 0 \<and> p6_empty p) \<or>
      (pre \<noteq> [] \<and> \<not> p6_empty p \<and> bs' = bs @ blk16 (p6_block p) \<and> n' = Suc (p6_num_blocks p))"
  shows "\<exists>q. parse6_loop (pre @ ''::'' @ suf) (length pre) p = parse6_loop (pre @ ''::'' @ suf) (length pre + 2) q \<and>
    written q bs' \<and> p6_num_blocks q = n' \<and> p6_compress_pos q = Some n' \<and> p6_block q = 0 \<and> p6_empty q"
proof -
  have "\<exists>q. parse6_colon (length pre) True p = Inr (Some q) \<and> written q bs' \<and> p6_num_blocks q = n' \<and> p6_compress_pos q = Some n' \<and>
    p6_block q = 0 \<and> p6_empty q"
  proof (cases "pre = []")
    case True
    then show ?thesis using assms by (simp add: parse6_colon_def written_def)
  next
    case False
    obtain b where b: "put_block p = Inr (p\<lparr>p6_bytes := b, p6_num_blocks := Suc (p6_num_blocks p)\<rparr>)"
      "written (p\<lparr>p6_bytes := b, p6_num_blocks := Suc (p6_num_blocks p)\<rparr>) (bs @ blk16 (p6_block p))"
      using put_block_written [OF w] n by auto
    then show ?thesis using False pre n c by (simp add: parse6_colon_def written_def)
  qed
  then obtain q where q: "parse6_colon (length pre) True p = Inr (Some q)" "written q bs'" "p6_num_blocks q = n'"
    "p6_compress_pos q = Some n'" "p6_block q = 0" "p6_empty q" by blast
  have "parse6_loop (pre @ ''::'' @ suf) (length pre) p = parse6_loop (pre @ ''::'' @ suf) (length pre + 2) q"
    using q(1) by (subst parse6_loop_eq) (simp add: nth_append Let_def)
  then show ?thesis using q by auto
qed

text \<open>Blocks with colons between them: all but the last are written, the last is in \<open>block\<close>.\<close>

lemma parse6_blocks:
  "ws \<noteq> [] \<Longrightarrow> written p bs \<Longrightarrow> p6_block p = 0 \<Longrightarrow> p6_empty p \<Longrightarrow> p6_num_blocks p + length ws \<le> 8 \<Longrightarrow>
     name = pre @ join_colon (map hx ws) @ suf \<Longrightarrow>
     \<exists>q. parse6_loop name (length pre) p = parse6_loop name (length pre + length (join_colon (map hx ws))) q \<and>
       written q (bs @ concat (map blk16 (butlast ws))) \<and> p6_num_blocks q = p6_num_blocks p + length ws - 1 \<and>
       p6_compress_pos q = p6_compress_pos p \<and> p6_block q = last ws \<and> \<not> p6_empty q"
proof (induction ws arbitrary: pre p bs)
  case (Cons w ws)
  have run: "parse6_loop (pre @ hx w @ r) (length pre) p = parse6_loop (pre @ hx w @ r) (length pre + length (hx w))
      (p\<lparr>p6_block := w, p6_empty := False\<rparr>)" for r
    using parse6_hex_run [of "hx w" p pre r] Cons.prems(3,4) by simp
  have w: "written (p\<lparr>p6_block := w, p6_empty := False\<rparr>) bs" using Cons.prems(2) by (simp add: written_def)
  show ?case
  proof (cases ws)
    case Nil
    then show ?thesis using run [of suf] w Cons.prems by (intro exI [of _ "p\<lparr>p6_block := w, p6_empty := False\<rparr>"]) simp
  next
    case (Cons v vs)
    let ?suf = "join_colon (map hx ws) @ suf"
    have j: "join_colon (map hx (w # ws)) = hx w @ CHR '':'' # join_colon (map hx ws)" by (simp add: Cons)
    have hd: "?suf \<noteq> []" "?suf ! 0 \<noteq> CHR '':''" using hd_join_colon [of ws] Cons is_hex_not_special by (auto simp: nth_append)
    have n: "p6_num_blocks p < 7" using Cons.prems(5) Cons by simp
    have name: "name = (pre @ hx w) @ CHR '':'' # ?suf" "name = pre @ hx w @ CHR '':'' # ?suf"
      "name = (pre @ hx w @ '':'') @ join_colon (map hx ws) @ suf" using Cons.prems(6) unfolding j by simp_all
    obtain q where q: "parse6_loop name (length (pre @ hx w)) (p\<lparr>p6_block := w, p6_empty := False\<rparr>) = parse6_loop name (length (pre @ hx w) + 1) q"
      "written q (bs @ blk16 w)" "p6_num_blocks q = Suc (p6_num_blocks p)" "p6_compress_pos q = p6_compress_pos p" "p6_block q = 0" "p6_empty q"
      using parse6_single_colon [OF w, of "pre @ hx w" ?suf] n hd unfolding name(1) [symmetric] by auto
    have len: "p6_num_blocks q + length ws \<le> 8" using q(3) Cons.prems(5) by simp
    obtain q2 where q2: "parse6_loop name (length (pre @ hx w @ '':'')) q =
        parse6_loop name (length (pre @ hx w @ '':'') + length (join_colon (map hx ws))) q2"
      "written q2 ((bs @ blk16 w) @ concat (map blk16 (butlast ws)))" "p6_num_blocks q2 = p6_num_blocks q + length ws - 1"
      "p6_compress_pos q2 = p6_compress_pos q" "p6_block q2 = last ws" "\<not> p6_empty q2"
      using Cons.IH [OF _ q(2) q(5,6) len name(3)] Cons by auto
    have "parse6_loop name (length pre) p = parse6_loop name (length pre + length (hx w)) (p\<lparr>p6_block := w, p6_empty := False\<rparr>)"
      using run [of "CHR '':'' # ?suf"] unfolding name(2) [symmetric] .
    then show ?thesis using q q2 Cons by (intro exI [of _ q2]) (simp add: add.assoc)
  qed
qed simp

lemma parse6_loop_end: "parse6_loop name (length name) p = Inr (P6_end p)"
  by (subst parse6_loop_eq) simp

text \<open>The blocks behind the compression are moved to the end.\<close>

lemma parse6_done_all:
  "written p bs \<Longrightarrow> p6_compress_pos p = None \<Longrightarrow> p6_num_blocks p = 8 \<Longrightarrow> parse6_ipv4_done p = Inr (Some bs)"
  by (auto simp: parse6_ipv4_done_def written_def Let_def mem_read_def mem_write_def)

lemma parse6_done_compress:
  assumes "written p (front @ rear)" "length front = 2 * c" "p6_compress_pos p = Some c" "c \<le> p6_num_blocks p"
  shows "parse6_ipv4_done p = Inr (Some (front @ replicate (2 * (8 - p6_num_blocks p)) 0 @ rear))"
proof -
  define n where "n = p6_num_blocks p"
  define B where "B = p6_bytes p"
  have B: "length B = 16" "take (2 * n) B = front @ rear" "n \<le> 8" "c \<le> n" using assms by (simp_all add: written_def B_def n_def)
  have len: "length rear = 2 * (n - c)" using arg_cong [OF B(2), of length] B(1,3,4) assms(2) by simp
  have front: "take (2 * c) B = front"
  proof -
    have "take (2 * c) (take (2 * n) B) = front" using B(2) assms(2) by simp
    then show ?thesis using B(4) by (simp add: min_def)
  qed
  have "drop (2 * c) (take (2 * n) B) = rear" using B(2) assms(2) by simp
  then have rear: "take (2 * (n - c)) (drop (2 * c) B) = rear" by (simp add: drop_take diff_mult_distrib2)
  define B1 where "B1 = take (2 * (8 - (n - c))) B @ rear"
  have 1: "mem_read B (2 * c) (2 * (n - c)) = Inr rear" using B(1,3,4) rear by (simp add: mem_read_def)
  have 2: "mem_write B (2 * (8 - (n - c))) rear = Inr B1" using B(1,3,4) len by (simp add: mem_write_def B1_def)
  have m: "c \<le> 8 - (n - c)" using B(3,4) by arith
  have t: "take (2 * c) B1 = front" "drop (2 * (8 - (n - c))) B1 = rear"
    using front B(1) len m by (simp_all add: B1_def min_absorb1)
  have l1: "length B1 = 16" using B(1,3) len by (simp add: B1_def)
  have 3: "mem_write B1 (2 * c) (replicate (2 * (8 - (n - c) - c)) 0) = Inr (front @ replicate (2 * (8 - n)) 0 @ rear)"
  proof -
    have e: "2 * c + 2 * (8 - (n - c) - c) = 2 * (8 - (n - c))" "8 - (n - c) - c = 8 - n" using B(3,4) by arith+
    show ?thesis using t l1 e by (simp add: mem_write_def)
  qed
  show ?thesis using 1 2 3 assms(3) unfolding parse6_ipv4_done_def Let_def n_def [symmetric] B_def [symmetric] by simp
qed

lemma length_blk16 [simp]: "length (blk16 w) = 2"
  by (simp add: blk16_def)

lemma length_concat_blk16 [simp]: "length (concat (map blk16 ws)) = 2 * length ws"
  by (induction ws) simp_all

lemma concat_butlast_last: "ws \<noteq> [] \<Longrightarrow> concat (map blk16 (butlast ws)) @ blk16 (last ws) = concat (map blk16 ws)"
  by (induction ws) auto

text \<open>The blocks of the whole address, and an address with a run of zeros left out.\<close>

lemma parse6_whole:
  assumes "length out = 16" "length ws = 8"
  shows "ipaddr6_parse_ipv6_addr_bin (join_colon (map hx ws)) out = Inr (Some (concat (map blk16 ws)))"
proof -
  let ?p = "\<lparr> p6_bytes = out, p6_num_blocks = 0, p6_compress_pos = None, p6_block = 0, p6_empty = True \<rparr>"
  let ?name = "join_colon (map hx ws)"
  have ne: "ws \<noteq> []" using assms(2) by auto
  obtain q where q: "parse6_loop ?name 0 ?p = parse6_loop ?name (length ?name) q" "written q (concat (map blk16 (butlast ws)))"
    "p6_num_blocks q = 7" "p6_compress_pos q = None" "p6_block q = last ws" "\<not> p6_empty q"
    using parse6_blocks [OF ne, of ?p "[]" ?name "[]" "[]"] assms by (auto simp: written_def)
  obtain b where "put_block q = Inr (q\<lparr>p6_bytes := b, p6_num_blocks := 8\<rparr>)" "written (q\<lparr>p6_bytes := b, p6_num_blocks := 8\<rparr>) (concat (map blk16 ws))"
    using put_block_written [OF q(2)] q(3,5) concat_butlast_last [OF ne] by auto
  then show ?thesis using q parse6_done_all [of "q\<lparr>p6_bytes := b, p6_num_blocks := 8\<rparr>"]
    by (simp add: ipaddr6_parse_ipv6_addr_bin_def parse6_loop_end)
qed

lemma parse6_front:
  assumes p: "written p []" "p6_num_blocks p = 0" "p6_compress_pos p = None" "p6_block p = 0" "p6_empty p"
    and len: "length us \<le> 6" and name: "name = join_colon (map hx us) @ ''::'' @ v"
  obtains q where "parse6_loop name 0 p = parse6_loop name (length (join_colon (map hx us)) + 2) q" "written q (concat (map blk16 us))"
    "p6_num_blocks q = length us" "p6_compress_pos q = Some (length us)" "p6_block q = 0" "p6_empty q"
proof (cases "us = []")
  case True
  have "(([] :: string) = [] \<and> ([] :: bytes) = [] \<and> 0 = p6_num_blocks p \<and> p6_block p = 0 \<and> p6_empty p) \<or>
      (([] :: string) \<noteq> [] \<and> \<not> p6_empty p \<and> [] = [] @ blk16 (p6_block p) \<and> 0 = Suc (p6_num_blocks p))" using p by simp
  from parse6_double_colon [OF p(1) _ p(3) this, of v] obtain q where
    "parse6_loop name 0 p = parse6_loop name (Suc (Suc 0)) q" "written q []" "p6_num_blocks q = 0" "p6_compress_pos q = Some 0" "p6_block q = 0" "p6_empty q"
    using p(2) True name by auto
  then show ?thesis using that [of q] True by (simp add: numeral_2_eq_2)
next
  case False
  let ?u = "join_colon (map hx us)"
  have u: "?u \<noteq> []" using hd_join_colon [OF False] by simp
  have l: "p6_num_blocks p + length us \<le> 8" using p(2) len by simp
  from parse6_blocks [OF False p(1,4,5) l, of name "[]" "''::'' @ v"] name obtain r where
    r: "parse6_loop name 0 p = parse6_loop name (length ?u) r" "written r (concat (map blk16 (butlast us)))"
      "p6_num_blocks r = length us - 1" "p6_compress_pos r = None" "p6_block r = last us" "\<not> p6_empty r"
    using p(2,3) by auto
  have n: "p6_num_blocks r < 7" "length us = Suc (p6_num_blocks r)" using r(3) len False by (cases us; simp)+
  have "(?u = [] \<and> concat (map blk16 us) = concat (map blk16 (butlast us)) \<and> length us = p6_num_blocks r \<and> p6_block r = 0 \<and> p6_empty r) \<or>
      (?u \<noteq> [] \<and> \<not> p6_empty r \<and> concat (map blk16 us) = concat (map blk16 (butlast us)) @ blk16 (p6_block r) \<and> length us = Suc (p6_num_blocks r))"
    using u n(2) r(5,6) concat_butlast_last [OF False] by simp
  from parse6_double_colon [OF r(2) n(1) r(4) this, of v] obtain q where
    "parse6_loop name (length ?u) r = parse6_loop name (length ?u + 2) q" "written q (concat (map blk16 us))"
    "p6_num_blocks q = length us" "p6_compress_pos q = Some (length us)" "p6_block q = 0" "p6_empty q"
    unfolding name [symmetric] by blast
  then show ?thesis using that [of q] r(1) by simp
qed

lemma parse6_compressed:
  assumes out: "length out = 16" and len: "length us + length vs \<le> 6"
  shows "ipaddr6_parse_ipv6_addr_bin (join_colon (map hx us) @ ''::'' @ join_colon (map hx vs)) out =
    Inr (Some (concat (map blk16 us) @ replicate (2 * (8 - (length us + length vs))) 0 @ concat (map blk16 vs)))"
proof -
  define p where "p = \<lparr> p6_bytes = out, p6_num_blocks = 0, p6_compress_pos = None, p6_block = 0, p6_empty = True \<rparr>"
  define u where "u = join_colon (map hx us)"
  define v where "v = join_colon (map hx vs)"
  define name where "name = u @ ''::'' @ v"
  have p: "written p []" "p6_num_blocks p = 0" "p6_compress_pos p = None" "p6_block p = 0" "p6_empty p"
    using out by (simp_all add: written_def p_def)
  have lu: "length us \<le> 6" using len by simp
  obtain q where q: "parse6_loop name 0 p = parse6_loop name (length u + 2) q" "written q (concat (map blk16 us))"
    "p6_num_blocks q = length us" "p6_compress_pos q = Some (length us)" "p6_block q = 0" "p6_empty q"
    using parse6_front [OF p lu name_def [unfolded u_def]] unfolding u_def by blast
  have "ipaddr6_parse_ipv6_addr_bin name out = Inr (Some (concat (map blk16 us) @ replicate (2 * (8 - (length us + length vs))) 0 @ concat (map blk16 vs)))"
  proof (cases "vs = []")
    case True
    then have "length name = length u + 2" by (simp add: name_def v_def)
    then have "parse6_loop name 0 p = Inr (P6_end q)" using q(1) parse6_loop_end [of name q] by simp
    then show ?thesis using q(2-6) True parse6_done_compress [of q "concat (map blk16 us)" "[]" "length us"]
      by (simp add: ipaddr6_parse_ipv6_addr_bin_def p_def)
  next
    case False
    have nm: "name = (u @ ''::'') @ join_colon (map hx vs) @ []" by (simp add: name_def v_def)
    have l: "p6_num_blocks q + length vs \<le> 8" using q(3) len by simp
    obtain r where r: "parse6_loop name (length u + 2) q = parse6_loop name (length name) r"
      "written r (concat (map blk16 us) @ concat (map blk16 (butlast vs)))" "p6_num_blocks r = length us + length vs - 1"
      "p6_compress_pos r = Some (length us)" "p6_block r = last vs" "\<not> p6_empty r"
      using parse6_blocks [OF False q(2) q(5,6) l nm] q(3,4) by (auto simp: name_def v_def)
    have n: "Suc (p6_num_blocks r) = length us + length vs" "p6_num_blocks r \<le> 7" using r(3) len False by (cases vs; simp)+
    define n where "n = length us + length vs"
    obtain b where b: "put_block r = Inr (r\<lparr>p6_bytes := b, p6_num_blocks := n\<rparr>)"
      "written (r\<lparr>p6_bytes := b, p6_num_blocks := n\<rparr>) (concat (map blk16 us) @ concat (map blk16 vs))"
      using put_block_written [OF r(2) n(2)] r(5) n(1) concat_butlast_last [OF False] by (auto simp: n_def)
    have "parse6_loop name 0 p = Inr (P6_end r)" using q(1) r(1) parse6_loop_end [of name r] by simp
    moreover have "parse6_ipv4_done (r\<lparr>p6_bytes := b, p6_num_blocks := n\<rparr>) =
        Inr (Some (concat (map blk16 us) @ replicate (2 * (8 - n)) 0 @ concat (map blk16 vs)))"
      using parse6_done_compress [OF b(2), of "length us"] r(4) by (simp add: n_def)
    ultimately show ?thesis using r(6) b(1) by (simp add: ipaddr6_parse_ipv6_addr_bin_def p_def n_def)
  qed
  then show ?thesis by (simp add: name_def u_def v_def)
qed

subsection \<open>The printer\<close>

lemma zero_run_ok:
  "let z = fold (zero_run_step addr) [0..<n] \<lparr> largest_start = 0, largest_len = 0, current_start = 0, current_len = 0 \<rparr> in
   current_start z + current_len z = n \<and> largest_start z + largest_len z \<le> n \<and>
   (\<forall>i. (current_start z \<le> i \<and> i < current_start z + current_len z) \<or> (largest_start z \<le> i \<and> i < largest_start z + largest_len z) \<longrightarrow>
      addr ! (2 * i) = 0 \<and> addr ! (2 * i + 1) = 0)"
proof (induction n)
  case (Suc n)
  obtain z where z: "fold (zero_run_step addr) [0..<n] \<lparr> largest_start = 0, largest_len = 0, current_start = 0, current_len = 0 \<rparr> = z" by simp
  show ?case using Suc unfolding upt_Suc_append [OF le0] fold_append comp_def z Let_def
    by (auto simp: zero_run_step_def Let_def less_Suc_eq le_SucI)
qed simp

lemma largest_run_ok:
  "largest_start (largest_run addr) + largest_len (largest_run addr) \<le> 8"
  "largest_start (largest_run addr) \<le> i \<Longrightarrow> i < largest_start (largest_run addr) + largest_len (largest_run addr) \<Longrightarrow>
     addr ! (2 * i) = 0 \<and> addr ! (2 * i + 1) = 0"
  using zero_run_ok [of addr 8] unfolding Let_def largest_run_def [symmetric] by blast+

lemma concat_join_colon:
  "concat (map (\<lambda>i. hx (f i) @ '':'') xs) = (if xs = [] then [] else join_colon (map hx (map f xs)) @ '':'')"
  "concat (map (\<lambda>i. '':'' @ hx (f i)) xs) = (if xs = [] then [] else '':'' @ join_colon (map hx (map f xs)))"
proof -
  have "concat (map (\<lambda>i. hx (f i) @ '':'') (x # ys)) = join_colon (map hx (map f (x # ys))) @ '':''" for x ys
    by (induction ys arbitrary: x) auto
  then show "concat (map (\<lambda>i. hx (f i) @ '':'') xs) = (if xs = [] then [] else join_colon (map hx (map f xs)) @ '':'')"
    by (cases xs) auto
  have "concat (map (\<lambda>i. '':'' @ hx (f i)) (x # ys)) = '':'' @ join_colon (map hx (map f (x # ys)))" for x ys
    by (induction ys arbitrary: x) auto
  then show "concat (map (\<lambda>i. '':'' @ hx (f i)) xs) = (if xs = [] then [] else '':'' @ join_colon (map hx (map f xs)))"
    by (cases xs) auto
qed

definition addr_blocks :: "bytes \<Rightarrow> nat \<Rightarrow> nat \<Rightarrow> u16 list" where
  "addr_blocks addr i j = map (addr_block addr) [i..<j]"

lemma ipaddr6_print_addr_join:
  "ipaddr6_print_addr addr =
     (let s = largest_start (largest_run addr); l = largest_len (largest_run addr) in
      if l > 1 then join_colon (map hx (addr_blocks addr 0 s)) @ ''::'' @ join_colon (map hx (addr_blocks addr (s + l) 8))
      else join_colon (map hx (addr_blocks addr 0 8)))"
proof -
  let ?s = "largest_start (largest_run addr)" and ?l = "largest_len (largest_run addr)"
  have e: "?s + ?l \<le> 8" by (rule largest_run_ok(1))
  have "concat (map (\<lambda>i. (if i = 0 then [] else '':'') @ hx (addr_block addr i)) [0..<8]) = join_colon (map hx (addr_blocks addr 0 8))"
    by (simp add: addr_blocks_def upt_rec numeral_eq_Suc)
  then show ?thesis using e unfolding ipaddr6_print_addr_def Let_def hx_def [symmetric] concat_join_colon
    by (auto simp: addr_blocks_def)
qed

lemma blk16_addr_block: "blk16 (addr_block addr i) = [addr ! (2 * i), addr ! (2 * i + 1)]"
proof -
  have "addr_block addr i = u16_of_bytes (addr ! (2 * i + 1)) (addr ! (2 * i))"
    by (simp add: addr_block_def u16_of_bytes_def join_or16 add.commute or.commute)
  moreover have "ucast (w AND 0xFF) = (ucast w :: u8)" for w :: u16
  proof -
    have m: "(0xFF :: u16) = mask 8" by (simp add: mask_eq_exp_minus_1)
    show ?thesis unfolding m by (intro bit_word_eqI) (auto simp: bit_ucast_iff bit_and_iff bit_mask_iff)
  qed
  ultimately show ?thesis using split_bytes16 [of "addr ! (2 * i + 1)" "addr ! (2 * i)"] by (simp add: blk16_def u16_bytes_def)
qed

lemma concat_addr_blocks: "j \<le> 8 \<Longrightarrow> length addr = 16 \<Longrightarrow> i \<le> j \<Longrightarrow> concat (map blk16 (addr_blocks addr i j)) = take (2 * (j - i)) (drop (2 * i) addr)"
proof (induction j)
  case (Suc j)
  show ?case
  proof (cases "i = Suc j")
    case False
    then have i: "i \<le> j" using Suc.prems by simp
    have "drop (2 * i) addr ! (2 * (j - i)) = addr ! (2 * j)" "drop (2 * i) addr ! (Suc (2 * (j - i))) = addr ! (Suc (2 * j))"
      using i Suc.prems by (simp_all add: diff_mult_distrib2)
    moreover have "2 * (Suc j - i) = Suc (Suc (2 * (j - i)))" using i by simp
    ultimately have "take (2 * (Suc j - i)) (drop (2 * i) addr) = take (2 * (j - i)) (drop (2 * i) addr) @ [addr ! (2 * j), addr ! (2 * j + 1)]"
      using i Suc.prems by (simp add: take_Suc_conv_app_nth)
    then show ?thesis using Suc i by (simp add: addr_blocks_def blk16_addr_block)
  qed (simp add: addr_blocks_def)
qed (simp add: addr_blocks_def)

lemma ipaddr6_parse_print:
  assumes "length addr = 16" "length out = 16"
  shows "ipaddr6_parse_ipv6_addr_bin (ipaddr6_print_addr addr) out = Inr (Some addr)"
proof -
  define sr where "sr = largest_start (largest_run addr)"
  define l where "l = largest_len (largest_run addr)"
  have e: "sr + l \<le> 8" "\<And>i. sr \<le> i \<Longrightarrow> i < sr + l \<Longrightarrow> addr ! (2 * i) = 0 \<and> addr ! (2 * i + 1) = 0"
    using largest_run_ok [of addr] by (simp_all add: sr_def l_def)
  have len: "length (addr_blocks addr i j) = j - i" for i j by (simp add: addr_blocks_def)
  show ?thesis
  proof (cases "l > 1")
    case True
    have z: "concat (map blk16 (addr_blocks addr sr (sr + l))) = replicate (2 * l) 0"
    proof -
      have "map blk16 (addr_blocks addr sr (sr + l)) = replicate l [0, 0]"
        using e(2) by (intro replicate_eqI) (auto simp: addr_blocks_def blk16_addr_block)
      moreover have "concat (replicate l [0, 0]) = replicate (2 * l) (0 :: u8)" by (induction l) simp_all
      ultimately show ?thesis by simp
    qed
    have "addr_blocks addr 0 sr @ addr_blocks addr sr (sr + l) @ addr_blocks addr (sr + l) 8 = addr_blocks addr 0 8"
    proof -
      have "[0..<8] = [0..<sr] @ [sr..<sr + l] @ [sr + l..<8]"
        using upt_add_eq_append [of 0 sr l] upt_add_eq_append [of 0 "sr + l" "8 - (sr + l)"] e(1) by simp
      then show ?thesis by (simp only: addr_blocks_def map_append)
    qed
    from arg_cong [OF this, of "\<lambda>ws. concat (map blk16 ws)"]
    have "concat (map blk16 (addr_blocks addr 0 sr)) @ replicate (2 * l) 0 @ concat (map blk16 (addr_blocks addr (sr + l) 8)) = addr"
      using concat_addr_blocks [of 8 addr 0] assms(1) z by simp
    moreover have "8 - (length (addr_blocks addr 0 sr) + length (addr_blocks addr (sr + l) 8)) = l" using e(1) len by simp
    ultimately show ?thesis using parse6_compressed [OF assms(2), of "addr_blocks addr 0 sr" "addr_blocks addr (sr + l) 8"] True e(1) len
      by (simp add: ipaddr6_print_addr_join Let_def sr_def [symmetric] l_def [symmetric])
  next
    case False
    then show ?thesis using parse6_whole [OF assms(2), of "addr_blocks addr 0 8"] concat_addr_blocks [of 8 addr 0] assms(1) len
      by (simp add: ipaddr6_print_addr_join Let_def l_def [symmetric])
  qed
qed

lemma hx_length: "length (hx w) \<le> 4"
  using print_num_length [of 16 "unat w" 3] unat_u16_less [of w] by (simp add: hx_def)

lemma join_colon_length: "length (join_colon (map hx ws)) + 1 \<le> 5 * length ws + (if ws = [] then 1 else 0)"
proof (induction ws)
  case (Cons w ws)
  then show ?case using hx_length [of w] by (cases ws) auto
qed simp

lemma ipaddr6_print_length: "length (ipaddr6_print_addr addr) \<le> 39"
proof -
  let ?s = "largest_start (largest_run addr)" and ?l = "largest_len (largest_run addr)"
  have e: "?s + ?l \<le> 8" by (rule largest_run_ok(1))
  have len: "length (addr_blocks addr i j) = j - i" for i j by (simp add: addr_blocks_def)
  show ?thesis
    using e len join_colon_length [of "addr_blocks addr 0 8"] join_colon_length [of "addr_blocks addr 0 ?s"]
      join_colon_length [of "addr_blocks addr (?s + ?l) 8"]
    by (auto simp: ipaddr6_print_addr_join Let_def addr_blocks_def split: if_splits)
qed

text \<open>Addresses with a prefix.\<close>

lemma find_char_append: "c \<notin> set xs \<Longrightarrow> find_char_loop (xs @ c # ys) c i = Some (i + length xs)"
  by (induction xs arbitrary: i) auto

lemma no_slash_dec: "CHR ''/'' \<notin> set (print_dec n)"
  using print_dec_digits [of n] by (auto simp: list_all_iff is_dec_def)

lemma no_slash_hx: "CHR ''/'' \<notin> set (hx w)"
  using hx_hex(1) [of w] by (auto simp: list_all_iff is_hex_def decode_hex_digit_def)

lemma set_join_colon: "set (join_colon hs) \<subseteq> insert CHR '':'' (\<Union> (set ` set hs))"
  by (induction hs rule: join_colon.induct) auto

lemma no_slash_join: "CHR ''/'' \<notin> set (join_colon (map hx ws))"
  using set_join_colon [of "map hx ws"] no_slash_hx by auto

lemma no_slash_ipv6: "CHR ''/'' \<notin> set (ipaddr6_print_addr addr)"
  using no_slash_join by (auto simp: ipaddr6_print_addr_join Let_def)

lemma no_slash_ipv4: "CHR ''/'' \<notin> set (ipaddr_print_addr addr)"
  using no_slash_dec by (simp add: ipaddr_print_addr_def Let_def)

lemma parse_print_prefix: "n \<le> 128 \<Longrightarrow> parse_unsigned_integer_bin (print_dec n) = Some (of_nat n) \<and> unat (of_nat n :: u64) = n \<and>
    uint (of_nat n :: u64) = int n"
  using parse_print_dec [of n] by (simp add: unsigned_of_nat take_bit_nat_eq_self uint_nat)

text \<open>
  C35: the parser of IPv4 addresses accepts exactly four decimal bytes of at most three digits separated by
  dots, and what it accepts is the address with these bytes. An address or an interface address that was printed is
  read back, in at most the characters the buffer for it has.
\<close>

theorem ipv4_text_exact:
  assumes "n \<le> 32"
  shows "ipaddr_parse_ipv4_addr_bin name = dotted_quad name \<and>
    ipaddr_parse_ipv4_addr_bin (ipaddr_print_addr addr) = Some addr \<and>
    (\<exists>str. ipaddr_print_ifaddr \<lparr> ifaddr4_addr = addr, ifaddr4_prefix = int n \<rparr> = Inr str \<and> length str < 19 \<and>
       ipaddr_parse_ipv4_ifaddr_bin str = Some \<lparr> ifaddr4_addr = addr, ifaddr4_prefix = int n \<rparr>) \<and>
    (\<exists>m. ipaddr_ipv4_mask_from_prefix (int n) = Inr m \<and> ipaddr_ipv4_prefix_from_mask m = Some (int n) \<and>
       ipaddr_ipv4_ifaddr_from_addr_mask addr m = Some \<lparr> ifaddr4_addr = addr, ifaddr4_prefix = int n \<rparr>)"
proof -
  let ?a = "ipaddr_print_addr addr"
  have len: "length (print_dec (unat b)) \<le> 3" for b :: u8 using print_num_length [of 10 "unat b" 2] unat_byte_less [of b] by simp
  have 1: "ipaddr_print_ifaddr \<lparr> ifaddr4_addr = addr, ifaddr4_prefix = int n \<rparr> = Inr (?a @ CHR ''/'' # print_dec n)"
    using assms by (simp add: ipaddr_print_ifaddr_def ipaddr_print_addr_def Let_def)
  have 2: "length (?a @ CHR ''/'' # print_dec n) < 19"
    using len [of "ucast addr"] len [of "ucast (drop_bit 8 addr)"] len [of "ucast (drop_bit 16 addr)"] len [of "ucast (drop_bit 24 addr)"]
      print_num_length [of 10 n 1] assms by (simp add: ipaddr_print_addr_def Let_def u32_bytes_def)
  have 3: "ipaddr_parse_ipv4_ifaddr_bin (?a @ CHR ''/'' # print_dec n) = Some \<lparr> ifaddr4_addr = addr, ifaddr4_prefix = int n \<rparr>"
    using find_char_append [OF no_slash_ipv4, of addr "print_dec n" 0] dotted_quad_print [of addr] parse_print_prefix [of n] assms
    by (simp add: ipaddr_parse_ipv4_ifaddr_bin_def b_find_char_bin_def ipaddr_parse_ipv4_addr_bin_eq ipaddr_parse_ipv4_prefix_bin_def
        word_less_nat_alt)
  show ?thesis using 1 2 3 ipv4_mask_prefix [OF assms] dotted_quad_print [of addr]
    by (simp add: ipaddr_parse_ipv4_addr_bin_eq ipaddr_ipv4_ifaddr_from_addr_mask_def)
qed

theorem ipv4_text_exact_witness:
  "\<exists>str. ipaddr_print_ifaddr \<lparr> ifaddr4_addr = 0x0100000A, ifaddr4_prefix = int 24 \<rparr> = Inr str \<and> length str < 19 \<and>
     ipaddr_parse_ipv4_ifaddr_bin str = Some \<lparr> ifaddr4_addr = 0x0100000A, ifaddr4_prefix = int 24 \<rparr>"
proof -
  have "(24 :: nat) \<le> 32" by simp
  from ipv4_text_exact [OF this] show ?thesis by blast
qed

text \<open>
  C34: whatever the string, the parser of IPv6 addresses never reads a character before or behind it (every read of the string faults outside of it), never
  writes outside of the sixteen bytes of the result, and ends.
\<close>

theorem ipaddr6_parse_safe:
  assumes "length out = 16"
  shows "\<exists>r. ipaddr6_parse_ipv6_addr_bin name out = Inr r \<and> (\<forall>b. r = Some b \<longrightarrow> length b = 16)"
  by (rule ipaddr6_parse_in_bounds [OF assms])

theorem ipaddr6_parse_safe_witness:
  "ipaddr6_parse_ipv6_addr_bin ''::ffff:10.0.0.1'' (replicate 16 7) =
     Inr (Some [0, 0, 0, 0, 0, 0, 0, 0, 0, 0, 255, 255, 10, 0, 0, 1])"
proof -
  have r: "ipaddr6_parse_ipv6_addr_bin ''::ffff:10.0.0.1'' (replicate 16 7) =
     Inr (Some [0, 0, 0, 0, 0, 0, 0, 0, 0, 0, 255, 255, 10, 0, 0, 1])" by code_simp
  show ?thesis using ipaddr6_parse_safe [of "replicate 16 7" "''::ffff:10.0.0.1''"] r by simp
qed

text \<open>
  C33: an IPv6 address that was printed, with its longest run of zero blocks left out, is read back as the
  same sixteen bytes, and so is an address with a prefix; neither is longer than the buffer for it. The mask of
  a prefix gives the prefix back.
\<close>

theorem ipv6_text_roundtrip:
  assumes "length addr = 16" "length out = 16" "n \<le> 128"
  shows "ipaddr6_parse_ipv6_addr_bin (ipaddr6_print_addr addr) out = Inr (Some addr) \<and>
    (\<exists>str. ipaddr6_print_ifaddr \<lparr> ifaddr6_addr = addr, ifaddr6_prefix = int n \<rparr> = Inr str \<and> length str < 44 \<and>
       ipaddr6_parse_ipv6_ifaddr_bin str out = Inr (Some \<lparr> ifaddr6_addr = addr, ifaddr6_prefix = int n \<rparr>)) \<and>
    (\<exists>m. ipaddr6_ipv6_mask_from_prefix (int n) = Inr m \<and>
       ipaddr6_ipv6_ifaddr_from_addr_mask addr m = Some \<lparr> ifaddr6_addr = addr, ifaddr6_prefix = int n \<rparr>)"
proof -
  let ?a = "ipaddr6_print_addr addr"
  have p: "ipaddr6_parse_ipv6_addr_bin ?a out = Inr (Some addr)" by (rule ipaddr6_parse_print [OF assms(1,2)])
  have 1: "ipaddr6_print_ifaddr \<lparr> ifaddr6_addr = addr, ifaddr6_prefix = int n \<rparr> = Inr (?a @ CHR ''/'' # print_dec n)"
    using assms(3) by (simp add: ipaddr6_print_ifaddr_def)
  have 2: "length (?a @ CHR ''/'' # print_dec n) < 44"
    using ipaddr6_print_length [of addr] print_num_length [of 10 n 2] assms(3) by simp
  have "(of_nat n :: u64) > 128 \<longleftrightarrow> n > 128" using parse_print_prefix [OF assms(3)] by (simp add: word_less_nat_alt)
  then have 3: "ipaddr6_parse_ipv6_ifaddr_bin (?a @ CHR ''/'' # print_dec n) out = Inr (Some \<lparr> ifaddr6_addr = addr, ifaddr6_prefix = int n \<rparr>)"
    using find_char_append [OF no_slash_ipv6, of addr "print_dec n" 0] p parse_print_prefix [OF assms(3)] assms(3)
    by (simp add: ipaddr6_parse_ipv6_ifaddr_bin_def b_find_char_bin_def ipaddr6_parse_ipv6_prefix_bin_def)
  show ?thesis using p 1 2 3 ipv6_mask_prefix [OF assms(3)] by (simp add: ipaddr6_ipv6_ifaddr_from_addr_mask_def)
qed

theorem ipv6_text_roundtrip_witness:
  "ipaddr6_parse_ipv6_addr_bin (ipaddr6_print_addr [0x20, 1, 0x0d, 0xb8, 0, 0, 0, 0, 0, 0, 0, 1, 0, 0, 0, 7]) (replicate 16 9) =
     Inr (Some [0x20, 1, 0x0d, 0xb8, 0, 0, 0, 0, 0, 0, 0, 1, 0, 0, 0, 7])"
proof -
  let ?a = "[0x20, 1, 0x0d, 0xb8, 0, 0, 0, 0, 0, 0, 0, 1, 0, 0, 0, 7] :: bytes"
  have "length ?a = 16" "length (replicate 16 (9 :: u8)) = 16" "(64 :: nat) \<le> 128" by simp_all
  from ipv6_text_roundtrip [OF this] show ?thesis by (rule conjunct1)
qed

subsection \<open>Addresses with a port\<close>

lemma split_addr_port_ipv4:
  "list_all (\<lambda>c. c \<noteq> CHR '':'') a \<Longrightarrow> a \<noteq> [] \<Longrightarrow> a ! 0 \<noteq> CHR ''['' \<Longrightarrow> split_addr_port (a @ CHR '':'' # p) = Some (False, a, p)"
  by (simp add: split_addr_port_def Let_def takeWhile_all_append nth_append)

lemma no_colon_dec: "list_all (\<lambda>c. c \<noteq> CHR '':'') (print_dec n)"
  using print_dec_digits [of n] by (auto simp: list_all_iff is_dec_def)

lemma no_colon_ipv4: "list_all (\<lambda>c. c \<noteq> CHR '':'') (ipaddr_print_addr addr)"
  using no_colon_dec by (simp add: ipaddr_print_addr_def Let_def)

lemma ipaddr_print_addr_head: "ipaddr_print_addr addr \<noteq> [] \<and> ipaddr_print_addr addr ! 0 \<noteq> CHR ''[''"
proof -
  obtain c cs where "print_dec (unat (u32_bytes addr ! 0)) = c # cs" "is_dec c"
    using print_dec_digits [of "unat (u32_bytes addr ! 0)"] by (cases "print_dec (unat (u32_bytes addr ! 0))") auto
  then show ?thesis using is_dec_not_special(7) [of c] by (simp add: ipaddr_print_addr_def Let_def)
qed

lemma strtol10_print: "strtol10 (print_dec n) = (int n, [])"
proof -
  obtain c cs where p: "print_dec n = c # cs" "is_dec c" using print_dec_digits [of n] by (cases "print_dec n") auto
  then have 1: "dropWhile is_space (c # cs) = c # cs" using is_dec_not_special(4) by simp
  have 2: "takeWhile is_dec (c # cs) = c # cs" "dropWhile is_dec (c # cs) = []"
    using print_dec_digits [of n] by (simp_all add: list_all_iff p)
  show ?thesis unfolding p(1) strtol10_def Let_def 1 using is_dec_not_special(5,6) [OF p(2)] print_dec_value [of n]
    by (simp add: 2 dec_value_fold p(1) del: takeWhile.simps dropWhile.simps)
qed

lemma strtol10_rest: "CHR '':'' \<in> set str \<Longrightarrow> snd (strtol10 str) \<noteq> []"
proof -
  assume c: "CHR '':'' \<in> set str"
  have d: "dropWhile P xs \<noteq> []" if "CHR '':'' \<in> set xs" "\<not> P CHR '':''" for P xs using that by (auto simp: dropWhile_eq_Nil_conv)
  define s where "s = dropWhile is_space str"
  have s: "CHR '':'' \<in> set s" unfolding s_def using c by (induction str) (auto simp: is_space_def)
  then have "CHR '':'' \<in> set (tl s)" if "hd s = CHR ''-'' \<or> hd s = CHR ''+''" using that by (cases s) auto
  then show ?thesis using s c d [of _ is_dec] by (auto simp: strtol10_def Let_def s_def [symmetric] is_dec_def)
qed

lemma BAddr_Parse2_colons:
  assumes "split_addr_port str = Some (v6, a, p)" "CHR '':'' \<in> set p"
  shows "BAddr_Parse2 getaddrinfo str name noresolve = None"
  using strtol10_rest [OF assms(2)] assms(1) by (auto simp: BAddr_Parse2_def split: prod.split)

lemma BIPAddr_Print_IPv6_join: "BIPAddr_Print (BIPAddr_IPv6 ip) = join_colon (map hx (addr_blocks ip 0 8))"
  by (simp add: Let_def addr_blocks_def hx_def upt_rec numeral_eq_Suc)

lemma no_colon_hx: "list_all (\<lambda>c. c \<noteq> CHR '':'') (hx w)"
  using hx_hex(1) [of w] is_hex_not_special(2) by (auto simp: list_all_iff)

text \<open>
  C37: reading a printed address with a port. For an IPv4 address, with a resolver that knows the dotted notation, the result
  is the address that was printed. An IPv6 address is printed without the brackets that \<open>BAddr_Parse2\<close> asks for, and no
  such string is accepted, whatever the resolver does.
\<close>

theorem BAddr_Print_Parse:
  assumes "\<And>a. getaddrinfo False noresolve (ipaddr_print_addr a) = Some (u32_bytes a)"
  shows "(\<exists>str. BAddr_Print (BAddr_IPv4 ip port) = Inr str \<and> length str < 120 \<and>
      BAddr_Parse2 getaddrinfo str None noresolve = Some (BAddr_IPv4 ip port, ipaddr_print_addr ip)) \<and>
    (\<exists>str. BAddr_Print (BAddr_IPv6 ip6 port) = Inr str \<and> length str < 120 \<and> BAddr_Parse2 getaddrinfo str name noresolve = None)"
proof -
  let ?a = "ipaddr_print_addr ip" and ?p = "print_dec (unat (ntoh16 port))"
  have len: "length (print_dec (unat b)) \<le> 3" for b :: u8 using print_num_length [of 10 "unat b" 2] unat_byte_less [of b] by simp
  have pl: "length ?p \<le> 5" using print_num_length [of 10 "unat (ntoh16 port)" 4] unat_u16_less [of "ntoh16 port"] by simp
  have al: "length ?a \<le> 15"
    using len [of "ucast ip"] len [of "ucast (drop_bit 8 ip)"] len [of "ucast (drop_bit 16 ip)"] len [of "ucast (drop_bit 24 ip)"]
    by (simp add: ipaddr_print_addr_def Let_def u32_bytes_def)
  have pr: "BAddr_Print (BAddr_IPv4 ip port) = Inr (?a @ CHR '':'' # ?p)" by (simp add: ipaddr_print_addr_def Let_def)
  have sp: "split_addr_port (?a @ CHR '':'' # ?p) = Some (False, ?a, ?p)"
    using split_addr_port_ipv4 no_colon_ipv4 ipaddr_print_addr_head by blast
  have port: "hton16 (of_int (int (unat (ntoh16 port)))) = port" by (simp add: hton16_def ntoh16_def)
  have ipb: "u32_of_bytes (u32_bytes ip ! 0) (u32_bytes ip ! 1) (u32_bytes ip ! 2) (u32_bytes ip ! 3) = ip"
    using u32_bytes_inverse [of ip] by (simp add: u32_bytes_def)
  have "uint (ntoh16 port) \<le> 65535" using unat_u16_less [of "ntoh16 port"] unfolding uint_nat by linarith
  then have "BAddr_Parse2 getaddrinfo (?a @ CHR '':'' # ?p) None noresolve = Some (BAddr_IPv4 ip port, ?a)"
    using sp al pl port ipb assms [of ip] by (simp add: BAddr_Parse2_def strtol10_print del: of_int_of_nat_eq)
  then have r4: "\<exists>str. BAddr_Print (BAddr_IPv4 ip port) = Inr str \<and> length str < 120 \<and>
      BAddr_Parse2 getaddrinfo str None noresolve = Some (BAddr_IPv4 ip port, ?a)"
    using pr al pl by (intro exI [of _ "?a @ CHR '':'' # ?p"]) simp
  obtain w v ws where ws: "addr_blocks ip6 0 8 = w # v # ws" by (simp add: addr_blocks_def upt_rec)
  let ?s = "join_colon (map hx (w # v # ws)) @ CHR '':'' # ?p"
  have pr6: "BAddr_Print (BAddr_IPv6 ip6 port) = Inr ?s" using BIPAddr_Print_IPv6_join [of ip6] ws by simp
  have s6: "?s = hx w @ CHR '':'' # (join_colon (map hx (v # ws)) @ CHR '':'' # ?p)" by simp
  have "split_addr_port ?s = Some (False, hx w, join_colon (map hx (v # ws)) @ CHR '':'' # ?p)"
    unfolding s6 by (rule split_addr_port_ipv4) (use no_colon_hx hd_hx(2) [of w] in \<open>auto simp: is_hex_def decode_hex_digit_def\<close>)
  then have "BAddr_Parse2 getaddrinfo ?s name noresolve = None" by (rule BAddr_Parse2_colons) simp
  moreover have "length ?s < 120" using join_colon_length [of "w # v # ws"] ws [symmetric] pl by (simp add: addr_blocks_def)
  ultimately show ?thesis using pr6 r4 by blast
qed

definition ex_getaddrinfo :: "bool \<Rightarrow> bool \<Rightarrow> string \<Rightarrow> bytes option" where
  "ex_getaddrinfo v6 noresolve str = (if v6 then None else map_option u32_bytes (dotted_quad str))"

theorem BAddr_Print_Parse_witness:
  "\<exists>str. BAddr_Print (BAddr_IPv4 0x0100000A 0x5000) = Inr str \<and>
     BAddr_Parse2 ex_getaddrinfo str None True = Some (BAddr_IPv4 0x0100000A 0x5000, ipaddr_print_addr 0x0100000A)"
proof -
  have "ex_getaddrinfo False True (ipaddr_print_addr a) = Some (u32_bytes a)" for a by (simp add: ex_getaddrinfo_def dotted_quad_print)
  from BAddr_Print_Parse [of ex_getaddrinfo True, OF this] show ?thesis by blast
qed

end
