(* ===== verification/Tcp_Client.thy ===== *)
theory Tcp_Client
  imports Socks_Client Addr_Text
begin

section \<open>The TCP clients: \<^verbatim>\<open>tun2socks/tun2socks.c\<close>\<close>

text \<open>
  A \<^verbatim>\<open>struct tcp_client\<close> relays one TCP connection that lwIP has accepted: what the peer sends goes through \<open>buf\<close> to the
  SOCKS server, what the server sends goes through \<open>socks_recv_buf\<close> to the peer. Either side can end first, and then the other
  one is kept until it has been given all that is buffered. This theory models every handler of the client:
  those that lwIP calls (\<open>client_err_func\<close>, \<open>client_recv_func\<close>, \<open>client_sent_func\<close>, \<open>listener_accept_func\<close>), those that the SOCKS client and
  its streams call, and the functions that tear a client down, which call each other.

  The state of the model, \<open>world\<close>, is the client (absent before it is accepted and after it is freed), the protocol control
  block \<open>pcb\<close> that lwIP keeps for the connection, the SOCKS client with its two streams, the list and the number of clients, and the bytes
  that have passed each of the four ends. lwIP is third-party code: what its functions answer is given by the parameter \<open>lwip\<close>, on a state of
  a type of its own, and its callbacks are steps of the environment. \<^verbatim>\<open>SYNC_COMMIT\<close> runs the jobs that are pending, which are those of the
  SOCKS client; they are a list of steps given to the handler. A use of a freed client, of a freed control block or of a freed
  SOCKS client is a fault.
\<close>

subsection \<open>State\<close>

definition TCP_MSS :: nat where "TCP_MSS = 1460"
definition TCP_WND :: nat where "TCP_WND = 4 * TCP_MSS"
definition CLIENT_SOCKS_RECV_BUF_SIZE :: nat where "CLIENT_SOCKS_RECV_BUF_SIZE = 8192"
definition ERR_OK :: int where "ERR_OK = 0"
definition ERR_MEM :: int where "ERR_MEM = - 1"
definition ERR_ABRT :: int where "ERR_ABRT = - 10"

record tcp_client =
  tc_local_addr :: BAddr
  tc_remote_addr :: BAddr
  tc_client_closed :: bool
  tc_buf :: bytes
  tc_buf_used :: int
  tc_socks_username :: "string option"
  tc_socks_up :: bool
  tc_socks_closed :: bool
  tc_socks_recv_buf :: bytes
  tc_socks_recv_buf_used :: int
  tc_socks_recv_buf_sent :: int
  tc_socks_recv_waiting :: bool
  tc_socks_recv_tcp_pending :: int

text \<open>
  The control block: lwIP's own state, whether it is still ours, which callbacks are set, what was written to it and how much of
  what it delivered was confirmed with \<^verbatim>\<open>tcp_recved\<close>.
\<close>

record 'p pcb =
  pcb_state :: 'p
  pcb_alive :: bool
  pcb_aborted :: bool
  pcb_err :: bool
  pcb_recv :: bool
  pcb_sent :: bool
  pcb_written :: bytes
  pcb_recved :: int

text \<open>What lwIP's functions answer: the free space to send, and the results of writing, of output and of closing.\<close>

record 'p lwip =
  lw_sndbuf :: "'p \<Rightarrow> u16"
  lw_write :: "'p \<Rightarrow> bytes \<Rightarrow> 'p \<times> int"
  lw_output :: "'p \<Rightarrow> 'p \<times> int"
  lw_close :: "'p \<Rightarrow> int"

text \<open>
  \<open>w_auth_username\<close> is where the user name of the global \<^verbatim>\<open>socks_auth_info[1]\<close> points: \<open>None\<close> to the option, as \<^verbatim>\<open>main\<close> sets it, and
  \<open>Some (a, s)\<close> to the string \<open>s\<close> that the client at address \<open>a\<close> has allocated, which is freed with that client. \<open>w_socks_init\<close> is the SOCKS
  client as \<open>BSocksClient_Init\<close> has made it; what it does from then on is the theory \<open>Socks_Client\<close>, and the state \<open>w_socks\<close> here.
\<close>

datatype socks_obj = SO_none | SO_down | SO_up | SO_freed

record 'p world =
  w_client :: "tcp_client option"
  w_pcb :: "'p pcb"
  w_socks :: socks_obj
  w_send_if :: "int StreamPassInterface"
  w_recv_if :: "int StreamRecvInterface"
  w_self :: nat
  w_tcp_clients :: "nat list"
  w_num_clients :: int
  w_auth_username :: "(nat \<times> string) option"
  w_socks_init :: "BSocksClient option"
  w_dead_client :: bool
  w_from_client :: bytes
  w_to_socks :: bytes
  w_from_socks :: bytes
  w_acked :: int
  w_socks_error :: bool
  w_socks_eof :: bool
  w_client_end :: bool
  w_murdered :: bool

definition with_client :: "'p world \<Rightarrow> (tcp_client \<Rightarrow> 'b result) \<Rightarrow> 'b result" where
  "with_client w f = (case w_client w of None \<Rightarrow> Inl Out_of_bounds | Some c \<Rightarrow> f c)"

definition set_client :: "'p world \<Rightarrow> tcp_client \<Rightarrow> 'p world" where
  "set_client w c = w\<lparr>w_client := Some c\<rparr>"

text \<open>lwIP's functions on the control block.\<close>

definition tcp_op :: "'p world \<Rightarrow> ('p pcb \<Rightarrow> 'p pcb) \<Rightarrow> 'p world result" where
  "tcp_op w f = (if pcb_alive (w_pcb w) then Inr (w\<lparr>w_pcb := f (w_pcb w)\<rparr>) else Inl Out_of_bounds)"

text \<open>Removing the three callbacks, as the code does before it gives the control block up.\<close>

definition remove_callbacks :: "'p world \<Rightarrow> 'p world result" where
  "remove_callbacks w =
     andthen (tcp_op w (\<lambda>p. p\<lparr>pcb_err := False\<rparr>)) (\<lambda>w.
     andthen (tcp_op w (\<lambda>p. p\<lparr>pcb_recv := False\<rparr>)) (\<lambda>w.
     tcp_op w (\<lambda>p. p\<lparr>pcb_sent := False\<rparr>)))"

text \<open>\<^verbatim>\<open>tcp_abort\<close> would call the error callback if it were set.\<close>

definition tcp_abort :: "'p world \<Rightarrow> 'p world result" where
  "tcp_abort w = ASSERT (\<not> pcb_err (w_pcb w)) (tcp_op w (\<lambda>p. p\<lparr>pcb_alive := False, pcb_aborted := True\<rparr>))"

definition tcp_close :: "'p lwip \<Rightarrow> 'p world \<Rightarrow> ('p world \<times> int) result" where
  "tcp_close ops w =
     (let err = lw_close ops (pcb_state (w_pcb w)) in
      andthen (tcp_op w (\<lambda>p. if err = ERR_OK then p\<lparr>pcb_alive := False\<rparr> else p)) (\<lambda>w. Inr (w, err)))"

definition socks_Free :: "'p world \<Rightarrow> 'p world result" where
  "socks_Free w = (if w_socks w = SO_down \<or> w_socks w = SO_up then Inr (w\<lparr>w_socks := SO_freed\<rparr>) else Inl Out_of_bounds)"

subsection \<open>Tearing down\<close>

definition client_dealloc :: "'p world \<Rightarrow> 'p world result" where
  "client_dealloc w = with_client w (\<lambda>c.
     ASSERT (tc_client_closed c) (ASSERT (tc_socks_closed c) (ASSERT (w_num_clients w > 0)
     (if w_self w \<notin> set (w_tcp_clients w) then Inl Out_of_bounds
      else Inr (w\<lparr>w_num_clients := w_num_clients w - 1, w_tcp_clients := remove1 (w_self w) (w_tcp_clients w), w_client := None\<rparr>)))))"

text \<open>
  \<open>client_handle_freed_client\<close>, \<open>client_free_client\<close> and \<open>client_free_socks\<close> call each other; each sets one of the two sides closed before it
  goes on to the other, so the recursion ends.
\<close>

definition open_sides :: "'p world \<Rightarrow> nat" where
  "open_sides w = (case w_client w of None \<Rightarrow> 0
     | Some c \<Rightarrow> (if tc_client_closed c then 0 else 1) + (if tc_socks_closed c then 0 else 1))"

lemma andthen_cong [fundef_cong]: "r = r' \<Longrightarrow> (\<And>x. r' = Inr x \<Longrightarrow> f x = f' x) \<Longrightarrow> andthen r f = andthen r' f'"
  by (cases r') auto

lemma ASSERT_cong [fundef_cong]: "P = P' \<Longrightarrow> (P' \<Longrightarrow> r = r') \<Longrightarrow> ASSERT P r = ASSERT P' r'"
  by (simp add: ASSERT_def)

lemma with_client_cong [fundef_cong]:
  "w = w' \<Longrightarrow> (\<And>c. w_client w' = Some c \<Longrightarrow> f c = f' c) \<Longrightarrow> with_client w f = with_client w' f'"
  by (cases "w_client w'") (auto simp: with_client_def)

lemma tcp_op_client: "tcp_op w f = Inr w' \<Longrightarrow> w_client w' = w_client w"
  by (auto simp: tcp_op_def split: if_splits)

lemma remove_callbacks_client: "remove_callbacks w = Inr w' \<Longrightarrow> w_client w' = w_client w"
  by (auto simp: remove_callbacks_def result_simps dest!: tcp_op_client)

lemma tcp_abort_client: "tcp_abort w = Inr w' \<Longrightarrow> w_client w' = w_client w"
  by (auto simp: tcp_abort_def result_simps dest!: tcp_op_client)

lemma tcp_close_client: "tcp_close ops w = Inr (w', err) \<Longrightarrow> w_client w' = w_client w"
  by (auto simp: tcp_close_def result_simps Let_def dest!: tcp_op_client)

lemma socks_Free_client: "socks_Free w = Inr w' \<Longrightarrow> w_client w' = w_client w"
  by (auto simp: socks_Free_def split: if_splits)

lemmas keeps_client = tcp_op_client remove_callbacks_client tcp_abort_client tcp_close_client socks_Free_client

function client_handle_freed_client :: "'p lwip \<Rightarrow> 'p world \<Rightarrow> 'p world result"
  and client_free_client :: "'p lwip \<Rightarrow> 'p world \<Rightarrow> 'p world result"
  and client_free_socks :: "'p lwip \<Rightarrow> 'p world \<Rightarrow> 'p world result" where
  "client_handle_freed_client ops w = with_client w (\<lambda>c.
     ASSERT (\<not> tc_client_closed c)
     (let w = w\<lparr>w_dead_client := True\<rparr>;
          w = set_client w (c\<lparr>tc_client_closed := True\<rparr>) in
      if tc_buf_used c > 0 \<and> \<not> tc_socks_closed c then Inr w
      else if \<not> tc_socks_closed c then client_free_socks ops w
      else client_dealloc w))"
| "client_free_client ops w = with_client w (\<lambda>c.
     ASSERT (\<not> tc_client_closed c)
     (andthen (remove_callbacks w) (\<lambda>w.
      andthen (tcp_close ops w) (\<lambda>(w, err).
      andthen (if err \<noteq> ERR_OK then tcp_abort w else Inr w) (\<lambda>w.
      client_handle_freed_client ops w)))))"
| "client_free_socks ops w = with_client w (\<lambda>c.
     ASSERT (\<not> tc_socks_closed c)
     (andthen (if tc_socks_up c \<and> \<not> tc_client_closed c then tcp_op w (\<lambda>p. p\<lparr>pcb_recv := False\<rparr>) else Inr w) (\<lambda>w.
      andthen (socks_Free w) (\<lambda>w.
      let w = set_client w (c\<lparr>tc_socks_closed := True\<rparr>) in
      if tc_socks_up c \<and> (tc_socks_recv_buf_used c \<ge> 0 \<or> tc_socks_recv_tcp_pending c > 0) \<and> \<not> tc_client_closed c then Inr w
      else if \<not> tc_client_closed c then client_free_client ops w
      else client_dealloc w))))"
  by pat_completeness auto
termination
proof (relation "measure (\<lambda>x. case x of Inl (ops, w) \<Rightarrow> 3 * open_sides w
    | Inr (Inl (ops, w)) \<Rightarrow> 3 * open_sides w + 1 | Inr (Inr (ops, w)) \<Rightarrow> 3 * open_sides w)", goal_cases)
  case 1
  show ?case by simp
next
  case (2 ops w c x xa)
  then show ?case by (simp add: open_sides_def set_client_def)
next
  case (3 ops w c w1 x2 w2 err w3)
  then have "w_client w3 = w_client w" by (auto dest!: keeps_client split: if_splits)
  then show ?case by (simp add: open_sides_def)
next
  case (4 ops w c w1 w2 w3)
  then show ?case by (auto simp: open_sides_def set_client_def)
qed

declare client_handle_freed_client.simps [simp del] client_free_client.simps [simp del] client_free_socks.simps [simp del]

definition client_abort_client :: "'p lwip \<Rightarrow> 'p world \<Rightarrow> 'p world result" where
  "client_abort_client ops w = with_client w (\<lambda>c.
     ASSERT (\<not> tc_client_closed c)
     (andthen (remove_callbacks w) (\<lambda>w.
      andthen (tcp_abort w) (\<lambda>w. client_handle_freed_client ops w))))"

definition client_murder :: "'p world \<Rightarrow> 'p world result" where
  "client_murder w = with_client w (\<lambda>c.
     andthen (if \<not> tc_client_closed c
              then andthen (remove_callbacks w) (\<lambda>w.
                   andthen (tcp_abort w) (\<lambda>w.
                   Inr (set_client (w\<lparr>w_dead_client := True\<rparr>) (c\<lparr>tc_client_closed := True\<rparr>))))
              else Inr w) (\<lambda>w.
     with_client w (\<lambda>c.
     andthen (if \<not> tc_socks_closed c
              then andthen (socks_Free w) (\<lambda>w. Inr (set_client w (c\<lparr>tc_socks_closed := True\<rparr>)))
              else Inr w) client_dealloc)))"

definition client_err_func :: "'p lwip \<Rightarrow> 'p world \<Rightarrow> 'p world result" where
  "client_err_func ops w = with_client w (\<lambda>c.
     ASSERT (\<not> tc_client_closed c) (client_handle_freed_client ops w))"

subsection \<open>From the peer to SOCKS\<close>

text \<open>The streams of the SOCKS client are there while it is up.\<close>

definition socks_send :: "'p world \<Rightarrow> int \<Rightarrow> 'p world result" where
  "socks_send w len =
     (if w_socks w \<noteq> SO_up then Inl Out_of_bounds
      else andthen (StreamPassInterface_Sender_Send (w_send_if w) (Some 0) len) (\<lambda>i. Inr (w\<lparr>w_send_if := i\<rparr>)))"

definition client_send_to_socks :: "'p world \<Rightarrow> 'p world result" where
  "client_send_to_socks w = with_client w (\<lambda>c.
     ASSERT (\<not> tc_socks_closed c) (ASSERT (tc_socks_up c) (ASSERT (tc_buf_used c > 0)
     (socks_send w (tc_buf_used c)))))"

definition client_socks_send_handler_done :: "'p lwip \<Rightarrow> 'p world \<Rightarrow> int \<Rightarrow> 'p world result" where
  "client_socks_send_handler_done ops w data_len = with_client w (\<lambda>c.
     ASSERT (\<not> tc_socks_closed c) (ASSERT (tc_socks_up c) (ASSERT (tc_buf_used c > 0)
     (ASSERT (data_len > 0) (ASSERT (data_len \<le> tc_buf_used c)
     (andthen (mem_read (tc_buf c) (nat data_len) (nat (tc_buf_used c - data_len))) (\<lambda>rest.
      andthen (mem_write (tc_buf c) 0 rest) (\<lambda>b.
      let c = c\<lparr>tc_buf := b, tc_buf_used := tc_buf_used c - data_len\<rparr>; w = set_client w c in
      andthen (if \<not> tc_client_closed c then tcp_op w (\<lambda>p. p\<lparr>pcb_recved := pcb_recved p + data_len\<rparr>) else Inr w) (\<lambda>w.
      if tc_buf_used c > 0 then socks_send w (tc_buf_used c)
      else if tc_client_closed c then client_free_socks ops w
      else Inr w)))))))))"

subsection \<open>From SOCKS to the peer\<close>

definition client_socks_recv_initiate :: "'p world \<Rightarrow> 'p world result" where
  "client_socks_recv_initiate w = with_client w (\<lambda>c.
     ASSERT (\<not> tc_client_closed c) (ASSERT (\<not> tc_socks_closed c) (ASSERT (tc_socks_up c) (ASSERT (tc_socks_recv_buf_used c = - 1)
     (if w_socks w \<noteq> SO_up then Inl Out_of_bounds
      else andthen (StreamRecvInterface_Receiver_Recv (w_recv_if w) (Some 0) (int CLIENT_SOCKS_RECV_BUF_SIZE)) (\<lambda>i. Inr (w\<lparr>w_recv_if := i\<rparr>)))))))"

text \<open>
  The loop of \<open>client_socks_recv_send_out\<close> on the client and the control block; the boolean tells whether it is left to abort the
  client. What is to be written is never negative in the code; the loop condition says so for its termination.
\<close>

function send_out_loop :: "'p lwip \<Rightarrow> tcp_client \<Rightarrow> 'p pcb \<Rightarrow> (tcp_client \<times> 'p pcb \<times> bool) result" where
  "send_out_loop ops c p =
     (let to_write = min (tc_socks_recv_buf_used c - tc_socks_recv_buf_sent c) (uint (lw_sndbuf ops (pcb_state p))) in
      if to_write = 0 then Inr (c, p, False)
      else andthen (mem_read (tc_socks_recv_buf c) (nat (tc_socks_recv_buf_sent c)) (nat to_write)) (\<lambda>data.
      let (st, err) = lw_write ops (pcb_state p) data; p = p\<lparr>pcb_state := st\<rparr> in
      if err \<noteq> ERR_OK then Inr (c, p, err \<noteq> ERR_MEM)
      else
        let p = p\<lparr>pcb_written := pcb_written p @ data\<rparr>;
            c = c\<lparr>tc_socks_recv_buf_sent := tc_socks_recv_buf_sent c + to_write,
                  tc_socks_recv_tcp_pending := tc_socks_recv_tcp_pending c + to_write\<rparr> in
        if 0 < to_write \<and> tc_socks_recv_buf_sent c < tc_socks_recv_buf_used c then send_out_loop ops c p else Inr (c, p, False)))"
  by auto
termination
  by (relation "measure (\<lambda>(ops, c, p). nat (tc_socks_recv_buf_used c - tc_socks_recv_buf_sent c))") auto

declare send_out_loop.simps [simp del]

text \<open>The boolean is true where the code returns -1.\<close>

definition client_socks_recv_send_out :: "'p lwip \<Rightarrow> 'p world \<Rightarrow> ('p world \<times> bool) result" where
  "client_socks_recv_send_out ops w = with_client w (\<lambda>c.
     ASSERT (\<not> tc_client_closed c) (ASSERT (tc_socks_up c) (ASSERT (tc_socks_recv_buf_used c > 0)
     (ASSERT (tc_socks_recv_buf_sent c < tc_socks_recv_buf_used c) (ASSERT (\<not> tc_socks_recv_waiting c)
     (if \<not> pcb_alive (w_pcb w) then Inl Out_of_bounds
      else
        let abort = (\<lambda>w. andthen (client_abort_client ops w) (\<lambda>w. Inr (w, True))) in
        andthen (send_out_loop ops c (w_pcb w)) (\<lambda>(c, p, failed).
        let w = set_client (w\<lparr>w_pcb := p\<rparr>) c in
        if failed then abort w
        else
          let (st, err) = lw_output ops (pcb_state p); w = w\<lparr>w_pcb := p\<lparr>pcb_state := st\<rparr>\<rparr> in
          if err \<noteq> ERR_OK then abort w
          else if tc_socks_recv_buf_sent c < tc_socks_recv_buf_used c
          then (if tc_socks_recv_tcp_pending c = 0 then abort w
                else Inr (set_client w (c\<lparr>tc_socks_recv_waiting := True\<rparr>), False))
          else Inr (set_client w (c\<lparr>tc_socks_recv_buf_used := - 1\<rparr>), False))))))))"

definition client_socks_recv_handler_done :: "'p lwip \<Rightarrow> 'p world \<Rightarrow> int \<Rightarrow> 'p world result" where
  "client_socks_recv_handler_done ops w data_len = with_client w (\<lambda>c.
     ASSERT (data_len > 0) (ASSERT (data_len \<le> int CLIENT_SOCKS_RECV_BUF_SIZE)
     (ASSERT (\<not> tc_socks_closed c) (ASSERT (tc_socks_up c) (ASSERT (tc_socks_recv_buf_used c = - 1)
     (if tc_client_closed c then Inr w
      else
        let w = set_client w (c\<lparr>tc_socks_recv_buf_used := data_len, tc_socks_recv_buf_sent := 0, tc_socks_recv_waiting := False\<rparr>) in
        andthen (client_socks_recv_send_out ops w) (\<lambda>(w, killed).
        if killed then Inr w
        else with_client w (\<lambda>c. if tc_socks_recv_buf_used c = - 1 then client_socks_recv_initiate w else Inr w))))))))"

subsection \<open>Events of the SOCKS client\<close>

text \<open>
  \<open>BSocksClient_GetSendInterface\<close> and \<open>BSocksClient_GetRecvInterface\<close> give the streams of the connection, which have no user yet.
\<close>

definition client_socks_handler :: "'p lwip \<Rightarrow> 'p world \<Rightarrow> socks_event \<Rightarrow> 'p world result" where
  "client_socks_handler ops w event = with_client w (\<lambda>c.
     ASSERT (\<not> tc_socks_closed c)
     (case event of
        BSOCKSCLIENT_EVENT_ERROR \<Rightarrow> client_free_socks ops w
      | BSOCKSCLIENT_EVENT_UP \<Rightarrow>
          ASSERT (\<not> tc_socks_up c)
          (andthen (StreamPassInterface_Sender_Init (w_send_if w)) (\<lambda>si.
           andthen (StreamRecvInterface_Receiver_Init (w_recv_if w)) (\<lambda>ri.
           let w = w\<lparr>w_send_if := si, w_recv_if := ri\<rparr>;
               c = c\<lparr>tc_socks_recv_buf_used := - 1, tc_socks_recv_tcp_pending := 0\<rparr> in
           andthen (if \<not> tc_client_closed c then tcp_op w (\<lambda>p. p\<lparr>pcb_sent := True\<rparr>) else Inr w) (\<lambda>w.
           let c = c\<lparr>tc_socks_up := True\<rparr>; w = set_client w c in
           andthen (if tc_buf_used c > 0 then client_send_to_socks w else Inr w) (\<lambda>w.
           if \<not> tc_client_closed c then client_socks_recv_initiate w else Inr w)))))
      | BSOCKSCLIENT_EVENT_ERROR_CLOSED \<Rightarrow> ASSERT (tc_socks_up c) (client_free_socks ops w)))"

text \<open>
  The jobs of the SOCKS client: it reports an event, or its streams take an operation, complete it or call the done
  handler. A job that is not pending does nothing. The connection reports the end of the stream when it has found it while receiving.
\<close>

datatype tc_job = J_event socks_event | J_send_operation | J_sent nat | J_send_done | J_recv_operation | J_received bytes | J_recv_done

fun job_enabled :: "'p world \<Rightarrow> tc_job \<Rightarrow> bool" where
  "job_enabled w (J_event BSOCKSCLIENT_EVENT_ERROR) = (w_socks w = SO_down \<or> w_socks w = SO_up)"
| "job_enabled w (J_event BSOCKSCLIENT_EVENT_UP) = (w_socks w = SO_down)"
| "job_enabled w (J_event BSOCKSCLIENT_EVENT_ERROR_CLOSED) = (w_socks w = SO_up \<and> sri_state (w_recv_if w) = STATE_BUSY)"
| "job_enabled w J_send_operation = (w_socks w = SO_up \<and> spi_job_operation (w_send_if w))"
| "job_enabled w (J_sent k) = (w_socks w = SO_up \<and> spi_state (w_send_if w) = STATE_BUSY \<and> 0 < k \<and> int k \<le> spi_job_operation_len (w_send_if w))"
| "job_enabled w J_send_done = (w_socks w = SO_up \<and> spi_job_done (w_send_if w))"
| "job_enabled w J_recv_operation = (w_socks w = SO_up \<and> sri_job_operation (w_recv_if w))"
| "job_enabled w (J_received d) = (w_socks w = SO_up \<and> sri_state (w_recv_if w) = STATE_BUSY \<and> d \<noteq> [] \<and>
     int (length d) \<le> sri_job_operation_len (w_recv_if w))"
| "job_enabled w J_recv_done = (w_socks w = SO_up \<and> sri_job_done (w_recv_if w))"

fun job_run :: "'p lwip \<Rightarrow> 'p world \<Rightarrow> tc_job \<Rightarrow> 'p world result" where
  "job_run ops w (J_event e) =
     client_socks_handler ops
       (case e of BSOCKSCLIENT_EVENT_UP \<Rightarrow> w\<lparr>w_socks := SO_up, w_send_if := StreamPassInterface_Init, w_recv_if := StreamRecvInterface_Init\<rparr>
        | BSOCKSCLIENT_EVENT_ERROR \<Rightarrow> w\<lparr>w_socks_error := True\<rparr>
        | BSOCKSCLIENT_EVENT_ERROR_CLOSED \<Rightarrow> w\<lparr>w_socks_eof := True\<rparr>) e"
| "job_run ops w J_send_operation =
     andthen (StreamPassInterface_job_operation (w_send_if w)) (\<lambda>(i, _, _). Inr (w\<lparr>w_send_if := i\<rparr>))"
| "job_run ops w (J_sent k) = with_client w (\<lambda>c.
     case spi_job_operation_data (w_send_if w) of None \<Rightarrow> Inl Out_of_bounds
     | Some off \<Rightarrow> andthen (mem_read (tc_buf c) (nat off) k) (\<lambda>bs.
         andthen (StreamPassInterface_Done (w_send_if w) (int k)) (\<lambda>i.
         Inr (w\<lparr>w_send_if := i, w_to_socks := w_to_socks w @ bs\<rparr>))))"
| "job_run ops w J_send_done =
     andthen (StreamPassInterface_job_done (w_send_if w)) (\<lambda>(i, data_len). client_socks_send_handler_done ops (w\<lparr>w_send_if := i\<rparr>) data_len)"
| "job_run ops w J_recv_operation =
     andthen (StreamRecvInterface_job_operation (w_recv_if w)) (\<lambda>(i, _, _). Inr (w\<lparr>w_recv_if := i\<rparr>))"
| "job_run ops w (J_received d) = with_client w (\<lambda>c.
     case sri_job_operation_data (w_recv_if w) of None \<Rightarrow> Inl Out_of_bounds
     | Some off \<Rightarrow> andthen (mem_write (tc_socks_recv_buf c) (nat off) d) (\<lambda>b.
         andthen (StreamRecvInterface_Done (w_recv_if w) (int (length d))) (\<lambda>i.
         Inr (set_client (w\<lparr>w_recv_if := i, w_from_socks := w_from_socks w @ d\<rparr>) (c\<lparr>tc_socks_recv_buf := b\<rparr>)))))"
| "job_run ops w J_recv_done =
     andthen (StreamRecvInterface_job_done (w_recv_if w)) (\<lambda>(i, data_len). client_socks_recv_handler_done ops (w\<lparr>w_recv_if := i\<rparr>) data_len)"

text \<open>\<^verbatim>\<open>SYNC_COMMIT\<close> between \<^verbatim>\<open>DEAD_ENTER\<close> and \<^verbatim>\<open>DEAD_LEAVE2\<close>; the boolean is \<^verbatim>\<open>DEAD_KILLED\<close>.\<close>

fun run_jobs :: "'p lwip \<Rightarrow> 'p world \<Rightarrow> tc_job list \<Rightarrow> 'p world result" where
  "run_jobs ops w [] = Inr w"
| "run_jobs ops w (j # js) = andthen (if job_enabled w j then job_run ops w j else Inr w) (\<lambda>w. run_jobs ops w js)"

definition sync_commit :: "'p lwip \<Rightarrow> 'p world \<Rightarrow> tc_job list \<Rightarrow> ('p world \<times> bool) result" where
  "sync_commit ops w jobs = andthen (run_jobs ops (w\<lparr>w_dead_client := False\<rparr>) jobs) (\<lambda>w. Inr (w, w_dead_client w))"

subsection \<open>The callbacks of lwIP\<close>

text \<open>
  The result is the value returned and whether the buffer \<open>p\<close> was freed.
\<close>

definition client_recv_func :: "'p lwip \<Rightarrow> 'p world \<Rightarrow> bytes option \<Rightarrow> tc_job list \<Rightarrow> ('p world \<times> int \<times> bool) result" where
  "client_recv_func ops w p jobs = with_client w (\<lambda>c.
     ASSERT (\<not> tc_client_closed c)
     (case p of
        None \<Rightarrow> andthen (client_free_client ops w) (\<lambda>w. Inr (w, ERR_ABRT, True))
      | Some data \<Rightarrow>
          ASSERT (length data > 0)
          (if int (length data) > int TCP_WND - tc_buf_used c then Inr (w, ERR_MEM, False)
           else andthen (mem_write (tc_buf c) (nat (tc_buf_used c)) data) (\<lambda>b.
             let c = c\<lparr>tc_buf := b, tc_buf_used := tc_buf_used c + int (length data)\<rparr>;
                 w = set_client (w\<lparr>w_from_client := w_from_client w @ data\<rparr>) c in
             if tc_buf_used c = int (length data) \<and> tc_socks_up c
             then ASSERT (\<not> tc_socks_closed c)
               (andthen (client_send_to_socks w) (\<lambda>w.
                andthen (sync_commit ops w jobs) (\<lambda>(w, killed).
                if killed then Inr (w, ERR_ABRT, False) else Inr (w, ERR_OK, True))))
             else Inr (w, ERR_OK, True)))))"

definition client_sent_func :: "'p lwip \<Rightarrow> 'p world \<Rightarrow> int \<Rightarrow> tc_job list \<Rightarrow> ('p world \<times> int) result" where
  "client_sent_func ops w len jobs = with_client w (\<lambda>c.
     ASSERT (\<not> tc_client_closed c) (ASSERT (tc_socks_up c) (ASSERT (len > 0) (ASSERT (len \<le> tc_socks_recv_tcp_pending c)
     (let c = c\<lparr>tc_socks_recv_tcp_pending := tc_socks_recv_tcp_pending c - len\<rparr>; w = set_client w c in
      if tc_socks_recv_buf_used c > 0
      then ASSERT (tc_socks_recv_waiting c) (ASSERT (tc_socks_recv_buf_sent c < tc_socks_recv_buf_used c)
        (let w = set_client w (c\<lparr>tc_socks_recv_waiting := False\<rparr>) in
         andthen (client_socks_recv_send_out ops w) (\<lambda>(w, killed).
         if killed then Inr (w, ERR_ABRT)
         else with_client w (\<lambda>c.
           ASSERT (tc_socks_recv_tcp_pending c > 0)
           (if tc_socks_recv_buf_used c = - 1 \<and> \<not> tc_socks_closed c
            then andthen (client_socks_recv_initiate w) (\<lambda>w.
                 andthen (sync_commit ops w jobs) (\<lambda>(w, killed). if killed then Inr (w, ERR_ABRT) else Inr (w, ERR_OK)))
            else Inr (w, ERR_OK))))))
      else if tc_socks_closed c \<and> tc_socks_recv_tcp_pending c = 0
      then andthen (client_free_client ops w) (\<lambda>w. Inr (w, ERR_ABRT))
      else Inr (w, ERR_OK))))))"

subsection \<open>Accepting a client\<close>

datatype lwip_addr = Lwip_ip4 u32 | Lwip_ip6 bytes

fun baddr_from_lwip :: "lwip_addr \<Rightarrow> u16 \<Rightarrow> BAddr" where
  "baddr_from_lwip (Lwip_ip6 ip) port_hostorder = BAddr_IPv6 (take 16 ip) (hton16 port_hostorder)"
| "baddr_from_lwip (Lwip_ip4 ip) port_hostorder = BAddr_IPv4 ip (hton16 port_hostorder)"

text \<open>\<^verbatim>\<open>misc/concat_strings.h\<close>; whether the allocation succeeds is a parameter.\<close>

fun concat_length :: "nat \<Rightarrow> string list \<Rightarrow> nat option" where
  "concat_length n [] = Some n"
| "concat_length n (str # strs) = (if length str > unat SIZE_MAX - 1 - n then None else concat_length (n + length str) strs)"

definition concat_strings :: "(nat \<Rightarrow> bool) \<Rightarrow> string list \<Rightarrow> string option" where
  "concat_strings alloc strs =
     (case concat_length 0 strs of None \<Rightarrow> None | Some n \<Rightarrow> if alloc (n + 1) then Some (concat strs) else None)"

text \<open>The options and the globals that accepting a client reads.\<close>

record tun_options =
  opt_username :: "string option"
  opt_append_source_to_username :: bool
  opt_socks_server_addr :: BAddr
  opt_socks_auth_info :: "BSocksClient_auth_info list"

text \<open>
  The environment of the call: the memory for the client if there is any, the addresses of the connection, whether the string
  can be allocated, the memory of the SOCKS client and whether its connector can be initialised.
\<close>

record accept_env =
  ac_client :: "tcp_client option"
  ac_local :: "lwip_addr \<times> u16"
  ac_remote :: "lwip_addr \<times> u16"
  ac_alloc :: "nat \<Rightarrow> bool"
  ac_socks :: BSocksClient
  ac_connector_ok :: bool

text \<open>The name sent to the SOCKS server: \<open>None\<close> when there is no memory for it.\<close>

definition accept_username :: "tun_options \<Rightarrow> accept_env \<Rightarrow> BAddr \<Rightarrow> string option option result" where
  "accept_username opts e remote =
     (case opt_username opts of
        Some u \<Rightarrow> if opt_append_source_to_username opts
          then andthen (BAddr_Print remote) (\<lambda>addr_str.
               case concat_strings (ac_alloc e) [u, ''@'', addr_str] of None \<Rightarrow> Inr None | Some str \<Rightarrow> Inr (Some (Some str)))
          else Inr (Some None)
      | None \<Rightarrow> Inr (Some None))"

text \<open>The global array \<^verbatim>\<open>socks_auth_info\<close>: what \<^verbatim>\<open>main\<close> has set, with the user name of its second entry overwritten.\<close>

definition socks_auth_info :: "tun_options \<Rightarrow> 'p world \<Rightarrow> BSocksClient_auth_info list" where
  "socks_auth_info opts w =
     (case w_auth_username w of None \<Rightarrow> opt_socks_auth_info opts
      | Some (_, name) \<Rightarrow> (opt_socks_auth_info opts)
          [1 := (opt_socks_auth_info opts ! 1)\<lparr>auth_username := map of_char name, auth_username_len := length name\<rparr>])"

text \<open>
  At the label \<^verbatim>\<open>fail1\<close> the client and its name are freed: the world has no client, and a name that was stored in the global stays there.
\<close>

definition listener_accept_func :: "'p lwip \<Rightarrow> tun_options \<Rightarrow> accept_env \<Rightarrow> 'p world \<Rightarrow> int \<Rightarrow> tc_job list \<Rightarrow> ('p world \<times> int) result" where
  "listener_accept_func ops opts e w err jobs =
     ASSERT (err = ERR_OK)
     (case ac_client e of None \<Rightarrow> Inr (w, ERR_MEM)
      | Some c \<Rightarrow>
          let local = baddr_from_lwip (fst (ac_local e)) (snd (ac_local e));
              remote = baddr_from_lwip (fst (ac_remote e)) (snd (ac_remote e));
              c = c\<lparr>tc_socks_username := None, tc_local_addr := local, tc_remote_addr := remote\<rparr> in
          andthen (accept_username opts e remote) (\<lambda>name.
          case name of None \<Rightarrow> Inr (w, ERR_MEM)
          | Some u \<Rightarrow>
              let c = c\<lparr>tc_socks_username := u\<rparr>; w = (case u of None \<Rightarrow> w | Some s \<Rightarrow> w\<lparr>w_auth_username := Some (w_self w, s)\<rparr>) in
              andthen (BSocksClient_Init (ac_socks e) (opt_socks_server_addr opts) (socks_auth_info opts w) local (ac_connector_ok e)) (\<lambda>r.
              case r of None \<Rightarrow> Inr (w, ERR_MEM)
              | Some so \<Rightarrow>
                  let w = w\<lparr>w_socks := SO_down, w_socks_init := Some so, w_tcp_clients := w_tcp_clients w @ [w_self w]\<rparr> in
                  ASSERT (w_num_clients w \<ge> 0)
                  (let w = w\<lparr>w_num_clients := w_num_clients w + 1\<rparr>; c = c\<lparr>tc_client_closed := False\<rparr> in
                   andthen (tcp_op w (\<lambda>p. p\<lparr>pcb_err := True\<rparr>)) (\<lambda>w.
                   andthen (tcp_op w (\<lambda>p. p\<lparr>pcb_recv := True\<rparr>)) (\<lambda>w.
                   let c = c\<lparr>tc_buf_used := 0, tc_socks_up := False, tc_socks_closed := False\<rparr> in
                   andthen (sync_commit ops (set_client w c) jobs) (\<lambda>(w, killed).
                   if killed then Inr (w, ERR_ABRT) else Inr (w, ERR_OK))))))))"

subsection \<open>Steps and reachable states\<close>

text \<open>
  A step of a client in the program: a job of the SOCKS client, one of lwIP's callbacks, a change of lwIP's own state, other clients
  that come and go, or the end of the program. lwIP calls a callback that is set on a live control block; it delivers at most
  what the window allows, the bytes delivered and not confirmed never exceeding \<open>TCP_WND\<close>; and it reports as sent only what was written.
\<close>

inductive tun_step :: "'p lwip \<Rightarrow> 'p world \<Rightarrow> 'p world result \<Rightarrow> bool" for ops where
  st_job: "job_enabled w j \<Longrightarrow> tun_step ops w (job_run ops w j)"
| st_err: "pcb_alive (w_pcb w) \<Longrightarrow> pcb_err (w_pcb w) \<Longrightarrow>
    tun_step ops w (client_err_func ops (w\<lparr>w_pcb := (w_pcb w)\<lparr>pcb_alive := False\<rparr>, w_client_end := True\<rparr>))"
| st_fin: "pcb_alive (w_pcb w) \<Longrightarrow> pcb_recv (w_pcb w) \<Longrightarrow>
    tun_step ops w (andthen (client_recv_func ops (w\<lparr>w_client_end := True\<rparr>) None jobs) (\<lambda>(w, _). Inr w))"
| st_recv: "pcb_alive (w_pcb w) \<Longrightarrow> pcb_recv (w_pcb w) \<Longrightarrow> data \<noteq> [] \<Longrightarrow>
    int (length data) + (int (length (w_from_client w)) - pcb_recved (w_pcb w)) \<le> int TCP_WND \<Longrightarrow>
    tun_step ops w (andthen (client_recv_func ops w (Some data) jobs) (\<lambda>(w, _). Inr w))"
| st_sent: "pcb_alive (w_pcb w) \<Longrightarrow> pcb_sent (w_pcb w) \<Longrightarrow> 0 < len \<Longrightarrow> len \<le> int (length (pcb_written (w_pcb w))) - w_acked w \<Longrightarrow>
    tun_step ops w (andthen (client_sent_func ops (w\<lparr>w_acked := w_acked w + len\<rparr>) len jobs) (\<lambda>(w, _). Inr w))"
| st_lwip: "tun_step ops w (Inr (w\<lparr>w_pcb := (w_pcb w)\<lparr>pcb_state := st\<rparr>\<rparr>))"
| st_others_add: "a \<noteq> w_self w \<Longrightarrow> a \<notin> set (w_tcp_clients w) \<Longrightarrow>
    tun_step ops w (Inr (w\<lparr>w_tcp_clients := w_tcp_clients w @ [a], w_num_clients := w_num_clients w + 1, w_auth_username := u\<rparr>))"
| st_others_fail: "a \<noteq> w_self w \<Longrightarrow> a \<notin> set (w_tcp_clients w) \<Longrightarrow> tun_step ops w (Inr (w\<lparr>w_auth_username := Some (a, s)\<rparr>))"
| st_others_remove: "a \<noteq> w_self w \<Longrightarrow> a \<in> set (w_tcp_clients w) \<Longrightarrow>
    tun_step ops w (Inr (w\<lparr>w_tcp_clients := remove1 a (w_tcp_clients w), w_num_clients := w_num_clients w - 1\<rparr>))"
| st_murder: "w_client w \<noteq> None \<Longrightarrow> tun_step ops w (client_murder (w\<lparr>w_murdered := True\<rparr>))"

text \<open>
  A control block that lwIP has just created, among any other clients. The histories start from it whatever the clients before have left in
  the global user name.
\<close>

definition fresh_world :: "nat \<Rightarrow> nat list \<Rightarrow> 'p \<Rightarrow> 'p world" where
  "fresh_world self others st =
     \<lparr> w_client = None,
       w_pcb = \<lparr> pcb_state = st, pcb_alive = True, pcb_aborted = False, pcb_err = False, pcb_recv = False, pcb_sent = False,
                 pcb_written = [], pcb_recved = 0 \<rparr>,
       w_socks = SO_none, w_send_if = StreamPassInterface_Init, w_recv_if = StreamRecvInterface_Init, w_self = self,
       w_tcp_clients = others, w_num_clients = int (length others), w_auth_username = None, w_socks_init = None, w_dead_client = False,
       w_from_client = [], w_to_socks = [], w_from_socks = [], w_acked = 0, w_socks_error = False, w_socks_eof = False,
       w_client_end = False, w_murdered = False \<rparr>"

text \<open>The memory of a client has its two buffers, and the options have addresses that \<open>BSocksClient_Init\<close> accepts.\<close>

definition client_memory :: "tcp_client \<Rightarrow> bool" where
  "client_memory c \<longleftrightarrow> length (tc_buf c) = TCP_WND \<and> length (tc_socks_recv_buf c) = CLIENT_SOCKS_RECV_BUF_SIZE"

definition accept_ok :: "tun_options \<Rightarrow> accept_env \<Rightarrow> bool" where
  "accept_ok opts e \<longleftrightarrow> (\<forall>c. ac_client e = Some c \<longrightarrow> client_memory c) \<and> \<not> BAddr_IsInvalid (opt_socks_server_addr opts) \<and>
     (\<forall>a\<in>set (opt_socks_auth_info opts). auth_type a = SOCKS_METHOD_NO_AUTHENTICATION_REQUIRED \<or> auth_type a = SOCKS_METHOD_USERNAME_PASSWORD)"

inductive tun_reach :: "'p lwip \<Rightarrow> 'p world \<Rightarrow> bool" for ops where
  tr_accept: "distinct others \<Longrightarrow> self \<notin> set others \<Longrightarrow> accept_ok opts e \<Longrightarrow>
    listener_accept_func ops opts e ((fresh_world self others st)\<lparr>w_auth_username := g\<rparr>) ERR_OK jobs = Inr (w, err) \<Longrightarrow> err = ERR_OK \<or> err = ERR_ABRT \<Longrightarrow> tun_reach ops w"
| tr_step: "tun_reach ops w \<Longrightarrow> tun_step ops w (Inr w') \<Longrightarrow> tun_reach ops w'"

subsection \<open>What tearing down does\<close>

definition gone :: "'p world \<Rightarrow> 'p world" where
  "gone w = w\<lparr>w_num_clients := w_num_clients w - 1, w_tcp_clients := remove1 (w_self w) (w_tcp_clients w), w_client := None\<rparr>"

definition glob :: "'p world \<Rightarrow> bool" where
  "glob w \<longleftrightarrow> distinct (w_tcp_clients w) \<and> w_num_clients w = int (length (w_tcp_clients w)) \<and>
     (w_client w \<noteq> None \<longleftrightarrow> w_self w \<in> set (w_tcp_clients w))"

definition listed :: "'p world \<Rightarrow> bool" where
  "listed w \<longleftrightarrow> w_self w \<in> set (w_tcp_clients w) \<and> w_num_clients w > 0"

lemma glob_listed: "glob w \<Longrightarrow> w_client w = Some c \<Longrightarrow> listed w"
  by (auto simp: glob_def listed_def intro: length_pos_if_in_set)

lemma glob_gone: "distinct (w_tcp_clients w) \<Longrightarrow> w_num_clients w = int (length (w_tcp_clients w)) \<Longrightarrow> listed w \<Longrightarrow> glob (gone w)"
  by (auto simp: glob_def gone_def listed_def length_remove1 of_nat_diff length_pos_if_in_set Suc_leI)

lemma client_dealloc_gone:
  "w_client w = Some c \<Longrightarrow> tc_client_closed c \<Longrightarrow> tc_socks_closed c \<Longrightarrow> listed w \<Longrightarrow> client_dealloc w = Inr (gone w)"
  by (simp add: client_dealloc_def with_client_def gone_def listed_def)

definition killed_pcb :: "'p lwip \<Rightarrow> 'p pcb \<Rightarrow> 'p pcb" where
  "killed_pcb ops p = p\<lparr>pcb_err := False, pcb_recv := False, pcb_sent := False, pcb_alive := False,
     pcb_aborted := pcb_aborted p \<or> lw_close ops (pcb_state p) \<noteq> ERR_OK\<rparr>"

definition aborted_pcb :: "'p pcb \<Rightarrow> 'p pcb" where
  "aborted_pcb p = p\<lparr>pcb_err := False, pcb_recv := False, pcb_sent := False, pcb_alive := False, pcb_aborted := True\<rparr>"

lemma remove_callbacks_alive:
  "pcb_alive (w_pcb w) \<Longrightarrow> remove_callbacks w = Inr (w\<lparr>w_pcb := (w_pcb w)\<lparr>pcb_err := False, pcb_recv := False, pcb_sent := False\<rparr>\<rparr>)"
  by (simp add: remove_callbacks_def tcp_op_def)

lemma free_socks_client_closed:
  assumes "w_client w = Some c" "tc_client_closed c" "\<not> tc_socks_closed c" "w_socks w = SO_down \<or> w_socks w = SO_up" "listed w"
  shows "client_free_socks ops w = Inr (gone (w\<lparr>w_socks := SO_freed\<rparr>))"
proof -
  have "client_dealloc (w\<lparr>w_socks := SO_freed, w_client := Some (c\<lparr>tc_socks_closed := True\<rparr>)\<rparr>) = Inr (gone (w\<lparr>w_socks := SO_freed\<rparr>))"
    using client_dealloc_gone [of "w\<lparr>w_socks := SO_freed, w_client := Some (c\<lparr>tc_socks_closed := True\<rparr>)\<rparr>"] assms by (simp add: listed_def gone_def)
  then show ?thesis using assms by (simp add: client_free_socks.simps with_client_def socks_Free_def set_client_def)
qed

lemma handle_freed_client:
  assumes "w_client w = Some c" "\<not> tc_client_closed c" "listed w"
    "w_socks w = (if tc_socks_closed c then SO_freed else if tc_socks_up c then SO_up else SO_down)"
  shows "client_handle_freed_client ops w = Inr
    (if tc_buf_used c > 0 \<and> \<not> tc_socks_closed c then w\<lparr>w_dead_client := True, w_client := Some (c\<lparr>tc_client_closed := True\<rparr>)\<rparr>
     else gone (w\<lparr>w_dead_client := True, w_socks := SO_freed\<rparr>))"
proof -
  let ?w = "w\<lparr>w_dead_client := True, w_client := Some (c\<lparr>tc_client_closed := True\<rparr>)\<rparr>"
  have l: "listed ?w" using assms(3) by (simp add: listed_def)
  show ?thesis
  proof (cases "tc_socks_closed c")
    case True
    then show ?thesis using assms(1,2,4) client_dealloc_gone [of ?w, OF _ _ _ l]
      by (simp add: client_handle_freed_client.simps with_client_def set_client_def gone_def)
  next
    case False
    then show ?thesis using assms(1,2,4) free_socks_client_closed [of ?w, OF _ _ _ _ l]
      by (auto simp: client_handle_freed_client.simps with_client_def set_client_def gone_def)
  qed
qed

lemma free_client_pcb:
  assumes "w_client w = Some c" "\<not> tc_client_closed c" "pcb_alive (w_pcb w)"
  shows "client_free_client ops w = client_handle_freed_client ops (w\<lparr>w_pcb := killed_pcb ops (w_pcb w)\<rparr>)"
proof -
  have closed: "w\<lparr>w_pcb := killed_pcb ops (w_pcb w)\<rparr> = w\<lparr>w_pcb := (w_pcb w)\<lparr>pcb_err := False, pcb_recv := False, pcb_sent := False, pcb_alive := False\<rparr>\<rparr>"
    if "lw_close ops (pcb_state (w_pcb w)) = ERR_OK"
    by (cases "w_pcb w") (use that in \<open>simp add: killed_pcb_def\<close>)
  show ?thesis
    using assms closed by (auto simp: client_free_client.simps with_client_def remove_callbacks_alive tcp_close_def tcp_op_def tcp_abort_def Let_def killed_pcb_def)
qed

lemma abort_client_pcb:
  assumes "w_client w = Some c" "\<not> tc_client_closed c" "pcb_alive (w_pcb w)"
  shows "client_abort_client ops w = client_handle_freed_client ops (w\<lparr>w_pcb := aborted_pcb (w_pcb w)\<rparr>)"
  using assms by (simp add: client_abort_client_def with_client_def remove_callbacks_alive tcp_op_def tcp_abort_def aborted_pcb_def)

lemma free_socks_client_open:
  assumes "w_client w = Some c" "\<not> tc_client_closed c" "\<not> tc_socks_closed c" "w_socks w = SO_down \<or> w_socks w = SO_up" "listed w" "pcb_alive (w_pcb w)"
  shows "client_free_socks ops w = Inr
    (if tc_socks_up c \<and> (tc_socks_recv_buf_used c \<ge> 0 \<or> tc_socks_recv_tcp_pending c > 0)
     then w\<lparr>w_pcb := (w_pcb w)\<lparr>pcb_recv := False\<rparr>, w_socks := SO_freed, w_client := Some (c\<lparr>tc_socks_closed := True\<rparr>)\<rparr>
     else gone (w\<lparr>w_pcb := killed_pcb ops (w_pcb w), w_socks := SO_freed, w_dead_client := True\<rparr>))"
proof -
  let ?p = "if tc_socks_up c then (w_pcb w)\<lparr>pcb_recv := False\<rparr> else w_pcb w"
  let ?w = "w\<lparr>w_pcb := ?p, w_socks := SO_freed, w_client := Some (c\<lparr>tc_socks_closed := True\<rparr>)\<rparr>"
  have run: "client_free_socks ops w = (if tc_socks_up c \<and> (tc_socks_recv_buf_used c \<ge> 0 \<or> tc_socks_recv_tcp_pending c > 0) then Inr ?w else client_free_client ops ?w)"
    using assms by (auto simp: client_free_socks.simps with_client_def tcp_op_def socks_Free_def set_client_def)
  have k: "killed_pcb ops ?p = killed_pcb ops (w_pcb w)" by (simp add: killed_pcb_def)
  have "client_free_client ops ?w = client_handle_freed_client ops (?w\<lparr>w_pcb := killed_pcb ops ?p\<rparr>)"
    using free_client_pcb [of ?w] assms by simp
  also have "\<dots> = Inr (gone (w\<lparr>w_pcb := killed_pcb ops (w_pcb w), w_socks := SO_freed, w_dead_client := True\<rparr>))"
    using assms by (subst handle_freed_client [where c = "c\<lparr>tc_socks_closed := True\<rparr>"]) (auto simp: listed_def k gone_def)
  finally show ?thesis unfolding run by auto
qed

end
