(* ===== verification/Tcp_Relay.thy ===== *)
theory Tcp_Relay
  imports Tcp_Client
begin

section \<open>The relay of a TCP client: invariant and correctness\<close>

text \<open>
  The invariant of a client of \<^verbatim>\<open>tun2socks/tun2socks.c\<close> in every reachable state, and what follows from it: no handler fails an assertion or uses
  something that was freed, the two streams arrive in order and complete, and the client never waits for nothing.
\<close>

subsection \<open>Invariant\<close>

text \<open>The flags, the callbacks and the objects that exist; between the steps a closed side has data waiting for the other one.\<close>

definition flags_ok :: "tcp_client \<Rightarrow> 'p pcb \<Rightarrow> socks_obj \<Rightarrow> bool" where
  "flags_ok c p so \<longleftrightarrow> client_memory c \<and> 0 \<le> tc_buf_used c \<and> tc_buf_used c \<le> int TCP_WND \<and>
     \<not> (tc_client_closed c \<and> tc_socks_closed c) \<and> (pcb_alive p \<longleftrightarrow> \<not> tc_client_closed c) \<and>
     (\<not> tc_client_closed c \<longrightarrow> pcb_err p \<and> (pcb_recv p \<longleftrightarrow> \<not> tc_socks_closed c) \<and> (pcb_sent p \<longleftrightarrow> tc_socks_up c)) \<and>
     so = (if tc_socks_closed c then SO_freed else if tc_socks_up c then SO_up else SO_down) \<and>
     (tc_client_closed c \<longrightarrow> tc_buf_used c > 0)"

text \<open>The stream to the SOCKS server sends a part of the buffer, and is idle only when the buffer is empty.\<close>

definition send_ok :: "tcp_client \<Rightarrow> int StreamPassInterface \<Rightarrow> bool" where
  "send_ok c i \<longleftrightarrow> spi_handler_done i \<and> (spi_job_operation i \<longleftrightarrow> spi_state i = STATE_OPERATION_PENDING) \<and>
     (spi_job_done i \<longleftrightarrow> spi_state i = STATE_DONE_PENDING) \<and>
     (if spi_state i = STATE_NONE then tc_buf_used c = 0
      else spi_job_operation_data i = Some 0 \<and> 0 < spi_job_operation_len i \<and> spi_job_operation_len i \<le> tc_buf_used c) \<and>
     (spi_state i = STATE_DONE_PENDING \<longrightarrow> 0 < spi_job_done_len i \<and> spi_job_done_len i \<le> spi_job_operation_len i)"

text \<open>What the connection took of the buffer and is still in it.\<close>

definition taken :: "tcp_client \<Rightarrow> int StreamPassInterface \<Rightarrow> bytes" where
  "taken c i = (if tc_socks_up c \<and> spi_state i = STATE_DONE_PENDING then take (nat (spi_job_done_len i)) (tc_buf c) else [])"

definition up_ok :: "tcp_client \<Rightarrow> int StreamPassInterface \<Rightarrow> 'p pcb \<Rightarrow> bytes \<Rightarrow> bytes \<Rightarrow> bool" where
  "up_ok c i p fc ts \<longleftrightarrow> (tc_socks_up c \<longrightarrow> send_ok c i) \<and>
     (\<exists>conf. fc = conf @ take (nat (tc_buf_used c)) (tc_buf c) \<and> ts = conf @ taken c i \<and>
        (\<not> tc_client_closed c \<longrightarrow> pcb_recved p = int (length conf)))"

definition recv_ok :: "tcp_client \<Rightarrow> int StreamRecvInterface \<Rightarrow> bool" where
  "recv_ok c i \<longleftrightarrow> sri_handler_done i \<and> (sri_job_operation i \<longleftrightarrow> sri_state i = STATE_OPERATION_PENDING) \<and>
     (sri_job_done i \<longleftrightarrow> sri_state i = STATE_DONE_PENDING) \<and>
     (sri_state i \<noteq> STATE_NONE \<longrightarrow> sri_job_operation_data i = Some 0 \<and>
        sri_job_operation_len i = int CLIENT_SOCKS_RECV_BUF_SIZE \<and> tc_socks_recv_buf_used c = - 1) \<and>
     (sri_state i = STATE_DONE_PENDING \<longrightarrow> 0 < sri_job_done_len i \<and> sri_job_done_len i \<le> int CLIENT_SOCKS_RECV_BUF_SIZE)"

text \<open>What was received from the SOCKS server and was not yet written to the peer.\<close>

definition undelivered :: "tcp_client \<Rightarrow> int StreamRecvInterface \<Rightarrow> bytes" where
  "undelivered c i =
     (if tc_socks_recv_buf_used c \<ge> 0 then drop (nat (tc_socks_recv_buf_sent c)) (take (nat (tc_socks_recv_buf_used c)) (tc_socks_recv_buf c))
      else if \<not> tc_socks_closed c \<and> sri_state i = STATE_DONE_PENDING then take (nat (sri_job_done_len i)) (tc_socks_recv_buf c)
      else [])"

text \<open>The stream to the peer; \<open>err\<close> tells that the SOCKS client failed, and then what it had in hand is lost.\<close>

definition down_data :: "bytes \<Rightarrow> bytes \<Rightarrow> bytes \<Rightarrow> bool \<Rightarrow> bool" where
  "down_data und out fs err \<longleftrightarrow> (\<exists>lost. fs = out @ und @ lost \<and> (lost \<noteq> [] \<longrightarrow> err))"

definition down_ok :: "tcp_client \<Rightarrow> int StreamRecvInterface \<Rightarrow> 'p pcb \<Rightarrow> bytes \<Rightarrow> int \<Rightarrow> bool \<Rightarrow> bool" where
  "down_ok c i p fs acked err \<longleftrightarrow>
     (if tc_socks_up c
      then tc_socks_recv_tcp_pending c = int (length (pcb_written p)) - acked \<and> 0 \<le> tc_socks_recv_tcp_pending c \<and>
        (tc_socks_recv_buf_used c = - 1 \<or>
           0 < tc_socks_recv_buf_used c \<and> tc_socks_recv_buf_used c \<le> int CLIENT_SOCKS_RECV_BUF_SIZE \<and> 0 \<le> tc_socks_recv_buf_sent c \<and>
           tc_socks_recv_buf_sent c < tc_socks_recv_buf_used c \<and> tc_socks_recv_waiting c \<and> tc_socks_recv_tcp_pending c > 0) \<and>
        down_data (undelivered c i) (pcb_written p) fs (err \<and> tc_socks_closed c)
      else pcb_written p = [] \<and> fs = [] \<and> acked = 0)"

text \<open>While both sides are open there is an operation in progress; when the server is gone the client waits for the peer.\<close>

definition live_ok :: "tcp_client \<Rightarrow> int StreamRecvInterface \<Rightarrow> bool" where
  "live_ok c i \<longleftrightarrow>
     (if tc_socks_closed c then tc_socks_up c \<and> tc_socks_recv_tcp_pending c > 0
      else tc_socks_up c \<and> tc_socks_recv_buf_used c = - 1 \<longrightarrow> sri_state i \<noteq> STATE_NONE)"

text \<open>What each end got of what the other one sent.\<close>

definition stream_ends :: "'p world \<Rightarrow> bool" where
  "stream_ends w \<longleftrightarrow> Sublist.prefix (w_to_socks w) (w_from_client w) \<and> Sublist.prefix (pcb_written (w_pcb w)) (w_from_socks w) \<and>
     (w_socks w = SO_freed \<and> \<not> w_socks_error w \<and> \<not> w_socks_eof w \<and> \<not> w_murdered w \<longrightarrow> w_to_socks w = w_from_client w) \<and>
     (\<not> pcb_alive (w_pcb w) \<and> \<not> pcb_aborted (w_pcb w) \<and> \<not> w_socks_error w \<and> \<not> w_client_end w \<and> \<not> w_murdered w \<longrightarrow>
        pcb_written (w_pcb w) = w_from_socks w \<and> w_acked w = int (length (pcb_written (w_pcb w))))"

text \<open>Why the control block may be gone before the peer has everything.\<close>

definition cut_off :: "'p world \<Rightarrow> 'p pcb \<Rightarrow> bool" where
  "cut_off w p \<longleftrightarrow> pcb_aborted p \<or> w_socks_error w \<or> w_client_end w \<or> w_murdered w"

text \<open>\<open>mid_ok\<close> holds inside the handlers too; \<open>world_ok\<close> is the invariant between them.\<close>

definition mid_ok :: "'p world \<Rightarrow> tcp_client \<Rightarrow> bool" where
  "mid_ok w c \<longleftrightarrow> w_client w = Some c \<and> glob w \<and> stream_ends w \<and> flags_ok c (w_pcb w) (w_socks w) \<and>
     (tc_client_closed c \<longrightarrow> cut_off w (w_pcb w)) \<and>
     (\<not> tc_socks_closed c \<longrightarrow> up_ok c (w_send_if w) (w_pcb w) (w_from_client w) (w_to_socks w)) \<and>
     (tc_socks_up c \<and> \<not> tc_socks_closed c \<longrightarrow> recv_ok c (w_recv_if w))"

definition world_ok :: "'p world \<Rightarrow> bool" where
  "world_ok w \<longleftrightarrow>
     (case w_client w of
        None \<Rightarrow> glob w \<and> stream_ends w \<and> \<not> pcb_alive (w_pcb w) \<and> w_socks w = SO_freed
      | Some c \<Rightarrow> mid_ok w c \<and> (\<not> tc_client_closed c \<longrightarrow>
          down_ok c (w_recv_if w) (w_pcb w) (w_from_socks w) (w_acked w) (w_socks_error w) \<and> live_ok c (w_recv_if w)))"

text \<open>A handler that ends well; the dead variable records the loss of the control block.\<close>

definition dead_ok :: "'p world \<Rightarrow> bool" where
  "dead_ok w \<longleftrightarrow> (w_dead_client w \<longleftrightarrow> \<not> pcb_alive (w_pcb w))"

definition good :: "'p world \<Rightarrow> 'p world result \<Rightarrow> bool" where
  "good w r \<longleftrightarrow> (\<exists>w'. r = Inr w' \<and> world_ok w' \<and> (dead_ok w \<longrightarrow> dead_ok w'))"

lemma good_Inr [simp]: "good w (Inr w') \<longleftrightarrow> world_ok w' \<and> (dead_ok w \<longrightarrow> dead_ok w')"
  by (auto simp: good_def)

lemma mid_okD:
  assumes "mid_ok w c"
  shows "w_client w = Some c" "glob w" "stream_ends w" "flags_ok c (w_pcb w) (w_socks w)"
    "\<not> tc_socks_closed c \<Longrightarrow> up_ok c (w_send_if w) (w_pcb w) (w_from_client w) (w_to_socks w)"
    "tc_socks_up c \<Longrightarrow> \<not> tc_socks_closed c \<Longrightarrow> recv_ok c (w_recv_if w)" "listed w" "tc_client_closed c \<Longrightarrow> cut_off w (w_pcb w)"
  using assms glob_listed [of w c] by (auto simp: mid_ok_def)

lemma flags_okD:
  assumes "flags_ok c p so"
  shows "client_memory c" "0 \<le> tc_buf_used c" "tc_buf_used c \<le> int TCP_WND" "pcb_alive p \<longleftrightarrow> \<not> tc_client_closed c"
    "so = (if tc_socks_closed c then SO_freed else if tc_socks_up c then SO_up else SO_down)"
    "tc_client_closed c \<Longrightarrow> \<not> tc_socks_closed c" "tc_client_closed c \<Longrightarrow> tc_buf_used c > 0"
    "\<not> tc_client_closed c \<Longrightarrow> pcb_err p" "\<not> tc_client_closed c \<Longrightarrow> pcb_recv p \<longleftrightarrow> \<not> tc_socks_closed c"
    "\<not> tc_client_closed c \<Longrightarrow> pcb_sent p \<longleftrightarrow> tc_socks_up c"
  using assms by (auto simp: flags_ok_def)

lemma glob_simps [simp]:
  "glob (w\<lparr>w_send_if := si\<rparr>) = glob w" "glob (w\<lparr>w_recv_if := ri\<rparr>) = glob w" "glob (w\<lparr>w_pcb := p\<rparr>) = glob w"
  "glob (w\<lparr>w_socks := so\<rparr>) = glob w" "glob (w\<lparr>w_dead_client := b\<rparr>) = glob w" "glob (w\<lparr>w_from_client := bs\<rparr>) = glob w"
  "glob (w\<lparr>w_to_socks := bs\<rparr>) = glob w" "glob (w\<lparr>w_from_socks := bs\<rparr>) = glob w" "glob (w\<lparr>w_acked := n\<rparr>) = glob w"
  "glob (w\<lparr>w_socks_error := b\<rparr>) = glob w" "glob (w\<lparr>w_socks_eof := b\<rparr>) = glob w" "glob (w\<lparr>w_client_end := b\<rparr>) = glob w"
  "glob (w\<lparr>w_murdered := b\<rparr>) = glob w" "w_client w \<noteq> None \<Longrightarrow> glob (w\<lparr>w_client := Some c'\<rparr>) = glob w"
  by (auto simp: glob_def)

lemma gone_simps [simp]:
  "w_client (gone w) = None" "w_pcb (gone w) = w_pcb w" "w_socks (gone w) = w_socks w" "w_from_client (gone w) = w_from_client w"
  "w_to_socks (gone w) = w_to_socks w" "w_from_socks (gone w) = w_from_socks w" "w_acked (gone w) = w_acked w"
  "w_socks_error (gone w) = w_socks_error w" "w_socks_eof (gone w) = w_socks_eof w" "w_client_end (gone w) = w_client_end w"
  "w_murdered (gone w) = w_murdered w" "w_dead_client (gone w) = w_dead_client w"
  by (simp_all add: gone_def)

lemma up_ok_all_sent: "up_ok c i p fc ts \<Longrightarrow> tc_buf_used c = 0 \<Longrightarrow> ts = fc"
  by (auto simp: up_ok_def send_ok_def taken_def split: if_splits)

lemma glob_goneI: "glob w \<Longrightarrow> w_client w = Some c \<Longrightarrow> w_tcp_clients w' = w_tcp_clients w \<Longrightarrow>
    w_num_clients w' = w_num_clients w \<Longrightarrow> w_self w' = w_self w \<Longrightarrow> glob (gone w')"
  using glob_listed [of w c] by (intro glob_gone) (auto simp: glob_def listed_def)

lemma close_client:
  assumes m: "mid_ok w c" and cl: "\<not> tc_client_closed c" and p: "\<not> pcb_alive p" "pcb_written p = pcb_written (w_pcb w)" 
    and r: "cut_off w p \<or> tc_socks_closed c \<and> pcb_written p = w_from_socks w \<and> w_acked w = int (length (pcb_written p))"
  shows "\<exists>w'. client_handle_freed_client ops (w\<lparr>w_pcb := p\<rparr>) = Inr w' \<and> world_ok w' \<and> w_dead_client w' \<and> \<not> pcb_alive (w_pcb w')"
proof -
  note M = mid_okD [OF m] and F = flags_okD [OF mid_okD(4) [OF m]]
  let ?w = "w\<lparr>w_pcb := p\<rparr>"
  let ?kept = "w\<lparr>w_pcb := p, w_dead_client := True, w_client := Some (c\<lparr>tc_client_closed := True\<rparr>)\<rparr>"
  let ?gone = "gone (w\<lparr>w_pcb := p, w_dead_client := True, w_socks := SO_freed\<rparr>)"
  have l: "listed ?w" using M(7) by (simp add: listed_def)
  have run: "client_handle_freed_client ops ?w = Inr (if tc_buf_used c > 0 \<and> \<not> tc_socks_closed c then ?kept else ?gone)"
    using handle_freed_client [of ?w c, OF _ cl l] M(1) F(5) by auto
  have e: "stream_ends w" by (rule M(3))
  show ?thesis
  proof (cases "tc_buf_used c > 0 \<and> \<not> tc_socks_closed c")
    case True
    have "stream_ends ?kept" using e p r by (auto simp: stream_ends_def cut_off_def)
    moreover have "flags_ok (c\<lparr>tc_client_closed := True\<rparr>) p (w_socks w)"
      using True M(4) p by (auto simp: flags_ok_def client_memory_def)
    moreover have "up_ok (c\<lparr>tc_client_closed := True\<rparr>) (w_send_if w) p (w_from_client w) (w_to_socks w)"
      using True M(5) by (auto simp: up_ok_def send_ok_def taken_def)
    moreover have "tc_socks_up c \<longrightarrow> recv_ok (c\<lparr>tc_client_closed := True\<rparr>) (w_recv_if w)"
      using True M(6) by (auto simp: recv_ok_def)
    moreover have "glob ?kept" using M(1,2) by (simp add: glob_def)
    moreover have "cut_off ?kept p" using r True by (auto simp: cut_off_def)
    ultimately have "world_ok ?kept" using True by (auto simp: world_ok_def mid_ok_def)
    then show ?thesis using run True p by auto
  next
    case False
    then have "w_to_socks w = w_from_client w \<or> w_socks w = SO_freed"
      using F(2,5) up_ok_all_sent [OF M(5)] by auto
    then have "stream_ends ?gone" using e p r by (auto simp: stream_ends_def cut_off_def)
    moreover have "glob ?gone" using M(1,2) by (auto intro: glob_goneI)
    ultimately have "world_ok ?gone" using p by (simp add: world_ok_def)
    then show ?thesis using run False p by auto
  qed
qed

text \<open>The SOCKS client ends while the peer is there: by an error, or at the end of its stream, when it had no data in hand.\<close>

lemma close_socks_open:
  assumes m: "mid_ok w c" and cl: "\<not> tc_client_closed c" "\<not> tc_socks_closed c"
    and d: "down_ok c (w_recv_if w) (w_pcb w) (w_from_socks w) (w_acked w) (w_socks_error w)"
    and r: "w_socks_error w \<or> w_socks_eof w \<and> sri_state (w_recv_if w) = STATE_BUSY"
  shows "good w (client_free_socks ops w)"
proof -
  note M = mid_okD [OF m] and F = flags_okD [OF mid_okD(4) [OF m]]
  let ?k = "tc_socks_up c \<and> (tc_socks_recv_buf_used c \<ge> 0 \<or> tc_socks_recv_tcp_pending c > 0)"
  let ?c = "c\<lparr>tc_socks_closed := True\<rparr>"
  let ?p = "(w_pcb w)\<lparr>pcb_recv := False\<rparr>"
  let ?kept = "w\<lparr>w_pcb := ?p, w_socks := SO_freed, w_client := Some ?c\<rparr>"
  let ?gone = "gone (w\<lparr>w_pcb := killed_pcb ops (w_pcb w), w_socks := SO_freed, w_dead_client := True\<rparr>)"
  have run: "client_free_socks ops w = Inr (if ?k then ?kept else ?gone)"
    using free_socks_client_open [of w c, OF M(1) cl _ M(7)] F(4,5) cl by auto
  have e: "stream_ends w" by (rule M(3))
  show ?thesis
  proof (cases ?k)
    case True
    have "stream_ends ?kept" using e r by (auto simp: stream_ends_def)
    moreover have "flags_ok ?c ?p SO_freed"
      using True M(4) cl by (auto simp: flags_ok_def client_memory_def)
    moreover have "down_ok ?c (w_recv_if w) ?p (w_from_socks w) (w_acked w) (w_socks_error w)"
      using True d r by (auto simp: down_ok_def down_data_def undelivered_def split: if_splits)
    moreover have "live_ok ?c (w_recv_if w)" using True d by (auto simp: live_ok_def down_ok_def)
    ultimately have "world_ok ?kept" using M(1,2) cl by (simp add: world_ok_def mid_ok_def)
    then show ?thesis using run True by (simp add: dead_ok_def)
  next
    case False
    have "pcb_written (w_pcb w) = w_from_socks w \<and> w_acked w = int (length (pcb_written (w_pcb w))) \<or> w_socks_error w"
      using False d r by (auto simp: down_ok_def down_data_def undelivered_def split: if_splits)
    then have "stream_ends ?gone" using e r by (auto simp: stream_ends_def killed_pcb_def)
    moreover have "glob ?gone" using M(1,2) by (auto intro: glob_goneI)
    ultimately have "world_ok ?gone" by (simp add: world_ok_def killed_pcb_def)
    then show ?thesis using run False by (simp add: dead_ok_def killed_pcb_def)
  qed
qed

text \<open>The SOCKS client ends after the peer: all that was buffered is sent, or the SOCKS client failed.\<close>

lemma close_socks_closed:
  assumes w: "w_client w = Some c" "glob w" "stream_ends w" "\<not> pcb_alive (w_pcb w)" "w_socks w = SO_down \<or> w_socks w = SO_up"
    and cl: "tc_client_closed c" "\<not> tc_socks_closed c"
    and r: "w_socks_error w \<or> w_socks_eof w \<or> w_to_socks w = w_from_client w"
  shows "good w (client_free_socks ops w)"
proof -
  have run: "client_free_socks ops w = Inr (gone (w\<lparr>w_socks := SO_freed\<rparr>))"
    using free_socks_client_closed [of w c] w cl glob_listed [of w c] by auto
  have "stream_ends (gone (w\<lparr>w_socks := SO_freed\<rparr>))" using w(3) r by (auto simp: stream_ends_def)
  moreover have "glob (gone (w\<lparr>w_socks := SO_freed\<rparr>))" using w by (auto intro: glob_goneI)
  ultimately show ?thesis using run w(4) by (simp add: world_ok_def dead_ok_def)
qed

lemma world_okD:
  assumes "world_ok w" "w_client w = Some c"
  shows "mid_ok w c" "\<not> tc_client_closed c \<Longrightarrow> down_ok c (w_recv_if w) (w_pcb w) (w_from_socks w) (w_acked w) (w_socks_error w)"
    "\<not> tc_client_closed c \<Longrightarrow> live_ok c (w_recv_if w)"
  using assms by (auto simp: world_ok_def)

lemma world_okI:
  assumes "mid_ok w c" "\<not> tc_client_closed c \<Longrightarrow> down_ok c (w_recv_if w) (w_pcb w) (w_from_socks w) (w_acked w) (w_socks_error w)"
    "\<not> tc_client_closed c \<Longrightarrow> live_ok c (w_recv_if w)"
  shows "world_ok w"
  using assms mid_okD(1) [OF assms(1)] by (auto simp: world_ok_def)

text \<open>The SOCKS client works for a client that is there.\<close>

lemma socks_client:
  assumes "world_ok w" "w_socks w = SO_down \<or> w_socks w = SO_up"
  obtains c where "w_client w = Some c" "mid_ok w c" "\<not> tc_socks_closed c" "tc_socks_up c \<longleftrightarrow> w_socks w = SO_up"
proof (cases "w_client w")
  case None
  then show ?thesis using assms by (auto simp: world_ok_def)
next
  case (Some c)
  have m: "mid_ok w c" using assms(1) Some by (rule world_okD(1))
  show ?thesis using that [OF Some m] flags_okD(5) [OF mid_okD(4) [OF m]] assms(2) by (auto split: if_splits)
qed

lemma socks_end_good:
  assumes ok: "world_ok w" and so: "w_socks w = SO_down \<or> w_socks w = SO_up"
    and r: "e = BSOCKSCLIENT_EVENT_ERROR \<or> e = BSOCKSCLIENT_EVENT_ERROR_CLOSED \<and> w_socks w = SO_up \<and> sri_state (w_recv_if w) = STATE_BUSY"
  shows "good w (job_run ops w (J_event e))"
proof -
  obtain c where c: "w_client w = Some c" "mid_ok w c" "\<not> tc_socks_closed c" "tc_socks_up c \<longleftrightarrow> w_socks w = SO_up"
    using socks_client [OF ok so] .
  define w1 where "w1 = (if e = BSOCKSCLIENT_EVENT_ERROR then w\<lparr>w_socks_error := True\<rparr> else w\<lparr>w_socks_eof := True\<rparr>)"
  note M = mid_okD [OF c(2)] and F = flags_okD [OF mid_okD(4) [OF c(2)]]
  have run: "job_run ops w (J_event e) = client_free_socks ops w1"
    using r c by (auto simp: client_socks_handler_def with_client_def w1_def)
  have e1: "stream_ends w1" using M(3) by (auto simp: stream_ends_def w1_def)
  have g1: "glob w1" using M(2) by (simp add: glob_def w1_def)
  have "good w1 (client_free_socks ops w1)"
  proof (cases "tc_client_closed c")
    case True
    then show ?thesis using c so e1 g1 r F(4) by (intro close_socks_closed) (auto simp: w1_def)
  next
    case False
    have "mid_ok w1 c" using c(2) e1 g1 by (auto simp: mid_ok_def cut_off_def w1_def)
    moreover have "down_ok c (w_recv_if w1) (w_pcb w1) (w_from_socks w1) (w_acked w1) (w_socks_error w1)"
      using world_okD(2) [OF ok c(1) False] by (auto simp: down_ok_def down_data_def w1_def)
    ultimately show ?thesis using False c(3) r by (intro close_socks_open) (auto simp: w1_def)
  qed
  then show ?thesis unfolding run by (auto simp: good_def dead_ok_def w1_def)
qed

subsection \<open>The streams of the SOCKS client\<close>

lemma take_prefix_take: "m \<le> n \<Longrightarrow> Sublist.prefix (take m xs) (take n xs)"
  by (metis min.absorb1 take_is_prefix take_take)

lemma up_ok_prefix:
  assumes "up_ok c i p fc ts"
  shows "Sublist.prefix ts fc"
proof -
  have "Sublist.prefix (taken c i) (take (nat (tc_buf_used c)) (tc_buf c))"
  proof (cases "taken c i = []")
    case False
    then have "nat (spi_job_done_len i) \<le> nat (tc_buf_used c)" using assms by (auto simp: up_ok_def send_ok_def taken_def split: if_splits)
    then show ?thesis using False by (simp add: taken_def take_prefix_take split: if_splits)
  qed simp
  then show ?thesis using assms by (auto simp: up_ok_def)
qed

lemma world_ok_up:
  assumes ok: "world_ok w" and c: "w_client w = Some c" "\<not> tc_socks_closed c" and u: "up_ok c i (w_pcb w) (w_from_client w) ts"
  shows "world_ok (w\<lparr>w_send_if := i, w_to_socks := ts\<rparr>)"
proof -
  note m = world_okD(1) [OF ok c(1)]
  note M = mid_okD [OF m]
  have "w_socks w \<noteq> SO_freed" using flags_okD(5) [OF M(4)] c(2) by (auto split: if_splits)
  then have "stream_ends (w\<lparr>w_send_if := i, w_to_socks := ts\<rparr>)" using M(3) up_ok_prefix [OF u] by (auto simp: stream_ends_def)
  then have "mid_ok (w\<lparr>w_send_if := i, w_to_socks := ts\<rparr>) c" using m u c(2) by (simp add: mid_ok_def cut_off_def)
  then show ?thesis using world_okD(2,3) [OF ok c(1)] by (intro world_okI) auto
qed

lemma send_operation_good:
  assumes "world_ok w" "job_enabled w J_send_operation"
  shows "good w (job_run ops w J_send_operation)"
proof -
  obtain c where c: "w_client w = Some c" "mid_ok w c" "\<not> tc_socks_closed c" "tc_socks_up c"
    using socks_client [OF assms(1)] assms(2) by auto
  let ?i = "(w_send_if w)\<lparr>spi_job_operation := False, spi_state := STATE_BUSY\<rparr>"
  have u: "up_ok c (w_send_if w) (w_pcb w) (w_from_client w) (w_to_socks w)" using mid_okD(5) [OF c(2,3)] .
  have st: "spi_state (w_send_if w) = STATE_OPERATION_PENDING" using u c(4) assms(2) by (simp add: up_ok_def send_ok_def)
  have "up_ok c ?i (w_pcb w) (w_from_client w) (w_to_socks w)" using u st c(4) by (auto simp: up_ok_def send_ok_def taken_def)
  then have "world_ok (w\<lparr>w_send_if := ?i\<rparr>)" using world_ok_up [OF assms(1) c(1,3)] by fastforce
  then show ?thesis using st by (simp add: StreamPassInterface_job_operation_def dead_ok_def)
qed

lemma sent_good:
  assumes ok: "world_ok w" and j: "job_enabled w (J_sent k)"
  shows "good w (job_run ops w (J_sent k))"
proof -
  obtain c where c: "w_client w = Some c" "mid_ok w c" "\<not> tc_socks_closed c" "tc_socks_up c"
    using socks_client [OF ok] j by auto
  note F = flags_okD [OF mid_okD(4) [OF c(2)]]
  let ?i = "(w_send_if w)\<lparr>spi_job_done_len := int k, spi_job_done := True, spi_state := STATE_DONE_PENDING\<rparr>"
  have u: "up_ok c (w_send_if w) (w_pcb w) (w_from_client w) (w_to_socks w)" using mid_okD(5) [OF c(2,3)] .
  then have s: "send_ok c (w_send_if w)" using c(4) by (simp add: up_ok_def)
  have "k \<le> length (tc_buf c)" using F(1,3) s j by (auto simp: client_memory_def send_ok_def split: if_splits)
  then have run: "job_run ops w (J_sent k) = Inr (w\<lparr>w_send_if := ?i, w_to_socks := w_to_socks w @ take k (tc_buf c)\<rparr>)"
    using j s c(1) by (auto simp: with_client_def send_ok_def mem_read_def StreamPassInterface_Done_def)
  have "send_ok c ?i" using s j by (auto simp: send_ok_def split: if_splits)
  then have "up_ok c ?i (w_pcb w) (w_from_client w) (w_to_socks w @ take k (tc_buf c))"
    using u j c(4) by (auto simp: up_ok_def taken_def)
  from world_ok_up [OF ok c(1,3) this] show ?thesis unfolding run by (simp add: dead_ok_def)
qed

lemma world_ok_recv_if:
  assumes ok: "world_ok w" and c: "w_client w = Some c" and i: "recv_ok c i"
    and s: "sri_state (w_recv_if w) \<noteq> STATE_NONE" "sri_state i \<noteq> STATE_NONE"
    "sri_state (w_recv_if w) \<noteq> STATE_DONE_PENDING" "sri_state i \<noteq> STATE_DONE_PENDING"
  shows "world_ok (w\<lparr>w_recv_if := i\<rparr>)"
proof -
  have "mid_ok (w\<lparr>w_recv_if := i\<rparr>) c" using world_okD(1) [OF ok c] i by (simp add: mid_ok_def stream_ends_def cut_off_def)
  moreover have "undelivered c i = undelivered c (w_recv_if w)" using s by (simp add: undelivered_def)
  ultimately show ?thesis using world_okD(2,3) [OF ok c] s by (intro world_okI) (auto simp: live_ok_def down_ok_def)
qed

lemma recv_operation_good:
  assumes ok: "world_ok w" and j: "job_enabled w J_recv_operation"
  shows "good w (job_run ops w J_recv_operation)"
proof -
  obtain c where c: "w_client w = Some c" "mid_ok w c" "\<not> tc_socks_closed c" "tc_socks_up c"
    using socks_client [OF ok] j by auto
  let ?i = "(w_recv_if w)\<lparr>sri_job_operation := False, sri_state := STATE_BUSY\<rparr>"
  have r: "recv_ok c (w_recv_if w)" using mid_okD(6) [OF c(2,4,3)] .
  then have st: "sri_state (w_recv_if w) = STATE_OPERATION_PENDING" using j by (auto simp: recv_ok_def)
  have "recv_ok c ?i" using r st by (auto simp: recv_ok_def)
  then have "world_ok (w\<lparr>w_recv_if := ?i\<rparr>)" using st by (intro world_ok_recv_if [OF ok c(1)]) auto
  then show ?thesis using st by (simp add: StreamRecvInterface_job_operation_def dead_ok_def)
qed

lemma received_good:
  assumes ok: "world_ok w" and j: "job_enabled w (J_received d)"
  shows "good w (job_run ops w (J_received d))"
proof -
  obtain c where c: "w_client w = Some c" "mid_ok w c" "\<not> tc_socks_closed c" "tc_socks_up c"
    using socks_client [OF ok] j by auto
  note M = mid_okD [OF c(2)] and F = flags_okD [OF mid_okD(4) [OF c(2)]]
  let ?i = "(w_recv_if w)\<lparr>sri_job_done_len := int (length d), sri_job_done := True, sri_state := STATE_DONE_PENDING\<rparr>"
  let ?b = "d @ drop (length d) (tc_socks_recv_buf c)"
  let ?c = "c\<lparr>tc_socks_recv_buf := ?b\<rparr>"
  let ?w = "w\<lparr>w_recv_if := ?i, w_from_socks := w_from_socks w @ d, w_client := Some ?c\<rparr>"
  have r: "recv_ok c (w_recv_if w)" using M(6) [OF c(4,3)] .
  have len: "length d \<le> length (tc_socks_recv_buf c)" using F(1) r j by (auto simp: client_memory_def recv_ok_def)
  have run: "job_run ops w (J_received d) = Inr ?w"
    using j r c(1) len by (auto simp: with_client_def recv_ok_def mem_write_def StreamRecvInterface_Done_def set_client_def)
  have rc: "recv_ok ?c ?i" using r j by (auto simp: recv_ok_def)
  have "flags_ok ?c (w_pcb w) (w_socks w)" using M(4) len by (auto simp: flags_ok_def client_memory_def)
  moreover have "up_ok ?c (w_send_if w) (w_pcb w) (w_from_client w) (w_to_socks w)"
    using M(5) c(3) by (auto simp: up_ok_def send_ok_def taken_def)
  moreover have "stream_ends ?w"
    using M(3,8) F(4) by (auto simp: stream_ends_def cut_off_def prefix_def)
  ultimately have "mid_ok ?w ?c" using M(1,2,8) rc by (simp add: mid_ok_def cut_off_def)
  moreover have "down_ok ?c ?i (w_pcb w) (w_from_socks w @ d) (w_acked w) (w_socks_error w)" if "\<not> tc_client_closed c"
  proof -
    have "undelivered c (w_recv_if w) = []" "undelivered ?c ?i = d" using r j c(3) by (auto simp: undelivered_def recv_ok_def)
    then show ?thesis using world_okD(2) [OF ok c(1) that] c(3,4) by (auto simp: down_ok_def down_data_def)
  qed
  ultimately have "world_ok ?w" by (intro world_okI) (auto simp: live_ok_def c(3))
  then show ?thesis unfolding run by (simp add: dead_ok_def)
qed

subsection \<open>From the peer to SOCKS\<close>

lemma world_ok_buf:
  assumes ok: "world_ok w" and c: "w_client w = Some c" "\<not> tc_socks_closed c"
    and b: "length b = TCP_WND" "0 \<le> u" "u \<le> int TCP_WND" "tc_client_closed c \<Longrightarrow> u > 0"
    and up: "up_ok (c\<lparr>tc_buf := b, tc_buf_used := u\<rparr>) i ((w_pcb w)\<lparr>pcb_recved := r\<rparr>) fc (w_to_socks w)"
  shows "world_ok (w\<lparr>w_client := Some (c\<lparr>tc_buf := b, tc_buf_used := u\<rparr>), w_pcb := (w_pcb w)\<lparr>pcb_recved := r\<rparr>,
    w_send_if := i, w_from_client := fc\<rparr>)"
proof -
  let ?c = "c\<lparr>tc_buf := b, tc_buf_used := u\<rparr>" and ?p = "(w_pcb w)\<lparr>pcb_recved := r\<rparr>"
  let ?w = "w\<lparr>w_client := Some ?c, w_pcb := ?p, w_send_if := i, w_from_client := fc\<rparr>"
  note m = world_okD(1) [OF ok c(1)]
  note M = mid_okD [OF m]
  have "w_socks w \<noteq> SO_freed" using flags_okD(5) [OF M(4)] c(2) by (auto split: if_splits)
  then have "stream_ends ?w" using M(3) up_ok_prefix [OF up] by (auto simp: stream_ends_def)
  moreover have "flags_ok ?c ?p (w_socks w)" using M(4) b by (auto simp: flags_ok_def client_memory_def)
  moreover have "tc_socks_up c \<Longrightarrow> recv_ok ?c (w_recv_if w)" using M(6) c(2) by (auto simp: recv_ok_def)
  ultimately have "mid_ok ?w ?c" using M(1,2,8) up by (simp add: mid_ok_def cut_off_def)
  moreover have "down_ok ?c (w_recv_if w) ?p (w_from_socks w) (w_acked w) (w_socks_error w)" if "\<not> tc_client_closed c"
    using world_okD(2) [OF ok c(1) that] by (auto simp: down_ok_def undelivered_def)
  ultimately show ?thesis using world_okD(3) [OF ok c(1)] by (intro world_okI) (auto simp: live_ok_def)
qed

text \<open>The buffer after \<open>n\<close> bytes of it were sent.\<close>

definition shift_buf :: "tcp_client \<Rightarrow> nat \<Rightarrow> bytes" where
  "shift_buf c n = take (nat (tc_buf_used c) - n) (drop n (tc_buf c)) @ drop (nat (tc_buf_used c) - n) (tc_buf c)"

lemma shift_buf:
  assumes "n \<le> nat (tc_buf_used c)" "nat (tc_buf_used c) \<le> length (tc_buf c)"
  shows "length (shift_buf c n) = length (tc_buf c)"
    "take (nat (tc_buf_used c)) (tc_buf c) = take n (tc_buf c) @ take (nat (tc_buf_used c) - n) (shift_buf c n)"
proof -
  show "length (shift_buf c n) = length (tc_buf c)" using assms by (simp add: shift_buf_def)
  have "take (nat (tc_buf_used c) - n) (shift_buf c n) = take (nat (tc_buf_used c) - n) (drop n (tc_buf c))"
    using assms by (simp add: shift_buf_def)
  then show "take (nat (tc_buf_used c)) (tc_buf c) = take n (tc_buf c) @ take (nat (tc_buf_used c) - n) (shift_buf c n)"
    using assms by (metis le_add_diff_inverse take_add)
qed

lemma up_ok_sent:
  assumes u: "up_ok c i p fc ts" and c: "tc_socks_up c" "spi_state i = STATE_DONE_PENDING" "spi_job_done_len i = int n"
    and n: "n \<le> nat (tc_buf_used c)" "nat (tc_buf_used c) \<le> length (tc_buf c)"
    and i: "spi_state i' \<noteq> STATE_DONE_PENDING" "send_ok (c\<lparr>tc_buf := shift_buf c n, tc_buf_used := tc_buf_used c - int n\<rparr>) i'"
  shows "up_ok (c\<lparr>tc_buf := shift_buf c n, tc_buf_used := tc_buf_used c - int n\<rparr>) i' (p\<lparr>pcb_recved := pcb_recved p + int n\<rparr>) fc ts"
proof -
  obtain conf where conf: "fc = conf @ take (nat (tc_buf_used c)) (tc_buf c)" "ts = conf @ take n (tc_buf c)"
    "\<not> tc_client_closed c \<longrightarrow> pcb_recved p = int (length conf)"
    using u c by (auto simp: up_ok_def taken_def)
  have "nat (tc_buf_used c - int n) = nat (tc_buf_used c) - n" by simp
  then have "fc = (conf @ take n (tc_buf c)) @ take (nat (tc_buf_used c - int n)) (shift_buf c n)"
    using conf(1) shift_buf(2) [OF n] by simp
  moreover have "length (take n (tc_buf c)) = n" using n by simp
  ultimately show ?thesis using conf i by (auto simp: up_ok_def taken_def intro!: exI [of _ "conf @ take n (tc_buf c)"])
qed

lemma world_commute: "w\<lparr>w_send_if := i, w_client := c\<rparr> = w\<lparr>w_client := c, w_send_if := i\<rparr>"
  by simp

text \<open>The state after \<open>n\<close> bytes were sent, with the stream idle or sending the rest.\<close>

definition sent_world :: "'p world \<Rightarrow> tcp_client \<Rightarrow> nat \<Rightarrow> int StreamPassInterface \<Rightarrow> 'p world" where
  "sent_world w c n i = w\<lparr>w_client := Some (c\<lparr>tc_buf := shift_buf c n, tc_buf_used := tc_buf_used c - int n\<rparr>),
     w_pcb := (w_pcb w)\<lparr>pcb_recved := pcb_recved (w_pcb w) + (if tc_client_closed c then 0 else int n)\<rparr>, w_send_if := i, w_from_client := w_from_client w\<rparr>"

definition idle_if :: "int StreamPassInterface \<Rightarrow> int StreamPassInterface" where
  "idle_if i = i\<lparr>spi_job_done := False, spi_state := STATE_NONE\<rparr>"

definition send_if :: "int StreamPassInterface \<Rightarrow> int \<Rightarrow> int StreamPassInterface" where
  "send_if i len = i\<lparr>spi_job_done := False, spi_job_operation_data := Some 0, spi_job_operation_len := len, spi_job_operation := True,
     spi_state := STATE_OPERATION_PENDING\<rparr>"

lemma send_done_state:
  assumes ok: "world_ok w" and j: "job_enabled w J_send_done"
  obtains c n where "w_client w = Some c" "mid_ok w c" "\<not> tc_socks_closed c" "tc_socks_up c" "send_ok c (w_send_if w)"
    "spi_state (w_send_if w) = STATE_DONE_PENDING" "spi_job_done_len (w_send_if w) = int n" "0 < n" "int n \<le> tc_buf_used c"
    "nat (tc_buf_used c) \<le> length (tc_buf c)"
proof -
  obtain c where c: "w_client w = Some c" "mid_ok w c" "\<not> tc_socks_closed c" "tc_socks_up c"
    using socks_client [OF ok] j by auto
  note F = flags_okD [OF mid_okD(4) [OF c(2)]]
  have s: "send_ok c (w_send_if w)" using mid_okD(5) [OF c(2,3)] c(4) by (simp add: up_ok_def)
  have st: "spi_state (w_send_if w) = STATE_DONE_PENDING" using s j by (simp add: send_ok_def)
  have len: "nat (tc_buf_used c) \<le> length (tc_buf c)" using F(1,3) by (simp add: client_memory_def)
  show ?thesis by (rule that [OF c s st, of "nat (spi_job_done_len (w_send_if w))"]) (use s st len in \<open>auto simp: send_ok_def\<close>)
qed

lemma send_done_run:
  assumes ok: "mid_ok w c" "w_socks w = SO_up" and c: "\<not> tc_socks_closed c" "tc_socks_up c" "send_ok c (w_send_if w)"
    and st: "spi_state (w_send_if w) = STATE_DONE_PENDING" and n: "spi_job_done_len (w_send_if w) = int n" "0 < n" "int n \<le> tc_buf_used c"
    and len: "nat (tc_buf_used c) \<le> length (tc_buf c)"
  shows "job_run ops w J_send_done =
    (if tc_buf_used c - int n > 0 then Inr (sent_world w c n (send_if (w_send_if w) (tc_buf_used c - int n)))
     else if tc_client_closed c then client_free_socks ops (sent_world w c n (idle_if (w_send_if w)))
     else Inr (sent_world w c n (idle_if (w_send_if w))))"
proof -
  note M = mid_okD [OF ok(1)] and F = flags_okD [OF mid_okD(4) [OF ok(1)]]
  have io: "StreamPassInterface_job_done (w_send_if w) = Inr (idle_if (w_send_if w), int n)"
    using st n by (simp add: StreamPassInterface_job_done_def idle_if_def)
  define m where "m = nat (tc_buf_used c) - n"
  have um: "tc_buf_used c - int n = int m" "int n < tc_buf_used c \<longleftrightarrow> 0 < m" using n by (auto simp: m_def)
  have rd: "mem_read (tc_buf c) n m = Inr (take m (drop n (tc_buf c)))" using len n by (simp add: mem_read_def m_def)
  have wr: "mem_write (tc_buf c) 0 (take m (drop n (tc_buf c))) = Inr (shift_buf c n)"
    using len n by (simp add: mem_write_def shift_buf_def m_def)
  show ?thesis
    unfolding um(1) sent_world_def using c n ok(2) st M(1) F(4)
    by (simp add: Let_def io um client_socks_send_handler_done_def with_client_def rd wr tcp_op_def socks_send_def set_client_def
      StreamPassInterface_Sender_Send_def send_ok_def world_commute idle_if_def send_if_def)
qed

lemma sent_world_ok:
  assumes ok: "world_ok w" "w_client w = Some c" "mid_ok w c" and c: "\<not> tc_socks_closed c" "tc_socks_up c"
    and st: "spi_state (w_send_if w) = STATE_DONE_PENDING" and n: "spi_job_done_len (w_send_if w) = int n" "int n \<le> tc_buf_used c"
    and len: "nat (tc_buf_used c) \<le> length (tc_buf c)"
    and i: "spi_state i \<noteq> STATE_DONE_PENDING" "send_ok (c\<lparr>tc_buf := shift_buf c n, tc_buf_used := tc_buf_used c - int n\<rparr>) i"
  shows "tc_client_closed c \<longrightarrow> int n < tc_buf_used c \<Longrightarrow> world_ok (sent_world w c n i)"
    "int n = tc_buf_used c \<Longrightarrow> w_to_socks w = w_from_client w"
proof -
  let ?c = "c\<lparr>tc_buf := shift_buf c n, tc_buf_used := tc_buf_used c - int n\<rparr>"
  note M = mid_okD [OF ok(3)] and F = flags_okD [OF mid_okD(4) [OF ok(3)]]
  have up: "up_ok ?c i ((w_pcb w)\<lparr>pcb_recved := pcb_recved (w_pcb w) + (if tc_client_closed c then 0 else int n)\<rparr>) (w_from_client w) (w_to_socks w)"
    using up_ok_sent [OF M(5) [OF c(1)] c(2) st n(1) _ len i] n(2) by (auto simp: up_ok_def)
  show "world_ok (sent_world w c n i)" if "tc_client_closed c \<longrightarrow> int n < tc_buf_used c"
    unfolding sent_world_def using that F(1,3) n shift_buf(1) [of n c] len
    by (intro world_ok_buf [OF ok(1,2) c(1)] up) (auto simp: client_memory_def)
  show "w_to_socks w = w_from_client w" if "int n = tc_buf_used c" using up_ok_all_sent [OF up] that by simp
qed

lemma send_done_good:
  assumes ok: "world_ok w" and j: "job_enabled w J_send_done"
  shows "good w (job_run ops w J_send_done)"
proof -
  obtain c n where c: "w_client w = Some c" "mid_ok w c" "\<not> tc_socks_closed c" "tc_socks_up c" and s: "send_ok c (w_send_if w)"
    and st: "spi_state (w_send_if w) = STATE_DONE_PENDING" and n: "spi_job_done_len (w_send_if w) = int n" "0 < n" "int n \<le> tc_buf_used c"
    and len: "nat (tc_buf_used c) \<le> length (tc_buf c)"
    using send_done_state [OF assms] .
  note M = mid_okD [OF c(2)] and F = flags_okD [OF mid_okD(4) [OF c(2)]]
  have so: "w_socks w = SO_up" using j by simp
  note run = send_done_run [OF c(2) so c(3,4) s st n len, of ops]
  note next_ok = sent_world_ok [OF ok c st n(1,3) len]
  let ?c = "c\<lparr>tc_buf := shift_buf c n, tc_buf_used := tc_buf_used c - int n\<rparr>"
  let ?i = "idle_if (w_send_if w)" and ?i' = "send_if (w_send_if w) (tc_buf_used c - int n)"
  have idle: "spi_state ?i \<noteq> STATE_DONE_PENDING" "int n = tc_buf_used c \<Longrightarrow> send_ok ?c ?i"
    using s st by (auto simp: send_ok_def idle_if_def)
  have more_to_send: "spi_state ?i' \<noteq> STATE_DONE_PENDING" "int n < tc_buf_used c \<Longrightarrow> send_ok ?c ?i'"
    using s st by (auto simp: send_ok_def send_if_def)
  consider "tc_buf_used c - int n > 0" | "tc_buf_used c = int n" "tc_client_closed c" | "tc_buf_used c = int n" "\<not> tc_client_closed c"
    using n(3) by linarith
  then show ?thesis
  proof cases
    case 1
    then have "world_ok (sent_world w c n ?i')" using 1 by (intro next_ok(1) more_to_send) auto
    then show ?thesis unfolding run using 1 by (simp add: dead_ok_def sent_world_def)
  next
    case 2
    have "w_to_socks w = w_from_client w" using 2 by (intro next_ok(2) [OF idle]) auto
    moreover have "stream_ends (sent_world w c n ?i)" using M(3) by (auto simp: stream_ends_def sent_world_def)
    ultimately have "good (sent_world w c n ?i) (client_free_socks ops (sent_world w c n ?i))"
      using 2 c M(1,2) so F(4) by (intro close_socks_closed [where c = ?c]) (auto simp: sent_world_def)
    then show ?thesis unfolding run using 2 by (simp add: good_def dead_ok_def sent_world_def)
  next
    case 3
    then have "world_ok (sent_world w c n ?i)" by (intro next_ok(1) idle) auto
    then show ?thesis unfolding run using 3 by (simp add: dead_ok_def sent_world_def)
  qed
qed

text \<open>The SOCKS client comes up: what was buffered starts to be sent, and receiving starts.\<close>

lemma socks_up_good:
  assumes ok: "world_ok w" and j: "w_socks w = SO_down"
  shows "good w (job_run ops w (J_event BSOCKSCLIENT_EVENT_UP))"
proof -
  obtain c where c: "w_client w = Some c" "mid_ok w c" "\<not> tc_socks_closed c" "\<not> tc_socks_up c"
    using socks_client [OF ok] j by auto
  note M = mid_okD [OF c(2)] and F = flags_okD [OF mid_okD(4) [OF c(2)]]
  let ?c = "c\<lparr>tc_socks_recv_buf_used := - 1, tc_socks_recv_tcp_pending := 0, tc_socks_up := True\<rparr>"
  let ?p = "(w_pcb w)\<lparr>pcb_sent := True\<rparr>"
  let ?s = "StreamPassInterface_Init\<lparr>spi_handler_done := True\<rparr> :: int StreamPassInterface"
  let ?s' = "?s\<lparr>spi_job_operation_data := Some 0, spi_job_operation_len := tc_buf_used c, spi_job_operation := True, spi_state := STATE_OPERATION_PENDING\<rparr>"
  let ?r = "StreamRecvInterface_Init\<lparr>sri_handler_done := True\<rparr> :: int StreamRecvInterface"
  let ?r' = "?r\<lparr>sri_job_operation_data := Some 0, sri_job_operation_len := int CLIENT_SOCKS_RECV_BUF_SIZE, sri_job_operation := True,
    sri_state := STATE_OPERATION_PENDING\<rparr>"
  define i where "i = (if tc_buf_used c > 0 then ?s' else ?s)"
  define ri where "ri = (if tc_client_closed c then ?r else ?r')"
  define p where "p = (if tc_client_closed c then w_pcb w else ?p)"
  let ?w = "w\<lparr>w_socks := SO_up, w_send_if := i, w_recv_if := ri, w_pcb := p, w_client := Some ?c\<rparr>"
  have run: "job_run ops w (J_event BSOCKSCLIENT_EVENT_UP) = Inr ?w"
    using c F(4) by (simp add: client_socks_handler_def with_client_def StreamPassInterface_Sender_Init_def StreamPassInterface_Init_def
      StreamRecvInterface_Init_def StreamRecvInterface_Receiver_Init_def Let_def tcp_op_def set_client_def client_send_to_socks_def socks_send_def
      StreamPassInterface_Sender_Send_def client_socks_recv_initiate_def StreamRecvInterface_Receiver_Recv_def CLIENT_SOCKS_RECV_BUF_SIZE_def
      i_def ri_def p_def)
  have "stream_ends ?w" using M(3) j by (auto simp: stream_ends_def p_def)
  moreover have "flags_ok ?c p SO_up" using M(4) c(3,4) by (auto simp: flags_ok_def client_memory_def p_def)
  moreover have "send_ok ?c i" using F(2) by (auto simp: send_ok_def i_def StreamPassInterface_Init_def)
  then have "up_ok ?c i p (w_from_client w) (w_to_socks w)" using M(5) [OF c(3)] c(4)
    by (auto simp: up_ok_def taken_def p_def i_def StreamPassInterface_Init_def)
  moreover have "recv_ok ?c ri" by (auto simp: recv_ok_def ri_def StreamRecvInterface_Init_def)
  moreover have "tc_client_closed c \<longrightarrow> cut_off ?w p" using M(8) by (auto simp: cut_off_def p_def)
  ultimately have "mid_ok ?w ?c" using M(1,2) by (simp add: mid_ok_def)
  moreover have "down_ok ?c ri p (w_from_socks w) (w_acked w) (w_socks_error w)" if "\<not> tc_client_closed c"
    using world_okD(2) [OF ok c(1) that] c(3,4) by (auto simp: down_ok_def down_data_def undelivered_def p_def ri_def that)
  ultimately have "world_ok ?w" by (intro world_okI) (auto simp: live_ok_def ri_def c(3))
  then show ?thesis unfolding run by (simp add: dead_ok_def p_def)
qed

subsection \<open>From SOCKS to the peer\<close>

text \<open>
  The loop writes some of the buffer to the peer and counts it; if it stops without an abort and everything is written, some bytes are
  pending.
\<close>

lemma send_out_loop:
  assumes "0 \<le> tc_socks_recv_buf_sent c" "tc_socks_recv_buf_sent c < tc_socks_recv_buf_used c"
    "tc_socks_recv_buf_used c \<le> int (length (tc_socks_recv_buf c))"
  shows "\<exists>n st failed. n \<le> nat (tc_socks_recv_buf_used c - tc_socks_recv_buf_sent c) \<and>
    send_out_loop ops c p = Inr
      (c\<lparr>tc_socks_recv_buf_sent := tc_socks_recv_buf_sent c + int n, tc_socks_recv_tcp_pending := tc_socks_recv_tcp_pending c + int n\<rparr>,
       p\<lparr>pcb_state := st, pcb_written := pcb_written p @ take n (drop (nat (tc_socks_recv_buf_sent c)) (tc_socks_recv_buf c))\<rparr>, failed)"
  using assms
proof (induction "nat (tc_socks_recv_buf_used c - tc_socks_recv_buf_sent c)" arbitrary: c p rule: less_induct)
  case less
  define k where "k = nat (min (tc_socks_recv_buf_used c - tc_socks_recv_buf_sent c) (uint (lw_sndbuf ops (pcb_state p))))"
  have k: "min (tc_socks_recv_buf_used c - tc_socks_recv_buf_sent c) (uint (lw_sndbuf ops (pcb_state p))) = int k"
    "int k \<le> tc_socks_recv_buf_used c - tc_socks_recv_buf_sent c"
    using less.prems by (simp_all add: k_def)
  let ?bs = "take k (drop (nat (tc_socks_recv_buf_sent c)) (tc_socks_recv_buf c))"
  obtain st err where wr: "lw_write ops (pcb_state p) ?bs = (st, err)" by fastforce
  have rd: "mem_read (tc_socks_recv_buf c) (nat (tc_socks_recv_buf_sent c)) k = Inr ?bs" using less.prems k(2) by (simp add: mem_read_def)
  let ?c = "c\<lparr>tc_socks_recv_buf_sent := tc_socks_recv_buf_sent c + int k, tc_socks_recv_tcp_pending := tc_socks_recv_tcp_pending c + int k\<rparr>"
  let ?p = "p\<lparr>pcb_state := st, pcb_written := pcb_written p @ ?bs\<rparr>"
  have run: "send_out_loop ops c p =
    (if k = 0 then Inr (c, p, False) else if err \<noteq> ERR_OK then Inr (c, p\<lparr>pcb_state := st\<rparr>, err \<noteq> ERR_MEM)
     else if tc_socks_recv_buf_sent c + int k < tc_socks_recv_buf_used c then send_out_loop ops ?c ?p else Inr (?c, ?p, False))"
    by (subst send_out_loop.simps) (simp add: k(1) rd wr Let_def)
  have same: "c\<lparr>tc_socks_recv_buf_sent := tc_socks_recv_buf_sent c, tc_socks_recv_tcp_pending := tc_socks_recv_tcp_pending c\<rparr> = c"
    "p\<lparr>pcb_state := st', pcb_written := pcb_written p\<rparr> = p\<lparr>pcb_state := st'\<rparr>" "p\<lparr>pcb_state := pcb_state p\<rparr> = p" for st'
    by simp_all
  consider (stop) "k = 0" | (fail) "k \<noteq> 0" "err \<noteq> ERR_OK" | (go) "k \<noteq> 0" "err = ERR_OK" "tc_socks_recv_buf_sent c + int k < tc_socks_recv_buf_used c"
    | (last) "k \<noteq> 0" "err = ERR_OK" "\<not> tc_socks_recv_buf_sent c + int k < tc_socks_recv_buf_used c" by blast
  then show ?case
  proof cases
    case stop
    then show ?thesis using run same by (intro exI [of _ 0] exI [of _ "pcb_state p"] exI [of _ False]) simp
  next
    case fail
    then show ?thesis using run same by (intro exI [of _ 0] exI [of _ st] exI [of _ "err \<noteq> ERR_MEM"]) simp
  next
    case last
    then show ?thesis using run k(2) by (intro exI [of _ k] exI [of _ st] exI [of _ False]) auto
  next
    case go
    obtain n st' failed where IH: "n \<le> nat (tc_socks_recv_buf_used c - (tc_socks_recv_buf_sent c + int k))"
      "send_out_loop ops ?c ?p = Inr
        (?c\<lparr>tc_socks_recv_buf_sent := tc_socks_recv_buf_sent ?c + int n, tc_socks_recv_tcp_pending := tc_socks_recv_tcp_pending ?c + int n\<rparr>,
         ?p\<lparr>pcb_state := st', pcb_written := pcb_written ?p @ take n (drop (nat (tc_socks_recv_buf_sent ?c)) (tc_socks_recv_buf ?c))\<rparr>, failed)"
      using less.hyps [of ?c ?p] less.prems go by auto
    have "take (k + n) (drop (nat (tc_socks_recv_buf_sent c)) (tc_socks_recv_buf c)) =
        ?bs @ take n (drop (nat (tc_socks_recv_buf_sent c + int k)) (tc_socks_recv_buf c))"
      using less.prems by (simp add: take_add nat_add_distrib add.commute)
    then show ?thesis using run go IH by (intro exI [of _ "k + n"] exI [of _ st'] exI [of _ failed]) (auto simp: add.assoc)
  qed
qed

lemma mid_ok_down:
  assumes m: "mid_ok w c" and cl: "\<not> tc_client_closed c"
    and pre: "Sublist.prefix bs (w_from_socks w)"
    and c': "c' = c\<lparr>tc_socks_recv_buf_sent := s, tc_socks_recv_tcp_pending := n, tc_socks_recv_waiting := b, tc_socks_recv_buf_used := u\<rparr>"
    and none: "\<not> tc_socks_closed c \<Longrightarrow> sri_state (w_recv_if w) = STATE_NONE"
  shows "mid_ok (w\<lparr>w_pcb := (w_pcb w)\<lparr>pcb_state := st, pcb_written := bs\<rparr>, w_client := Some c'\<rparr>) c'"
proof -
  note M = mid_okD [OF m] and F = flags_okD [OF mid_okD(4) [OF m]]
  let ?p = "(w_pcb w)\<lparr>pcb_state := st, pcb_written := bs\<rparr>"
  have "stream_ends (w\<lparr>w_pcb := ?p, w_client := Some c'\<rparr>)" using M(3) F(4) cl pre by (auto simp: stream_ends_def)
  moreover have "flags_ok c' ?p (w_socks w)" using M(4) by (auto simp: flags_ok_def client_memory_def c')
  moreover have "\<not> tc_socks_closed c \<Longrightarrow> up_ok c' (w_send_if w) ?p (w_from_client w) (w_to_socks w)"
    using M(5) by (auto simp: up_ok_def send_ok_def taken_def c')
  moreover have "tc_socks_up c \<Longrightarrow> \<not> tc_socks_closed c \<Longrightarrow> recv_ok c' (w_recv_if w)"
    using M(6) none by (auto simp: recv_ok_def)
  ultimately show ?thesis using M(1,2) cl by (simp add: mid_ok_def c')
qed

lemma abort_good:
  assumes "mid_ok w c" "\<not> tc_client_closed c"
  shows "\<exists>w'. client_abort_client ops w = Inr w' \<and> world_ok w' \<and> w_dead_client w' \<and> \<not> pcb_alive (w_pcb w')"
  using abort_client_pcb [of w c ops] close_client [of w c "aborted_pcb (w_pcb w)" ops] assms mid_okD(1) [OF assms(1)]
    flags_okD(4) [OF mid_okD(4) [OF assms(1)]] by (simp add: aborted_pcb_def cut_off_def)

text \<open>What holds after \<open>client_socks_recv_send_out\<close> when the peer is still there.\<close>

definition sent_out :: "'p world \<Rightarrow> 'p world \<Rightarrow> tcp_client \<Rightarrow> bool" where
  "sent_out w w' c' \<longleftrightarrow> mid_ok w' c' \<and> down_ok c' (w_recv_if w') (w_pcb w') (w_from_socks w') (w_acked w') (w_socks_error w') \<and>
     \<not> tc_client_closed c' \<and> tc_socks_up c' \<and> tc_socks_recv_tcp_pending c' > 0 \<and> w_recv_if w' = w_recv_if w \<and>
     w_dead_client w' = w_dead_client w \<and> pcb_alive (w_pcb w')"

lemma send_out_data:
  assumes d: "down_data (drop s (take u buf)) out fs e" and n: "s + n \<le> u"
  shows "down_data (drop (s + n) (take u buf)) (out @ take n (drop s buf)) fs e"
proof -
  have "take n (drop s (take u buf)) = take n (drop s buf)" "drop n (drop s (take u buf)) = drop (s + n) (take u buf)"
    using n by (simp_all add: drop_take min_absorb1 add.commute)
  then have "drop s (take u buf) = take n (drop s buf) @ drop (s + n) (take u buf)" by (metis append_take_drop_id)
  then show ?thesis using d by (auto simp: down_data_def)
qed

lemma down_commute:
  "w\<lparr>w_client := x, w_pcb := y\<rparr> = w\<lparr>w_pcb := y, w_client := x\<rparr>"
  "p\<lparr>pcb_written := bs, pcb_state := st\<rparr> = p\<lparr>pcb_state := st, pcb_written := bs\<rparr>"
  "c\<lparr>tc_socks_recv_buf_used := u, tc_socks_recv_waiting := b\<rparr> = c\<lparr>tc_socks_recv_waiting := b, tc_socks_recv_buf_used := u\<rparr>"
  by simp_all

lemma send_out_good:
  assumes m: "mid_ok w c" and cl: "\<not> tc_client_closed c" "tc_socks_up c" "\<not> tc_socks_recv_waiting c"
    and b: "0 \<le> tc_socks_recv_buf_sent c" "tc_socks_recv_buf_sent c < tc_socks_recv_buf_used c"
      "tc_socks_recv_buf_used c \<le> int CLIENT_SOCKS_RECV_BUF_SIZE"
    and pend: "tc_socks_recv_tcp_pending c = int (length (pcb_written (w_pcb w))) - w_acked w" "0 \<le> tc_socks_recv_tcp_pending c"
    and d: "down_data (undelivered c (w_recv_if w)) (pcb_written (w_pcb w)) (w_from_socks w) (w_socks_error w \<and> tc_socks_closed c)"
  shows "\<exists>w' killed. client_socks_recv_send_out ops w = Inr (w', killed) \<and>
    (if killed then world_ok w' \<and> w_dead_client w' \<and> \<not> pcb_alive (w_pcb w') else \<exists>c'. sent_out w w' c' \<and> tc_socks_closed c' = tc_socks_closed c)"
proof -
  note M = mid_okD [OF m] and F = flags_okD [OF mid_okD(4) [OF m]]
  let ?s = "tc_socks_recv_buf_sent c" and ?u = "tc_socks_recv_buf_used c" and ?b = "tc_socks_recv_buf c" and ?q = "tc_socks_recv_tcp_pending c"
  have len: "length ?b = CLIENT_SOCKS_RECV_BUF_SIZE" using F(1) by (simp add: client_memory_def)
  obtain n st failed where n: "n \<le> nat (?u - ?s)" and loop: "send_out_loop ops c (w_pcb w) = Inr
      (c\<lparr>tc_socks_recv_buf_sent := ?s + int n, tc_socks_recv_tcp_pending := ?q + int n\<rparr>,
       (w_pcb w)\<lparr>pcb_state := st, pcb_written := pcb_written (w_pcb w) @ take n (drop (nat ?s) ?b)\<rparr>, failed)"
    using send_out_loop [of c ops "w_pcb w"] b len by auto
  obtain st2 err where lo: "lw_output ops st = (st2, err)" by fastforce
  let ?bs = "pcb_written (w_pcb w) @ take n (drop (nat ?s) ?b)"
  let ?c = "\<lambda>wait u. c\<lparr>tc_socks_recv_buf_sent := ?s + int n, tc_socks_recv_tcp_pending := ?q + int n, tc_socks_recv_waiting := wait, tc_socks_recv_buf_used := u\<rparr>"
  let ?w = "\<lambda>st c. w\<lparr>w_pcb := (w_pcb w)\<lparr>pcb_state := st, pcb_written := ?bs\<rparr>, w_client := Some c\<rparr>"
  have d1: "down_data (drop (nat ?s + n) (take (nat ?u) ?b)) ?bs (w_from_socks w) (w_socks_error w \<and> tc_socks_closed c)"
    using d b n by (intro send_out_data) (auto simp: undelivered_def)
  have none: "sri_state (w_recv_if w) = STATE_NONE" if "\<not> tc_socks_closed c"
    using M(6) [OF cl(2) that] b by (auto simp: recv_ok_def)
  have mid: "mid_ok (?w st' (?c wait u)) (?c wait u)" for st' wait u
    using d1 none by (intro mid_ok_down [OF m cl(1)]) (auto simp: down_data_def)
  have loop': "send_out_loop ops c (w_pcb w) = Inr (?c False ?u, (w_pcb w)\<lparr>pcb_state := st, pcb_written := ?bs\<rparr>, failed)"
    unfolding loop using cl(3) by (cases c) simp
  have run: "client_socks_recv_send_out ops w =
    (if failed then andthen (client_abort_client ops (?w st (?c False ?u))) (\<lambda>w. Inr (w, True))
     else if err \<noteq> ERR_OK \<or> ?s + int n < ?u \<and> ?q + int n = 0 then andthen (client_abort_client ops (?w st2 (?c False ?u))) (\<lambda>w. Inr (w, True))
     else if ?s + int n < ?u then Inr (?w st2 (?c True ?u), False)
     else Inr (?w st2 (?c False (- 1)), False))"
    using M(1) cl b F(4) by (simp add: client_socks_recv_send_out_def with_client_def loop' lo Let_def set_client_def down_commute)
  have ab: ?thesis if "client_socks_recv_send_out ops w = andthen (client_abort_client ops (?w st' (?c False ?u))) (\<lambda>w. Inr (w, True))" for st'
  proof -
    have "\<not> tc_client_closed (?c False ?u)" using cl(1) by simp
    then obtain w' where "client_abort_client ops (?w st' (?c False ?u)) = Inr w'" "world_ok w'" "w_dead_client w'" "\<not> pcb_alive (w_pcb w')"
      using abort_good [OF mid [where st' = st' and wait = False and u = ?u], of ops] by blast
    then show ?thesis unfolding that by (intro exI [of _ w'] exI [of _ True]) simp
  qed
  have out: ?thesis if "client_socks_recv_send_out ops w = Inr (?w st2 (?c wait u), False)" "?q + int n > 0"
    "down_ok (?c wait u) (w_recv_if w) ((w_pcb w)\<lparr>pcb_state := st2, pcb_written := ?bs\<rparr>) (w_from_socks w) (w_acked w) (w_socks_error w)" for wait u
  proof -
    have "sent_out w (?w st2 (?c wait u)) (?c wait u)"
      unfolding sent_out_def using that(2,3) mid [where st' = st2 and wait = wait and u = u] cl(1,2) F(4) by simp
    then show ?thesis unfolding that(1) by (intro exI [of _ "?w st2 (?c wait u)"] exI [of _ False]) auto
  qed
  consider "failed" | "\<not> failed" "err \<noteq> ERR_OK \<or> ?s + int n < ?u \<and> ?q + int n = 0" | "\<not> failed" "err = ERR_OK" "?s + int n < ?u" "?q + int n \<noteq> 0"
    | "\<not> failed" "err = ERR_OK" "\<not> ?s + int n < ?u" by blast
  then show ?thesis
  proof cases
    case 3
    have ws: "nat (?s + int n) = nat ?s + n" using b by simp
    have "down_ok (?c True ?u) (w_recv_if w) ((w_pcb w)\<lparr>pcb_state := st2, pcb_written := ?bs\<rparr>) (w_from_socks w) (w_acked w) (w_socks_error w)"
      using 3 pend b d1 cl(2) n len by (simp add: down_ok_def undelivered_def ws)
    moreover have "client_socks_recv_send_out ops w = Inr (?w st2 (?c True ?u), False)" unfolding run using 3 by simp
    moreover have "?q + int n > 0" using 3 pend(2) by linarith
    ultimately show ?thesis by (intro out [where wait = True and u = ?u])
  next
    case 4
    then have all: "nat ?s + n = nat ?u" "n > 0" using n b by auto
    have "undelivered (?c False (- 1)) (w_recv_if w) = []" using none by (auto simp: undelivered_def)
    moreover have "length ?bs = length (pcb_written (w_pcb w)) + n" using len b all by simp
    ultimately have "down_ok (?c False (- 1)) (w_recv_if w) ((w_pcb w)\<lparr>pcb_state := st2, pcb_written := ?bs\<rparr>) (w_from_socks w) (w_acked w) (w_socks_error w)"
      using pend d1 cl(2) all by (simp add: down_ok_def)
    moreover have "client_socks_recv_send_out ops w = Inr (?w st2 (?c False (- 1)), False)" unfolding run using 4 by simp
    moreover have "?q + int n > 0" using all pend(2) by linarith
    ultimately show ?thesis by (intro out [where wait = False and u = "- 1"])
  qed (use run ab in auto)
qed

lemma sent_out_stop:
  assumes "sent_out w w' c'" "tc_socks_closed c' \<or> tc_socks_recv_buf_used c' \<noteq> - 1"
  shows "world_ok w'"
  using assms by (intro world_okI [of w' c']) (auto simp: sent_out_def live_ok_def)

lemma sent_out_initiate:
  assumes s: "sent_out w w' c'" and c: "\<not> tc_socks_closed c'" "tc_socks_recv_buf_used c' = - 1" and none: "sri_state (w_recv_if w) = STATE_NONE"
  shows "\<exists>w''. client_socks_recv_initiate w' = Inr w'' \<and> world_ok w'' \<and> w_dead_client w'' = w_dead_client w \<and> pcb_alive (w_pcb w'')"
proof -
  have m: "mid_ok w' c'" "tc_socks_up c'" "\<not> tc_client_closed c'" "w_recv_if w' = w_recv_if w" "pcb_alive (w_pcb w')" "w_dead_client w' = w_dead_client w"
    using s by (auto simp: sent_out_def)
  note M = mid_okD [OF m(1)] and F = flags_okD [OF mid_okD(4) [OF m(1)]]
  let ?i = "(w_recv_if w)\<lparr>sri_job_operation_data := Some 0, sri_job_operation_len := int CLIENT_SOCKS_RECV_BUF_SIZE, sri_job_operation := True,
    sri_state := STATE_OPERATION_PENDING\<rparr>"
  let ?w = "w'\<lparr>w_recv_if := ?i\<rparr>"
  have r: "recv_ok c' (w_recv_if w)" using M(6) [OF m(2) c(1)] m(4) by simp
  have run: "client_socks_recv_initiate w' = Inr ?w"
    using M(1) c m r none F(5) by (simp add: client_socks_recv_initiate_def with_client_def StreamRecvInterface_Receiver_Recv_def recv_ok_def CLIENT_SOCKS_RECV_BUF_SIZE_def)
  have "recv_ok c' ?i" using r none c(2) by (auto simp: recv_ok_def)
  then have "mid_ok ?w c'" using m(1) by (simp add: mid_ok_def stream_ends_def cut_off_def)
  moreover have "undelivered c' ?i = undelivered c' (w_recv_if w)" using none by (simp add: undelivered_def)
  then have "down_ok c' ?i p fs ack e = down_ok c' (w_recv_if w') p fs ack e" for p :: "'a pcb" and fs ack e
    using m(4) by (simp add: down_ok_def)
  then have "down_ok c' ?i (w_pcb w') (w_from_socks w') (w_acked w') (w_socks_error w')"
    using s m(4) by (simp add: sent_out_def)
  ultimately have "world_ok ?w" by (intro world_okI [of ?w c']) (auto simp: live_ok_def c(1))
  then show ?thesis using run m by simp
qed

lemma recv_done_good:
  assumes ok: "world_ok w" and j: "job_enabled w J_recv_done"
  shows "good w (job_run ops w J_recv_done)"
proof -
  obtain c where c: "w_client w = Some c" "mid_ok w c" "\<not> tc_socks_closed c" "tc_socks_up c"
    using socks_client [OF ok] j by auto
  note M = mid_okD [OF c(2)] and F = flags_okD [OF mid_okD(4) [OF c(2)]]
  have r: "recv_ok c (w_recv_if w)" using M(6) [OF c(4,3)] .
  define n where "n = sri_job_done_len (w_recv_if w)"
  have st: "sri_state (w_recv_if w) = STATE_DONE_PENDING" using r j by (simp add: recv_ok_def)
  then have n: "0 < n" "n \<le> int CLIENT_SOCKS_RECV_BUF_SIZE" "tc_socks_recv_buf_used c = - 1" using r by (auto simp: recv_ok_def n_def)
  let ?i = "(w_recv_if w)\<lparr>sri_job_done := False, sri_state := STATE_NONE\<rparr>"
  let ?w = "w\<lparr>w_recv_if := ?i\<rparr>"
  have jr: "job_run ops w J_recv_done = client_socks_recv_handler_done ops ?w n"
    using st by (simp add: StreamRecvInterface_job_done_def n_def)
  show ?thesis
  proof (cases "tc_client_closed c")
    case True
    have "job_run ops w J_recv_done = Inr ?w" using jr c n True by (simp add: client_socks_recv_handler_done_def with_client_def)
    moreover have "recv_ok c ?i" using r st by (auto simp: recv_ok_def)
    then have "mid_ok ?w c" using c(2) by (simp add: mid_ok_def stream_ends_def cut_off_def)
    then have "world_ok ?w" using True by (intro world_okI) auto
    ultimately show ?thesis by (simp add: dead_ok_def)
  next
    case False
    let ?c = "c\<lparr>tc_socks_recv_buf_used := n, tc_socks_recv_buf_sent := 0, tc_socks_recv_waiting := False\<rparr>"
    let ?w1 = "w\<lparr>w_recv_if := ?i, w_client := Some ?c\<rparr>"
    have d: "down_ok c (w_recv_if w) (w_pcb w) (w_from_socks w) (w_acked w) (w_socks_error w)" using world_okD(2) [OF ok c(1) False] .
    have "flags_ok ?c (w_pcb w) (w_socks w)" using M(4) by (auto simp: flags_ok_def client_memory_def)
    moreover have "up_ok ?c (w_send_if w) (w_pcb w) (w_from_client w) (w_to_socks w)"
      using M(5) [OF c(3)] by (auto simp: up_ok_def send_ok_def taken_def)
    moreover have "recv_ok ?c ?i" using r st by (auto simp: recv_ok_def)
    ultimately have m1: "mid_ok ?w1 ?c" using M(1,2,3) False by (simp add: mid_ok_def stream_ends_def)
    have "undelivered ?c ?i = undelivered c (w_recv_if w)" using n st c(3) by (simp add: undelivered_def n_def)
    then have "\<exists>w' killed. client_socks_recv_send_out ops ?w1 = Inr (w', killed) \<and> (if killed then world_ok w' \<and> w_dead_client w' \<and> \<not> pcb_alive (w_pcb w')
        else \<exists>c'. sent_out ?w1 w' c' \<and> tc_socks_closed c' = tc_socks_closed ?c)"
      using d c(3,4) False n by (intro send_out_good [OF m1]) (auto simp: down_ok_def)
    then obtain w' killed where so: "client_socks_recv_send_out ops ?w1 = Inr (w', killed)"
      and w': "if killed then world_ok w' \<and> w_dead_client w' \<and> \<not> pcb_alive (w_pcb w') else \<exists>c'. sent_out ?w1 w' c' \<and> tc_socks_closed c' = tc_socks_closed ?c"
      by blast
    have run: "job_run ops w J_recv_done =
        (if killed then Inr w' else with_client w' (\<lambda>c. if tc_socks_recv_buf_used c = - 1 then client_socks_recv_initiate w' else Inr w'))"
      using jr so c n False by (simp add: client_socks_recv_handler_done_def with_client_def set_client_def)
    have alive: "pcb_alive (w_pcb w)" using F(4) False by simp
    show ?thesis
    proof (cases killed)
      case True
      then show ?thesis using run w' by (simp add: dead_ok_def)
    next
      case nk: False
      then obtain c' where s: "sent_out ?w1 w' c'" "\<not> tc_socks_closed c'" using w' c(3) by auto
      then have cl: "w_client w' = Some c'" "pcb_alive (w_pcb w')" "w_dead_client w' = w_dead_client w" by (auto simp: sent_out_def mid_ok_def)
      show ?thesis
      proof (cases "tc_socks_recv_buf_used c' = - 1")
        case True
        then show ?thesis using run nk cl sent_out_initiate [OF s True] alive by (auto simp: with_client_def dead_ok_def)
      next
        case False
        then show ?thesis using run nk cl sent_out_stop [OF s(1)] alive by (auto simp: with_client_def dead_ok_def)
      qed
    qed
  qed
qed

subsection \<open>Jobs\<close>

lemma job_good:
  assumes "world_ok w" "job_enabled w j"
  shows "good w (job_run ops w j)"
proof (cases j)
  case (J_event e)
  then show ?thesis using assms socks_end_good [OF assms(1), of e ops] socks_up_good [OF assms(1), of ops] by (cases e) auto
qed (use assms send_operation_good sent_good send_done_good recv_operation_good received_good recv_done_good in blast)+

lemma run_jobs_good: "world_ok w \<Longrightarrow> good w (run_jobs ops w js)"
proof (induction js arbitrary: w)
  case Nil
  then show ?case by simp
next
  case (Cons j js)
  have "good w (if job_enabled w j then job_run ops w j else Inr w)" using job_good [OF Cons.prems] Cons.prems by simp
  then obtain w1 where w1: "(if job_enabled w j then job_run ops w j else Inr w) = Inr w1" "world_ok w1" "dead_ok w \<longrightarrow> dead_ok w1"
    by (auto simp: good_def)
  then show ?case using Cons.IH [OF w1(2)] unfolding run_jobs.simps by (auto simp: good_def)
qed

text \<open>\<^verbatim>\<open>SYNC_COMMIT\<close> reports the client killed exactly when its control block is gone.\<close>

lemma sync_commit_good:
  assumes "world_ok w" "pcb_alive (w_pcb w)"
  shows "\<exists>w'. sync_commit ops w jobs = Inr (w', \<not> pcb_alive (w_pcb w')) \<and> world_ok w'"
proof -
  have "world_ok (w\<lparr>w_dead_client := False\<rparr>)" using assms(1)
    by (cases "w_client w") (simp_all add: world_ok_def mid_ok_def stream_ends_def cut_off_def)
  from run_jobs_good [OF this, of ops jobs] show ?thesis using assms(2) by (auto simp: good_def sync_commit_def dead_ok_def)
qed

subsection \<open>The callbacks of lwIP\<close>

lemma open_client:
  assumes "world_ok w" "pcb_alive (w_pcb w)"
  obtains c where "w_client w = Some c" "mid_ok w c" "\<not> tc_client_closed c"
proof (cases "w_client w")
  case None
  then show ?thesis using assms by (auto simp: world_ok_def)
next
  case (Some c)
  have m: "mid_ok w c" using assms(1) Some by (rule world_okD(1))
  show ?thesis using that [OF Some m] flags_okD(4) [OF mid_okD(4) [OF m]] assms(2) by auto
qed

lemma err_func_good:
  assumes ok: "world_ok w" and cb: "pcb_alive (w_pcb w)"
  shows "\<exists>w'. client_err_func ops (w\<lparr>w_pcb := (w_pcb w)\<lparr>pcb_alive := False\<rparr>, w_client_end := True\<rparr>) = Inr w' \<and> world_ok w'"
proof -
  obtain c where c: "w_client w = Some c" "mid_ok w c" "\<not> tc_client_closed c"
    using open_client [OF assms] .
  have m: "mid_ok (w\<lparr>w_client_end := True\<rparr>) c" using c(2) by (auto simp: mid_ok_def stream_ends_def cut_off_def)
  obtain w' where "client_handle_freed_client ops (w\<lparr>w_client_end := True\<rparr>\<lparr>w_pcb := (w_pcb w)\<lparr>pcb_alive := False\<rparr>\<rparr>) = Inr w'" "world_ok w'"
    using close_client [OF m c(3), of "(w_pcb w)\<lparr>pcb_alive := False\<rparr>" ops] by (auto simp: cut_off_def)
  moreover have eq: "w\<lparr>w_pcb := (w_pcb w)\<lparr>pcb_alive := False\<rparr>, w_client_end := True\<rparr> = w\<lparr>w_client_end := True, w_pcb := (w_pcb w)\<lparr>pcb_alive := False\<rparr>\<rparr>"
    by simp
  ultimately show ?thesis unfolding eq using c by (simp add: client_err_func_def with_client_def)
qed

lemma fin_good:
  assumes ok: "world_ok w" and cb: "pcb_alive (w_pcb w)"
  shows "\<exists>w'. client_recv_func ops (w\<lparr>w_client_end := True\<rparr>) None jobs = Inr (w', ERR_ABRT, True) \<and> world_ok w' \<and> \<not> pcb_alive (w_pcb w')"
proof -
  obtain c where c: "w_client w = Some c" "mid_ok w c" "\<not> tc_client_closed c"
    using open_client [OF assms] .
  have m: "mid_ok (w\<lparr>w_client_end := True\<rparr>) c" using c(2) by (auto simp: mid_ok_def stream_ends_def cut_off_def)
  have "client_free_client ops (w\<lparr>w_client_end := True\<rparr>) = client_handle_freed_client ops (w\<lparr>w_client_end := True\<rparr>\<lparr>w_pcb := killed_pcb ops (w_pcb w)\<rparr>)"
    using free_client_pcb [of "w\<lparr>w_client_end := True\<rparr>" c ops] c cb by simp
  moreover have "\<exists>w'. client_handle_freed_client ops (w\<lparr>w_client_end := True\<rparr>\<lparr>w_pcb := killed_pcb ops (w_pcb w)\<rparr>) = Inr w' \<and> world_ok w' \<and>
      w_dead_client w' \<and> \<not> pcb_alive (w_pcb w')"
    by (rule close_client [OF m c(3)]) (auto simp: killed_pcb_def cut_off_def)
  ultimately show ?thesis using c by (auto simp: client_recv_func_def with_client_def)
qed

text \<open>Data from the peer, within the window.\<close>

lemma recv_data:
  assumes u: "up_ok c i p fc ts" and c: "\<not> tc_client_closed c" "client_memory c" "0 \<le> tc_buf_used c"
    and w: "int (length data) + (int (length fc) - pcb_recved p) \<le> int TCP_WND" "tc_buf_used c \<le> int TCP_WND"
  shows "int (length data) \<le> int TCP_WND - tc_buf_used c"
  using u c w by (auto simp: up_ok_def client_memory_def)

lemma recv_buf:
  assumes u: "up_ok c i p fc ts" and c: "length (tc_buf c) = TCP_WND" "0 \<le> tc_buf_used c" "int (length data) \<le> int TCP_WND - tc_buf_used c"
    and i: "tc_socks_up c \<Longrightarrow> send_ok c' i'" "taken c' i' = taken c i"
    and c': "c' = c\<lparr>tc_buf := take (nat (tc_buf_used c)) (tc_buf c) @ data @ drop (nat (tc_buf_used c) + length data) (tc_buf c), tc_buf_used := tc_buf_used c + int (length data)\<rparr>"
  shows "up_ok c' i' (p\<lparr>pcb_recved := pcb_recved p\<rparr>) (fc @ data) ts"
proof -
  have "nat (tc_buf_used c + int (length data)) = nat (tc_buf_used c) + length data" using c by simp
  then have "take (nat (tc_buf_used c')) (tc_buf c') = take (nat (tc_buf_used c)) (tc_buf c) @ data" using c by (simp add: c')
  moreover have "tc_socks_up c' = tc_socks_up c" "tc_client_closed c' = tc_client_closed c" by (simp_all add: c')
  ultimately show ?thesis using u i by (auto simp: up_ok_def)
qed

lemma recv_func_data:
  assumes "w_client w = Some c" "\<not> tc_client_closed c" "data \<noteq> []" "int (length data) \<le> int TCP_WND - tc_buf_used c"
    "mem_write (tc_buf c) (nat (tc_buf_used c)) data = Inr b" "u = tc_buf_used c + int (length data)"
    "w1 = set_client (w\<lparr>w_from_client := w_from_client w @ data\<rparr>) (c\<lparr>tc_buf := b, tc_buf_used := u\<rparr>)"
  shows "client_recv_func ops w (Some data) jobs =
    (if u = int (length data) \<and> tc_socks_up c then ASSERT (\<not> tc_socks_closed c) (andthen (client_send_to_socks w1) (\<lambda>w.
       andthen (sync_commit ops w jobs) (\<lambda>(w, killed). if killed then Inr (w, ERR_ABRT, False) else Inr (w, ERR_OK, True))))
     else Inr (w1, ERR_OK, True))"
  using assms by (simp add: client_recv_func_def with_client_def Let_def)

lemma recv_func_good:
  assumes ok: "world_ok w" and cb: "pcb_alive (w_pcb w)" "pcb_recv (w_pcb w)" and data: "data \<noteq> []"
    and win: "int (length data) + (int (length (w_from_client w)) - pcb_recved (w_pcb w)) \<le> int TCP_WND"
  shows "\<exists>w' err freed. client_recv_func ops w (Some data) jobs = Inr (w', err, freed) \<and> world_ok w' \<and>
    err = (if pcb_alive (w_pcb w') then ERR_OK else ERR_ABRT) \<and> freed = pcb_alive (w_pcb w')"
proof -
  obtain c where c: "w_client w = Some c" "mid_ok w c" "\<not> tc_client_closed c" using open_client [OF ok cb(1)] .
  note M = mid_okD [OF c(2)] and F = flags_okD [OF mid_okD(4) [OF c(2)]]
  have sc: "\<not> tc_socks_closed c" using F(9) c(3) cb(2) by simp
  have u: "up_ok c (w_send_if w) (w_pcb w) (w_from_client w) (w_to_socks w)" using M(5) [OF sc] .
  have len: "length (tc_buf c) = TCP_WND" using F(1) by (simp add: client_memory_def)
  have room: "int (length data) \<le> int TCP_WND - tc_buf_used c" using recv_data [OF u c(3) F(1,2) win F(3)] .
  let ?b = "take (nat (tc_buf_used c)) (tc_buf c) @ data @ drop (nat (tc_buf_used c) + length data) (tc_buf c)"
  let ?n = "tc_buf_used c + int (length data)"
  let ?c = "c\<lparr>tc_buf := ?b, tc_buf_used := ?n\<rparr>"
  let ?start = "tc_buf_used c = 0 \<and> tc_socks_up c"
  let ?i = "(w_send_if w)\<lparr>spi_job_operation_data := Some 0, spi_job_operation_len := ?n, spi_job_operation := True, spi_state := STATE_OPERATION_PENDING\<rparr>"
  define i where "i = (if ?start then ?i else w_send_if w)"
  let ?w = "w\<lparr>w_client := Some ?c, w_pcb := (w_pcb w)\<lparr>pcb_recved := pcb_recved (w_pcb w)\<rparr>, w_send_if := i, w_from_client := w_from_client w @ data\<rparr>"
  have wr: "mem_write (tc_buf c) (nat (tc_buf_used c)) data = Inr ?b" using len room F(2) by (simp add: mem_write_def)
  have s: "tc_socks_up c \<Longrightarrow> send_ok c (w_send_if w)" using u by (simp add: up_ok_def)
  have "tc_socks_up c \<Longrightarrow> send_ok ?c i" using s F(2) data by (auto simp: send_ok_def i_def)
  moreover have "taken ?c i = taken c (w_send_if w)" using s F(2) room len by (auto simp: taken_def i_def send_ok_def split: if_splits)
  ultimately have "up_ok ?c i ((w_pcb w)\<lparr>pcb_recved := pcb_recved (w_pcb w)\<rparr>) (w_from_client w @ data) (w_to_socks w)"
    by (intro recv_buf [OF u len F(2) room]) auto
  then have ok': "world_ok ?w" using room F(2) len c(3) by (intro world_ok_buf [OF ok c(1) sc]) auto
  have run: "client_recv_func ops w (Some data) jobs =
    (if ?start then andthen (sync_commit ops ?w jobs) (\<lambda>(w, killed). if killed then Inr (w, ERR_ABRT, False) else Inr (w, ERR_OK, True))
     else Inr (?w, ERR_OK, True))"
  proof -
    let ?w1 = "set_client (w\<lparr>w_from_client := w_from_client w @ data\<rparr>) ?c"
    have eq: "client_recv_func ops w (Some data) jobs =
      (if ?n = int (length data) \<and> tc_socks_up c then ASSERT (\<not> tc_socks_closed c) (andthen (client_send_to_socks ?w1) (\<lambda>w.
         andthen (sync_commit ops w jobs) (\<lambda>(w, killed). if killed then Inr (w, ERR_ABRT, False) else Inr (w, ERR_OK, True))))
       else Inr (?w1, ERR_OK, True))"
      by (rule recv_func_data [OF c(1,3) data room wr refl refl])
    show ?thesis
    proof (cases ?start)
      case True
      have send: "client_send_to_socks ?w1 = Inr ?w"
        using True s data sc F(5) by (simp add: client_send_to_socks_def with_client_def set_client_def socks_send_def StreamPassInterface_Sender_Send_def
          send_ok_def i_def split: if_splits)
      have cond: "?n = int (length data) \<and> tc_socks_up c" using True by simp
      show ?thesis unfolding eq if_P [OF True] if_P [OF cond] ASSERT_True [OF sc] send andthen_Inr by (rule refl)
    next
      case False
      have "i = w_send_if w" unfolding i_def using False by (rule if_not_P)
      then have w1: "?w1 = ?w" by (simp add: set_client_def)
      have cond: "\<not> (?n = int (length data) \<and> tc_socks_up c)" using False by simp
      show ?thesis unfolding eq if_not_P [OF False] if_not_P [OF cond] w1 by (rule refl)
    qed
  qed
  show ?thesis
  proof (cases ?start)
    case True
    have "pcb_alive (w_pcb ?w)" using cb(1) by simp
    with sync_commit_good [OF ok', of ops jobs] obtain w' where "sync_commit ops ?w jobs = Inr (w', \<not> pcb_alive (w_pcb w'))" "world_ok w'" by blast
    then show ?thesis unfolding run using True by (intro exI [of _ w'] exI [of _ "if pcb_alive (w_pcb w') then ERR_OK else ERR_ABRT"] exI [of _ "pcb_alive (w_pcb w')"]) simp
  next
    case False
    have "client_recv_func ops w (Some data) jobs = Inr (?w, ERR_OK, True)" unfolding run using False by (rule if_not_P)
    then show ?thesis using ok' cb(1) by (intro exI [of _ ?w] exI [of _ ERR_OK] exI [of _ True]) simp
  qed
qed

text \<open>The peer confirmed some bytes.\<close>

definition ret_ok :: "'p world \<Rightarrow> int" where
  "ret_ok w = (if pcb_alive (w_pcb w) then ERR_OK else ERR_ABRT)"

lemma sync_commit_ret:
  assumes "world_ok w" "pcb_alive (w_pcb w)"
  shows "\<exists>w'. andthen (sync_commit ops w jobs) (\<lambda>(w, killed). if killed then Inr (w, ERR_ABRT) else Inr (w, ERR_OK)) = Inr (w', ret_ok w') \<and> world_ok w'"
  using sync_commit_good [OF assms, of ops jobs] by (auto simp: ret_ok_def)

lemma mid_ok_acked:
  assumes m: "mid_ok w c" and cl: "\<not> tc_client_closed c"
    and c': "c' = c\<lparr>tc_socks_recv_tcp_pending := n, tc_socks_recv_waiting := b\<rparr>"
  shows "mid_ok (w\<lparr>w_acked := a, w_client := Some c'\<rparr>) c'"
proof -
  note M = mid_okD [OF m] and F = flags_okD [OF mid_okD(4) [OF m]]
  have "stream_ends (w\<lparr>w_acked := a, w_client := Some c'\<rparr>)" using M(3) F(4) cl by (auto simp: stream_ends_def)
  moreover have "flags_ok c' (w_pcb w) (w_socks w)" using M(4) by (simp add: flags_ok_def client_memory_def c')
  moreover have "\<not> tc_socks_closed c \<Longrightarrow> up_ok c' (w_send_if w) (w_pcb w) (w_from_client w) (w_to_socks w)"
    using M(5) by (auto simp: up_ok_def send_ok_def taken_def c')
  moreover have "tc_socks_up c \<Longrightarrow> \<not> tc_socks_closed c \<Longrightarrow> recv_ok c' (w_recv_if w)"
    using M(6) by (auto simp: recv_ok_def c')
  ultimately show ?thesis using M(1,2) cl by (simp add: mid_ok_def c')
qed

lemma sent_func_good:
  assumes ok: "world_ok w" and cb: "pcb_alive (w_pcb w)" "pcb_sent (w_pcb w)"
    and len: "0 < len" "len \<le> int (length (pcb_written (w_pcb w))) - w_acked w"
  shows "\<exists>w'. client_sent_func ops (w\<lparr>w_acked := w_acked w + len\<rparr>) len jobs = Inr (w', ret_ok w') \<and> world_ok w'"
proof -
  obtain c where c: "w_client w = Some c" "mid_ok w c" "\<not> tc_client_closed c" using open_client [OF ok cb(1)] .
  note M = mid_okD [OF c(2)] and F = flags_okD [OF mid_okD(4) [OF c(2)]]
  have up: "tc_socks_up c" using F(10) c(3) cb(2) by simp
  have d: "down_ok c (w_recv_if w) (w_pcb w) (w_from_socks w) (w_acked w) (w_socks_error w)" using world_okD(2) [OF ok c(1,3)] .
  let ?q = "tc_socks_recv_tcp_pending c - len"
  have q: "tc_socks_recv_tcp_pending c = int (length (pcb_written (w_pcb w))) - w_acked w" "0 \<le> ?q" "len \<le> tc_socks_recv_tcp_pending c"
    using d up len by (auto simp: down_ok_def)
  let ?c1 = "c\<lparr>tc_socks_recv_tcp_pending := ?q, tc_socks_recv_waiting := tc_socks_recv_waiting c\<rparr>"
  let ?c2 = "c\<lparr>tc_socks_recv_tcp_pending := ?q, tc_socks_recv_waiting := False\<rparr>"
  let ?w = "\<lambda>c. w\<lparr>w_acked := w_acked w + len, w_client := Some c\<rparr>"
  have mid: "mid_ok (?w c') c'" if "c' = ?c1 \<or> c' = ?c2" for c'
    using that mid_ok_acked [OF c(2,3), of ?c1] mid_ok_acked [OF c(2,3), of ?c2] by blast
  show ?thesis
  proof (cases "tc_socks_recv_buf_used c > 0")
    case used: True
    have wait: "tc_socks_recv_waiting c" "tc_socks_recv_buf_sent c < tc_socks_recv_buf_used c" "0 \<le> tc_socks_recv_buf_sent c"
      "tc_socks_recv_buf_used c \<le> int CLIENT_SOCKS_RECV_BUF_SIZE" using d up used by (auto simp: down_ok_def)
    have none: "sri_state (w_recv_if w) = STATE_NONE" if "\<not> tc_socks_closed c" using M(6) [OF up that] used by (auto simp: recv_ok_def)
    have "undelivered ?c2 (w_recv_if w) = undelivered c (w_recv_if w)" by (simp add: undelivered_def)
    then have "\<exists>w' killed. client_socks_recv_send_out ops (?w ?c2) = Inr (w', killed) \<and> (if killed then world_ok w' \<and> w_dead_client w' \<and> \<not> pcb_alive (w_pcb w')
        else \<exists>c'. sent_out (?w ?c2) w' c' \<and> tc_socks_closed c' = tc_socks_closed ?c2)"
      using d c(3) up wait q by (intro send_out_good mid) (auto simp: down_ok_def)
    then obtain w' killed where so: "client_socks_recv_send_out ops (?w ?c2) = Inr (w', killed)"
      and w': "if killed then world_ok w' \<and> w_dead_client w' \<and> \<not> pcb_alive (w_pcb w') else \<exists>c'. sent_out (?w ?c2) w' c' \<and> tc_socks_closed c' = tc_socks_closed ?c2"
      by blast
    have run: "client_sent_func ops (w\<lparr>w_acked := w_acked w + len\<rparr>) len jobs =
      (if killed then Inr (w', ERR_ABRT)
       else with_client w' (\<lambda>c. ASSERT (tc_socks_recv_tcp_pending c > 0)
         (if tc_socks_recv_buf_used c = - 1 \<and> \<not> tc_socks_closed c
          then andthen (client_socks_recv_initiate w') (\<lambda>w.
               andthen (sync_commit ops w jobs) (\<lambda>(w, killed). if killed then Inr (w, ERR_ABRT) else Inr (w, ERR_OK)))
          else Inr (w', ERR_OK))))"
      using c up len q used wait so by (simp add: client_sent_func_def with_client_def set_client_def Let_def)
    show ?thesis
    proof (cases killed)
      case True
      then show ?thesis using run w' by (simp add: ret_ok_def)
    next
      case False
      then obtain c' where s: "sent_out (?w ?c2) w' c'" "tc_socks_closed c' = tc_socks_closed c" using w' by auto
      then have cl: "w_client w' = Some c'" "pcb_alive (w_pcb w')" "tc_socks_recv_tcp_pending c' > 0" by (auto simp: sent_out_def mid_ok_def)
      show ?thesis
      proof (cases "tc_socks_recv_buf_used c' = - 1 \<and> \<not> tc_socks_closed c'")
        case True
        then obtain w'' where w'': "client_socks_recv_initiate w' = Inr w''" "world_ok w''" "pcb_alive (w_pcb w'')"
          using sent_out_initiate [OF s(1)] none s(2) by auto
        then show ?thesis using sync_commit_ret [OF w''(2,3), of ops jobs] run False True cl by (simp add: with_client_def)
      next
        case nope: False
        then have "world_ok w'" using sent_out_stop [OF s(1)] by auto
        then show ?thesis using run False nope cl by (auto simp: with_client_def ret_ok_def)
      qed
    qed
  next
    case False
    then have u: "tc_socks_recv_buf_used c = - 1" using d up by (auto simp: down_ok_def)
    have run: "client_sent_func ops (w\<lparr>w_acked := w_acked w + len\<rparr>) len jobs =
      (if tc_socks_closed c \<and> ?q = 0 then andthen (client_free_client ops (?w ?c1)) (\<lambda>w. Inr (w, ERR_ABRT)) else Inr (?w ?c1, ERR_OK))"
      using c up len q u by (simp add: client_sent_func_def with_client_def set_client_def Let_def)
    show ?thesis
    proof (cases "tc_socks_closed c \<and> ?q = 0")
      case True
      have "undelivered c (w_recv_if w) = []" using True u by (simp add: undelivered_def)
      then have "cut_off (?w ?c1) (killed_pcb ops (w_pcb w)) \<or> pcb_written (w_pcb w) = w_from_socks w"
        using d up by (auto simp: down_ok_def down_data_def cut_off_def)
      then have "\<exists>w'. client_handle_freed_client ops ((?w ?c1)\<lparr>w_pcb := killed_pcb ops (w_pcb w)\<rparr>) = Inr w' \<and> world_ok w' \<and>
          w_dead_client w' \<and> \<not> pcb_alive (w_pcb w')"
        using True q(1) c(3) by (intro close_client [OF mid]) (auto simp: killed_pcb_def)
      moreover have "client_free_client ops (?w ?c1) = client_handle_freed_client ops ((?w ?c1)\<lparr>w_pcb := killed_pcb ops (w_pcb w)\<rparr>)"
        using free_client_pcb [of "?w ?c1" ?c1 ops] c(3) cb(1) by simp
      ultimately show ?thesis unfolding run using True by (auto simp: ret_ok_def)
    next
      case False
      have "world_ok (?w ?c1)"
      proof (rule world_okI [OF mid])
        show "down_ok ?c1 (w_recv_if (?w ?c1)) (w_pcb (?w ?c1)) (w_from_socks (?w ?c1)) (w_acked (?w ?c1)) (w_socks_error (?w ?c1))"
          using d up u q by (auto simp: down_ok_def undelivered_def)
        show "live_ok ?c1 (w_recv_if (?w ?c1))" using world_okD(3) [OF ok c(1,3)] False q(2) by (auto simp: live_ok_def)
      qed simp
      moreover have "client_sent_func ops (w\<lparr>w_acked := w_acked w + len\<rparr>) len jobs = Inr (?w ?c1, ERR_OK)" unfolding run using False by (rule if_not_P)
      ultimately show ?thesis using cb(1) by (intro exI [of _ "?w ?c1"]) (simp add: ret_ok_def)
    qed
  qed
qed

subsection \<open>The other steps\<close>

lemma murder_good:
  assumes ok: "world_ok w" and c: "w_client w = Some c"
  shows "\<exists>w'. client_murder (w\<lparr>w_murdered := True\<rparr>) = Inr w' \<and> world_ok w' \<and> w_client w' = None"
proof -
  note M = mid_okD [OF world_okD(1) [OF ok c]]
  note F = flags_okD [OF M(4)]
  define p where "p = (if tc_client_closed c then w_pcb w else aborted_pcb (w_pcb w))"
  define d where "d = (w_dead_client w \<or> \<not> tc_client_closed c)"
  define c2 where "c2 = c\<lparr>tc_client_closed := True, tc_socks_closed := True\<rparr>"
  let ?w = "w\<lparr>w_murdered := True, w_pcb := p, w_dead_client := d, w_socks := SO_freed, w_client := Some c2\<rparr>"
  have l: "listed ?w" using M(7) by (simp add: listed_def)
  have p: "tc_client_closed c \<Longrightarrow> p = w_pcb w" "\<not> tc_client_closed c \<Longrightarrow> p = aborted_pcb (w_pcb w)" by (simp_all add: p_def)
  have c2: "tc_client_closed c \<Longrightarrow> tc_socks_closed c \<Longrightarrow> c2 = c" "tc_client_closed c \<Longrightarrow> c2 = c\<lparr>tc_socks_closed := True\<rparr>"
    "tc_socks_closed c \<Longrightarrow> c2 = c\<lparr>tc_client_closed := True\<rparr>"
    by (cases c; simp add: c2_def)+
  have "client_murder (w\<lparr>w_murdered := True\<rparr>) = client_dealloc ?w"
  proof (cases "tc_client_closed c"; cases "tc_socks_closed c")
    assume a: "\<not> tc_client_closed c" "\<not> tc_socks_closed c"
    show ?thesis using a c F(4,5) p by (auto simp: client_murder_def with_client_def remove_callbacks_alive tcp_abort_def tcp_op_def socks_Free_def
      set_client_def aborted_pcb_def c2_def d_def intro!: arg_cong [where f = client_dealloc])
  next
    assume a: "\<not> tc_client_closed c" "tc_socks_closed c"
    show ?thesis using a c F(4,5) p c2 by (auto simp: client_murder_def with_client_def remove_callbacks_alive tcp_abort_def tcp_op_def
      set_client_def aborted_pcb_def d_def intro!: arg_cong [where f = client_dealloc])
  next
    assume a: "tc_client_closed c" "\<not> tc_socks_closed c"
    show ?thesis using a c F(4,5) p c2 by (auto simp: client_murder_def with_client_def socks_Free_def set_client_def d_def intro!: arg_cong [where f = client_dealloc])
  next
    assume a: "tc_client_closed c" "tc_socks_closed c"
    then show ?thesis using F(6) by simp
  qed
  also have "\<dots> = Inr (gone ?w)" using l by (intro client_dealloc_gone) (auto simp: c2_def)
  finally have run: "client_murder (w\<lparr>w_murdered := True\<rparr>) = Inr (gone ?w)" .
  have "stream_ends (gone ?w)" using M(3) by (auto simp: stream_ends_def p_def aborted_pcb_def)
  moreover have "glob (gone ?w)" using M(1,2) by (auto intro: glob_goneI)
  moreover have "\<not> pcb_alive p" using F(4) by (simp add: p_def aborted_pcb_def)
  ultimately show ?thesis using run by (simp add: world_ok_def)
qed

lemma accept_start:
  assumes "distinct others" "self \<notin> set others" "client_memory c"
    "\<not> tc_client_closed c" "\<not> tc_socks_closed c" "\<not> tc_socks_up c" "tc_buf_used c = 0"
  shows "world_ok ((fresh_world self others st)\<lparr>w_auth_username := u, w_socks := SO_down, w_socks_init := so, w_tcp_clients := others @ [self],
    w_num_clients := int (length others) + 1, w_pcb := (w_pcb (fresh_world self others st))\<lparr>pcb_err := True, pcb_recv := True\<rparr>, w_client := Some c\<rparr>)"
  using assms by (auto simp: fresh_world_def world_ok_def mid_ok_def glob_def stream_ends_def flags_ok_def up_ok_def taken_def down_ok_def live_ok_def)

lemma accept_username_ok: "\<exists>name. accept_username opts e (baddr_from_lwip a port) = Inr name"
proof -
  obtain str where "BAddr_Print (baddr_from_lwip a port) = Inr str" by (cases a) auto
  then show ?thesis by (auto simp: accept_username_def split: option.split)
qed

text \<open>None of the jobs touches the global user name or makes another SOCKS client.\<close>

definition accept_keeps :: "'p world \<Rightarrow> 'p world \<Rightarrow> bool" where
  "accept_keeps w w' \<longleftrightarrow> w_auth_username w' = w_auth_username w \<and> w_socks_init w' = w_socks_init w \<and> w_self w' = w_self w"

lemma accept_keeps_refl [simp]: "accept_keeps w w"
  by (simp add: accept_keeps_def)

lemma accept_keeps_trans: "accept_keeps w v \<Longrightarrow> accept_keeps v u \<Longrightarrow> accept_keeps w u"
  by (simp add: accept_keeps_def)

lemma accept_keeps_basic:
  "tcp_op w f = Inr w' \<Longrightarrow> accept_keeps w w'"
  "remove_callbacks w = Inr w' \<Longrightarrow> accept_keeps w w'"
  "tcp_abort w = Inr w' \<Longrightarrow> accept_keeps w w'"
  "tcp_close ops w = Inr (w', err) \<Longrightarrow> accept_keeps w w'"
  "socks_Free w = Inr w' \<Longrightarrow> accept_keeps w w'"
  "client_dealloc w = Inr w' \<Longrightarrow> accept_keeps w w'"
  "socks_send w n = Inr w' \<Longrightarrow> accept_keeps w w'"
  "client_socks_recv_initiate w = Inr w' \<Longrightarrow> accept_keeps w w'"
  by (auto simp: tcp_op_def remove_callbacks_def tcp_abort_def tcp_close_def socks_Free_def client_dealloc_def socks_send_def
      client_socks_recv_initiate_def with_client_def result_simps Let_def accept_keeps_def split: if_splits option.splits)

lemma accept_keeps_teardown:
  "client_handle_freed_client ops w = Inr w' \<Longrightarrow> accept_keeps w w'"
  "client_free_client ops w = Inr w' \<Longrightarrow> accept_keeps w w'"
  "client_free_socks ops w = Inr w' \<Longrightarrow> accept_keeps w w'"
proof (induction ops w and ops w and ops w arbitrary: w' and w' and w'
    rule: client_handle_freed_client_client_free_client_client_free_socks.induct)
  case (1 ops w)
  from "1.prems" obtain c where c: "w_client w = Some c" "\<not> tc_client_closed c"
    by (auto simp: client_handle_freed_client.simps [of ops w] with_client_def result_simps split: option.splits)
  let ?w = "set_client (w\<lparr>w_dead_client := True\<rparr>) (c\<lparr>tc_client_closed := True\<rparr>)"
  have "accept_keeps w ?w" by (simp add: accept_keeps_def set_client_def)
  moreover have "accept_keeps ?w w'"
  proof (cases "tc_socks_closed c")
    case True
    then have "client_dealloc ?w = Inr w'"
      using "1.prems" c by (simp add: client_handle_freed_client.simps [of ops w] with_client_def Let_def)
    then show ?thesis by (rule accept_keeps_basic(6))
  next
    case False
    then show ?thesis
      using "1.prems" c "1.IH" [OF c(1) _ refl refl]
      by (cases "tc_buf_used c > 0") (auto simp: client_handle_freed_client.simps [of ops w] with_client_def Let_def result_simps)
  qed
  ultimately show ?case by (rule accept_keeps_trans)
next
  case (2 ops w)
  from "2.prems" obtain c w1 w2 err w3 where c: "w_client w = Some c" "\<not> tc_client_closed c" "remove_callbacks w = Inr w1" "tcp_close ops w1 = Inr (w2, err)"
    "(if err \<noteq> ERR_OK then tcp_abort w2 else Inr w2) = Inr w3" "client_handle_freed_client ops w3 = Inr w'"
    by (auto simp: client_free_client.simps [of ops w] with_client_def result_simps split: option.splits)
  have "accept_keeps w3 w'" by (rule "2.IH" [OF c(1) _ c(3,4) refl c(5,6)]) (use c(2) in simp)
  moreover have "accept_keeps w2 w3" using c(5) accept_keeps_basic(3) [of w2 w3] by (auto split: if_splits)
  moreover have "accept_keeps w w1" "accept_keeps w1 w2" using c(3,4) by (auto dest: accept_keeps_basic)
  ultimately show ?case by (blast intro: accept_keeps_trans)
next
  case (3 ops w)
  from "3.prems" obtain c w1 w2 where c: "w_client w = Some c" "\<not> tc_socks_closed c"
    "(if tc_socks_up c \<and> \<not> tc_client_closed c then tcp_op w (\<lambda>p. p\<lparr>pcb_recv := False\<rparr>) else Inr w) = Inr w1" "socks_Free w1 = Inr w2"
    by (auto simp: client_free_socks.simps [of ops w] with_client_def result_simps split: option.splits)
  let ?w = "set_client w2 (c\<lparr>tc_socks_closed := True\<rparr>)"
  let ?wait = "tc_socks_up c \<and> (tc_socks_recv_buf_used c \<ge> 0 \<or> tc_socks_recv_tcp_pending c > 0) \<and> \<not> tc_client_closed c"
  have "accept_keeps w w1" "accept_keeps w1 w2" "accept_keeps w2 ?w"
    using c(3,4) by (auto dest: accept_keeps_basic split: if_splits) (simp_all add: accept_keeps_def set_client_def)
  then have pre: "accept_keeps w ?w" by (blast intro: accept_keeps_trans)
  have run: "client_free_socks ops w = (if ?wait then Inr ?w else if \<not> tc_client_closed c then client_free_client ops ?w else client_dealloc ?w)"
    using c by (simp add: client_free_socks.simps [of ops w] with_client_def Let_def)
  consider "?wait" | "\<not> ?wait" "\<not> tc_client_closed c" | "tc_client_closed c" by blast
  then have "accept_keeps ?w w'"
  proof cases
    case 1
    then have "client_free_socks ops w = Inr ?w" unfolding run by (rule if_P)
    then show ?thesis using "3.prems" by simp
  next
    case 2
    then have "client_free_socks ops w = client_free_client ops ?w" unfolding run by (simp only: if_False if_True not_False_eq_True)
    then have "client_free_client ops ?w = Inr w'" using "3.prems" by simp
    then show ?thesis by (rule "3.IH" [OF c(1) _ c(3,4) refl 2, rotated]) (use c(2) in simp)
  next
    case 3
    then have "client_dealloc ?w = Inr w'" using "3.prems" unfolding run by simp
    then show ?thesis by (rule accept_keeps_basic(6))
  qed
  with pre show ?case by (rule accept_keeps_trans)
qed

lemma accept_keeps_fields:
  "accept_keeps (w\<lparr>w_pcb := p\<rparr>) v = accept_keeps w v" "accept_keeps (set_client w c) v = accept_keeps w v"
  "accept_keeps (w\<lparr>w_send_if := si\<rparr>) v = accept_keeps w v" "accept_keeps (w\<lparr>w_recv_if := ri\<rparr>) v = accept_keeps w v"
  "accept_keeps (w\<lparr>w_socks := so\<rparr>) v = accept_keeps w v" "accept_keeps (w\<lparr>w_socks_error := b\<rparr>) v = accept_keeps w v"
  "accept_keeps (w\<lparr>w_socks_eof := b\<rparr>) v = accept_keeps w v" "accept_keeps (w\<lparr>w_dead_client := b\<rparr>) v = accept_keeps w v"
  "accept_keeps (w\<lparr>w_to_socks := bs\<rparr>) v = accept_keeps w v" "accept_keeps (w\<lparr>w_from_socks := bs\<rparr>) v = accept_keeps w v"
  "accept_keeps w (w\<lparr>w_pcb := p\<rparr>)" "accept_keeps w (set_client w c)"
  "accept_keeps w (w\<lparr>w_send_if := si\<rparr>)" "accept_keeps w (w\<lparr>w_recv_if := ri\<rparr>)"
  by (simp_all add: accept_keeps_def set_client_def)

lemma accept_keeps_send:
  "client_send_to_socks w = Inr w' \<Longrightarrow> accept_keeps w w'"
  "client_socks_send_handler_done ops w n = Inr w' \<Longrightarrow> accept_keeps w w'"
proof -
  show send: "client_send_to_socks w = Inr w' \<Longrightarrow> accept_keeps w w'" for w w' :: "'a world"
    by (auto simp: client_send_to_socks_def with_client_def result_simps dest: accept_keeps_basic split: option.splits)
  show "client_socks_send_handler_done ops w n = Inr w' \<Longrightarrow> accept_keeps w w'"
    by (auto simp: client_socks_send_handler_done_def with_client_def result_simps Let_def accept_keeps_fields
        dest!: accept_keeps_basic accept_keeps_teardown split: option.splits if_splits intro: accept_keeps_trans)
qed

lemma accept_keeps_abort: "client_abort_client ops w = Inr w' \<Longrightarrow> accept_keeps w w'"
  by (auto simp: client_abort_client_def with_client_def result_simps dest!: accept_keeps_basic accept_keeps_teardown
      split: option.splits intro: accept_keeps_trans)

lemma accept_keeps_send_out: "client_socks_recv_send_out ops w = Inr (w', k) \<Longrightarrow> accept_keeps w w'"
  by (auto simp: client_socks_recv_send_out_def with_client_def result_simps Let_def accept_keeps_fields
      dest!: accept_keeps_abort split: option.splits if_splits prod.splits)
    (simp_all add: accept_keeps_def set_client_def)

lemma accept_keeps_recv: "client_socks_recv_handler_done ops w n = Inr w' \<Longrightarrow> accept_keeps w w'"
  by (auto simp: client_socks_recv_handler_done_def with_client_def result_simps Let_def accept_keeps_fields
      dest!: accept_keeps_send_out accept_keeps_basic split: option.splits if_splits intro: accept_keeps_trans)

lemma accept_keeps_handler: "client_socks_handler ops w ev = Inr w' \<Longrightarrow> accept_keeps w w'"
  by (auto simp: client_socks_handler_def with_client_def result_simps Let_def accept_keeps_fields
      dest!: accept_keeps_send(1) accept_keeps_basic accept_keeps_teardown split: option.splits if_splits socks_event.splits)
    (simp_all add: accept_keeps_def set_client_def)

lemma accept_keeps_job: "job_run ops w j = Inr w' \<Longrightarrow> accept_keeps w w'"
  by (cases j; auto simp: with_client_def result_simps accept_keeps_fields
      dest!: accept_keeps_handler accept_keeps_send(2) accept_keeps_recv split: option.splits socks_event.splits;
    simp add: accept_keeps_def set_client_def)

lemma accept_keeps_sync_commit: "sync_commit ops w jobs = Inr (w', k) \<Longrightarrow> accept_keeps w w'"
proof -
  have *: "run_jobs ops w jobs = Inr w' \<Longrightarrow> accept_keeps w w'" for w w' :: "'a world" and ops
    by (induction jobs arbitrary: w) (auto simp: result_simps dest: accept_keeps_job intro: accept_keeps_trans split: if_splits)
  then show "sync_commit ops w jobs = Inr (w', k) \<Longrightarrow> accept_keeps w w'"
    by (auto simp: sync_commit_def result_simps dest!: * simp: accept_keeps_fields)
qed

lemma socks_auth_info_types: "map auth_type (socks_auth_info opts w) = map auth_type (opt_socks_auth_info opts)"
proof -
  have "map auth_type (xs[1 := (xs ! 1)\<lparr>auth_username := a, auth_username_len := b\<rparr>]) = map auth_type xs" for xs a b
    by (cases "1 < length xs") (simp_all add: map_update list_update_beyond list_update_same_conv)
  then show ?thesis by (auto simp: socks_auth_info_def split: option.split)
qed

lemma socks_auth_info_all:
  assumes "\<forall>a\<in>set (opt_socks_auth_info opts). P (auth_type a)"
  shows "\<forall>a\<in>set (socks_auth_info opts w). P (auth_type a)"
proof -
  have "auth_type ` set (socks_auth_info opts w) = auth_type ` set (opt_socks_auth_info opts)"
    using arg_cong [OF socks_auth_info_types, of set] by simp
  then show ?thesis using assms by (metis imageE imageI)
qed

text \<open>The name that accepting a client stores in the global, if it gets so far.\<close>

definition new_username :: "tun_options \<Rightarrow> accept_env \<Rightarrow> string option" where
  "new_username opts e =
     (case ac_client e of None \<Rightarrow> None
      | Some _ \<Rightarrow> (case accept_username opts e (baddr_from_lwip (fst (ac_remote e)) (snd (ac_remote e))) of
          Inr (Some u) \<Rightarrow> u | _ \<Rightarrow> None))"

text \<open>The cases in which there is no memory.\<close>

definition accept_fails :: "tun_options \<Rightarrow> accept_env \<Rightarrow> bool" where
  "accept_fails opts e \<longleftrightarrow> ac_client e = None \<or>
     accept_username opts e (baddr_from_lwip (fst (ac_remote e)) (snd (ac_remote e))) = Inr None \<or> \<not> ac_connector_ok e"



lemma fresh_world_unnamed: "(fresh_world self others st)\<lparr>w_auth_username := None\<rparr> = fresh_world self others st"
  by (simp add: fresh_world_def)

definition named :: "nat \<Rightarrow> (nat \<times> string) option \<Rightarrow> string option \<Rightarrow> (nat \<times> string) option" where
  "named self g u = (case u of None \<Rightarrow> g | Some s \<Rightarrow> Some (self, s))"

lemma accept_good:
  assumes a: "distinct others" "self \<notin> set others" "accept_ok opts e"
  shows "\<exists>w' err. listener_accept_func ops opts e ((fresh_world self others st)\<lparr>w_auth_username := g\<rparr>) ERR_OK jobs = Inr (w', err) \<and>
    w_auth_username w' = named self g (new_username opts e) \<and>
    (if accept_fails opts e
     then err = ERR_MEM \<and> w' = (fresh_world self others st)\<lparr>w_auth_username := w_auth_username w'\<rparr>
     else world_ok w' \<and> w_self w' = self \<and> err = ret_ok w' \<and>
       map_option sc_auth_info (w_socks_init w') = Some (socks_auth_info opts w'))"
proof (cases "ac_client e")
  case None
  then show ?thesis by (simp add: listener_accept_func_def accept_fails_def new_username_def named_def)
next
  case (Some c)
  let ?f = "(fresh_world self others st)\<lparr>w_auth_username := g\<rparr> :: 'a world"
  let ?local = "baddr_from_lwip (fst (ac_local e)) (snd (ac_local e))" and ?remote = "baddr_from_lwip (fst (ac_remote e)) (snd (ac_remote e))"
  have t: "BAddr_type ?local = 1 \<or> BAddr_type ?local = 2" by (cases "fst (ac_local e)") auto
  obtain name where name: "accept_username opts e ?remote = Inr name" using accept_username_ok by blast
  show ?thesis
  proof (cases name)
    case None
    then show ?thesis using Some name by (simp add: listener_accept_func_def accept_fails_def new_username_def named_def)
  next
    case (Some u)
    let ?c = "c\<lparr>tc_local_addr := ?local, tc_remote_addr := ?remote, tc_socks_username := u, tc_client_closed := False, tc_buf_used := 0,
      tc_socks_up := False, tc_socks_closed := False\<rparr>"
    let ?g = "named self g u"
    let ?f1 = "?f\<lparr>w_auth_username := ?g\<rparr>"
    let ?so = "(ac_socks e)\<lparr>sc_auth_info := socks_auth_info opts ?f1, sc_dest_addr := ?local, sc_buffer := None,
          sc_state := SC_CONNECTING, sc_con := \<lparr> con_inited = False, con_send = False, con_recv = False \<rparr>\<rparr>"
    let ?w = "?f\<lparr>w_auth_username := ?g, w_socks := SO_down, w_socks_init := Some ?so, w_tcp_clients := others @ [self],
      w_num_clients := int (length others) + 1, w_pcb := (w_pcb ?f)\<lparr>pcb_err := True, pcb_recv := True\<rparr>, w_client := Some ?c\<rparr>"
    have n: "new_username opts e = u" "accept_fails opts e \<longleftrightarrow> \<not> ac_connector_ok e"
      using name Some \<open>ac_client e = Some c\<close> by (simp_all add: new_username_def accept_fails_def)
    have run: "listener_accept_func ops opts e ?f ERR_OK jobs =
      (if \<not> ac_connector_ok e then Inr (?f1, ERR_MEM)
       else andthen (sync_commit ops ?w jobs) (\<lambda>(w, killed). if killed then Inr (w, ERR_ABRT) else Inr (w, ERR_OK)))"
    proof -
      have "\<forall>a\<in>set (socks_auth_info opts ?f1). auth_type a = SOCKS_METHOD_NO_AUTHENTICATION_REQUIRED \<or> auth_type a = SOCKS_METHOD_USERNAME_PASSWORD"
        using a(3) by (intro socks_auth_info_all) (simp add: accept_ok_def)
      then have init: "BSocksClient_Init (ac_socks e) (opt_socks_server_addr opts) (socks_auth_info opts ?f1) ?local (ac_connector_ok e) =
        Inr (if \<not> ac_connector_ok e then None else Some ?so)"
        using a(3) t by (simp add: BSocksClient_Init_def accept_ok_def)
      have alive: "pcb_alive (w_pcb ?f)" "w_num_clients ?f = int (length others)" "w_tcp_clients ?f = others" "w_self ?f = self"
        by (simp_all add: fresh_world_def)
      show ?thesis unfolding listener_accept_func_def \<open>ac_client e = Some c\<close> option.case Let_def
        using name Some alive init by (cases u) (simp_all add: named_def tcp_op_def set_client_def)
    qed
    show ?thesis
    proof (cases "ac_connector_ok e")
      case True
      have "client_memory ?c" using a(3) \<open>ac_client e = Some c\<close> by (simp add: accept_ok_def client_memory_def)
      then have "world_ok ((fresh_world self others st)\<lparr>w_auth_username := ?g, w_socks := SO_down, w_socks_init := Some ?so, w_tcp_clients := others @ [self],
          w_num_clients := int (length others) + 1, w_pcb := (w_pcb (fresh_world self others st))\<lparr>pcb_err := True, pcb_recv := True\<rparr>, w_client := Some ?c\<rparr>)"
        by (intro accept_start [OF a(1,2)]) simp_all
      then have "world_ok ?w" by simp
      moreover have "pcb_alive (w_pcb ?w)" by (simp add: fresh_world_def)
      ultimately obtain w' where w': "andthen (sync_commit ops ?w jobs) (\<lambda>(w, killed). if killed then Inr (w, ERR_ABRT) else Inr (w, ERR_OK)) = Inr (w', ret_ok w')"
        "world_ok w'" using sync_commit_ret by blast
      then obtain k where "sync_commit ops ?w jobs = Inr (w', k)" by (auto simp: result_simps split: if_splits)
      from accept_keeps_sync_commit [OF this] have k: "w_auth_username w' = ?g" "w_socks_init w' = Some ?so" "w_self w' = self"
        by (simp_all add: accept_keeps_def fresh_world_def)
      have "socks_auth_info opts w' = socks_auth_info opts ?f1" by (simp add: socks_auth_info_def k)
      then show ?thesis unfolding run using True n k w' by simp
    next
      case False
      then show ?thesis unfolding run using n by simp
    qed
  qed
qed

lemma pcb_state_simps:
  "stream_ends (w\<lparr>w_pcb := (w_pcb w)\<lparr>pcb_state := st\<rparr>\<rparr>) = stream_ends w"
  "cut_off (w\<lparr>w_pcb := (w_pcb w)\<lparr>pcb_state := st\<rparr>\<rparr>) (p\<lparr>pcb_state := st\<rparr>) = cut_off w p"
  "flags_ok c (p\<lparr>pcb_state := st\<rparr>) so = flags_ok c p so"
  "up_ok c i (p\<lparr>pcb_state := st\<rparr>) fc ts = up_ok c i p fc ts"
  "down_ok c ri (p\<lparr>pcb_state := st\<rparr>) fs a er = down_ok c ri p fs a er"
  by (simp_all add: stream_ends_def cut_off_def flags_ok_def up_ok_def down_ok_def)

lemma tun_step_good:
  assumes ok: "world_ok w" and st: "tun_step ops w r"
  shows "\<exists>w'. r = Inr w' \<and> world_ok w'"
  using st
proof cases
  case (st_job j)
  then show ?thesis using job_good [OF ok] by (auto simp: good_def)
next
  case st_err
  then show ?thesis using err_func_good [OF ok] by blast
next
  case (st_fin jobs)
  then show ?thesis using fin_good [OF ok, of ops jobs] by auto
next
  case (st_recv data jobs)
  then show ?thesis using recv_func_good [OF ok, of data ops jobs] by auto
next
  case (st_sent len jobs)
  then show ?thesis using sent_func_good [OF ok, of len ops jobs] by auto
next
  case (st_lwip st)
  have "world_ok (w\<lparr>w_pcb := (w_pcb w)\<lparr>pcb_state := st\<rparr>\<rparr>)"
    using ok by (cases "w_client w") (simp_all add: world_ok_def mid_ok_def pcb_state_simps)
  then show ?thesis using st_lwip by simp
next
  case (st_others_add a u)
  have "world_ok (w\<lparr>w_tcp_clients := w_tcp_clients w @ [a], w_num_clients := w_num_clients w + 1, w_auth_username := u\<rparr>)"
    using ok st_others_add by (cases "w_client w") (simp_all add: world_ok_def mid_ok_def stream_ends_def cut_off_def glob_def)
  then show ?thesis using st_others_add by simp
next
  case (st_others_fail a s)
  have "world_ok (w\<lparr>w_auth_username := Some (a, s)\<rparr>)"
    using ok by (cases "w_client w") (simp_all add: world_ok_def mid_ok_def stream_ends_def cut_off_def glob_def)
  then show ?thesis using st_others_fail by simp
next
  case (st_others_remove a)
  have "world_ok (w\<lparr>w_tcp_clients := remove1 a (w_tcp_clients w), w_num_clients := w_num_clients w - 1\<rparr>)"
    using ok st_others_remove length_pos_if_in_set [of a "w_tcp_clients w"]
    by (cases "w_client w") (auto simp: world_ok_def mid_ok_def stream_ends_def cut_off_def glob_def length_remove1 of_nat_diff Suc_leI)
  then show ?thesis using st_others_remove by simp
next
  case st_murder
  then show ?thesis using murder_good [OF ok] by auto
qed

lemma tun_reach_ok: "tun_reach ops w \<Longrightarrow> world_ok w"
proof (induction rule: tun_reach.induct)
  case (tr_accept others self opts e g st jobs w err)
  then have "err \<noteq> ERR_MEM" by (auto simp: ERR_OK_def ERR_ABRT_def ERR_MEM_def)
  then show ?case using accept_good [OF tr_accept(1-3), of ops g st jobs] tr_accept(4) by (auto split: if_splits)
next
  case (tr_step w w')
  then show ?case using tun_step_good [of w ops "Inr w'"] by auto
qed

subsection \<open>After the peer has gone\<close>

text \<open>How far the stream to the SOCKS server is from having sent the buffer.\<close>

definition send_rank :: "tcp_client \<Rightarrow> int StreamPassInterface \<Rightarrow> nat" where
  "send_rank c i = 3 * nat (tc_buf_used c) + (case spi_state i of STATE_OPERATION_PENDING \<Rightarrow> 2 | STATE_BUSY \<Rightarrow> 1 | _ \<Rightarrow> 0)"

definition drained :: "'p world \<Rightarrow> 'p world \<Rightarrow> bool" where
  "drained w w' \<longleftrightarrow> w_client w' = None \<and> w_from_client w' = w_from_client w \<and> w_to_socks w' = w_from_client w \<and> w_socks w' = SO_freed \<and>
     w_socks_error w' = w_socks_error w \<and> w_socks_eof w' = w_socks_eof w \<and> w_murdered w' = w_murdered w"

definition same_history :: "'p world \<Rightarrow> 'p world \<Rightarrow> bool" where
  "same_history w w' \<longleftrightarrow> w_from_client w' = w_from_client w \<and> w_socks_error w' = w_socks_error w \<and> w_socks_eof w' = w_socks_eof w \<and>
     w_murdered w' = w_murdered w"

lemma drain_step:
  assumes ok: "world_ok w" and c: "w_client w = Some c" "tc_client_closed c" "tc_socks_up c"
  shows "\<exists>j w'. job_enabled w j \<and> job_run ops w j = Inr w' \<and> (drained w w' \<or>
    (\<exists>c'. w_client w' = Some c' \<and> tc_client_closed c' \<and> tc_socks_up c' \<and> same_history w w' \<and>
       send_rank c' (w_send_if w') < send_rank c (w_send_if w)))"
proof -
  have m: "mid_ok w c" using world_okD(1) [OF ok c(1)] .
  note F = flags_okD [OF mid_okD(4) [OF m]]
  have so: "\<not> tc_socks_closed c" "w_socks w = SO_up" using F(5,6) c by auto
  have s: "send_ok c (w_send_if w)" using mid_okD(5) [OF m so(1)] c(3) by (simp add: up_ok_def)
  show ?thesis
  proof (cases "spi_state (w_send_if w)")
    case STATE_NONE
    then show ?thesis using s F(7) [OF c(2)] by (simp add: send_ok_def)
  next
    case STATE_OPERATION_PENDING
    then show ?thesis using s so c
      by (intro exI [of _ J_send_operation]) (auto simp: send_ok_def StreamPassInterface_job_operation_def send_rank_def same_history_def)
  next
    case STATE_BUSY
    let ?k = "nat (spi_job_operation_len (w_send_if w))"
    have "?k \<le> length (tc_buf c)" using s STATE_BUSY F(1,3) by (auto simp: send_ok_def client_memory_def)
    then show ?thesis using s so c STATE_BUSY
      by (intro exI [of _ "J_sent ?k"])
        (auto simp: send_ok_def with_client_def mem_read_def StreamPassInterface_Done_def send_rank_def same_history_def)
  next
    case STATE_DONE_PENDING
    then have j: "job_enabled w J_send_done" using s so by (simp add: send_ok_def)
    obtain c1 n where "w_client w = Some c1" and n: "spi_job_done_len (w_send_if w) = int n" "0 < n" "int n \<le> tc_buf_used c1"
      and len: "nat (tc_buf_used c1) \<le> length (tc_buf c1)" using send_done_state [OF ok j] .
    then have c1: "c1 = c" using c(1) by simp
    note run = send_done_run [OF m so(2,1) c(3) s STATE_DONE_PENDING n [unfolded c1] len [unfolded c1], of ops]
    show ?thesis
    proof (cases "tc_buf_used c - int n > 0")
      case True
      then have "job_run ops w J_send_done = Inr (sent_world w c n (send_if (w_send_if w) (tc_buf_used c - int n)))" unfolding run by (rule if_P)
      then show ?thesis using j c n True STATE_DONE_PENDING by (intro exI [of _ J_send_done]) (auto simp: sent_world_def send_if_def send_rank_def same_history_def c1)
    next
      case False
      let ?w = "sent_world w c n (idle_if (w_send_if w))"
      have eq: "int n = tc_buf_used c" using False n(3) c1 by simp
      have "w_to_socks w = w_from_client w"
        using s STATE_DONE_PENDING eq len c1 by (intro sent_world_ok(2) [OF ok c(1) m so(1) c(3) STATE_DONE_PENDING n(1), of "idle_if (w_send_if w)"])
          (auto simp: send_ok_def idle_if_def)
      moreover have "client_free_socks ops ?w = Inr (gone (?w\<lparr>w_socks := SO_freed\<rparr>))"
        using c so mid_okD(7) [OF m] by (intro free_socks_client_closed [where c = "c\<lparr>tc_buf := shift_buf c n, tc_buf_used := tc_buf_used c - int n\<rparr>"])
          (auto simp: sent_world_def listed_def)
      moreover have "job_run ops w J_send_done = client_free_socks ops ?w" unfolding run using False c(2) by simp
      moreover have "drained w (gone (?w\<lparr>w_socks := SO_freed\<rparr>))" if "w_to_socks w = w_from_client w"
        using that by (simp add: drained_def sent_world_def)
      ultimately show ?thesis using j by (intro exI [of _ J_send_done] exI [of _ "gone (?w\<lparr>w_socks := SO_freed\<rparr>)"]) (simp only: simp_thms)
    qed
  qed
qed

lemma drain_jobs:
  assumes "world_ok w" "w_client w = Some c" "tc_client_closed c" "tc_socks_up c"
  shows "\<exists>jobs w'. run_jobs ops w jobs = Inr w' \<and> drained w w'"
  using assms
proof (induction "send_rank c (w_send_if w)" arbitrary: w c rule: less_induct)
  case less
  obtain j w1 where j: "job_enabled w j" "job_run ops w j = Inr w1"
    and w1: "drained w w1 \<or> (\<exists>c'. w_client w1 = Some c' \<and> tc_client_closed c' \<and> tc_socks_up c' \<and> same_history w w1 \<and>
       send_rank c' (w_send_if w1) < send_rank c (w_send_if w))"
    using drain_step [OF less.prems, of ops] by blast
  from w1 show ?case
  proof
    assume "drained w w1"
    then show ?thesis using j by (intro exI [of _ "[j]"] exI [of _ w1]) simp
  next
    assume "\<exists>c'. w_client w1 = Some c' \<and> tc_client_closed c' \<and> tc_socks_up c' \<and> same_history w w1 \<and>
       send_rank c' (w_send_if w1) < send_rank c (w_send_if w)"
    then obtain c' where c': "w_client w1 = Some c'" "tc_client_closed c'" "tc_socks_up c'" "same_history w w1"
      "send_rank c' (w_send_if w1) < send_rank c (w_send_if w)" by blast
    have "world_ok w1" using job_good [OF less.prems(1) j(1), of ops] j(2) by simp
    then obtain jobs w' where "run_jobs ops w1 jobs = Inr w'" "drained w1 w'" using less.hyps [OF c'(5) _ c'(1-3)] by blast
    then show ?thesis using j c'(4) by (intro exI [of _ "j # jobs"] exI [of _ w']) (simp add: drained_def same_history_def)
  qed
qed

subsection \<open>Properties\<close>

text \<open>
  C4: No handler of a TCP client faults, in any reachable state and whatever lwIP's functions answer: no assertion of the code fails, the buffers
  are never accessed outside their bounds, and a client, a control block or a SOCKS client that was freed is never used. This covers
  every callback of lwIP, every job of the SOCKS client and its streams, and the jobs that run inside a callback at \<^verbatim>\<open>SYNC_COMMIT\<close>, which
  may free the client that the callback works for.
\<close>

theorem tcp_client_safe:
  assumes "tun_reach ops w" "tun_step ops w r"
  shows "no_fault r"
  using tun_step_good [OF tun_reach_ok [OF assms(1)] assms(2)] by auto

text \<open>
  C3: Both directions of a TCP client relay a stream in order and without gaps: what the SOCKS server got is a prefix of what the peer
  sent, and what was written to the peer is a prefix of what the server sent. When the SOCKS client is freed although it had neither
  failed nor ended, the server got everything the peer sent; when the control block is closed and not aborted, and neither
  the SOCKS client failed nor the peer ended the connection, everything from the server was written and confirmed by the peer.
\<close>

theorem tcp_client_streams:
  assumes "tun_reach ops w"
  shows "Sublist.prefix (w_to_socks w) (w_from_client w) \<and> Sublist.prefix (pcb_written (w_pcb w)) (w_from_socks w) \<and>
    (w_socks w = SO_freed \<and> \<not> w_socks_error w \<and> \<not> w_socks_eof w \<and> \<not> w_murdered w \<longrightarrow> w_to_socks w = w_from_client w) \<and>
    (\<not> pcb_alive (w_pcb w) \<and> \<not> pcb_aborted (w_pcb w) \<and> \<not> w_socks_error w \<and> \<not> w_client_end w \<and> \<not> w_murdered w \<longrightarrow>
       pcb_written (w_pcb w) = w_from_socks w \<and> w_acked w = int (length (pcb_written (w_pcb w))))"
proof -
  have "stream_ends w" using tun_reach_ok [OF assms] mid_okD(3) [of w] by (cases "w_client w") (auto simp: world_ok_def)
  then show ?thesis by (simp add: stream_ends_def)
qed

text \<open>
  C5: When lwIP delivers data within the receive window, \<open>client_recv_func\<close> always has room for it: it never returns \<^verbatim>\<open>ERR_MEM\<close>. It
  returns \<^verbatim>\<open>ERR_ABRT\<close> exactly when the control block is gone when it returns, \<^verbatim>\<open>ERR_OK\<close> otherwise, and only then the buffer
  \<open>p\<close> was freed. (The control block is gone when it was aborted and also when it was closed with \<^verbatim>\<open>tcp_close\<close>; lwIP's documentation, \<^verbatim>\<open>tcp.h\<close> line 71, asks for
  \<^verbatim>\<open>ERR_ABRT\<close> after \<^verbatim>\<open>tcp_abort\<close> only. The code returns it after either.)
\<close>

theorem client_recv_func_result:
  assumes "tun_reach ops w" "pcb_alive (w_pcb w)" "pcb_recv (w_pcb w)" "data \<noteq> []"
    "int (length data) + (int (length (w_from_client w)) - pcb_recved (w_pcb w)) \<le> int TCP_WND"
  shows "\<exists>w'. client_recv_func ops w (Some data) jobs =
    Inr (w', if pcb_alive (w_pcb w') then ERR_OK else ERR_ABRT, pcb_alive (w_pcb w'))"
  using recv_func_good [OF tun_reach_ok [OF assms(1)] assms(2-5), of ops jobs] by auto

text \<open>
  C6: A client is never forgotten. In every reachable state the objects follow the flags: the control block is alive, with the error callback set, exactly
  while the client side is open; data is accepted from the peer exactly while both sides are open; the SOCKS client exists exactly while
  its side is open; the client is in the list, and is counted, exactly while it exists; and when it is gone nothing of it is left. A client
  that waits has something to wait for: a side that is closed left data to be delivered to the other one, data from the peer is being sent
  as soon as SOCKS is up, and data from the server is being received, or confirmed by the peer.
\<close>

theorem tcp_client_waits:
  assumes "tun_reach ops w"
  shows "distinct (w_tcp_clients w) \<and> w_num_clients w = int (length (w_tcp_clients w)) \<and>
    (case w_client w of
       None \<Rightarrow> \<not> pcb_alive (w_pcb w) \<and> w_socks w = SO_freed \<and> w_self w \<notin> set (w_tcp_clients w)
     | Some c \<Rightarrow> w_self w \<in> set (w_tcp_clients w) \<and> (pcb_alive (w_pcb w) \<longleftrightarrow> \<not> tc_client_closed c) \<and> (w_socks w = SO_freed \<longleftrightarrow> tc_socks_closed c) \<and>
         (\<not> tc_client_closed c \<longrightarrow> pcb_err (w_pcb w) \<and> (pcb_recv (w_pcb w) \<longleftrightarrow> \<not> tc_socks_closed c)) \<and>
         (tc_client_closed c \<longrightarrow> \<not> tc_socks_closed c \<and> tc_buf_used c > 0) \<and>
         (tc_socks_closed c \<longrightarrow> tc_socks_recv_tcp_pending c > 0) \<and>
         (\<not> tc_socks_closed c \<and> tc_socks_up c \<and> tc_buf_used c > 0 \<longrightarrow> spi_state (w_send_if w) \<noteq> STATE_NONE) \<and>
         (\<not> tc_socks_closed c \<and> tc_socks_up c \<and> \<not> tc_client_closed c \<longrightarrow>
            sri_state (w_recv_if w) \<noteq> STATE_NONE \<or> tc_socks_recv_tcp_pending c > 0))"
proof (cases "w_client w")
  case None
  then show ?thesis using tun_reach_ok [OF assms] by (auto simp: world_ok_def glob_def)
next
  case (Some c)
  note ok = tun_reach_ok [OF assms]
  note M = mid_okD [OF world_okD(1) [OF ok Some]]
  note F = flags_okD [OF M(4)]
  have up: "spi_state (w_send_if w) \<noteq> STATE_NONE" if "\<not> tc_socks_closed c" "tc_socks_up c" "tc_buf_used c > 0"
    using M(5) [OF that(1)] that by (auto simp: up_ok_def send_ok_def split: if_splits)
  have down: "sri_state (w_recv_if w) \<noteq> STATE_NONE \<or> tc_socks_recv_tcp_pending c > 0" if "\<not> tc_socks_closed c" "tc_socks_up c" "\<not> tc_client_closed c"
    using world_okD(2,3) [OF ok Some that(3)] that by (auto simp: live_ok_def down_ok_def)
  have closed: "tc_socks_recv_tcp_pending c > 0" if "tc_socks_closed c"
    using world_okD(3) [OF ok Some] that F(6) by (auto simp: live_ok_def)
  have "distinct (w_tcp_clients w)" "w_num_clients w = int (length (w_tcp_clients w))" "w_self w \<in> set (w_tcp_clients w)"
    using M(2) Some by (auto simp: glob_def)
  then show ?thesis using Some F(4-9) up down closed by (simp split: if_splits)
qed

text \<open>
  C7: After the peer has gone, the stream to the SOCKS server brings the client to its end: as long as the server takes data, finitely many jobs of
  the stream lead to a state in which the server has got everything the peer sent and the client and its SOCKS client are freed.
\<close>

theorem tcp_client_drains:
  assumes "tun_reach ops w" "w_client w = Some c" "tc_client_closed c" "tc_socks_up c"
  shows "\<exists>jobs w'. run_jobs ops w jobs = Inr w' \<and> w_client w' = None \<and> w_socks w' = SO_freed \<and>
    w_from_client w' = w_from_client w \<and> w_to_socks w' = w_from_client w"
  using drain_jobs [OF tun_reach_ok [OF assms(1)] assms(2-4), of ops] by (auto simp: drained_def)


subsection \<open>An example\<close>

text \<open>A connection that lwIP always serves: SOCKS comes up, the peer sends three bytes and ends.\<close>

definition ex_ops :: "unit lwip" where
  "ex_ops = \<lparr> lw_sndbuf = (\<lambda>_. 2920), lw_write = (\<lambda>p _. (p, ERR_OK)), lw_output = (\<lambda>p. (p, ERR_OK)), lw_close = (\<lambda>_. ERR_OK) \<rparr>"

definition ex_tcp_client :: tcp_client where
  "ex_tcp_client = \<lparr> tc_local_addr = BAddr_IPv4 1 2, tc_remote_addr = BAddr_IPv4 3 4, tc_client_closed = False, tc_buf = replicate TCP_WND 0,
     tc_buf_used = 0, tc_socks_username = None, tc_socks_up = False, tc_socks_closed = False, tc_socks_recv_buf = replicate CLIENT_SOCKS_RECV_BUF_SIZE 0,
     tc_socks_recv_buf_used = 0, tc_socks_recv_buf_sent = 0, tc_socks_recv_waiting = False, tc_socks_recv_tcp_pending = 0 \<rparr>"

definition ex_opts :: tun_options where
  "ex_opts = \<lparr> opt_username = None, opt_append_source_to_username = False, opt_socks_server_addr = BAddr_IPv4 0 0,
     opt_socks_auth_info = [BSocksClient_auth_none] \<rparr>"

definition ex_accept :: accept_env where
  "ex_accept = \<lparr> ac_client = Some ex_tcp_client, ac_local = (Lwip_ip4 1, 2), ac_remote = (Lwip_ip4 3, 4), ac_alloc = (\<lambda>_. True),
     ac_socks = ex_client, ac_connector_ok = True \<rparr>"

lemma ex_accept_ok: "accept_ok ex_opts ex_accept"
  by (simp add: accept_ok_def ex_opts_def ex_accept_def ex_tcp_client_def client_memory_def BAddr_IsInvalid_def BSocksClient_auth_none_def
    SOCKS_METHOD_NO_AUTHENTICATION_REQUIRED_def)

definition ex_w0 :: "unit world" where
  "ex_w0 = fst (projr (listener_accept_func ex_ops ex_opts ex_accept (fresh_world 1 [] ()) ERR_OK []))"

lemmas ex_accept_defs = listener_accept_func_def socks_auth_info_def ex_opts_def ex_accept_def accept_username_def BSocksClient_Init_def BAddr_IsInvalid_def
    BSocksClient_auth_none_def SOCKS_METHOD_NO_AUTHENTICATION_REQUIRED_def tcp_op_def fresh_world_def set_client_def sync_commit_def

lemma ex_accept_run: "listener_accept_func ex_ops ex_opts ex_accept (fresh_world 1 [] ()) ERR_OK [] = Inr (ex_w0, ERR_OK)"
  by (simp add: ex_w0_def ex_accept_defs Let_def)

lemma ex_reach0: "tun_reach ex_ops ex_w0"
  using tr_accept [OF _ _ ex_accept_ok, of "[]" 1 ex_ops None "()" "[]" ex_w0 ERR_OK] ex_accept_run
  by (simp add: fresh_world_unnamed)

definition ex_c0 :: tcp_client where
  "ex_c0 = ex_tcp_client\<lparr>tc_local_addr := BAddr_IPv4 1 (hton16 2), tc_remote_addr := BAddr_IPv4 3 (hton16 4)\<rparr>"

definition ex_so :: BSocksClient where
  "ex_so = ex_client\<lparr>sc_auth_info := [BSocksClient_auth_none], sc_dest_addr := BAddr_IPv4 1 (hton16 2), sc_buffer := None,
     sc_state := SC_CONNECTING, sc_con := \<lparr> con_inited = False, con_send = False, con_recv = False \<rparr>\<rparr>"

lemma ex_w0_eq:
  "ex_w0 = (fresh_world 1 [] ())\<lparr>w_socks := SO_down, w_socks_init := Some ex_so, w_tcp_clients := [1], w_num_clients := 1,
     w_pcb := (w_pcb (fresh_world 1 [] ()))\<lparr>pcb_err := True, pcb_recv := True\<rparr>, w_client := Some ex_c0\<rparr>"
  by (simp add: ex_w0_def ex_accept_defs ex_c0_def ex_tcp_client_def ex_so_def Let_def)

definition ex_up :: "unit world" where
  "ex_up = projr (job_run ex_ops ex_w0 (J_event BSOCKSCLIENT_EVENT_UP))"

definition ex_sent :: "unit world" where
  "ex_sent = fst (projr (client_recv_func ex_ops ex_up (Some [1, 2, 3]) []))"

definition ex_ended :: "unit world" where
  "ex_ended = fst (projr (client_recv_func ex_ops (ex_sent\<lparr>w_client_end := True\<rparr>) None []))"

lemmas ex_up_defs = client_socks_handler_def with_client_def StreamPassInterface_Sender_Init_def StreamPassInterface_Init_def
      StreamRecvInterface_Init_def StreamRecvInterface_Receiver_Init_def Let_def tcp_op_def set_client_def fresh_world_def ex_c0_def ex_tcp_client_def
      client_socks_recv_initiate_def StreamRecvInterface_Receiver_Recv_def CLIENT_SOCKS_RECV_BUF_SIZE_def

lemma ex_up_run: "job_enabled ex_w0 (J_event BSOCKSCLIENT_EVENT_UP) \<and> job_run ex_ops ex_w0 (J_event BSOCKSCLIENT_EVENT_UP) = Inr ex_up"
  by (simp add: ex_up_def ex_w0_eq ex_up_defs)

lemma ex_reach_up: "tun_reach ex_ops ex_up"
proof (rule tr_step [OF ex_reach0])
  show "tun_step ex_ops ex_w0 (Inr ex_up)"
    using tun_step.st_job [of ex_w0 "J_event BSOCKSCLIENT_EVENT_UP" ex_ops] unfolding ex_up_run [THEN conjunct2] using ex_up_run by blast
qed

lemma ex_up_state:
  "w_client ex_up = Some (ex_c0\<lparr>tc_socks_recv_buf_used := - 1, tc_socks_recv_tcp_pending := 0, tc_socks_up := True\<rparr>)"
  "w_socks ex_up = SO_up" "pcb_alive (w_pcb ex_up)" "pcb_recv (w_pcb ex_up)" "w_from_client ex_up = []" "pcb_recved (w_pcb ex_up) = 0"
  "w_send_if ex_up = StreamPassInterface_Init\<lparr>spi_handler_done := True\<rparr>" "w_tcp_clients ex_up = [1]" "w_num_clients ex_up = 1" "w_self ex_up = 1"
  "\<not> w_socks_error ex_up" "\<not> w_socks_eof ex_up" "\<not> w_murdered ex_up" "\<not> pcb_aborted (w_pcb ex_up)"
  by (simp_all add: ex_up_def ex_w0_eq ex_up_defs)

lemmas ex_recv_defs = client_recv_func_def with_client_def ex_up_state ex_c0_def ex_tcp_client_def TCP_WND_def TCP_MSS_def mem_write_def
    client_send_to_socks_def set_client_def socks_send_def StreamPassInterface_Sender_Send_def StreamPassInterface_Init_def sync_commit_def Let_def

lemma ex_sent_run: "client_recv_func ex_ops ex_up (Some [1, 2, 3]) [] = Inr (ex_sent, ERR_OK, True)"
  by (simp add: ex_sent_def ex_recv_defs)

lemma ex_sent_commit:
  "client_recv_func ex_ops ex_up (Some [1, 2, 3]) js =
     andthen (sync_commit ex_ops ex_sent js) (\<lambda>(w, killed). if killed then Inr (w, ERR_ABRT, False) else Inr (w, ERR_OK, True))"
  by (simp add: ex_sent_def ex_recv_defs)

lemma ex_reach_sent: "tun_reach ex_ops ex_sent"
proof (rule tr_step [OF ex_reach_up])
  have "tun_step ex_ops ex_up (andthen (client_recv_func ex_ops ex_up (Some [1, 2, 3]) []) (\<lambda>(w, _). Inr w))"
    by (rule st_recv) (simp_all add: ex_up_state TCP_WND_def TCP_MSS_def)
  then show "tun_step ex_ops ex_up (Inr ex_sent)" by (simp add: ex_sent_run)
qed

lemma ex_sent_state:
  "\<exists>c. w_client ex_sent = Some c \<and> tc_buf_used c = 3 \<and> \<not> tc_client_closed c \<and> \<not> tc_socks_closed c \<and> tc_socks_up c \<and>
     tc_socks_recv_buf_used c = - 1 \<and> tc_socks_recv_tcp_pending c = 0"
  "w_socks ex_sent = SO_up" "pcb_alive (w_pcb ex_sent)" "pcb_recv (w_pcb ex_sent)" "w_from_client ex_sent = [1, 2, 3]"
  "w_tcp_clients ex_sent = [1]" "w_num_clients ex_sent = 1" "w_self ex_sent = 1"
  "\<not> w_socks_error ex_sent" "\<not> w_socks_eof ex_sent" "\<not> w_murdered ex_sent" "\<not> pcb_aborted (w_pcb ex_sent)"
  by (simp_all add: ex_sent_def ex_recv_defs)

lemma ex_ended_run:
  "\<exists>c. client_recv_func ex_ops (ex_sent\<lparr>w_client_end := True\<rparr>) None [] = Inr (ex_ended, ERR_ABRT, True) \<and> w_client ex_ended = Some c \<and>
     tc_client_closed c \<and> tc_socks_up c \<and> w_from_client ex_ended = [1, 2, 3] \<and> \<not> w_socks_error ex_ended \<and> \<not> w_socks_eof ex_ended \<and> \<not> w_murdered ex_ended"
proof -
  obtain c where c: "w_client ex_sent = Some c" "tc_buf_used c = 3" "\<not> tc_client_closed c" "\<not> tc_socks_closed c" "tc_socks_up c" using ex_sent_state(1) by blast
  let ?w = "ex_sent\<lparr>w_client_end := True\<rparr>"
  let ?w1 = "?w\<lparr>w_pcb := killed_pcb ex_ops (w_pcb ?w)\<rparr>"
  have "client_free_client ex_ops ?w = client_handle_freed_client ex_ops ?w1" using c ex_sent_state(3) by (intro free_client_pcb) auto
  also have "\<dots> = Inr (?w1\<lparr>w_dead_client := True, w_client := Some (c\<lparr>tc_client_closed := True\<rparr>)\<rparr>)"
    using handle_freed_client [of ?w1 c ex_ops] c ex_sent_state by (simp add: listed_def)
  finally show ?thesis using c ex_sent_state by (simp add: ex_ended_def client_recv_func_def with_client_def)
qed

lemma ex_reach_ended: "tun_reach ex_ops ex_ended"
proof (rule tr_step [OF ex_reach_sent])
  have "tun_step ex_ops ex_sent (andthen (client_recv_func ex_ops (ex_sent\<lparr>w_client_end := True\<rparr>) None []) (\<lambda>(w, _). Inr w))"
    by (rule st_fin) (simp_all add: ex_sent_state)
  then show "tun_step ex_ops ex_sent (Inr ex_ended)" using ex_ended_run by auto
qed

lemma run_jobs_reach: "tun_reach ops w \<Longrightarrow> run_jobs ops w js = Inr w' \<Longrightarrow> tun_reach ops w'"
proof (induction js arbitrary: w)
  case Nil
  then show ?case by simp
next
  case (Cons j js)
  show ?case
  proof (cases "job_enabled w j")
    case True
    then obtain w1 where w1: "job_run ops w j = Inr w1" "run_jobs ops w1 js = Inr w'" using Cons.prems(2) by (auto simp: result_simps)
    have "tun_step ops w (Inr w1)" using tun_step.st_job [of w j ops, OF True] w1(1) by simp
    then show ?thesis using Cons.IH [OF tr_step [OF Cons.prems(1)] w1(2)] by blast
  next
    case False
    then show ?thesis using Cons by simp
  qed
qed

subsection \<open>The properties at the example\<close>

theorem tcp_client_safe_witness:
  "\<exists>r. tun_step ex_ops ex_up r \<and> no_fault r"
proof -
  have "tun_step ex_ops ex_up (andthen (client_recv_func ex_ops ex_up (Some [1, 2, 3]) [J_send_operation, J_event BSOCKSCLIENT_EVENT_ERROR]) (\<lambda>(w, _). Inr w))"
    by (rule st_recv) (simp_all add: ex_up_state TCP_WND_def TCP_MSS_def)
  then show ?thesis using tcp_client_safe [OF ex_reach_up] by blast
qed

theorem tcp_client_streams_witness:
  "\<exists>w. tun_reach ex_ops w \<and> w_client w = None \<and> w_from_client w = [1, 2, 3] \<and> w_to_socks w = [1, 2, 3]"
proof -
  obtain c where c: "w_client ex_ended = Some c" "tc_client_closed c" "tc_socks_up c" "w_from_client ex_ended = [1, 2, 3]"
    "\<not> w_socks_error ex_ended" "\<not> w_socks_eof ex_ended" "\<not> w_murdered ex_ended" using ex_ended_run by blast
  obtain jobs w where w: "run_jobs ex_ops ex_ended jobs = Inr w" "drained ex_ended w"
    using drain_jobs [OF tun_reach_ok [OF ex_reach_ended] c(1-3), of ex_ops] by blast
  have reach: "tun_reach ex_ops w" using run_jobs_reach [OF ex_reach_ended w(1)] .
  then have "w_to_socks w = w_from_client w" using tcp_client_streams [OF reach] w(2) c by (simp add: drained_def)
  then show ?thesis using reach w(2) c(4) by (intro exI [of _ w]) (simp add: drained_def)
qed

theorem client_recv_func_result_witness:
  "\<exists>w'. client_recv_func ex_ops ex_up (Some [1, 2, 3]) [J_send_operation, J_sent 2, J_send_done] =
     Inr (w', if pcb_alive (w_pcb w') then ERR_OK else ERR_ABRT, pcb_alive (w_pcb w'))"
  by (rule client_recv_func_result [OF ex_reach_up]) (simp_all add: ex_up_state TCP_WND_def TCP_MSS_def)

theorem tcp_client_waits_witness:
  "\<exists>c. w_client ex_ended = Some c \<and> tc_client_closed c \<and> \<not> tc_socks_closed c \<and> tc_buf_used c > 0 \<and> w_num_clients ex_ended = int (length (w_tcp_clients ex_ended))"
  using tcp_client_waits [OF ex_reach_ended] ex_ended_run by auto

theorem tcp_client_drains_witness:
  "\<exists>jobs w'. run_jobs ex_ops ex_ended jobs = Inr w' \<and> w_client w' = None \<and> w_to_socks w' = [1, 2, 3]"
proof -
  obtain c where c: "w_client ex_ended = Some c" "tc_client_closed c" "tc_socks_up c" "w_from_client ex_ended = [1, 2, 3]" using ex_ended_run by blast
  show ?thesis using tcp_client_drains [OF ex_reach_ended c(1-3)] c(4) by auto
qed






text \<open>
  C9: A received buffer can be lost: there is a reachable state in which \<open>client_recv_func\<close> takes the peer's data, the SOCKS client
  fails during \<^verbatim>\<open>SYNC_COMMIT\<close>, and the callback returns \<^verbatim>\<open>ERR_ABRT\<close> without having freed the buffer \<open>p\<close> it was given. In this run the
  control block was closed and not aborted, the case in which lwIP's documentation does not allow \<^verbatim>\<open>ERR_ABRT\<close>.
\<close>

theorem client_recv_func_leak:
  "\<exists>w data jobs w'. tun_reach ex_ops w \<and> data \<noteq> [] \<and> client_recv_func ex_ops w (Some data) jobs = Inr (w', ERR_ABRT, False) \<and>
     \<not> pcb_alive (w_pcb w') \<and> \<not> pcb_aborted (w_pcb w')"
proof -
  let ?jobs = "[J_event BSOCKSCLIENT_EVENT_ERROR]"
  let ?w = "ex_sent\<lparr>w_dead_client := False, w_socks_error := True\<rparr>"
  let ?w' = "gone (?w\<lparr>w_pcb := killed_pcb ex_ops (w_pcb ?w), w_socks := SO_freed, w_dead_client := True\<rparr>)"
  obtain c where c: "w_client ex_sent = Some c" "\<not> tc_client_closed c" "\<not> tc_socks_closed c" "tc_socks_recv_buf_used c = - 1" "tc_socks_recv_tcp_pending c = 0"
    using ex_sent_state(1) by blast
  have "client_free_socks ex_ops ?w = Inr ?w'"
    using free_socks_client_open [of ?w c ex_ops] c ex_sent_state by (simp add: listed_def)
  then have "sync_commit ex_ops ex_sent ?jobs = Inr (?w', True)"
    using c ex_sent_state(2) by (simp add: sync_commit_def client_socks_handler_def with_client_def)
  then have "client_recv_func ex_ops ex_up (Some [1, 2, 3]) ?jobs = Inr (?w', ERR_ABRT, False)" by (simp add: ex_sent_commit)
  moreover have "\<not> pcb_alive (w_pcb ?w')" "\<not> pcb_aborted (w_pcb ?w')"
    using ex_sent_state by (simp_all add: gone_def killed_pcb_def ex_ops_def aborted_pcb_def)
  ultimately show ?thesis using ex_reach_up by (intro exI [of _ ex_up] exI [of _ "[1, 2, 3]"] exI [of _ ?jobs] exI [of _ ?w']) simp
qed

end
