(* ===== verification/Spec2Isabelle.thy ===== *)
theory Spec2Isabelle
  imports Udp_Path Packet_Buffer Packet_Proto Pending Fair_Queue Flow_Parts Socks_Client Addr_Text Tcp_Relay
begin

text \<open>
  \<^bold>\<open>The program.\<close> The native part of the Android application is \<^verbatim>\<open>tun2socks\<close>
  (\<^verbatim>\<open>src/app/src/main/jni/badvpn\<close>, the sources listed in its \<^verbatim>\<open>Android.mk\<close>): it reads IP packets from a TUN device, relays each
  TCP connection through a SOCKS 5 server and each UDP datagram through a \<^verbatim>\<open>udpgw\<close> server, and writes the
  answers back to the device as IP packets. It is one thread around an event loop; its parts pass packets and
  stream data to each other through small interfaces whose callbacks are jobs on a stack of pending jobs. All paths below
  are relative to that directory.

  \<^bold>\<open>The theories, and the code they model.\<close>
  \<^item> \<open>Prelude\<close>: machine words, faults (a failed \<^verbatim>\<open>ASSERT\<close>, an access out of bounds) as values, buffers.
  \<^item> \<open>Byte_Order\<close>: \<^verbatim>\<open>misc/read_write_int.h\<close>, \<^verbatim>\<open>misc/byteorder.h\<close>.
  \<^item> \<open>Socket_Addr\<close>: \<^verbatim>\<open>system/BAddr.h\<close>, \<^verbatim>\<open>misc/compare.h\<close>; the locale \<open>comparator\<close>, interpreted for \<open>BAddr_CompareOrder\<close>.
  \<^item> \<open>Number_Text\<close>, \<open>Addr_Text\<close>: \<^verbatim>\<open>misc/parse_number.h\<close>, \<^verbatim>\<open>misc/find_char.h\<close>, \<^verbatim>\<open>misc/ipaddr.h\<close>, \<^verbatim>\<open>misc/ipaddr6.h\<close> and the parsing and
    printing of \<^verbatim>\<open>system/BAddr.h\<close>: exactness of the parsers, round trips, bounds of the printed strings.
  \<^item> \<open>Ip_Udp\<close>: \<^verbatim>\<open>misc/ipv4_proto.h\<close>, \<^verbatim>\<open>misc/ipv6_proto.h\<close>, \<^verbatim>\<open>misc/udp_proto.h\<close>: headers, checks and checksums.
  \<^item> \<open>Tun_Udp\<close>: the UDP path of \<^verbatim>\<open>tun2socks/tun2socks.c\<close> (\<open>process_device_udp_packet\<close>, \<open>udpgw_client_handler_received\<close>): no
    access out of bounds, packets built are accepted when parsed, checksums valid, for IPv4 and IPv6.
  \<^item> \<open>Flow_Interfaces\<close>: \<^verbatim>\<open>flow/PacketPassInterface.[ch]\<close>, \<^verbatim>\<open>flow/PacketRecvInterface.[ch]\<close>, \<^verbatim>\<open>flow/StreamPassInterface.[ch]\<close>,
    \<^verbatim>\<open>flow/StreamRecvInterface.[ch]\<close>: each interface is a record with its state and its jobs; the operations carry the
    assertions of the code.
  \<^item> \<open>Chunk_Buffer\<close>: \<^verbatim>\<open>structure/ChunkBuffer2.h\<close>, the ring buffer, refining a bounded queue of packets.
  \<^item> \<open>Packet_Buffer\<close>: \<^verbatim>\<open>flow/PacketBuffer.c\<close> on the ring buffer, among a source and a sink that behave arbitrarily.
  \<^item> \<open>Packet_Proto\<close>: \<^verbatim>\<open>protocol/packetproto.h\<close>, \<^verbatim>\<open>flow/PacketProtoEncoder.c\<close>, \<^verbatim>\<open>flow/PacketProtoDecoder.c\<close>: framing of
    packets in a stream.
  \<^item> \<open>Linked_List\<close>, \<open>Pending\<close>: \<^verbatim>\<open>structure/SLinkedList_impl.h\<close>, \<^verbatim>\<open>structure/LinkedList1.h\<close> on a heap of nodes, and
    \<^verbatim>\<open>base/BPending.c\<close> on top of them, refining a stack of distinct jobs.
  \<^item> \<open>Bavl\<close>, \<open>Bavl_Index\<close>: \<^verbatim>\<open>structure/BAVL.h\<close>, the AVL tree of nodes that are parts of other objects, on an explicit memory with parent and child
    pointers. \<open>Bavl\<close> has the operations and shows that the rotations and the way back up keep the tree; \<open>Bavl_Index\<close> has insertion, removal and lookup as
    operations on a set of nodes with distinct keys, in the locale \<open>tree_comparator\<close>, for every order the tree may be given.
  \<^item> \<open>Fair_Queue\<close>: \<^verbatim>\<open>flow/PacketPassFairQueue.c\<close>.
  \<^item> \<open>Flow_Parts\<close>: \<^verbatim>\<open>flow/PacketStreamSender.c\<close>, \<^verbatim>\<open>flow/BufferWriter.c\<close>, \<^verbatim>\<open>flow/SinglePacketBuffer.c\<close>,
    \<^verbatim>\<open>flow/PacketPassConnector.c\<close>, \<^verbatim>\<open>flowextra/PacketPassInactivityMonitor.c\<close>, \<^verbatim>\<open>flow/PacketProtoFlow.c\<close>.
  \<^item> \<open>Socks_Client\<close>: \<^verbatim>\<open>socksclient/BSocksClient.c\<close>, \<^verbatim>\<open>misc/socks_proto.h\<close>, \<^verbatim>\<open>misc/bsize.h\<close>: the SOCKS 5 client on a stream sender
    and a stream receiver.
  \<^item> \<open>Tcp_Client\<close>, \<open>Tcp_Relay\<close>: the TCP path of \<^verbatim>\<open>tun2socks/tun2socks.c\<close>. \<open>Tcp_Client\<close> has a client with every handler that lwIP, the SOCKS client and
    its streams call, from \<open>listener_accept_func\<close> to \<open>client_dealloc\<close>, and its reachable states; \<open>Tcp_Relay\<close> has their invariant and the
    properties: no handler faults or uses something freed, both streams arrive in order and an orderly end loses nothing, a client
    that waits has something to wait for and reaches its end after the peer has gone.

  \<^item> \<open>Udpgw_Client\<close>, \<open>Udpgw_Table\<close>, \<open>Udpgw_Relay\<close>, \<open>Udpgw_Life\<close>: \<^verbatim>\<open>udpgw_client/UdpGwClient.c\<close>, \<^verbatim>\<open>protocol/udpgw_proto.h\<close>, the client that carries
    UDP packets through one stream. \<open>Udpgw_Client\<close> has the operations; \<open>Udpgw_Table\<close> the two search trees of the connections, the search for an identifier and the
    invariant; \<open>Udpgw_Relay\<close> the operations on it, with the abstract table \<open>entries\<close> that \<open>lru_submit\<close> is about; \<open>Udpgw_Life\<close> the reachable states and the properties.
    Between its operations the parts below the client (queue, writers, connector) take any step that keeps their own invariants.

  \<^item> \<open>Socks_Udpgw\<close>: \<^verbatim>\<open>tun2socks/SocksUdpGwClient.c\<close>, which gives the udpgw client its server through a SOCKS client and starts that again after it has failed. Its steps are
    those of the SOCKS client, of the timer and of the udpgw client; the invariant says that there is always either a SOCKS client or a timer that will start one.
  \<^item> \<open>Udp_Path\<close>: the UDP path of \<^verbatim>\<open>tun2socks/tun2socks.c\<close> on top of these: the start of the client in \<open>run\<close>, packets from the device to the udpgw client, messages of the udpgw
    server to the device. Here the assumptions of each part (MTUs, addresses of one family) are shown to be what the others provide.

  \<^bold>\<open>How the code is read.\<close> A structure is a record, a callback that the code sets on an interface is a flag
  of the record and the call is made by the step that runs the job; a function returns its new state or a fault, so
  "the assertion never fails" is a theorem about results. A component with an environment is a step relation with its
  reachable states; the environment (the kernel, the server, the allocator) does anything its interface allows. Data that an interface
  points to is an offset in the buffer of the component that owns it. A packet, a message or a string with its length is the list of its elements, and a read
  outside of the list is a fault (\<open>mem_read\<close>, \<open>mem_byte\<close>), so that the length checks of the code are what the theorems without faults rest on. A pointer to memory of another
  component is its contents, with a step for the owner that changes it (the user names and passwords of the SOCKS client) or with the name of the owner, so
  that a pointer to freed memory shows (the global user name of \<open>listener_accept_func\<close>). \<^verbatim>\<open>int\<close> is an unbounded integer where the code
  bounds the values, and a word where it relies on the width; \<^verbatim>\<open>size_t\<close> has 32 bits, the smaller of the two Android word sizes.
  Memory allocation, \<^verbatim>\<open>realloc\<close>, \<^verbatim>\<open>getaddrinfo\<close> and the results of system calls are parameters. No definition needs fuel: each
  loop is structural or has a measure, but for the loops that follow the pointers of a search tree and those of the udpgw client over its tables (the search
  for an identifier, the end of all connections): they are partial functions, and the theorems show that they end.

  \<^bold>\<open>Not modelled.\<close> The TCP/IP stack lwIP (\<^verbatim>\<open>lwip/\<close>, third party), whose answers are
  a parameter and whose callbacks are steps of \<open>Tcp_Client\<close>; the jobs of other components that \<^verbatim>\<open>SYNC_COMMIT\<close> may run
  beside those of the client; the reactor and its system calls
  (\<^verbatim>\<open>system/BReactor_badvpn.c\<close>, \<^verbatim>\<open>system/BConnection_unix.c\<close>, \<^verbatim>\<open>tuntap/BTap.c\<close>), which are the environment of the
  components above; logging; the other programs of the badvpn repository that the application does not build
  (\<^verbatim>\<open>ncd\<close>, \<^verbatim>\<open>client\<close>, \<^verbatim>\<open>server\<close>, \<^verbatim>\<open>udpgw\<close>, \<^verbatim>\<open>flooder\<close>, \<^verbatim>\<open>lemon\<close> and generated parsers); the Java application.
\<close>

end
